(* ===== verification/Prelude.thy ===== *)
theory Prelude
  imports Main "HOL-Library.Word" "HOL-Library.List_Lexorder" "HOL-Library.Product_Lexorder"
    "HOL-Library.Multiset" "HOL-Library.Code_Target_Numeral"
begin

text \<open>
  What every component shares: exceptions as values of a sum type with the sequencing
  operator \<open>bindE\<close> and the loops \<open>foldE\<close>, \<open>mapE\<close> and \<open>eachE\<close>; Python strings as lists of
  code points, byte strings as lists of 8-bit words; and the generic lemmas on them.

  A definition of the development is the source's function with its checks in the
  source's order: \<open>if bad: raise Invalid(...)\<close> is \<open>if bad then Inl (Invalid ...) else ...\<close>,
  and a call that may raise is \<open>bindE call (\<lambda>result. ...)\<close>. The collection \<open>ok_simps\<close>
  turns "this function returned" into the conjunction of the checks that passed.
\<close>

named_theorems ok_simps \<open>inversion of successful runs\<close>

section \<open>Strings and bytes\<close>

text \<open>
  A Python \<open>str\<close> is a list of code points, which are natural numbers (lone surrogates
  included, as in Python); comparison of strings is lexicographic by code point, which is
  the order of \<open>List_Lexorder\<close>. \<open>u ''abc''\<close> is a literal. A \<open>bytes\<close> object is a list of
  8-bit words and \<open>bs ''abc''\<close> a byte literal.
\<close>

type_synonym pystr = "nat list"
type_synonym byte = "8 word"
type_synonym pybytes = "byte list"

definition u :: "string \<Rightarrow> pystr" where
  "u s = map of_char s"

definition bs :: "string \<Rightarrow> pybytes" where
  "bs s = map of_char s"

lemma u_inj [simp]: "u s = u t \<longleftrightarrow> s = t"
proof -
  have "inj (of_char :: char \<Rightarrow> nat)" by (rule inj_of_char)
  then show ?thesis by (simp add: u_def inj_map_eq_map)
qed

lemma u_Nil [simp]: "u [] = []" "u s = [] \<longleftrightarrow> s = []" "[] = u s \<longleftrightarrow> s = []"
  by (auto simp: u_def)

lemma length_u [simp]: "length (u s) = length s"
  by (simp add: u_def)

lemma length_bs [simp]: "length (bs s) = length s"
  by (simp add: bs_def)

lemma u_append: "u (s @ t) = u s @ u t"
  by (simp add: u_def)

lemma unat_byte: "unat (x :: byte) < 256"
  using unsigned_less [of x] by simp

section \<open>Exceptions\<close>

text \<open>
  \<open>Invalid\<close> is the library's own \<open>class Invalid(ValueError)\<close> of \<open>tools/nia_common.py\<close>,
  \<open>Rejected\<close> the class of the same role under \<open>native/\<close>, \<open>UsageError\<close> the one of
  \<open>native/management_grammar.py\<close>, \<open>DownloadError\<close> the one of the upstream client that the fetchers of
  \<open>native/repository.py\<close> raise; the others are the built-in exceptions the modelled code
  can raise without a \<open>raise\<close> statement of its own.
\<close>

datatype exn =
    Invalid pystr
  | Rejected pystr
  | UsageError pystr
  | KeyError
  | TypeError
  | AttributeError
  | IndexError
  | StopIteration
  | ValueError
  | UnicodeDecodeError
  | RecursionError
  | OSError
  | BlockingIOError
  | ProcessLookupError
  | TimeoutError
  | FileNotFoundError
  | DownloadError pystr
  | ExceptionGroup pystr "exn list"

type_synonym 'a res = "exn + 'a"

definition invalid :: "string \<Rightarrow> 'a res" where
  "invalid s = Inl (Invalid (u s))"

definition rejected :: "string \<Rightarrow> 'a res" where
  "rejected s = Inl (Rejected (u s))"

lemma invalid_neq_Inr [simp]: "invalid s \<noteq> Inr x" "Inr x \<noteq> invalid s"
  by (simp_all add: invalid_def)

lemma rejected_neq_Inr [simp]: "rejected s \<noteq> Inr x" "Inr x \<noteq> rejected s"
  by (simp_all add: rejected_def)

lemma invalid_inj [simp]: "invalid s = invalid t \<longleftrightarrow> s = t"
  by (simp add: invalid_def)

lemma rejected_inj [simp]: "rejected s = rejected t \<longleftrightarrow> s = t"
  by (simp add: rejected_def)

text \<open>Sequencing: the first exception ends the run.\<close>

fun bindE :: "'a res \<Rightarrow> ('a \<Rightarrow> 'b res) \<Rightarrow> 'b res" where
  "bindE (Inl e) f = Inl e"
| "bindE (Inr x) f = f x"

lemma bindE_cong [fundef_cong]:
  "m = m' \<Longrightarrow> (\<And>x. m' = Inr x \<Longrightarrow> f x = g x) \<Longrightarrow> bindE m f = bindE m' g"
  by (cases m') auto

lemma bindE_invalid [simp]: "bindE (invalid s) f = invalid s"
  by (simp add: invalid_def)

lemma bindE_rejected [simp]: "bindE (rejected s) f = rejected s"
  by (simp add: rejected_def)

lemma bindE_eq_Inr [ok_simps]: "bindE m f = Inr y \<longleftrightarrow> (\<exists>x. m = Inr x \<and> f x = Inr y)"
  by (cases m) auto

lemma if_Inl_eq_Inr [ok_simps]: "(if c then Inl e else m) = Inr y \<longleftrightarrow> \<not> c \<and> m = Inr y"
  by simp

lemma if_invalid_eq_Inr [ok_simps]: "(if c then invalid s else m) = Inr y \<longleftrightarrow> \<not> c \<and> m = Inr y"
  by simp

lemma if_rejected_eq_Inr [ok_simps]: "(if c then rejected s else m) = Inr y \<longleftrightarrow> \<not> c \<and> m = Inr y"
  by simp

lemma bindE_assoc: "bindE (bindE m f) g = bindE m (\<lambda>x. bindE (f x) g)"
  by (cases m) auto

text \<open>\<open>try: ... except E as exc: raise Invalid(msg) from exc\<close>, for the exceptions \<open>p\<close> selects.\<close>

definition exceptE :: "(exn \<Rightarrow> bool) \<Rightarrow> exn \<Rightarrow> 'a res \<Rightarrow> 'a res" where
  "exceptE p e' m = (case m of Inl e \<Rightarrow> Inl (if p e then e' else e) | Inr x \<Rightarrow> Inr x)"

lemma exceptE_eq_Inr [simp]: "exceptE p e m = Inr x \<longleftrightarrow> m = Inr x"
  by (auto simp: exceptE_def split: sum.splits)

lemma exceptE_Inr [simp]: "exceptE p e (Inr x) = Inr x"
  by (simp add: exceptE_def)

definition is_ok :: "'a res \<Rightarrow> bool" where
  "is_ok m = (case m of Inl e \<Rightarrow> False | Inr x \<Rightarrow> True)"

lemma is_ok_simps [simp]: "is_ok (Inr x)" "\<not> is_ok (Inl e)" "\<not> is_ok (invalid s)"
    "\<not> is_ok (rejected s)"
  by (simp_all add: is_ok_def invalid_def rejected_def)

lemma is_ok_iff: "is_ok m \<longleftrightarrow> (\<exists>x. m = Inr x)"
  by (cases m) auto

section \<open>Loops that may raise\<close>

text \<open>\<open>for x in xs: state = step(state, x)\<close>.\<close>

fun foldE :: "('s \<Rightarrow> 'a \<Rightarrow> 's res) \<Rightarrow> 's \<Rightarrow> 'a list \<Rightarrow> 's res" where
  "foldE f s [] = Inr s"
| "foldE f s (x # xs) = bindE (f s x) (\<lambda>s'. foldE f s' xs)"

text \<open>\<open>[f(x) for x in xs]\<close>.\<close>

fun mapE :: "('a \<Rightarrow> 'b res) \<Rightarrow> 'a list \<Rightarrow> 'b list res" where
  "mapE f [] = Inr []"
| "mapE f (x # xs) = bindE (f x) (\<lambda>y. bindE (mapE f xs) (\<lambda>ys. Inr (y # ys)))"

text \<open>\<open>for x in xs: f(x)\<close>, for its checks only.\<close>

fun eachE :: "('a \<Rightarrow> unit res) \<Rightarrow> 'a list \<Rightarrow> unit res" where
  "eachE f [] = Inr ()"
| "eachE f (x # xs) = bindE (f x) (\<lambda>_. eachE f xs)"

lemma foldE_cong [fundef_cong]:
  assumes "xs = ys" "s = t" "\<And>a x. x \<in> set ys \<Longrightarrow> f a x = g a x"
  shows "foldE f s xs = foldE g t ys"
proof -
  have "foldE f a ys = foldE g a ys" for a
    using assms(3) by (induction ys arbitrary: a) (auto intro!: bindE_cong)
  then show ?thesis using assms(1,2) by simp
qed

lemma mapE_cong [fundef_cong]:
  "xs = ys \<Longrightarrow> (\<And>x. x \<in> set ys \<Longrightarrow> f x = g x) \<Longrightarrow> mapE f xs = mapE g ys"
  by (induction ys arbitrary: xs) auto

lemma eachE_cong [fundef_cong]:
  "xs = ys \<Longrightarrow> (\<And>x. x \<in> set ys \<Longrightarrow> f x = g x) \<Longrightarrow> eachE f xs = eachE g ys"
  by (induction ys arbitrary: xs) (auto intro!: bindE_cong)

lemma eachE_eq_Inr [ok_simps]: "eachE f xs = Inr y \<longleftrightarrow> (\<forall>x \<in> set xs. f x = Inr ())"
  by (induction xs) (auto simp: bindE_eq_Inr)

lemma mapE_eq_Inr [ok_simps]:
  "mapE f xs = Inr ys \<longleftrightarrow> list_all2 (\<lambda>x y. f x = Inr y) xs ys"
  by (induction xs arbitrary: ys) (auto simp: bindE_eq_Inr list_all2_Cons1)

lemma mapE_length: "mapE f xs = Inr ys \<Longrightarrow> length ys = length xs"
  by (auto simp: mapE_eq_Inr dest: list_all2_lengthD)

lemma mapE_in: "mapE f xs = Inr ys \<Longrightarrow> y \<in> set ys \<Longrightarrow> \<exists>x \<in> set xs. f x = Inr y"
  by (induction xs arbitrary: ys) (auto simp: bindE_eq_Inr)

lemma mapE_Inr: "(\<And>x. x \<in> set xs \<Longrightarrow> f x = Inr (g x)) \<Longrightarrow> mapE f xs = Inr (map g xs)"
  by (induction xs) auto

lemma foldE_append: "foldE f s (xs @ ys) = bindE (foldE f s xs) (\<lambda>s'. foldE f s' ys)"
  by (induction xs arbitrary: s) (auto simp: bindE_assoc)

text \<open>The invariant rule of a loop, and its form with the processed prefix.\<close>

lemma foldE_invariant:
  assumes "foldE f s xs = Inr s'" "P s"
    and "\<And>s x s'. x \<in> set xs \<Longrightarrow> P s \<Longrightarrow> f s x = Inr s' \<Longrightarrow> P s'"
  shows "P s'"
  using assms by (induction xs arbitrary: s) (auto simp: bindE_eq_Inr)

lemma foldE_prefix_invariant:
  assumes "foldE f s xs = Inr s'" "P [] s"
    and "\<And>ys x zs s s'. xs = ys @ x # zs \<Longrightarrow> P ys s \<Longrightarrow> f s x = Inr s' \<Longrightarrow> P (ys @ [x]) s'"
  shows "P xs s'"
proof -
  have "P (ys @ zs) s'" if "foldE f t zs = Inr s'" "P ys t" "xs = ys @ zs" for ys zs t
    using that
  proof (induction zs arbitrary: ys t)
    case Nil
    then show ?case by simp
  next
    case (Cons z zs)
    then obtain t' where t': "f t z = Inr t'" "foldE f t' zs = Inr s'"
      by (auto simp: bindE_eq_Inr)
    with Cons.prems assms(3) have "P (ys @ [z]) t'" by blast
    with Cons.IH [of t' "ys @ [z]"] t' Cons.prems show ?case by simp
  qed
  from this [of s xs "[]"] assms show ?thesis by simp
qed

section \<open>Sorted tuples of distinct elements: \<open>sorted(set(xs))\<close>\<close>

definition sorted_set :: "'a::linorder list \<Rightarrow> 'a list" where
  "sorted_set xs = sort (remdups xs)"

lemma set_sorted_set [simp]: "set (sorted_set xs) = set xs"
  by (simp add: sorted_set_def)

lemma distinct_sorted_set [simp]: "distinct (sorted_set xs)"
  by (simp add: sorted_set_def)

lemma sorted_sorted_set [simp]: "sorted (sorted_set xs)"
  by (simp add: sorted_set_def)

lemma sorted_set_id: "sorted xs \<Longrightarrow> distinct xs \<Longrightarrow> sorted_set xs = xs"
  by (simp add: sorted_set_def distinct_remdups_id sorted_sort_id)

lemma sorted_set_eq_iff: "sorted_set xs = xs \<longleftrightarrow> sorted xs \<and> distinct xs"
  by (metis distinct_sorted_set sorted_set_id sorted_sorted_set)

lemma sorted_set_unique: "set xs = set ys \<Longrightarrow> sorted_set xs = sorted_set ys"
  by (metis distinct_sorted_set set_sorted_set sorted_distinct_set_unique sorted_sorted_set)

section \<open>Dictionaries\<close>

text \<open>
  A Python \<open>dict\<close> keeps insertion order and its keys are distinct: an association list.
  \<open>dict_set\<close> is \<open>d[k] = v\<close>: it replaces the value in place or appends the pair.
\<close>

fun dict_set :: "'k \<Rightarrow> 'v \<Rightarrow> ('k \<times> 'v) list \<Rightarrow> ('k \<times> 'v) list" where
  "dict_set k v [] = [(k, v)]"
| "dict_set k v ((k', v') # d) = (if k' = k then (k, v) # d else (k', v') # dict_set k v d)"

lemma map_of_dict_set [simp]: "map_of (dict_set k v d) = (map_of d)(k \<mapsto> v)"
  by (induction k v d rule: dict_set.induct) (auto simp: fun_eq_iff)

lemma keys_dict_set: "map fst (dict_set k v d) =
    (if k \<in> fst ` set d then map fst d else map fst d @ [k])"
  by (induction k v d rule: dict_set.induct) auto

lemma set_keys_dict_set [simp]: "fst ` set (dict_set k v d) = insert k (fst ` set d)"
  by (induction k v d rule: dict_set.induct) auto

lemma distinct_dict_set [simp]: "distinct (map fst (dict_set k v d)) \<longleftrightarrow> distinct (map fst d)"
  by (auto simp: keys_dict_set)

lemma dict_set_new: "k \<notin> fst ` set d \<Longrightarrow> dict_set k v d = d @ [(k, v)]"
  by (induction k v d rule: dict_set.induct) auto

lemma length_dict_set: "length (dict_set k v d) \<le> Suc (length d)"
  by (induction k v d rule: dict_set.induct) auto

text \<open>\<open>sorted(d.items())\<close>: the keys are distinct, so the values are never compared.\<close>

definition sorted_items :: "('k::linorder \<times> 'v) list \<Rightarrow> ('k \<times> 'v) list" where
  "sorted_items d = sort_key fst d"

lemma set_sorted_items [simp]: "set (sorted_items d) = set d"
  by (simp add: sorted_items_def)

lemma sorted_items_sorted [simp]: "sorted (map fst (sorted_items d))"
  by (simp add: sorted_items_def)

lemma length_sorted_items [simp]: "length (sorted_items d) = length d"
  by (simp add: sorted_items_def)

lemma distinct_sorted_items [simp]:
  "distinct (map fst (sorted_items d)) \<longleftrightarrow> distinct (map fst d)"
proof -
  have "mset (map fst (sorted_items d)) = mset (map fst d)"
    by (simp add: sorted_items_def)
  then show ?thesis by (metis mset_eq_imp_distinct_iff)
qed

lemma map_of_sorted_items [simp]:
  assumes "distinct (map fst d)"
  shows "map_of (sorted_items d) = map_of d"
  using assms by (metis distinct_sorted_items map_of_inject_set set_sorted_items)

lemma sorted_items_id: "sorted (map fst d) \<Longrightarrow> sorted_items d = d"
  unfolding sorted_items_def by (induction d) (auto simp: insort_is_Cons)

end
