(* ===== verification/Py_Str.thy ===== *)
theory Py_Str
  imports Prelude
begin

text \<open>
  The operations of Python's \<open>str\<close>, \<open>bytes\<close> and \<open>int\<close> that the modelled code calls:
  \<open>strip\<close>, \<open>split\<close>, \<open>splitlines\<close>, \<open>partition\<close>, \<open>startswith\<close>, \<open>isdigit\<close>, \<open>int()\<close>,
  the UTF-8 and ASCII codecs, and the character classes of its regular expressions. The
  Unicode tables (white space, decimal digits, digits) are those of Unicode 15.1, which
  Debian 13's Python 3.13 uses.
\<close>

section \<open>Character classes\<close>

abbreviation (input) chr1 :: "char \<Rightarrow> nat" where
  "chr1 c \<equiv> of_char c"

definition ascii_digit :: "nat \<Rightarrow> bool" where
  "ascii_digit c \<longleftrightarrow> 48 \<le> c \<and> c \<le> 57"

definition ascii_lower :: "nat \<Rightarrow> bool" where
  "ascii_lower c \<longleftrightarrow> 97 \<le> c \<and> c \<le> 122"

definition ascii_upper :: "nat \<Rightarrow> bool" where
  "ascii_upper c \<longleftrightarrow> 65 \<le> c \<and> c \<le> 90"

definition ascii_alnum :: "nat \<Rightarrow> bool" where
  "ascii_alnum c \<longleftrightarrow> ascii_digit c \<or> ascii_lower c \<or> ascii_upper c"

definition lower_alnum :: "nat \<Rightarrow> bool" where
  "lower_alnum c \<longleftrightarrow> ascii_digit c \<or> ascii_lower c"

definition hex_lower :: "nat \<Rightarrow> bool" where
  "hex_lower c \<longleftrightarrow> ascii_digit c \<or> (97 \<le> c \<and> c \<le> 102)"

text \<open>\<open>str.isspace\<close>, which is also \<open>\s\<close> of \<open>re\<close> and what \<open>split()\<close> and \<open>strip()\<close> use.\<close>

definition is_space :: "nat \<Rightarrow> bool" where
  "is_space c \<longleftrightarrow> (9 \<le> c \<and> c \<le> 13) \<or> (28 \<le> c \<and> c \<le> 32) \<or> c = 133 \<or> c = 160 \<or> c = 5760
     \<or> (8192 \<le> c \<and> c \<le> 8202) \<or> c = 8232 \<or> c = 8233 \<or> c = 8239 \<or> c = 8287 \<or> c = 12288"

text \<open>The line boundaries of \<open>str.splitlines\<close>.\<close>

definition is_break :: "nat \<Rightarrow> bool" where
  "is_break c \<longleftrightarrow> (10 \<le> c \<and> c \<le> 13) \<or> (28 \<le> c \<and> c \<le> 30) \<or> c = 133 \<or> c = 8232 \<or> c = 8233"

lemma is_break_space: "is_break c \<Longrightarrow> is_space c"
  by (auto simp: is_break_def is_space_def)

text \<open>The zeros of the runs of ten decimal digits (category Nd) of Unicode 15.1.\<close>

definition decimal_zeros :: "nat list" where
  "decimal_zeros = [48, 1632, 1776, 1984, 2406, 2534, 2662, 2790, 2918, 3046, 3174, 3302, 3430,
     3558, 3664, 3792, 3872, 4160, 4240, 6112, 6160, 6470, 6608, 6784, 6800, 6992, 7088, 7232,
     7248, 42528, 43216, 43264, 43472, 43504, 43600, 44016, 65296, 66720, 68912, 69734, 69872,
     69942, 70096, 70384, 70736, 70864, 71248, 71360, 71472, 71904, 72016, 72784, 73040, 73120,
     73552, 92768, 92864, 93008, 120782, 120792, 120802, 120812, 120822, 123200, 123632, 124144,
     125264, 130032]"

text \<open>The characters that are \<open>isdigit()\<close> without being decimal (superscripts, circled digits, ...).\<close>

definition other_digit_ranges :: "(nat \<times> nat) list" where
  "other_digit_ranges = [(178, 179), (185, 185), (4969, 4977), (6618, 6618), (8304, 8304),
     (8308, 8313), (8320, 8329), (9312, 9320), (9332, 9340), (9352, 9360), (9450, 9450),
     (9461, 9469), (9471, 9471), (10102, 10110), (10112, 10120), (10122, 10130), (68160, 68163),
     (69216, 69224), (69714, 69722), (127232, 127242)]"

definition decimal_value :: "nat \<Rightarrow> nat option" where
  "decimal_value c = map_option (\<lambda>z. c - z) (find (\<lambda>z. z \<le> c \<and> c \<le> z + 9) decimal_zeros)"

definition is_digit_char :: "nat \<Rightarrow> bool" where
  "is_digit_char c \<longleftrightarrow> decimal_value c \<noteq> None
     \<or> list_ex (\<lambda>(a, b). a \<le> c \<and> c \<le> b) other_digit_ranges"

lemma decimal_value_ascii: "ascii_digit c \<Longrightarrow> decimal_value c = Some (c - 48)"
  by (simp add: decimal_value_def decimal_zeros_def ascii_digit_def)

lemma ascii_digit_is_digit: "ascii_digit c \<Longrightarrow> is_digit_char c"
  by (simp add: is_digit_char_def decimal_value_ascii)

lemma is_digit_char_ascii: "c < 128 \<Longrightarrow> is_digit_char c \<longleftrightarrow> ascii_digit c"
  by (auto simp: is_digit_char_def decimal_value_def decimal_zeros_def other_digit_ranges_def
      ascii_digit_def)

definition isdigit :: "pystr \<Rightarrow> bool" where
  "isdigit s \<longleftrightarrow> s \<noteq> [] \<and> list_all is_digit_char s"

section \<open>Slicing and splitting\<close>

definition startswith :: "'a list \<Rightarrow> 'a list \<Rightarrow> bool" where
  "startswith s p \<longleftrightarrow> take (length p) s = p"

definition endswith :: "'a list \<Rightarrow> 'a list \<Rightarrow> bool" where
  "endswith s p \<longleftrightarrow> startswith (rev s) (rev p)"

lemma startswith_iff: "startswith s p \<longleftrightarrow> (\<exists>r. s = p @ r)"
  by (auto simp: startswith_def) (metis append_take_drop_id)

lemma startswith_append [simp]: "startswith (p @ r) p"
  by (simp add: startswith_def)

lemma startswith_Cons [simp]: "startswith (x # s) (y # p) \<longleftrightarrow> x = y \<and> startswith s p"
  "startswith s []" "\<not> startswith [] (y # p)"
  by (auto simp: startswith_def)

definition lstrip :: "('a \<Rightarrow> bool) \<Rightarrow> 'a list \<Rightarrow> 'a list" where
  "lstrip p s = dropWhile p s"

definition rstrip :: "('a \<Rightarrow> bool) \<Rightarrow> 'a list \<Rightarrow> 'a list" where
  "rstrip p s = rev (dropWhile p (rev s))"

definition strip :: "('a \<Rightarrow> bool) \<Rightarrow> 'a list \<Rightarrow> 'a list" where
  "strip p s = rstrip p (lstrip p s)"

text \<open>\<open>s.split(c)\<close> for a one-character separator: never empty, and joining gives \<open>s\<close> back.\<close>

fun split_on :: "'a \<Rightarrow> 'a list \<Rightarrow> 'a list list" where
  "split_on c [] = [[]]"
| "split_on c (x # xs) =
     (if x = c then [] # split_on c xs
      else (case split_on c xs of [] \<Rightarrow> [[x]] | w # ws \<Rightarrow> (x # w) # ws))"

fun join_on :: "'a list \<Rightarrow> 'a list list \<Rightarrow> 'a list" where
  "join_on c [] = []"
| "join_on c [w] = w"
| "join_on c (w # v # ws) = w @ c @ join_on c (v # ws)"

lemma split_on_not_Nil [simp]: "split_on c s \<noteq> []"
  by (cases s) (auto split: list.splits)

lemma join_split_on [simp]: "join_on [c] (split_on c s) = s"
proof (induction s)
  case Nil
  then show ?case by simp
next
  case (Cons x s)
  obtain w ws where "split_on c s = w # ws" by (cases "split_on c s") auto
  with Cons show ?case by (cases ws) auto
qed

lemma split_on_no_sep: "w \<in> set (split_on c s) \<Longrightarrow> c \<notin> set w"
  by (induction s arbitrary: w) (auto split: if_splits list.splits)

lemma split_on_single: "c \<notin> set w \<Longrightarrow> split_on c w = [w]"
  by (induction w) auto

lemma split_on_append: "c \<notin> set w \<Longrightarrow> split_on c (w @ c # s) = w # split_on c s"
  by (induction w) auto

lemma split_join_on:
  "ws \<noteq> [] \<Longrightarrow> \<forall>w \<in> set ws. c \<notin> set w \<Longrightarrow> split_on c (join_on [c] ws) = ws"
  by (induction ws rule: join_on.induct [of "\<lambda>_. _"])
     (auto simp: split_on_single split_on_append)

lemma set_join_on: "w \<in> set ws \<Longrightarrow> set w \<subseteq> set (join_on c ws)"
  by (induction c ws rule: join_on.induct) auto

lemma set_split_on: "w \<in> set (split_on c s) \<Longrightarrow> set w \<subseteq> set s"
  using set_join_on [of w "split_on c s" "[c]"] by simp

lemma length_split_on: "length (split_on c s) = Suc (count_list s c)"
  by (induction s) (auto split: list.splits)

text \<open>\<open>s.split(c, 1)\<close> and \<open>s.partition(c)\<close>: \<open>None\<close> when \<open>c\<close> does not occur.\<close>

fun split_first :: "'a \<Rightarrow> 'a list \<Rightarrow> ('a list \<times> 'a list) option" where
  "split_first c [] = None"
| "split_first c (x # xs) =
     (if x = c then Some ([], xs) else map_option (\<lambda>(a, b). (x # a, b)) (split_first c xs))"

lemma split_first_Some: "split_first c s = Some (a, b) \<Longrightarrow> s = a @ c # b \<and> c \<notin> set a"
  by (induction s arbitrary: a) (auto split: if_splits)

lemma split_first_None: "split_first c s = None \<longleftrightarrow> c \<notin> set s"
  by (induction s) auto

lemma split_first_append: "c \<notin> set a \<Longrightarrow> split_first c (a @ c # b) = Some (a, b)"
  by (induction a) auto

text \<open>\<open>s.rsplit(c, 1)\<close>.\<close>

definition split_last :: "'a \<Rightarrow> 'a list \<Rightarrow> ('a list \<times> 'a list) option" where
  "split_last c s = map_option (\<lambda>(a, b). (rev b, rev a)) (split_first c (rev s))"

lemma split_last_Some: "split_last c s = Some (a, b) \<Longrightarrow> s = a @ c # b \<and> c \<notin> set b"
proof -
  assume "split_last c s = Some (a, b)"
  then have "split_first c (rev s) = Some (rev b, rev a)"
    by (auto simp: split_last_def)
  from split_first_Some [OF this] have "rev s = rev b @ c # rev a" "c \<notin> set b"
    by auto
  then have "s = rev (rev b @ c # rev a)" by (metis rev_rev_ident)
  then show ?thesis using \<open>c \<notin> set b\<close> by simp
qed

lemma split_last_None: "split_last c s = None \<longleftrightarrow> c \<notin> set s"
  by (simp add: split_last_def split_first_None)

text \<open>\<open>s.split()\<close>: the maximal runs of characters that are not white space.\<close>

lemma length_words_step:
  assumes "dropWhile is_space s \<noteq> []"
  shows "length (dropWhile (\<lambda>c. \<not> is_space c) (dropWhile is_space s)) < length s"
proof -
  obtain x xs where x: "dropWhile is_space s = x # xs" "\<not> is_space x"
    using assms by (metis hd_dropWhile list.exhaust_sel)
  have "length (dropWhile (\<lambda>c. \<not> is_space c) xs) \<le> length xs"
    by (rule length_dropWhile_le)
  also have "\<dots> < length (dropWhile is_space s)" by (simp add: x(1))
  also have "\<dots> \<le> length s" by (rule length_dropWhile_le)
  finally show ?thesis using x by simp
qed

function words :: "pystr \<Rightarrow> pystr list" where
  "words s = (let t = dropWhile is_space s in
     if t = [] then [] else takeWhile (\<lambda>c. \<not> is_space c) t # words (dropWhile (\<lambda>c. \<not> is_space c) t))"
  by pat_completeness auto
termination by (relation "measure length") (auto intro: length_words_step)

declare words.simps [simp del]

lemma words_blank: "list_all is_space s \<Longrightarrow> words s = []"
  by (subst words.simps) (simp add: list_all_iff dropWhile_eq_Nil_conv)

lemma words_Nil: "dropWhile is_space s = [] \<Longrightarrow> words s = []"
  by (simp add: words.simps [of s])

lemma words_Cons:
  "dropWhile is_space s = t \<Longrightarrow> t \<noteq> [] \<Longrightarrow>
     words s = takeWhile (\<lambda>c. \<not> is_space c) t # words (dropWhile (\<lambda>c. \<not> is_space c) t)"
  by (simp add: words.simps [of s])

lemma ball_insert_subset:
  assumes "\<forall>w \<in> W. A w \<and> B w \<and> set w \<subseteq> R" "R \<subseteq> S" "A v" "B v" "set v \<subseteq> S"
  shows "\<forall>w \<in> insert v W. A w \<and> B w \<and> set w \<subseteq> S"
  using assms by blast

lemma words_in:
  "\<forall>w \<in> set (words s). w \<noteq> [] \<and> (\<forall>c \<in> set w. \<not> is_space c) \<and> set w \<subseteq> set s"
proof (induction s rule: words.induct)
  case (1 s)
  let ?t = "dropWhile is_space s"
  show ?case
  proof (cases "?t = []")
    case True
    then show ?thesis by (simp add: words_Nil)
  next
    case False
    let ?w = "takeWhile (\<lambda>c. \<not> is_space c) ?t" and ?r = "dropWhile (\<lambda>c. \<not> is_space c) ?t"
    have ts: "set ?t \<subseteq> set s" by (auto dest: set_dropWhileD)
    then have rs: "set ?r \<subseteq> set s" by (auto dest: set_dropWhileD)
    have w1: "?w \<noteq> []" using False hd_dropWhile [OF False] by (cases ?t) auto
    have w2: "\<forall>c \<in> set ?w. \<not> is_space c" by (auto dest: set_takeWhileD)
    have w3: "set ?w \<subseteq> set s" using ts by (auto dest: set_takeWhileD)
    have "\<forall>w \<in> set (words ?r). w \<noteq> [] \<and> (\<forall>c \<in> set w. \<not> is_space c) \<and> set w \<subseteq> set ?r"
      by (rule "1.IH" [OF refl False])
    note mem = ball_insert_subset [where A = "\<lambda>w. w \<noteq> []" and B = "\<lambda>w. \<forall>c \<in> set w. \<not> is_space c",
        OF this rs w1 w2 w3]
    have eq: "words s = ?w # words ?r" by (rule words_Cons [OF refl False])
    show ?thesis unfolding eq list.set by (rule mem)
  qed
qed

text \<open>\<open>s.splitlines()\<close>.\<close>

fun splitlines_from :: "pystr \<Rightarrow> pystr \<Rightarrow> pystr list" where
  "splitlines_from acc [] = (if acc = [] then [] else [rev acc])"
| "splitlines_from acc (c # s) =
     (if c = 13 \<and> s \<noteq> [] \<and> hd s = 10 then rev acc # splitlines_from [] (tl s)
      else if is_break c then rev acc # splitlines_from [] s
      else splitlines_from (c # acc) s)"

definition splitlines :: "pystr \<Rightarrow> pystr list" where
  "splitlines s = splitlines_from [] s"

lemma splitlines_from_no_break:
  "\<forall>c \<in> set acc. \<not> is_break c \<Longrightarrow> \<forall>l \<in> set (splitlines_from acc s). \<forall>c \<in> set l. \<not> is_break c"
proof (induction acc s rule: splitlines_from.induct)
  case (1 acc)
  then show ?case by simp
next
  case (2 acc c s)
  consider (crlf) "c = 13 \<and> s \<noteq> [] \<and> hd s = 10" | (brk) "\<not> (c = 13 \<and> s \<noteq> [] \<and> hd s = 10)" "is_break c"
    | (other) "\<not> (c = 13 \<and> s \<noteq> [] \<and> hd s = 10)" "\<not> is_break c" by blast
  then show ?case
  proof cases
    case crlf
    with "2.IH"(1) [OF crlf] "2.prems" show ?thesis by simp
  next
    case brk
    with "2.IH"(2) [OF brk] "2.prems" show ?thesis by (simp only: splitlines_from.simps) simp
  next
    case other
    with "2.IH"(3) [OF other] "2.prems" show ?thesis by (simp only: splitlines_from.simps) simp
  qed
qed

lemma splitlines_no_break: "l \<in> set (splitlines s) \<Longrightarrow> c \<in> set l \<Longrightarrow> \<not> is_break c"
  using splitlines_from_no_break [of "[]" s] by (auto simp: splitlines_def)

section \<open>Numbers\<close>

definition digits_value :: "nat list \<Rightarrow> nat" where
  "digits_value ds = foldl (\<lambda>a d. 10 * a + d) 0 ds"

lemma digits_value_append: "digits_value (ds @ [d]) = 10 * digits_value ds + d"
  by (simp add: digits_value_def)

text \<open>\<open>str(n)\<close>.\<close>

fun str_nat :: "nat \<Rightarrow> pystr" where
  "str_nat n = (if n < 10 then [48 + n] else str_nat (n div 10) @ [48 + n mod 10])"

declare str_nat.simps [simp del]

definition str_int :: "int \<Rightarrow> pystr" where
  "str_int i = (if i < 0 then 45 # str_nat (nat (- i)) else str_nat (nat i))"

lemma str_nat_digits: "c \<in> set (str_nat n) \<Longrightarrow> ascii_digit c"
proof (induction n rule: str_nat.induct)
  case (1 n)
  then show ?case
    by (cases "n < 10") (auto simp: str_nat.simps [of n] ascii_digit_def)
qed

lemma str_nat_not_Nil [simp]: "str_nat n \<noteq> []"
  by (subst str_nat.simps) simp

lemma str_nat_value: "digits_value (map (\<lambda>c. c - 48) (str_nat n)) = n"
proof (induction n rule: str_nat.induct)
  case (1 n)
  show ?case
  proof (cases "n < 10")
    case True
    then show ?thesis by (simp add: str_nat.simps [of n] digits_value_def)
  next
    case False
    with 1 show ?thesis by (simp add: str_nat.simps [of n] digits_value_append)
  qed
qed

text \<open>No leading zero, except for \<open>0\<close> itself.\<close>

lemma str_nat_hd: "hd (str_nat n) = 48 \<longleftrightarrow> n = 0"
proof (induction n rule: str_nat.induct)
  case (1 n)
  show ?case
  proof (cases "n < 10")
    case True
    then show ?thesis by (simp add: str_nat.simps [of n])
  next
    case False
    with 1 show ?thesis by (simp add: str_nat.simps [of n])
  qed
qed

lemma str_nat_0 [simp]: "str_nat 0 = [48]"
  by (simp add: str_nat.simps)

lemma str_nat_inj: "str_nat m = str_nat n \<Longrightarrow> m = n"
  by (metis str_nat_value)

lemma length_str_nat: "n < 10 ^ k \<Longrightarrow> 0 < k \<Longrightarrow> length (str_nat n) \<le> k"
proof (induction n arbitrary: k rule: str_nat.induct)
  case (1 n)
  show ?case
  proof (cases "n < 10")
    case True
    with "1.prems" show ?thesis by (simp add: str_nat.simps [of n])
  next
    case False
    then obtain j where k: "k = Suc j" "0 < j"
      using "1.prems" by (cases k; cases "k - 1") auto
    with "1.prems" have "n div 10 < 10 ^ j" by (simp add: less_mult_imp_div_less mult.commute)
    from "1.IH" [OF False this k(2)] False k show ?thesis by (simp add: str_nat.simps [of n])
  qed
qed

text \<open>
  \<open>int(s)\<close> in base ten: surrounding white space, a sign, decimal digits of any script with
  single underscores between them, and the interpreter's limit of 4300 digits.
\<close>

definition MAX_STR_DIGITS :: nat where
  "MAX_STR_DIGITS = 4300"

fun int_digits :: "bool \<Rightarrow> pystr \<Rightarrow> nat list option" where
  "int_digits after_digit [] = (if after_digit then Some [] else None)"
| "int_digits after_digit (c # s) =
     (if c = 95 then (if after_digit then int_digits False s else None)
      else (case decimal_value c of None \<Rightarrow> None
            | Some d \<Rightarrow> map_option ((#) d) (int_digits True s)))"

definition py_int :: "pystr \<Rightarrow> int res" where
  "py_int s = (let t = strip is_space s;
       neg = startswith t [45];
       ds = (if neg \<or> startswith t [43] then tl t else t)
     in case int_digits False ds of None \<Rightarrow> Inl ValueError
        | Some vs \<Rightarrow> if length vs > MAX_STR_DIGITS then Inl ValueError
                     else Inr (if neg then - int (digits_value vs) else int (digits_value vs)))"

section \<open>Codecs\<close>

text \<open>\<open>s.encode('ascii')\<close> of a string known to be ASCII, and \<open>raw.decode('ascii')\<close>.\<close>

definition ascii_encode :: "pystr \<Rightarrow> pybytes" where
  "ascii_encode s = map word_of_nat s"

definition ascii_decode :: "pybytes \<Rightarrow> pystr option" where
  "ascii_decode b = (if list_all (\<lambda>x. x < 128) b then Some (map unat b) else None)"

lemma ascii_decode_encode: "\<forall>c \<in> set s. c < 128 \<Longrightarrow> ascii_decode (ascii_encode s) = Some s"
  by (auto simp: ascii_decode_def ascii_encode_def list_all_iff word_less_nat_alt unat_of_nat
      intro!: map_idI)

text \<open>\<open>s.encode('utf-8')\<close> with \<open>errors='strict'\<close>: lone surrogates are an error.\<close>

definition is_scalar :: "nat \<Rightarrow> bool" where
  "is_scalar c \<longleftrightarrow> c < 55296 \<or> (57344 \<le> c \<and> c < 1114112)"

definition utf8_char :: "nat \<Rightarrow> nat list" where
  "utf8_char c =
     (if c < 128 then [c]
      else if c < 2048 then [192 + c div 64, 128 + c mod 64]
      else if c < 65536 then [224 + c div 4096, 128 + c div 64 mod 64, 128 + c mod 64]
      else [240 + c div 262144, 128 + c div 4096 mod 64, 128 + c div 64 mod 64, 128 + c mod 64])"

definition utf8_encode :: "pystr \<Rightarrow> pybytes option" where
  "utf8_encode s = (if list_all is_scalar s then Some (map word_of_nat (concat (map utf8_char s)))
                    else None)"

text \<open>
  \<open>raw.decode('utf-8')\<close>, on the byte values: shortest forms only, no surrogates, nothing
  above \<open>U+10FFFF\<close>.
\<close>

definition cont_byte :: "nat \<Rightarrow> bool" where
  "cont_byte b \<longleftrightarrow> 128 \<le> b \<and> b < 192"

definition utf8_len :: "nat \<Rightarrow> nat" where
  "utf8_len b = (if b < 128 then 1 else if b < 194 then 0 else if b < 224 then 2
                 else if b < 240 then 3 else if b < 245 then 4 else 0)"

definition utf8_step :: "nat list \<Rightarrow> (nat \<times> nat list) option" where
  "utf8_step s = (case s of [] \<Rightarrow> None | b # r \<Rightarrow>
     if utf8_len b = 1 then Some (b, r)
     else if utf8_len b = 2 then
       (case r of c1 # r1 \<Rightarrow>
          if cont_byte c1 then Some ((b - 192) * 64 + (c1 - 128), r1) else None
        | _ \<Rightarrow> None)
     else if utf8_len b = 3 then
       (case r of c1 # c2 # r2 \<Rightarrow>
          (let v = (b - 224) * 4096 + (c1 - 128) * 64 + (c2 - 128) in
           if cont_byte c1 \<and> cont_byte c2 \<and> 2048 \<le> v \<and> is_scalar v then Some (v, r2) else None)
        | _ \<Rightarrow> None)
     else if utf8_len b = 4 then
       (case r of c1 # c2 # c3 # r3 \<Rightarrow>
          (let v = (b - 240) * 262144 + (c1 - 128) * 4096 + (c2 - 128) * 64 + (c3 - 128) in
           if cont_byte c1 \<and> cont_byte c2 \<and> cont_byte c3 \<and> 65536 \<le> v \<and> is_scalar v
           then Some (v, r3) else None)
        | _ \<Rightarrow> None)
     else None)"

lemma utf8_step_shorter: "utf8_step s = Some (v, r) \<Longrightarrow> length r < length s"
  by (auto simp: utf8_step_def Let_def split: list.splits if_splits)

function utf8_decode_nat :: "nat list \<Rightarrow> pystr option" where
  "utf8_decode_nat s = (if s = [] then Some [] else
     (case utf8_step s of None \<Rightarrow> None
      | Some (v, r) \<Rightarrow> map_option ((#) v) (utf8_decode_nat r)))"
  by pat_completeness auto
termination by (relation "measure length") (auto dest: utf8_step_shorter)

declare utf8_decode_nat.simps [simp del]

definition utf8_decode :: "pybytes \<Rightarrow> pystr option" where
  "utf8_decode b = utf8_decode_nat (map unat b)"

text \<open>The codec is a bijection between strings of scalar values and well-formed byte strings.\<close>

lemma scalar_3: "(c::nat) div 4096 * 4096 + c div 64 mod 64 * 64 + c mod 64 = c"
  using mod_mult2_eq [of c 64 64] div_mult_mod_eq [of c 4096] by simp

lemma scalar_4:
  "(c::nat) div 262144 * 262144 + c div 4096 mod 64 * 4096 + c div 64 mod 64 * 64 + c mod 64 = c"
  using mod_mult2_eq [of c 4096 64] mod_mult2_eq [of c 64 64] div_mult_mod_eq [of c 262144] by simp

lemma digits_64:
  assumes "(y::nat) < 64" "z < 64" "w < 64"
  shows "(x * 64 + y) div 64 = x" "(x * 64 + y) mod 64 = y"
    and "(x * 4096 + y * 64 + z) div 4096 = x" "(x * 4096 + y * 64 + z) div 64 mod 64 = y"
      "(x * 4096 + y * 64 + z) mod 64 = z"
    and "(x * 262144 + y * 4096 + z * 64 + w) div 262144 = x"
      "(x * 262144 + y * 4096 + z * 64 + w) div 4096 mod 64 = y"
      "(x * 262144 + y * 4096 + z * 64 + w) div 64 mod 64 = z"
      "(x * 262144 + y * 4096 + z * 64 + w) mod 64 = w"
proof -
  let ?b = "(x * 64 + y) * 64 + z" and ?c = "((x * 64 + y) * 64 + z) * 64 + w"
  have b: "x * 4096 + y * 64 + z = ?b" by simp
  have c: "x * 262144 + y * 4096 + z * 64 + w = ?c" by simp
  have d2: "n div 4096 = n div 64 div 64" for n :: nat by (simp flip: div_mult2_eq)
  have d3: "n div 262144 = n div 64 div 64 div 64" for n :: nat by (simp flip: div_mult2_eq)
  have s: "(n * 64 + m) div 64 = n" "(n * 64 + m) mod 64 = m" if "m < 64" for n m :: nat
    using that by simp_all
  show "(x * 64 + y) div 64 = x" "(x * 64 + y) mod 64 = y"
    using assms by (simp_all only: s)
  show "(x * 4096 + y * 64 + z) div 4096 = x" "(x * 4096 + y * 64 + z) div 64 mod 64 = y"
      "(x * 4096 + y * 64 + z) mod 64 = z"
    unfolding b d2 using assms by (simp_all only: s)
  show "(x * 262144 + y * 4096 + z * 64 + w) div 262144 = x"
      "(x * 262144 + y * 4096 + z * 64 + w) div 4096 mod 64 = y"
      "(x * 262144 + y * 4096 + z * 64 + w) div 64 mod 64 = z"
      "(x * 262144 + y * 4096 + z * 64 + w) mod 64 = w"
    unfolding c d2 d3 using assms by (simp_all only: s)
qed

lemma utf8_step_2:
  "utf8_len b = 2 \<Longrightarrow> cont_byte c1 \<Longrightarrow> v = (b - 192) * 64 + (c1 - 128) \<Longrightarrow>
     utf8_step (b # c1 # r) = Some (v, r)"
  by (simp add: utf8_step_def)

lemma utf8_step_3:
  "utf8_len b = 3 \<Longrightarrow> cont_byte c1 \<Longrightarrow> cont_byte c2 \<Longrightarrow>
     v = (b - 224) * 4096 + (c1 - 128) * 64 + (c2 - 128) \<Longrightarrow> 2048 \<le> v \<Longrightarrow> is_scalar v \<Longrightarrow>
     utf8_step (b # c1 # c2 # r) = Some (v, r)"
  by (simp add: utf8_step_def Let_def)

lemma utf8_step_4:
  "utf8_len b = 4 \<Longrightarrow> cont_byte c1 \<Longrightarrow> cont_byte c2 \<Longrightarrow> cont_byte c3 \<Longrightarrow>
     v = (b - 240) * 262144 + (c1 - 128) * 4096 + (c2 - 128) * 64 + (c3 - 128) \<Longrightarrow>
     65536 \<le> v \<Longrightarrow> is_scalar v \<Longrightarrow> utf8_step (b # c1 # c2 # c3 # r) = Some (v, r)"
  by (simp add: utf8_step_def Let_def)

lemma cont_byte_add: "cont_byte (128 + x mod 64)"
  by (simp add: cont_byte_def)

lemma utf8_step_char:
  assumes "is_scalar c"
  shows "utf8_step (utf8_char c @ r) = Some (c, r)"
proof -
  consider "c < 128" | "128 \<le> c" "c < 2048" | "2048 \<le> c" "c < 65536" | "65536 \<le> c" "c < 1114112"
    using assms by (fastforce simp: is_scalar_def)
  then show ?thesis
  proof cases
    case 1
    then show ?thesis by (simp add: utf8_step_def utf8_char_def utf8_len_def)
  next
    case 2
    then have "2 \<le> c div 64" "c div 64 < 32" by auto
    then have "utf8_len (192 + c div 64) = 2" by (simp add: utf8_len_def)
    moreover have "utf8_char c = [192 + c div 64, 128 + c mod 64]"
      using 2 by (simp add: utf8_char_def)
    moreover have "c = (192 + c div 64 - 192) * 64 + (128 + c mod 64 - 128)" by simp
    ultimately show ?thesis by (simp only: append.simps utf8_step_2 cont_byte_add)
  next
    case 3
    then have "c div 4096 < 16" by auto
    then have "utf8_len (224 + c div 4096) = 3" by (simp add: utf8_len_def)
    moreover have "utf8_char c = [224 + c div 4096, 128 + c div 64 mod 64, 128 + c mod 64]"
      using 3 by (simp add: utf8_char_def)
    moreover have "c = (224 + c div 4096 - 224) * 4096 + (128 + c div 64 mod 64 - 128) * 64 + (128 + c mod 64 - 128)"
      using scalar_3 [of c] by simp
    ultimately show ?thesis using 3(1) assms by (simp only: append.simps utf8_step_3 cont_byte_add)
  next
    case 4
    then have "c div 262144 < 5" by auto
    then have "utf8_len (240 + c div 262144) = 4" by (simp add: utf8_len_def)
    moreover have "utf8_char c =
        [240 + c div 262144, 128 + c div 4096 mod 64, 128 + c div 64 mod 64, 128 + c mod 64]"
      using 4 by (simp add: utf8_char_def)
    moreover have "c = (240 + c div 262144 - 240) * 262144 + (128 + c div 4096 mod 64 - 128) * 4096
        + (128 + c div 64 mod 64 - 128) * 64 + (128 + c mod 64 - 128)"
      using scalar_4 [of c] by simp
    ultimately show ?thesis using 4(1) assms by (simp only: append.simps utf8_step_4 cont_byte_add)
  qed
qed

lemma utf8_char_not_Nil [simp]: "utf8_char c \<noteq> []"
  by (simp add: utf8_char_def)

lemma utf8_decode_nat_encode:
  "list_all is_scalar s \<Longrightarrow> utf8_decode_nat (concat (map utf8_char s)) = Some s"
  by (induction s) (simp_all add: utf8_decode_nat.simps utf8_step_char)

lemma utf8_char_byte: "is_scalar c \<Longrightarrow> x \<in> set (utf8_char c) \<Longrightarrow> x < 256"
  by (auto simp: utf8_char_def is_scalar_def split: if_splits)

lemma utf8_decode_encode: "utf8_encode s = Some b \<Longrightarrow> utf8_decode b = Some s"
proof -
  assume "utf8_encode s = Some b"
  then have s: "list_all is_scalar s" and b: "b = map word_of_nat (concat (map utf8_char s))"
    by (auto simp: utf8_encode_def split: if_splits)
  have "map unat b = concat (map utf8_char s)"
    unfolding b map_map
  proof (rule map_idI)
    fix x assume "x \<in> set (concat (map utf8_char s))"
    with s have "x < 256" by (auto simp: list_all_iff dest: utf8_char_byte)
    then show "(unat \<circ> (word_of_nat :: nat \<Rightarrow> 8 word)) x = x"
      by (simp add: unat_of_nat)
  qed
  with s show ?thesis by (simp add: utf8_decode_def utf8_decode_nat_encode)
qed

lemma utf8_step_inverse:
  assumes "utf8_step s = Some (v, r)"
  shows "s = utf8_char v @ r \<and> is_scalar v"
proof -
  obtain b t where s: "s = b # t" using assms by (cases s) (auto simp: utf8_step_def)
  have "utf8_len b \<in> {0, 1, 2, 3, 4}" by (simp add: utf8_len_def)
  then consider "utf8_len b = 1" | "utf8_len b = 2" | "utf8_len b = 3" | "utf8_len b = 4" | "utf8_len b = 0"
    by fastforce
  then show ?thesis
  proof cases
    case 1
    then have "b < 128" by (auto simp: utf8_len_def split: if_splits)
    with 1 assms s show ?thesis by (auto simp: utf8_step_def utf8_char_def is_scalar_def)
  next
    case 2
    then have b: "194 \<le> b" "b < 224" by (auto simp: utf8_len_def split: if_splits)
    from 2 assms s obtain c1 where t: "t = c1 # r" "cont_byte c1" "v = (b - 192) * 64 + (c1 - 128)"
      by (auto simp: utf8_step_def split: list.splits if_splits)
    define x y where "x = b - 192" "y = c1 - 128"
    have xy: "b = 192 + x" "c1 = 128 + y" "2 \<le> x" "x < 32" "y < 64"
      using b t(2) by (auto simp: x_y_def cont_byte_def)
    have v: "v = x * 64 + y" using t(3) xy by simp
    have "v div 64 = x" "v mod 64 = y" "128 \<le> v" "v < 2048" using xy v by simp_all
    with xy s t show ?thesis by (simp add: utf8_char_def is_scalar_def)
  next
    case 3
    then have b: "224 \<le> b" "b < 240" by (auto simp: utf8_len_def split: if_splits)
    from 3 assms s obtain c1 c2 where t: "t = c1 # c2 # r" "cont_byte c1" "cont_byte c2"
        "v = (b - 224) * 4096 + (c1 - 128) * 64 + (c2 - 128)" "2048 \<le> v" "is_scalar v"
      by (auto simp: utf8_step_def Let_def split: list.splits if_splits)
    define x y z where "x = b - 224" "y = c1 - 128" "z = c2 - 128"
    have xy: "b = 224 + x" "c1 = 128 + y" "c2 = 128 + z" "x < 16" "y < 64" "z < 64"
      using b t(2,3) by (auto simp: x_y_z_def cont_byte_def)
    have v: "v = x * 4096 + y * 64 + z" using t(4) xy by simp
    have "v div 4096 = x" "v div 64 mod 64 = y" "v mod 64 = z" "v < 65536" using xy v digits_64(3-5) [of y z 0 x] by simp_all
    with xy s t show ?thesis by (simp add: utf8_char_def)
  next
    case 4
    then have b: "240 \<le> b" "b < 245" by (auto simp: utf8_len_def split: if_splits)
    from 4 assms s obtain c1 c2 c3 where t: "t = c1 # c2 # c3 # r" "cont_byte c1" "cont_byte c2" "cont_byte c3"
        "v = (b - 240) * 262144 + (c1 - 128) * 4096 + (c2 - 128) * 64 + (c3 - 128)" "65536 \<le> v" "is_scalar v"
      by (auto simp: utf8_step_def Let_def split: list.splits if_splits)
    define x y z w where "x = b - 240" "y = c1 - 128" "z = c2 - 128" "w = c3 - 128"
    have xy: "b = 240 + x" "c1 = 128 + y" "c2 = 128 + z" "c3 = 128 + w" "x < 5" "y < 64" "z < 64" "w < 64"
      using b t(2,3,4) by (auto simp: x_y_z_w_def cont_byte_def)
    have v: "v = x * 262144 + y * 4096 + z * 64 + w" using t(5) xy by simp
    have "v div 262144 = x" "v div 4096 mod 64 = y" "v div 64 mod 64 = z" "v mod 64 = w" using xy v digits_64(6-9) [of y z w x] by simp_all
    with xy s t show ?thesis by (simp add: utf8_char_def)
  next
    case 5
    with assms s show ?thesis by (simp add: utf8_step_def)
  qed
qed

lemma utf8_decode_nat_inverse:
  "utf8_decode_nat b = Some s \<Longrightarrow> b = concat (map utf8_char s) \<and> list_all is_scalar s"
proof (induction b arbitrary: s rule: utf8_decode_nat.induct)
  case (1 b)
  show ?case
  proof (cases "b = []")
    case True
    with "1.prems" show ?thesis by (simp add: utf8_decode_nat.simps)
  next
    case False
    with "1.prems" obtain v r s' where vr: "utf8_step b = Some (v, r)" "utf8_decode_nat r = Some s'" "s = v # s'"
      by (subst (asm) utf8_decode_nat.simps) (auto split: option.splits)
    with "1.IH" [OF False vr(1) refl, of s'] utf8_step_inverse [OF vr(1)] show ?thesis by simp
  qed
qed

lemma utf8_encode_decode: "utf8_decode b = Some s \<Longrightarrow> utf8_encode s = Some b"
proof -
  assume "utf8_decode b = Some s"
  from utf8_decode_nat_inverse [OF this [unfolded utf8_decode_def]]
  have s: "list_all is_scalar s" and b: "concat (map utf8_char s) = map unat b" by simp_all
  have "map word_of_nat (map unat b) = b" by (simp add: map_idI)
  with s b show ?thesis by (simp add: utf8_encode_def)
qed

lemma is_scalar_ascii: "c < 128 \<Longrightarrow> is_scalar c"
  by (simp add: is_scalar_def)

lemma utf8_encode_ascii: "\<forall>c \<in> set s. c < 128 \<Longrightarrow> utf8_encode s = Some (ascii_encode s)"
proof -
  assume a: "\<forall>c \<in> set s. c < 128"
  then have "concat (map utf8_char s) = s"
    by (induction s) (auto simp: utf8_char_def)
  with a show ?thesis by (auto simp: utf8_encode_def ascii_encode_def list_all_iff is_scalar_ascii)
qed

lemma utf8_decode_ascii: "\<forall>c \<in> set s. c < 128 \<Longrightarrow> utf8_decode (ascii_encode s) = Some s"
  by (simp add: utf8_encode_ascii utf8_decode_encode)

end
