(* ===== verification/Sha256.thy ===== *)
theory Sha256
  imports Py_Str
begin

text \<open>
  \<open>hashlib.sha256\<close> (FIPS 180-4), which the modelled code calls through \<open>sha\<close> of
  \<open>tools/nia_common.py\<close> and directly under \<open>native/\<close>. It is defined in full, so
  that a statement about a digest is about the digest the code computes; nothing in the
  development assumes that it has no collisions. \<open>sha256\<close> is the 32-byte \<open>digest()\<close> and
  \<open>sha256_hex\<close> the \<open>hexdigest()\<close>.
\<close>

type_synonym u32 = "32 word"

unbundle bit_operations_syntax

definition round_constants :: "u32 list" where
  "round_constants = [1116352408, 1899447441, 3049323471, 3921009573, 961987163, 1508970993,
     2453635748, 2870763221, 3624381080, 310598401, 607225278, 1426881987,
     1925078388, 2162078206, 2614888103, 3248222580, 3835390401, 4022224774,
     264347078, 604807628, 770255983, 1249150122, 1555081692, 1996064986,
     2554220882, 2821834349, 2952996808, 3210313671, 3336571891, 3584528711,
     113926993, 338241895, 666307205, 773529912, 1294757372, 1396182291,
     1695183700, 1986661051, 2177026350, 2456956037, 2730485921, 2820302411,
     3259730800, 3345764771, 3516065817, 3600352804, 4094571909, 275423344,
     430227734, 506948616, 659060556, 883997877, 958139571, 1322822218,
     1537002063, 1747873779, 1955562222, 2024104815, 2227730452, 2361852424,
     2428436474, 2756734187, 3204031479, 3329325298]"

type_synonym hash_state = "u32 \<times> u32 \<times> u32 \<times> u32 \<times> u32 \<times> u32 \<times> u32 \<times> u32"

definition initial_state :: hash_state where
  "initial_state = (1779033703, 3144134277, 1013904242, 2773480762, 1359893119, 2600822924,
     528734635, 1541459225)"

definition big_sigma0 :: "u32 \<Rightarrow> u32" where
  "big_sigma0 x = word_rotr 2 x XOR word_rotr 13 x XOR word_rotr 22 x"

definition big_sigma1 :: "u32 \<Rightarrow> u32" where
  "big_sigma1 x = word_rotr 6 x XOR word_rotr 11 x XOR word_rotr 25 x"

definition small_sigma0 :: "u32 \<Rightarrow> u32" where
  "small_sigma0 x = word_rotr 7 x XOR word_rotr 18 x XOR drop_bit 3 x"

definition small_sigma1 :: "u32 \<Rightarrow> u32" where
  "small_sigma1 x = word_rotr 17 x XOR word_rotr 19 x XOR drop_bit 10 x"

definition select32 :: "u32 \<Rightarrow> u32 \<Rightarrow> u32 \<Rightarrow> u32" where
  "select32 e f g = (e AND f) XOR ((NOT e) AND g)"

definition majority :: "u32 \<Rightarrow> u32 \<Rightarrow> u32 \<Rightarrow> u32" where
  "majority a b c = (a AND b) XOR (a AND c) XOR (b AND c)"

text \<open>The message schedule, newest word first.\<close>

fun extend_schedule :: "nat \<Rightarrow> u32 list \<Rightarrow> u32 list" where
  "extend_schedule 0 w = w"
| "extend_schedule (Suc n) w = extend_schedule n
     ((small_sigma1 (w ! 1) + w ! 6 + small_sigma0 (w ! 14) + w ! 15) # w)"

fun sha_round :: "hash_state \<Rightarrow> u32 \<times> u32 \<Rightarrow> hash_state" where
  "sha_round (a, b, c, d, e, f, g, h) (k, w) =
     (let t1 = h + big_sigma1 e + select32 e f g + k + w; t2 = big_sigma0 a + majority a b c
      in (t1 + t2, a, b, c, d + t1, e, f, g))"

fun add_state :: "hash_state \<Rightarrow> hash_state \<Rightarrow> hash_state" where
  "add_state (a, b, c, d, e, f, g, h) (a', b', c', d', e', f', g', h') =
     (a + a', b + b', c + c', d + d', e + e', f + f', g + g', h + h')"

definition compress :: "hash_state \<Rightarrow> u32 list \<Rightarrow> hash_state" where
  "compress s block =
     add_state s (foldl sha_round s (zip round_constants (rev (extend_schedule 48 (rev block)))))"

text \<open>Big-endian integers: \<open>n.to_bytes(k, 'big')\<close> and \<open>int.from_bytes(b, 'big')\<close>.\<close>

fun to_be :: "nat \<Rightarrow> nat \<Rightarrow> pybytes" where
  "to_be 0 n = []"
| "to_be (Suc k) n = to_be k (n div 256) @ [word_of_nat (n mod 256)]"

definition from_be :: "pybytes \<Rightarrow> nat" where
  "from_be b = foldl (\<lambda>a x. 256 * a + unat x) 0 b"

lemma length_to_be [simp]: "length (to_be k n) = k"
  by (induction k arbitrary: n) auto

lemma from_be_append [simp]: "from_be (b @ [x]) = 256 * from_be b + unat x"
  by (simp add: from_be_def)

lemma from_be_Nil [simp]: "from_be [] = 0"
  by (simp add: from_be_def)

lemma from_to_be: "n < 256 ^ k \<Longrightarrow> from_be (to_be k n) = n"
proof (induction k arbitrary: n)
  case (Suc k)
  then have "n div 256 < 256 ^ k" by (simp add: less_mult_imp_div_less mult.commute)
  with Suc.IH show ?case by (simp add: unat_of_nat)
qed simp

lemma from_be_less: "from_be b < 256 ^ length b"
proof (induction b rule: rev_induct)
  case (snoc x b)
  have "unat x < 256" by (rule unat_byte)
  with snoc show ?case by simp
qed simp

lemma to_from_be: "length b = k \<Longrightarrow> to_be k (from_be b) = b"
proof (induction k arbitrary: b)
  case (Suc k)
  then obtain c x where b: "b = c @ [x]" "length c = k"
    by (metis length_Suc_conv_rev)
  have "unat x < 256" by (rule unat_byte)
  with Suc.IH [of c] b show ?case by simp
qed simp

lemma from_be_inj: "length b = length c \<Longrightarrow> from_be b = from_be c \<Longrightarrow> b = c"
  by (metis to_from_be)

definition be32 :: "u32 \<Rightarrow> pybytes" where
  "be32 x = to_be 4 (unat x)"

fun words32 :: "pybytes \<Rightarrow> u32 list" where
  "words32 (a # b # c # d # r) = word_of_nat (from_be [a, b, c, d]) # words32 r"
| "words32 _ = []"

fun blocks_of :: "nat \<Rightarrow> u32 list \<Rightarrow> u32 list list" where
  "blocks_of 0 w = []"
| "blocks_of (Suc n) w = take 16 w # blocks_of n (drop 16 w)"

definition pad_message :: "pybytes \<Rightarrow> pybytes" where
  "pad_message m = m @ [128] @ replicate ((119 - length m mod 64) mod 64) 0 @ to_be 8 (8 * length m)"

fun state_bytes :: "hash_state \<Rightarrow> pybytes" where
  "state_bytes (a, b, c, d, e, f, g, h) =
     be32 a @ be32 b @ be32 c @ be32 d @ be32 e @ be32 f @ be32 g @ be32 h"

definition sha256 :: "pybytes \<Rightarrow> pybytes" where
  "sha256 m = (let p = pad_message m
     in state_bytes (foldl compress initial_state (blocks_of (length p div 64) (words32 p))))"

lemma length_state_bytes [simp]: "length (state_bytes s) = 32"
  by (cases s rule: state_bytes.cases) (simp add: be32_def)

lemma length_sha256 [simp]: "length (sha256 m) = 32"
  by (simp add: sha256_def Let_def)

text \<open>\<open>bytes.hex()\<close> and \<open>bytes.fromhex\<close> of a string of lower-case digits.\<close>

definition hex_digit :: "nat \<Rightarrow> nat" where
  "hex_digit n = (if n < 10 then 48 + n else 87 + n)"

definition hex_of :: "pybytes \<Rightarrow> pystr" where
  "hex_of b = concat (map (\<lambda>x. [hex_digit (unat x div 16), hex_digit (unat x mod 16)]) b)"

definition sha256_hex :: "pybytes \<Rightarrow> pystr" where
  "sha256_hex m = hex_of (sha256 m)"

lemma length_hex_of [simp]: "length (hex_of b) = 2 * length b"
  by (induction b) (auto simp: hex_of_def)

lemma hex_digit_lower: "n < 16 \<Longrightarrow> hex_lower (hex_digit n)"
  by (auto simp: hex_digit_def hex_lower_def ascii_digit_def)

lemma hex_of_lower: "c \<in> set (hex_of b) \<Longrightarrow> hex_lower c"
proof -
  assume "c \<in> set (hex_of b)"
  then obtain x where x: "c = hex_digit (unat (x::8 word) div 16) \<or> c = hex_digit (unat x mod 16)"
    by (auto simp: hex_of_def)
  have "unat x div 16 < 16" using unat_byte [of x] by (simp add: less_mult_imp_div_less)
  with x show ?thesis by (auto intro!: hex_digit_lower)
qed

lemma hex_digit_inj: "m < 16 \<Longrightarrow> n < 16 \<Longrightarrow> hex_digit m = hex_digit n \<Longrightarrow> m = n"
  by (auto simp: hex_digit_def split: if_splits)

lemma hex_pair_inj:
  fixes x y :: byte
  assumes "hex_digit (unat x div 16) = hex_digit (unat y div 16)"
    and "hex_digit (unat x mod 16) = hex_digit (unat y mod 16)"
  shows "x = y"
proof -
  have "unat x div 16 < 16" "unat y div 16 < 16"
    using unat_byte [of x] unat_byte [of y] by (simp_all add: less_mult_imp_div_less)
  with assms have "unat x div 16 = unat y div 16" "unat x mod 16 = unat y mod 16"
    by (auto intro: hex_digit_inj)
  then have "unat x = unat y" by (metis div_mult_mod_eq)
  then show ?thesis by (rule word_unat_eq_iff [THEN iffD2])
qed

lemma hex_of_inj: "hex_of b = hex_of c \<Longrightarrow> b = c"
proof (induction b arbitrary: c)
  case Nil
  then show ?case by (cases c) (auto simp: hex_of_def)
next
  case (Cons x b)
  then obtain y c' where "c = y # c'" by (cases c) (auto simp: hex_of_def)
  with Cons show ?case by (auto simp: hex_of_def intro: hex_pair_inj)
qed

lemma length_sha256_hex [simp]: "length (sha256_hex m) = 64"
  by (simp add: sha256_hex_def)

lemma sha256_hex_lower: "c \<in> set (sha256_hex m) \<Longrightarrow> hex_lower c"
  by (auto simp: sha256_hex_def intro: hex_of_lower)

lemma sha256_hex_inj: "sha256_hex a = sha256_hex b \<longleftrightarrow> sha256 a = sha256 b"
  by (auto simp: sha256_hex_def dest: hex_of_inj)

end
