(* ===== verification/Py_Json.thy ===== *)
theory Py_Json
  imports Sha256
begin

text \<open>
  The values the modelled code takes from and puts into JSON, Python's equality on them,
  and the two directions of the standard library's \<open>json\<close> as the code calls it:
  \<open>dumps\<close> is \<open>json.dumps(v, sort_keys=True, ensure_ascii=True, separators=(',', ':'))\<close>
  and \<open>loads\<close> is \<open>json.loads\<close> with an \<open>object_pairs_hook\<close> that refuses duplicate keys and
  with \<open>parse_float\<close> and \<open>parse_constant\<close> that refuse. Its first argument is the number of
  nested containers the interpreter's recursion limit still allows; exceeding it is
  \<open>RecursionError\<close>.
\<close>

section \<open>Values\<close>

datatype pyval =
    PNone
  | PBool bool
  | PInt int
  | PStr pystr
  | PList "pyval list"
  | PDict "(pystr \<times> pyval) list"

text \<open>\<open>a == b\<close>: \<open>True == 1\<close>, and dictionaries compare without regard to order.\<close>

fun py_eq :: "pyval \<Rightarrow> pyval \<Rightarrow> bool"
  and py_eq_list :: "pyval list \<Rightarrow> pyval list \<Rightarrow> bool"
  and py_eq_items :: "(pystr \<times> pyval) list \<Rightarrow> (pystr \<times> pyval) list \<Rightarrow> bool" where
  "py_eq PNone b = (b = PNone)"
| "py_eq (PBool x) b = (b = PBool x \<or> b = PInt (if x then 1 else 0))"
| "py_eq (PInt i) b = (b = PInt i \<or> (i = 1 \<and> b = PBool True) \<or> (i = 0 \<and> b = PBool False))"
| "py_eq (PStr s) b = (b = PStr s)"
| "py_eq (PList xs) b = (case b of PList ys \<Rightarrow> py_eq_list xs ys | _ \<Rightarrow> False)"
| "py_eq (PDict d) b = (case b of PDict e \<Rightarrow> length d = length e \<and> py_eq_items d e | _ \<Rightarrow> False)"
| "py_eq_list [] ys = (ys = [])"
| "py_eq_list (x # xs) ys = (case ys of [] \<Rightarrow> False | y # ys' \<Rightarrow> py_eq x y \<and> py_eq_list xs ys')"
| "py_eq_items [] e = True"
| "py_eq_items ((k, x) # d) e =
     (case map_of e k of None \<Rightarrow> False | Some y \<Rightarrow> py_eq x y \<and> py_eq_items d e)"

lemma py_eq_PStr [simp]: "py_eq a (PStr s) \<longleftrightarrow> a = PStr s"
  by (cases a) auto

lemma py_eq_PNone [simp]: "py_eq a PNone \<longleftrightarrow> a = PNone"
  by (cases a) auto

section \<open>Printing\<close>

definition hex4 :: "nat \<Rightarrow> pystr" where
  "hex4 n = [hex_digit (n div 4096 mod 16), hex_digit (n div 256 mod 16),
             hex_digit (n div 16 mod 16), hex_digit (n mod 16)]"

definition escape_char :: "nat \<Rightarrow> pystr" where
  "escape_char c =
     (if c = 34 then [92, 34] else if c = 92 then [92, 92] else if c = 10 then [92, 110]
      else if c = 13 then [92, 114] else if c = 9 then [92, 116] else if c = 12 then [92, 102]
      else if c = 8 then [92, 98] else if 32 \<le> c \<and> c < 127 then [c]
      else if c < 65536 then [92, 117] @ hex4 c
      else [92, 117] @ hex4 (55296 + (c - 65536) div 1024) @ [92, 117] @ hex4 (56320 + (c - 65536) mod 1024))"

definition dump_str :: "pystr \<Rightarrow> pystr" where
  "dump_str s = 34 # concat (map escape_char s) @ [34]"

fun dumps :: "pyval \<Rightarrow> pystr" where
  "dumps PNone = u ''null''"
| "dumps (PBool b) = (if b then u ''true'' else u ''false'')"
| "dumps (PInt i) = str_int i"
| "dumps (PStr s) = dump_str s"
| "dumps (PList xs) = 91 # join_on [44] (map dumps xs) @ [93]"
| "dumps (PDict d) = 123 # join_on [44] (map (\<lambda>(k, s). dump_str k @ 58 # s)
      (sorted_items (map (\<lambda>(k, v). (k, dumps v)) d))) @ [125]"

section \<open>Parsing\<close>

definition json_ws :: "nat \<Rightarrow> bool" where
  "json_ws c \<longleftrightarrow> c = 32 \<or> c = 9 \<or> c = 10 \<or> c = 13"

definition skip_ws :: "pystr \<Rightarrow> pystr" where
  "skip_ws s = dropWhile json_ws s"

definition hex_value :: "nat \<Rightarrow> nat option" where
  "hex_value c = (if 48 \<le> c \<and> c \<le> 57 then Some (c - 48)
     else if 97 \<le> c \<and> c \<le> 102 then Some (c - 87)
     else if 65 \<le> c \<and> c \<le> 70 then Some (c - 55) else None)"

definition scan_hex4 :: "pystr \<Rightarrow> (nat \<times> pystr) option" where
  "scan_hex4 s = (case s of a # b # c # d # r \<Rightarrow>
       (case (hex_value a, hex_value b, hex_value c, hex_value d) of
          (Some w, Some x, Some y, Some z) \<Rightarrow> Some (w * 4096 + x * 256 + y * 16 + z, r)
        | _ \<Rightarrow> None)
     | _ \<Rightarrow> None)"

definition simple_escapes :: "(nat \<times> nat) list" where
  "simple_escapes = [(34, 34), (92, 92), (47, 47), (98, 8), (102, 12), (110, 10), (114, 13), (116, 9)]"

text \<open>
  One unit of a string body: an error, the closing quote (\<open>Some (None, rest)\<close>) or a
  character. A high surrogate escape followed by a low one makes one character.
\<close>

definition scan_char :: "pystr \<Rightarrow> (nat option \<times> pystr) option" where
  "scan_char s = (case s of [] \<Rightarrow> None | c # r \<Rightarrow>
     if c = 34 then Some (None, r)
     else if c = 92 then
       (case r of [] \<Rightarrow> None | e # r1 \<Rightarrow>
          if e = 117 then
            (case scan_hex4 r1 of None \<Rightarrow> None | Some (v, r2) \<Rightarrow>
               if 55296 \<le> v \<and> v < 56320 \<and> startswith r2 [92, 117] then
                 (case scan_hex4 (drop 2 r2) of None \<Rightarrow> None | Some (w, r3) \<Rightarrow>
                    if 56320 \<le> w \<and> w < 57344
                    then Some (Some (65536 + (v - 55296) * 1024 + (w - 56320)), r3)
                    else Some (Some v, r2))
               else Some (Some v, r2))
          else (case map_of simple_escapes e of None \<Rightarrow> None | Some x \<Rightarrow> Some (Some x, r1)))
     else if c < 32 then None else Some (Some c, r))"

lemma scan_hex4_shorter: "scan_hex4 s = Some (v, r) \<Longrightarrow> length r < length s"
  by (auto simp: scan_hex4_def split: list.splits option.splits)

lemma scan_char_shorter: "scan_char s = Some (x, r) \<Longrightarrow> length r < length s"
  by (auto simp: scan_char_def split: list.splits option.splits if_splits dest!: scan_hex4_shorter)

function scan_string :: "pystr \<Rightarrow> (pystr \<times> pystr) option" where
  "scan_string s = (case scan_char s of None \<Rightarrow> None
     | Some (None, r) \<Rightarrow> Some ([], r)
     | Some (Some c, r) \<Rightarrow> map_option (\<lambda>(t, q). (c # t, q)) (scan_string r))"
  by pat_completeness auto
termination by (relation "measure length") (auto dest: scan_char_shorter)

declare scan_string.simps [simp del]

text \<open>Numbers: an integer, or a fraction or exponent that makes it a float.\<close>

definition float_tail :: "pystr \<Rightarrow> bool" where
  "float_tail r \<longleftrightarrow> (case r of
       a # b # q \<Rightarrow> (a = 46 \<and> ascii_digit b)
         \<or> ((a = 101 \<or> a = 69) \<and> (ascii_digit b \<or> ((b = 43 \<or> b = 45) \<and> q \<noteq> [] \<and> ascii_digit (hd q))))
     | _ \<Rightarrow> False)"

definition no_floats :: "'a res" where
  "no_floats = invalid ''floating point and nonfinite values are not supported''"

definition lead_digits :: "pystr \<Rightarrow> pystr" where
  "lead_digits t = (if t \<noteq> [] \<and> hd t = 48 then [48] else takeWhile ascii_digit t)"

definition scan_number :: "pystr \<Rightarrow> (pyval \<times> pystr) res" where
  "scan_number s = (let neg = (s \<noteq> [] \<and> hd s = 45); t = (if neg then tl s else s);
       ds = lead_digits t;
       r = drop (length ds) t; n = digits_value (map (\<lambda>c. c - 48) ds)
     in if ds = [] then Inl ValueError
        else if float_tail r then no_floats
        else if length ds > MAX_STR_DIGITS then Inl ValueError
        else Inr (PInt (if neg then - int n else int n), r))"

text \<open>The elements of an array, and the members of an object; \<open>f\<close> reads one value.\<close>

fun array_items :: "(pystr \<Rightarrow> (pyval \<times> pystr) res) \<Rightarrow> nat \<Rightarrow> pystr \<Rightarrow> (pyval list \<times> pystr) res" where
  "array_items f 0 s = Inl ValueError"
| "array_items f (Suc n) s = bindE (f s) (\<lambda>(v, r).
     case skip_ws r of [] \<Rightarrow> Inl ValueError
     | c # t \<Rightarrow> if c = 93 then Inr ([v], t)
               else if c = 44 then bindE (array_items f n (skip_ws t)) (\<lambda>(vs, q). Inr (v # vs, q))
               else Inl ValueError)"

definition parse_array :: "(pystr \<Rightarrow> (pyval \<times> pystr) res) \<Rightarrow> pystr \<Rightarrow> (pyval \<times> pystr) res" where
  "parse_array f s = (let t = skip_ws s in
     if t \<noteq> [] \<and> hd t = 93 then Inr (PList [], tl t)
     else bindE (array_items f (Suc (length t)) t) (\<lambda>(vs, q). Inr (PList vs, q)))"

definition parse_member :: "(pystr \<Rightarrow> (pyval \<times> pystr) res) \<Rightarrow> pystr \<Rightarrow> ((pystr \<times> pyval) \<times> pystr) res" where
  "parse_member f s = (if s = [] \<or> hd s \<noteq> 34 then Inl ValueError
     else (case scan_string (tl s) of None \<Rightarrow> Inl ValueError
       | Some (k, r) \<Rightarrow>
           (case skip_ws r of [] \<Rightarrow> Inl ValueError
            | c # t \<Rightarrow> if c = 58 then bindE (f (skip_ws t)) (\<lambda>(v, q). Inr ((k, v), q))
                      else Inl ValueError)))"

fun object_items :: "(pystr \<Rightarrow> (pyval \<times> pystr) res) \<Rightarrow> nat \<Rightarrow> pystr \<Rightarrow>
    ((pystr \<times> pyval) list \<times> pystr) res" where
  "object_items f 0 s = Inl ValueError"
| "object_items f (Suc n) s = bindE (parse_member f s) (\<lambda>(m, r).
     case skip_ws r of [] \<Rightarrow> Inl ValueError
     | c # t \<Rightarrow> if c = 125 then Inr ([m], t)
               else if c = 44 then bindE (object_items f n (skip_ws t)) (\<lambda>(ms, q). Inr (m # ms, q))
               else Inl ValueError)"

text \<open>\<open>_pairs\<close> of \<open>tools/nia_common.py\<close>, the \<open>object_pairs_hook\<close>.\<close>

definition pairs_hook :: "(pystr \<times> pyval) list \<Rightarrow> pyval res" where
  "pairs_hook items = bindE
     (foldE (\<lambda>result (key, value). if key \<in> fst ` set result then invalid ''duplicate JSON field''
                               else Inr (dict_set key value result)) [] items)
     (\<lambda>result. Inr (PDict result))"

definition parse_object :: "(pystr \<Rightarrow> (pyval \<times> pystr) res) \<Rightarrow> pystr \<Rightarrow> (pyval \<times> pystr) res" where
  "parse_object f s = (let t = skip_ws s in
     if t \<noteq> [] \<and> hd t = 125 then Inr (PDict [], tl t)
     else bindE (object_items f (Suc (length t)) t)
            (\<lambda>(ms, q). bindE (pairs_hook ms) (\<lambda>v. Inr (v, q))))"

definition scan_value :: "(pystr \<Rightarrow> (pyval \<times> pystr) res) option \<Rightarrow> pystr \<Rightarrow> (pyval \<times> pystr) res" where
  "scan_value nested s = (case s of [] \<Rightarrow> Inl ValueError | c # r \<Rightarrow>
     if c = 34 then (case scan_string r of None \<Rightarrow> Inl ValueError | Some (x, q) \<Rightarrow> Inr (PStr x, q))
     else if c = 123 then (case nested of None \<Rightarrow> Inl RecursionError | Some f \<Rightarrow> parse_object f r)
     else if c = 91 then (case nested of None \<Rightarrow> Inl RecursionError | Some f \<Rightarrow> parse_array f r)
     else if startswith s (u ''null'') then Inr (PNone, drop 4 s)
     else if startswith s (u ''true'') then Inr (PBool True, drop 4 s)
     else if startswith s (u ''false'') then Inr (PBool False, drop 5 s)
     else if startswith s (u ''NaN'') \<or> startswith s (u ''Infinity'') \<or> startswith s (u ''-Infinity'')
       then no_floats
     else scan_number s)"

primrec scan_once :: "nat \<Rightarrow> pystr \<Rightarrow> (pyval \<times> pystr) res" where
  "scan_once 0 = scan_value None"
| "scan_once (Suc d) = scan_value (Some (scan_once d))"

definition loads :: "nat \<Rightarrow> pystr \<Rightarrow> pyval res" where
  "loads depth s = (if startswith s [65279] then Inl ValueError
     else bindE (scan_once depth (skip_ws s)) (\<lambda>(v, r).
       if skip_ws r = [] then Inr v else Inl ValueError))"

section \<open>The round trip\<close>

text \<open>
  The values \<open>dumps\<close> prints exactly: every string is made of scalar values, every integer
  is within the digit limit, and the keys of every dictionary are sorted and distinct (which
  is what \<open>sort_keys\<close> and parsing make of any dictionary).
\<close>

definition scalar_str :: "pystr \<Rightarrow> bool" where
  "scalar_str s \<longleftrightarrow> list_all is_scalar s"

fun canon_val :: "pyval \<Rightarrow> bool" where
  "canon_val (PInt i) \<longleftrightarrow> length (str_nat (nat \<bar>i\<bar>)) \<le> MAX_STR_DIGITS"
| "canon_val (PStr s) \<longleftrightarrow> scalar_str s"
| "canon_val (PList xs) \<longleftrightarrow> (\<forall>x \<in> set xs. canon_val x)"
| "canon_val (PDict d) \<longleftrightarrow> sorted (map fst d) \<and> distinct (map fst d)
     \<and> (\<forall>p \<in> set d. scalar_str (fst p) \<and> canon_val (snd p))"
| "canon_val _ \<longleftrightarrow> True"

fun nesting :: "pyval \<Rightarrow> nat" where
  "nesting (PList xs) = Suc (fold max (map nesting xs) 0)"
| "nesting (PDict d) = Suc (fold max (map (\<lambda>p. nesting (snd p)) d) 0)"
| "nesting _ = 0"

lemma fold_max_ge: "x \<in> set xs \<Longrightarrow> x \<le> fold max xs (n :: nat)" "n \<le> fold max xs n"
proof (induction xs arbitrary: n)
  case (Cons y xs)
  { case 1
    then show ?case using Cons.IH(1) Cons.IH(2) [of "max y n"] by auto
  next
    case 2
    then show ?case using Cons.IH(2) [of "max y n"] by simp }
qed simp_all

lemma nesting_list: "x \<in> set xs \<Longrightarrow> nesting x < nesting (PList xs)"
  using fold_max_ge(1) [of "nesting x" "map nesting xs" 0] by simp

lemma nesting_dict: "(k, v) \<in> set d \<Longrightarrow> nesting v < nesting (PDict d)"
  using fold_max_ge(1) [of "nesting v" "map (\<lambda>p. nesting (snd p)) d" 0] by force

lemma hex_value_digit: "n < 16 \<Longrightarrow> hex_value (hex_digit n) = Some n"
  by (auto simp: hex_value_def hex_digit_def)

lemma hex4_digits:
  "(n::nat) div 4096 * 4096 + n div 256 mod 16 * 256 + n div 16 mod 16 * 16 + n mod 16 = n"
proof -
  have "n mod 4096 = 256 * (n div 256 mod 16) + n mod 256"
    using mod_mult2_eq [of n 256 16] by simp
  moreover have "n mod 256 = 16 * (n div 16 mod 16) + n mod 16"
    using mod_mult2_eq [of n 16 16] by simp
  ultimately show ?thesis using div_mult_mod_eq [of n 4096] by simp
qed

lemma scan_hex4: "n < 65536 \<Longrightarrow> scan_hex4 (hex4 n @ r) = Some (n, r)"
  by (simp add: scan_hex4_def hex4_def hex_value_digit hex4_digits)

lemma scan_char_u:
  "n < 65536 \<Longrightarrow> \<not> (55296 \<le> n \<and> n < 56320) \<Longrightarrow>
     scan_char (92 # 117 # hex4 n @ r) = Some (Some n, r)"
  by (auto simp: scan_char_def scan_hex4)

lemma scan_char_pair:
  "h < 1024 \<Longrightarrow> l < 1024 \<Longrightarrow>
     scan_char (92 # 117 # hex4 (55296 + h) @ 92 # 117 # hex4 (56320 + l) @ r) =
       Some (Some (65536 + h * 1024 + l), r)"
  by (simp add: scan_char_def scan_hex4)

lemma scan_char_simple: "map_of simple_escapes e = Some x \<Longrightarrow>
    scan_char (92 # e # r) = Some (Some x, r)"
  by (auto simp: scan_char_def simple_escapes_def split: if_splits)

lemma scan_char_escape:
  assumes "is_scalar c"
  shows "scan_char (escape_char c @ r) = Some (Some c, r)"
proof -
  consider "c \<in> {34, 92, 10, 13, 9, 12, 8}"
    | "c \<notin> {34, 92, 10, 13, 9, 12, 8}" "32 \<le> c \<and> c < 127"
    | "c \<notin> {34, 92, 10, 13, 9, 12, 8}" "\<not> (32 \<le> c \<and> c < 127)" "c < 65536"
    | "65536 \<le> c"
    using not_le by blast
  then show ?thesis
  proof cases
    case 1
    then have "\<exists>e. escape_char c = [92, e] \<and> map_of simple_escapes e = Some c"
      by (auto simp: escape_char_def simple_escapes_def)
    then show ?thesis by (auto simp: scan_char_simple)
  next
    case 2
    then have "escape_char c = [c]" by (simp add: escape_char_def)
    with 2 show ?thesis by (simp add: scan_char_def)
  next
    case 3
    then have "escape_char c = 92 # 117 # hex4 c" by (auto simp: escape_char_def)
    moreover have "\<not> (55296 \<le> c \<and> c < 56320)" using assms by (auto simp: is_scalar_def)
    ultimately show ?thesis using 3 by (simp add: scan_char_u)
  next
    case 4
    let ?h = "(c - 65536) div 1024" and ?l = "(c - 65536) mod 1024"
    from 4 assms have "?h < 1024" "?l < 1024" by (auto simp: is_scalar_def)
    moreover have "65536 + ?h * 1024 + ?l = c" using 4 by (simp add: div_mult_mod_eq)
    moreover have "escape_char c = 92 # 117 # hex4 (55296 + ?h) @ 92 # 117 # hex4 (56320 + ?l)"
      using 4 by (simp add: escape_char_def)
    ultimately show ?thesis using scan_char_pair [of ?h ?l r] by simp
  qed
qed

lemma scan_string_dump:
  "scalar_str s \<Longrightarrow> scan_string (concat (map escape_char s) @ 34 # r) = Some (s, r)"
proof (induction s)
  case Nil
  show ?case by (simp add: scan_string.simps [of "34 # r"] scan_char_def)
next
  case (Cons c s)
  then have "scan_char (escape_char c @ concat (map escape_char s) @ 34 # r)
      = Some (Some c, concat (map escape_char s) @ 34 # r)"
    by (intro scan_char_escape) (simp add: scalar_str_def)
  with Cons show ?case
    by (subst scan_string.simps) (simp add: scalar_str_def)
qed

text \<open>A value is followed by the end of the text or by a delimiter.\<close>

definition delimited :: "pystr \<Rightarrow> bool" where
  "delimited r \<longleftrightarrow> r = [] \<or> hd r = 44 \<or> hd r = 93 \<or> hd r = 125"

lemma delimited_simps [simp]: "delimited []" "delimited (44 # r)" "delimited (93 # r)"
    "delimited (125 # r)"
  by (simp_all add: delimited_def)

lemma takeWhile_digits:
  "(\<forall>c \<in> set s. ascii_digit c) \<Longrightarrow> delimited r \<Longrightarrow> takeWhile ascii_digit (s @ r) = s"
  by (cases r) (auto simp: delimited_def ascii_digit_def takeWhile_append)

lemma float_tail_delimited: "delimited r \<Longrightarrow> \<not> float_tail r"
  by (cases r; cases "tl r") (auto simp: delimited_def float_tail_def)

lemma scan_number_nat:
  assumes "delimited r" "length (str_nat n) \<le> MAX_STR_DIGITS"
  shows "scan_number (str_nat n @ r) = Inr (PInt (int n), r)"
    and "scan_number (45 # str_nat n @ r) = Inr (PInt (- int n), r)"
proof -
  let ?s = "str_nat n"
  have d: "\<forall>c \<in> set ?s. ascii_digit c" by (simp add: str_nat_digits)
  have h: "hd (?s @ r) = hd ?s" by simp
  have ds: "lead_digits (?s @ r) = ?s"
  proof (cases "hd ?s = 48")
    case True
    then have "n = 0" by (simp add: str_nat_hd)
    then show ?thesis by (simp add: lead_digits_def)
  next
    case False
    then show ?thesis using takeWhile_digits [OF d assms(1)] by (simp add: lead_digits_def)
  qed
  have "ascii_digit (hd ?s)" using d by simp
  then have neg: "hd ?s \<noteq> 45" by (auto simp: ascii_digit_def)
  have v: "digits_value (map (\<lambda>c. c - 48) ?s) = n" by (rule str_nat_value)
  show "scan_number (?s @ r) = Inr (PInt (int n), r)"
    using neg ds v assms by (simp add: scan_number_def Let_def float_tail_delimited)
  show "scan_number (45 # ?s @ r) = Inr (PInt (- int n), r)"
    using ds v assms by (simp add: scan_number_def Let_def float_tail_delimited)
qed

lemma str_nat_hd_digit: "48 \<le> hd (str_nat n)" "hd (str_nat n) \<le> 57"
  using str_nat_digits [of "hd (str_nat n)" n] by (auto simp: ascii_digit_def)

lemma scan_value_number:
  assumes "hd s = 45 \<and> (tl s \<noteq> [] \<longrightarrow> hd (tl s) \<noteq> 73) \<or> (48 \<le> hd s \<and> hd s \<le> 57)" "s \<noteq> []"
  shows "scan_value f s = scan_number s"
proof -
  obtain c r where s: "s = c # r" using assms by (cases s) auto
  have "\<not> startswith s (u ''null'')" "\<not> startswith s (u ''true'')" "\<not> startswith s (u ''false'')"
    "\<not> startswith s (u ''NaN'')" "\<not> startswith s (u ''Infinity'')" "\<not> startswith s (u ''-Infinity'')"
    using assms s by (cases r; auto simp: u_def)+
  with assms s show ?thesis by (auto simp: scan_value_def)
qed

lemma scan_value_int:
  assumes "delimited r" "length (str_nat (nat \<bar>i\<bar>)) \<le> MAX_STR_DIGITS"
  shows "scan_value f (str_int i @ r) = Inr (PInt i, r)"
proof (cases "i < 0")
  case True
  then have "scan_value f (str_int i @ r) = scan_number (45 # str_nat (nat (- i)) @ r)"
    using str_nat_hd_digit [of "nat (- i)"]
    by (subst scan_value_number) (auto simp: str_int_def)
  with True assms show ?thesis by (simp add: scan_number_nat)
next
  case False
  then have "scan_value f (str_int i @ r) = scan_number (str_nat (nat i) @ r)"
    using str_nat_hd_digit [of "nat i"]
    by (subst scan_value_number) (auto simp: str_int_def)
  with False assms show ?thesis by (simp add: scan_number_nat)
qed

lemma dumps_hd: "dumps v \<noteq> [] \<and> \<not> json_ws (hd (dumps v)) \<and> hd (dumps v) \<noteq> 93 \<and> hd (dumps v) \<noteq> 125"
proof (cases v)
  case (PInt i)
  then show ?thesis using str_nat_hd_digit [of "nat i"]
    by (auto simp: str_int_def json_ws_def)
qed (auto simp: json_ws_def dump_str_def u_def)

lemma dumps_not_Nil [simp]: "dumps v \<noteq> []"
  by (simp add: dumps_hd)

lemma skip_ws_dumps [simp]: "skip_ws (dumps v @ r) = dumps v @ r"
  using dumps_hd [of v] by (cases "dumps v") (auto simp: skip_ws_def)

lemma skip_ws_simps [simp]: "skip_ws (44 # r) = 44 # r" "skip_ws (93 # r) = 93 # r"
    "skip_ws (125 # r) = 125 # r" "skip_ws (58 # r) = 58 # r" "skip_ws (34 # r) = 34 # r" "skip_ws [] = []"
  by (simp_all add: skip_ws_def json_ws_def)

lemma array_items_dumps:
  assumes "\<And>x q. x \<in> set xs \<Longrightarrow> delimited q \<Longrightarrow> f (dumps x @ q) = Inr (x, q)"
    and "xs \<noteq> []" "length xs \<le> n"
  shows "array_items f n (join_on [44] (map dumps xs) @ 93 # r) = Inr (xs, r)"
  using assms
proof (induction xs arbitrary: n rule: induct_list012)
  case (2 x)
  then show ?case by (cases n) auto
next
  case (3 x y xs)
  then obtain m where m: "n = Suc m" "length (y # xs) \<le> m" by (cases n) auto
  have IH: "array_items f m (join_on [44] (map dumps (y # xs)) @ 93 # r) = Inr (y # xs, r)"
    by (rule "3.IH"(2)) (use "3.prems" m in auto)
  have sk: "skip_ws (join_on [44] (map dumps (y # xs)) @ 93 # r)
      = join_on [44] (map dumps (y # xs)) @ 93 # r"
    by (cases xs) simp_all
  show ?case using IH sk m(1) "3.prems"(1) [of x "44 # join_on [44] (map dumps (y # xs)) @ 93 # r"]
    by simp
qed simp

definition dump_member :: "pystr \<times> pyval \<Rightarrow> pystr" where
  "dump_member m = dump_str (fst m) @ 58 # dumps (snd m)"

lemma dump_member_Cons: "\<exists>t. dump_member m = 34 # t"
  by (simp add: dump_member_def dump_str_def)

lemma parse_member_dump:
  assumes "f (dumps (snd m) @ q) = Inr (snd m, q)" "scalar_str (fst m)"
  shows "parse_member f (dump_member m @ q) = Inr (m, q)"
  using assms by (simp add: parse_member_def dump_member_def dump_str_def scan_string_dump)

lemma object_items_dumps:
  assumes "\<And>m q. m \<in> set ms \<Longrightarrow> delimited q \<Longrightarrow> f (dumps (snd m) @ q) = Inr (snd m, q)"
    and "\<And>m. m \<in> set ms \<Longrightarrow> scalar_str (fst m)"
    and "ms \<noteq> []" "length ms \<le> n"
  shows "object_items f n (join_on [44] (map dump_member ms) @ 125 # r) = Inr (ms, r)"
  using assms
proof (induction ms arbitrary: n rule: induct_list012)
  case (2 x)
  then show ?case by (cases n) (auto simp: parse_member_dump)
next
  case (3 x y xs)
  then obtain m where m: "n = Suc m" "length (y # xs) \<le> m" by (cases n) auto
  let ?rest = "join_on [44] (map dump_member (y # xs)) @ 125 # r"
  have IH: "object_items f m ?rest = Inr (y # xs, r)"
    by (rule "3.IH"(2)) (use "3.prems" m in auto)
  obtain t where "dump_member y = 34 # t" using dump_member_Cons by blast
  then have sk: "skip_ws ?rest = ?rest"
    by (cases xs) simp_all
  have "parse_member f (dump_member x @ 44 # ?rest) = Inr (x, 44 # ?rest)"
    by (rule parse_member_dump) (use "3.prems" in auto)
  then show ?case using IH sk m(1) by simp
qed simp

lemma pairs_hook_distinct:
  assumes "distinct (map fst ms)"
  shows "pairs_hook ms = Inr (PDict ms)"
proof -
  let ?f = "\<lambda>result (key, value). if key \<in> fst ` set result then invalid ''duplicate JSON field''
                               else Inr (dict_set key value result)"
  have app: "dict_set k v d = d @ [(k, v)]" if "k \<notin> fst ` set d" for k and v :: pyval and d :: "(pystr \<times> pyval) list"
    using that by (induction d) auto
  have "foldE ?f d ms = Inr (d @ ms)" if "distinct (map fst (d @ ms))" for d
    using that
  proof (induction ms arbitrary: d)
    case (Cons m ms)
    obtain k v where m: "m = (k, v)" by force
    with Cons.prems have "k \<notin> fst ` set d" by auto
    with m Cons.prems Cons.IH [of "d @ [m]"] show ?case by (simp add: app)
  qed simp
  from this [of "[]"] assms show ?thesis by (simp add: pairs_hook_def)
qed

lemma length_join_on_ge:
  "(\<And>w. w \<in> set ws \<Longrightarrow> w \<noteq> []) \<Longrightarrow> length ws \<le> length (join_on c ws)"
proof (induction c ws rule: join_on.induct)
  case (2 c w)
  then show ?case by (cases w) auto
next
  case (3 c w v ws)
  then have "length (v # ws) \<le> length (join_on c (v # ws))" "w \<noteq> []" by auto
  then show ?case by (cases w) auto
qed simp

lemma dumps_dict:
  "sorted (map fst d) \<Longrightarrow> dumps (PDict d) = 123 # join_on [44] (map dump_member d) @ [125]"
proof -
  assume "sorted (map fst d)"
  then have "sorted (map fst (map (\<lambda>(k, v). (k, dumps v)) d))" by (simp add: case_prod_beta comp_def)
  then have "sorted_items (map (\<lambda>(k, v). (k, dumps v)) d) = map (\<lambda>(k, v). (k, dumps v)) d"
    by (rule sorted_items_id)
  then show ?thesis by (simp add: dump_member_def case_prod_beta comp_def cong: map_cong)
qed

lemma scan_dumps:
  "canon_val v \<Longrightarrow> nesting v \<le> depth \<Longrightarrow> delimited r \<Longrightarrow>
     scan_once depth (dumps v @ r) = Inr (v, r)"
proof (induction v arbitrary: depth r)
  case PNone
  then show ?case by (cases depth) (simp_all add: scan_value_def u_def)
next
  case (PBool b)
  then show ?case by (cases depth) (simp_all add: scan_value_def u_def)
next
  case (PInt i)
  then show ?case by (cases depth) (simp_all add: scan_value_int)
next
  case (PStr s)
  then show ?case by (cases depth) (simp_all add: scan_value_def dump_str_def scan_string_dump)
next
  case (PList xs)
  then obtain d where d: "depth = Suc d" by (cases depth) auto
  have el: "scan_once d (dumps x @ q) = Inr (x, q)" if "x \<in> set xs" "delimited q" for x q
    using PList.IH [OF that(1)] PList.prems nesting_list [OF that(1)] that d by simp
  show ?case
  proof (cases xs)
    case Nil
    then show ?thesis by (simp add: d scan_value_def parse_array_def)
  next
    case (Cons x ys)
    let ?t = "join_on [44] (map dumps xs) @ 93 # r"
    have sk: "skip_ws ?t = ?t" "hd ?t \<noteq> 93" using Cons dumps_hd [of x] by (cases ys; simp)+
    have "length (map dumps xs) \<le> length (join_on [44] (map dumps xs))"
      by (rule length_join_on_ge) auto
    then have "array_items (scan_once d) (Suc (length ?t)) ?t = Inr (xs, r)"
      by (intro array_items_dumps el) (use Cons in auto)
    with sk d show ?thesis by (simp add: scan_value_def parse_array_def Let_def)
  qed
next
  case (PDict ms)
  then obtain d where d: "depth = Suc d" by (cases depth) auto
  have el: "scan_once d (dumps (snd m) @ q) = Inr (snd m, q)" if "m \<in> set ms" "delimited q" for m q
  proof -
    obtain k v where m: "m = (k, v)" by force
    from PDict.IH [of m v d q] PDict.prems nesting_dict [of k v ms] that d m show ?thesis by auto
  qed
  have s: "sorted (map fst ms)" "distinct (map fst ms)" using PDict.prems by auto
  show ?case
  proof (cases ms)
    case Nil
    then show ?thesis by (simp add: d scan_value_def parse_object_def sorted_items_def)
  next
    case (Cons x ys)
    let ?t = "join_on [44] (map dump_member ms) @ 125 # r"
    obtain t where t: "dump_member x = 34 # t" using dump_member_Cons by blast
    have sk: "skip_ws ?t = ?t" "hd ?t \<noteq> 125" using Cons t by (cases ys; simp)+
    have "length ms \<le> length (join_on [44] (map dump_member ms))"
      using length_join_on_ge [of "map dump_member ms" "[44]"] dump_member_Cons
      by (metis (no_types, lifting) ex_map_conv length_map list.distinct(1))
    then have "object_items (scan_once d) (Suc (length ?t)) ?t = Inr (ms, r)"
      by (intro object_items_dumps el) (use Cons PDict.prems in auto)
    with sk d s show ?thesis
      unfolding dumps_dict [OF s(1)]
      by (simp add: scan_value_def parse_object_def Let_def pairs_hook_distinct)
  qed
qed

theorem loads_dumps:
  assumes "canon_val v" "nesting v \<le> depth"
  shows "loads depth (dumps v) = Inr v"
proof -
  have "hd (dumps v) \<noteq> 65279"
  proof (cases v)
    case (PInt i)
    then show ?thesis using str_nat_hd_digit(2) [of "nat i"] by (auto simp: str_int_def)
  qed (auto simp: u_def dump_str_def)
  then have "\<not> startswith (dumps v) [65279]"
    using dumps_hd [of v] by (cases "dumps v") auto
  then show ?thesis
    using scan_dumps [OF assms, of "[]"] skip_ws_dumps [of v "[]"] by (simp add: loads_def)
qed

text \<open>The output is ASCII.\<close>

lemma hex4_ascii: "x \<in> set (hex4 n) \<Longrightarrow> x < 128"
  by (auto simp: hex4_def hex_digit_def)

lemma escape_char_ascii: "x \<in> set (escape_char c) \<Longrightarrow> x < 128"
  by (auto simp: escape_char_def dest: hex4_ascii split: if_splits)

lemma dump_str_ascii: "x \<in> set (dump_str s) \<Longrightarrow> x < 128"
  by (auto simp: dump_str_def dest: escape_char_ascii)

lemma set_join_on_subset: "x \<in> set (join_on c ws) \<Longrightarrow> x \<in> set c \<or> (\<exists>w \<in> set ws. x \<in> set w)"
  by (induction c ws rule: join_on.induct) auto

lemma dumps_ascii: "x \<in> set (dumps v) \<Longrightarrow> x < 128"
proof (induction v arbitrary: x)
  case (PInt i)
  then show ?case using str_nat_digits by (fastforce simp: str_int_def ascii_digit_def split: if_splits)
next
  case (PList xs)
  then show ?case by (auto dest!: set_join_on_subset)
next
  case (PDict d)
  then show ?case
    by (auto dest!: set_join_on_subset dump_str_ascii simp: sorted_items_def)
qed (auto simp: u_def dump_str_ascii split: if_splits)

end
