(* ===== verification/Nia_Common.thy ===== *)
theory Nia_Common
  imports Py_Json
begin

text \<open>
  \<open>tools/nia_common.py\<close>: the checks every validator of the repository is built from
  (\<open>fields\<close>, \<open>integer\<close>, \<open>digest\<close>, \<open>relative\<close>), the canonical encoding and its reader
  (\<open>canonical\<close>, \<open>parse_json\<close>), and \<open>sha\<close>.
\<close>

definition MAX_JSON :: nat where
  "MAX_JSON = 8 * 1024 * 1024"

section \<open>Field access\<close>

text \<open>\<open>d[k]\<close> on a value: a missing key is \<open>KeyError\<close>, a value that is no dictionary \<open>TypeError\<close>.\<close>

definition get_item :: "pyval \<Rightarrow> string \<Rightarrow> pyval res" where
  "get_item v k = (case v of
       PDict d \<Rightarrow> (case map_of d (u k) of None \<Rightarrow> Inl KeyError | Some x \<Rightarrow> Inr x)
     | _ \<Rightarrow> Inl TypeError)"

text \<open>The field of a dictionary whose keys \<open>fields\<close> has just checked.\<close>

definition field :: "pyval \<Rightarrow> string \<Rightarrow> pyval" where
  "field v k = (case v of
       PDict d \<Rightarrow> (case map_of d (u k) of None \<Rightarrow> PNone | Some x \<Rightarrow> x)
     | _ \<Rightarrow> PNone)"

definition dict_keys :: "pyval \<Rightarrow> pystr list" where
  "dict_keys v = (case v of PDict d \<Rightarrow> map fst d | _ \<Rightarrow> [])"

definition is_dict :: "pyval \<Rightarrow> bool" where
  "is_dict v = (case v of PDict _ \<Rightarrow> True | _ \<Rightarrow> False)"

lemma get_item_field: "get_item v k = Inr x \<Longrightarrow> field v k = x"
  by (auto simp: get_item_def field_def split: pyval.splits option.splits)

lemma get_item_in_keys: "is_dict v \<Longrightarrow> u k \<in> set (dict_keys v) \<Longrightarrow> get_item v k = Inr (field v k)"
  by (auto simp: get_item_def field_def is_dict_def dict_keys_def map_of_eq_None_iff image_iff
      split: pyval.splits option.splits)

text \<open>
  \<open>fields(obj, keys, where)\<close>: \<open>obj\<close> is a dictionary with exactly these keys. The model's
  dictionaries have distinct keys, so comparing the key sets is the code's comparison.
\<close>

definition check_fields :: "pyval \<Rightarrow> string list \<Rightarrow> string \<Rightarrow> unit res" where
  "check_fields obj keys wh =
     (if \<not> is_dict obj \<or> set (dict_keys obj) \<noteq> set (map u keys)
      then Inl (Invalid (u wh @ u '': unknown or missing fields'')) else Inr ())"

lemma fields_ok [ok_simps]:
  "check_fields v ks w = Inr y \<longleftrightarrow> is_dict v \<and> set (dict_keys v) = set (map u ks)"
  by (auto simp: check_fields_def)

lemma fields_get:
  assumes "check_fields v ks w = Inr ()" "k \<in> set ks"
  shows "get_item v k = Inr (field v k)"
  using assms by (intro get_item_in_keys) (auto simp: fields_ok)

section \<open>Scalars\<close>

text \<open>\<open>type(value) is int\<close> excludes \<open>bool\<close>: the constructor is \<open>PInt\<close>.\<close>

definition integer :: "pyval \<Rightarrow> int \<Rightarrow> int \<Rightarrow> string \<Rightarrow> int res" where
  "integer value low high wh =
     (case value of
        PInt i \<Rightarrow> if low \<le> i \<and> i \<le> high then Inr i
                  else Inl (Invalid (u wh @ u '': out-of-range/noncanonical integer''))
      | _ \<Rightarrow> Inl (Invalid (u wh @ u '': out-of-range/noncanonical integer'')))"

lemma integer_ok [ok_simps]:
  "integer v low high w = Inr i \<longleftrightarrow> v = PInt i \<and> low \<le> i \<and> i \<le> high"
  by (auto simp: integer_def split: pyval.splits)

definition MAX_INT64 :: int where
  "MAX_INT64 = 2 ^ 63 - 1"

text \<open>A SHA-256 digest: 64 lower-case hexadecimal digits, not all zero.\<close>

definition digest_ok :: "pystr \<Rightarrow> bool" where
  "digest_ok s \<longleftrightarrow> length s = 64 \<and> list_all hex_lower s \<and> s \<noteq> replicate 64 48"

definition digest_str :: "pystr \<Rightarrow> pystr res" where
  "digest_str s = (if \<not> digest_ok s then invalid ''noncanonical or absent SHA-256'' else Inr s)"

definition digest :: "pyval \<Rightarrow> pystr res" where
  "digest value = (case value of PStr s \<Rightarrow> digest_str s
     | _ \<Rightarrow> invalid ''noncanonical or absent SHA-256'')"

lemma digest_str_ok [ok_simps]: "digest_str s = Inr d \<longleftrightarrow> digest_ok s \<and> d = s"
  by (auto simp: digest_str_def)

lemma digest_ok_iff [ok_simps]: "digest v = Inr d \<longleftrightarrow> v = PStr d \<and> digest_ok d"
  by (cases v) (auto simp: digest_def digest_str_ok)

definition sha :: "pybytes \<Rightarrow> pystr" where
  "sha data = sha256_hex data"

lemma length_sha [simp]: "length (sha b) = 64"
  by (simp add: sha_def)

lemma sha_digest: "sha b \<noteq> replicate 64 48 \<Longrightarrow> digest_ok (sha b)"
  by (auto simp: digest_ok_def list_all_iff sha_def sha256_hex_lower)

section \<open>Canonical JSON\<close>

definition canonical :: "pyval \<Rightarrow> pybytes" where
  "canonical obj = ascii_encode (dumps obj)"

definition json_error :: "exn \<Rightarrow> bool" where
  "json_error e \<longleftrightarrow> e = ValueError \<or> e = UnicodeDecodeError \<or> e = RecursionError"

definition parse_json_limit :: "nat \<Rightarrow> nat \<Rightarrow> pybytes \<Rightarrow> pyval res" where
  "parse_json_limit limit depth raw =
     (if length raw > limit then invalid ''JSON byte limit''
      else exceptE json_error (Invalid (u ''invalid JSON''))
        (case utf8_decode raw of None \<Rightarrow> Inl UnicodeDecodeError
         | Some text \<Rightarrow> loads depth text))"

definition parse_json :: "nat \<Rightarrow> pybytes \<Rightarrow> pyval res" where
  "parse_json = parse_json_limit MAX_JSON"

lemma canonical_decodes: "utf8_decode (canonical v) = Some (dumps v)"
  unfolding canonical_def by (rule utf8_decode_ascii) (simp add: dumps_ascii)

lemma parse_canonical:
  assumes "canon_val v" "nesting v \<le> depth" "length (canonical v) \<le> limit"
  shows "parse_json_limit limit depth (canonical v) = Inr v"
  using assms loads_dumps [OF assms(1,2)] by (simp add: parse_json_limit_def canonical_decodes)

lemma length_canonical [simp]: "length (canonical v) = length (dumps v)"
  by (simp add: canonical_def ascii_encode_def)

section \<open>Relative paths\<close>

definition forbidden_parts :: "pystr list" where
  "forbidden_parts = [u '''', u ''.'', u ''..'']"

definition relative :: "pystr \<Rightarrow> pystr res" where
  "relative text =
     (if text = [] \<or> length text > 4096 \<or> startswith text [47] \<or> 92 \<in> set text
      then invalid ''invalid relative path''
      else if utf8_encode text = None then invalid ''non-Unicode path''
      else if list_ex (\<lambda>c. c < 32 \<or> c = 127) text
           \<or> list_ex (\<lambda>p. p \<in> set forbidden_parts) (split_on 47 text)
      then invalid ''noncanonical relative path'' else Inr text)"

definition relative_val :: "pyval \<Rightarrow> pystr res" where
  "relative_val v = (case v of PStr s \<Rightarrow> relative s | _ \<Rightarrow> invalid ''invalid relative path'')"

definition relative_ok :: "pystr \<Rightarrow> bool" where
  "relative_ok s \<longleftrightarrow> length s \<le> 4096 \<and> 92 \<notin> set s \<and> list_all is_scalar s
     \<and> (\<forall>c \<in> set s. 32 \<le> c \<and> c \<noteq> 127)
     \<and> (\<forall>p \<in> set (split_on 47 s). p \<noteq> [] \<and> p \<noteq> u ''.'' \<and> p \<noteq> u ''..'')"

lemma utf8_encode_None: "utf8_encode s = None \<longleftrightarrow> \<not> list_all is_scalar s"
  by (simp add: utf8_encode_def)

lemma relative_ok [ok_simps]: "relative s = Inr t \<longleftrightarrow> relative_ok s \<and> t = s"
proof -
  have "relative_ok s \<Longrightarrow> s \<noteq> [] \<and> \<not> startswith s [47]"
    by (cases s) (auto simp: relative_ok_def)
  then show ?thesis
    by (auto simp: relative_def relative_ok_def forbidden_parts_def utf8_encode_None list_ex_iff
        not_less not_le)
qed

lemma relative_val_ok [ok_simps]: "relative_val v = Inr t \<longleftrightarrow> v = PStr t \<and> relative_ok t"
  by (cases v) (auto simp: relative_val_def relative_ok)

text \<open>
  What a relative path is for: resolved from a directory, component by component with \<open>..\<close>
  going up, it stays below that directory. \<open>resolve\<close> is the walk; \<open>None\<close> is leaving the root.
\<close>

fun resolve :: "pystr list \<Rightarrow> pystr list \<Rightarrow> pystr list option" where
  "resolve base [] = Some base"
| "resolve base (p # ps) =
     (if p = [] \<or> p = u ''.'' then resolve base ps
      else if p = u ''..'' then (if base = [] then None else resolve (butlast base) ps)
      else resolve (base @ [p]) ps)"

lemma resolve_plain:
  "\<forall>p \<in> set ps. p \<noteq> [] \<and> p \<noteq> u ''.'' \<and> p \<noteq> u ''..'' \<Longrightarrow> resolve base ps = Some (base @ ps)"
  by (induction ps arbitrary: base) auto

lemma relative_resolves:
  "relative_ok s \<Longrightarrow> resolve base (split_on 47 s) = Some (base @ split_on 47 s)"
  by (rule resolve_plain) (auto simp: relative_ok_def)

section \<open>The canonical encoding determines the value up to the order of keys\<close>

fun normal :: "pyval \<Rightarrow> pyval" where
  "normal (PList xs) = PList (map normal xs)"
| "normal (PDict d) = PDict (sorted_items (map (\<lambda>p. (fst p, normal (snd p))) d))"
| "normal v = v"

text \<open>The values a Python object of these types can be: dictionaries with distinct keys.\<close>

fun json_val :: "pyval \<Rightarrow> bool" where
  "json_val (PInt i) \<longleftrightarrow> length (str_nat (nat \<bar>i\<bar>)) \<le> MAX_STR_DIGITS"
| "json_val (PStr s) \<longleftrightarrow> scalar_str s"
| "json_val (PList xs) \<longleftrightarrow> (\<forall>x \<in> set xs. json_val x)"
| "json_val (PDict d) \<longleftrightarrow> distinct (map fst d) \<and> (\<forall>p \<in> set d. scalar_str (fst p) \<and> json_val (snd p))"
| "json_val _ \<longleftrightarrow> True"

lemma insort_key_map_snd:
  "insort_key fst (fst p, f (snd p)) (map (\<lambda>p. (fst p, f (snd p))) xs)
     = map (\<lambda>p. (fst p, f (snd p))) (insort_key fst p xs)"
  by (induction xs) auto

lemma sorted_items_map:
  "sorted_items (map (\<lambda>p. (fst p, f (snd p))) d) = map (\<lambda>p. (fst p, f (snd p))) (sorted_items d)"
proof (induction d)
  case (Cons p d)
  then show ?case unfolding sorted_items_def by (simp add: insort_key_map_snd)
qed (simp add: sorted_items_def)

lemma sorted_items_idem [simp]: "sorted_items (sorted_items d) = sorted_items d"
  by (rule sorted_items_id) simp

lemma dumps_normal: "dumps (normal v) = dumps v"
proof (induction v rule: normal.induct)
  case (2 d)
  have "map (\<lambda>p. (fst p, dumps (snd p))) (map (\<lambda>p. (fst p, normal (snd p))) d) = map (\<lambda>p. (fst p, dumps (snd p))) d"
    using 2 by auto
  then show ?case
    unfolding normal.simps dumps.simps case_prod_unfold
    by (simp only: sorted_items_map [symmetric] sorted_items_idem)
next
  case (1 xs)
  then have "map dumps (map normal xs) = map dumps xs" by simp
  then show ?case by (simp only: normal.simps dumps.simps)
qed simp_all

lemma map_fst_pair: "map fst (map (\<lambda>p. (fst p, f (snd p))) d) = map fst d"
  by simp

lemma canon_val_normal: "json_val v \<Longrightarrow> canon_val (normal v)"
proof (induction v rule: normal.induct)
  case (2 d)
  have "distinct (map fst (map (\<lambda>p. (fst p, normal (snd p))) d))" using 2(2) by (simp add: comp_def)
  then have "distinct (map fst (sorted_items (map (\<lambda>p. (fst p, normal (snd p))) d)))" by (simp only: distinct_sorted_items)
  then show ?case using 2 by auto
qed auto

lemma canonical_inj:
  assumes "canon_val v" "canon_val w" "canonical v = canonical w"
  shows "v = w"
proof -
  let ?n = "max (nesting v) (nesting w)" and ?l = "length (canonical v)"
  have "parse_json_limit ?l ?n (canonical v) = Inr v" by (rule parse_canonical [OF assms(1)]) simp_all
  moreover have "parse_json_limit ?l ?n (canonical w) = Inr w"
    by (rule parse_canonical [OF assms(2)]) (simp_all add: assms(3))
  ultimately show ?thesis using assms(3) by simp
qed

lemma canonical_eq_iff:
  assumes "json_val v" "json_val w"
  shows "canonical v = canonical w \<longleftrightarrow> normal v = normal w"
proof
  assume "canonical v = canonical w"
  then have "canonical (normal v) = canonical (normal w)" by (simp add: canonical_def dumps_normal)
  then show "normal v = normal w" by (rule canonical_inj [OF canon_val_normal [OF assms(1)] canon_val_normal [OF assms(2)]])
next
  assume "normal v = normal w"
  then show "canonical v = canonical w" by (metis canonical_def dumps_normal)
qed

end
