(* ===== verification/Debian_Semantics.thy ===== *)
theory Debian_Semantics
  imports Nia_Common
begin

text \<open>
  \<open>tools/debian_semantics.py\<close>: Debian version numbers and their order, relationship
  fields, and the check of a final package set. A version is split into epoch, upstream
  version and revision; \<open>part\<close> is the two-pointer comparison of \<open>_part\<close> and \<open>compare\<close> the
  order of versions, which is shown to be a total preorder by relating it to a
  lexicographic comparison of token lists. \<open>check_final\<close> is related to a declarative
  statement of what a consistent final set is.
\<close>

section \<open>Comparison functions\<close>

text \<open>The interface of a three-way comparison on the values \<open>dom\<close> admits.\<close>

locale three_way =
  fixes dom :: "'a \<Rightarrow> bool" and cmp :: "'a \<Rightarrow> 'a \<Rightarrow> int"
  assumes cmp_swap: "dom x \<Longrightarrow> dom y \<Longrightarrow> cmp y x = - cmp x y"
    and cmp_trans: "dom x \<Longrightarrow> dom y \<Longrightarrow> dom z \<Longrightarrow> cmp x y \<le> 0 \<Longrightarrow> cmp y z \<le> 0 \<Longrightarrow> cmp x z \<le> 0"
begin

lemma cmp_refl: "dom x \<Longrightarrow> cmp x x = 0"
  using cmp_swap [of x x] by simp

lemma cmp_total: "dom x \<Longrightarrow> dom y \<Longrightarrow> cmp x y \<le> 0 \<or> cmp y x \<le> 0"
  using cmp_swap [of x y] by linarith

lemma cmp_eq_sym: "dom x \<Longrightarrow> dom y \<Longrightarrow> cmp x y = 0 \<longleftrightarrow> cmp y x = 0"
  using cmp_swap [of x y] by linarith

lemma cmp_eq_trans:
  assumes "dom x" "dom y" "dom z" "cmp x y = 0" "cmp y z = 0"
  shows "cmp x z = 0"
  using cmp_trans [of x y z] cmp_trans [of z y x] cmp_swap [of x y] cmp_swap [of y z] cmp_swap [of x z] assms
  by linarith

lemma cmp_less_trans:
  assumes "dom x" "dom y" "dom z" "cmp x y < 0" "cmp y z \<le> 0"
  shows "cmp x z < 0"
  using cmp_trans [of x y z] cmp_trans [of y z x] cmp_swap [of x y] cmp_swap [of x z] assms by linarith

lemma cmp_le_less_trans:
  assumes "dom x" "dom y" "dom z" "cmp x y \<le> 0" "cmp y z < 0"
  shows "cmp x z < 0"
  using cmp_trans [of x y z] cmp_trans [of z x y] cmp_swap [of y z] cmp_swap [of x z] assms by linarith

end

definition cmp3 :: "'a::linorder \<Rightarrow> 'a \<Rightarrow> int" where
  "cmp3 x y = (if x < y then -1 else if y < x then 1 else 0)"

text \<open>Python's \<open>x or y\<close> on integers.\<close>

definition or_else :: "int \<Rightarrow> int \<Rightarrow> int" where
  "or_else x y = (if x \<noteq> 0 then x else y)"

lemma cmp3_zero [simp]: "cmp3 x y = 0 \<longleftrightarrow> x = y"
  by (auto simp: cmp3_def)

lemma cmp3_swap: "cmp3 y x = - cmp3 x y"
  by (auto simp: cmp3_def)

lemma cmp3_sign [simp]: "cmp3 x y \<le> 0 \<longleftrightarrow> x \<le> y" "cmp3 x y < 0 \<longleftrightarrow> x < y" "0 < cmp3 x y \<longleftrightarrow> y < x"
  by (auto simp: cmp3_def)

lemma or_else_simps [simp]: "or_else 0 y = y" "x \<noteq> 0 \<Longrightarrow> or_else x y = x"
  by (simp_all add: or_else_def)

interpretation order_cmp: three_way "\<lambda>_. True" "cmp3 :: 'a::linorder \<Rightarrow> 'a \<Rightarrow> int"
  by unfold_locales (auto intro: cmp3_swap)

text \<open>Comparing by one comparison and then by another is a comparison.\<close>

lemma three_way_or_else:
  assumes c: "three_way A c" and d: "three_way B d"
    and dom: "\<And>x. X x \<Longrightarrow> A (f x) \<and> B (g x)"
  shows "three_way X (\<lambda>x y. or_else (c (f x) (f y)) (d (g x) (g y)))"
proof (unfold_locales)
  fix x y assume "X x" "X y"
  then have "c (f y) (f x) = - c (f x) (f y)" "d (g y) (g x) = - d (g x) (g y)"
    using dom by (auto intro: three_way.cmp_swap [OF c] three_way.cmp_swap [OF d])
  then show "or_else (c (f y) (f x)) (d (g y) (g x)) = - or_else (c (f x) (f y)) (d (g x) (g y))"
    by (auto simp: or_else_def)
next
  fix x y z
  assume "X x" "X y" "X z"
  then have A: "A (f x)" "A (f y)" "A (f z)" and B: "B (g x)" "B (g y)" "B (g z)" using dom by auto
  assume a: "or_else (c (f x) (f y)) (d (g x) (g y)) \<le> 0" "or_else (c (f y) (f z)) (d (g y) (g z)) \<le> 0"
  then have le: "c (f x) (f y) \<le> 0" "c (f y) (f z) \<le> 0" by (auto simp: or_else_def split: if_splits)
  show "or_else (c (f x) (f z)) (d (g x) (g z)) \<le> 0"
  proof (cases "c (f x) (f y) = 0 \<and> c (f y) (f z) = 0")
    case True
    with a have "d (g x) (g y) \<le> 0" "d (g y) (g z) \<le> 0" by auto
    then have "d (g x) (g z) \<le> 0" by (rule three_way.cmp_trans [OF d B])
    moreover have "c (f x) (f z) = 0" using True three_way.cmp_eq_trans [OF c A] by blast
    ultimately show ?thesis by simp
  next
    case False
    with le have "c (f x) (f y) < 0 \<or> c (f y) (f z) < 0" by linarith
    then have "c (f x) (f z) < 0"
      using le three_way.cmp_less_trans [OF c A] three_way.cmp_le_less_trans [OF c A] by blast
    then show ?thesis by (simp add: or_else_def)
  qed
qed

section \<open>Versions\<close>

definition MAX_VERSION :: nat where
  "MAX_VERSION = 512"

text \<open>\<open>NAME\<close>, \<open>VER\<close> and the revision's pattern.\<close>

definition name_char :: "nat \<Rightarrow> bool" where
  "name_char c \<longleftrightarrow> lower_alnum c \<or> c \<in> set (u ''+.-'')"

definition name_ok :: "pystr \<Rightarrow> bool" where
  "name_ok s \<longleftrightarrow> (case s of [] \<Rightarrow> False | c # r \<Rightarrow> lower_alnum c \<and> r \<noteq> [] \<and> list_all name_char r)"

definition version_char :: "nat \<Rightarrow> bool" where
  "version_char c \<longleftrightarrow> ascii_alnum c \<or> c \<in> set (u ''.+:~-'')"

definition rest_ok :: "pystr \<Rightarrow> bool" where
  "rest_ok s \<longleftrightarrow> (case s of [] \<Rightarrow> False | c # r \<Rightarrow> ascii_digit c \<and> list_all version_char r)"

definition revision_ok :: "pystr \<Rightarrow> bool" where
  "revision_ok s \<longleftrightarrow> s \<noteq> [] \<and> list_all (\<lambda>c. ascii_alnum c \<or> c \<in> set (u ''+.~'')) s"

definition match_version :: "pystr \<Rightarrow> (pystr option \<times> pystr) option" where
  "match_version s =
     (let ds = takeWhile ascii_digit s; r = dropWhile ascii_digit s
      in if ds \<noteq> [] \<and> r \<noteq> [] \<and> hd r = 58 \<and> rest_ok (tl r) then Some (Some ds, tl r)
         else if rest_ok s then Some (None, s) else None)"

definition ascii_value :: "pystr \<Rightarrow> nat" where
  "ascii_value s = digits_value (map (\<lambda>c. c - 48) s)"

definition or_zero :: "pystr \<Rightarrow> pystr" where
  "or_zero s = (if s = [] then u ''0'' else s)"

type_synonym version = "pystr \<times> pystr \<times> pystr"

definition split_version :: "pystr \<Rightarrow> version res" where
  "split_version value =
     (if value = [] \<or> length value > MAX_VERSION then invalid ''version size''
      else case match_version value of
        None \<Rightarrow> invalid ''invalid Debian version''
      | Some (e, rest) \<Rightarrow>
          let epoch = (case e of None \<Rightarrow> u ''0'' | Some d \<Rightarrow> d) in
          if ascii_value epoch > 2147483647
          then invalid ''epoch exceeds dpkg-compatible supported range''
          else if e = None \<and> 58 \<in> set rest then invalid ''colon without epoch''
          else bindE
            (case split_last 45 rest of
               None \<Rightarrow> Inr (rest, u ''0'')
             | Some (upstream, revision) \<Rightarrow>
                 if \<not> revision_ok revision then invalid ''invalid revision'' else Inr (upstream, revision))
            (\<lambda>(upstream, revision).
               if upstream = [] then invalid ''empty upstream version''
               else Inr (or_zero (lstrip (\<lambda>c. c = 48) epoch), upstream, revision)))"

definition split_version_val :: "pyval \<Rightarrow> version res" where
  "split_version_val v = (case v of PStr s \<Rightarrow> split_version s | _ \<Rightarrow> invalid ''version size'')"

definition valid_version :: "pystr \<Rightarrow> bool" where
  "valid_version s \<longleftrightarrow> is_ok (split_version s)"

section \<open>The order of versions\<close>

text \<open>\<open>_digits\<close>: without leading zeros, first by length and then as strings.\<close>

definition digits_cmp :: "pystr \<Rightarrow> pystr \<Rightarrow> int" where
  "digits_cmp a b = (let a' = lstrip (\<lambda>c. c = 48) a; b' = lstrip (\<lambda>c. c = 48) b
     in or_else (cmp3 (length a') (length b')) (cmp3 a' b'))"

text \<open>\<open>_order\<close>, the empty string being \<open>None\<close>.\<close>

definition order :: "nat option \<Rightarrow> int" where
  "order c = (case c of None \<Rightarrow> 0
     | Some c \<Rightarrow> if c = 126 then -1 else if ascii_digit c then 0
               else if ascii_upper c \<or> ascii_lower c then int c else int c + 256)"

definition head_opt :: "'a list \<Rightarrow> 'a option" where
  "head_opt s = (case s of [] \<Rightarrow> None | c # _ \<Rightarrow> Some c)"

definition at_nondigit :: "pystr \<Rightarrow> bool" where
  "at_nondigit s \<longleftrightarrow> s \<noteq> [] \<and> \<not> is_digit_char (hd s)"

text \<open>The inner loop of \<open>_part\<close>: a result, or the two positions where it stopped.\<close>

function nondigits :: "pystr \<Rightarrow> pystr \<Rightarrow> int + (pystr \<times> pystr)" where
  "nondigits a b =
     (if at_nondigit a \<or> at_nondigit b then
        (let x = order (head_opt a); y = order (head_opt b)
         in if x \<noteq> y then Inl (cmp3 x y) else nondigits (tl a) (tl b))
      else Inr (a, b))"
  by pat_completeness auto
termination
  by (relation "measure (\<lambda>(a, b). length a + length b)") (auto simp: at_nondigit_def neq_Nil_conv)

declare nondigits.simps [simp del]

lemma nondigits_shorter:
  "nondigits a b = Inr (a', b') \<Longrightarrow> length a' \<le> length a \<and> length b' \<le> length b
     \<and> \<not> at_nondigit a' \<and> \<not> at_nondigit b'
     \<and> (length a' + length b' < length a + length b \<or> (a' = a \<and> b' = b))"
proof (induction a b rule: nondigits.induct)
  case (1 a b)
  show ?case
  proof (cases "at_nondigit a \<or> at_nondigit b")
    case True
    with "1.prems" have o: "order (head_opt a) = order (head_opt b)"
      and r: "nondigits (tl a) (tl b) = Inr (a', b')"
      by (auto simp: nondigits.simps [of a b] Let_def split: if_splits)
    have "length (tl a) + length (tl b) < length a + length b"
      using True by (auto simp: at_nondigit_def neq_Nil_conv)
    moreover have "length (tl a) \<le> length a" "length (tl b) \<le> length b" by simp_all
    ultimately show ?thesis using "1.IH" [OF True refl refl _ r] o by fastforce
  next
    case False
    with "1.prems" show ?thesis by (simp add: nondigits.simps [of a b])
  qed
qed

lemma digit_run_shorter:
  "\<not> at_nondigit a \<Longrightarrow> length (dropWhile is_digit_char a) \<le> length a
     \<and> (a \<noteq> [] \<longrightarrow> length (dropWhile is_digit_char a) < length a)"
  by (cases a) (auto simp: at_nondigit_def length_dropWhile_le less_Suc_eq_le intro: le_SucI)

function part :: "pystr \<Rightarrow> pystr \<Rightarrow> int" where
  "part a b =
     (if a = [] \<and> b = [] then 0
      else case nondigits a b of
        Inl r \<Rightarrow> r
      | Inr (a', b') \<Rightarrow>
          (let result = digits_cmp (takeWhile is_digit_char a') (takeWhile is_digit_char b')
           in if result \<noteq> 0 then result
              else part (dropWhile is_digit_char a') (dropWhile is_digit_char b')))"
  by pat_completeness auto
termination
proof (relation "measure (\<lambda>(a, b). length a + length b)", goal_cases)
  case (2 a b y a' b' x)
  then have n: "nondigits a b = Inr (a', b')" by simp
  from nondigits_shorter [OF this] have s: "\<not> at_nondigit a'" "\<not> at_nondigit b'"
    "length a' + length b' < length a + length b \<or> (a' = a \<and> b' = b)" by auto
  have ne: "a \<noteq> [] \<or> b \<noteq> []" using 2 by auto
  from digit_run_shorter [OF s(1)] digit_run_shorter [OF s(2)] s(3) ne show ?case by auto
qed simp

declare part.simps [simp del]

definition version_cmp :: "version \<Rightarrow> version \<Rightarrow> int" where
  "version_cmp v w = (case v of (ea, ua, ra) \<Rightarrow> case w of (eb, ub, rb) \<Rightarrow>
     or_else (digits_cmp ea eb) (or_else (part ua ub) (part ra rb)))"

definition compare :: "pystr \<Rightarrow> pystr \<Rightarrow> int res" where
  "compare a b = bindE (split_version a) (\<lambda>va. bindE (split_version b) (\<lambda>vb. Inr (version_cmp va vb)))"

section \<open>The order is a total preorder\<close>

lemma cmp3_refl [simp]: "cmp3 x x = 0"
  by (simp add: cmp3_def)

subsection \<open>Digit runs compare as numbers\<close>

lemma foldl_digits: "foldl (\<lambda>a d. 10 * a + d) n ds = n * 10 ^ length ds + digits_value ds" for n :: nat
proof (induction ds arbitrary: n)
  case (Cons d ds)
  have "digits_value (d # ds) = d * 10 ^ length ds + digits_value ds"
    using Cons.IH [of d] by (simp add: digits_value_def)
  with Cons.IH [of "10 * n + d"] show ?case by (simp add: algebra_simps)
qed (simp add: digits_value_def)

lemma digits_value_Cons: "digits_value (d # ds) = d * 10 ^ length ds + digits_value ds"
  using foldl_digits [of d ds] by (simp add: digits_value_def)

definition digit_str :: "pystr \<Rightarrow> bool" where
  "digit_str s \<longleftrightarrow> list_all ascii_digit s"

lemma digit_str_simps [simp]: "digit_str []" "digit_str (c # s) \<longleftrightarrow> ascii_digit c \<and> digit_str s"
  by (simp_all add: digit_str_def)

lemma ascii_value_Cons: "ascii_value (c # s) = (c - 48) * 10 ^ length s + ascii_value s"
  by (simp add: ascii_value_def digits_value_Cons)

lemma ascii_value_Nil [simp]: "ascii_value [] = 0"
  by (simp add: ascii_value_def digits_value_def)

lemma ascii_value_less: "digit_str s \<Longrightarrow> ascii_value s < 10 ^ length s"
proof (induction s)
  case (Cons c s)
  then have "c - 48 \<le> 9" "ascii_value s < 10 ^ length s" by (auto simp: ascii_digit_def)
  then have "(c - 48) * 10 ^ length s + ascii_value s < 9 * 10 ^ length s + 10 ^ length s"
    by (intro add_le_less_mono mult_right_mono) auto
  then show ?case by (simp add: ascii_value_Cons)
qed simp

lemma ascii_value_ge: "s \<noteq> [] \<Longrightarrow> ascii_digit (hd s) \<Longrightarrow> hd s \<noteq> 48 \<Longrightarrow> 10 ^ (length s - 1) \<le> ascii_value s"
  by (cases s) (auto simp: ascii_value_Cons ascii_digit_def trans_le_add1)

lemma ascii_value_lstrip: "ascii_value (lstrip (\<lambda>c. c = 48) s) = ascii_value s"
  by (induction s) (auto simp: lstrip_def ascii_value_Cons)

lemma cmp3_ascii_value:
  "digit_str a \<Longrightarrow> digit_str b \<Longrightarrow> length a = length b \<Longrightarrow> cmp3 a b = cmp3 (ascii_value a) (ascii_value b)"
proof (induction a arbitrary: b)
  case Nil
  then show ?case by simp
next
  case (Cons x a)
  then obtain y b' where b: "b = y # b'" by (cases b) auto
  with Cons have IH: "cmp3 a b' = cmp3 (ascii_value a) (ascii_value b')" and len: "length b' = length a"
    and d: "ascii_digit x" "ascii_digit y" "digit_str a" "digit_str b'" by auto
  note l = ascii_value_less [OF d(3)] ascii_value_less [OF d(4)]
  consider "x = y" | "x < y" | "y < x" by linarith
  then show ?case
  proof cases
    case 1
    with IH b show ?thesis by (auto simp: cmp3_def ascii_value_Cons len split: if_splits)
  next
    case 2
    have "(x - 48 + 1) * 10 ^ length a \<le> (y - 48) * 10 ^ length a"
      using 2 d by (intro mult_right_mono) (auto simp: ascii_digit_def)
    with l have "ascii_value (x # a) < ascii_value (y # b')"
      by (simp add: ascii_value_Cons len add_mult_distrib)
    with 2 b show ?thesis by (simp add: cmp3_def)
  next
    case 3
    have "(y - 48 + 1) * 10 ^ length a \<le> (x - 48) * 10 ^ length a"
      using 3 d by (intro mult_right_mono) (auto simp: ascii_digit_def)
    with l have "ascii_value (y # b') < ascii_value (x # a)"
      by (simp add: ascii_value_Cons len add_mult_distrib)
    with 3 b show ?thesis by (simp add: cmp3_def)
  qed
qed

lemma digit_str_lstrip: "digit_str s \<Longrightarrow> digit_str (lstrip p s)"
  by (auto simp: digit_str_def lstrip_def list_all_iff dest: set_dropWhileD)

lemma digit_str_shorter:
  assumes "digit_str a" "digit_str b" "length a < length b" "hd b \<noteq> 48"
  shows "ascii_value a < ascii_value b"
proof -
  have b: "b \<noteq> []" using assms by auto
  have "ascii_value a < 10 ^ length a" by (rule ascii_value_less [OF assms(1)])
  also have "\<dots> \<le> (10::nat) ^ (length b - 1)" using assms(3) by (intro power_increasing) auto
  also have "\<dots> \<le> ascii_value b"
    using assms b by (intro ascii_value_ge) (auto simp: digit_str_def list_all_iff)
  finally show ?thesis .
qed

lemma digits_cmp_value:
  assumes "digit_str a" "digit_str b"
  shows "digits_cmp a b = cmp3 (ascii_value a) (ascii_value b)"
proof -
  let ?a = "lstrip (\<lambda>c. c = 48) a" and ?b = "lstrip (\<lambda>c. c = 48) b"
  have d: "digit_str ?a" "digit_str ?b" using assms by (auto intro: digit_str_lstrip)
  have h: "?a \<noteq> [] \<Longrightarrow> hd ?a \<noteq> 48" "?b \<noteq> [] \<Longrightarrow> hd ?b \<noteq> 48"
    by (metis (mono_tags) hd_dropWhile lstrip_def)+
  have v: "ascii_value ?a = ascii_value a" "ascii_value ?b = ascii_value b"
    by (simp_all add: ascii_value_lstrip)
  consider "length ?a = length ?b" | "length ?a < length ?b" | "length ?b < length ?a" by linarith
  then show ?thesis
  proof cases
    case 1
    with cmp3_ascii_value [OF d 1] v show ?thesis by (simp add: digits_cmp_def Let_def)
  next
    case 2
    then have "?b \<noteq> []" by auto
    from digit_str_shorter [OF d 2 h(2) [OF this]] 2 v show ?thesis
      by (simp add: digits_cmp_def Let_def cmp3_def)
  next
    case 3
    then have "?a \<noteq> []" by auto
    from digit_str_shorter [OF d(2,1) 3 h(1) [OF this]] 3 v show ?thesis
      by (simp add: digits_cmp_def Let_def cmp3_def)
  qed
qed

subsection \<open>Token lists, compared with trailing zeros understood\<close>

fun lexcmp :: "int list \<Rightarrow> int list \<Rightarrow> int" where
  "lexcmp [] [] = 0"
| "lexcmp (x # xs) [] = or_else (cmp3 x 0) (lexcmp xs [])"
| "lexcmp [] (y # ys) = or_else (cmp3 0 y) (lexcmp [] ys)"
| "lexcmp (x # xs) (y # ys) = or_else (cmp3 x y) (lexcmp xs ys)"

definition head0 :: "int list \<Rightarrow> int" where
  "head0 xs = (case xs of [] \<Rightarrow> 0 | x # _ \<Rightarrow> x)"

lemma head0_simps [simp]: "head0 [] = 0" "head0 (x # xs) = x"
  by (simp_all add: head0_def)

lemma lexcmp_step: "lexcmp xs ys = or_else (cmp3 (head0 xs) (head0 ys)) (lexcmp (tl xs) (tl ys))"
  by (cases xs; cases ys) simp_all

lemma lexcmp_zero [simp]: "lexcmp [0] ys = lexcmp [] ys" "lexcmp xs [0] = lexcmp xs []"
  by (subst lexcmp_step, simp, subst (2) lexcmp_step, simp)+

lemma lexcmp_swap: "lexcmp ys xs = - lexcmp xs ys"
  by (induction xs ys rule: lexcmp.induct) (auto simp: or_else_def cmp3_def)

lemma lexcmp_trans: "lexcmp xs ys \<le> 0 \<Longrightarrow> lexcmp ys zs \<le> 0 \<Longrightarrow> lexcmp xs zs \<le> 0"
proof (induction "length xs + length ys + length zs" arbitrary: xs ys zs rule: less_induct)
  case less
  show ?case
  proof (cases "xs = [] \<and> ys = [] \<and> zs = []")
    case True
    then show ?thesis by simp
  next
    case False
    then have "length (tl xs) + length (tl ys) + length (tl zs) < length xs + length ys + length zs"
      by (cases xs; cases ys; cases zs) auto
    note IH = less.hyps [OF this]
    let ?x = "head0 xs" and ?y = "head0 ys" and ?z = "head0 zs"
    from less.prems have le: "?x \<le> ?y" "?y \<le> ?z"
      by (auto simp: lexcmp_step [of xs ys] lexcmp_step [of ys zs] or_else_def split: if_splits)
    show ?thesis
    proof (cases "?x = ?y \<and> ?y = ?z")
      case True
      with less.prems IH show ?thesis
        by (simp add: lexcmp_step [of xs ys] lexcmp_step [of ys zs] lexcmp_step [of xs zs])
    next
      case False
      with le have "?x < ?z" by linarith
      then have "cmp3 ?x ?z < 0" by simp
      then show ?thesis by (simp add: lexcmp_step [of xs zs] or_else_def)
    qed
  qed
qed

interpretation token_order: three_way "\<lambda>_. True" lexcmp
  by unfold_locales (auto intro: lexcmp_swap lexcmp_trans)

subsection \<open>A part as a token list\<close>

function tokens :: "pystr \<Rightarrow> int list" where
  "tokens s =
     (if s = [] then []
      else if ascii_digit (hd s)
      then 0 # int (ascii_value (takeWhile ascii_digit s)) # tokens (dropWhile ascii_digit s)
      else order (Some (hd s)) # tokens (tl s))"
  by pat_completeness auto
termination
  by (relation "measure length") (auto simp: neq_Nil_conv length_dropWhile_le less_Suc_eq_le)

declare tokens.simps [simp del]

definition ascii_str :: "pystr \<Rightarrow> bool" where
  "ascii_str s \<longleftrightarrow> (\<forall>c \<in> set s. c < 128)"

lemma ascii_str_simps [simp]: "ascii_str []" "ascii_str (c # s) \<longleftrightarrow> c < 128 \<and> ascii_str s"
  by (auto simp: ascii_str_def)

lemma ascii_str_parts: "ascii_str s \<Longrightarrow> ascii_str (tl s) \<and> ascii_str (dropWhile p s)"
  by (cases s) (auto simp: ascii_str_def dest: set_dropWhileD)

lemma head0_tokens: "head0 (tokens s) = order (head_opt s)"
proof (cases s)
  case Nil
  then show ?thesis by (simp add: tokens.simps [of "[]"] order_def head_opt_def)
next
  case (Cons c r)
  have "ascii_digit c \<Longrightarrow> order (Some c) = 0" by (auto simp: order_def ascii_digit_def)
  then show ?thesis unfolding Cons by (simp add: tokens.simps [of "c # r"] head_opt_def)
qed

lemma order_nondigit: "c < 128 \<Longrightarrow> order (Some c) = 0 \<longleftrightarrow> ascii_digit c"
  by (auto simp: order_def ascii_digit_def ascii_upper_def ascii_lower_def)

lemma order_at_nondigit:
  "ascii_str s \<Longrightarrow> at_nondigit s \<longleftrightarrow> order (head_opt s) \<noteq> 0"
  by (cases s) (auto simp: at_nondigit_def head_opt_def order_nondigit is_digit_char_ascii order_def [of None])

lemma tl_tokens: "at_nondigit s \<Longrightarrow> tl (tokens s) = tokens (tl s)"
  by (auto simp: at_nondigit_def tokens.simps [of s] ascii_digit_is_digit)

definition digit_tokens :: "pystr \<Rightarrow> int list" where
  "digit_tokens s = int (ascii_value (takeWhile ascii_digit s)) # tokens (dropWhile ascii_digit s)"

lemma tokens_digits:
  "ascii_str s \<Longrightarrow> \<not> at_nondigit s \<Longrightarrow> lexcmp (tokens s) xs = lexcmp (0 # digit_tokens s) xs
     \<and> lexcmp xs (tokens s) = lexcmp xs (0 # digit_tokens s)"
proof (cases s)
  case Nil
  have "lexcmp [] xs = lexcmp [0, 0] xs \<and> lexcmp xs [] = lexcmp xs [0, 0]" for xs
    by (subst (1 3) lexcmp_step, subst (2 4) lexcmp_step) simp
  then show ?thesis using Nil by (simp add: tokens.simps [of "[]"] digit_tokens_def)
next
  case (Cons c r)
  assume "ascii_str s" "\<not> at_nondigit s"
  with Cons have "ascii_digit c" by (simp add: at_nondigit_def is_digit_char_ascii)
  then have "tokens s = 0 # digit_tokens s"
    unfolding Cons by (simp add: tokens.simps [of "c # r"] digit_tokens_def)
  then show ?thesis by simp
qed

lemma nondigits_tokens:
  "ascii_str a \<Longrightarrow> ascii_str b \<Longrightarrow>
     (case nondigits a b of
        Inl r \<Rightarrow> lexcmp (tokens a) (tokens b) = r \<and> r \<noteq> 0
      | Inr (a', b') \<Rightarrow> lexcmp (tokens a) (tokens b) = lexcmp (digit_tokens a') (digit_tokens b')
          \<and> ascii_str a' \<and> ascii_str b')"
proof (induction a b rule: nondigits.induct)
  case (1 a b)
  let ?x = "order (head_opt a)" and ?y = "order (head_opt b)"
  show ?case
  proof (cases "at_nondigit a \<or> at_nondigit b")
    case True
    show ?thesis
    proof (cases "?x = ?y")
      case False
      with True have "nondigits a b = Inl (cmp3 ?x ?y)"
        by (subst nondigits.simps) (simp add: Let_def)
      moreover have "lexcmp (tokens a) (tokens b) = cmp3 ?x ?y"
        using False by (subst lexcmp_step) (simp add: head0_tokens)
      ultimately show ?thesis using False by simp
    next
      case eq: True
      with True 1(2,3) have both: "at_nondigit a" "at_nondigit b"
        unfolding order_at_nondigit [OF 1(2)] order_at_nondigit [OF 1(3)] eq by simp_all
      have "lexcmp (tokens a) (tokens b) = lexcmp (tokens (tl a)) (tokens (tl b))"
        using eq by (subst lexcmp_step) (simp add: head0_tokens tl_tokens both)
      moreover have "nondigits a b = nondigits (tl a) (tl b)"
        using True eq by (subst nondigits.simps) simp
      ultimately show ?thesis
        using "1.IH" [OF True refl refl] eq ascii_str_parts [OF 1(2)] ascii_str_parts [OF 1(3)]
        by (simp split: sum.splits prod.splits)
    qed
  next
    case False
    with tokens_digits [OF 1(2), of "tokens b"] tokens_digits [OF 1(3), of "0 # digit_tokens a"]
    have "lexcmp (tokens a) (tokens b) = lexcmp (digit_tokens a) (digit_tokens b)" by simp
    moreover have "nondigits a b = Inr (a, b)" using False by (subst nondigits.simps) simp
    ultimately show ?thesis using 1(2,3) by simp
  qed
qed

lemma takeWhile_digit_char: "ascii_str s \<Longrightarrow> takeWhile is_digit_char s = takeWhile ascii_digit s
    \<and> dropWhile is_digit_char s = dropWhile ascii_digit s"
  by (induction s) (auto simp: is_digit_char_ascii)

lemma digit_str_takeWhile: "digit_str (takeWhile ascii_digit s)"
  by (auto simp: digit_str_def list_all_iff dest: set_takeWhileD)

lemma cmp3_int: "cmp3 (int m) (int n) = cmp3 m n"
  by (simp add: cmp3_def)

lemma part_tokens: "ascii_str a \<Longrightarrow> ascii_str b \<Longrightarrow> part a b = lexcmp (tokens a) (tokens b)"
proof (induction a b rule: part.induct)
  case (1 a b)
  show ?case
  proof (cases "a = [] \<and> b = []")
    case True
    then show ?thesis by (simp add: part.simps [of "[]" "[]"] tokens.simps [of "[]"])
  next
    case ne: False
    show ?thesis
    proof (cases "nondigits a b")
      case (Inl r)
      then have "part a b = r" using ne by (simp only: part.simps [of a b] sum.case if_False)
      with nondigits_tokens [OF "1.prems"] Inl show ?thesis by simp
    next
      case (Inr p)
      then obtain a' b' where n: "nondigits a b = Inr (a', b')" by (cases p) auto
      with nondigits_tokens [OF "1.prems"]
      have lex: "lexcmp (tokens a) (tokens b) = lexcmp (digit_tokens a') (digit_tokens b')"
        and asc: "ascii_str a'" "ascii_str b'" by simp_all
      let ?r = "digits_cmp (takeWhile is_digit_char a') (takeWhile is_digit_char b')"
      let ?ra = "dropWhile is_digit_char a'" and ?rb = "dropWhile is_digit_char b'"
      have r: "?r = cmp3 (int (ascii_value (takeWhile ascii_digit a'))) (int (ascii_value (takeWhile ascii_digit b')))"
        using asc by (simp add: takeWhile_digit_char digits_cmp_value digit_str_takeWhile cmp3_int)
      have IH: "?r = 0 \<Longrightarrow> part ?ra ?rb = lexcmp (tokens ?ra) (tokens ?rb)"
        using "1.IH" [OF ne n refl refl] asc ascii_str_parts by simp
      have "lexcmp (tokens a) (tokens b) = or_else ?r (lexcmp (tokens ?ra) (tokens ?rb))"
        unfolding lex digit_tokens_def lexcmp.simps r using asc by (simp add: takeWhile_digit_char)
      moreover have "part a b = or_else ?r (part ?ra ?rb)"
        using ne n by (simp only: part.simps [of a b] sum.case prod.case if_False Let_def or_else_def)
      ultimately show ?thesis using IH by (cases "?r = 0") simp_all
    qed
  qed
qed

interpretation part_order: three_way ascii_str part
proof unfold_locales
  fix x y assume "ascii_str x" "ascii_str y"
  then show "part y x = - part x y"
    by (simp only: part_tokens lexcmp_swap [of "tokens y" "tokens x"] minus_minus)
next
  fix x y z assume "ascii_str x" "ascii_str y" "ascii_str z" "part x y \<le> 0" "part y z \<le> 0"
  then show "part x z \<le> 0" by (auto simp: part_tokens intro: lexcmp_trans)
qed

interpretation digits_order: three_way "\<lambda>_. True" digits_cmp
proof -
  have "three_way (\<lambda>_. True) (\<lambda>x y. or_else
      (cmp3 (length (lstrip (\<lambda>c. c = 48) x)) (length (lstrip (\<lambda>c. c = 48) y)))
      (cmp3 (lstrip (\<lambda>c. c = (48::nat)) x) (lstrip (\<lambda>c. c = 48) y)))"
    by (rule three_way_or_else) (auto intro: order_cmp.three_way_axioms)
  then show "three_way (\<lambda>_. True) digits_cmp" unfolding digits_cmp_def [abs_def] Let_def .
qed

definition ascii_version :: "version \<Rightarrow> bool" where
  "ascii_version v \<longleftrightarrow> (case v of (e, up, r) \<Rightarrow> ascii_str up \<and> ascii_str r)"

interpretation version_order: three_way ascii_version version_cmp
proof -
  have "three_way (\<lambda>p. ascii_str (fst p) \<and> ascii_str (snd p))
      (\<lambda>p q. or_else (part (fst p) (fst q)) (part (snd p) (snd q)))"
    by (rule three_way_or_else [OF part_order.three_way_axioms part_order.three_way_axioms]) simp
  from three_way_or_else [OF digits_order.three_way_axioms this, where X = ascii_version and f = fst and g = snd]
  have "three_way ascii_version (\<lambda>v w. or_else (digits_cmp (fst v) (fst w))
      (or_else (part (fst (snd v)) (fst (snd w))) (part (snd (snd v)) (snd (snd w)))))"
    by (simp add: ascii_version_def split: prod.splits)
  then show "three_way ascii_version version_cmp"
    by (simp add: version_cmp_def [abs_def] case_prod_unfold)
qed

lemma rest_ok_ascii: "rest_ok s \<Longrightarrow> ascii_str s"
  by (cases s) (auto simp: rest_ok_def list_all_iff ascii_str_def version_char_def ascii_alnum_def
      ascii_digit_def ascii_lower_def ascii_upper_def u_def)

lemma match_version_rest: "match_version s = Some (e, r) \<Longrightarrow> rest_ok r"
  by (auto simp: match_version_def Let_def split: if_splits)

lemma split_version_ascii: "split_version s = Inr v \<Longrightarrow> ascii_version v"
proof -
  assume "split_version s = Inr v"
  then obtain e rest where m: "match_version s = Some (e, rest)"
    and v: "fst (snd v) = rest \<and> snd (snd v) = u ''0''
       \<or> (\<exists>x y. split_last 45 rest = Some (x, y) \<and> fst (snd v) = x \<and> snd (snd v) = y)"
    by (fastforce simp: split_version_def Let_def ok_simps split: option.splits if_splits prod.splits)
  have r: "ascii_str rest" using m by (intro rest_ok_ascii match_version_rest)
  have "ascii_str (u ''0'')" by (simp add: u_def)
  moreover have "split_last 45 rest = Some (x, y) \<Longrightarrow> ascii_str x \<and> ascii_str y" for x y
    using r by (auto dest!: split_last_Some simp: ascii_str_def)
  ultimately show ?thesis using v r by (cases v) (auto simp: ascii_version_def)
qed

lemma compare_eq:
  "compare a b = Inr r \<longleftrightarrow> (\<exists>va vb. split_version a = Inr va \<and> split_version b = Inr vb \<and> r = version_cmp va vb)"
  by (auto simp: compare_def ok_simps)

section \<open>Relationship fields\<close>

record atom =
  atom_name :: pystr
  atom_arch :: pystr
  atom_op :: pystr
  atom_ver :: pystr

text \<open>
  \<open>ATOM\<close>: a name, an optional architecture qualifier, an optional parenthesised version
  constraint. No two alternatives of the pattern start alike, so it never backtracks.
\<close>

definition match_prefix :: "pystr list \<Rightarrow> pystr \<Rightarrow> (pystr \<times> pystr) option" where
  "match_prefix ps s = map_option (\<lambda>p. (p, drop (length p) s)) (find (startswith s) ps)"

definition match_qualifier :: "pystr \<Rightarrow> (pystr option \<times> pystr) option" where
  "match_qualifier s =
     (if startswith s [58]
      then map_option (\<lambda>(q, r). (Some q, r)) (match_prefix [u ''any'', u ''native'', u ''amd64''] (tl s))
      else Some (None, s))"

definition operators :: "pystr list" where
  "operators = [u ''<<'', u ''<='', u ''='', u ''>='', u ''>>'']"

definition version_text_char :: "nat \<Rightarrow> bool" where
  "version_text_char c \<longleftrightarrow> c \<noteq> 40 \<and> c \<noteq> 41 \<and> \<not> is_space c"

definition match_constraint :: "pystr \<Rightarrow> (pystr \<times> pystr) option option" where
  "match_constraint s =
     (let t = lstrip is_space s in
      if t = [] then Some None
      else if hd t \<noteq> 40 then None
      else case match_prefix operators (lstrip is_space (tl t)) of
        None \<Rightarrow> None
      | Some (op, r) \<Rightarrow>
          (let v = lstrip is_space r;
               version = takeWhile version_text_char v;
               e = lstrip is_space (dropWhile version_text_char v)
           in if version \<noteq> [] \<and> startswith e [41] \<and> list_all is_space (tl e)
              then Some (Some (op, version)) else None))"

definition match_atom :: "pystr \<Rightarrow> (pystr \<times> pystr option \<times> (pystr \<times> pystr) option) option" where
  "match_atom s =
     (let name = takeWhile name_char s in
      if \<not> name_ok name then None
      else case match_qualifier (dropWhile name_char s) of
        None \<Rightarrow> None
      | Some (arch, r) \<Rightarrow> map_option (\<lambda>c. (name, arch, c)) (match_constraint r))"

definition MAX_RELATION :: nat where
  "MAX_RELATION = 65536"

definition MAX_ATOMS :: nat where
  "MAX_ATOMS = 1024"

definition relation_item :: "bool \<Rightarrow> atom list \<times> nat \<Rightarrow> pystr \<Rightarrow> (atom list \<times> nat) res" where
  "relation_item provides st item = (case st of (atoms, seen) \<Rightarrow>
     case match_atom (strip is_space item) of
       None \<Rightarrow> invalid ''unsupported or invalid binary relationship''
     | Some (name, arch, c) \<Rightarrow>
         if provides \<and> (arch \<noteq> None \<or> (c \<noteq> None \<and> fst (the c) \<noteq> u ''=''))
         then invalid ''Provides accepts only unqualified name and optional equality''
         else bindE (case c of None \<Rightarrow> Inr () | Some (op, v) \<Rightarrow> bindE (split_version v) (\<lambda>_. Inr ()))
           (\<lambda>_. if seen + 1 > MAX_ATOMS then invalid ''too many relation atoms''
                else Inr (atoms @ [\<lparr>atom_name = name,
                    atom_arch = (case arch of None \<Rightarrow> u ''unqualified'' | Some a \<Rightarrow> a),
                    atom_op = (case c of None \<Rightarrow> [] | Some (op, v) \<Rightarrow> op),
                    atom_ver = (case c of None \<Rightarrow> [] | Some (op, v) \<Rightarrow> v)\<rparr>], seen + 1)))"

definition relation_group :: "bool \<Rightarrow> bool \<Rightarrow> atom list list \<times> nat \<Rightarrow> pystr \<Rightarrow> (atom list list \<times> nat) res" where
  "relation_group provides alternatives st grp = (case st of (groups, seen) \<Rightarrow>
     bindE (foldE (relation_item provides) ([], seen) (split_on 124 grp)) (\<lambda>(atoms, seen').
       if (provides \<or> \<not> alternatives) \<and> length atoms \<noteq> 1
       then invalid ''alternatives forbidden in this field''
       else Inr (groups @ [atoms], seen')))"

definition relations :: "bool \<Rightarrow> bool \<Rightarrow> pystr \<Rightarrow> atom list list res" where
  "relations provides alternatives value =
     (if length value > MAX_RELATION then invalid ''relation size''
      else if strip is_space value = [] then Inr []
      else bindE (foldE (relation_group provides alternatives) ([], 0) (split_on 44 value))
        (\<lambda>(groups, _). Inr groups))"

text \<open>What every atom a field yields satisfies.\<close>

definition atom_ok :: "atom \<Rightarrow> bool" where
  "atom_ok a \<longleftrightarrow> name_ok (atom_name a)
     \<and> (atom_op a = [] \<and> atom_ver a = [] \<or> atom_op a \<in> set operators \<and> valid_version (atom_ver a))
     \<and> atom_arch a \<in> set [u ''unqualified'', u ''any'', u ''native'', u ''amd64'']"

definition item_ok :: "bool \<Rightarrow> atom \<Rightarrow> bool" where
  "item_ok p a \<longleftrightarrow> atom_ok a \<and> (p \<longrightarrow> atom_arch a = u ''unqualified'' \<and> atom_op a \<in> {[], u ''=''})"

lemma match_prefix_in: "match_prefix ps s = Some (p, r) \<Longrightarrow> p \<in> set ps"
  by (auto simp: match_prefix_def find_Some_iff)

lemma match_atom_parts:
  assumes "match_atom s = Some (name, arch, c)"
  shows "name_ok name"
    and "arch \<in> {None, Some (u ''any''), Some (u ''native''), Some (u ''amd64'')}"
    and "\<forall>op v. c = Some (op, v) \<longrightarrow> op \<in> set operators \<and> v \<noteq> []"
  using assms
  by (auto simp: match_atom_def match_qualifier_def match_constraint_def Let_def
      split: if_splits option.splits prod.splits dest!: match_prefix_in)

lemma relation_item_ok:
  assumes "relation_item p (atoms, n) item = Inr (atoms', n')"
  shows "\<exists>a. atoms' = atoms @ [a] \<and> n' = n + 1 \<and> n' \<le> MAX_ATOMS \<and> item_ok p a"
proof -
  from assms obtain name arch c where m: "match_atom (strip is_space item) = Some (name, arch, c)"
    by (auto simp: relation_item_def split: option.splits)
  from match_atom_parts [OF m] m assms show ?thesis
    by (auto simp: relation_item_def item_ok_def atom_ok_def valid_version_def is_ok_iff ok_simps u_def
        split: option.splits prod.splits if_splits)
qed

lemma relation_items_ok:
  assumes "foldE (relation_item p) (as, n) items = Inr (cs, m)"
    "\<forall>a \<in> set as. item_ok p a"
    "n \<le> MAX_ATOMS"
  shows "(\<forall>a \<in> set cs. item_ok p a)
     \<and> length cs = length as + length items \<and> m = n + length items \<and> m \<le> MAX_ATOMS"
  using assms
proof (induction items arbitrary: as n)
  case (Cons x items)
  then obtain as' n' where s: "relation_item p (as, n) x = Inr (as', n')"
    "foldE (relation_item p) (as', n') items = Inr (cs, m)" by (auto simp: bindE_eq_Inr)
  from relation_item_ok [OF s(1)] obtain a where a: "as' = as @ [a]" "n' = n + 1" "n' \<le> MAX_ATOMS" "item_ok p a"
     by blast
  from Cons.IH [OF s(2)] a Cons.prems(2) show ?case by auto
qed simp

lemma relation_group_eq:
  "relation_group p alt (gs, n) x = Inr (gs', n') \<longleftrightarrow>
     (\<exists>as. foldE (relation_item p) ([], n) (split_on 124 x) = Inr (as, n')
        \<and> (p \<or> \<not> alt \<longrightarrow> length as = 1) \<and> gs' = gs @ [as])"
proof (cases "foldE (relation_item p) ([], n) (split_on 124 x)")
  case (Inr r)
  obtain as k where r: "r = (as, k)" by (cases r)
  show ?thesis unfolding relation_group_def Inr r prod.case bindE.simps by auto
qed (simp add: relation_group_def)

lemma relations_fold_ok:
  assumes "foldE (relation_group p alt) (gs, n) groups = Inr (hs, m)"
    "\<forall>g \<in> set gs. g \<noteq> [] \<and> (p \<or> \<not> alt \<longrightarrow> length g = 1) \<and>
       (\<forall>a \<in> set g. item_ok p a)"
    "n = length (concat gs)" "n \<le> MAX_ATOMS"
  shows "(\<forall>g \<in> set hs. g \<noteq> [] \<and> (p \<or> \<not> alt \<longrightarrow> length g = 1) \<and>
       (\<forall>a \<in> set g. item_ok p a))
     \<and> m = length (concat hs) \<and> m \<le> MAX_ATOMS \<and> length hs = length gs + length groups"
  using assms
proof (induction groups arbitrary: gs n)
  case (Cons x groups)
  from Cons.prems(1) obtain gs' n' where s: "relation_group p alt (gs, n) x = Inr (gs', n')"
    "foldE (relation_group p alt) (gs', n') groups = Inr (hs, m)" by (auto simp: bindE_eq_Inr)
  from s(1) obtain as where f: "foldE (relation_item p) ([], n) (split_on 124 x) = Inr (as, n')"
    and g: "gs' = gs @ [as]" "p \<or> \<not> alt \<longrightarrow> length as = 1"
    unfolding relation_group_eq by blast
  have r: "(\<forall>a \<in> set as. item_ok p a) \<and> length as = length ([] :: atom list) + length (split_on 124 x)
      \<and> n' = n + length (split_on 124 x) \<and> n' \<le> MAX_ATOMS"
    by (rule relation_items_ok [OF f _ Cons.prems(4)]) simp
  then have a: "\<forall>a \<in> set as. item_ok p a"
    "length as = length (split_on 124 x)" "n' = n + length as" "n' \<le> MAX_ATOMS" by simp_all
  from a(2) have "as \<noteq> []" by (metis length_0_conv split_on_not_Nil)
  then have all: "\<forall>g \<in> set gs'. g \<noteq> [] \<and> (p \<or> \<not> alt \<longrightarrow> length g = 1) \<and> (\<forall>a \<in> set g. item_ok p a)"
    using Cons.prems(2) g a(1) unfolding g(1) set_append ball_Un by fastforce
  have n: "n' = length (concat gs')" using Cons.prems(3) a(3) unfolding g(1) by simp
  have l: "length gs' + length groups = length gs + length (x # groups)" unfolding g(1) by simp
  show ?case using Cons.IH [OF s(2) all n a(4)] unfolding l .
qed simp

lemma relations_ok:
  assumes "relations p alt value = Inr gs" "g \<in> set gs"
  shows "g \<noteq> []" "p \<or> \<not> alt \<Longrightarrow> length g = 1" "a \<in> set g \<Longrightarrow> atom_ok a"
    "p \<Longrightarrow> a \<in> set g \<Longrightarrow> atom_arch a = u ''unqualified'' \<and> atom_op a \<in> {[], u ''=''}"
    "length (concat gs) \<le> MAX_ATOMS"
proof -
  from assms obtain n where "foldE (relation_group p alt) ([], 0) (split_on 44 value) = Inr (gs, n)"
    by (auto simp: relations_def bindE_eq_Inr split: if_splits)
  from relations_fold_ok [OF this] assms(2)
  show "g \<noteq> []" "p \<or> \<not> alt \<Longrightarrow> length g = 1" "a \<in> set g \<Longrightarrow> atom_ok a"
    "p \<Longrightarrow> a \<in> set g \<Longrightarrow> atom_arch a = u ''unqualified'' \<and> atom_op a \<in> {[], u ''=''}"
    "length (concat gs) \<le> MAX_ATOMS"
    by (auto simp: item_ok_def)
qed

section \<open>Providers\<close>

text \<open>
  A candidate package, as \<open>nia_catalog.py\<close> and \<open>check_final\<close> read it. The keys read with
  \<open>get\<close> are optional fields.
\<close>

record candidate =
  c_id :: pystr
  c_name :: pystr
  c_version :: pystr
  c_arch :: pystr
  c_multi_arch :: "pystr option"
  c_provides :: "(pystr \<times> pystr option) list option"
  c_depends :: "pystr option"
  c_pre_depends :: "pystr option"
  c_conflicts :: "pystr option"
  c_breaks :: "pystr option"

definition get_or :: "'a \<Rightarrow> 'a option \<Rightarrow> 'a" where
  "get_or d x = (case x of None \<Rightarrow> d | Some y \<Rightarrow> y)"

definition operator_holds :: "pystr \<Rightarrow> int \<Rightarrow> bool res" where
  "operator_holds op value =
     (if op = u ''<<'' then Inr (value < 0)
      else if op = u ''<='' then Inr (value \<le> 0)
      else if op = u ''='' then Inr (value = 0)
      else if op = u ''>='' then Inr (value \<ge> 0)
      else if op = u ''>>'' then Inr (value > 0)
      else Inl KeyError)"

definition satisfies_version :: "pystr option \<Rightarrow> atom \<Rightarrow> bool res" where
  "satisfies_version provided a =
     (if atom_op a = [] then Inr True
      else case provided of
        None \<Rightarrow> Inr False
      | Some v \<Rightarrow> bindE (compare v (atom_ver a)) (operator_holds (atom_op a)))"

text \<open>\<open>any(p(x) for x in xs)\<close> with a \<open>p\<close> that may raise: it stops at the first true one.\<close>

fun anyE :: "('a \<Rightarrow> bool res) \<Rightarrow> 'a list \<Rightarrow> bool res" where
  "anyE p [] = Inr False"
| "anyE p (x # xs) = bindE (p x) (\<lambda>b. if b then Inr True else anyE p xs)"

definition native_arch :: "pystr \<Rightarrow> bool" where
  "native_arch a \<longleftrightarrow> a \<in> set [u ''amd64'', u ''all'']"

definition multi_arch_modes :: "pystr list" where
  "multi_arch_modes = [u ''no'', u ''same'', u ''foreign'', u ''allowed'']"

definition multi_arch :: "candidate \<Rightarrow> pystr" where
  "multi_arch p = get_or (u ''no'') (c_multi_arch p)"

definition provider_matches :: "candidate \<Rightarrow> atom \<Rightarrow> bool res" where
  "provider_matches p a =
     (if \<not> native_arch (c_arch p) then invalid ''foreign architecture is not qualified''
      else if multi_arch p \<notin> set multi_arch_modes then invalid ''unknown Multi-Arch mode''
      else if atom_arch a = u ''any'' \<and> multi_arch p \<noteq> u ''allowed'' then Inr False
      else bindE (if c_name p = atom_name a then satisfies_version (Some (c_version p)) a else Inr False)
        (\<lambda>b. if b then Inr True
             else anyE (\<lambda>(name, version). if name = atom_name a then satisfies_version version a else Inr False)
               (get_or [] (c_provides p))))"

section \<open>The final set\<close>

definition check_positive :: "candidate list \<Rightarrow> candidate \<Rightarrow> string \<Rightarrow> pystr option \<Rightarrow> unit res" where
  "check_positive chosen package name value =
     bindE (relations False True (get_or [] value)) (eachE (\<lambda>grp.
       bindE (anyE (\<lambda>a. anyE (\<lambda>other. provider_matches other a) chosen) grp) (\<lambda>found.
         if \<not> found then Inl (Invalid (u ''unsatisfied '' @ u name @ u '': '' @ c_name package))
         else Inr ())))"

definition check_negative :: "candidate list \<Rightarrow> candidate \<Rightarrow> string \<Rightarrow> pystr option \<Rightarrow> unit res" where
  "check_negative chosen package name value =
     bindE (relations False False (get_or [] value)) (eachE (\<lambda>grp.
       bindE (anyE (\<lambda>other. if c_id other \<noteq> c_id package then provider_matches other (grp ! 0) else Inr False)
                chosen) (\<lambda>found.
         if found then Inl (Invalid (u name @ u '': '' @ c_name package)) else Inr ())))"

definition check_package :: "candidate list \<Rightarrow> candidate \<Rightarrow> unit res" where
  "check_package chosen package =
     (if \<not> native_arch (c_arch package) then invalid ''unqualified architecture''
      else bindE (split_version (c_version package)) (\<lambda>_.
        bindE (check_positive chosen package ''depends'' (c_depends package)) (\<lambda>_.
        bindE (check_positive chosen package ''pre_depends'' (c_pre_depends package)) (\<lambda>_.
        bindE (check_negative chosen package ''conflicts'' (c_conflicts package)) (\<lambda>_.
        check_negative chosen package ''breaks'' (c_breaks package))))))"

definition final_report :: "nat \<Rightarrow> pyval" where
  "final_report n = PDict [(u ''result'', PStr (u ''native-final-set-valid'')),
     (u ''execution_permit'', PBool False), (u ''schedule_checked'', PBool False),
     (u ''replaces_authorizes_overwrite'', PBool False), (u ''count'', PInt (int n))]"

text \<open>The argument \<open>selected\<close> is a set, given by a list of its elements.\<close>

definition check_final :: "candidate list \<Rightarrow> pystr list \<Rightarrow> pyval res" where
  "check_final candidates selected =
     (let ids = map c_id candidates;
          chosen = filter (\<lambda>p. c_id p \<in> set selected) candidates;
          identities = map c_name chosen
      in if \<not> distinct ids \<or> \<not> set selected \<subseteq> set ids then invalid ''unknown or duplicate candidate''
         else if \<not> distinct identities
         then invalid ''same-name binary coinstallation is not qualified (including all/amd64)''
         else bindE (eachE (check_package chosen) chosen) (\<lambda>_. Inr (final_report (length chosen))))"

section \<open>What a valid final set is\<close>

text \<open>
  The specification: in terms of the version order, with no exceptions and no order of
  evaluation. \<open>provides_atom\<close> is Debian's notion of a package satisfying a relationship.
\<close>

definition op_rel :: "pystr \<Rightarrow> int \<Rightarrow> bool" where
  "op_rel op c \<longleftrightarrow> (op = u ''<<'' \<and> c < 0) \<or> (op = u ''<='' \<and> c \<le> 0) \<or> (op = u ''='' \<and> c = 0)
     \<or> (op = u ''>='' \<and> c \<ge> 0) \<or> (op = u ''>>'' \<and> c > 0)"

definition version_satisfies :: "pystr option \<Rightarrow> atom \<Rightarrow> bool" where
  "version_satisfies v a \<longleftrightarrow> atom_op a = [] \<or>
     (\<exists>w c. v = Some w \<and> compare w (atom_ver a) = Inr c \<and> op_rel (atom_op a) c)"

definition provides_atom :: "candidate \<Rightarrow> atom \<Rightarrow> bool" where
  "provides_atom p a \<longleftrightarrow> (atom_arch a = u ''any'' \<longrightarrow> multi_arch p = u ''allowed'')
     \<and> (\<exists>(n, v) \<in> insert (c_name p, Some (c_version p)) (set (get_or [] (c_provides p))).
          n = atom_name a \<and> version_satisfies v a)"

text \<open>What the catalogue guarantees of a candidate and the final check does not look at on its own.\<close>

definition catalogued :: "candidate \<Rightarrow> bool" where
  "catalogued p \<longleftrightarrow> multi_arch p \<in> set multi_arch_modes
     \<and> (\<forall>(n, v) \<in> set (get_or [] (c_provides p)). case v of None \<Rightarrow> True | Some w \<Rightarrow> valid_version w)"

definition candidate_ok :: "candidate \<Rightarrow> bool" where
  "candidate_ok p \<longleftrightarrow> native_arch (c_arch p) \<and> valid_version (c_version p) \<and> catalogued p"

definition needs_met :: "candidate list \<Rightarrow> pystr option \<Rightarrow> bool" where
  "needs_met chosen value \<longleftrightarrow> (\<exists>gs. relations False True (get_or [] value) = Inr gs \<and>
     (\<forall>g \<in> set gs. \<exists>a \<in> set g. \<exists>other \<in> set chosen. provides_atom other a))"

definition excludes_none :: "candidate list \<Rightarrow> candidate \<Rightarrow> pystr option \<Rightarrow> bool" where
  "excludes_none chosen p value \<longleftrightarrow> (\<exists>gs. relations False False (get_or [] value) = Inr gs \<and>
     (\<forall>g \<in> set gs. \<forall>a \<in> set g. \<forall>other \<in> set chosen. c_id other \<noteq> c_id p \<longrightarrow> \<not> provides_atom other a))"

definition final_set_ok :: "candidate list \<Rightarrow> pystr list \<Rightarrow> bool" where
  "final_set_ok candidates selected \<longleftrightarrow>
     distinct (map c_id candidates) \<and> set selected \<subseteq> c_id ` set candidates \<and>
     (let chosen = filter (\<lambda>p. c_id p \<in> set selected) candidates in
        distinct (map c_name chosen) \<and>
        (\<forall>p \<in> set chosen. native_arch (c_arch p) \<and> valid_version (c_version p)
           \<and> needs_met chosen (c_depends p) \<and> needs_met chosen (c_pre_depends p)
           \<and> excludes_none chosen p (c_conflicts p) \<and> excludes_none chosen p (c_breaks p)))"

lemma compare_total: "valid_version v \<Longrightarrow> valid_version w \<Longrightarrow> \<exists>c. compare v w = Inr c"
  by (auto simp: valid_version_def is_ok_iff compare_eq)

lemma operator_holds_op: "op \<in> set operators \<Longrightarrow> operator_holds op c = Inr (op_rel op c)"
  by (auto simp: operators_def operator_holds_def op_rel_def)

lemma satisfies_version_spec:
  assumes "atom_ok a" "case v of None \<Rightarrow> True | Some w \<Rightarrow> valid_version w"
  shows "satisfies_version v a = Inr (version_satisfies v a)"
proof (cases "atom_op a = []")
  case False
  with assms(1) have a: "atom_op a \<in> set operators" "valid_version (atom_ver a)" by (auto simp: atom_ok_def)
  show ?thesis
  proof (cases v)
    case (Some w)
    with assms(2) a obtain c where "compare w (atom_ver a) = Inr c" using compare_total by fastforce
    then show ?thesis using False Some
      by (simp add: satisfies_version_def version_satisfies_def operator_holds_op [OF a(1)])
  qed (use False in \<open>simp add: satisfies_version_def version_satisfies_def\<close>)
qed (simp add: satisfies_version_def version_satisfies_def)

lemma anyE_Inr: "(\<And>x. x \<in> set xs \<Longrightarrow> p x = Inr (q x)) \<Longrightarrow> anyE p xs = Inr (\<exists>x \<in> set xs. q x)"
  by (induction xs) auto

lemma provider_matches_spec:
  assumes "atom_ok a" "candidate_ok p"
  shows "provider_matches p a = Inr (provides_atom p a)"
proof -
  note sv = satisfies_version_spec [OF assms(1)]
  have 1: "satisfies_version (Some (c_version p)) a = Inr (version_satisfies (Some (c_version p)) a)"
    using assms(2) by (intro sv) (simp add: candidate_ok_def)
  have 2: "anyE (\<lambda>(name, version). if name = atom_name a then satisfies_version version a else Inr False)
      (get_or [] (c_provides p))
    = Inr (\<exists>(n, v) \<in> set (get_or [] (c_provides p)). n = atom_name a \<and> version_satisfies v a)"
    using assms(2) by (intro anyE_Inr) (auto simp: candidate_ok_def catalogued_def intro!: sv split: prod.splits)
  show ?thesis using assms(2)
    by (auto simp: provider_matches_def provides_atom_def candidate_ok_def catalogued_def 1 2 split: prod.splits)
qed


subsection \<open>The check decides the specification\<close>

lemma check_positive_spec:
  assumes "\<forall>p \<in> set chosen. candidate_ok p"
  shows "check_positive chosen package name value = Inr () \<longleftrightarrow> needs_met chosen value"
proof -
  have *: "(\<forall>g \<in> set gs. bindE (anyE (\<lambda>a. anyE (\<lambda>other. provider_matches other a) chosen) g)
        (\<lambda>found. if \<not> found then Inl (Invalid e) else Inr ()) = Inr ())
      \<longleftrightarrow> (\<forall>g \<in> set gs. \<exists>a \<in> set g. \<exists>other \<in> set chosen. provides_atom other a)"
    if r: "relations False True (get_or [] value) = Inr gs" for gs e
  proof -
    have "anyE (\<lambda>a. anyE (\<lambda>other. provider_matches other a) chosen) g
        = Inr (\<exists>a \<in> set g. \<exists>other \<in> set chosen. provides_atom other a)" if "g \<in> set gs" for g
      using relations_ok(3) [OF r that] assms by (intro anyE_Inr provider_matches_spec) auto
    then show ?thesis by simp
  qed
  show ?thesis
  proof (cases "relations False True (get_or [] value)")
    case (Inr gs)
    show ?thesis unfolding check_positive_def needs_met_def Inr bindE.simps eachE_eq_Inr * [OF Inr] by simp
  qed (simp add: check_positive_def needs_met_def)
qed

lemma check_negative_spec:
  assumes "\<forall>p \<in> set chosen. candidate_ok p"
  shows "check_negative chosen package name value = Inr () \<longleftrightarrow> excludes_none chosen package value"
proof -
  have *: "(\<forall>g \<in> set gs. bindE (anyE (\<lambda>other. if c_id other \<noteq> c_id package
          then provider_matches other (g ! 0) else Inr False) chosen)
        (\<lambda>found. if found then Inl (Invalid e) else Inr ()) = Inr ())
      \<longleftrightarrow> (\<forall>g \<in> set gs. \<forall>a \<in> set g. \<forall>other \<in> set chosen.
            c_id other \<noteq> c_id package \<longrightarrow> \<not> provides_atom other a)"
    if r: "relations False False (get_or [] value) = Inr gs" for gs e
  proof (rule ball_cong [OF refl])
    fix g assume g: "g \<in> set gs"
    from relations_ok(2) [OF r g] obtain a where ga: "g = [a]" by (cases g) auto
    have "atom_ok a" using relations_ok(3) [OF r g, of a] ga by simp
    then have "anyE (\<lambda>other. if c_id other \<noteq> c_id package then provider_matches other (g ! 0)
          else Inr False) chosen
        = Inr (\<exists>other \<in> set chosen. c_id other \<noteq> c_id package \<and> provides_atom other a)"
      using assms ga by (intro anyE_Inr) (auto simp: provider_matches_spec)
    then show "(bindE (anyE (\<lambda>other. if c_id other \<noteq> c_id package
          then provider_matches other (g ! 0) else Inr False) chosen)
        (\<lambda>found. if found then Inl (Invalid e) else Inr ()) = Inr ())
      \<longleftrightarrow> (\<forall>a \<in> set g. \<forall>other \<in> set chosen. c_id other \<noteq> c_id package \<longrightarrow> \<not> provides_atom other a)"
      by (auto simp: ga)
  qed
  show ?thesis
  proof (cases "relations False False (get_or [] value)")
    case (Inr gs)
    show ?thesis unfolding check_negative_def excludes_none_def Inr bindE.simps eachE_eq_Inr * [OF Inr] by simp
  qed (simp add: check_negative_def excludes_none_def)
qed

lemma check_package_spec:
  assumes "\<forall>p \<in> set chosen. candidate_ok p" "package \<in> set chosen"
  shows "check_package chosen package = Inr () \<longleftrightarrow>
     needs_met chosen (c_depends package) \<and> needs_met chosen (c_pre_depends package)
     \<and> excludes_none chosen package (c_conflicts package) \<and> excludes_none chosen package (c_breaks package)"
proof -
  have "native_arch (c_arch package)" "valid_version (c_version package)"
    using assms by (auto simp: candidate_ok_def)
  then show ?thesis
    by (auto simp: check_package_def bindE_eq_Inr valid_version_def is_ok_iff
        check_positive_spec [OF assms(1)] check_negative_spec [OF assms(1)])
qed

text \<open>What a match or its absence says, whatever the candidate is.\<close>

lemma satisfies_version_sound:
  assumes "atom_ok a" "satisfies_version v a = Inr b"
  shows "b \<longleftrightarrow> version_satisfies v a"
proof (cases "atom_op a = []")
  case False
  then have op: "atom_op a \<in> set operators" using assms(1) by (auto simp: atom_ok_def)
  show ?thesis
  proof (cases v)
    case (Some w)
    then obtain c where "compare w (atom_ver a) = Inr c" "b = op_rel (atom_op a) c"
      using assms(2) False operator_holds_op [OF op] by (auto simp: satisfies_version_def bindE_eq_Inr)
    then show ?thesis using Some False by (simp add: version_satisfies_def)
  qed (use assms(2) False in \<open>simp add: satisfies_version_def version_satisfies_def\<close>)
qed (use assms(2) in \<open>simp add: satisfies_version_def version_satisfies_def\<close>)

lemma anyE_sound:
  assumes "anyE p xs = Inr b" "\<And>x c. x \<in> set xs \<Longrightarrow> p x = Inr c \<Longrightarrow> c \<longleftrightarrow> q x"
  shows "b \<longleftrightarrow> (\<exists>x \<in> set xs. q x)"
  using assms
proof (induction xs)
  case (Cons x xs)
  from Cons.prems(1) obtain c where c: "p x = Inr c" and rest: "(if c then Inr True else anyE p xs) = Inr b" by (auto simp: bindE_eq_Inr)
  from Cons.prems(2) [OF _ c] have q: "c \<longleftrightarrow> q x" by simp
  show ?case
  proof (cases c)
    case True
    then show ?thesis using q rest by simp
  next
    case False
    with rest have "anyE p xs = Inr b" by simp
    from Cons.IH [OF this Cons.prems(2)] show ?thesis using False q by auto
  qed
qed simp

lemma provider_matches_sound:
  assumes "atom_ok a" "provider_matches p a = Inr b"
  shows "b \<longleftrightarrow> provides_atom p a"
proof (cases "atom_arch a = u ''any'' \<and> multi_arch p \<noteq> u ''allowed''")
  case False
  let ?own = "if c_name p = atom_name a then satisfies_version (Some (c_version p)) a else Inr False"
  let ?any = "anyE (\<lambda>(name, version). if name = atom_name a then satisfies_version version a else Inr False) (get_or [] (c_provides p))"
  from assms(2) False obtain c where c: "?own = Inr c" "(if c then Inr True else ?any) = Inr b"
    by (auto simp: provider_matches_def bindE_eq_Inr split: if_splits)
  have own: "c \<longleftrightarrow> c_name p = atom_name a \<and> version_satisfies (Some (c_version p)) a"
    using c(1) satisfies_version_sound [OF assms(1)] by (auto split: if_splits)
  have any: "?any = Inr d \<Longrightarrow> d \<longleftrightarrow> (\<exists>(n, v) \<in> set (get_or [] (c_provides p)). n = atom_name a \<and> version_satisfies v a)" for d
    by (erule anyE_sound) (auto dest: satisfies_version_sound [OF assms(1)] split: if_splits)
  show ?thesis
  proof (cases c)
    case True
    then show ?thesis using own c(2) False by (auto simp: provides_atom_def)
  next
    case no: False
    with c(2) any have "b \<longleftrightarrow> (\<exists>(n, v) \<in> set (get_or [] (c_provides p)). n = atom_name a \<and> version_satisfies v a)" by simp
    then show ?thesis using own no False by (auto simp: provides_atom_def)
  qed
qed (use assms(2) in \<open>auto simp: provider_matches_def provides_atom_def split: if_splits\<close>)

lemma check_positive_sound:
  assumes "check_positive chosen package name value = Inr ()"
  shows "needs_met chosen value"
proof -
  from assms obtain gs where r: "relations False True (get_or [] value) = Inr gs"
    and g: "\<And>g. g \<in> set gs \<Longrightarrow> anyE (\<lambda>a. anyE (\<lambda>other. provider_matches other a) chosen) g = Inr True"
    by (auto simp: check_positive_def bindE_eq_Inr eachE_eq_Inr split: if_splits)
  have "\<exists>a \<in> set g. \<exists>other \<in> set chosen. provides_atom other a" if "g \<in> set gs" for g
  proof -
    have "True \<longleftrightarrow> (\<exists>a \<in> set g. \<exists>other \<in> set chosen. provides_atom other a)"
      by (rule anyE_sound [OF g [OF that]], erule anyE_sound, rule provider_matches_sound) (use relations_ok(3) [OF r that] in auto)
    then show ?thesis by simp
  qed
  then show ?thesis using r by (auto simp: needs_met_def)
qed

lemma none_found: "bindE m (\<lambda>found. if found then Inl e else Inr ()) = Inr () \<longleftrightarrow> m = Inr False"
  by (cases m) (auto split: if_splits)

lemma check_negative_sound:
  assumes "check_negative chosen package name value = Inr ()"
  shows "excludes_none chosen package value"
proof -
  from assms obtain gs where r: "relations False False (get_or [] value) = Inr gs"
    and g: "\<And>g. g \<in> set gs \<Longrightarrow> anyE (\<lambda>other. if c_id other \<noteq> c_id package then provider_matches other (g ! 0) else Inr False) chosen = Inr False"
    unfolding check_negative_def by (auto simp only: bindE_eq_Inr [of "relations x y z" for x y z] eachE_eq_Inr none_found)
  have "\<not> provides_atom other a" if "g \<in> set gs" "a \<in> set g" "other \<in> set chosen" "c_id other \<noteq> c_id package" for g a other
  proof -
    from relations_ok(2) [OF r that(1)] that(2) have ga: "g ! 0 = a" by (cases g) auto
    have "False \<longleftrightarrow> (\<exists>other \<in> set chosen. c_id other \<noteq> c_id package \<and> provides_atom other a)"
      by (rule anyE_sound [OF g [OF that(1)]]) (use provider_matches_sound [OF relations_ok(3) [OF r that(1,2)]] ga in \<open>auto split: if_splits\<close>)
    then show ?thesis using that(3,4) by blast
  qed
  then show ?thesis using r by (auto simp: excludes_none_def)
qed

lemma check_package_sound:
  assumes "check_package chosen package = Inr ()"
  shows "native_arch (c_arch package) \<and> valid_version (c_version package)
    \<and> needs_met chosen (c_depends package) \<and> needs_met chosen (c_pre_depends package)
    \<and> excludes_none chosen package (c_conflicts package) \<and> excludes_none chosen package (c_breaks package)"
  using assms by (auto simp: check_package_def bindE_eq_Inr valid_version_def is_ok_iff dest: check_positive_sound check_negative_sound split: if_splits)

lemma check_final_sound:
  assumes "check_final candidates selected = Inr r"
  shows "final_set_ok candidates selected \<and> r = final_report (length (filter (\<lambda>p. c_id p \<in> set selected) candidates))"
proof -
  let ?chosen = "filter (\<lambda>p. c_id p \<in> set selected) candidates"
  from assms have "distinct (map c_id candidates)" "set selected \<subseteq> c_id ` set candidates" "distinct (map c_name ?chosen)"
    "\<And>p. p \<in> set ?chosen \<Longrightarrow> check_package ?chosen p = Inr ()" "r = final_report (length ?chosen)"
    unfolding check_final_def Let_def by (simp_all only: if_invalid_eq_Inr bindE_eq_Inr eachE_eq_Inr set_map) auto
  then show ?thesis using check_package_sound [of ?chosen] unfolding final_set_ok_def Let_def by blast
qed

lemma check_final_complete:
  assumes "final_set_ok candidates selected" "\<forall>p \<in> set candidates. c_id p \<in> set selected \<longrightarrow> catalogued p"
  shows "check_final candidates selected = Inr (final_report (length (filter (\<lambda>p. c_id p \<in> set selected) candidates)))"
proof -
  let ?chosen = "filter (\<lambda>p. c_id p \<in> set selected) candidates"
  from assms have "\<forall>p \<in> set ?chosen. candidate_ok p" by (auto simp: final_set_ok_def Let_def candidate_ok_def)
  note cp = check_package_spec [OF this]
  have "\<forall>p \<in> set ?chosen. check_package ?chosen p = Inr ()" using assms(1) cp unfolding final_set_ok_def Let_def by blast
  then show ?thesis using assms(1)
    unfolding check_final_def final_set_ok_def Let_def by (simp only: if_invalid_eq_Inr bindE_eq_Inr eachE_eq_Inr set_map) auto
qed

section \<open>Properties\<close>

lemma split_version_epoch: "split_version s = Inr (e, up, r) \<Longrightarrow> digit_str e"
proof -
  assume "split_version s = Inr (e, up, r)"
  then obtain d rest where m: "match_version s = Some (d, rest)"
    and e: "e = or_zero (lstrip (\<lambda>c. c = 48) (case d of None \<Rightarrow> u ''0'' | Some d \<Rightarrow> d))"
    by (auto simp: split_version_def Let_def ok_simps split: option.splits if_splits prod.splits)
  have z: "digit_str (u ''0'')" by (simp add: u_def ascii_digit_def)
  have "digit_str (case d of None \<Rightarrow> u ''0'' | Some d \<Rightarrow> d)"
    using m z by (auto simp: match_version_def Let_def digit_str_takeWhile split: if_splits)
  then show ?thesis using z by (simp add: e or_zero_def digit_str_lstrip)
qed

definition token_cmp :: "version \<Rightarrow> version \<Rightarrow> int" where
  "token_cmp v w = (case v of (ea, ua, ra) \<Rightarrow> case w of (eb, ub, rb) \<Rightarrow>
     or_else (cmp3 (ascii_value ea) (ascii_value eb))
       (or_else (lexcmp (tokens ua) (tokens ub)) (lexcmp (tokens ra) (tokens rb))))"

text \<open>C1: For version strings the parser accepts, \<open>compare\<close> returns a result, and the results
  order the strings: comparing twice the other way round changes the sign, a string is equal
  to itself, and \<open>\<le>\<close> is transitive, also across its strict part.\<close>

theorem compare_total_preorder:
  assumes "valid_version a" "valid_version b" "valid_version c"
  shows "\<exists>ab bc ac. compare a b = Inr ab \<and> compare b a = Inr (- ab) \<and> compare b c = Inr bc
    \<and> compare a c = Inr ac \<and> compare a a = Inr 0
    \<and> (ab \<le> 0 \<and> bc \<le> 0 \<longrightarrow> ac \<le> 0) \<and> (ab < 0 \<and> bc \<le> 0 \<or> ab \<le> 0 \<and> bc < 0 \<longrightarrow> ac < 0)"
proof -
  from assms obtain va vb vc where s: "split_version a = Inr va" "split_version b = Inr vb"
    "split_version c = Inr vc" by (auto simp: valid_version_def is_ok_iff)
  note d = split_version_ascii [OF s(1)] split_version_ascii [OF s(2)] split_version_ascii [OF s(3)]
  show ?thesis
    using version_order.cmp_swap [OF d(1,2)] version_order.cmp_refl [OF d(1)]
      version_order.cmp_trans [OF d] version_order.cmp_less_trans [OF d]
      version_order.cmp_le_less_trans [OF d] s
    by (simp add: compare_def)
qed

theorem compare_total_preorder_witness:
  "\<exists>ab bc ac. compare (u ''1.0~rc1'') (u ''1.0'') = Inr ab \<and> ab < 0
     \<and> compare (u ''1.0'') (u ''1:0.9-1'') = Inr bc \<and> bc < 0
     \<and> compare (u ''1.0~rc1'') (u ''1:0.9-1'') = Inr ac \<and> ac < 0"
proof -
  have v: "valid_version (u ''1.0~rc1'')" "valid_version (u ''1.0'')" "valid_version (u ''1:0.9-1'')"
    by code_simp+
  have c: "compare (u ''1.0~rc1'') (u ''1.0'') = Inr (-1)" "compare (u ''1.0'') (u ''1:0.9-1'') = Inr (-1)"
    by code_simp+
  from compare_total_preorder [OF v] c show ?thesis by fastforce
qed

text \<open>C7: The optimised two-pointer comparison refines a specification on token lists: a version
  is its epoch, upstream version and revision, compared in that order; an epoch is a number,
  and a part is the list of its tokens (the order of each non-digit, and for each run of
  digits a zero and its numeric value), compared lexicographically with missing tokens read
  as zero.\<close>

theorem compare_refines_tokens:
  assumes "split_version a = Inr va" "split_version b = Inr vb"
  shows "compare a b = Inr (token_cmp va vb)"
proof -
  obtain ea ua ra eb ub rb where v: "va = (ea, ua, ra)" "vb = (eb, ub, rb)"
    by (cases va; cases vb) auto
  have "digit_str ea" "digit_str eb" using assms v split_version_epoch by blast+
  moreover have "ascii_str ua" "ascii_str ra" "ascii_str ub" "ascii_str rb"
    using split_version_ascii [OF assms(1)] split_version_ascii [OF assms(2)]
    by (simp_all add: v ascii_version_def)
  ultimately show ?thesis
    using assms by (simp add: compare_def version_cmp_def token_cmp_def v digits_cmp_value part_tokens)
qed

theorem compare_refines_tokens_witness:
  "compare (u ''2:1.10-1'') (u ''2:1.9-1'') = Inr 1
   \<and> token_cmp (u ''2'', u ''1.10'', u ''1'') (u ''2'', u ''1.9'', u ''1'') = 1"
proof -
  have s: "split_version (u ''2:1.10-1'') = Inr (u ''2'', u ''1.10'', u ''1'')"
    "split_version (u ''2:1.9-1'') = Inr (u ''2'', u ''1.9'', u ''1'')" by code_simp+
  have "compare (u ''2:1.10-1'') (u ''2:1.9-1'') = Inr 1" by code_simp
  with compare_refines_tokens [OF s] show ?thesis by simp
qed

text \<open>C3: What a relationship field yields: at least one atom per comma-separated group, exactly
  one where alternatives are not allowed, at most 1024 atoms in all; each atom has a valid
  package name, a known qualifier and either no constraint or a known operator with a valid
  version; in a \<open>Provides\<close> field the only operator is equality and there is no qualifier.\<close>

theorem relations_well_formed:
  assumes "relations provides alternatives value = Inr groups"
  shows "length (concat groups) \<le> MAX_ATOMS \<and>
    (\<forall>g \<in> set groups. g \<noteq> [] \<and> (provides \<or> \<not> alternatives \<longrightarrow> length g = 1) \<and>
      (\<forall>a \<in> set g. atom_ok a \<and>
        (provides \<longrightarrow> atom_arch a = u ''unqualified'' \<and> atom_op a \<in> {[], u ''=''})))"
proof (cases groups)
  case (Cons g gs)
  then have "length (concat groups) \<le> MAX_ATOMS" using relations_ok(5) [OF assms, of g] by simp
  then show ?thesis using relations_ok(1-4) [OF assms] by blast
qed simp

theorem relations_well_formed_witness:
  "\<exists>groups. relations False True (u ''libc6 (>= 2.38), perl:any | python3'') = Inr groups
     \<and> length (concat groups) = 3 \<and> (\<forall>g \<in> set groups. \<forall>a \<in> set g. atom_ok a)"
proof -
  obtain groups where r: "relations False True (u ''libc6 (>= 2.38), perl:any | python3'') = Inr groups"
    and l: "length (concat groups) = 3"
  proof -
    have "(case relations False True (u ''libc6 (>= 2.38), perl:any | python3'') of
        Inl e \<Rightarrow> False | Inr g \<Rightarrow> length (concat g) = 3)" by code_simp
    then show ?thesis using that by (auto split: sum.splits)
  qed
  from relations_well_formed [OF r] r l show ?thesis by blast
qed

text \<open>C2: Whatever the candidates are, the check of the final set returns only for a selection that is
  consistent in Debian's sense: candidate identifiers are unique and cover the selection, no two selected
  packages share a name, each is of a native architecture and has a version that splits, every dependency
  and pre-dependency group has a selected provider, and no selected package is excluded by
  another one's conflicts or breaks. Conversely every such selection is accepted, if the Multi-Arch modes and the
  provided versions of the selected candidates are those the catalogue lets through. The report never permits execution.\<close>

theorem check_final_decides_consistency:
  "(check_final candidates selected = Inr r \<longrightarrow> final_set_ok candidates selected
      \<and> r = final_report (length (filter (\<lambda>p. c_id p \<in> set selected) candidates)))
   \<and> (final_set_ok candidates selected \<and> (\<forall>p \<in> set candidates. c_id p \<in> set selected \<longrightarrow> catalogued p) \<longrightarrow>
      check_final candidates selected = Inr (final_report (length (filter (\<lambda>p. c_id p \<in> set selected) candidates))))"
  using check_final_sound check_final_complete by blast

definition example_candidates :: "candidate list" where
  "example_candidates =
    [\<lparr>c_id = u ''A'', c_name = u ''app'', c_version = u ''1.0-1'', c_arch = u ''amd64'', c_multi_arch = None,
      c_provides = None, c_depends = Some (u ''lib (>= 2.0), mta''), c_pre_depends = None,
      c_conflicts = None, c_breaks = None\<rparr>,
     \<lparr>c_id = u ''B'', c_name = u ''lib'', c_version = u ''2.1-3'', c_arch = u ''all'', c_multi_arch = None,
      c_provides = None, c_depends = None, c_pre_depends = None, c_conflicts = None,
      c_breaks = Some (u ''app (<< 0.9)'')\<rparr>,
     \<lparr>c_id = u ''C'', c_name = u ''exim'', c_version = u ''4.9'', c_arch = u ''amd64'', c_multi_arch = None,
      c_provides = Some [(u ''mta'', None)], c_depends = None, c_pre_depends = None,
      c_conflicts = Some (u ''mta''), c_breaks = None\<rparr>]"

theorem check_final_decides_consistency_witness:
  "final_set_ok example_candidates [u ''A'', u ''B'', u ''C''] \<and> \<not> final_set_ok example_candidates [u ''A'', u ''B'']"
proof -
  have ok: "\<forall>p \<in> set example_candidates. catalogued p" by code_simp
  have "check_final example_candidates [u ''A'', u ''B'', u ''C''] = Inr (final_report 3)" by code_simp
  moreover have "\<not> is_ok (check_final example_candidates [u ''A'', u ''B''])" by code_simp
  moreover have "final_set_ok example_candidates [u ''A'', u ''B''] \<Longrightarrow> is_ok (check_final example_candidates [u ''A'', u ''B''])"
  proof -
    assume "final_set_ok example_candidates [u ''A'', u ''B'']"
    with check_final_decides_consistency [of example_candidates "[u ''A'', u ''B'']"] ok
    obtain n where "check_final example_candidates [u ''A'', u ''B''] = Inr (final_report n)" by blast
    then show ?thesis by (simp only: is_ok_iff) blast
  qed
  moreover have "check_final example_candidates [u ''A'', u ''B'', u ''C''] = Inr (final_report 3) \<Longrightarrow> final_set_ok example_candidates [u ''A'', u ''B'', u ''C'']"
    using check_final_decides_consistency by blast
  ultimately show ?thesis by blast
qed

end
