(* ===== verification/Nia_Layout.thy ===== *)
theory Nia_Layout
  imports Nia_Common
begin

text \<open>
  \<open>tools/nia_layout.py\<close>: the closed product layout \<open>REQUIRED\<close> and \<open>check_layout\<close>, which is
  shown to accept exactly the layouts that list every recovery domain once, each at its
  required place on a volume of its own.
\<close>

section \<open>The required layout\<close>

type_synonym placement = "pystr \<times> pystr \<times> pystr \<times> bool \<times> bool"

definition REQUIRED :: "(pystr \<times> placement) list" where
  "REQUIRED =
    [(u ''system'', u ''/'', u ''xfs'', u ''system-generation'', True, True),
     (u ''catalog'', u ''/var/lib/nia/catalog'', u ''embedded-in-system'', u ''system-generation'', True, True),
     (u ''control'', u ''/var/lib/nia/control'', u ''xfs'', u ''never-system-rollback'', False, True),
     (u ''trust'', u ''/var/lib/nia/trust'', u ''xfs'', u ''never-system-rollback'', False, True),
     (u ''objects'', u ''/var/lib/nia/objects'', u ''xfs'', u ''never-system-rollback'', False, True),
     (u ''secrets'', u ''/etc/nia/keys'', u ''xfs'', u ''never-system-rollback'', False, True),
     (u ''logs'', u ''/var/log'', u ''xfs'', u ''never-system-rollback'', False, True),
     (u ''cache'', u ''/var/cache'', u ''xfs'', u ''rebuildable'', False, True),
     (u ''data'', u ''/srv'', u ''xfs'', u ''application-recovery-only'', False, True),
     (u ''home'', u ''/home'', u ''xfs'', u ''user-recovery-only'', False, True),
     (u ''esp'', u ''/efi'', u ''vfat'', u ''signed-boot-selection-only'', False, False),
     (u ''run'', u ''/run'', u ''tmpfs'', u ''ephemeral'', False, False),
     (u ''tmp'', u ''/tmp'', u ''tmpfs'', u ''ephemeral'', False, False),
     (u ''vartmp'', u ''/var/tmp'', u ''xfs'', u ''rebuildable'', False, True)]"

definition placement_of :: "pystr \<Rightarrow> placement" where
  "placement_of name = (case map_of REQUIRED name of None \<Rightarrow> ([], [], [], False, False) | Some r \<Rightarrow> r)"

definition placement_values :: "placement \<Rightarrow> pyval list" where
  "placement_values r = (case r of (path, storage, domain, rollback, encrypted) \<Rightarrow>
     [PStr path, PStr storage, PStr domain, PBool rollback, PBool encrypted])"

section \<open>The check\<close>

definition LAYOUT_KEYS :: "string list" where
  "LAYOUT_KEYS = [''schema'', ''product'', ''shared_inode_with_live_tree'', ''snapshot_is_backup'',
     ''recursive_snapshot_assumed'', ''disk_write_authorized'', ''catalog_and_files_same_generation'',
     ''filesystem_snapshot_required'', ''entries'']"

definition ENTRY_KEYS :: "string list" where
  "ENTRY_KEYS = [''id'', ''path'', ''storage'', ''rollback_domain'', ''system_rollback'', ''encrypted'',
     ''contents'', ''writer'', ''volume'', ''mount_required'', ''format_allowed'']"

definition FALSE_KEYS :: "string list" where
  "FALSE_KEYS = [''shared_inode_with_live_tree'', ''snapshot_is_backup'', ''recursive_snapshot_assumed'',
     ''disk_write_authorized'', ''filesystem_snapshot_required'']"

definition BOOLEAN_KEYS :: "string list" where
  "BOOLEAN_KEYS = [''system_rollback'', ''encrypted'', ''mount_required'', ''format_allowed'']"

definition is_bool :: "pyval \<Rightarrow> bool" where
  "is_bool v = (case v of PBool _ \<Rightarrow> True | _ \<Rightarrow> False)"

definition short_text :: "pyval \<Rightarrow> bool" where
  "short_text v = (case v of PStr s \<Rightarrow> s \<noteq> [] \<and> length s \<le> 256 | _ \<Rightarrow> False)"

definition expected_volume :: "pystr \<Rightarrow> pystr" where
  "expected_volume name =
     (if name \<in> set [u ''catalog'', u ''system''] then u ''nia-system'' else u ''nia-'' @ name)"

definition entry_row :: "pyval \<Rightarrow> pyval list" where
  "entry_row e =
     map (field e) [''path'', ''storage'', ''rollback_domain'', ''system_rollback'', ''encrypted'']"

type_synonym layout_state = "pystr list \<times> pystr list \<times> pystr list"

definition check_placed :: "layout_state \<Rightarrow> pyval \<Rightarrow> pystr \<Rightarrow> pystr \<Rightarrow> layout_state res" where
  "check_placed st e name p = (case st of (seen, paths, volumes) \<Rightarrow>
     if list_ex (\<lambda>k. \<not> is_bool (field e k)) BOOLEAN_KEYS then invalid ''noncanonical boolean''
     else if \<not> list_all2 py_eq (entry_row e) (placement_values (placement_of name))
     then Inl (Invalid (u ''unsafe domain placement: '' @ name))
     else if \<not> py_eq (field e ''volume'') (PStr (expected_volume name))
          \<or> \<not> py_eq (field e ''mount_required'') (PBool (name \<noteq> u ''catalog''))
          \<or> field e ''format_allowed'' = PBool True
     then Inl (Invalid (u ''mount/volume/format policy: '' @ name))
     else if \<not> list_all (\<lambda>k. short_text (field e k)) [''contents'', ''writer'']
     then invalid ''state owner unknown''
     else if name \<noteq> u ''catalog'' \<and> expected_volume name \<in> set volumes
     then invalid ''independent domains share a volume''
     else Inr (seen @ [name], paths @ [p],
               if name \<noteq> u ''catalog'' then volumes @ [expected_volume name] else volumes))"

definition check_entry :: "layout_state \<Rightarrow> pyval \<Rightarrow> layout_state res" where
  "check_entry st e = (case st of (seen, paths, volumes) \<Rightarrow>
     bindE (check_fields e ENTRY_KEYS ''layout entry'') (\<lambda>_.
       case field e ''id'' of
         PStr name \<Rightarrow>
           if name \<notin> fst ` set REQUIRED \<or> name \<in> set seen then invalid ''unknown/duplicate recovery domain''
           else (case field e ''path'' of
             PStr p \<Rightarrow>
               if \<not> startswith p (u ''/'') \<or> p \<in> set paths then invalid ''invalid/duplicate mount path''
               else bindE (if p \<noteq> u ''/'' then bindE (relative (tl p)) (\<lambda>_. Inr ()) else Inr ())
                 (\<lambda>_. check_placed st e name p)
           | _ \<Rightarrow> invalid ''invalid/duplicate mount path'')
       | _ \<Rightarrow> invalid ''unknown/duplicate recovery domain''))"

definition layout_report :: "nat \<Rightarrow> pyval" where
  "layout_report n = PDict [(u ''layout_valid'', PBool True), (u ''execution_permit'', PBool False),
     (u ''mounted_or_formatted'', PBool False), (u ''physical_durability_tested'', PBool False),
     (u ''domains'', PInt (int n)), (u ''physical_mount_bindings_verified'', PBool False),
     (u ''persistent_filesystem'', PStr (u ''xfs''))]"

definition check_layout :: "pyval \<Rightarrow> pyval res" where
  "check_layout layout =
     bindE (check_fields layout LAYOUT_KEYS ''layout'') (\<lambda>_.
       if \<not> py_eq (field layout ''schema'') (PStr (u ''org.niaos.layout/v2''))
        \<or> \<not> py_eq (field layout ''product'') (PStr (u ''nia-os''))
       then invalid ''layout identity''
       else bindE (eachE (\<lambda>k. if field layout k \<noteq> PBool False
                     then Inl (Invalid (u ''unsupported storage assumption: '' @ u k)) else Inr ()) FALSE_KEYS) (\<lambda>_.
       if field layout ''catalog_and_files_same_generation'' \<noteq> PBool True
       then invalid ''catalog detached from file generation''
       else (case field layout ''entries'' of
           PList entries \<Rightarrow>
             if length entries \<noteq> length REQUIRED then invalid ''layout size''
             else bindE (foldE check_entry ([], [], []) entries) (\<lambda>(seen, _, _).
               if set seen \<noteq> fst ` set REQUIRED then invalid ''incomplete recovery domain coverage''
               else Inr (layout_report (length entries)))
         | _ \<Rightarrow> invalid ''layout size'')))"

section \<open>What a valid layout is\<close>

definition entry_name :: "pyval \<Rightarrow> pystr" where
  "entry_name e = (case field e ''id'' of PStr s \<Rightarrow> s | _ \<Rightarrow> [])"

text \<open>An entry for the domain \<open>name\<close>, with no reference to the other entries.\<close>

definition entry_ok :: "pyval \<Rightarrow> bool" where
  "entry_ok e \<longleftrightarrow> is_dict e \<and> set (dict_keys e) = set (map u ENTRY_KEYS) \<and>
     (\<exists>name path storage domain rollback encrypted.
        (name, path, storage, domain, rollback, encrypted) \<in> set REQUIRED
      \<and> field e ''id'' = PStr name \<and> field e ''path'' = PStr path
      \<and> field e ''storage'' = PStr storage \<and> field e ''rollback_domain'' = PStr domain
      \<and> field e ''system_rollback'' = PBool rollback \<and> field e ''encrypted'' = PBool encrypted
      \<and> field e ''volume'' = PStr (expected_volume name)
      \<and> field e ''mount_required'' = PBool (name \<noteq> u ''catalog'')
      \<and> field e ''format_allowed'' = PBool False)
     \<and> short_text (field e ''contents'') \<and> short_text (field e ''writer'')"

definition layout_ok :: "pyval \<Rightarrow> bool" where
  "layout_ok layout \<longleftrightarrow> is_dict layout \<and> set (dict_keys layout) = set (map u LAYOUT_KEYS)
     \<and> field layout ''schema'' = PStr (u ''org.niaos.layout/v2'')
     \<and> field layout ''product'' = PStr (u ''nia-os'')
     \<and> (\<forall>k \<in> set FALSE_KEYS. field layout k = PBool False)
     \<and> field layout ''catalog_and_files_same_generation'' = PBool True
     \<and> (\<exists>entries. field layout ''entries'' = PList entries \<and> list_all entry_ok entries
          \<and> mset (map entry_name entries) = mset (map fst REQUIRED))"

lemma required_distinct: "distinct (map fst REQUIRED)"
  by code_simp

lemma required_paths_distinct: "distinct (map (\<lambda>(n, r). fst r) REQUIRED)"
  by code_simp

lemma required_placed: "list_all (\<lambda>(n, r). placement_of n = r \<and> startswith (fst r) (u ''/'')
    \<and> (fst r \<noteq> u ''/'' \<longrightarrow> is_ok (relative (tl (fst r))))) REQUIRED"
  by code_simp

lemma required_row: "(n, r) \<in> set REQUIRED \<Longrightarrow> placement_of n = r"
  "(n, r) \<in> set REQUIRED \<Longrightarrow> startswith (fst r) (u ''/'')"
  "(n, r) \<in> set REQUIRED \<Longrightarrow> fst r \<noteq> u ''/'' \<Longrightarrow> relative (tl (fst r)) = Inr (tl (fst r))"
  using required_placed by (auto simp: list_all_iff is_ok_iff relative_ok)

lemma required_name: "n \<in> fst ` set REQUIRED \<longleftrightarrow> (n, placement_of n) \<in> set REQUIRED"
  using required_row(1) by force

lemma required_path_inj:
  "m \<in> fst ` set REQUIRED \<Longrightarrow> n \<in> fst ` set REQUIRED \<Longrightarrow> fst (placement_of m) = fst (placement_of n) \<Longrightarrow> m = n"
proof -
  assume mn: "m \<in> fst ` set REQUIRED" "n \<in> fst ` set REQUIRED" and p: "fst (placement_of m) = fst (placement_of n)"
  have "inj_on (\<lambda>(n, r). fst r) (set REQUIRED)" using required_paths_distinct by (simp add: distinct_map)
  from inj_onD [OF this, of "(m, placement_of m)" "(n, placement_of n)"] mn p show "m = n"
    by (simp add: required_name)
qed

lemma expected_volume_inj:
  "m \<noteq> u ''catalog'' \<Longrightarrow> n \<noteq> u ''catalog'' \<Longrightarrow> expected_volume m = expected_volume n \<Longrightarrow> m = n"
proof -
  have v: "u ''nia-system'' = u ''nia-'' @ u ''system''" by (simp add: u_def)
  show "m \<noteq> u ''catalog'' \<Longrightarrow> n \<noteq> u ''catalog'' \<Longrightarrow> expected_volume m = expected_volume n \<Longrightarrow> m = n"
    unfolding expected_volume_def v by (auto split: if_splits)
qed

text \<open>\<open>entry_ok\<close> for a known name, and the loop body in these terms.\<close>

definition entry_at :: "pystr \<Rightarrow> pyval \<Rightarrow> bool" where
  "entry_at name e \<longleftrightarrow> is_dict e \<and> set (dict_keys e) = set (map u ENTRY_KEYS)
     \<and> name \<in> fst ` set REQUIRED \<and> field e ''id'' = PStr name
     \<and> entry_row e = placement_values (placement_of name)
     \<and> field e ''volume'' = PStr (expected_volume name)
     \<and> field e ''mount_required'' = PBool (name \<noteq> u ''catalog'')
     \<and> field e ''format_allowed'' = PBool False
     \<and> short_text (field e ''contents'') \<and> short_text (field e ''writer'')"

lemma entry_ok_at: "entry_ok e \<longleftrightarrow> entry_at (entry_name e) e"
proof
  assume "entry_ok e"
  then obtain name path storage domain rollback encrypted
    where r: "(name, path, storage, domain, rollback, encrypted) \<in> set REQUIRED"
      and f: "field e ''id'' = PStr name" "field e ''path'' = PStr path"
      "field e ''storage'' = PStr storage" "field e ''rollback_domain'' = PStr domain"
      "field e ''system_rollback'' = PBool rollback" "field e ''encrypted'' = PBool encrypted"
      "field e ''volume'' = PStr (expected_volume name)"
      "field e ''mount_required'' = PBool (name \<noteq> u ''catalog'')" "field e ''format_allowed'' = PBool False"
    unfolding entry_ok_def by blast
  from r have "name \<in> fst ` set REQUIRED" by force
  with \<open>entry_ok e\<close> show "entry_at (entry_name e) e"
    by (simp add: entry_at_def entry_ok_def entry_name_def entry_row_def f required_row(1) [OF r] placement_values_def)
next
  assume a: "entry_at (entry_name e) e"
  obtain path storage domain rollback encrypted
    where p: "placement_of (entry_name e) = (path, storage, domain, rollback, encrypted)"
    by (cases "placement_of (entry_name e)") auto
  with a show "entry_ok e"
    unfolding entry_ok_def entry_at_def entry_row_def placement_values_def required_name by auto
qed

lemma py_eq_PBool: "is_bool v \<Longrightarrow> py_eq v (PBool b) \<longleftrightarrow> v = PBool b"
  by (cases v) (auto simp: is_bool_def)

lemma is_bool_PBool [simp]: "is_bool (PBool b)"
  by (simp add: is_bool_def)

lemma is_bool_iff: "is_bool v \<longleftrightarrow> (\<exists>b. v = PBool b)"
  by (cases v) (auto simp: is_bool_def)

lemma check_placed_eq:
  assumes "check_fields e ENTRY_KEYS w = Inr ()" "field e ''id'' = PStr name" "name \<in> fst ` set REQUIRED"
    "field e ''path'' = PStr p"
  shows "check_placed (seen, paths, volumes) e name p = Inr st \<longleftrightarrow>
    entry_at name e \<and> (name \<noteq> u ''catalog'' \<longrightarrow> expected_volume name \<notin> set volumes)
    \<and> st = (seen @ [name], paths @ [p], if name \<noteq> u ''catalog'' then volumes @ [expected_volume name] else volumes)"
proof -
  obtain path storage domain rollback encrypted
    where pl: "placement_of name = (path, storage, domain, rollback, encrypted)"
    by (cases "placement_of name") auto
  show ?thesis
  proof (cases "list_all (\<lambda>k. is_bool (field e k)) BOOLEAN_KEYS")
    case False
    then have "list_ex (\<lambda>k. \<not> is_bool (field e k)) BOOLEAN_KEYS" by (simp add: list_all_iff list_ex_iff)
    moreover have "\<not> entry_at name e"
      using False by (auto simp: entry_at_def entry_row_def BOOLEAN_KEYS_def pl placement_values_def)
    ultimately show ?thesis by (simp add: check_placed_def)
  next
    case True
    then have t: "\<not> list_ex (\<lambda>k. \<not> is_bool (field e k)) BOOLEAN_KEYS" by (simp add: list_all_iff list_ex_iff)
    from True have b: "is_bool (field e ''system_rollback'')" "is_bool (field e ''encrypted'')"
      "is_bool (field e ''mount_required'')" "is_bool (field e ''format_allowed'')"
      by (simp_all add: BOOLEAN_KEYS_def)
    then have f: "field e ''format_allowed'' \<noteq> PBool True \<longleftrightarrow> field e ''format_allowed'' = PBool False"
      by (auto simp: is_bool_iff)
    have v: "list_all2 py_eq (entry_row e) (placement_values (placement_of name)) \<longleftrightarrow>
        entry_row e = placement_values (placement_of name)"
      by (simp add: entry_row_def pl placement_values_def py_eq_PBool b)
    show ?thesis
      using assms f
      by (auto simp: check_placed_def t v entry_at_def py_eq_PBool b fields_ok)
  qed
qed

lemma entry_at_path: "entry_at name e \<Longrightarrow> field e ''path'' = PStr (fst (placement_of name))"
  by (cases "placement_of name") (auto simp: entry_at_def entry_row_def placement_values_def)

lemma check_entry_eq:
  "check_entry (seen, paths, volumes) e = Inr st \<longleftrightarrow>
    entry_ok e \<and> entry_name e \<notin> set seen \<and> fst (placement_of (entry_name e)) \<notin> set paths
    \<and> (entry_name e \<noteq> u ''catalog'' \<longrightarrow> expected_volume (entry_name e) \<notin> set volumes)
    \<and> st = (seen @ [entry_name e], paths @ [fst (placement_of (entry_name e))],
            if entry_name e \<noteq> u ''catalog'' then volumes @ [expected_volume (entry_name e)] else volumes)"
  (is "?l \<longleftrightarrow> ?r")
proof
  assume l: ?l
  then have f: "check_fields e ENTRY_KEYS ''layout entry'' = Inr ()"
    by (auto simp: check_entry_def bindE_eq_Inr)
  from l f obtain name where n: "field e ''id'' = PStr name" "name \<in> fst ` set REQUIRED" "name \<notin> set seen"
    by (auto simp: check_entry_def split: pyval.splits if_splits)
  from l f n obtain p where p: "field e ''path'' = PStr p" "p \<notin> set paths"
      "check_placed (seen, paths, volumes) e name p = Inr st"
    by (auto simp: check_entry_def bindE_eq_Inr split: pyval.splits if_splits)
  have "entry_name e = name" by (simp add: entry_name_def n)
  with p check_placed_eq [OF f n(1,2) p(1)] n show ?r
    using entry_at_path [of name e] by (auto simp: entry_ok_at)
next
  assume r: ?r
  let ?n = "entry_name e"
  from r have a: "entry_at ?n e" by (simp add: entry_ok_at)
  then have f: "check_fields e ENTRY_KEYS ''layout entry'' = Inr ()" and n: "field e ''id'' = PStr ?n"
    and q: "?n \<in> fst ` set REQUIRED" by (auto simp: entry_at_def fields_ok)
  note p = entry_at_path [OF a]
  note row = required_row [OF q [unfolded required_name]]
  have cp: "check_placed (seen, paths, volumes) e ?n (fst (placement_of ?n)) = Inr st"
    using r a unfolding check_placed_eq [OF f n q p] by blast
  have "(if fst (placement_of ?n) \<noteq> u ''/'' then bindE (relative (tl (fst (placement_of ?n)))) (\<lambda>_. Inr ())
      else Inr ()) = Inr ()" using row(3) by simp
  note guard = this
  have "bindE (if fst (placement_of ?n) \<noteq> u ''/'' then bindE (relative (tl (fst (placement_of ?n)))) (\<lambda>_. Inr ())
      else Inr ()) (\<lambda>_. check_placed (seen, paths, volumes) e ?n (fst (placement_of ?n))) = Inr st"
    unfolding guard bindE.simps by (rule cp)
  then show ?l using r row(2) by (simp add: check_entry_def f n q p)
qed

lemma check_entries_eq:
  assumes "set seen \<subseteq> fst ` set REQUIRED"
  shows "(\<exists>st. foldE check_entry (seen, map (fst \<circ> placement_of) seen,
       map expected_volume (filter (\<lambda>n. n \<noteq> u ''catalog'') seen)) es = Inr st \<and> fst st = names)
    \<longleftrightarrow> list_all entry_ok es \<and> names = seen @ map entry_name es
       \<and> distinct (map entry_name es) \<and> set (map entry_name es) \<inter> set seen = {}"
  using assms
proof (induction es arbitrary: seen)
  case Nil
  then show ?case by auto
next
  case (Cons e es)
  let ?n = "entry_name e"
  let ?st = "(seen, map (fst \<circ> placement_of) seen, map expected_volume (filter (\<lambda>n. n \<noteq> u ''catalog'') seen))"
  let ?seen = "seen @ [?n]"
  let ?st' = "(?seen, map (fst \<circ> placement_of) ?seen, map expected_volume (filter (\<lambda>n. n \<noteq> u ''catalog'') ?seen))"
  show ?case
  proof (cases "entry_ok e \<and> ?n \<notin> set seen")
    case True
    then have q: "?n \<in> fst ` set REQUIRED" by (simp add: entry_ok_at entry_at_def)
    have "fst (placement_of ?n) \<noteq> fst (placement_of m)" if "m \<in> set seen" for m
      using True required_path_inj [OF q, of m] Cons.prems that by blast
    then have np: "fst (placement_of ?n) \<notin> set (map (fst \<circ> placement_of) seen)" by auto
    have nv: "?n \<noteq> u ''catalog'' \<longrightarrow>
        expected_volume ?n \<notin> set (map expected_volume (filter (\<lambda>n. n \<noteq> u ''catalog'') seen))"
      using True expected_volume_inj [of ?n] by auto
    have "?st' = (?seen, map (fst \<circ> placement_of) seen @ [fst (placement_of ?n)],
        if ?n \<noteq> u ''catalog'' then map expected_volume (filter (\<lambda>n. n \<noteq> u ''catalog'') seen) @ [expected_volume ?n]
        else map expected_volume (filter (\<lambda>n. n \<noteq> u ''catalog'') seen))" by simp
    then have "check_entry ?st e = Inr ?st'" unfolding check_entry_eq using True np nv by blast
    then have step: "foldE check_entry ?st (e # es) = foldE check_entry ?st' es"
      unfolding foldE.simps by (simp only: bindE.simps)
    have sub: "set ?seen \<subseteq> fst ` set REQUIRED" using Cons.prems q by simp
    show ?thesis unfolding step Cons.IH [OF sub] using True by auto
  next
    case False
    then have "check_entry ?st e \<noteq> Inr st" for st unfolding check_entry_eq by blast
    then have "foldE check_entry ?st (e # es) \<noteq> Inr st" for st
      unfolding foldE.simps bindE_eq_Inr by blast
    moreover have "\<not> (list_all entry_ok (e # es) \<and> set (map entry_name (e # es)) \<inter> set seen = {})"
      using False by auto
    ultimately show ?thesis by blast
  qed
qed

lemma required_mset:
  "length names = length REQUIRED \<Longrightarrow> distinct names \<and> set names = fst ` set REQUIRED
     \<longleftrightarrow> mset names = mset (map fst REQUIRED)"
  by (metis list.set_map mset_eq_imp_distinct_iff mset_eq_setD required_distinct set_eq_iff_mset_eq_distinct)

lemma check_layout_decides: "check_layout layout = Inr r \<longleftrightarrow> layout_ok layout \<and> r = layout_report (length REQUIRED)"
proof -
  have loop: "(\<exists>seen a b. foldE check_entry ([], [], []) es = Inr (seen, a, b) \<and> set seen = fst ` set REQUIRED)
      \<longleftrightarrow> list_all entry_ok es \<and> mset (map entry_name es) = mset (map fst REQUIRED)"
    if "length es = length REQUIRED" for es
  proof -
    have "(\<exists>seen a b. foldE check_entry ([], [], []) es = Inr (seen, a, b) \<and> set seen = fst ` set REQUIRED)
       \<longleftrightarrow> (\<exists>names. (\<exists>st. foldE check_entry ([], [], []) es = Inr st \<and> fst st = names)
             \<and> set names = fst ` set REQUIRED)" by auto
    also have "\<dots> \<longleftrightarrow> list_all entry_ok es \<and> distinct (map entry_name es) \<and> set (map entry_name es) = fst ` set REQUIRED"
      using check_entries_eq [of "[]" es] by auto
    also have "\<dots> \<longleftrightarrow> list_all entry_ok es \<and> mset (map entry_name es) = mset (map fst REQUIRED)"
      using required_mset [of "map entry_name es"] that by simp
    finally show ?thesis .
  qed
  have len: "mset (map entry_name es) = mset (map fst REQUIRED) \<Longrightarrow> length es = length REQUIRED" for es
    by (metis length_map mset_eq_length)
  show ?thesis
  proof (cases "field layout ''entries''")
    case (PList es)
    have "(\<exists>x. foldE check_entry ([], [], []) es = Inr x \<and> (case x of (seen, _, _) \<Rightarrow>
          if set seen \<noteq> fst ` set REQUIRED then invalid ''incomplete recovery domain coverage''
          else Inr (layout_report (length es))) = Inr r)
      \<longleftrightarrow> (\<exists>seen a b. foldE check_entry ([], [], []) es = Inr (seen, a, b) \<and> set seen = fst ` set REQUIRED)
          \<and> r = layout_report (length es)" by (auto split: if_splits)
    with loop [of es] len [of es] show ?thesis
      unfolding check_layout_def layout_ok_def PList
      by (auto simp: ok_simps)
  qed (auto simp: check_layout_def layout_ok_def ok_simps)
qed

section \<open>Properties\<close>

text \<open>C5: A layout is accepted exactly when it lists every recovery domain of the product once, in
  any order, each at its required path, with the required storage, rollback domain and
  encryption, on the volume named after it (the catalog alone on the system volume), with no
  formatting allowed and none of the unsafe storage assumptions made; the report names all
  fourteen domains and permits nothing.\<close>

theorem check_layout_exact:
  "check_layout layout = Inr r \<longleftrightarrow> layout_ok layout \<and> r = layout_report 14"
proof -
  have "length REQUIRED = 14" by code_simp
  then show ?thesis using check_layout_decides [of layout r] by simp
qed

end
