(* ===== verification/Nia_Policy.thy ===== *)
theory Nia_Policy
  imports Nia_Common
begin

text \<open>
  \<open>tools/nia_policy.py\<close>: the reviewed product profile, compared section by section by its
  canonical encoding, and the readiness report over the fixed list of gates.
\<close>

section \<open>The profile\<close>

definition str_item :: "string \<times> string \<Rightarrow> pystr \<times> pyval" where
  "str_item p = (u (fst p), PStr (u (snd p)))"

definition bool_item :: "string \<times> bool \<Rightarrow> pystr \<times> pyval" where
  "bool_item p = (u (fst p), PBool (snd p))"

definition str_list :: "string list \<Rightarrow> pyval" where
  "str_list xs = PList (map (\<lambda>s. PStr (u s)) xs)"

definition SUPPLY :: pyval where
  "SUPPLY = PDict
    (map str_item [(''distribution'', ''debian''), (''codename'', ''forky'')] @
     [(u ''major'', PInt 14)] @
     map str_item [(''format'', ''deb''), (''mode'', ''pinned-snapshot'')] @
     map bool_item [(''rolling_aliases'', False), (''mix_families'', False)] @
     map str_item [(''architecture'', ''amd64''), (''independent_architecture'', ''all''),
       (''required_component'', ''main'')] @
     [(u ''exception_components'', str_list [''contrib'', ''non-free'', ''non-free-firmware''])] @
     map str_item [(''archive_authentication'', ''openpgp-inrelease-sha256-chain''),
       (''reproduction'', ''exact-deb-source-buildinfo-independent-receipts'')])"

definition OWNERSHIP :: pyval where
  "OWNERSHIP = PDict
    ([str_item (''host_package_authority'', ''nia''), (u ''native_manager_writers'', PList []),
      str_item (''native_database'', ''nia-catalog-v1'')] @
     map bool_item [(''requires_native_db_handoff'', False), (''upstream_abi_reuse'', True)] @
     [str_item (''maintainer_scripts'', ''reviewed-effect-contract-only'')])"

definition SYSTEM :: pyval where
  "SYSTEM = PDict
    (map str_item [(''architecture'', ''x86_64''), (''cpu_baseline'', ''x86-64-v2''), (''libc'', ''glibc''),
       (''init'', ''systemd''), (''network'', ''NetworkManager''),
       (''mac'', ''apparmor-enforcing-scoped-profiles''), (''root_filesystem'', ''xfs''),
       (''data_filesystem'', ''xfs''), (''persistent_filesystem'', ''xfs''),
       (''storage_contract'', ''org.niaos.xfs-policy/v1''), (''at_rest_encryption'', ''luks2''),
       (''boot'', ''systemd-boot-signed-uki'')] @
     [bool_item (''secure_boot_required'', True), str_item (''root_update'', ''mutable-managed''),
      bool_item (''unconditional_reboot'', False), bool_item (''hibernation_default'', False),
      str_item (''kernel'', ''debian-forky-signed-cohort-upstream-lag-gated'')])"

definition PRODUCT :: pyval where
  "PRODUCT = PDict
    (map str_item [(''configuration_authority'', ''configcore''), (''change_authority'', ''controlcore''),
       (''solver_authority'', ''resolvercore-independent-checker''), (''host_console'', ''nia'')] @
     [(u ''internal_compatibility_names'', str_list [''missionctl'', ''MC_*''])] @
     map bool_item [(''default_package_execution'', False), (''bootable_image_available'', False),
       (''production_qualified'', False)])"

definition PROFILE_KEYS :: "string list" where
  "PROFILE_KEYS = [''schema'', ''id'', ''name'', ''version'', ''qualification'', ''supply'',
     ''ownership'', ''system'', ''product'']"

definition PROFILE_IDENTITY :: "(string \<times> string) list" where
  "PROFILE_IDENTITY = [(''schema'', ''org.niaos.product/v2''), (''id'', ''nia-os''), (''name'', ''Nia OS''),
     (''version'', ''0.1-dev''), (''qualification'', ''unqualified-source'')]"

definition SECTIONS :: "(string \<times> pyval) list" where
  "SECTIONS = [(''supply'', SUPPLY), (''ownership'', OWNERSHIP), (''system'', SYSTEM), (''product'', PRODUCT)]"

definition profile_report :: pyval where
  "profile_report = PDict [(u ''product'', PStr (u ''Nia OS'')), (u ''profile_valid'', PBool True),
     (u ''execution_permit'', PBool False), (u ''production_qualified'', PBool False)]"

definition check_profile :: "pyval \<Rightarrow> pyval res" where
  "check_profile p =
     bindE (check_fields p PROFILE_KEYS ''Nia profile'') (\<lambda>_.
       if \<not> list_all (\<lambda>(k, v). py_eq (field p k) (PStr (u v))) PROFILE_IDENTITY
       then invalid ''unsupported product identity''
       else bindE (eachE (\<lambda>(name, expected).
              if canonical (field p name) \<noteq> canonical expected
              then Inl (Invalid (u ''unreviewed product change: '' @ u name)) else Inr ()) SECTIONS)
            (\<lambda>_. Inr profile_report))"

section \<open>Readiness\<close>

definition GATES :: "pystr list" where
  "GATES = map u
    [''toolchain-build'', ''spark-flow-proof'', ''native-parser-revalidation'', ''deb-native-semantics'',
     ''maintainer-effect-closure'', ''configuration-observer-closure'', ''archive-authentication'',
     ''exact-binary-reproduction'', ''supplier-maintenance-qualified'', ''security-lag-service'',
     ''catalog-file-wal-binding'', ''no-competing-writer'', ''root-file-executor'',
     ''root-generation-recovery'', ''power-loss-recovery'', ''secure-boot-enrollment'',
     ''signed-uki-boot-test'', ''initramfs-kernel-module-cohort'', ''apparmor-effective-policy'',
     ''identity-secret-provisioning'', ''independent-trust-floor'', ''signed-installation'',
     ''installer-disk-identity'', ''network-loss-recovery'', ''systemd-health-observers'',
     ''hardware-fencing'', ''data-backup-restore-drill'', ''management-ha'', ''long-term-log-retention'',
     ''software-licenses-source-offer'', ''operational-review'', ''xfs-runtime-capability-cohort'',
     ''xfs-rescue-feature-compatibility'', ''xfs-scrub-observer-coverage'',
     ''xfs-online-repair-qualification'', ''content-integrity-and-backup'',
     ''xfs-layout-physical-binding'', ''consent-peer-and-backend-identity'',
     ''consent-exact-scope-ui-response'', ''portal-intent-before-effect'', ''grant-revocation-observed'',
     ''consent-anchor-and-reservation'', ''real-desktop-session-switch-tests'']"

definition STATES :: "pystr list" where
  "STATES = map u [''missing'', ''planned'', ''implemented-unvalidated'', ''tested-tooling'',
     ''requires-site-qualification'']"

definition READINESS_KEYS :: "string list" where
  "READINESS_KEYS = [''gate'', ''state'', ''scope_sha256'', ''evidence_ref'']"

text \<open>
  \<open>row['gate'] not in GATES\<close> compares with each element of the tuple, so a value of another
  type is simply not in it. A gate that passed this test is a string and can be a key.
\<close>

definition in_strings :: "pyval \<Rightarrow> pystr list \<Rightarrow> bool" where
  "in_strings v xs \<longleftrightarrow> list_ex (\<lambda>s. py_eq v (PStr s)) xs"

definition is_str :: "pyval \<Rightarrow> bool" where
  "is_str v = (case v of PStr _ \<Rightarrow> True | _ \<Rightarrow> False)"

definition str_of :: "pyval \<Rightarrow> pystr" where
  "str_of v = (case v of PStr s \<Rightarrow> s | _ \<Rightarrow> [])"

definition readiness_row :: "pystr \<Rightarrow> (pystr \<times> pyval) list \<Rightarrow> pyval \<Rightarrow> (pystr \<times> pyval) list res" where
  "readiness_row product_digest known row =
     bindE (check_fields row READINESS_KEYS ''readiness item'') (\<lambda>_.
       if \<not> in_strings (field row ''gate'') GATES \<or> \<not> in_strings (field row ''state'') STATES
       then invalid ''unknown or overstated readiness''
       else if \<not> py_eq (field row ''scope_sha256'') (PStr product_digest) \<or> \<not> is_str (field row ''evidence_ref'')
       then invalid ''readiness scope''
       else let gate = str_of (field row ''gate'') in
         if gate \<in> fst ` set known then invalid ''duplicate readiness gate''
         else Inr (dict_set gate row known))"

definition missing_row :: "pystr \<Rightarrow> pystr \<Rightarrow> pyval" where
  "missing_row product_digest g = PDict [(u ''gate'', PStr g), (u ''state'', PStr (u ''missing'')),
     (u ''scope_sha256'', PStr product_digest), (u ''evidence_ref'', PStr (u ''''))]"

definition readiness :: "pystr \<Rightarrow> pyval list \<Rightarrow> pyval res" where
  "readiness product_digest evidence =
     bindE (digest_str product_digest) (\<lambda>_.
     bindE (foldE (readiness_row product_digest) [] evidence) (\<lambda>known.
       Inr (PDict [(u ''product'', PStr (u ''Nia OS'')), (u ''execution_permit'', PBool False),
         (u ''production_qualified'', PBool False),
         (u ''gates'', PList (map (\<lambda>g. case map_of known g of None \<Rightarrow> missing_row product_digest g
                                        | Some row \<Rightarrow> row) GATES))])))"

section \<open>Lemmas\<close>

lemma in_strings_iff [simp]: "in_strings v xs \<longleftrightarrow> (\<exists>s \<in> set xs. v = PStr s)"
  by (auto simp: in_strings_def list_ex_iff)

definition row_ok :: "pystr \<Rightarrow> pyval \<Rightarrow> bool" where
  "row_ok product_digest row \<longleftrightarrow> is_dict row \<and> set (dict_keys row) = set (map u READINESS_KEYS)
     \<and> (\<exists>g \<in> set GATES. field row ''gate'' = PStr g) \<and> (\<exists>s \<in> set STATES. field row ''state'' = PStr s)
     \<and> field row ''scope_sha256'' = PStr product_digest \<and> is_str (field row ''evidence_ref'')"

definition gate_of :: "pyval \<Rightarrow> pystr" where
  "gate_of row = str_of (field row ''gate'')"

lemma dict_set_fresh: "k \<notin> fst ` set d \<Longrightarrow> dict_set k v d = d @ [(k, v)]"
  by (induction k v d rule: dict_set.induct) auto

lemma readiness_row_eq:
  "readiness_row product_digest known row = Inr known' \<longleftrightarrow>
     row_ok product_digest row \<and> gate_of row \<notin> fst ` set known \<and> known' = known @ [(gate_of row, row)]"
  unfolding readiness_row_def bindE_eq_Inr fields_ok Let_def gate_of_def [symmetric] row_ok_def
  by (auto simp: dict_set_fresh)

lemma readiness_rows_eq:
  "foldE (readiness_row pd) known rows = Inr known' \<longleftrightarrow>
     list_all (row_ok pd) rows \<and> distinct (map gate_of rows) \<and> gate_of ` set rows \<inter> fst ` set known = {}
     \<and> known' = known @ map (\<lambda>r. (gate_of r, r)) rows"
proof (induction rows arbitrary: known)
  case (Cons r rows)
  have "foldE (readiness_row pd) known (r # rows) = Inr known' \<longleftrightarrow>
     row_ok pd r \<and> gate_of r \<notin> fst ` set known \<and> foldE (readiness_row pd) (known @ [(gate_of r, r)]) rows = Inr known'"
    unfolding foldE.simps bindE_eq_Inr readiness_row_eq by blast
  then show ?case unfolding Cons.IH by auto
qed auto

lemma find_map_of: "map_of (map (\<lambda>r. (f r, r)) rows) g = find (\<lambda>r. f r = g) rows"
  by (induction rows) auto

lemma json_val_field: "json_val v \<Longrightarrow> json_val (field v k)"
  by (cases v) (auto simp: field_def split: option.splits dest!: map_of_SomeD)

lemma sections_json_val: "\<forall>s \<in> set SECTIONS. json_val (snd s)"
  by (simp add: SECTIONS_def) (intro conjI; code_simp)

section \<open>Properties\<close>

text \<open>C12: A profile passes exactly when it has the reviewed identity and every section is the
  reviewed section, key by key and in depth, whatever the order of the keys; comparing the
  canonical encodings confuses no two different sections.\<close>

theorem check_profile_exact:
  assumes "json_val p"
  shows "check_profile p = Inr r \<longleftrightarrow> is_dict p \<and> set (dict_keys p) = set (map u PROFILE_KEYS)
    \<and> (\<forall>(k, v) \<in> set PROFILE_IDENTITY. field p k = PStr (u v))
    \<and> (\<forall>(k, expected) \<in> set SECTIONS. normal (field p k) = normal expected)
    \<and> r = profile_report"
proof -
  have c: "canonical (field p k) = canonical expected \<longleftrightarrow> normal (field p k) = normal expected"
    if "(k, expected) \<in> set SECTIONS" for k expected
    using that sections_json_val by (intro canonical_eq_iff json_val_field [OF assms]) fastforce
  have "(\<forall>x \<in> set SECTIONS. (case x of (name, expected) \<Rightarrow>
        if canonical (field p name) \<noteq> canonical expected
        then Inl (Invalid (u ''unreviewed product change: '' @ u name)) else Inr ()) = Inr ())
     \<longleftrightarrow> (\<forall>(k, expected) \<in> set SECTIONS. normal (field p k) = normal expected)"
    by (rule ball_cong [OF refl]) (auto simp: c split: if_splits)
  then show ?thesis
    unfolding check_profile_def bindE_eq_Inr fields_ok if_invalid_eq_Inr eachE_eq_Inr not_not
    by (auto simp: list_all_iff split: prod.splits)
qed

definition example_profile :: pyval where
  "example_profile = PDict ((u ''product'', PRODUCT) # (u ''system'', SYSTEM) # (u ''supply'', SUPPLY)
     # (u ''ownership'', OWNERSHIP) # map (\<lambda>(k, v). (u k, PStr (u v))) PROFILE_IDENTITY)"

theorem check_profile_exact_witness:
  "check_profile example_profile = Inr profile_report
    \<and> normal (field example_profile ''supply'') = normal SUPPLY"
proof -
  have j: "json_val example_profile" by code_simp
  have c: "check_profile example_profile = Inr profile_report" by code_simp
  then have "\<forall>(k, expected) \<in> set SECTIONS. normal (field example_profile k) = normal expected"
    using check_profile_exact [OF j] by blast
  then show ?thesis using c by (simp add: SECTIONS_def)
qed

text \<open>The readiness report lists every gate once, in the fixed order: with the caller's own row
  for it, or as missing. It is produced exactly when the rows name distinct known gates and
  known states within the product's scope, and it never says production qualified.\<close>

theorem readiness_exact:
  "readiness pd rows = Inr r \<longleftrightarrow> digest_ok pd \<and> list_all (row_ok pd) rows \<and> distinct (map gate_of rows)
    \<and> r = PDict [(u ''product'', PStr (u ''Nia OS'')), (u ''execution_permit'', PBool False),
         (u ''production_qualified'', PBool False),
         (u ''gates'', PList (map (\<lambda>g. case find (\<lambda>row. gate_of row = g) rows of
             None \<Rightarrow> missing_row pd g | Some row \<Rightarrow> row) GATES))]"
  unfolding readiness_def bindE_eq_Inr digest_str_ok readiness_rows_eq
  by (auto simp: find_map_of)

end
