(* ===== verification/Debian_Triggers.thy ===== *)
theory Debian_Triggers
  imports Nia_Common
begin

text \<open>
  \<open>tools/debian_triggers.py\<close>: trigger declarations, the activations that a package's state
  change or its changed files cause, and their routing to the interested packages. The
  properties say which deliveries exist and which of them wait.
\<close>

section \<open>Names and declarations\<close>

definition MAX_BYTES :: nat where
  "MAX_BYTES = 1024 * 1024"

definition MAX_DIRECTIVES :: nat where
  "MAX_DIRECTIVES = 4096"

definition MAX_EVENTS :: nat where
  "MAX_EVENTS = 65536"

definition MAX_ROUTES :: nat where
  "MAX_ROUTES = 262144"

definition explicit_name :: "pystr \<Rightarrow> bool" where
  "explicit_name s \<longleftrightarrow> s \<noteq> [] \<and> ascii_alnum (hd s)
     \<and> list_all (\<lambda>c. ascii_alnum c \<or> c \<in> set (u ''+_.-'')) (tl s)"

definition trigger_name :: "pystr \<Rightarrow> pystr res" where
  "trigger_name name =
     (if name = [] \<or> length name > 4096 then invalid ''trigger name size''
      else if startswith name [47] then
        bindE (if name \<noteq> [47] then bindE (relative (tl name)) (\<lambda>_. Inr ()) else Inr ()) (\<lambda>_.
          if list_ex is_space name \<or> 35 \<in> set name
          then invalid ''unsupported whitespace or comment delimiter in file trigger''
          else Inr name)
      else if \<not> explicit_name name then invalid ''unsupported explicit trigger name''
      else Inr name)"

definition trigger_name_val :: "pyval \<Rightarrow> pystr res" where
  "trigger_name_val v = (case v of PStr s \<Rightarrow> trigger_name s | _ \<Rightarrow> invalid ''trigger name size'')"

definition trigger_name_ok :: "pystr \<Rightarrow> bool" where
  "trigger_name_ok s \<longleftrightarrow> is_ok (trigger_name s)"

lemma trigger_name_eq [ok_simps]: "trigger_name s = Inr t \<longleftrightarrow> trigger_name_ok s \<and> t = s"
  by (auto simp: trigger_name_ok_def is_ok_iff trigger_name_def ok_simps split: if_splits)

datatype kind = Interest | Activate

record directive =
  d_kind :: kind
  d_name :: pystr
  d_await :: bool

text \<open>\<open>DIRECTIVES\<close>: the keywords of a trigger declaration.\<close>

definition DIRECTIVES :: "(pystr \<times> kind \<times> bool) list" where
  "DIRECTIVES = [(u ''interest'', Interest, True), (u ''interest-await'', Interest, True),
     (u ''interest-noawait'', Interest, False), (u ''activate'', Activate, True),
     (u ''activate-await'', Activate, True), (u ''activate-noawait'', Activate, False)]"

definition check_directive :: "directive \<Rightarrow> unit res" where
  "check_directive d = bindE (trigger_name (d_name d)) (\<lambda>_. Inr ())"

section \<open>Parsing declarations\<close>

text \<open>The order of \<open>Directive\<close> values: kind (\<open>activate\<close> before \<open>interest\<close>), name, mode.\<close>

definition directive_key :: "directive \<Rightarrow> pystr \<times> pystr \<times> bool" where
  "directive_key d = ((case d_kind d of Interest \<Rightarrow> u ''interest'' | Activate \<Rightarrow> u ''activate''), d_name d, d_await d)"

definition line_control :: "nat \<Rightarrow> bool" where
  "line_control c \<longleftrightarrow> (c < 32 \<and> c \<noteq> 9 \<and> c \<noteq> 10 \<and> c \<noteq> 13) \<or> c = 127"

definition comment_free :: "pystr \<Rightarrow> pystr" where
  "comment_free line = strip (\<lambda>c. c = 32 \<or> c = 9 \<or> c = 13) (hd (split_on 35 line))"

type_synonym rows = "((kind \<times> pystr) \<times> directive) list"

definition parse_line :: "rows \<times> nat \<Rightarrow> pystr \<Rightarrow> (rows \<times> nat) res" where
  "parse_line st line = (case st of (rows, n) \<Rightarrow>
     if length line > 8192 then invalid ''trigger declaration line size''
     else let text = comment_free line in
       if text = [] then Inr (rows, n)
       else case words text of
         [keyword, name] \<Rightarrow>
           (case map_of DIRECTIVES keyword of
              None \<Rightarrow> invalid ''unknown or malformed trigger directive''
            | Some (k, await) \<Rightarrow>
                let entry = \<lparr>d_kind = k, d_name = name, d_await = await\<rparr> in
                bindE (check_directive entry) (\<lambda>_.
                  if map_of rows (k, name) \<noteq> None \<and> map_of rows (k, name) \<noteq> Some entry
                  then invalid ''conflicting duplicate trigger directive''
                  else if n + 1 > MAX_DIRECTIVES then invalid ''trigger declaration count''
                  else Inr (dict_set (k, name) entry rows, n + 1)))
       | _ \<Rightarrow> invalid ''unknown or malformed trigger directive'')"

definition parse :: "pybytes \<Rightarrow> directive list res" where
  "parse raw =
     (if length raw > MAX_BYTES then invalid ''trigger declaration size''
      else case utf8_decode raw of
        None \<Rightarrow> invalid ''trigger declaration encoding''
      | Some text \<Rightarrow>
          if list_ex line_control text then invalid ''control character in trigger declarations''
          else bindE (foldE parse_line ([], 0) (split_on 10 text)) (\<lambda>(rows, _).
            Inr (sort_key directive_key (map snd rows))))"

definition describe :: "pybytes \<Rightarrow> pyval list res" where
  "describe raw = bindE (parse raw) (\<lambda>ds. Inr (map (\<lambda>d. PDict
     [(u ''kind'', PStr (fst (directive_key d))), (u ''name'', PStr (d_name d)),
      (u ''await_completion'', PBool (d_await d))]) ds))"

section \<open>Activations\<close>

record activation =
  a_name :: pystr
  a_origin :: pystr
  a_await :: bool

definition check_activation :: "activation \<Rightarrow> unit res" where
  "check_activation a = bindE (trigger_name (a_name a)) (\<lambda>_. bindE (digest_str (a_origin a)) (\<lambda>_. Inr ()))"

definition declare_step :: "((kind \<times> pystr) \<times> directive) list \<Rightarrow> directive \<Rightarrow> ((kind \<times> pystr) \<times> directive) list res" where
  "declare_step seen d = bindE (check_directive d) (\<lambda>_.
     let key = (d_kind d, d_name d) in
     if map_of seen key \<noteq> None \<and> map_of seen key \<noteq> Some d
     then invalid ''conflicting duplicate trigger directive'' else Inr (dict_set key d seen))"

definition declarations :: "directive list \<Rightarrow> unit res" where
  "declarations items =
     (if length items > MAX_DIRECTIVES then invalid ''bounded parsed trigger declarations required''
      else bindE (foldE declare_step [] items) (\<lambda>_. Inr ()))"

definition STATE_OPERATIONS :: "pystr list" where
  "STATE_OPERATIONS = map u [''unpack'', ''configure'', ''remove'', ''purge'', ''deconfigure'', ''disappear'']"

definition NO_ACTIVATION_OPERATIONS :: "pystr list" where
  "NO_ACTIVATION_OPERATIONS = map u [''process-triggers'', ''finish-awaited'']"

definition get_bool :: "('k \<times> bool) list \<Rightarrow> 'k \<Rightarrow> bool" where
  "get_bool d k = (case map_of d k of None \<Rightarrow> False | Some b \<Rightarrow> b)"

definition coalesce :: "(pystr \<times> bool) list \<Rightarrow> directive \<Rightarrow> (pystr \<times> bool) list" where
  "coalesce names d =
     (if d_kind d = Activate then dict_set (d_name d) (get_bool names (d_name d) \<or> d_await d) names else names)"

definition state_activations :: "pystr \<Rightarrow> pystr \<Rightarrow> directive list \<Rightarrow> directive list \<Rightarrow> activation list res" where
  "state_activations origin operation before after =
     bindE (digest_str origin) (\<lambda>_.
     bindE (declarations before) (\<lambda>_.
     bindE (declarations after) (\<lambda>_.
       if operation \<notin> set (STATE_OPERATIONS @ NO_ACTIVATION_OPERATIONS)
       then invalid ''unknown trigger lifecycle operation''
       else if after \<noteq> [] \<and> operation \<noteq> u ''unpack''
       then invalid ''new trigger declarations only apply to unpack''
       else if operation \<in> set NO_ACTIVATION_OPERATIONS then Inr []
       else let decls = (if operation = u ''unpack'' then before @ after else before) in
         mapE (\<lambda>(n, mode). let a = \<lparr>a_name = n, a_origin = origin, a_await = mode\<rparr> in
             bindE (check_activation a) (\<lambda>_. Inr a))
           (sorted_items (foldl coalesce [] decls)))))"

section \<open>Interests and file activations\<close>

definition MAX_PACKAGES :: nat where
  "MAX_PACKAGES = 4096"

text \<open>
  \<open>_interests\<close> yields the interests package by package; every caller consumes it whole, so
  the model is the list of what it yields. \<open>packages\<close> is a dictionary.
\<close>

type_synonym packages = "(pystr \<times> directive list) list"

definition count_directive :: "(pystr \<times> directive) list \<times> nat \<Rightarrow> pystr \<times> directive \<Rightarrow> ((pystr \<times> directive) list \<times> nat) res" where
  "count_directive st p = (case st of (out, n) \<Rightarrow>
     if n + 1 > MAX_EVENTS then invalid ''total trigger declaration limit''
     else Inr (if d_kind (snd p) = Interest then out @ [p] else out, n + 1))"

definition package_interests :: "(pystr \<times> directive) list \<times> nat \<Rightarrow> pystr \<times> directive list \<Rightarrow> ((pystr \<times> directive) list \<times> nat) res" where
  "package_interests st p = (case p of (package, ds) \<Rightarrow>
     bindE (digest_str package) (\<lambda>_.
     bindE (declarations ds) (\<lambda>_.
       foldE count_directive st (map (\<lambda>d. (package, d)) ds))))"

definition interests :: "packages \<Rightarrow> (pystr \<times> directive) list res" where
  "interests packages =
     (if length packages > MAX_PACKAGES then invalid ''trigger interest package count''
      else bindE (foldE package_interests ([], 0) (sorted_items packages)) (\<lambda>(out, _). Inr out))"

definition prefixes :: "pystr list \<Rightarrow> pystr list" where
  "prefixes parts = map (\<lambda>n. 47 # join_on [47] (take n parts)) [1 ..< Suc (length parts)]"

definition MAX_PATH_BYTES :: nat where
  "MAX_PATH_BYTES = 16 * 1024 * 1024"

definition utf8_len_of :: "pystr \<Rightarrow> nat" where
  "utf8_len_of s = (case utf8_encode s of None \<Rightarrow> 0 | Some b \<Rightarrow> length b)"

definition file_step :: "pystr list \<Rightarrow> pystr list \<times> nat \<Rightarrow> pystr \<Rightarrow> (pystr list \<times> nat) res" where
  "file_step wanted st name = (case st of (matches, path_bytes) \<Rightarrow>
     bindE (relative name) (\<lambda>_.
       let m = (if [47] \<in> set wanted then matches @ [[47]] else matches);
           parts = split_on 47 name;
           n = path_bytes + utf8_len_of name
       in if length parts > 64 \<or> n > MAX_PATH_BYTES then invalid ''file trigger batch path budget''
          else Inr (m @ filter (\<lambda>p. p \<in> set wanted) (prefixes parts), n)))"

definition file_activations :: "pystr \<Rightarrow> pystr list \<Rightarrow> packages \<Rightarrow> activation list res" where
  "file_activations origin changed_paths packages =
     bindE (digest_str origin) (\<lambda>_.
       if length changed_paths > MAX_EVENTS then invalid ''bounded file-change batch required''
       else bindE (interests packages) (\<lambda>yielded.
         let wanted = filter (\<lambda>n. startswith n [47]) (map (\<lambda>(_, d). d_name d) yielded) in
         bindE (foldE (file_step wanted) ([], 0) changed_paths) (\<lambda>(matches, _).
           mapE (\<lambda>name. let a = \<lparr>a_name = name, a_origin = origin, a_await = True\<rparr> in
               bindE (check_activation a) (\<lambda>_. Inr a)) (sorted_set matches))))"

section \<open>Routing\<close>

record delivery =
  v_receiver :: pystr
  v_name :: pystr
  v_origin :: pystr
  v_await :: bool

type_synonym interest_table = "(pystr \<times> (pystr \<times> bool) list) list"

definition table_get :: "interest_table \<Rightarrow> pystr \<Rightarrow> (pystr \<times> bool) list" where
  "table_get t name = (case map_of t name of None \<Rightarrow> [] | Some d \<Rightarrow> d)"

definition add_interest :: "interest_table \<Rightarrow> pystr \<times> directive \<Rightarrow> interest_table" where
  "add_interest t p = (case p of (package, d) \<Rightarrow>
     dict_set (d_name d) (dict_set package (d_await d) (table_get t (d_name d))) t)"

type_synonym route_key = "pystr \<times> pystr \<times> pystr"

definition route_one :: "activation \<Rightarrow> (route_key \<times> bool) list \<Rightarrow> pystr \<times> bool \<Rightarrow> (route_key \<times> bool) list res" where
  "route_one a result p = (case p of (receiver, interested_await) \<Rightarrow>
     let key = (receiver, a_name a, a_origin a);
         waiting = (a_await a \<and> interested_await \<and> receiver \<noteq> a_origin a) \<or> get_bool result key;
         result' = dict_set key waiting result
     in if length result' > MAX_ROUTES then invalid ''trigger delivery limit'' else Inr result')"

definition route_activation :: "interest_table \<Rightarrow> (route_key \<times> bool) list \<Rightarrow> activation \<Rightarrow> (route_key \<times> bool) list res" where
  "route_activation t result a =
     bindE (check_activation a) (\<lambda>_. foldE (route_one a) result (table_get t (a_name a)))"

definition delivery_of :: "route_key \<times> bool \<Rightarrow> delivery" where
  "delivery_of e = (case e of ((receiver, name, origin), mode) \<Rightarrow>
     \<lparr>v_receiver = receiver, v_name = name, v_origin = origin, v_await = mode\<rparr>)"

definition route :: "activation list \<Rightarrow> packages \<Rightarrow> delivery list res" where
  "route activations packages =
     (if length activations > MAX_EVENTS then invalid ''bounded trigger activations required''
      else bindE (interests packages) (\<lambda>yielded.
        bindE (foldE (route_activation (foldl add_interest [] yielded)) [] activations) (\<lambda>result.
          Inr (map delivery_of (sorted_items result)))))"

section \<open>The batch view\<close>

type_synonym string_sets = "(pystr \<times> pystr list) list"

definition add_to :: "pystr \<Rightarrow> pystr \<Rightarrow> string_sets \<Rightarrow> string_sets" where
  "add_to k v d = dict_set k (v # (case map_of d k of None \<Rightarrow> [] | Some s \<Rightarrow> s)) d"

definition pending_step :: "string_sets \<times> string_sets \<Rightarrow> delivery \<Rightarrow> (string_sets \<times> string_sets) res" where
  "pending_step st d = (case st of (receivers, awaited) \<Rightarrow>
     bindE (digest_str (v_receiver d)) (\<lambda>_.
     bindE (digest_str (v_origin d)) (\<lambda>_.
     bindE (trigger_name (v_name d)) (\<lambda>_.
       if v_await d \<and> v_origin d = v_receiver d then invalid ''self-awaiting trigger''
       else Inr (add_to (v_receiver d) (v_name d) receivers,
                 if v_await d then add_to (v_origin d) (v_receiver d) awaited else awaited)))))"

record batch_view =
  bv_pending :: string_sets
  bv_awaited :: string_sets

definition sorted_sets :: "string_sets \<Rightarrow> string_sets" where
  "sorted_sets d = map (\<lambda>(k, v). (k, sorted_set v)) (sorted_items d)"

definition pending :: "delivery list \<Rightarrow> batch_view res" where
  "pending deliveries =
     (if length deliveries > MAX_ROUTES then invalid ''bounded trigger deliveries required''
      else bindE (foldE pending_step ([], []) deliveries) (\<lambda>(receivers, awaited).
        Inr \<lparr>bv_pending = sorted_sets receivers, bv_awaited = sorted_sets awaited\<rparr>))"

section \<open>Declarations and interests\<close>

definition consistent :: "directive list \<Rightarrow> bool" where
  "consistent ds \<longleftrightarrow> (\<forall>d \<in> set ds. \<forall>e \<in> set ds. d_kind d = d_kind e \<and> d_name d = d_name e \<longrightarrow> d = e)"

lemma declarations_ok:
  assumes "declarations ds = Inr ()"
  shows "consistent ds" "\<forall>d \<in> set ds. trigger_name_ok (d_name d)" "length ds \<le> MAX_DIRECTIVES"
proof -
  from assms obtain seen where f: "foldE declare_step [] ds = Inr seen" and l: "length ds \<le> MAX_DIRECTIVES"
    by (auto simp: declarations_def bindE_eq_Inr split: if_splits)
  have "\<forall>d \<in> set ds. map_of seen (d_kind d, d_name d) = Some d \<and> trigger_name_ok (d_name d)"
  proof (rule foldE_prefix_invariant [OF f, where P = "\<lambda>ys s. \<forall>d \<in> set ys.
        map_of s (d_kind d, d_name d) = Some d \<and> trigger_name_ok (d_name d)"])
    fix ys x zs s s'
    assume IH: "\<forall>d \<in> set ys. map_of s (d_kind d, d_name d) = Some d \<and> trigger_name_ok (d_name d)"
      and step: "declare_step s x = Inr s'"
    from step have x: "trigger_name_ok (d_name x)" "s' = dict_set (d_kind x, d_name x) x s"
      "map_of s (d_kind x, d_name x) = None \<or> map_of s (d_kind x, d_name x) = Some x"
      by (auto simp: declare_step_def check_directive_def ok_simps Let_def split: if_splits)
    show "\<forall>d \<in> set (ys @ [x]). map_of s' (d_kind d, d_name d) = Some d \<and> trigger_name_ok (d_name d)"
    proof
      fix d assume "d \<in> set (ys @ [x])"
      then consider "d = x" | "d \<in> set ys" "d \<noteq> x" by auto
      then show "map_of s' (d_kind d, d_name d) = Some d \<and> trigger_name_ok (d_name d)"
      proof cases
        case 2
        with IH have "map_of s (d_kind d, d_name d) = Some d" by blast
        with 2 x(3) have "(d_kind d, d_name d) \<noteq> (d_kind x, d_name x)" by auto
        with 2 IH show ?thesis by (simp add: x(2))
      qed (simp add: x)
    qed
  qed simp
  then show "consistent ds" "\<forall>d \<in> set ds. trigger_name_ok (d_name d)" "length ds \<le> MAX_DIRECTIVES"
    using l unfolding consistent_def by (auto simp: option.inject) (metis option.inject)
qed

lemma count_step_eq: "count_directive (out, n) p = Inr st \<longleftrightarrow>
    n < MAX_EVENTS \<and> st = (if d_kind (snd p) = Interest then out @ [p] else out, n + 1)"
  by (auto simp: count_directive_def)

lemma count_directives:
  "foldE count_directive (out, n) ps = Inr (out', n') \<Longrightarrow>
     out' = out @ filter (\<lambda>p. d_kind (snd p) = Interest) ps \<and> n' = n + length ps"
proof (induction ps arbitrary: out n)
  case (Cons p ps)
  from Cons.prems have "foldE count_directive (if d_kind (snd p) = Interest then out @ [p] else out, n + 1) ps = Inr (out', n')"
    by (auto simp: count_step_eq bindE_eq_Inr)
  from Cons.IH [OF this] show ?case by simp
qed simp

lemma package_interests_ok:
  assumes "package_interests (out, n) (package, ds) = Inr (out', n')"
  shows "digest_ok package" "consistent ds"
    "out' = out @ map (\<lambda>d. (package, d)) (filter (\<lambda>d. d_kind d = Interest) ds)" "n' = n + length ds"
proof -
  from assms have *: "digest_ok package" "declarations ds = Inr ()"
    "foldE count_directive (out, n) (map (\<lambda>d. (package, d)) ds) = Inr (out', n')"
    by (auto simp: package_interests_def ok_simps)
  have eq: "filter (\<lambda>p. d_kind (snd p) = Interest) (map (\<lambda>d. (package, d)) ds)
      = map (\<lambda>d. (package, d)) (filter (\<lambda>d. d_kind d = Interest) ds)"
    by (induction ds) auto
  show "digest_ok package" "consistent ds"
    "out' = out @ map (\<lambda>d. (package, d)) (filter (\<lambda>d. d_kind d = Interest) ds)" "n' = n + length ds"
    using * declarations_ok(1) count_directives [OF *(3)] eq by auto
qed

text \<open>The interests of a dictionary of packages, as a relation.\<close>

definition interest_in :: "packages \<Rightarrow> pystr \<Rightarrow> directive \<Rightarrow> bool" where
  "interest_in packages p d \<longleftrightarrow> (\<exists>ds. (p, ds) \<in> set packages \<and> d \<in> set ds \<and> d_kind d = Interest)"

lemma package_interests_fold:
  "foldE package_interests (out, n) ps = Inr (out', n') \<Longrightarrow>
     set out' = set out \<union> {(p, d). interest_in ps p d} \<and> (\<forall>(p, ds) \<in> set ps. consistent ds \<and> digest_ok p)"
proof (induction ps arbitrary: out n)
  case Nil
  then show ?case by (simp add: interest_in_def)
next
  case (Cons x ps)
  obtain p ds where x: "x = (p, ds)" by (cases x) auto
  from Cons.prems obtain o1 n1 where s: "package_interests (out, n) (p, ds) = Inr (o1, n1)"
    "foldE package_interests (o1, n1) ps = Inr (out', n')" by (auto simp: x bindE_eq_Inr)
  note o1 = package_interests_ok [OF s(1)]
  have "{(q, d). interest_in (x # ps) q d} = {(q, d). q = p \<and> d \<in> set ds \<and> d_kind d = Interest} \<union> {(q, d). interest_in ps q d}"
    by (auto simp: interest_in_def x)
  moreover have "set o1 = set out \<union> {(q, d). q = p \<and> d \<in> set ds \<and> d_kind d = Interest}" using o1(3) by auto
  ultimately show ?case using Cons.IH [OF s(2)] o1(1,2) x by auto
qed

lemma interests_ok:
  assumes "interests packages = Inr ys"
  shows "(p, d) \<in> set ys \<longleftrightarrow> interest_in packages p d" "(p, ds) \<in> set packages \<Longrightarrow> consistent ds"
    "(p, ds) \<in> set packages \<Longrightarrow> digest_ok p"
proof -
  from assms obtain n where "foldE package_interests ([], 0) (sorted_items packages) = Inr (ys, n)"
    by (auto simp: interests_def bindE_eq_Inr split: if_splits)
  from package_interests_fold [OF this]
  show "(p, d) \<in> set ys \<longleftrightarrow> interest_in packages p d" "(p, ds) \<in> set packages \<Longrightarrow> consistent ds"
    "(p, ds) \<in> set packages \<Longrightarrow> digest_ok p"
    by (auto simp: interest_in_def)
qed

text \<open>With distinct package keys an interest is a function of the package and the name.\<close>

lemma interest_unique:
  assumes "interests packages = Inr ys" "distinct (map fst packages)"
    "interest_in packages p d" "interest_in packages p e" "d_name d = d_name e"
  shows "d = e"
proof -
  from assms(3,4) obtain ds es where m: "(p, ds) \<in> set packages" "d \<in> set ds" "d_kind d = Interest"
    "(p, es) \<in> set packages" "e \<in> set es" "d_kind e = Interest" by (auto simp: interest_in_def)
  with assms(2) have "es = ds" by (metis map_of_is_SomeI option.inject)
  with m assms(5) interests_ok(2) [OF assms(1) m(1)] show ?thesis by (auto simp: consistent_def)
qed

lemma add_interest_get:
  "map_of (table_get (add_interest t (p, d)) n) q =
     (if n = d_name d \<and> q = p then Some (d_await d) else map_of (table_get t n) q)"
  by (auto simp: add_interest_def table_get_def)

lemma foldl_add_interest:
  assumes "\<forall>(p, d) \<in> set ys. \<forall>(q, e) \<in> set ys. p = q \<and> d_name d = d_name e \<longrightarrow> d = e"
  shows "map_of (table_get (foldl add_interest [] ys) n) q = Some b \<longleftrightarrow>
     (\<exists>d. (q, d) \<in> set ys \<and> d_name d = n \<and> d_await d = b)"
  using assms
proof (induction ys arbitrary: b rule: rev_induct)
  case Nil
  then show ?case by (simp add: table_get_def)
next
  case (snoc x ys)
  obtain p d where x: "x = (p, d)" by (cases x) auto
  have IH: "map_of (table_get (foldl add_interest [] ys) n) q = Some b \<longleftrightarrow>
     (\<exists>d. (q, d) \<in> set ys \<and> d_name d = n \<and> d_await d = b)" for b
    using snoc.prems by (intro snoc.IH) auto
  show ?case
  proof (cases "n = d_name d \<and> q = p")
    case True
    then have "\<forall>e. (q, e) \<in> set (ys @ [x]) \<and> d_name e = n \<longrightarrow> e = d"
      using snoc.prems x by fastforce
    then show ?thesis using True x by (auto simp: add_interest_get)
  next
    case False
    then show ?thesis using IH x by (auto simp: add_interest_get)
  qed
qed

lemma distinct_table: "distinct (map fst (table_get (foldl add_interest [] ys) n))"
proof (induction ys rule: rev_induct)
  case (snoc x ys)
  have "distinct (map fst (table_get t n)) \<Longrightarrow> distinct (map fst (table_get (add_interest t x) n))" for t
    by (cases x) (auto simp: add_interest_def table_get_def)
  then show ?case using snoc by simp
qed (simp add: table_get_def)

section \<open>Routing, characterised\<close>

text \<open>The table after a loop over one activation's receivers.\<close>

lemma route_one_map:
  assumes "route_one a result (r, b) = Inr result'"
  shows "result' = dict_set (r, a_name a, a_origin a)
      ((a_await a \<and> b \<and> r \<noteq> a_origin a) \<or> get_bool result (r, a_name a, a_origin a)) result"
  using assms by (auto simp: route_one_def Let_def split: if_splits)

lemma get_bool_dict_set: "get_bool (dict_set k b d) k' = (if k' = k then b else get_bool d k')"
  by (simp add: get_bool_def)

lemma route_ones_map:
  assumes "foldE (route_one a) result ps = Inr result'"
  shows "fst ` set result' = fst ` set result \<union> {(r, a_name a, a_origin a) | r. r \<in> fst ` set ps}
    \<and> (\<forall>k. get_bool result' k \<longleftrightarrow> get_bool result k \<or> (\<exists>r. k = (r, a_name a, a_origin a)
          \<and> (r, True) \<in> set ps \<and> a_await a \<and> r \<noteq> a_origin a))
    \<and> (distinct (map fst result) \<longrightarrow> distinct (map fst result'))"
  using assms
proof (induction ps arbitrary: result)
  case (Cons p ps)
  obtain r b where p: "p = (r, b)" by (cases p) auto
  from Cons.prems obtain s where s: "route_one a result (r, b) = Inr s" "foldE (route_one a) s ps = Inr result'"
    by (auto simp: p bindE_eq_Inr)
  note m = route_one_map [OF s(1)]
  have k: "fst ` set s = insert (r, a_name a, a_origin a) (fst ` set result)" by (simp add: m)
  have g: "get_bool s k \<longleftrightarrow> get_bool result k \<or> (k = (r, a_name a, a_origin a) \<and> b \<and> a_await a \<and> r \<noteq> a_origin a)" for k
    by (auto simp: m get_bool_dict_set)
  have d: "distinct (map fst s) = distinct (map fst result)" by (simp add: m)
  show ?case using Cons.IH [OF s(2)] unfolding k g d p by auto
qed simp

definition route_inv :: "interest_table \<Rightarrow> activation list \<Rightarrow> (route_key \<times> bool) list \<Rightarrow> bool" where
  "route_inv t as result \<longleftrightarrow>
     (\<forall>r n o'. (r, n, o') \<in> fst ` set result \<longleftrightarrow>
        (\<exists>a \<in> set as. a_name a = n \<and> a_origin a = o' \<and> r \<in> fst ` set (table_get t n)))
   \<and> (\<forall>r n o'. get_bool result (r, n, o') \<longleftrightarrow>
        (\<exists>a \<in> set as. a_name a = n \<and> a_origin a = o' \<and> a_await a \<and> (r, True) \<in> set (table_get t n) \<and> r \<noteq> o'))
   \<and> distinct (map fst result)"

lemma route_fold_inv:
  assumes "foldE (route_activation t) [] as = Inr result"
  shows "route_inv t as result \<and> (\<forall>a \<in> set as. trigger_name_ok (a_name a) \<and> digest_ok (a_origin a))"
proof (rule foldE_prefix_invariant [OF assms, where P = "\<lambda>as result. route_inv t as result
      \<and> (\<forall>a \<in> set as. trigger_name_ok (a_name a) \<and> digest_ok (a_origin a))"])
  show "route_inv t [] [] \<and> (\<forall>a \<in> set []. trigger_name_ok (a_name a) \<and> digest_ok (a_origin a))"
    by (simp add: route_inv_def get_bool_def)
next
  fix ys a zs s s'
  assume IH: "route_inv t ys s \<and> (\<forall>a \<in> set ys. trigger_name_ok (a_name a) \<and> digest_ok (a_origin a))"
    and "route_activation t s a = Inr s'"
  then have ok: "trigger_name_ok (a_name a)" "digest_ok (a_origin a)"
    and f: "foldE (route_one a) s (table_get t (a_name a)) = Inr s'"
    by (auto simp: route_activation_def check_activation_def ok_simps)
  from route_ones_map [OF f] IH ok
  show "route_inv t (ys @ [a]) s' \<and> (\<forall>a \<in> set (ys @ [a]). trigger_name_ok (a_name a) \<and> digest_ok (a_origin a))"
    unfolding route_inv_def by auto
qed

lemma fst_image_iff: "k \<in> fst ` set d \<longleftrightarrow> (\<exists>v. (k, v) \<in> set d)"
  by force

lemma get_bool_mem:
  assumes "distinct (map fst d)"
  shows "(k, b) \<in> set d \<longleftrightarrow> k \<in> fst ` set d \<and> get_bool d k = b"
proof -
  have "(k, b) \<in> set d \<longleftrightarrow> map_of d k = Some b" for b using assms by simp
  then show ?thesis unfolding fst_image_iff by (cases "map_of d k") (auto simp: get_bool_def)
qed

lemma route_decides:
  assumes "route as packages = Inr ds" "distinct (map fst packages)"
  shows "d \<in> set ds \<longleftrightarrow>
    (\<exists>a \<in> set as. a_name a = v_name d \<and> a_origin a = v_origin d
       \<and> (\<exists>i. interest_in packages (v_receiver d) i \<and> d_name i = v_name d))
    \<and> (v_await d \<longleftrightarrow> v_receiver d \<noteq> v_origin d \<and> (\<exists>a \<in> set as. a_name a = v_name d \<and> a_origin a = v_origin d
       \<and> a_await a \<and> (\<exists>i. interest_in packages (v_receiver d) i \<and> d_name i = v_name d \<and> d_await i)))"
    "distinct ds" "sorted (map (\<lambda>d. (v_receiver d, v_name d, v_origin d)) ds)"
proof -
  from assms(1) obtain ys result where y: "interests packages = Inr ys"
    and f: "foldE (route_activation (foldl add_interest [] ys)) [] as = Inr result"
    and ds: "ds = map delivery_of (sorted_items result)"
    by (auto simp: route_def bindE_eq_Inr split: if_splits)
  let ?t = "foldl add_interest [] ys"
  have u: "\<forall>(p, d) \<in> set ys. \<forall>(q, e) \<in> set ys. p = q \<and> d_name d = d_name e \<longrightarrow> d = e"
    using interest_unique [OF y assms(2)] by (auto simp: interests_ok(1) [OF y])
  have tab: "(r, b) \<in> set (table_get ?t n) \<longleftrightarrow> (\<exists>i. interest_in packages r i \<and> d_name i = n \<and> d_await i = b)" for r b n
    by (simp only: map_of_eq_Some_iff [OF distinct_table, symmetric] foldl_add_interest [OF u]
        interests_ok(1) [OF y])
  have tabk: "r \<in> fst ` set (table_get ?t n) \<longleftrightarrow> (\<exists>i. interest_in packages r i \<and> d_name i = n)" for r n
    unfolding fst_image_iff tab by blast
  from route_fold_inv [OF f] have inv: "route_inv ?t as result" by blast
  then have dist: "distinct (map fst result)" by (simp add: route_inv_def)
  have mem: "d \<in> set ds \<longleftrightarrow> ((v_receiver d, v_name d, v_origin d), v_await d) \<in> set result"
  proof -
    have "d \<in> set ds \<longleftrightarrow> (\<exists>e \<in> set result. d = delivery_of e)" by (auto simp: ds)
    also have "\<dots> \<longleftrightarrow> ((v_receiver d, v_name d, v_origin d), v_await d) \<in> set result"
      by (force simp: delivery_of_def)
    finally show ?thesis .
  qed
  show "d \<in> set ds \<longleftrightarrow>
    (\<exists>a \<in> set as. a_name a = v_name d \<and> a_origin a = v_origin d
       \<and> (\<exists>i. interest_in packages (v_receiver d) i \<and> d_name i = v_name d))
    \<and> (v_await d \<longleftrightarrow> v_receiver d \<noteq> v_origin d \<and> (\<exists>a \<in> set as. a_name a = v_name d \<and> a_origin a = v_origin d
       \<and> a_await a \<and> (\<exists>i. interest_in packages (v_receiver d) i \<and> d_name i = v_name d \<and> d_await i)))"
    using inv unfolding mem get_bool_mem [OF dist] route_inv_def tab tabk by auto
  have inj: "inj delivery_of" by (auto simp: inj_def delivery_of_def)
  have "distinct (sorted_items result)" using dist by (metis distinct_map distinct_sorted_items)
  then show "distinct ds" using inj by (simp add: ds distinct_map inj_on_subset [OF inj])
  have "map (\<lambda>d. (v_receiver d, v_name d, v_origin d)) ds = map fst (sorted_items result)"
    by (auto simp: ds delivery_of_def)
  then show "sorted (map (\<lambda>d. (v_receiver d, v_name d, v_origin d)) ds)" by simp
qed

section \<open>File activations, characterised\<close>

lemma prefixes_mem: "p \<in> set (prefixes parts) \<longleftrightarrow> (\<exists>n. 0 < n \<and> n \<le> length parts \<and> p = 47 # join_on [47] (take n parts))"
  unfolding prefixes_def set_map set_upt image_iff Bex_def atLeastLessThan_iff
  by (metis One_nat_def Suc_le_eq less_Suc_eq_le)

definition covers :: "pystr \<Rightarrow> pystr \<Rightarrow> bool" where
  "covers trigger path \<longleftrightarrow> trigger = u ''/'' \<or>
     (\<exists>n. 0 < n \<and> n \<le> length (split_on 47 path) \<and> trigger = 47 # join_on [47] (take n (split_on 47 path)))"

lemma file_steps_ok:
  assumes "foldE (file_step wanted) (m0, n0) paths = Inr (m, n)"
  shows "set m = set m0 \<union> {t \<in> set wanted. \<exists>p \<in> set paths. covers t p}
    \<and> (\<forall>p \<in> set paths. relative_ok p \<and> length (split_on 47 p) \<le> 64)"
  using assms
proof (induction paths arbitrary: m0 n0)
  case (Cons p paths)
  from Cons.prems obtain m1 n1 where s: "file_step wanted (m0, n0) p = Inr (m1, n1)"
    "foldE (file_step wanted) (m1, n1) paths = Inr (m, n)" by (auto simp: bindE_eq_Inr)
  then have p: "relative_ok p" "length (split_on 47 p) \<le> 64"
    and m1: "m1 = (if [47] \<in> set wanted then m0 @ [[47]] else m0) @ filter (\<lambda>q. q \<in> set wanted) (prefixes (split_on 47 p))"
    by (auto simp: file_step_def ok_simps Let_def split: if_splits)
  have "set m1 = set m0 \<union> {t \<in> set wanted. covers t p}"
    unfolding m1 covers_def by (auto simp: prefixes_mem u_def)
  then show ?case using Cons.IH [OF s(2)] p by auto
qed simp

lemma mapE_check:
  assumes "mapE (\<lambda>x. bindE (chk (f x)) (\<lambda>_. Inr (f x))) xs = Inr ys"
  shows "ys = map f xs \<and> (\<forall>x \<in> set xs. \<exists>y. chk (f x) = Inr y)"
  using assms by (induction xs arbitrary: ys) (auto simp: bindE_eq_Inr)

lemma check_activation_ok [ok_simps]:
  "check_activation a = Inr y \<longleftrightarrow> trigger_name_ok (a_name a) \<and> digest_ok (a_origin a)"
  by (auto simp: check_activation_def ok_simps)

lemma file_decides:
  assumes "file_activations origin paths packages = Inr as"
  shows "a \<in> set as \<longleftrightarrow> a_origin a = origin \<and> a_await a \<and> startswith (a_name a) [47]
      \<and> (\<exists>p i. interest_in packages p i \<and> d_name i = a_name a) \<and> (\<exists>path \<in> set paths. covers (a_name a) path)"
    "distinct as" "sorted (map a_name as)"
proof -
  from assms obtain ys m n where y: "interests packages = Inr ys"
    and f: "foldE (file_step (filter (\<lambda>n. startswith n [47]) (map (\<lambda>(_, d). d_name d) ys))) ([], 0) paths = Inr (m, n)"
    and a: "mapE (\<lambda>name. let a = \<lparr>a_name = name, a_origin = origin, a_await = True\<rparr> in
               bindE (check_activation a) (\<lambda>_. Inr a)) (sorted_set m) = Inr as"
    by (auto simp: file_activations_def bindE_eq_Inr Let_def split: if_splits)
  from a have as: "as = map (\<lambda>name. \<lparr>a_name = name, a_origin = origin, a_await = True\<rparr>) (sorted_set m)"
    using mapE_check [of check_activation "\<lambda>name. \<lparr>a_name = name, a_origin = origin, a_await = True\<rparr>"]
    unfolding Let_def by blast
  have w: "t \<in> set (filter (\<lambda>n. startswith n [47]) (map (\<lambda>(_, d). d_name d) ys)) \<longleftrightarrow>
      startswith t [47] \<and> (\<exists>p i. interest_in packages p i \<and> d_name i = t)" for t
    using interests_ok(1) [OF y] by (force simp del: startswith_Cons)
  have m: "t \<in> set m \<longleftrightarrow> startswith t [47] \<and> (\<exists>p i. interest_in packages p i \<and> d_name i = t)
      \<and> (\<exists>path \<in> set paths. covers t path)" for t
    using file_steps_ok [OF f] w [of t] by auto
  show "a \<in> set as \<longleftrightarrow> a_origin a = origin \<and> a_await a \<and> startswith (a_name a) [47]
      \<and> (\<exists>p i. interest_in packages p i \<and> d_name i = a_name a) \<and> (\<exists>path \<in> set paths. covers (a_name a) path)"
  proof -
    have "a \<in> set as \<longleftrightarrow> a_name a \<in> set m \<and> a_origin a = origin \<and> a_await a"
      by (cases a) (auto simp: as)
    then show ?thesis unfolding m by blast
  qed
  show "distinct as" by (auto simp: as distinct_map inj_on_def)
  have "map a_name as = sorted_set m" by (auto simp: as intro: map_idI)
  then show "sorted (map a_name as)" by simp
qed

section \<open>Activations of a state change, characterised\<close>

lemma coalesce_fold:
  "fst ` set (foldl coalesce names ds) = fst ` set names \<union> d_name ` {d \<in> set ds. d_kind d = Activate}"
  "get_bool (foldl coalesce names ds) n \<longleftrightarrow> get_bool names n \<or> (\<exists>d \<in> set ds. d_kind d = Activate \<and> d_name d = n \<and> d_await d)"
  "distinct (map fst names) \<Longrightarrow> distinct (map fst (foldl coalesce names ds))"
proof (induction ds arbitrary: names)
  case (Cons d ds)
  { case 1
    show ?case using Cons.IH(1) [of "coalesce names d"] by (auto simp: coalesce_def)
  next
    case 2
    show ?case using Cons.IH(2) [of "coalesce names d"] by (auto simp: coalesce_def get_bool_dict_set)
  next
    case 3
    then show ?case using Cons.IH(3) [of "coalesce names d"] by (simp add: coalesce_def) }
qed simp_all

lemma state_decides:
  assumes "state_activations origin operation before after = Inr as"
  shows "a \<in> set as \<longleftrightarrow> a_origin a = origin \<and> operation \<in> set STATE_OPERATIONS
      \<and> (\<exists>d \<in> set before \<union> set after. d_kind d = Activate \<and> d_name d = a_name a)
      \<and> (a_await a \<longleftrightarrow> (\<exists>d \<in> set before \<union> set after. d_kind d = Activate \<and> d_name d = a_name a \<and> d_await d))"
    "distinct (map a_name as)" "sorted (map a_name as)"
proof -
  have ops: "operation \<in> set NO_ACTIVATION_OPERATIONS \<Longrightarrow> operation \<notin> set STATE_OPERATIONS"
    by (auto simp: NO_ACTIVATION_OPERATIONS_def STATE_OPERATIONS_def)
  have op: "operation \<in> set STATE_OPERATIONS \<or> operation \<in> set NO_ACTIVATION_OPERATIONS"
    and un: "after = [] \<or> operation = u ''unpack''"
    using assms by (auto simp: state_activations_def bindE_eq_Inr split: if_splits)
  have "(\<forall>a. a \<in> set as \<longleftrightarrow> a_origin a = origin \<and> operation \<in> set STATE_OPERATIONS
      \<and> (\<exists>d \<in> set before \<union> set after. d_kind d = Activate \<and> d_name d = a_name a)
      \<and> (a_await a \<longleftrightarrow> (\<exists>d \<in> set before \<union> set after. d_kind d = Activate \<and> d_name d = a_name a \<and> d_await d)))
      \<and> distinct (map a_name as) \<and> sorted (map a_name as)"
  proof (cases "operation \<in> set NO_ACTIVATION_OPERATIONS")
    case True
    with assms have "as = []" by (auto simp: state_activations_def bindE_eq_Inr split: if_splits)
    with True ops show ?thesis by simp
  next
    case False
    let ?ds = "if operation = u ''unpack'' then before @ after else before"
    let ?f = "\<lambda>e. \<lparr>a_name = fst e, a_origin = origin, a_await = snd e\<rparr>"
    let ?n = "foldl coalesce [] ?ds"
    from assms False have "mapE (\<lambda>(n, mode). let a = \<lparr>a_name = n, a_origin = origin, a_await = mode\<rparr> in
             bindE (check_activation a) (\<lambda>_. Inr a)) (sorted_items ?n) = Inr as"
      by (auto simp: state_activations_def bindE_eq_Inr Let_def split: if_splits)
    then have "mapE (\<lambda>e. bindE (check_activation (?f e)) (\<lambda>_. Inr (?f e))) (sorted_items ?n) = Inr as"
      by (simp add: case_prod_unfold Let_def)
    then have as: "as = map ?f (sorted_items ?n)" using mapE_check [of check_activation ?f] by blast
    have d: "distinct (map fst ?n)" by (rule coalesce_fold(3)) simp
    have ds: "set ?ds = set before \<union> set after" using un by auto
    have m1: "a \<in> set as \<longleftrightarrow> a_origin a = origin \<and> (a_name a, a_await a) \<in> set ?n" for a
      by (cases a) (force simp: as)
    have m2: "(a_name a, a_await a) \<in> set ?n \<longleftrightarrow>
        (\<exists>d \<in> set ?ds. d_kind d = Activate \<and> d_name d = a_name a)
      \<and> (a_await a \<longleftrightarrow> (\<exists>d \<in> set ?ds. d_kind d = Activate \<and> d_name d = a_name a \<and> d_await d))" for a
      unfolding get_bool_mem [OF d] coalesce_fold by (force simp: get_bool_def)
    have m3: "map a_name as = map fst (sorted_items ?n)" by (simp add: as)
    have dn: "distinct (map a_name as)" "sorted (map a_name as)"
      unfolding m3 using d by (simp_all only: distinct_sorted_items sorted_items_sorted)
    show ?thesis using op False dn unfolding m1 m2 ds by blast
  qed
  then show "a \<in> set as \<longleftrightarrow> a_origin a = origin \<and> operation \<in> set STATE_OPERATIONS
      \<and> (\<exists>d \<in> set before \<union> set after. d_kind d = Activate \<and> d_name d = a_name a)
      \<and> (a_await a \<longleftrightarrow> (\<exists>d \<in> set before \<union> set after. d_kind d = Activate \<and> d_name d = a_name a \<and> d_await d))"
    "distinct (map a_name as)" "sorted (map a_name as)" by blast+
qed

section \<open>The batch view, characterised\<close>

definition rel_of :: "string_sets \<Rightarrow> (pystr \<times> pystr) set" where
  "rel_of d = {(k, v). \<exists>vs. (k, vs) \<in> set d \<and> v \<in> set vs}"

lemma rel_of_map: "distinct (map fst d) \<Longrightarrow> (k, v) \<in> rel_of d \<longleftrightarrow> (\<exists>vs. map_of d k = Some vs \<and> v \<in> set vs)"
  by (simp add: rel_of_def)

lemma rel_of_add_to: "distinct (map fst d) \<Longrightarrow> rel_of (add_to k v d) = insert (k, v) (rel_of d)"
proof -
  assume d: "distinct (map fst d)"
  then have d': "distinct (map fst (add_to k v d))" by (simp add: add_to_def)
  have "(a, b) \<in> rel_of (add_to k v d) \<longleftrightarrow> (a, b) \<in> insert (k, v) (rel_of d)" for a b
    unfolding insert_iff rel_of_map [OF d] rel_of_map [OF d'] by (auto simp: add_to_def split: option.splits)
  then show ?thesis by auto
qed

lemma distinct_add_to [simp]: "distinct (map fst (add_to k v d)) \<longleftrightarrow> distinct (map fst d)"
  by (simp add: add_to_def)

definition delivery_ok :: "delivery \<Rightarrow> bool" where
  "delivery_ok d \<longleftrightarrow> digest_ok (v_receiver d) \<and> digest_ok (v_origin d) \<and> trigger_name_ok (v_name d)
     \<and> (v_await d \<longrightarrow> v_origin d \<noteq> v_receiver d)"

lemma pending_step_eq: "pending_step (r, w) d = Inr st \<longleftrightarrow> delivery_ok d
    \<and> st = (add_to (v_receiver d) (v_name d) r, if v_await d then add_to (v_origin d) (v_receiver d) w else w)"
  by (auto simp: pending_step_def delivery_ok_def ok_simps)

lemma pending_fold:
  assumes "foldE pending_step (r, w) ds = Inr (r', w')" "distinct (map fst r)" "distinct (map fst w)"
  shows "(\<forall>d \<in> set ds. delivery_ok d) \<and> distinct (map fst r') \<and> distinct (map fst w')
    \<and> rel_of r' = rel_of r \<union> (\<lambda>d. (v_receiver d, v_name d)) ` set ds
    \<and> rel_of w' = rel_of w \<union> (\<lambda>d. (v_origin d, v_receiver d)) ` {d \<in> set ds. v_await d}"
  using assms
proof (induction ds arbitrary: r w)
  case (Cons d ds)
  let ?w = "if v_await d then add_to (v_origin d) (v_receiver d) w else w"
  from Cons.prems(1) have d: "delivery_ok d"
    and f: "foldE pending_step (add_to (v_receiver d) (v_name d) r, ?w) ds = Inr (r', w')"
    by (auto simp: pending_step_eq bindE_eq_Inr)
  have "distinct (map fst ?w)" using Cons.prems(3) by simp
  from Cons.IH [OF f _ this] Cons.prems(2,3) d show ?case by (auto simp: rel_of_add_to)
qed simp

lemma rel_of_sorted_sets: "rel_of (sorted_sets d) = rel_of d"
proof -
  have "(a, b) \<in> rel_of (sorted_sets d) \<longleftrightarrow> (a, b) \<in> rel_of d" for a b
    by (force simp: rel_of_def sorted_sets_def image_iff)
  then show ?thesis by auto
qed

lemma pending_decides:
  assumes "pending ds = Inr v"
  shows "(\<forall>d \<in> set ds. delivery_ok d) \<and> rel_of (bv_pending v) = (\<lambda>d. (v_receiver d, v_name d)) ` set ds
    \<and> rel_of (bv_awaited v) = (\<lambda>d. (v_origin d, v_receiver d)) ` {d \<in> set ds. v_await d}"
proof -
  from assms obtain r w where f: "foldE pending_step ([], []) ds = Inr (r, w)"
    and v: "v = \<lparr>bv_pending = sorted_sets r, bv_awaited = sorted_sets w\<rparr>"
    by (auto simp: pending_def bindE_eq_Inr split: if_splits)
  from pending_fold [OF f] show ?thesis by (simp add: v rel_of_sorted_sets) (simp add: rel_of_def)
qed

lemma pending_succeeds:
  assumes "length ds \<le> MAX_ROUTES" "\<forall>d \<in> set ds. delivery_ok d"
  shows "is_ok (pending ds)"
proof -
  have "\<exists>r' w'. foldE pending_step (r, w) ds = Inr (r', w')" for r w
    using assms(2)
  proof (induction ds arbitrary: r w)
    case (Cons d ds)
    then have "pending_step (r, w) d = Inr (add_to (v_receiver d) (v_name d) r,
       if v_await d then add_to (v_origin d) (v_receiver d) w else w)" by (simp add: pending_step_eq)
    with Cons show ?case by simp
  qed simp
  then obtain r w where "foldE pending_step ([], []) ds = Inr (r, w)" by blast
  with assms(1) show ?thesis by (simp add: pending_def)
qed

section \<open>What the declarations of a file are\<close>

text \<open>The directive a line declares: its two words, outside the comment.\<close>

definition line_declares :: "pystr \<Rightarrow> directive \<Rightarrow> bool" where
  "line_declares line d \<longleftrightarrow> (\<exists>keyword k await. words (comment_free line) = [keyword, d_name d]
     \<and> map_of DIRECTIVES keyword = Some (k, await) \<and> d = \<lparr>d_kind = k, d_name = d_name d, d_await = await\<rparr>)"

definition rows_inv :: "pystr list \<Rightarrow> rows \<Rightarrow> bool" where
  "rows_inv lines rows \<longleftrightarrow> distinct (map fst rows)
     \<and> (\<forall>(k, d) \<in> set rows. k = (d_kind d, d_name d) \<and> trigger_name_ok (d_name d))
     \<and> snd ` set rows = {d. \<exists>l \<in> set lines. line_declares l d}"

lemma words_empty_line: "comment_free line = [] \<Longrightarrow> \<not> line_declares line d"
  by (simp add: line_declares_def words_Nil)

lemma dict_set_same: "map_of d k = Some v \<Longrightarrow> dict_set k v d = d"
  by (induction k v d rule: dict_set.induct) (auto split: if_splits)

lemma parse_line_ok:
  assumes "parse_line (rows, n) line = Inr (rows', n')"
  shows "(rows' = rows \<and> (\<forall>d. \<not> line_declares line d)) \<or>
     (\<exists>d. (\<forall>e. line_declares line e \<longleftrightarrow> e = d) \<and> trigger_name_ok (d_name d)
        \<and> map_of rows (d_kind d, d_name d) \<in> {None, Some d} \<and> rows' = dict_set (d_kind d, d_name d) d rows)"
proof (cases "comment_free line = []")
  case True
  with assms show ?thesis by (auto simp: parse_line_def Let_def words_empty_line split: if_splits)
next
  case False
  with assms obtain keyword name k await where w: "words (comment_free line) = [keyword, name]"
    and m: "map_of DIRECTIVES keyword = Some (k, await)"
    by (auto simp: parse_line_def Let_def split: if_splits list.splits option.splits)
  let ?d = "\<lparr>d_kind = k, d_name = name, d_await = await\<rparr>"
  have u: "line_declares line e \<longleftrightarrow> e = ?d" for e
    by (cases e) (auto simp: line_declares_def w m)
  from assms False have "trigger_name_ok name" "map_of rows (k, name) \<in> {None, Some ?d}"
    "rows' = dict_set (k, name) ?d rows"
    by (auto simp: parse_line_def Let_def w m check_directive_def ok_simps split: if_splits)
  with u show ?thesis by auto
qed

lemma parse_lines_inv:
  assumes "foldE parse_line ([], 0) lines = Inr (rows, n)"
  shows "rows_inv lines rows"
proof -
  have "rows_inv lines (fst (rows, n))"
  proof (rule foldE_prefix_invariant [OF assms, where P = "\<lambda>ls st. rows_inv ls (fst st)"])
    show "rows_inv [] (fst ([], 0))" by (simp add: rows_inv_def)
  next
    fix ys x zs s s'
    assume IH: "rows_inv ys (fst s)" and step: "parse_line s x = Inr s'"
    obtain r k r' k' where s: "s = (r, k)" "s' = (r', k')" by (cases s; cases s') auto
    from parse_line_ok [OF step [unfolded s]] show "rows_inv (ys @ [x]) (fst s')"
    proof
      assume "r' = r \<and> (\<forall>d. \<not> line_declares x d)"
      with IH show ?thesis by (auto simp: rows_inv_def s)
    next
      assume "\<exists>d. (\<forall>e. line_declares x e \<longleftrightarrow> e = d) \<and> trigger_name_ok (d_name d)
        \<and> map_of r (d_kind d, d_name d) \<in> {None, Some d} \<and> r' = dict_set (d_kind d, d_name d) d r"
      then obtain d where d: "\<And>e. line_declares x e \<longleftrightarrow> e = d" "trigger_name_ok (d_name d)"
        "map_of r (d_kind d, d_name d) \<in> {None, Some d}" "r' = dict_set (d_kind d, d_name d) d r" by blast
      let ?k = "(d_kind d, d_name d)"
      have "set r' = insert (?k, d) (set r)"
      proof (cases "map_of r ?k")
        case None
        then have "?k \<notin> fst ` set r" by (simp add: map_of_eq_None_iff)
        then have "r' = r @ [(?k, d)]" unfolding d(4)
          by (induction r) auto
        then show ?thesis by auto
      next
        case (Some e)
        with d(3) have "map_of r ?k = Some d" by auto
        from dict_set_same [OF this] map_of_SomeD [OF this] show ?thesis by (auto simp: d(4))
      qed
      then have "snd ` set r' = insert d (snd ` set r)"
        "\<forall>(k, e) \<in> set r'. k = (d_kind e, d_name e) \<and> trigger_name_ok (d_name e)"
        using IH d(2) by (auto simp: rows_inv_def s)
      moreover have "distinct (map fst r')" using IH by (simp add: rows_inv_def s d(4))
      moreover have "{e. \<exists>l \<in> set (ys @ [x]). line_declares l e} = insert d {e. \<exists>l \<in> set ys. line_declares l e}"
        using d(1) by auto
      ultimately show ?thesis using IH by (simp add: rows_inv_def s)
    qed
  qed
  then show ?thesis by simp
qed

lemma directive_key_inj: "directive_key d = directive_key e \<Longrightarrow> d = e"
  by (cases d; cases e) (auto simp: directive_key_def split: kind.splits)

lemma parse_decides:
  assumes "parse raw = Inr ds"
  shows "\<exists>text. utf8_decode raw = Some text \<and> set ds = {d. \<exists>l \<in> set (split_on 10 text). line_declares l d}"
    "distinct ds" "sorted (map directive_key ds)" "consistent ds" "\<forall>d \<in> set ds. trigger_name_ok (d_name d)"
proof -
  from assms obtain tx rows n where t: "utf8_decode raw = Some tx"
    and f: "foldE parse_line ([], 0) (split_on 10 tx) = Inr (rows, n)"
    and ds: "ds = sort_key directive_key (map snd rows)"
    by (auto simp: parse_def bindE_eq_Inr split: if_splits option.splits)
  from parse_lines_inv [OF f] have inv: "distinct (map fst rows)"
    "\<forall>(k, d) \<in> set rows. k = (d_kind d, d_name d) \<and> trigger_name_ok (d_name d)"
    "snd ` set rows = {d. \<exists>l \<in> set (split_on 10 tx). line_declares l d}" by (auto simp: rows_inv_def)
  show "\<exists>text. utf8_decode raw = Some text \<and> set ds = {d. \<exists>l \<in> set (split_on 10 text). line_declares l d}"
    using t inv(3) by (simp add: ds)
  have "map fst rows = map (\<lambda>d. (d_kind d, d_name d)) (map snd rows)" using inv(2) by auto
  with inv(1) have dk: "distinct (map (\<lambda>d. (d_kind d, d_name d)) (map snd rows))" by simp
  then show "distinct ds" unfolding ds distinct_sort by (simp only: distinct_map)
  show "sorted (map directive_key ds)" by (simp add: ds)
  have "inj_on (\<lambda>d. (d_kind d, d_name d)) (set ds)" using dk by (simp only: ds set_sort distinct_map)
  then show "consistent ds" by (auto simp: consistent_def inj_on_def)
  show "\<forall>d \<in> set ds. trigger_name_ok (d_name d)" using inv(2) by (auto simp: ds)
qed


section \<open>Properties\<close>

text \<open>A trigger file parses to the directives its lines declare, without duplicates and in order:
  comments and blank lines declare nothing, every other line declares one directive, every
  name is well formed, and no kind and name is declared in two modes.\<close>

theorem trigger_parse_exact:
  assumes "parse raw = Inr ds"
  shows "\<exists>decl. utf8_decode raw = Some decl
    \<and> set ds = {d. \<exists>line \<in> set (split_on 10 decl). line_declares line d}
    \<and> distinct ds \<and> sorted (map directive_key ds) \<and> consistent ds
    \<and> (\<forall>d \<in> set ds. trigger_name_ok (d_name d))"
  using parse_decides [OF assms] by blast

definition example_triggers :: pybytes where
  "example_triggers = bs ''# lib'' @ [10] @ bs ''interest-noawait /usr/lib'' @ [10, 10]
     @ bs ''activate ldconfig # cache'' @ [10]"

theorem trigger_parse_exact_witness:
  "parse example_triggers = Inr [\<lparr>d_kind = Activate, d_name = u ''ldconfig'', d_await = True\<rparr>,
       \<lparr>d_kind = Interest, d_name = u ''/usr/lib'', d_await = False\<rparr>]
   \<and> consistent [\<lparr>d_kind = Activate, d_name = u ''ldconfig'', d_await = True\<rparr>,
       \<lparr>d_kind = Interest, d_name = u ''/usr/lib'', d_await = False\<rparr>]"
proof -
  have p: "parse example_triggers = Inr [\<lparr>d_kind = Activate, d_name = u ''ldconfig'', d_await = True\<rparr>,
       \<lparr>d_kind = Interest, d_name = u ''/usr/lib'', d_await = False\<rparr>]" by code_simp
  from trigger_parse_exact [OF p] p show ?thesis by blast
qed

text \<open>The activations of a lifecycle step: exactly the names activated by the package's
  declarations (the old and the new ones on unpack), once each; one of them waits exactly when
  some declaration of it waits, so a noawait request never clears an await; the operations
  that process triggers activate nothing.\<close>

theorem state_activations_exact:
  assumes "state_activations origin operation before after = Inr as"
  shows "distinct (map a_name as) \<and> sorted (map a_name as) \<and> (\<forall>a. a \<in> set as \<longleftrightarrow>
      a_origin a = origin \<and> operation \<in> set STATE_OPERATIONS
      \<and> (\<exists>d \<in> set before \<union> set after. d_kind d = Activate \<and> d_name d = a_name a)
      \<and> (a_await a \<longleftrightarrow> (\<exists>d \<in> set before \<union> set after. d_kind d = Activate \<and> d_name d = a_name a \<and> d_await d)))"
  using state_decides [OF assms] by blast

definition hash_a :: pystr where "hash_a = replicate 64 97"
definition hash_b :: pystr where "hash_b = replicate 64 98"

theorem state_activations_exact_witness:
  "state_activations hash_a (u ''unpack'') [\<lparr>d_kind = Activate, d_name = u ''x'', d_await = True\<rparr>]
     [\<lparr>d_kind = Activate, d_name = u ''x'', d_await = False\<rparr>]
     = Inr [\<lparr>a_name = u ''x'', a_origin = hash_a, a_await = True\<rparr>]
   \<and> sorted (map a_name [\<lparr>a_name = u ''x'', a_origin = hash_a, a_await = True\<rparr>])"
proof -
  have r: "state_activations hash_a (u ''unpack'') [\<lparr>d_kind = Activate, d_name = u ''x'', d_await = True\<rparr>]
     [\<lparr>d_kind = Activate, d_name = u ''x'', d_await = False\<rparr>]
     = Inr [\<lparr>a_name = u ''x'', a_origin = hash_a, a_await = True\<rparr>]" by code_simp
  from state_activations_exact [OF r] r show ?thesis by blast
qed

text \<open>A batch of changed files activates exactly the file triggers some package is interested
  in that are the root or a directory prefix (or the path itself), component by component, of a
  changed path; each is activated once and waits.\<close>

theorem file_activations_exact:
  assumes "file_activations origin paths packages = Inr as"
  shows "distinct as \<and> sorted (map a_name as) \<and> (\<forall>a. a \<in> set as \<longleftrightarrow>
      a_origin a = origin \<and> a_await a \<and> startswith (a_name a) (u ''/'')
      \<and> (\<exists>p i. interest_in packages p i \<and> d_name i = a_name a) \<and> (\<exists>path \<in> set paths. covers (a_name a) path))"
proof -
  have "u ''/'' = [47]" by (simp add: u_def)
  then show ?thesis using file_decides [OF assms] by simp
qed

definition example_packages :: packages where
  "example_packages = [(hash_b, [\<lparr>d_kind = Interest, d_name = u ''/usr/lib'', d_await = True\<rparr>]),
     (hash_a, [\<lparr>d_kind = Interest, d_name = u ''/usr/lib'', d_await = True\<rparr>,
               \<lparr>d_kind = Interest, d_name = u ''/usr/li'', d_await = True\<rparr>])]"

theorem file_activations_exact_witness:
  "file_activations hash_a [u ''usr/lib/x.so''] example_packages
     = Inr [\<lparr>a_name = u ''/usr/lib'', a_origin = hash_a, a_await = True\<rparr>]
   \<and> distinct [\<lparr>a_name = u ''/usr/lib'', a_origin = hash_a, a_await = True\<rparr>]"
proof -
  have r: "file_activations hash_a [u ''usr/lib/x.so''] example_packages
     = Inr [\<lparr>a_name = u ''/usr/lib'', a_origin = hash_a, a_await = True\<rparr>]" by code_simp
  from file_activations_exact [OF r] r show ?thesis by blast
qed

text \<open>C4: Routing delivers exactly the activations to the packages interested in their name, once
  for each receiver, name and origin, in order; a delivery waits exactly when the receiver is
  not its own origin and some activation of that name and origin waits for an interest that
  waits. So no package awaits itself, and a noawait activation or interest never makes one
  wait or stops another from waiting.\<close>

theorem route_exact:
  assumes "route as packages = Inr ds" "distinct (map fst packages)"
  shows "distinct ds \<and> sorted (map (\<lambda>d. (v_receiver d, v_name d, v_origin d)) ds) \<and> (\<forall>d. d \<in> set ds \<longleftrightarrow>
    (\<exists>a \<in> set as. a_name a = v_name d \<and> a_origin a = v_origin d
       \<and> (\<exists>i. interest_in packages (v_receiver d) i \<and> d_name i = v_name d))
    \<and> (v_await d \<longleftrightarrow> v_receiver d \<noteq> v_origin d \<and> (\<exists>a \<in> set as. a_name a = v_name d \<and> a_origin a = v_origin d
       \<and> a_await a \<and> (\<exists>i. interest_in packages (v_receiver d) i \<and> d_name i = v_name d \<and> d_await i))))"
  using route_decides [OF assms] by blast

theorem route_exact_witness:
  "route [\<lparr>a_name = u ''/usr/lib'', a_origin = hash_a, a_await = True\<rparr>] example_packages
     = Inr [\<lparr>v_receiver = hash_a, v_name = u ''/usr/lib'', v_origin = hash_a, v_await = False\<rparr>,
            \<lparr>v_receiver = hash_b, v_name = u ''/usr/lib'', v_origin = hash_a, v_await = True\<rparr>]
   \<and> distinct [\<lparr>v_receiver = hash_a, v_name = u ''/usr/lib'', v_origin = hash_a, v_await = False\<rparr>,
            \<lparr>v_receiver = hash_b, v_name = u ''/usr/lib'', v_origin = hash_a, v_await = True\<rparr>]"
proof -
  have r: "route [\<lparr>a_name = u ''/usr/lib'', a_origin = hash_a, a_await = True\<rparr>] example_packages
     = Inr [\<lparr>v_receiver = hash_a, v_name = u ''/usr/lib'', v_origin = hash_a, v_await = False\<rparr>,
            \<lparr>v_receiver = hash_b, v_name = u ''/usr/lib'', v_origin = hash_a, v_await = True\<rparr>]" by code_simp
  have d: "distinct (map fst example_packages)" by code_simp
  from route_exact [OF r d] r show ?thesis by blast
qed

end
