(* ===== verification/Debian_Trigger_State.thy ===== *)
theory Debian_Trigger_State
  imports Debian_Triggers
begin

text \<open>
  \<open>tools/debian_trigger_state.py\<close>: the bounded state of deferred triggers (what is pending,
  who awaits whom, which handler runs), its transitions \<open>activate\<close>, \<open>start\<close> and
  \<open>observe_success\<close>, and its checkpoint encoding. A completed handler releases exactly the
  waiters of the packages that have settled, which \<open>settled\<close> defines inductively.
\<close>

section \<open>The state and its validation\<close>

definition MAX_STATE_BYTES :: nat where
  "MAX_STATE_BYTES = 16 * 1024 * 1024"

definition SCHEMA :: pystr where
  "SCHEMA = u ''org.niaos.trigger-state-reference/v1''"

text \<open>
  The constructors validate values of any type (\<open>decode\<close> calls them on parsed JSON), so they
  are functions from \<open>pyval\<close>s to the typed tuples.
\<close>

definition pair_of :: "bool \<Rightarrow> pyval list \<Rightarrow> (pystr \<times> pystr) res" where
  "pair_of names row = (case row of
       [a, b] \<Rightarrow> bindE (digest a) (\<lambda>x. bindE (if names then trigger_name_val b else digest b) (\<lambda>y.
          if \<not> names \<and> x = y then invalid ''self-awaiting trigger'' else Inr (x, y)))
     | _ \<Rightarrow> invalid ''trigger state pair shape'')"

definition pairs_of :: "bool \<Rightarrow> nat \<Rightarrow> pyval list list \<Rightarrow> (pystr \<times> pystr) list res" where
  "pairs_of names limit rows =
     (if length rows > limit then invalid ''trigger state table bound''
      else bindE (mapE (pair_of names) rows) (\<lambda>pairs.
        if pairs \<noteq> sorted_set pairs then invalid ''trigger state table is not canonical'' else Inr pairs))"

record running =
  r_receiver :: pystr
  r_names :: "pystr list"
  r_started :: int

definition running_of :: "pyval \<Rightarrow> pyval list \<Rightarrow> pyval \<Rightarrow> running res" where
  "running_of receiver names started =
     bindE (digest receiver) (\<lambda>r.
     bindE (integer started 1 MAX_INT64 ''integer'') (\<lambda>n.
       if names = [] \<or> length names > MAX_EVENTS then invalid ''active trigger name bound''
       else bindE (mapE trigger_name_val names) (\<lambda>ns.
         if ns \<noteq> sorted_set ns then invalid ''active trigger names are not canonical''
         else Inr \<lparr>r_receiver = r, r_names = ns, r_started = n\<rparr>)))"

record tstate =
  s_binding :: pystr
  s_revision :: int
  s_pending :: "(pystr \<times> pystr) list"
  s_awaited :: "(pystr \<times> pystr) list"
  s_running :: "running option"

definition outstanding :: "(pystr \<times> pystr) list \<Rightarrow> (pystr \<times> pystr) list \<Rightarrow> running option \<Rightarrow> pystr list" where
  "outstanding pend awaited run =
     map fst pend @ map fst awaited @ (case run of None \<Rightarrow> [] | Some r \<Rightarrow> [r_receiver r])"

definition check_running :: "running \<Rightarrow> unit res" where
  "check_running r = bindE (running_of (PStr (r_receiver r)) (map PStr (r_names r)) (PInt (r_started r))) (\<lambda>_. Inr ())"

definition state_of :: "pyval \<Rightarrow> pyval \<Rightarrow> pyval list list \<Rightarrow> pyval list list \<Rightarrow> running option \<Rightarrow> tstate res" where
  "state_of binding revision pend awaited run =
     bindE (digest binding) (\<lambda>b.
     bindE (integer revision 0 MAX_INT64 ''integer'') (\<lambda>n.
     bindE (pairs_of True MAX_EVENTS pend) (\<lambda>ps.
     bindE (pairs_of False MAX_ROUTES awaited) (\<lambda>ws.
     bindE (case run of None \<Rightarrow> Inr ()
            | Some r \<Rightarrow> bindE (check_running r) (\<lambda>_.
                if r_started r > n then invalid ''active trigger revision is in the future'' else Inr ())) (\<lambda>_.
       if list_ex (\<lambda>(_, receiver). receiver \<notin> set (outstanding ps ws run)) ws
       then invalid ''awaited receiver has no outstanding trigger work''
       else if n = 0 \<and> (ps \<noteq> [] \<or> ws \<noteq> [] \<or> run \<noteq> None)
       then invalid ''initial trigger state is not empty''
       else Inr \<lparr>s_binding = b, s_revision = n, s_pending = ps, s_awaited = ws, s_running = run\<rparr>)))))"

definition pair_vals :: "(pystr \<times> pystr) list \<Rightarrow> pyval list list" where
  "pair_vals ps = map (\<lambda>(a, b). [PStr a, PStr b]) ps"

text \<open>\<open>State(...)\<close> on typed values, and \<open>state.__post_init__()\<close>.\<close>

definition make_state :: "pystr \<Rightarrow> int \<Rightarrow> (pystr \<times> pystr) list \<Rightarrow> (pystr \<times> pystr) list \<Rightarrow> running option \<Rightarrow> tstate res" where
  "make_state b n ps ws run = state_of (PStr b) (PInt n) (pair_vals ps) (pair_vals ws) run"

definition check_state :: "tstate \<Rightarrow> unit res" where
  "check_state s = bindE (make_state (s_binding s) (s_revision s) (s_pending s) (s_awaited s) (s_running s)) (\<lambda>_. Inr ())"

definition next_revision :: "tstate \<Rightarrow> int res" where
  "next_revision s = bindE (check_state s) (\<lambda>_.
     if s_revision s = MAX_INT64 then invalid ''trigger state revision exhausted'' else Inr (s_revision s + 1))"

section \<open>The checkpoint encoding\<close>

definition pair_val :: "pystr \<times> pystr \<Rightarrow> pyval" where
  "pair_val p = PList [PStr (fst p), PStr (snd p)]"

definition running_val :: "running option \<Rightarrow> pyval" where
  "running_val run = (case run of None \<Rightarrow> PNone
     | Some r \<Rightarrow> PDict [(u ''receiver'', PStr (r_receiver r)), (u ''names'', PList (map PStr (r_names r))),
                       (u ''started_revision'', PInt (r_started r))])"

definition state_val :: "tstate \<Rightarrow> pyval" where
  "state_val s = PDict [(u ''schema'', PStr SCHEMA), (u ''binding'', PStr (s_binding s)),
     (u ''revision'', PInt (s_revision s)), (u ''pending'', PList (map pair_val (s_pending s))),
     (u ''awaited'', PList (map pair_val (s_awaited s))), (u ''running'', running_val (s_running s)),
     (u ''execution_permit'', PBool False)]"

definition size_step :: "nat \<Rightarrow> pyval \<Rightarrow> nat res" where
  "size_step acc row = (let n = acc + length (canonical row) + 1 in
     if n > MAX_STATE_BYTES then invalid ''trigger state byte limit'' else Inr n)"

definition encode :: "tstate \<Rightarrow> pybytes res" where
  "encode s = bindE (check_state s) (\<lambda>_.
     bindE (foldE size_step 512 (map pair_val (s_pending s) @ map pair_val (s_awaited s)
        @ (case s_running s of None \<Rightarrow> [] | Some r \<Rightarrow> map PStr (r_names r)))) (\<lambda>_.
       let raw = canonical (state_val s) in
       if length raw > MAX_STATE_BYTES then invalid ''trigger state byte limit'' else Inr raw))"

definition STATE_KEYS :: "string list" where
  "STATE_KEYS = [''schema'', ''binding'', ''revision'', ''pending'', ''awaited'', ''running'', ''execution_permit'']"

definition table_rows :: "pyval \<Rightarrow> string \<Rightarrow> nat \<Rightarrow> pyval list list res" where
  "table_rows value key limit = (case field value key of
       PList rows \<Rightarrow>
         if length rows > limit \<or> list_ex (\<lambda>r. case r of PList _ \<Rightarrow> False | _ \<Rightarrow> True) rows
         then invalid ''trigger checkpoint table shape''
         else Inr (map (\<lambda>r. case r of PList xs \<Rightarrow> xs | _ \<Rightarrow> []) rows)
     | _ \<Rightarrow> invalid ''trigger checkpoint table shape'')"

definition decode_running :: "pyval \<Rightarrow> running option res" where
  "decode_running active = (case active of
       PNone \<Rightarrow> Inr None
     | _ \<Rightarrow> bindE (check_fields active [''receiver'', ''names'', ''started_revision''] ''object'') (\<lambda>_.
         case field active ''names'' of
           PList names \<Rightarrow> bindE (running_of (field active ''receiver'') names (field active ''started_revision''))
              (\<lambda>r. Inr (Some r))
         | _ \<Rightarrow> invalid ''trigger checkpoint name list shape''))"

definition decode :: "nat \<Rightarrow> pybytes \<Rightarrow> pystr \<Rightarrow> pystr \<Rightarrow> tstate res" where
  "decode depth raw expected_binding expected_digest =
     bindE (digest_str expected_binding) (\<lambda>_.
     bindE (digest_str expected_digest) (\<lambda>_.
       if length raw > MAX_STATE_BYTES \<or> sha raw \<noteq> expected_digest
       then invalid ''trigger checkpoint content mismatch''
       else bindE (parse_json_limit MAX_STATE_BYTES depth raw) (\<lambda>value.
         bindE (check_fields value STATE_KEYS ''object'') (\<lambda>_.
         if \<not> py_eq (field value ''schema'') (PStr SCHEMA) \<or> \<not> py_eq (field value ''binding'') (PStr expected_binding)
            \<or> field value ''execution_permit'' \<noteq> PBool False
         then invalid ''trigger checkpoint binding or schema mismatch''
         else bindE (table_rows value ''pending'' MAX_EVENTS) (\<lambda>prows.
         bindE (table_rows value ''awaited'' MAX_ROUTES) (\<lambda>wrows.
         bindE (decode_running (field value ''running'')) (\<lambda>active.
         bindE (state_of (field value ''binding'') (field value ''revision'') prows wrows active) (\<lambda>result.
         bindE (encode result) (\<lambda>raw'.
           if raw' \<noteq> raw then invalid ''trigger checkpoint is not canonical'' else Inr result)))))))))"

section \<open>Transitions\<close>

definition view_pairs :: "string_sets \<Rightarrow> (pystr \<times> pystr) list" where
  "view_pairs v = concat (map (\<lambda>(k, vs). map (\<lambda>x. (k, x)) vs) v)"

definition activate :: "tstate \<Rightarrow> delivery list \<Rightarrow> tstate res" where
  "activate s deliveries =
     bindE (next_revision s) (\<lambda>revision.
     bindE (pending deliveries) (\<lambda>view.
     bindE (make_state (s_binding s) revision
        (sorted_set (s_pending s @ view_pairs (bv_pending view)))
        (sorted_set (s_awaited s @ view_pairs (bv_awaited view))) (s_running s)) (\<lambda>result.
     bindE (encode result) (\<lambda>_.
       if s_pending result = s_pending s \<and> s_awaited result = s_awaited s then Inr s else Inr result))))"

definition start :: "tstate \<Rightarrow> pystr \<Rightarrow> tstate res" where
  "start s receiver =
     bindE (next_revision s) (\<lambda>revision.
     bindE (digest_str receiver) (\<lambda>_.
       if s_running s \<noteq> None then invalid ''active trigger handler requires reconciliation''
       else let names = map snd (filter (\<lambda>p. fst p = receiver) (s_pending s)) in
         if names = [] then invalid ''receiver has no pending triggers''
         else bindE (running_of (PStr receiver) (map PStr names) (PInt revision)) (\<lambda>run.
           bindE (make_state (s_binding s) revision (filter (\<lambda>p. fst p \<noteq> receiver) (s_pending s))
              (s_awaited s) (Some run)) (\<lambda>result.
           bindE (encode result) (\<lambda>_. Inr result)))))"

definition attempt_val :: "tstate \<Rightarrow> running \<Rightarrow> pyval" where
  "attempt_val s r = PDict [(u ''domain'', PStr (u ''org.niaos.trigger-attempt/v1'')),
     (u ''binding'', PStr (s_binding s)), (u ''revision'', PInt (r_started r)),
     (u ''receiver'', PStr (r_receiver r)), (u ''names'', PList (map PStr (r_names r)))]"

definition attempt :: "tstate \<Rightarrow> pystr res" where
  "attempt s = bindE (check_state s) (\<lambda>_. case s_running s of
       None \<Rightarrow> invalid ''no active trigger handler''
     | Some r \<Rightarrow> Inr (sha (canonical (attempt_val s r))))"

text \<open>
  The release of waiters: \<open>incoming\<close> and \<open>outgoing\<close> index the awaited edges, \<open>release_one\<close> is
  the body of the inner loop and \<open>release\<close> the worklist loop. The order in which Python
  enumerates its sets is that of the sorted table here; the result does not depend on it.
\<close>

definition incoming_of :: "(pystr \<times> pystr) list \<Rightarrow> string_sets" where
  "incoming_of ws = foldl (\<lambda>d (origin, target). add_to target origin d) [] ws"

definition outgoing_of :: "(pystr \<times> pystr) list \<Rightarrow> (pystr \<times> int) list" where
  "outgoing_of ws = foldl (\<lambda>d (origin, target).
     dict_set origin ((case map_of d origin of None \<Rightarrow> 0 | Some n \<Rightarrow> n) + 1) d) [] ws"

type_synonym release_state = "(pystr \<times> pystr) list \<times> (pystr \<times> int) list \<times> pystr list"

definition release_one :: "pystr list \<Rightarrow> pystr \<Rightarrow> release_state \<Rightarrow> pystr \<Rightarrow> release_state res" where
  "release_one busy target st origin = (case st of (awaited, outgoing, ready) \<Rightarrow>
     if (origin, target) \<notin> set awaited then Inl KeyError
     else case map_of outgoing origin of
       None \<Rightarrow> Inl KeyError
     | Some n \<Rightarrow> Inr (remove1 (origin, target) awaited, dict_set origin (n - 1) outgoing,
                      if n - 1 = 0 \<and> origin \<notin> set busy then ready @ [origin] else ready))"

definition release_measure :: "release_state \<Rightarrow> nat" where
  "release_measure st = (case st of (awaited, outgoing, ready) \<Rightarrow> 2 * length awaited + length ready)"

lemma release_one_measure:
  assumes "release_one busy target st origin = Inr st'"
  shows "release_measure st' \<le> release_measure st"
proof -
  obtain a b c where st: "st = (a, b, c)" by (cases st) auto
  with assms have m: "(origin, target) \<in> set a" and "fst st' = remove1 (origin, target) a"
    and "length (snd (snd st')) \<le> Suc (length c)"
    by (auto simp: release_one_def split: if_splits option.splits)
  moreover have "Suc (length (remove1 (origin, target) a)) = length a"
    using m length_pos_if_in_set [OF m] by (simp add: length_remove1)
  ultimately show ?thesis by (cases st') (simp add: release_measure_def st)
qed

lemma release_ones_measure:
  "foldE (release_one busy target) st origins = Inr st' \<Longrightarrow> release_measure st' \<le> release_measure st"
proof (induction origins arbitrary: st)
  case (Cons x origins)
  from Cons.prems obtain t where "release_one busy target st x = Inr t"
    "foldE (release_one busy target) t origins = Inr st'" by (auto simp: bindE_eq_Inr)
  with Cons.IH release_one_measure show ?case by (meson order_trans)
qed simp

function release :: "string_sets \<Rightarrow> pystr list \<Rightarrow> release_state \<Rightarrow> (pystr \<times> pystr) list res" where
  "release incoming busy (awaited, outgoing, []) = Inr awaited"
| "release incoming busy (awaited, outgoing, target # ready) =
     bindE (foldE (release_one busy target) (awaited, outgoing, ready)
              (case map_of incoming target of None \<Rightarrow> [] | Some os \<Rightarrow> os))
       (release incoming busy)"
  by pat_completeness auto
termination
  by (relation "measure (\<lambda>(_, _, st). release_measure st)")
    (auto simp: release_measure_def split: prod.splits dest!: release_ones_measure)

definition observe_success :: "tstate \<Rightarrow> pystr \<Rightarrow> tstate res" where
  "observe_success s expected_attempt =
     bindE (next_revision s) (\<lambda>revision.
     bindE (digest_str expected_attempt) (\<lambda>_.
     bindE (attempt s) (\<lambda>actual.
       if expected_attempt \<noteq> actual then invalid ''completion is for a different trigger attempt''
       else case s_running s of
         None \<Rightarrow> Inl AttributeError
       | Some run \<Rightarrow>
           let receiver = r_receiver run;
               busy = map fst (s_pending s);
               incoming = incoming_of (s_awaited s);
               outgoing = outgoing_of (s_awaited s);
               ready = (if receiver \<notin> set busy \<and>
                           (case map_of outgoing receiver of None \<Rightarrow> True | Some n \<Rightarrow> n = 0)
                        then [receiver] else [])
           in bindE (release incoming busy (s_awaited s, outgoing, ready)) (\<lambda>awaited.
              make_state (s_binding s) revision (s_pending s) (sorted_set awaited) None))))"

section \<open>Well-formed states\<close>

definition pair_ok :: "bool \<Rightarrow> pystr \<times> pystr \<Rightarrow> bool" where
  "pair_ok names p \<longleftrightarrow> digest_ok (fst p) \<and>
     (if names then trigger_name_ok (snd p) else digest_ok (snd p) \<and> fst p \<noteq> snd p)"

definition pairs_ok :: "bool \<Rightarrow> nat \<Rightarrow> (pystr \<times> pystr) list \<Rightarrow> bool" where
  "pairs_ok names limit ps \<longleftrightarrow> length ps \<le> limit \<and> (\<forall>p \<in> set ps. pair_ok names p) \<and> sorted ps \<and> distinct ps"

definition running_ok :: "running \<Rightarrow> bool" where
  "running_ok r \<longleftrightarrow> digest_ok (r_receiver r) \<and> 1 \<le> r_started r \<and> r_started r \<le> MAX_INT64
     \<and> r_names r \<noteq> [] \<and> length (r_names r) \<le> MAX_EVENTS \<and> (\<forall>n \<in> set (r_names r). trigger_name_ok n)
     \<and> sorted (r_names r) \<and> distinct (r_names r)"

definition state_ok :: "tstate \<Rightarrow> bool" where
  "state_ok s \<longleftrightarrow> digest_ok (s_binding s) \<and> 0 \<le> s_revision s \<and> s_revision s \<le> MAX_INT64
     \<and> pairs_ok True MAX_EVENTS (s_pending s) \<and> pairs_ok False MAX_ROUTES (s_awaited s)
     \<and> (\<forall>r. s_running s = Some r \<longrightarrow> running_ok r \<and> r_started r \<le> s_revision s)
     \<and> (\<forall>w \<in> set (s_awaited s). snd w \<in> set (outstanding (s_pending s) (s_awaited s) (s_running s)))
     \<and> (s_revision s = 0 \<longrightarrow> s_pending s = [] \<and> s_awaited s = [] \<and> s_running s = None)"

lemma mapE_map: "mapE f (map g xs) = mapE (\<lambda>x. f (g x)) xs"
  by (induction xs) auto

lemma mapE_same:
  assumes "\<And>x y. f x = Inr y \<longleftrightarrow> P x \<and> y = x"
  shows "mapE f xs = Inr ys \<longleftrightarrow> (\<forall>x \<in> set xs. P x) \<and> ys = xs"
proof (induction xs arbitrary: ys)
  case (Cons x xs)
  show ?case unfolding mapE.simps bindE_eq_Inr assms Cons.IH by auto
qed auto

lemma trigger_name_val_PStr [simp]: "trigger_name_val (PStr s) = trigger_name s"
  by (simp add: trigger_name_val_def)

lemma pair_of_typed: "pair_of names [PStr (fst p), PStr (snd p)] = Inr q \<longleftrightarrow> pair_ok names p \<and> q = p"
  by (cases p) (auto simp: pair_of_def pair_ok_def ok_simps)

lemma pair_vals_alt: "pair_vals ps = map (\<lambda>p. [PStr (fst p), PStr (snd p)]) ps"
  by (auto simp: pair_vals_def)

lemma sorted_set_neq: "ps \<noteq> sorted_set ps \<longleftrightarrow> \<not> (sorted ps \<and> distinct ps)"
  using sorted_set_eq_iff [of ps] by auto

lemma pairs_of_typed: "pairs_of names limit (pair_vals ps) = Inr qs \<longleftrightarrow> pairs_ok names limit ps \<and> qs = ps"
proof -
  have "mapE (pair_of names) (pair_vals ps) = Inr qs \<longleftrightarrow> (\<forall>p \<in> set ps. pair_ok names p) \<and> qs = ps" for qs
    unfolding pair_vals_alt mapE_map by (rule mapE_same) (rule pair_of_typed)
  moreover have "length (pair_vals ps) = length ps" by (simp add: pair_vals_def)
  ultimately show ?thesis
    unfolding pairs_of_def by (auto simp: ok_simps pairs_ok_def sorted_set_neq)
qed

lemma running_of_typed:
  "running_of (PStr r) (map PStr ns) (PInt n) = Inr x \<longleftrightarrow>
     x = \<lparr>r_receiver = r, r_names = ns, r_started = n\<rparr> \<and> running_ok x"
proof -
  have "mapE trigger_name_val (map PStr ns) = Inr ys \<longleftrightarrow> (\<forall>n \<in> set ns. trigger_name_ok n) \<and> ys = ns" for ys
    unfolding mapE_map trigger_name_val_PStr by (rule mapE_same) (rule trigger_name_eq)
  then show ?thesis
    unfolding running_of_def by (auto simp: ok_simps running_ok_def sorted_set_neq)
qed

lemma check_running_eq: "check_running r = Inr () \<longleftrightarrow> running_ok r"
  by (cases r) (auto simp: check_running_def ok_simps running_of_typed)

lemma state_of_typed:
  assumes "pairs_of True MAX_EVENTS prows = Inr ps" "pairs_of False MAX_ROUTES wrows = Inr ws"
    "pairs_ok True MAX_EVENTS ps" "pairs_ok False MAX_ROUTES ws"
  shows "state_of (PStr b) (PInt n) prows wrows run = Inr s \<longleftrightarrow>
     s = \<lparr>s_binding = b, s_revision = n, s_pending = ps, s_awaited = ws, s_running = run\<rparr> \<and> state_ok s"
proof -
  have r: "(case run of None \<Rightarrow> Inr ()
            | Some r \<Rightarrow> bindE (check_running r) (\<lambda>_.
                if r_started r > n then invalid ''active trigger revision is in the future'' else Inr ())) = Inr y
     \<longleftrightarrow> (\<forall>r. run = Some r \<longrightarrow> running_ok r \<and> r_started r \<le> n)" for y
    by (cases run) (auto simp: ok_simps check_running_eq)
  have l: "list_ex (\<lambda>(_, receiver). receiver \<notin> set (outstanding ps ws run)) ws \<longleftrightarrow>
      \<not> (\<forall>w \<in> set ws. snd w \<in> set (outstanding ps ws run))"
    unfolding list_ex_iff by fastforce
  show ?thesis
  proof (cases "digest_ok b \<and> 0 \<le> n \<and> n \<le> MAX_INT64")
    case True
    then have i: "digest (PStr b) = Inr b" "integer (PInt n) 0 MAX_INT64 ''integer'' = Inr n"
      by (simp_all add: ok_simps)
    let ?s = "\<lparr>s_binding = b, s_revision = n, s_pending = ps, s_awaited = ws, s_running = run\<rparr>"
    have "state_ok ?s \<longleftrightarrow> (\<forall>r. run = Some r \<longrightarrow> running_ok r \<and> r_started r \<le> n)
        \<and> (\<forall>w \<in> set ws. snd w \<in> set (outstanding ps ws run)) \<and> (n = 0 \<longrightarrow> ps = [] \<and> ws = [] \<and> run = None)"
      using True assms(3,4) unfolding state_ok_def tstate.simps by blast
    then show ?thesis
      unfolding state_of_def assms(1,2) i bindE.simps l bindE_eq_Inr r if_invalid_eq_Inr by auto
  next
    case False
    then have "\<not> (\<exists>x y. digest (PStr b) = Inr x \<and> integer (PInt n) 0 MAX_INT64 ''integer'' = Inr y)"
      by (simp add: ok_simps)
    then have "state_of (PStr b) (PInt n) prows wrows run \<noteq> Inr s"
      unfolding state_of_def bindE_eq_Inr by blast
    with False show ?thesis by (auto simp: state_ok_def)
  qed
qed

lemma make_state_eq:
  "make_state b n ps ws run = Inr s \<longleftrightarrow>
     s = \<lparr>s_binding = b, s_revision = n, s_pending = ps, s_awaited = ws, s_running = run\<rparr> \<and> state_ok s"
proof (cases "pairs_ok True MAX_EVENTS ps \<and> pairs_ok False MAX_ROUTES ws")
  case True
  then have p: "pairs_of True MAX_EVENTS (pair_vals ps) = Inr ps" "pairs_of False MAX_ROUTES (pair_vals ws) = Inr ws"
    by (simp_all add: pairs_of_typed)
  show ?thesis unfolding make_state_def using state_of_typed [OF p] True by blast
next
  case False
  then have "\<not> (\<exists>x y. pairs_of True MAX_EVENTS (pair_vals ps) = Inr x \<and> pairs_of False MAX_ROUTES (pair_vals ws) = Inr y)"
    by (simp add: pairs_of_typed)
  then have "make_state b n ps ws run \<noteq> Inr s"
    unfolding make_state_def state_of_def bindE_eq_Inr by blast
  with False show ?thesis by (auto simp: state_ok_def)
qed

lemma check_state_eq [ok_simps]: "check_state s = Inr y \<longleftrightarrow> state_ok s"
  by (cases s) (auto simp: check_state_def ok_simps make_state_eq)

lemma next_revision_eq [ok_simps]:
  "next_revision s = Inr n \<longleftrightarrow> state_ok s \<and> s_revision s < MAX_INT64 \<and> n = s_revision s + 1"
  by (auto simp: next_revision_def ok_simps state_ok_def)

lemma attempt_eq [ok_simps]:
  "attempt s = Inr a \<longleftrightarrow> state_ok s \<and> (\<exists>r. s_running s = Some r \<and> a = sha (canonical (attempt_val s r)))"
  by (auto simp: attempt_def ok_simps split: option.splits)

section \<open>The indexes of the awaited edges\<close>

lemma incoming_of_spec:
  assumes "distinct ws"
  shows "distinct (map fst (incoming_of ws))
    \<and> (\<forall>t. case map_of (incoming_of ws) t of
         None \<Rightarrow> \<forall>x. (x, t) \<notin> set ws
       | Some os \<Rightarrow> distinct os \<and> set os = {x. (x, t) \<in> set ws} \<and> os \<noteq> [])"
  using assms
proof (induction ws rule: rev_induct)
  case Nil
  then show ?case by (simp add: incoming_of_def)
next
  case (snoc w ws)
  obtain x t where w: "w = (x, t)" by (cases w) auto
  let ?d = "incoming_of ws"
  have new: "incoming_of (ws @ [w]) = add_to t x ?d" by (simp add: incoming_of_def w)
  from snoc have d: "distinct ws" "(x, t) \<notin> set ws" by (auto simp: w)
  note IH = snoc.IH [OF d(1)]
  have "case map_of (add_to t x ?d) t' of
         None \<Rightarrow> \<forall>x. (x, t') \<notin> set (ws @ [w])
       | Some os \<Rightarrow> distinct os \<and> set os = {x. (x, t') \<in> set (ws @ [w])} \<and> os \<noteq> []" for t'
  proof (cases "t' = t")
    case True
    from IH have "case map_of ?d t of None \<Rightarrow> \<forall>x. (x, t) \<notin> set ws
       | Some os \<Rightarrow> distinct os \<and> set os = {x. (x, t) \<in> set ws} \<and> os \<noteq> []" by blast
    then show ?thesis using True d(2) by (auto simp: add_to_def w split: option.splits)
  next
    case False
    from IH have "case map_of ?d t' of None \<Rightarrow> \<forall>x. (x, t') \<notin> set ws
       | Some os \<Rightarrow> distinct os \<and> set os = {x. (x, t') \<in> set ws} \<and> os \<noteq> []" by blast
    then show ?thesis using False by (auto simp: add_to_def w split: option.splits)
  qed
  then show ?case unfolding new using IH by simp
qed

definition out_degree :: "(pystr \<times> pystr) list \<Rightarrow> pystr \<Rightarrow> nat" where
  "out_degree ws x = length (filter (\<lambda>w. fst w = x) ws)"

lemma out_degree_zero: "out_degree ws x = 0 \<longleftrightarrow> (\<forall>t. (x, t) \<notin> set ws)"
  by (auto simp: out_degree_def filter_empty_conv)

lemma outgoing_of_spec:
  "map_of (outgoing_of ws) x = (if out_degree ws x = 0 then None else Some (int (out_degree ws x)))"
proof (induction ws rule: rev_induct)
  case (snoc w ws)
  obtain y t where w: "w = (y, t)" by (cases w) auto
  have new: "outgoing_of (ws @ [w]) =
      dict_set y ((case map_of (outgoing_of ws) y of None \<Rightarrow> 0 | Some n \<Rightarrow> n) + 1) (outgoing_of ws)"
    by (simp add: outgoing_of_def w)
  show ?case unfolding new using snoc by (auto simp: out_degree_def w)
qed (simp add: outgoing_of_def out_degree_def)

lemma out_degree_remove1:
  "w \<in> set ws \<Longrightarrow> out_degree (remove1 w ws) x = (if fst w = x then out_degree ws x - 1 else out_degree ws x)"
  unfolding out_degree_def filter_remove1 by (simp add: length_remove1)

lemma out_degree_pos: "(x, t) \<in> set ws \<Longrightarrow> 0 < out_degree ws x"
  using out_degree_zero [of ws x] by auto

section \<open>The release of waiters\<close>

text \<open>
  A package has settled when it has no pending work of its own and everything it awaits has
  settled. The least such set: packages that await each other in a cycle never settle.
\<close>

inductive settled :: "pystr list \<Rightarrow> (pystr \<times> pystr) list \<Rightarrow> pystr \<Rightarrow> bool" for busy ws where
  settled: "p \<notin> set busy \<Longrightarrow> (\<And>t. (p, t) \<in> set ws \<Longrightarrow> settled busy ws t) \<Longrightarrow> settled busy ws p"

inductive_cases settledE: "settled busy ws p"

definition counts :: "(pystr \<times> pystr) list \<Rightarrow> (pystr \<times> pystr) list \<Rightarrow> (pystr \<times> int) list \<Rightarrow> bool" where
  "counts ws aw out \<longleftrightarrow> (\<forall>x \<in> fst ` set ws. map_of out x = Some (int (out_degree aw x)))"

text \<open>One target's waiters: every edge is removed, and no exception is raised.\<close>

lemma release_ones:
  assumes "distinct os" "\<forall>x \<in> set os. (x, t) \<in> set aw" "distinct aw" "set aw \<subseteq> set ws" "counts ws aw out"
  shows "\<exists>aw' out'. foldE (release_one busy t) (aw, out, ready) os = Inr (aw', out',
        ready @ filter (\<lambda>x. out_degree aw' x = 0 \<and> x \<notin> set busy) os)
     \<and> set aw' = set aw - {(x, t) | x. x \<in> set os} \<and> distinct aw' \<and> counts ws aw' out'"
  using assms
proof (induction os arbitrary: aw out ready)
  case (Cons x os)
  let ?aw = "remove1 (x, t) aw"
  from Cons.prems have x: "(x, t) \<in> set aw" "x \<in> fst ` set ws" by force+
  then have m: "map_of out x = Some (int (out_degree aw x))" using Cons.prems(5) unfolding counts_def by blast
  have deg: "out_degree ?aw y = (if y = x then out_degree aw x - 1 else out_degree aw y)" for y
    using out_degree_remove1 [OF x(1)] by auto
  have pos: "0 < out_degree aw x" by (rule out_degree_pos [OF x(1)])
  let ?out = "dict_set x (int (out_degree aw x) - 1) out"
  let ?ready = "if out_degree ?aw x = 0 \<and> x \<notin> set busy then ready @ [x] else ready"
  have step: "release_one busy t (aw, out, ready) x = Inr (?aw, ?out, ?ready)"
    using x(1) m pos deg [of x] by (auto simp: release_one_def)
  have c: "counts ws ?aw ?out" using Cons.prems(5) pos deg by (auto simp: counts_def of_nat_diff)
  have os: "distinct os" "\<forall>y \<in> set os. (y, t) \<in> set ?aw" "distinct ?aw" "set ?aw \<subseteq> set ws"
    using Cons.prems by (auto simp: distinct_remove1)
  from Cons.IH [OF os c, of ?ready] obtain aw' out' where f: "foldE (release_one busy t) (?aw, ?out, ?ready) os
      = Inr (aw', out', ?ready @ filter (\<lambda>x. out_degree aw' x = 0 \<and> x \<notin> set busy) os)"
    and aw': "set aw' = set ?aw - {(x, t) | x. x \<in> set os}" "distinct aw'" "counts ws aw' out'" by blast
  have same: "out_degree aw' x = out_degree ?aw x"
  proof -
    have "x \<notin> set os" using Cons.prems(1) by simp
    then have "set (filter (\<lambda>w. fst w = x) aw') = set (filter (\<lambda>w. fst w = x) ?aw)" using aw'(1) by auto
    then show ?thesis
      unfolding out_degree_def by (metis aw'(2) distinct_card distinct_filter os(3))
  qed
  have "set aw' = set aw - {(y, t) | y. y \<in> set (x # os)}"
    using aw'(1) Cons.prems(3) by (auto simp: set_remove1_eq)
  moreover have "?ready @ filter (\<lambda>x. out_degree aw' x = 0 \<and> x \<notin> set busy) os
      = ready @ filter (\<lambda>x. out_degree aw' x = 0 \<and> x \<notin> set busy) (x # os)"
    using same by simp
  ultimately show ?case using f aw'(2,3) step by (metis (no_types, lifting) bindE.simps(2) foldE.simps(2))
qed simp

text \<open>
  The invariant of the worklist: \<open>P\<close> are the packages already taken off the list, the edges
  left are those into other packages, and the packages on the list or in \<open>P\<close> are exactly those
  without pending work and without an edge left (among the origins and the receiver).
\<close>

definition release_inv :: "pystr list \<Rightarrow> (pystr \<times> pystr) list \<Rightarrow> pystr \<Rightarrow> pystr set \<Rightarrow> release_state \<Rightarrow> bool" where
  "release_inv busy ws r P st = (case st of (aw, out, ready) \<Rightarrow>
     set aw = {w \<in> set ws. snd w \<notin> P} \<and> distinct aw \<and> counts ws aw out
     \<and> distinct ready \<and> set ready \<inter> P = {}
     \<and> set ready \<union> P = {p. p \<notin> set busy \<and> out_degree aw p = 0 \<and> (p = r \<or> p \<in> fst ` set ws)}
     \<and> (\<forall>p \<in> P. settled busy ws p))"

lemma release_inv_step:
  assumes inv: "release_inv busy ws r P (aw, out, t # ready)" and ws: "distinct ws"
  shows "\<exists>st. foldE (release_one busy t) (aw, out, ready)
      (case map_of (incoming_of ws) t of None \<Rightarrow> [] | Some os \<Rightarrow> os) = Inr st
     \<and> release_inv busy ws r (insert t P) st"
proof -
  define L where "L = (case map_of (incoming_of ws) t of None \<Rightarrow> [] | Some os \<Rightarrow> os)"
  have "case map_of (incoming_of ws) t of None \<Rightarrow> \<forall>x. (x, t) \<notin> set ws
       | Some os \<Rightarrow> distinct os \<and> set os = {x. (x, t) \<in> set ws} \<and> os \<noteq> []"
    using incoming_of_spec [OF ws] by blast
  then have os: "distinct L" "set L = {x. (x, t) \<in> set ws}" unfolding L_def by (auto split: option.splits)
  from inv have aw: "set aw = {w \<in> set ws. snd w \<notin> P}" "distinct aw" "counts ws aw out"
    and rd: "distinct (t # ready)" "set (t # ready) \<inter> P = {}"
    and eq: "set (t # ready) \<union> P = {p. p \<notin> set busy \<and> out_degree aw p = 0 \<and> (p = r \<or> p \<in> fst ` set ws)}"
    and P: "\<forall>p \<in> P. settled busy ws p" by (auto simp: release_inv_def)
  have t: "t \<notin> P" using rd by auto
  have pre: "\<forall>x \<in> set L. (x, t) \<in> set aw" "set aw \<subseteq> set ws"
    using t unfolding os(2) aw(1) by simp_all
  from release_ones [OF os(1) pre(1) aw(2) pre(2) aw(3), of busy ready] obtain aw' out' where f: "foldE (release_one busy t) (aw, out, ready) L = Inr (aw', out',
        ready @ filter (\<lambda>x. out_degree aw' x = 0 \<and> x \<notin> set busy) L)"
    and aw': "set aw' = set aw - {(x, t) | x. x \<in> set L}" "distinct aw'" "counts ws aw' out'"
    by blast
  let ?new = "filter (\<lambda>x. out_degree aw' x = 0 \<and> x \<notin> set busy) L"
  have s: "set aw' = {w \<in> set ws. snd w \<notin> insert t P}" unfolding aw'(1) aw(1) os(2) by auto
  have t_en: "t \<notin> set busy" "out_degree aw t = 0" using eq by auto
  have waits: "out_degree aw x \<noteq> 0" if "x \<in> set L" for x
    using that t by (auto simp: out_degree_zero os(2) aw(1))
  have disj: "set ?new \<inter> (set (t # ready) \<union> P) = {}"
    unfolding eq by (auto dest!: waits)
  have mono: "out_degree aw p = 0 \<Longrightarrow> out_degree aw' p = 0" for p
    using aw'(1) by (auto simp: out_degree_zero)
  have en: "set (ready @ ?new) \<union> insert t P =
      {p. p \<notin> set busy \<and> out_degree aw' p = 0 \<and> (p = r \<or> p \<in> fst ` set ws)}" (is "?L = ?R")
  proof
    have "set (t # ready) \<union> P \<subseteq> ?R" unfolding eq using mono by auto
    moreover have "set ?new \<subseteq> ?R" using os(2) by force
    ultimately show "?L \<subseteq> ?R" by auto
    show "?R \<subseteq> ?L"
    proof
      fix p assume p: "p \<in> ?R"
      show "p \<in> ?L"
      proof (cases "out_degree aw p = 0")
        case True
        with p have "p \<in> set (t # ready) \<union> P" unfolding eq by simp
        then show ?thesis by auto
      next
        case False
        then obtain v where "(p, v) \<in> set aw" by (auto simp: out_degree_zero)
        moreover have "(p, v) \<notin> set aw'" using p by (simp add: out_degree_zero)
        ultimately have "p \<in> set L" using aw'(1) by auto
        with p show ?thesis by simp
      qed
    qed
  qed
  have "settled busy ws t"
  proof (rule settled.settled [OF t_en(1)])
    fix v assume "(t, v) \<in> set ws"
    with t_en(2) have "v \<in> P" by (auto simp: out_degree_zero aw(1))
    with P show "settled busy ws v" by blast
  qed
  then have "release_inv busy ws r (insert t P) (aw', out', ready @ ?new)"
    using s aw'(2,3) rd disj en os(1) P unfolding release_inv_def prod.case by auto
  with f show ?thesis unfolding L_def by blast
qed

lemma release_ends:
  assumes "release_inv busy ws r P st" "distinct ws"
  shows "\<exists>aw. release (incoming_of ws) busy st = Inr aw \<and> (\<exists>Q out. release_inv busy ws r Q (aw, out, []))"
  using assms
proof (induction "incoming_of ws" busy st arbitrary: P rule: release.induct)
  case (1 busy aw out)
  then show ?case by auto
next
  case (2 busy aw out t ready)
  from release_inv_step [OF 2(2,3)] obtain st where
    f: "foldE (release_one busy t) (aw, out, ready)
      (case map_of (incoming_of ws) t of None \<Rightarrow> [] | Some os \<Rightarrow> os) = Inr st"
    and inv: "release_inv busy ws r (insert t P) st" by blast
  from 2(1) [OF f inv 2(3)] f show ?case by simp
qed

text \<open>What is left at the end are the edges into packages that have not settled.\<close>

lemma release_final:
  assumes inv: "release_inv busy ws r Q (aw, out, [])"
    and src: "\<forall>w \<in> set ws. snd w \<in> set busy \<or> snd w \<in> fst ` set ws \<or> snd w = r"
  shows "set aw = {w \<in> set ws. \<not> settled busy ws (snd w)}"
proof -
  from inv have aw: "set aw = {w \<in> set ws. snd w \<notin> Q}"
    and Q: "Q = {p. p \<notin> set busy \<and> out_degree aw p = 0 \<and> (p = r \<or> p \<in> fst ` set ws)}"
    and s: "\<forall>p \<in> Q. settled busy ws p" by (auto simp: release_inv_def)
  have "(\<exists>x. (x, p) \<in> set ws) \<longrightarrow> p \<in> Q" if "settled busy ws p" for p
    using that
  proof (induction rule: settled.induct)
    case (settled p)
    show ?case
    proof
      assume e: "\<exists>x. (x, p) \<in> set ws"
      then obtain x where "(x, p) \<in> set ws" by blast
      from bspec [OF src this] have "p = r \<or> p \<in> fst ` set ws" using settled(1) by auto
      moreover have "out_degree aw p = 0" using settled(3) by (auto simp: out_degree_zero aw)
      ultimately show "p \<in> Q" using settled(1) by (subst Q) simp
    qed
  qed
  then show ?thesis using s unfolding aw by force
qed

section \<open>The transitions, characterised\<close>

definition busy_of :: "tstate \<Rightarrow> pystr list" where
  "busy_of s = map fst (s_pending s)"

text \<open>The state after a completed handler.\<close>

definition completed :: "tstate \<Rightarrow> tstate" where
  "completed s = \<lparr>s_binding = s_binding s, s_revision = s_revision s + 1, s_pending = s_pending s,
     s_awaited = filter (\<lambda>w. \<not> settled (busy_of s) (s_awaited s) (snd w)) (s_awaited s), s_running = None\<rparr>"

lemma pairs_ok_filter: "pairs_ok n l ps \<Longrightarrow> pairs_ok n l (filter P ps)"
  by (auto simp: pairs_ok_def sorted_wrt_filter intro: order_trans [OF length_filter_le])

lemma release_correct:
  assumes ok: "state_ok s" and run: "s_running s = Some r"
  shows "\<exists>aw. release (incoming_of (s_awaited s)) (busy_of s) (s_awaited s, outgoing_of (s_awaited s),
       if r_receiver r \<notin> set (busy_of s) \<and>
          (case map_of (outgoing_of (s_awaited s)) (r_receiver r) of None \<Rightarrow> True | Some n \<Rightarrow> n = 0)
       then [r_receiver r] else []) = Inr aw
    \<and> sorted_set aw = filter (\<lambda>w. \<not> settled (busy_of s) (s_awaited s) (snd w)) (s_awaited s)"
proof -
  let ?ws = "s_awaited s" and ?b = "busy_of s" and ?r = "r_receiver r"
  have ws: "distinct ?ws" "sorted ?ws" using ok by (auto simp: state_ok_def pairs_ok_def)
  have z: "(case map_of (outgoing_of ?ws) ?r of None \<Rightarrow> True | Some n \<Rightarrow> n = 0) \<longleftrightarrow> out_degree ?ws ?r = 0"
    by (simp add: outgoing_of_spec)
  let ?ready = "if ?r \<notin> set ?b \<and> out_degree ?ws ?r = 0 then [?r] else []"
  have c: "counts ?ws ?ws (outgoing_of ?ws)"
    unfolding counts_def outgoing_of_spec by (auto simp: out_degree_zero)
  have "release_inv ?b ?ws ?r {} (?ws, outgoing_of ?ws, ?ready)"
    unfolding release_inv_def using ws c by (auto dest: out_degree_pos)
  from release_ends [OF this ws(1)] obtain aw Q out
    where rel: "release (incoming_of ?ws) ?b (?ws, outgoing_of ?ws, ?ready) = Inr aw"
      and inv: "release_inv ?b ?ws ?r Q (aw, out, [])" by blast
  have "\<forall>w \<in> set ?ws. snd w \<in> set ?b \<or> snd w \<in> fst ` set ?ws \<or> snd w = ?r"
    using ok by (auto simp: state_ok_def outstanding_def run busy_of_def)
  from release_final [OF inv this]
  have set: "set aw = set (filter (\<lambda>w. \<not> settled ?b ?ws (snd w)) ?ws)" by auto
  have sd: "sorted (filter (\<lambda>w. \<not> settled ?b ?ws (snd w)) ?ws)" "distinct (filter (\<lambda>w. \<not> settled ?b ?ws (snd w)) ?ws)"
    using ws by (simp_all add: sorted_wrt_filter)
  have "sorted_set aw = filter (\<lambda>w. \<not> settled ?b ?ws (snd w)) ?ws"
    unfolding sorted_set_unique [OF set] by (rule sorted_set_id [OF sd])
  with rel show ?thesis unfolding z by blast
qed

lemma completed_ok:
  assumes ok: "state_ok s" and "s_revision s < MAX_INT64"
  shows "state_ok (completed s)"
proof -
  let ?ws = "s_awaited s" and ?b = "busy_of s"
  let ?aw = "filter (\<lambda>w. \<not> settled ?b ?ws (snd w)) ?ws"
  have "snd w \<in> set (outstanding (s_pending s) ?aw None)" if "w \<in> set ?aw" for w
  proof -
    from that have "\<not> settled ?b ?ws (snd w)" by simp
    then have "snd w \<in> set ?b \<or> (\<exists>t. (snd w, t) \<in> set ?ws \<and> \<not> settled ?b ?ws t)"
      using settled.settled by blast
    then show ?thesis
    proof
      assume "\<exists>t. (snd w, t) \<in> set ?ws \<and> \<not> settled ?b ?ws t"
      then obtain t where "(snd w, t) \<in> set ?aw" by auto
      then show ?thesis unfolding outstanding_def by force
    qed (simp add: outstanding_def busy_of_def)
  qed
  moreover have "pairs_ok False MAX_ROUTES ?aw"
    using ok by (intro pairs_ok_filter) (simp add: state_ok_def)
  ultimately show ?thesis
    using assms unfolding state_ok_def completed_def tstate.simps by auto
qed

lemma observe_success_eq:
  "observe_success s a = Inr s' \<longleftrightarrow> state_ok s \<and> s_revision s < MAX_INT64 \<and> digest_ok a
     \<and> (\<exists>r. s_running s = Some r \<and> a = sha (canonical (attempt_val s r))) \<and> s' = completed s"
proof (cases "state_ok s \<and> s_revision s < MAX_INT64 \<and> digest_ok a
     \<and> (\<exists>r. s_running s = Some r \<and> a = sha (canonical (attempt_val s r)))")
  case True
  then obtain r where ok: "state_ok s" "s_revision s < MAX_INT64" "digest_ok a"
    and run: "s_running s = Some r" and a: "a = sha (canonical (attempt_val s r))" by blast
  from release_correct [OF ok(1) run] obtain aw where
    rel: "release (incoming_of (s_awaited s)) (busy_of s) (s_awaited s, outgoing_of (s_awaited s),
       if r_receiver r \<notin> set (busy_of s) \<and>
          (case map_of (outgoing_of (s_awaited s)) (r_receiver r) of None \<Rightarrow> True | Some n \<Rightarrow> n = 0)
       then [r_receiver r] else []) = Inr aw"
    and aw: "sorted_set aw = filter (\<lambda>w. \<not> settled (busy_of s) (s_awaited s) (snd w)) (s_awaited s)" by blast
  have 1: "next_revision s = Inr (s_revision s + 1)" "digest_str a = Inr a" "attempt s = Inr a"
    using ok run a by (simp_all add: ok_simps)
  have "make_state (s_binding s) (s_revision s + 1) (s_pending s) (sorted_set aw) None = Inr (completed s)"
    using completed_ok [OF ok(1,2)] by (simp add: make_state_eq aw completed_def)
  then have "observe_success s a = Inr (completed s)"
    using rel by (simp add: observe_success_def 1 run Let_def busy_of_def)
  with True show ?thesis by auto
next
  case False
  then show ?thesis
    unfolding observe_success_def by (auto simp: ok_simps)
qed

section \<open>Activation and start\<close>

lemma view_pairs_set: "set (view_pairs v) = rel_of v"
  by (force simp: view_pairs_def rel_of_def)

lemma activate_ok:
  assumes "activate s ds = Inr s'"
  shows "state_ok s \<and> state_ok s' \<and> is_ok (encode s') \<or> s' = s" "state_ok s" "state_ok s'"
    "\<forall>d \<in> set ds. delivery_ok d"
    "set (s_pending s') = set (s_pending s) \<union> (\<lambda>d. (v_receiver d, v_name d)) ` set ds"
    "set (s_awaited s') = set (s_awaited s) \<union> (\<lambda>d. (v_origin d, v_receiver d)) ` {d \<in> set ds. v_await d}"
    "s_running s' = s_running s" "s_binding s' = s_binding s"
    "s' = s \<or> s_revision s' = s_revision s + 1"
proof -
  from assms obtain view result where ok: "state_ok s" and v: "pending ds = Inr view"
    and res: "result = \<lparr>s_binding = s_binding s, s_revision = s_revision s + 1,
      s_pending = sorted_set (s_pending s @ view_pairs (bv_pending view)),
      s_awaited = sorted_set (s_awaited s @ view_pairs (bv_awaited view)), s_running = s_running s\<rparr>"
    and rok: "state_ok result" and enc: "is_ok (encode result)"
    and s': "s' = (if s_pending result = s_pending s \<and> s_awaited result = s_awaited s then s else result)"
    by (auto simp: activate_def ok_simps make_state_eq is_ok_iff split: if_splits)
  note d = pending_decides [OF v]
  show "\<forall>d \<in> set ds. delivery_ok d" using d by blast
  show "state_ok s \<and> state_ok s' \<and> is_ok (encode s') \<or> s' = s" "state_ok s" "state_ok s'"
    using ok rok enc by (simp_all add: s')
  have p: "set (s_pending result) = set (s_pending s) \<union> (\<lambda>d. (v_receiver d, v_name d)) ` set ds"
    and w: "set (s_awaited result) = set (s_awaited s) \<union> (\<lambda>d. (v_origin d, v_receiver d)) ` {d \<in> set ds. v_await d}"
    using d by (simp_all add: res view_pairs_set)
  then show "set (s_pending s') = set (s_pending s) \<union> (\<lambda>d. (v_receiver d, v_name d)) ` set ds"
    "set (s_awaited s') = set (s_awaited s) \<union> (\<lambda>d. (v_origin d, v_receiver d)) ` {d \<in> set ds. v_await d}"
    unfolding s' by (auto split: if_splits)
  show "s_running s' = s_running s" "s_binding s' = s_binding s" "s' = s \<or> s_revision s' = s_revision s + 1"
    by (auto simp: s' res)
qed

lemma start_eq:
  "start s r = Inr s' \<longleftrightarrow> state_ok s \<and> s_revision s < MAX_INT64 \<and> digest_ok r \<and> s_running s = None
     \<and> s' = \<lparr>s_binding = s_binding s, s_revision = s_revision s + 1,
              s_pending = filter (\<lambda>p. fst p \<noteq> r) (s_pending s), s_awaited = s_awaited s,
              s_running = Some \<lparr>r_receiver = r, r_names = map snd (filter (\<lambda>p. fst p = r) (s_pending s)),
                                r_started = s_revision s + 1\<rparr>\<rparr>
     \<and> r \<in> fst ` set (s_pending s) \<and> state_ok s' \<and> is_ok (encode s')"
proof -
  have ne: "map snd (filter (\<lambda>p. fst p = r) (s_pending s)) = [] \<longleftrightarrow> r \<notin> fst ` set (s_pending s)"
    by (auto simp: filter_empty_conv)
  have run: "state_ok \<lparr>s_binding = b, s_revision = n, s_pending = ps, s_awaited = ws, s_running = Some x\<rparr> \<Longrightarrow> running_ok x"
    for b n ps ws x by (simp add: state_ok_def)
  show ?thesis
    unfolding start_def Let_def bindE_eq_Inr next_revision_eq digest_str_ok if_invalid_eq_Inr
      running_of_typed make_state_eq ne is_ok_iff not_not using run by auto
qed

section \<open>Runs of the trigger state machine\<close>

definition initial_state :: "pystr \<Rightarrow> tstate" where
  "initial_state b = \<lparr>s_binding = b, s_revision = 0, s_pending = [], s_awaited = [], s_running = None\<rparr>"

inductive tstep :: "tstate \<Rightarrow> tstate \<Rightarrow> bool" where
  activate: "activate s ds = Inr s' \<Longrightarrow> tstep s s'"
| start: "start s r = Inr s' \<Longrightarrow> tstep s s'"
| observe: "observe_success s a = Inr s' \<Longrightarrow> tstep s s'"

inductive_cases tstepE: "tstep s s'"

inductive reachable :: "pystr \<Rightarrow> tstate \<Rightarrow> bool" for b where
  init: "digest_ok b \<Longrightarrow> reachable b (initial_state b)"
| step: "reachable b s \<Longrightarrow> tstep s s' \<Longrightarrow> reachable b s'"

lemma initial_state_ok: "digest_ok b \<Longrightarrow> state_ok (initial_state b)"
  unfolding state_ok_def initial_state_def tstate.simps by (simp add: pairs_ok_def MAX_INT64_def)

lemma completed_simps: "s_binding (completed s) = s_binding s" "s_pending (completed s) = s_pending s"
  "s_running (completed s) = None" "s_revision (completed s) = s_revision s + 1"
  by (simp_all add: completed_def)

lemma tstep_ok: "tstep s s' \<Longrightarrow> state_ok s \<and> state_ok s' \<and> s_binding s' = s_binding s"
  by (elim tstepE) (auto simp: activate_ok start_eq observe_success_eq completed_ok completed_simps)

lemma reachable_ok: "reachable b s \<Longrightarrow> state_ok s \<and> s_binding s = b"
proof (induction rule: reachable.induct)
  case init
  then show ?case using initial_state_ok [OF init] by (simp add: initial_state_def [of b])
qed (auto dest: tstep_ok)

text \<open>Runs as lists of events.\<close>

datatype event = Activate "delivery list" | Start pystr | Success pystr

fun event_step :: "tstate \<Rightarrow> event \<Rightarrow> tstate res" where
  "event_step s (Activate ds) = activate s ds"
| "event_step s (Start r) = start s r"
| "event_step s (Success a) = observe_success s a"

definition trun :: "tstate \<Rightarrow> event list \<Rightarrow> tstate res" where
  "trun s es = foldE event_step s es"

text \<open>
  The books of a history, the latest event first: the work each package is owed, the batch in hand, and who awaits whom.
  A package is free when it is owed nothing and everything it awaits is free.
\<close>

fun owed :: "event list \<Rightarrow> (pystr \<times> pystr) set" where
  "owed [] = {}"
| "owed (Activate ds # h) = owed h \<union> (\<lambda>d. (v_receiver d, v_name d)) ` set ds"
| "owed (Start r # h) = {w \<in> owed h. fst w \<noteq> r}"
| "owed (Success a # h) = owed h"

fun in_hand :: "event list \<Rightarrow> (pystr \<times> pystr set) option" where
  "in_hand [] = None"
| "in_hand (Activate ds # h) = in_hand h"
| "in_hand (Start r # h) = Some (r, {n. (r, n) \<in> owed h})"
| "in_hand (Success a # h) = None"

inductive free :: "(pystr \<times> pystr) set \<Rightarrow> (pystr \<times> pystr) set \<Rightarrow> pystr \<Rightarrow> bool" for work wait where
  free: "p \<notin> fst ` work \<Longrightarrow> (\<And>t. (p, t) \<in> wait \<Longrightarrow> free work wait t) \<Longrightarrow> free work wait p"

fun waits :: "event list \<Rightarrow> (pystr \<times> pystr) set" where
  "waits [] = {}"
| "waits (Activate ds # h) = waits h \<union> (\<lambda>d. (v_origin d, v_receiver d)) ` {d \<in> set ds. v_await d}"
| "waits (Start r # h) = waits h"
| "waits (Success a # h) = {w \<in> waits h. \<not> free (owed h) (waits h) (snd w)}"

fun lawful :: "event list \<Rightarrow> bool" where
  "lawful [] = True"
| "lawful (Activate ds # h) = lawful h"
| "lawful (Start r # h) = (lawful h \<and> in_hand h = None \<and> r \<in> fst ` owed h)"
| "lawful (Success a # h) = (lawful h \<and> in_hand h \<noteq> None)"

definition handler_of :: "tstate \<Rightarrow> (pystr \<times> pystr set) option" where
  "handler_of s = map_option (\<lambda>r. (r_receiver r, set (r_names r))) (s_running s)"

definition books :: "pystr \<Rightarrow> event list \<Rightarrow> tstate \<Rightarrow> bool" where
  "books b h s \<longleftrightarrow> set (s_pending s) = owed h \<and> set (s_awaited s) = waits h \<and> handler_of s = in_hand h
     \<and> lawful h \<and> s_revision s \<le> int (length h) \<and> s_binding s = b \<and> state_ok s"

lemma free_settled: "free (set ps) (set ws) p \<longleftrightarrow> settled (map fst ps) ws p"
proof
  show "free (set ps) (set ws) p \<Longrightarrow> settled (map fst ps) ws p"
    by (induction rule: free.induct) (rule settled.settled, auto)
  show "settled (map fst ps) ws p \<Longrightarrow> free (set ps) (set ws) p"
    by (induction rule: settled.induct) (rule free.free, auto)
qed

lemma books_step:
  assumes "books b h s" "event_step s e = Inr t"
  shows "books b (e # h) t"
proof (cases e)
  case (Activate ds)
  then have "activate s ds = Inr t" using assms(2) by simp
  from activate_ok(2-9) [OF this] show ?thesis using assms(1) by (auto simp: books_def handler_of_def Activate)
next
  case (Start r)
  then have t: "start s r = Inr t" using assms(2) by simp
  have "{n. (r, n) \<in> set (s_pending s)} = snd ` {p \<in> set (s_pending s). fst p = r}" by force
  then show ?thesis using assms(1) t by (auto simp: start_eq books_def handler_of_def Start)
next
  case (Success a)
  then have t: "observe_success s a = Inr t" using assms(2) by simp
  have "s_awaited (completed s) = filter (\<lambda>w. \<not> free (set (s_pending s)) (set (s_awaited s)) (snd w)) (s_awaited s)"
    by (simp add: completed_def busy_of_def free_settled)
  moreover obtain r where "s_running s = Some r" using t by (auto simp: observe_success_eq)
  then have "in_hand h = Some (r_receiver r, set (r_names r))" using assms(1) by (simp add: books_def handler_of_def)
  ultimately show ?thesis using assms(1) t completed_ok [of s]
    by (auto simp: observe_success_eq books_def handler_of_def Success completed_simps)
qed

lemma books_kept:
  assumes "digest_ok b" "trun (initial_state b) es = Inr s"
  shows "books b (rev es) s"
proof -
  have "books b (rev es @ h) t" if "foldE event_step s es = Inr t" "books b h s" for s t h
    using that
  proof (induction es arbitrary: s h)
    case (Cons e es)
    then obtain s' where "event_step s e = Inr s'" "foldE event_step s' es = Inr t" by (auto simp: bindE_eq_Inr)
    with Cons.IH [of s' "e # h"] books_step [OF Cons.prems(2)] show ?case by simp
  qed simp
  from this [of "initial_state b" s "[]"] assms initial_state_ok show ?thesis
    by (simp add: trun_def books_def handler_of_def initial_state_def)
qed

text \<open>An edge disappears only by a completion, and only once its target has settled.\<close>

lemma tstep_release:
  assumes "tstep s s'" "w \<in> set (s_awaited s)" "w \<notin> set (s_awaited s')"
  shows "settled (busy_of s) (s_awaited s) (snd w) \<and> s' = completed s"
  using assms
proof (elim tstepE)
  fix a assume "observe_success s a = Inr s'"
  then have "s' = completed s" by (simp add: observe_success_eq)
  with assms(2,3) show ?thesis by (simp add: completed_def)
qed (auto simp: activate_ok start_eq)

lemma settled_free:
  assumes "settled (busy_of s) (s_awaited s) p"
  shows "p \<notin> fst ` set (s_pending (completed s)) \<and> p \<notin> fst ` set (s_awaited (completed s))"
  using assms by (cases rule: settled.cases) (auto simp: completed_def busy_of_def)

text \<open>Without a cycle of waiters, a completion with no other work pending releases them all.\<close>

lemma acyclic_settled:
  assumes "acyclic (set ws)"
  shows "settled [] ws p"
proof -
  have "wf ((set ws)\<inverse>)" using assms by (intro finite_acyclic_wf_converse) simp_all
  then show ?thesis
    by (induction p rule: wf_induct_rule) (auto intro: settled.settled)
qed

section \<open>The checkpoint encoding\<close>

lemma json_val_state:
  assumes "state_ok s"
  shows "json_val (state_val s)"
proof -
  have d: "digest_ok x \<Longrightarrow> scalar_str x" for x
    by (auto simp: digest_ok_def scalar_str_def list_all_iff hex_lower_def ascii_digit_def is_scalar_def)
  have t: "trigger_name_ok x \<Longrightarrow> scalar_str x" for x
  proof -
    assume "trigger_name_ok x"
    then have "relative_ok (tl x) \<and> hd x = 47 \<or> x = [47] \<or> explicit_name x" "x \<noteq> []"
      by (auto simp: trigger_name_ok_def trigger_name_def is_ok_iff ok_simps startswith_iff split: if_splits)
    then show "scalar_str x"
      by (cases x) (auto simp: scalar_str_def relative_ok_def explicit_name_def list_all_iff ascii_alnum_def
          ascii_digit_def ascii_lower_def ascii_upper_def is_scalar_def u_def)
  qed
  have i: "0 \<le> n \<Longrightarrow> n \<le> MAX_INT64 \<Longrightarrow> json_val (PInt n)" for n
  proof -
    assume n: "0 \<le> n" "n \<le> MAX_INT64"
    have "length (str_nat (nat \<bar>n\<bar>)) \<le> 19"
      using n by (intro length_str_nat) (auto simp: MAX_INT64_def nat_less_iff)
    then show "json_val (PInt n)" by (simp add: MAX_STR_DIGITS_def)
  qed
  have keys: "scalar_str (u ''schema'')" "scalar_str (u ''binding'')" "scalar_str (u ''revision'')"
    "scalar_str (u ''pending'')" "scalar_str (u ''awaited'')" "scalar_str (u ''running'')"
    "scalar_str (u ''execution_permit'')" "scalar_str (u ''receiver'')" "scalar_str (u ''names'')"
    "scalar_str (u ''started_revision'')" "scalar_str SCHEMA"
    by (simp_all add: scalar_str_def u_def is_scalar_def SCHEMA_def)
  have ps: "\<forall>p \<in> set (s_pending s). scalar_str (fst p) \<and> scalar_str (snd p)"
    "\<forall>p \<in> set (s_awaited s). scalar_str (fst p) \<and> scalar_str (snd p)"
    using assms d t by (auto simp: state_ok_def pairs_ok_def pair_ok_def)
  have "json_val (running_val (s_running s))"
    using assms i keys d t by (auto simp: state_ok_def running_ok_def running_val_def simp del: json_val.simps(1) split: option.splits)
  then show ?thesis
    using assms i ps d keys by (auto simp: state_val_def pair_val_def state_ok_def simp del: json_val.simps(1))
qed

lemma normal_PList_flat: "(\<And>x. x \<in> set xs \<Longrightarrow> normal x = x) \<Longrightarrow> normal (PList xs) = PList xs"
  by (simp add: map_idI)

lemma field_normal:
  assumes "json_val (PDict d)"
  shows "field (normal (PDict d)) k = normal (field (PDict d) k)" "set (dict_keys (normal (PDict d))) = fst ` set d"
proof -
  have dist: "distinct (map fst (map (\<lambda>p. (fst p, normal (snd p))) d))" using assms by (simp add: comp_def)
  have m: "map_of (map (\<lambda>p. (fst p, normal (snd p))) d) x = map_option normal (map_of d x)" for x
    by (induction d) auto
  show "field (normal (PDict d)) k = normal (field (PDict d) k)"
    unfolding field_def normal.simps pyval.case map_of_sorted_items [OF dist] m by (cases "map_of d (u k)") auto
  show "set (dict_keys (normal (PDict d))) = fst ` set d"
    by (simp add: dict_keys_def image_image)
qed

lemma nesting_le:
  "nesting (PList xs) \<le> Suc n \<longleftrightarrow> (\<forall>x \<in> set xs. nesting x \<le> n)"
  "nesting (PDict d) \<le> Suc n \<longleftrightarrow> (\<forall>p \<in> set d. nesting (snd p) \<le> n)"
proof -
  have "fold max ns 0 \<le> n \<longleftrightarrow> (\<forall>m \<in> set ns. m \<le> n)" for ns and n :: nat
    using Max.set_eq_fold [of 0 ns] by (metis Max_le_iff List.finite_set empty_iff list.set_intros(1) list.set_intros(2) set_ConsD zero_le)
  then show "nesting (PList xs) \<le> Suc n \<longleftrightarrow> (\<forall>x \<in> set xs. nesting x \<le> n)"
    "nesting (PDict d) \<le> Suc n \<longleftrightarrow> (\<forall>p \<in> set d. nesting (snd p) \<le> n)" by simp_all
qed

lemma nesting_normal_le: "nesting v \<le> n \<Longrightarrow> nesting (normal v) \<le> n"
proof (induction v arbitrary: n rule: normal.induct)
  case (1 xs)
  then obtain m where n: "n = Suc m" by (cases n) auto
  have a: "\<forall>x \<in> set xs. nesting x \<le> m" using 1(2) unfolding n nesting_le .
  then show ?case unfolding n normal.simps nesting_le using 1(1) by auto
next
  case (2 d)
  then obtain m where n: "n = Suc m" by (cases n) auto
  have a: "\<forall>p \<in> set d. nesting (snd p) \<le> m" using 2(2) unfolding n nesting_le .
  then show ?case unfolding n normal.simps nesting_le using 2(1) by auto
qed auto

lemma parse_canonical_normal:
  assumes "json_val v" "nesting v \<le> depth" "length (canonical v) \<le> limit"
  shows "parse_json_limit limit depth (canonical v) = Inr (normal v)"
proof -
  have c: "canonical v = canonical (normal v)" by (simp add: canonical_def dumps_normal)
  show ?thesis
    using parse_canonical [OF canon_val_normal [OF assms(1)] nesting_normal_le [OF assms(2)]] assms(3)
    unfolding c by blast
qed

lemma nesting_state: "nesting (state_val s) \<le> 3"
proof -
  have n: "(3::nat) = Suc (Suc (Suc 0))" by simp
  show ?thesis unfolding n state_val_def nesting_le running_val_def pair_val_def
    by (auto simp: nesting_le pair_val_def simp del: nesting.simps(1,2) split: option.splits)
qed

lemma normal_pair_val [simp]: "normal (pair_val p) = pair_val p"
  by (simp add: pair_val_def)

lemma normal_pairs: "normal (PList (map pair_val ps)) = PList (map pair_val ps)"
  by (rule normal_PList_flat) (auto simp: pair_val_def)

lemma field_state:
  assumes "json_val (state_val s)"
  shows "field (normal (state_val s)) ''schema'' = PStr SCHEMA"
    "field (normal (state_val s)) ''binding'' = PStr (s_binding s)"
    "field (normal (state_val s)) ''revision'' = PInt (s_revision s)"
    "field (normal (state_val s)) ''pending'' = PList (map pair_val (s_pending s))"
    "field (normal (state_val s)) ''awaited'' = PList (map pair_val (s_awaited s))"
    "field (normal (state_val s)) ''running'' = normal (running_val (s_running s))"
    "field (normal (state_val s)) ''execution_permit'' = PBool False"
    "check_fields (normal (state_val s)) STATE_KEYS w = Inr ()"
  unfolding state_val_def using assms
  by (simp_all add: field_normal state_val_def normal_pairs check_fields_def STATE_KEYS_def is_dict_def
      del: normal.simps(2)) (auto simp: field_def normal_pairs is_dict_def)

lemma decode_running_val:
  assumes "\<forall>r. run = Some r \<longrightarrow> running_ok r"
  shows "decode_running (normal (running_val run)) = Inr run"
proof (cases run)
  case (Some r)
  have j: "json_val (running_val run)"
  proof -
    have "json_val (running_val (Some r))" if "running_ok r"
    proof -
      let ?s = "\<lparr>s_binding = r_receiver r, s_revision = MAX_INT64, s_pending = [], s_awaited = [], s_running = Some r\<rparr>"
      have "state_ok ?s" using that unfolding state_ok_def tstate.simps
        by (simp add: running_ok_def pairs_ok_def MAX_INT64_def)
      from json_val_state [OF this] show ?thesis by (simp add: state_val_def)
    qed
    then show ?thesis using assms Some by simp
  qed
  have n: "normal (PList (map PStr xs)) = PList (map PStr xs)" for xs by (rule normal_PList_flat) auto
  let ?v = "normal (running_val run)"
  have f: "field ?v ''receiver'' = PStr (r_receiver r)" "field ?v ''names'' = PList (map PStr (r_names r))"
    "field ?v ''started_revision'' = PInt (r_started r)"
    using j unfolding Some running_val_def option.case
    by (simp_all add: field_normal del: normal.simps(2)) (simp_all add: field_def n)
  have k: "check_fields ?v [''receiver'', ''names'', ''started_revision''] ''object'' = Inr ()" "?v \<noteq> PNone"
    using j unfolding Some running_val_def option.case
    by (simp_all add: field_normal check_fields_def is_dict_def dict_keys_def image_image)
  have "running_of (PStr (r_receiver r)) (map PStr (r_names r)) (PInt (r_started r)) = Inr r"
    using assms Some by (simp add: running_of_typed)
  then show ?thesis
    unfolding decode_running_def using k f Some by (auto split: pyval.splits)
qed (simp add: running_val_def decode_running_def)

lemma table_rows_val:
  "field v k = PList (map pair_val ps) \<Longrightarrow> length ps \<le> limit \<Longrightarrow> table_rows v k limit = Inr (pair_vals ps)"
  by (auto simp: table_rows_def list_ex_iff pair_val_def pair_vals_def)

lemma encode_eq: "encode s = Inr raw \<Longrightarrow> state_ok s \<and> raw = canonical (state_val s) \<and> length raw \<le> MAX_STATE_BYTES"
  by (auto simp: encode_def ok_simps Let_def)

lemma decode_eq:
  assumes "3 \<le> depth"
  shows "decode depth raw b dg = Inr s \<longleftrightarrow>
    digest_ok b \<and> digest_ok dg \<and> dg = sha raw \<and> s_binding s = b \<and> encode s = Inr raw"
proof
  assume "decode depth raw b dg = Inr s"
  then obtain val prows wrows active where d: "digest_ok b" "digest_ok dg" "dg = sha raw"
    and v: "field val ''binding'' = PStr b"
    and s: "state_of (field val ''binding'') (field val ''revision'') prows wrows active = Inr s"
    and e: "encode s = Inr raw"
    unfolding decode_def bindE_eq_Inr if_invalid_eq_Inr digest_str_ok py_eq_PStr sum.inject by blast
  from s v obtain x where "digest (PStr b) = Inr x" "s_binding s = x"
    unfolding state_of_def bindE_eq_Inr if_invalid_eq_Inr sum.inject by fastforce
  then have "s_binding s = b" by (simp add: ok_simps)
  with d e show "digest_ok b \<and> digest_ok dg \<and> dg = sha raw \<and> s_binding s = b \<and> encode s = Inr raw" by blast
next
  assume r: "digest_ok b \<and> digest_ok dg \<and> dg = sha raw \<and> s_binding s = b \<and> encode s = Inr raw"
  then have e: "encode s = Inr raw" by blast
  from encode_eq [OF e] have ok: "state_ok s" and raw: "raw = canonical (state_val s)" "length raw \<le> MAX_STATE_BYTES"
    by blast+
  note j = json_val_state [OF ok]
  have p: "parse_json_limit MAX_STATE_BYTES depth raw = Inr (normal (state_val s))"
    unfolding raw(1) using raw assms nesting_state [of s] by (intro parse_canonical_normal [OF j]) auto
  note f = field_state [OF j]
  have po: "pairs_ok True MAX_EVENTS (s_pending s)" "pairs_ok False MAX_ROUTES (s_awaited s)"
    using ok by (auto simp: state_ok_def)
  then have t: "table_rows (normal (state_val s)) ''pending'' MAX_EVENTS = Inr (pair_vals (s_pending s))"
    "table_rows (normal (state_val s)) ''awaited'' MAX_ROUTES = Inr (pair_vals (s_awaited s))"
    using table_rows_val [OF f(4)] table_rows_val [OF f(5)] by (auto simp: pairs_ok_def)
  have dr: "decode_running (normal (running_val (s_running s))) = Inr (s_running s)"
    using ok by (intro decode_running_val) (auto simp: state_ok_def)
  have "state_of (PStr (s_binding s)) (PInt (s_revision s)) (pair_vals (s_pending s)) (pair_vals (s_awaited s)) (s_running s) = Inr s"
    using make_state_eq [of "s_binding s" "s_revision s" "s_pending s" "s_awaited s" "s_running s" s] ok
    by (simp add: make_state_def)
  moreover have "digest_ok (sha raw)" using r by auto
  ultimately show "decode depth raw b dg = Inr s"
    unfolding decode_def using r p raw(2) by (simp add: ok_simps f t dr digest_str_def)
qed

section \<open>Properties\<close>

text \<open>C3: A completion is accepted exactly for a valid state whose revision is not exhausted and for
  the digest of the running attempt; it then never fails (the worklist removes every edge once,
  and the resulting state passes its own validation), and exactly the waiters of settled
  packages are released: those with no pending work whose own awaited packages have all
  settled. Pending work is untouched and the handler is no longer running.\<close>

theorem observe_success_exact:
  "observe_success s a = Inr s' \<longleftrightarrow> state_ok s \<and> s_revision s < MAX_INT64 \<and> digest_ok a
     \<and> (\<exists>r. s_running s = Some r \<and> a = sha (canonical (attempt_val s r)))
     \<and> s' = \<lparr>s_binding = s_binding s, s_revision = s_revision s + 1, s_pending = s_pending s,
        s_awaited = filter (\<lambda>w. \<not> settled (map fst (s_pending s)) (s_awaited s) (snd w)) (s_awaited s),
        s_running = None\<rparr>"
  unfolding observe_success_eq completed_def busy_of_def by blast

text \<open>C8: A run of the trigger machine keeps exactly the books of its events. Pending is what was activated since its
  package's handler last started; the running batch is what its package was owed when it started, and stays
  frozen; awaited is what was activated with await, less the waiters of packages that were settled at a
  completion. A handler only starts while none runs and its package is owed something, and only a running one
  completes. No event adds more than one revision, and the state passes its validation.\<close>

theorem runs_keep_books:
  assumes "digest_ok b" "trun (initial_state b) es = Inr s"
  shows "set (s_pending s) = owed (rev es) \<and> set (s_awaited s) = waits (rev es) \<and> handler_of s = in_hand (rev es)
    \<and> lawful (rev es) \<and> s_revision s \<le> int (length es) \<and> s_binding s = b \<and> state_ok s"
  using books_kept [OF assms] by (simp add: books_def)

definition example_delivery :: delivery where
  "example_delivery = \<lparr>v_receiver = hash_b, v_name = u ''ldconfig'', v_origin = hash_a, v_await = True\<rparr>"

definition example_pending :: tstate where
  "example_pending = \<lparr>s_binding = hash_a, s_revision = 1, s_pending = [(hash_b, u ''ldconfig'')],
     s_awaited = [(hash_a, hash_b)], s_running = None\<rparr>"

definition example_active :: tstate where
  "example_active = \<lparr>s_binding = hash_a, s_revision = 2, s_pending = [], s_awaited = [(hash_a, hash_b)],
     s_running = Some \<lparr>r_receiver = hash_b, r_names = [u ''ldconfig''], r_started = 2\<rparr>\<rparr>"

lemma example_steps:
  "reachable hash_a (initial_state hash_a)" "tstep (initial_state hash_a) example_pending"
  "tstep example_pending example_active"
proof -
  have "digest_ok hash_a" by code_simp
  then show "reachable hash_a (initial_state hash_a)" by (rule reachable.init)
  have "activate (initial_state hash_a) [example_delivery] = Inr example_pending" by code_simp
  then show "tstep (initial_state hash_a) example_pending" by (rule tstep.activate)
  have "start example_pending hash_b = Inr example_active" by code_simp
  then show "tstep example_pending example_active" by (rule tstep.start)
qed

theorem runs_keep_books_witness:
  "trun (initial_state hash_a) [Activate [example_delivery], Start hash_b] = Inr example_active
     \<and> set (s_awaited example_active) = waits [Start hash_b, Activate [example_delivery]]
     \<and> handler_of example_active = in_hand [Start hash_b, Activate [example_delivery]]"
proof -
  have "digest_ok hash_a" by code_simp
  moreover have r: "trun (initial_state hash_a) [Activate [example_delivery], Start hash_b] = Inr example_active" by code_simp
  ultimately show ?thesis using runs_keep_books [of hash_a "[Activate [example_delivery], Start hash_b]" example_active] by simp
qed

text \<open>C9: Safety of waiting: whatever step a run takes, a package that awaits another keeps awaiting
  it, unless the other one has no pending work and awaits nobody in the state after the step.\<close>

theorem waiters_not_released_early:
  assumes "reachable b s" "tstep s s'" "w \<in> set (s_awaited s)"
  shows "w \<in> set (s_awaited s') \<or>
    (snd w \<notin> fst ` set (s_pending s') \<and> snd w \<notin> fst ` set (s_awaited s') \<and> s_running s' = None)"
proof (cases "w \<in> set (s_awaited s')")
  case False
  from tstep_release [OF assms(2,3) False] have "settled (busy_of s) (s_awaited s) (snd w)" "s' = completed s"
    by blast+
  with settled_free [of s "snd w"] show ?thesis by (simp add: completed_simps)
qed simp

theorem waiters_not_released_early_witness:
  "tstep example_pending example_active \<and> (hash_a, hash_b) \<in> set (s_awaited example_active)"
proof -
  from example_steps have r: "reachable hash_a example_pending" by (meson reachable.step)
  have w: "(hash_a, hash_b) \<in> set (s_awaited example_pending)" by (simp add: example_pending_def)
  have n: "s_running example_active \<noteq> None" by (simp add: example_active_def)
  from waiters_not_released_early [OF r example_steps(3) w] n example_steps(3) show ?thesis by blast
qed

text \<open>C13: Progress: when nothing is pending any more and no packages await each other in a cycle,
  the completion of the last handler releases every waiter.\<close>

theorem last_completion_releases_all:
  assumes "state_ok s" "s_running s = Some r" "s_revision s < MAX_INT64" "s_pending s = []"
    "acyclic (set (s_awaited s))"
  shows "observe_success s a = Inr s' \<longleftrightarrow> digest_ok a \<and> a = sha (canonical (attempt_val s r))
    \<and> s' = \<lparr>s_binding = s_binding s, s_revision = s_revision s + 1, s_pending = [], s_awaited = [], s_running = None\<rparr>"
proof -
  have "completed s = \<lparr>s_binding = s_binding s, s_revision = s_revision s + 1, s_pending = [], s_awaited = [],
      s_running = None\<rparr>"
    using acyclic_settled [OF assms(5)] by (simp add: completed_def busy_of_def assms(4))
  then show ?thesis using assms by (auto simp: observe_success_eq)
qed

theorem last_completion_releases_all_witness:
  "\<exists>r. \<forall>a s'. observe_success example_active a = Inr s' \<longleftrightarrow>
     digest_ok a \<and> a = sha (canonical (attempt_val example_active r))
     \<and> s' = \<lparr>s_binding = hash_a, s_revision = 3, s_pending = [], s_awaited = [], s_running = None\<rparr>"
proof -
  have ok: "state_ok example_active" using example_steps tstep_ok by blast
  have "hash_a \<noteq> hash_b" by code_simp
  then have ac: "acyclic (set (s_awaited example_active))"
    by (simp add: example_active_def acyclic_def trancl_insert)
  have r: "s_running example_active = Some \<lparr>r_receiver = hash_b, r_names = [u ''ldconfig''], r_started = 2\<rparr>"
    "s_revision example_active < MAX_INT64" "s_pending example_active = []"
    by (simp_all add: example_active_def MAX_INT64_def)
  have e: "s_binding example_active = hash_a" "s_revision example_active + 1 = 3" by (simp_all add: example_active_def)
  from last_completion_releases_all [OF ok r ac] show ?thesis unfolding e by blast
qed

text \<open>Activation merges a batch into the state: pending work and waiters are the union of the
  old ones and the batch's deliveries, the running handler's own names stay frozen, the new
  state is valid, and a batch that adds nothing leaves the state as it is.\<close>

theorem activate_merges:
  assumes "activate s ds = Inr s'"
  shows "state_ok s' \<and> (\<forall>d \<in> set ds. delivery_ok d)
    \<and> set (s_pending s') = set (s_pending s) \<union> (\<lambda>d. (v_receiver d, v_name d)) ` set ds
    \<and> set (s_awaited s') = set (s_awaited s) \<union> (\<lambda>d. (v_origin d, v_receiver d)) ` {d \<in> set ds. v_await d}
    \<and> s_running s' = s_running s \<and> s_binding s' = s_binding s \<and> (s' = s \<or> s_revision s' = s_revision s + 1)"
  using activate_ok [OF assms] by blast

theorem activate_merges_witness:
  "activate (initial_state hash_a) [example_delivery] = Inr example_pending \<and> state_ok example_pending"
proof -
  have a: "activate (initial_state hash_a) [example_delivery] = Inr example_pending" by code_simp
  from activate_merges [OF a] a show ?thesis by blast
qed

text \<open>C6: The checkpoint encoding round-trips and is the only encoding accepted: bytes decode to a
  state exactly when they are that state's own encoding, have the expected digest, and carry
  the expected binding.\<close>

theorem checkpoint_roundtrip:
  assumes "3 \<le> depth"
  shows "decode depth raw b dg = Inr s \<longleftrightarrow>
    digest_ok b \<and> digest_ok dg \<and> dg = sha raw \<and> s_binding s = b \<and> encode s = Inr raw"
  by (rule decode_eq [OF assms])

theorem checkpoint_roundtrip_witness:
  "\<exists>raw. encode example_active = Inr raw \<and>
     (digest_ok (sha raw) \<longrightarrow> decode 1000 raw hash_a (sha raw) = Inr example_active)"
proof -
  have "is_ok (encode example_active)" by code_simp
  then obtain raw where raw: "encode example_active = Inr raw" by (auto simp: is_ok_iff)
  have b: "digest_ok hash_a" by code_simp
  have s: "s_binding example_active = hash_a" by (simp add: example_active_def)
  have "(3::nat) \<le> 1000" by simp
  from checkpoint_roundtrip [OF this, of raw hash_a "sha raw" example_active] raw b s show ?thesis by blast
qed

end
