(* ===== verification/Deb_Control.thy ===== *)
theory Deb_Control
  imports Nia_Common
begin

text \<open>
  \<open>deb822\<close> and \<open>unfold\<close> of \<open>tools/deb_archive.py\<close>: the reader of Debian control paragraphs
  that every archive check uses (package control files, Release, Packages and Sources
  indexes, .buildinfo files).
\<close>

definition MAX_CONTROL :: nat where
  "MAX_CONTROL = 16 * 1024 * 1024"

definition MAX_STANZAS :: nat where
  "MAX_STANZAS = 262144"

fun replace_crlf :: "pystr \<Rightarrow> pystr" where
  "replace_crlf [] = []"
| "replace_crlf (c # s) =
     (if c = 13 \<and> s \<noteq> [] \<and> hd s = 10 then 10 # replace_crlf (tl s) else c # replace_crlf s)"

text \<open>
  \<open>str.lower\<close> as far as the field-name pattern can tell: ASCII capitals, and the one other
  character whose lower case is an ASCII letter (KELVIN SIGN, U+212A). Every other non-ASCII
  character lowers to text with a non-ASCII character, which the pattern rejects, so leaving
  it unchanged gives the same result.
\<close>

definition lower_char :: "nat \<Rightarrow> nat" where
  "lower_char c = (if ascii_upper c then c + 32 else if c = 8490 then 107 else c)"

definition lower :: "pystr \<Rightarrow> pystr" where
  "lower s = map lower_char s"

definition field_name_ok :: "pystr \<Rightarrow> bool" where
  "field_name_ok s \<longleftrightarrow> (case s of [] \<Rightarrow> False | c # r \<Rightarrow> lower_alnum c \<and> list_all (\<lambda>c. lower_alnum c \<or> c = 45) r)"

type_synonym stanza = "(pystr \<times> pystr) list"
type_synonym deb822_state = "stanza list \<times> stanza \<times> pystr option"

definition get_field :: "stanza \<Rightarrow> pystr \<Rightarrow> pystr" where
  "get_field r k = (case map_of r k of None \<Rightarrow> [] | Some v \<Rightarrow> v)"

definition deb822_line :: "nat \<Rightarrow> deb822_state \<Rightarrow> pystr \<Rightarrow> deb822_state res" where
  "deb822_line max_stanzas st line = (case st of (result, rec, prev) \<Rightarrow>
     if length line > 65536 then invalid ''control line too long''
     else case line of
       [] \<Rightarrow>
         if rec \<noteq> [] then
           (if length result + 1 > max_stanzas then invalid ''too many stanzas''
            else Inr (result @ [rec], [], None))
         else Inr (result, rec, prev)
     | c # rest \<Rightarrow>
         if c = 32 \<or> c = 9 then
           (case prev of
              None \<Rightarrow> invalid ''orphan continuation''
            | Some k \<Rightarrow> let v = get_field rec k @ 10 # rest in
                if length v > MAX_CONTROL then invalid ''field too long''
                else Inr (result, dict_set k v rec, Some k))
         else (case split_first 58 line of
             None \<Rightarrow> invalid ''missing control delimiter''
           | Some (k, v) \<Rightarrow> let key = lower k in
               if \<not> field_name_ok key \<or> key \<in> fst ` set rec then invalid ''invalid or duplicate control field''
               else if length rec > 1024 then invalid ''too many fields''
               else Inr (result, dict_set key (lstrip (\<lambda>c. c = 32 \<or> c = 9) v) rec, Some key)))"

definition control_char :: "nat \<Rightarrow> bool" where
  "control_char c \<longleftrightarrow> c < 32 \<and> c \<noteq> 10 \<and> c \<noteq> 9"

definition deb822 :: "nat \<Rightarrow> nat \<Rightarrow> pybytes \<Rightarrow> stanza list res" where
  "deb822 limit max_stanzas raw =
     (if length raw > limit then invalid ''control text size limit''
      else case utf8_decode raw of
        None \<Rightarrow> invalid ''control is not UTF-8''
      | Some decoded \<Rightarrow>
          let text = replace_crlf decoded in
          if 13 \<in> set text \<or> list_ex control_char text then invalid ''control character''
          else bindE (foldE (deb822_line max_stanzas) ([], [], None) (split_on 10 text)) (\<lambda>(result, rec, _).
            let result' = (if rec \<noteq> [] then result @ [rec] else result) in
            if length result' > max_stanzas then invalid ''too many stanzas'' else Inr result'))"

definition unfold_value :: "pystr \<Rightarrow> pystr" where
  "unfold_value v = join_on [32] (splitlines v)"

section \<open>What the reader returns\<close>

definition stanza_ok :: "stanza \<Rightarrow> bool" where
  "stanza_ok r \<longleftrightarrow> r \<noteq> [] \<and> distinct (map fst r) \<and> (\<forall>k \<in> fst ` set r. field_name_ok k) \<and> length r \<le> 1025"

definition partial_ok :: "stanza \<Rightarrow> bool" where
  "partial_ok r \<longleftrightarrow> distinct (map fst r) \<and> (\<forall>k \<in> fst ` set r. field_name_ok k) \<and> length r \<le> 1025"

lemma length_dict_set_old: "k \<in> fst ` set d \<Longrightarrow> length (dict_set k v d) = length d"
  by (induction k v d rule: dict_set.induct) auto

definition deb822_inv :: "deb822_state \<Rightarrow> bool" where
  "deb822_inv st = (case st of (result, rec, prev) \<Rightarrow>
     (\<forall>r \<in> set result. stanza_ok r) \<and> partial_ok rec \<and> (\<forall>k. prev = Some k \<longrightarrow> k \<in> fst ` set rec))"

lemma deb822_line_inv:
  assumes "deb822_inv st" "deb822_line n st line = Inr st'"
  shows "deb822_inv st'"
proof -
  obtain result rec prev where st: "st = (result, rec, prev)" by (cases st) auto
  from assms(1) have res: "\<forall>r \<in> set result. stanza_ok r" and rec: "partial_ok rec"
    and prev: "\<And>k. prev = Some k \<Longrightarrow> k \<in> fst ` set rec" by (auto simp: deb822_inv_def st)
  show ?thesis
  proof (cases line)
    case Nil
    have "rec \<noteq> [] \<Longrightarrow> stanza_ok rec" using rec by (simp add: stanza_ok_def partial_ok_def)
    moreover have "partial_ok []" by (simp add: partial_ok_def)
    ultimately show ?thesis using assms Nil res
      by (auto simp: st deb822_line_def deb822_inv_def split: if_splits)
  next
    case (Cons c rest)
    show ?thesis
    proof (cases "c = 32 \<or> c = 9")
      case True
      with assms(2) Cons obtain k where k: "prev = Some k"
        "st' = (result, dict_set k (get_field rec k @ 10 # rest) rec, Some k)"
        by (auto simp: st deb822_line_def Let_def split: if_splits option.splits)
      with prev have "k \<in> fst ` set rec" by simp
      then have "partial_ok (dict_set k (get_field rec k @ 10 # rest) rec)"
        using rec by (auto simp: partial_ok_def length_dict_set_old)
      then show ?thesis using res by (simp add: deb822_inv_def k(2))
    next
      case False
      with assms(2) Cons obtain k v where kv: "split_first 58 line = Some (k, v)" "field_name_ok (lower k)"
        "lower k \<notin> fst ` set rec" "length rec \<le> 1024"
        "st' = (result, dict_set (lower k) (lstrip (\<lambda>c. c = 32 \<or> c = 9) v) rec, Some (lower k))"
        by (auto simp: st deb822_line_def Let_def split: if_splits option.splits)
      have "partial_ok (dict_set (lower k) (lstrip (\<lambda>c. c = 32 \<or> c = 9) v) rec)"
        using rec kv(2,4) length_dict_set [of "lower k" "lstrip (\<lambda>c. c = 32 \<or> c = 9) v" rec]
        by (auto simp: partial_ok_def)
      then show ?thesis using res by (simp add: deb822_inv_def kv(5))
    qed
  qed
qed

lemma deb822_ok:
  assumes "deb822 limit n raw = Inr rs"
  shows "length rs \<le> n \<and> length raw \<le> limit \<and> (\<forall>r \<in> set rs. stanza_ok r)"
proof -
  from assms obtain tx result rec prev where
    f: "foldE (deb822_line n) ([], [], None) (split_on 10 tx) = Inr (result, rec, prev)"
    and rs: "rs = (if rec \<noteq> [] then result @ [rec] else result)" "length rs \<le> n" "length raw \<le> limit"
    by (auto simp: deb822_def Let_def bindE_eq_Inr split: if_splits option.splits)
  have "deb822_inv (result, rec, prev)"
  proof (rule foldE_invariant [OF f])
    show "deb822_inv ([], [], None)" by (simp add: deb822_inv_def partial_ok_def)
  qed (rule deb822_line_inv)
  then show ?thesis using rs by (auto simp: deb822_inv_def stanza_ok_def partial_ok_def)
qed

section \<open>Printing and reading back\<close>

text \<open>Paragraphs with single-line values, as a producer writes them.\<close>

definition print_field :: "pystr \<times> pystr \<Rightarrow> pystr" where
  "print_field p = fst p @ u '': '' @ snd p"

definition print_stanzas :: "stanza list \<Rightarrow> pystr list" where
  "print_stanzas rs = concat (map (\<lambda>r. map print_field r @ [[]]) rs)"

definition value_ok :: "pystr \<Rightarrow> bool" where
  "value_ok v \<longleftrightarrow> v \<noteq> [] \<and> hd v \<noteq> 32 \<and> hd v \<noteq> 9 \<and> list_all is_scalar v
     \<and> (\<forall>c \<in> set v. c \<noteq> 10 \<and> c \<noteq> 13 \<and> \<not> control_char c)"

definition printable_stanza :: "stanza \<Rightarrow> bool" where
  "printable_stanza r \<longleftrightarrow> r \<noteq> [] \<and> distinct (map fst r) \<and> length r \<le> 1024
     \<and> (\<forall>(k, v) \<in> set r. field_name_ok k \<and> value_ok v \<and> length (print_field (k, v)) \<le> 65536)"

lemma lower_name: "field_name_ok k \<Longrightarrow> lower k = k"
proof -
  have "lower_alnum c \<or> c = 45 \<Longrightarrow> lower_char c = c" for c
    by (auto simp: lower_char_def lower_alnum_def ascii_digit_def ascii_lower_def ascii_upper_def)
  then show "field_name_ok k \<Longrightarrow> lower k = k"
    by (cases k) (auto simp: field_name_ok_def lower_def list_all_iff intro!: map_idI)
qed

lemma field_name_char: "field_name_ok k \<Longrightarrow> c \<in> set k \<Longrightarrow> 45 \<le> c \<and> c \<le> 122 \<and> c \<noteq> 58"
  by (cases k) (auto simp: field_name_ok_def list_all_iff lower_alnum_def ascii_digit_def ascii_lower_def)

lemma print_field_line:
  assumes "field_name_ok k" "value_ok v" "length (print_field (k, v)) \<le> 65536"
    "k \<notin> fst ` set rec" "length rec \<le> 1024"
  shows "deb822_line n (result, rec, prev) (print_field (k, v)) = Inr (result, rec @ [(k, v)], Some k)"
proof -
  obtain c s where k: "k = c # s" using assms(1) by (cases k) (auto simp: field_name_ok_def)
  have "58 \<notin> set k" using field_name_char [OF assms(1)] by auto
  then have sp: "split_first 58 (print_field (k, v)) = Some (k, 32 # v)"
    using split_first_append [of 58 k "32 # v"] by (simp add: print_field_def u_def)
  have c: "c \<noteq> 32" "c \<noteq> 9" using field_name_char [OF assms(1), of c] k by auto
  have strip: "lstrip (\<lambda>c. c = 32 \<or> c = 9) (32 # v) = v"
    using assms(2) by (cases v) (auto simp: lstrip_def value_ok_def)
  show ?thesis
    using assms(3-5) c strip lower_name [OF assms(1)] assms(1)
    unfolding deb822_line_def prod.case sp [unfolded print_field_def fst_conv snd_conv] print_field_def fst_conv snd_conv
    by (simp add: k dict_set_new Let_def del: split_first.simps)
qed

lemma print_fields_fold:
  assumes "\<forall>(k, v) \<in> set fs. field_name_ok k \<and> value_ok v \<and> length (print_field (k, v)) \<le> 65536"
    "distinct (map fst (rec @ fs))" "length rec + length fs \<le> 1024"
  shows "\<exists>prev'. foldE (deb822_line n) (result, rec, prev) (map print_field fs) = Inr (result, rec @ fs, prev')"
  using assms
proof (induction fs arbitrary: rec prev)
  case (Cons f fs)
  obtain k v where f: "f = (k, v)" by (cases f) auto
  have "deb822_line n (result, rec, prev) (print_field (k, v)) = Inr (result, rec @ [(k, v)], Some k)"
    using Cons.prems f by (intro print_field_line) auto
  moreover have "\<exists>prev'. foldE (deb822_line n) (result, rec @ [(k, v)], Some k) (map print_field fs)
      = Inr (result, (rec @ [(k, v)]) @ fs, prev')"
    using Cons.prems f by (intro Cons.IH) auto
  ultimately show ?case by (simp add: f)
qed simp

lemma print_stanzas_fold:
  assumes "\<forall>r \<in> set rs. printable_stanza r" "length result + length rs \<le> n"
  shows "\<exists>prev'. foldE (deb822_line n) (result, [], prev) (print_stanzas rs) = Inr (result @ rs, [], prev')"
  using assms
proof (induction rs arbitrary: result prev)
  case Nil
  then show ?case by (simp add: print_stanzas_def)
next
  case (Cons r rs)
  from Cons.prems obtain last1 where 1: "foldE (deb822_line n) (result, [], prev) (map print_field r) = Inr (result, r, last1)"
    using print_fields_fold [of r "[]" n result prev] by (auto simp: printable_stanza_def)
  have ne: "r \<noteq> []" using Cons.prems(1) by (simp add: printable_stanza_def)
  have 2: "deb822_line n (result, r, last1) [] = Inr (result @ [r], [], None)"
    using ne Cons.prems(2) by (simp add: deb822_line_def)
  from Cons.IH [of "result @ [r]" None] Cons.prems obtain last2 where
    3: "foldE (deb822_line n) (result @ [r], [], None) (print_stanzas rs) = Inr (result @ r # rs, [], last2)" by auto
  have "print_stanzas (r # rs) = map print_field r @ [] # print_stanzas rs" by (simp add: print_stanzas_def)
  then show ?case using 1 2 3 by (simp add: foldE_append)
qed

lemma replace_crlf_id: "13 \<notin> set s \<Longrightarrow> replace_crlf s = s"
  by (induction s) auto

lemma print_lines_plain:
  assumes "\<forall>r \<in> set rs. printable_stanza r" "w \<in> set (print_stanzas rs)" "c \<in> set w"
  shows "is_scalar c \<and> c \<noteq> 10 \<and> c \<noteq> 13 \<and> \<not> control_char c"
proof -
  from assms(2,3) obtain r f where rf: "r \<in> set rs" "f \<in> set r" "c \<in> set (print_field f)"
    unfolding print_stanzas_def by (auto split: if_splits)
  obtain k v where f: "f = (k, v)" by (cases f) auto
  have "printable_stanza r" using assms(1) rf(1) by blast
  then have kv: "field_name_ok k" "value_ok v" "c \<in> set (print_field (k, v))"
    using rf(2,3) unfolding printable_stanza_def f by blast+
  then consider "c \<in> set k" | "c = 58" | "c = 32" | "c \<in> set v" by (auto simp: print_field_def u_def)
  then show ?thesis
  proof cases
    case 1
    with field_name_char [OF kv(1)] have "45 \<le> c" "c \<le> 122" by auto
    then show ?thesis by (auto simp: is_scalar_def control_char_def)
  next
    case 4
    with kv(2) show ?thesis by (auto simp: value_ok_def list_all_iff)
  qed (auto simp: is_scalar_def control_char_def)
qed

lemma deb822_print:
  assumes "\<forall>r \<in> set rs. printable_stanza r" "length rs \<le> n"
    "utf8_encode (join_on [10] (print_stanzas rs)) = Some raw" "length raw \<le> limit"
  shows "deb822 limit n raw = Inr rs"
proof (cases rs)
  case Nil
  then have "raw = []" using assms(3) by (simp add: print_stanzas_def utf8_encode_def)
  moreover have "utf8_decode [] = Some []" by code_simp
  ultimately show ?thesis using Nil by (simp add: deb822_def deb822_line_def)
next
  case (Cons r0 rs0)
  let ?t = "join_on [10] (print_stanzas rs)"
  have dec: "utf8_decode raw = Some ?t" by (rule utf8_decode_encode [OF assms(3)])
  have plain: "c \<in> set ?t \<Longrightarrow> c = 10 \<or> (c \<noteq> 13 \<and> \<not> control_char c)" for c
    using set_join_on_subset [of c "[10]" "print_stanzas rs"] print_lines_plain [OF assms(1)] by auto
  then have no: "13 \<notin> set ?t" "\<not> list_ex control_char ?t"
    using plain [of 13] by (auto simp: list_ex_iff) (metis control_char_def plain)
  have ne: "print_stanzas rs \<noteq> []" by (simp add: Cons print_stanzas_def)
  have split: "split_on 10 ?t = print_stanzas rs"
    using print_lines_plain [OF assms(1)] by (intro split_join_on [OF ne]) auto
  from print_stanzas_fold [OF assms(1), of "[]" n None] assms(2) obtain prev
    where f: "foldE (deb822_line n) ([], [], None) (print_stanzas rs) = Inr (rs, [], prev)" by auto
  show ?thesis
    using assms(2,4) dec no by (simp add: deb822_def Let_def replace_crlf_id split f)
qed

section \<open>Properties\<close>

text \<open>C14: Control paragraphs round-trip: paragraphs with distinct well-formed field names and
  printable single-line values, written one field per line with a blank line after each
  paragraph and encoded in UTF-8, are read back unchanged, in order.\<close>

theorem deb822_reads_printed:
  assumes "\<forall>r \<in> set rs. printable_stanza r" "length rs \<le> max_stanzas"
    "utf8_encode (join_on [10] (print_stanzas rs)) = Some raw" "length raw \<le> limit"
  shows "deb822 limit max_stanzas raw = Inr rs"
  by (rule deb822_print [OF assms])

theorem deb822_reads_printed_witness:
  "deb822 1000 10 (ascii_encode (u ''package: libc6'' @ [10] @ u ''version: 2.38-1'' @ [10]))
     = Inr [[(u ''package'', u ''libc6''), (u ''version'', u ''2.38-1'')]]"
proof -
  let ?rs = "[[(u ''package'', u ''libc6''), (u ''version'', u ''2.38-1'')]]"
  have p: "\<forall>r \<in> set ?rs. printable_stanza r" by code_simp
  have e: "utf8_encode (join_on [10] (print_stanzas ?rs)) =
      Some (ascii_encode (u ''package: libc6'' @ [10] @ u ''version: 2.38-1'' @ [10]))" by code_simp
  show ?thesis by (rule deb822_reads_printed [OF p _ e]) (simp_all add: ascii_encode_def)
qed

text \<open>Whatever the bytes, the paragraphs returned are non-empty, at most as many as allowed, with
  distinct field names of lower-case letters, digits and dashes (so no field can be given
  twice), and at most 1025 fields.\<close>

theorem deb822_well_formed:
  assumes "deb822 limit max_stanzas raw = Inr rs"
  shows "length raw \<le> limit \<and> length rs \<le> max_stanzas \<and> (\<forall>r \<in> set rs. r \<noteq> [] \<and> distinct (map fst r)
    \<and> (\<forall>k \<in> fst ` set r. field_name_ok k) \<and> length r \<le> 1025)"
  using deb822_ok [OF assms] by (simp add: stanza_ok_def)

theorem deb822_well_formed_witness:
  "deb822 1000 10 (ascii_encode (u ''A: b'' @ [10] @ u '' c'' @ [10, 10] @ u ''d:e''))
     = Inr [[(u ''a'', u ''b'' @ [10] @ u ''c'')], [(u ''d'', u ''e'')]]
   \<and> field_name_ok (u ''a'') \<and> field_name_ok (u ''d'')"
proof -
  have r: "deb822 1000 10 (ascii_encode (u ''A: b'' @ [10] @ u '' c'' @ [10, 10] @ u ''d:e''))
     = Inr [[(u ''a'', u ''b'' @ [10] @ u ''c'')], [(u ''d'', u ''e'')]]" by code_simp
  from deb822_well_formed [OF r] r show ?thesis by simp
qed

text \<open>The name is checked after lower-casing it, so a name that is not ASCII can pass the check.\<close>

lemma deb822_kelvin_sign:
  "deb822 100 1 [112, 97, 99, 0xE2, 0x84, 0xAA, 97, 103, 101, 58, 120] = Inr [[(u ''package'', u ''x'')]]"
  by code_simp

end
