(* ===== verification/Deb_Archive.thy ===== *)
theory Deb_Archive
  imports Nia_Common
begin

text \<open>
  The containers of a Debian package: \<open>ar_members\<close> and \<open>decompress\<close> of
  \<open>tools/deb_archive.py\<close> and the single-frame reader of \<open>tools/zstd_bounded.py\<close>. The
  decompressors (\<open>zlib\<close>, \<open>lzma\<close> and \<open>libzstd\<close>) are arguments: what they return is checked by
  the code, and nothing is assumed of them.
\<close>

definition MAX_DEB :: nat where
  "MAX_DEB = 512 * 1024 * 1024"

section \<open>The ar container\<close>

definition ar_magic :: pybytes where
  "ar_magic = bs ''!<arch>'' @ [10]"

text \<open>\<open>h[a:b].decode('ascii')\<close>, and the text fields of a header.\<close>

definition ascii_slice :: "pybytes \<Rightarrow> nat \<Rightarrow> nat \<Rightarrow> pystr res" where
  "ascii_slice h a b = (case ascii_decode (take (b - a) (drop a h)) of
     None \<Rightarrow> invalid ''ar non-ASCII header'' | Some s \<Rightarrow> Inr s)"

definition drop_slash :: "pystr \<Rightarrow> pystr" where
  "drop_slash name = (if endswith name [47] then butlast name else name)"

definition octal_digit :: "nat \<Rightarrow> bool" where
  "octal_digit c \<longleftrightarrow> 48 \<le> c \<and> c \<le> 55"

definition ar_numbers :: "(nat \<times> nat \<times> nat) list" where
  "ar_numbers = [(16, 28, 10), (28, 34, 10), (34, 40, 10), (40, 48, 8)]"

definition ar_number :: "pybytes \<Rightarrow> nat \<times> nat \<times> nat \<Rightarrow> unit res" where
  "ar_number h f = (case f of (off, e, base) \<Rightarrow>
     bindE (ascii_slice h off e) (\<lambda>s. let token = strip is_space s in
       if token = [] \<or> list_ex (\<lambda>c. \<not> (if base = 8 then octal_digit c else ascii_digit c)) token
       then invalid ''ar numeric metadata'' else Inr ()))"

definition decimal :: "pystr \<Rightarrow> nat" where
  "decimal s = digits_value (map (\<lambda>c. c - 48) s)"

definition ar_header :: "pybytes \<Rightarrow> (pystr \<times> nat) res" where
  "ar_header h =
     bindE (ascii_slice h 0 16) (\<lambda>n.
       let name = drop_slash (rstrip (\<lambda>c. c = 32) n) in
     bindE (ascii_slice h 48 58) (\<lambda>t.
       let ntext = strip is_space t in
       if ntext = [] \<or> \<not> list_all ascii_digit ntext then invalid ''ar size syntax''
       else bindE (eachE (ar_number h) ar_numbers) (\<lambda>_. Inr (name, decimal ntext))))"

type_synonym member = "pystr \<times> pybytes"

definition ar_step :: "member list \<Rightarrow> pybytes \<Rightarrow> (member list \<times> pybytes) res" where
  "ar_step result rest =
     (if length result \<ge> 16 \<or> length rest < 60 then invalid ''invalid ar header count/length''
      else let h = take 60 rest; body = drop 60 rest in
        if drop 58 h \<noteq> [96, 10] then invalid ''ar header trailer''
        else bindE (ar_header h) (\<lambda>(name, n).
          if name = [] \<or> 47 \<in> set name \<or> name \<in> fst ` set result \<or> n > length body
          then invalid ''ar duplicate/name/size''
          else let data = take n body; after = drop n body in
            if odd n then (if take 1 after \<noteq> [10] then invalid ''ar padding''
                           else Inr (result @ [(name, data)], drop 1 after))
            else Inr (result @ [(name, data)], after)))"

lemma ar_step_shorter: "ar_step result rest = Inr (result', rest') \<Longrightarrow> length rest' < length rest"
  by (auto simp: ar_step_def Let_def bindE_eq_Inr split: if_splits prod.splits)

function ar_loop :: "member list \<Rightarrow> pybytes \<Rightarrow> member list res" where
  "ar_loop result rest =
     (if rest = [] then Inr result
      else bindE (ar_step result rest) (\<lambda>(result', rest'). ar_loop result' rest'))"
  by pat_completeness auto
termination
  by (relation "measure (\<lambda>(_, rest). length rest)") (auto dest: ar_step_shorter)

declare ar_loop.simps [simp del]

definition CONTROL_NAMES :: "pystr list" where
  "CONTROL_NAMES = map u [''control.tar'', ''control.tar.gz'', ''control.tar.xz'', ''control.tar.zst'']"

definition DATA_NAMES :: "pystr list" where
  "DATA_NAMES = map u [''data.tar'', ''data.tar.gz'', ''data.tar.xz'', ''data.tar.zst'']"

definition ar_members :: "pybytes \<Rightarrow> member list res" where
  "ar_members raw =
     (if length raw > MAX_DEB \<or> \<not> startswith raw ar_magic then invalid ''invalid or oversized ar''
      else bindE (ar_loop [] (drop 8 raw)) (\<lambda>result.
        if length result \<noteq> 3 \<or> result ! 0 \<noteq> (u ''debian-binary'', bs ''2.0'' @ [10])
        then invalid ''only canonical deb 2.0 with three members is qualified''
        else if fst (result ! 1) \<notin> set CONTROL_NAMES \<or> fst (result ! 2) \<notin> set DATA_NAMES
        then invalid ''unsupported DEB member/compression''
        else Inr result))"

section \<open>Decompression\<close>

text \<open>
  What a streaming decompressor reports after one call with an output bound: the output, and
  whether input was left unconsumed, the end of the stream was reached, and data follows it.
  \<open>None\<close> is one of its documented exceptions.
\<close>

record inflated =
  z_out :: pybytes
  z_unconsumed :: bool
  z_eof :: bool
  z_unused :: bool

type_synonym inflater = "pybytes \<Rightarrow> nat \<Rightarrow> inflated option"

text \<open>
  \<open>libzstd\<close>, as the bridge calls it: \<open>zs_decompress capacity source\<close> is the return code and the
  bytes written to the destination buffer.
\<close>

record zstd =
  zs_available :: bool
  zs_is_error :: "nat \<Rightarrow> bool"
  zs_frame_size :: "pybytes \<Rightarrow> nat"
  zs_dict_id :: "pybytes \<Rightarrow> nat"
  zs_content_size :: "pybytes \<Rightarrow> nat"
  zs_decompress :: "nat \<Rightarrow> pybytes \<Rightarrow> nat \<times> pybytes"

definition zstd_magic :: pybytes where
  "zstd_magic = [40, 181, 47, 253]"

text \<open>A \<open>create_string_buffer(n)\<close> holding what was written: \<open>n\<close> bytes, zero where untouched.\<close>

definition buffer_of :: "nat \<Rightarrow> pybytes \<Rightarrow> pybytes" where
  "buffer_of n written = take n (written @ replicate n 0)"

definition zstd_decode :: "zstd \<Rightarrow> pybytes \<Rightarrow> nat \<Rightarrow> pybytes res" where
  "zstd_decode lib raw limit =
     (if \<not> startswith raw zstd_magic then invalid ''zstd: expected ordinary single frame''
      else if \<not> zs_available lib then invalid ''zstd shared library unavailable''
      else let n = zs_frame_size lib raw in
        if zs_is_error lib n \<or> n \<noteq> length raw then invalid ''zstd: truncated/concatenated/trailing frame''
        else if zs_dict_id lib raw \<noteq> 0 then invalid ''zstd dictionaries not qualified''
        else let len = zs_content_size lib raw in
          if len \<ge> 2 ^ 64 - 2 then invalid ''zstd frame must declare bounded content length''
          else if len > limit then invalid ''zstd output limit''
          else (case zs_decompress lib len raw of (actual, written) \<Rightarrow>
            if zs_is_error lib actual \<or> actual \<noteq> len then invalid ''zstd content length/decompression failure''
            else Inr (take actual (buffer_of (max 1 len) written))))"

record codecs =
  gunzip :: inflater
  unxz :: inflater
  libzstd :: zstd

definition inflate_result :: "inflated option \<Rightarrow> nat \<Rightarrow> bool \<Rightarrow> pybytes res" where
  "inflate_result r limit gz = (case r of
       None \<Rightarrow> invalid ''compressed member invalid''
     | Some z \<Rightarrow>
         if gz \<and> (length (z_out z) > limit \<or> z_unconsumed z) then invalid ''decompression output limit''
         else if length (z_out z) > limit \<or> \<not> z_eof z \<or> z_unused z
         then invalid ''truncated, concatenated, or oversized compressed member''
         else Inr (z_out z))"

definition decompress :: "codecs \<Rightarrow> pystr \<Rightarrow> pybytes \<Rightarrow> nat \<Rightarrow> pybytes res" where
  "decompress c name raw limit =
     (if endswith name (u ''.gz'') then inflate_result (gunzip c raw (limit + 1)) limit True
      else if endswith name (u ''.xz'') then inflate_result (unxz c raw (limit + 1)) limit False
      else if endswith name (u ''.zst'') then zstd_decode (libzstd c) raw limit
      else if endswith name (u ''.tar'') then
        (if length raw > limit then invalid ''tar size limit'' else Inr raw)
      else invalid ''unknown compression'')"

section \<open>The members are the file, cut up\<close>

definition ar_block :: "pybytes \<Rightarrow> member \<Rightarrow> pybytes" where
  "ar_block h m = h @ snd m @ (if odd (length (snd m)) then [10] else [])"

definition header_ok :: "pybytes \<Rightarrow> member \<Rightarrow> bool" where
  "header_ok h m \<longleftrightarrow> length h = 60 \<and> drop 58 h = [96, 10] \<and> ar_header h = Inr (fst m, length (snd m))
     \<and> fst m \<noteq> [] \<and> 47 \<notin> set (fst m)"

lemma cut_body:
  assumes "(if odd n then (if take 1 (drop n b) \<noteq> [10] then invalid e
         else Inr (result @ [(name, take n b)], drop 1 (drop n b)))
       else Inr (result @ [(name, take n b)], drop n b)) = Inr (result', rest')"
  shows "result' = result @ [(name, take n b)] \<and> b = take n b @ (if odd n then [10] else []) @ rest'"
proof (cases "odd n")
  case True
  with assms have t: "take 1 (drop n b) = [10]" "result' = result @ [(name, take n b)]" "rest' = drop 1 (drop n b)"
    by (auto split: if_splits)
  have "b = take n b @ take 1 (drop n b) @ drop 1 (drop n b)"
    by (simp only: append_take_drop_id)
  then show ?thesis using True t by simp
next
  case False
  with assms show ?thesis by auto
qed

lemma ar_step_block:
  assumes "ar_step result rest = Inr (result', rest')"
  shows "\<exists>h m. result' = result @ [m] \<and> rest = ar_block h m @ rest' \<and> header_ok h m
    \<and> fst m \<notin> fst ` set result \<and> length result < 16"
proof -
  from assms have len: "length result < 16" "60 \<le> length rest" and trailer: "drop 58 (take 60 rest) = [96, 10]"
    by (auto simp: ar_step_def Let_def split: if_splits)
  from assms len trailer obtain name n where hd: "ar_header (take 60 rest) = Inr (name, n)"
    and ok: "name \<noteq> []" "47 \<notin> set name" "name \<notin> fst ` set result" "n \<le> length (drop 60 rest)"
    and res: "(if odd n then (if take 1 (drop n (drop 60 rest)) \<noteq> [10] then invalid ''ar padding''
         else Inr (result @ [(name, take n (drop 60 rest))], drop 1 (drop n (drop 60 rest))))
       else Inr (result @ [(name, take n (drop 60 rest))], drop n (drop 60 rest))) = Inr (result', rest')"
    unfolding ar_step_def Let_def by (auto simp: bindE_eq_Inr split: if_splits)
  let ?b = "drop 60 rest" and ?m = "(name, take n (drop 60 rest))"
  have r: "rest = take 60 rest @ ?b" by simp
  have "result' = result @ [?m] \<and> ?b = take n ?b @ (if odd n then [10] else []) @ rest'"
    using res by (rule cut_body)
  then have m: "result' = result @ [?m]" and b: "?b = take n ?b @ (if odd n then [10] else []) @ rest'"
    by blast+
  have "length (take n ?b) = n" using ok(4) by simp
  then have "ar_block (take 60 rest) ?m @ rest' = take 60 rest @ ?b"
    unfolding ar_block_def snd_conv append_assoc by (subst (3) b) simp
  then have "rest = ar_block (take 60 rest) ?m @ rest'" by simp
  moreover note m
  moreover have "header_ok (take 60 rest) ?m"
    using len trailer hd ok by (simp add: header_ok_def min_def)
  ultimately show ?thesis using len(1) ok(3) by auto
qed

lemma ar_loop_blocks:
  assumes "ar_loop result rest = Inr ms" "distinct (map fst result)" "length result \<le> 16"
  shows "\<exists>hs ns. ms = result @ ns \<and> list_all2 header_ok hs ns \<and> rest = concat (map2 ar_block hs ns)
    \<and> distinct (map fst ms) \<and> length ms \<le> 16"
  using assms
proof (induction result rest rule: ar_loop.induct)
  case (1 result rest)
  show ?case
  proof (cases "rest = []")
    case True
    with "1.prems" have "ms = result" by (simp add: ar_loop.simps [of result "[]"])
    with True "1.prems" show ?thesis by (intro exI [of _ "[]"]) simp
  next
    case False
    with "1.prems"(1) obtain result' rest' where s: "ar_step result rest = Inr (result', rest')"
      and l: "ar_loop result' rest' = Inr ms"
      unfolding ar_loop.simps [of result rest] by (auto simp: bindE_eq_Inr)
    from ar_step_block [OF s] obtain h m where hm: "result' = result @ [m]" "rest = ar_block h m @ rest'"
      "header_ok h m" "fst m \<notin> fst ` set result" "length result < 16" by blast
    have "distinct (map fst result')" "length result' \<le> 16" using hm "1.prems"(2) by auto
    from "1.IH" [OF False s refl l this] obtain hs ns where ih: "ms = result' @ ns" "list_all2 header_ok hs ns"
      "rest' = concat (map2 ar_block hs ns)" "distinct (map fst ms)" "length ms \<le> 16" by blast
    show ?thesis
      using ih hm by (intro exI [of _ "h # hs"] exI [of _ "m # ns"]) simp
  qed
qed

lemma decompress_bound: "decompress c name raw limit = Inr out \<Longrightarrow> length out \<le> limit"
  by (auto simp: decompress_def inflate_result_def zstd_decode_def buffer_of_def Let_def
      split: if_splits option.splits prod.splits)

section \<open>Properties\<close>

text \<open>A package accepted as an ar archive is exactly its magic and three members in order, each a
  60-byte header that says the member's name and length, the content, and a newline of padding
  after an odd length: no byte of the file is left out or read twice. The names are distinct,
  and the first member is the format version.\<close>

theorem ar_members_partition:
  assumes "ar_members raw = Inr ms"
  shows "\<exists>hs. raw = ar_magic @ concat (map2 ar_block hs ms) \<and> list_all2 header_ok hs ms
    \<and> distinct (map fst ms) \<and> length ms = 3 \<and> ms ! 0 = (u ''debian-binary'', bs ''2.0'' @ [10])
    \<and> fst (ms ! 1) \<in> set CONTROL_NAMES \<and> fst (ms ! 2) \<in> set DATA_NAMES"
proof -
  from assms have l: "ar_loop [] (drop 8 raw) = Inr ms" and sw: "startswith raw ar_magic"
    and ms: "length ms = 3" "ms ! 0 = (u ''debian-binary'', bs ''2.0'' @ [10])"
      "fst (ms ! 1) \<in> set CONTROL_NAMES" "fst (ms ! 2) \<in> set DATA_NAMES"
    by (auto simp: ar_members_def bindE_eq_Inr split: if_splits)
  from ar_loop_blocks [OF l] obtain hs where hs: "list_all2 header_ok hs ms"
    "drop 8 raw = concat (map2 ar_block hs ms)" "distinct (map fst ms)" by auto
  from sw obtain r where r: "raw = ar_magic @ r" by (auto simp: startswith_iff)
  moreover have "length ar_magic = 8" by (simp add: ar_magic_def)
  ultimately have "raw = ar_magic @ drop 8 raw" by simp
  with hs ms show ?thesis by metis
qed

definition example_header :: "string \<Rightarrow> string \<Rightarrow> pybytes" where
  "example_header name n = bs (take 16 (name @ replicate 16 CHR '' '')) @ bs ''1700000000  0     0     100644  ''
     @ bs (take 10 (n @ replicate 10 CHR '' '')) @ [96, 10]"

definition example_ar :: pybytes where
  "example_ar = ar_magic @ example_header ''debian-binary'' ''4'' @ bs ''2.0'' @ [10]
     @ example_header ''control.tar/'' ''1'' @ bs ''c'' @ [10] @ example_header ''data.tar'' ''2'' @ bs ''dd''"

theorem ar_members_partition_witness:
  "ar_members example_ar = Inr [(u ''debian-binary'', bs ''2.0'' @ [10]), (u ''control.tar'', bs ''c''),
     (u ''data.tar'', bs ''dd'')]
   \<and> (\<exists>hs. example_ar = ar_magic @ concat (map2 ar_block hs [(u ''debian-binary'', bs ''2.0'' @ [10]),
       (u ''control.tar'', bs ''c''), (u ''data.tar'', bs ''dd'')]))"
proof -
  have r: "ar_members example_ar = Inr [(u ''debian-binary'', bs ''2.0'' @ [10]), (u ''control.tar'', bs ''c''),
     (u ''data.tar'', bs ''dd'')]" by code_simp
  from ar_members_partition [OF r] r show ?thesis by blast
qed

text \<open>Decompression never returns more than the caller's limit, whatever the decompression
  libraries return: an output that is too long, incomplete, or followed by further data is an
  error.\<close>

theorem decompress_bounded:
  assumes "decompress c name raw limit = Inr out"
  shows "length out \<le> limit"
  by (rule decompress_bound [OF assms])

definition stored_codecs :: codecs where
  "stored_codecs = \<lparr>gunzip = (\<lambda>raw n. Some \<lparr>z_out = take n (drop 1 raw), z_unconsumed = False, z_eof = True, z_unused = False\<rparr>),
     unxz = (\<lambda>raw n. None),
     libzstd = \<lparr>zs_available = True, zs_is_error = (\<lambda>n. n \<ge> 1000), zs_frame_size = length, zs_dict_id = (\<lambda>_. 0),
        zs_content_size = (\<lambda>raw. length raw - 4), zs_decompress = (\<lambda>cap raw. (cap, drop 4 raw))\<rparr>\<rparr>"

theorem decompress_bounded_witness:
  "decompress stored_codecs (u ''data.tar.zst'') (zstd_magic @ bs ''abc'') 3 = Inr (bs ''abc'')
   \<and> length (bs ''abc'') \<le> 3"
proof -
  have r: "decompress stored_codecs (u ''data.tar.zst'') (zstd_magic @ bs ''abc'') 3 = Inr (bs ''abc'')"
    by code_simp
  from decompress_bounded [OF r] r show ?thesis by blast
qed

end
