(* ===== verification/Deb_Tar.thy ===== *)
theory Deb_Tar
  imports Deb_Archive
begin

text \<open>
  \<open>member_path\<close> and \<open>tar_inventory\<close> of \<open>tools/deb_archive.py\<close>: the checked inventory of a tar
  archive that is never extracted. Python's \<open>tarfile\<close> is an argument: \<open>tar_reader raw\<close> is the
  members it yields, in order, and the offset where it stopped, or \<open>None\<close> if it raised.
\<close>

definition MAX_DATA :: nat where
  "MAX_DATA = 512 * 1024 * 1024"

definition MAX_CONTROL_BYTES :: nat where
  "MAX_CONTROL_BYTES = 16 * 1024 * 1024"

definition MAX_MEMBERS :: nat where
  "MAX_MEMBERS = 131072"

definition MAX_MEMBER :: int where
  "MAX_MEMBER = 256 * 1024 * 1024"

section \<open>What tarfile yields\<close>

datatype ttype = TRegular | TDirectory | TSymlink | THardlink | TOther

text \<open>A time stamp: an integer, a float by its floor and whether it has a fraction, or not a number.\<close>

datatype mtime = MInt int | MFloat int bool | MNan

record tarmember =
  tm_name :: pystr
  tm_type :: ttype
  tm_size :: int
  tm_uid :: int
  tm_gid :: int
  tm_mode :: int
  tm_mtime :: mtime
  tm_sparse :: bool
  tm_pax :: "(pystr \<times> pystr) list"
  tm_link :: pystr
  tm_data :: "pybytes option"

type_synonym tar_reader = "pybytes \<Rightarrow> tarmember list \<times> nat option"

section \<open>The inventory\<close>

definition member_path :: "bool \<Rightarrow> pystr \<Rightarrow> pystr res" where
  "member_path directory name =
     (if name = u ''.'' \<or> name = u ''./'' then
        (if directory then Inr [] else invalid ''root member is not a directory'')
      else let n = (if startswith name (u ''./'') then drop 2 name else name);
               n' = (if directory then rstrip (\<lambda>c. c = 47) n else n)
           in relative n')"

record tarrec =
  t_path :: pystr
  t_kind :: ttype
  t_mode :: int
  t_uid :: int
  t_gid :: int
  t_size :: int
  t_mtime :: int
  t_sha :: "pystr option"
  t_link :: pystr
  t_xattrs :: "(pystr \<times> pystr) list"
  t_resolved :: "pystr option"

definition check_mtime :: "mtime \<Rightarrow> int res" where
  "check_mtime m = (case m of
       MInt i \<Rightarrow> if i < 0 \<or> i \<ge> 2 ^ 63 then invalid ''unsupported tar timestamp'' else Inr i
     | MFloat i frac \<Rightarrow> if i < 0 \<or> i \<ge> 2 ^ 63 then invalid ''unsupported tar timestamp''
                       else if frac then invalid ''fractional mtime not qualified'' else Inr i
     | MNan \<Rightarrow> invalid ''malformed tar'')"

definition MODELED_PAX :: "pystr list" where
  "MODELED_PAX = map u [''path'', ''linkpath'', ''size'', ''mtime'', ''uid'', ''gid'', ''uname'', ''gname'']"

definition xattr_prefix :: pystr where
  "xattr_prefix = u ''SCHILY.xattr.''"

definition pax_step :: "(pystr \<times> pystr) list \<Rightarrow> pystr \<times> pystr \<Rightarrow> (pystr \<times> pystr) list res" where
  "pax_step pax p = (case p of (key, value) \<Rightarrow>
     if key \<in> set MODELED_PAX then Inr pax
     else if \<not> startswith key xattr_prefix then invalid ''unmodeled pax extension''
     else if length key > 512 \<or> length value > 65536 then invalid ''xattr limit''
     else Inr (dict_set (drop (length xattr_prefix) key) value pax))"

definition link_step :: "pystr list \<Rightarrow> pystr \<Rightarrow> pystr list res" where
  "link_step parts part =
     (if part = [] \<or> part = u ''.'' then Inr parts
      else if part = u ''..'' then
        (if parts = [] then invalid ''link escapes installation root'' else Inr (butlast parts))
      else Inr (parts @ [part]))"

definition link_base :: "pystr \<Rightarrow> pystr \<Rightarrow> pystr list" where
  "link_base name link = (if startswith link [47] then [] else butlast (split_on 47 name))"

definition check_link :: "pystr \<Rightarrow> tarmember \<Rightarrow> pystr res" where
  "check_link name m =
     (case tm_type m of
        TSymlink \<Rightarrow>
          let link = tm_link m in
          if link = [] \<or> 0 \<in> set link \<or> 92 \<in> set link \<or> list_ex (\<lambda>c. c < 32) link then invalid ''invalid link''
          else bindE (foldE link_step (link_base name link) (split_on 47 link)) (\<lambda>_. Inr link)
      | THardlink \<Rightarrow> member_path False (tm_link m)
      | _ \<Rightarrow> Inr [])"

type_synonym tar_state = "tarrec list \<times> (pystr \<times> pybytes) list \<times> pystr list \<times> nat"

definition check_metadata :: "bool \<Rightarrow> tarmember \<Rightarrow> int res" where
  "check_metadata control m =
     (if tm_size m < 0 \<or> tm_size m > MAX_MEMBER \<or> tm_uid m < 0 \<or> tm_gid m < 0
         \<or> tm_uid m \<ge> 2 ^ 32 \<or> tm_gid m \<ge> 2 ^ 32
      then invalid ''tar metadata limit''
      else if tm_mode m < 0 \<or> tm_mode m > 4095 then invalid ''tar mode outside supported mask''
      else bindE (check_mtime (tm_mtime m)) (\<lambda>mtime.
        if tm_sparse m then invalid ''sparse tar member not qualified''
        else if control \<and> tm_type m \<noteq> TRegular then invalid ''control member must be a regular file''
        else if tm_type m = TOther then invalid ''device/fifo/unknown tar type forbidden''
        else Inr mtime))"

definition payload :: "bool \<Rightarrow> nat \<Rightarrow> tarmember \<Rightarrow> (pybytes \<times> nat) res" where
  "payload control total_bytes m =
     (if tm_type m \<noteq> TRegular then Inr ([], total_bytes)
      else case tm_data m of
        None \<Rightarrow> invalid ''missing file payload''
      | Some data \<Rightarrow>
          if int (length data) \<noteq> tm_size m then invalid ''payload size mismatch''
          else let n = total_bytes + length data in
            if n > (if control then MAX_CONTROL_BYTES else MAX_DATA) then invalid ''unpacked byte limit''
            else Inr (data, n))"

definition tar_step :: "bool \<Rightarrow> tar_state \<Rightarrow> tarmember \<Rightarrow> tar_state res" where
  "tar_step control st m = (case st of (records, bodies, seen, n) \<Rightarrow>
     if length records \<ge> MAX_MEMBERS then invalid ''tar member count limit''
     else bindE (member_path (tm_type m = TDirectory) (tm_name m)) (\<lambda>name.
       if name \<in> set seen then invalid ''duplicate normalized tar path''
       else if name = [] then Inr (records, bodies, name # seen, n)
       else bindE (check_metadata control m) (\<lambda>mtime.
         bindE (foldE pax_step [] (tm_pax m)) (\<lambda>pax.
         bindE (check_link name m) (\<lambda>link.
         bindE (payload control n m) (\<lambda>(data, n').
           Inr (records @ [\<lparr>t_path = name, t_kind = tm_type m, t_mode = tm_mode m, t_uid = tm_uid m,
                  t_gid = tm_gid m, t_size = tm_size m, t_mtime = mtime,
                  t_sha = (if tm_type m = TRegular then Some (sha data) else None),
                  t_link = link, t_xattrs = pax, t_resolved = None\<rparr>],
                (if control \<and> tm_type m = TRegular then dict_set name data bodies else bodies),
                name # seen, n')))))))"

definition find_rec :: "tarrec list \<Rightarrow> pystr \<Rightarrow> tarrec option" where
  "find_rec records path = find (\<lambda>r. t_path r = path) records"

definition check_ancestor :: "tarrec list \<Rightarrow> pystr \<Rightarrow> unit res" where
  "check_ancestor records parent = (case find_rec records parent of
       Some r \<Rightarrow> if t_kind r \<noteq> TDirectory then invalid ''non-directory archive ancestor'' else Inr ()
     | None \<Rightarrow> Inr ())"

definition ancestors :: "pystr \<Rightarrow> pystr list" where
  "ancestors path = (let bits = split_on 47 path in
     map (\<lambda>n. join_on [47] (take n bits)) [1 ..< length bits])"

text \<open>\<open>for _ in range(64)\<close> with its \<open>else\<close> branch.\<close>

fun follow_hardlink :: "tarrec list \<Rightarrow> nat \<Rightarrow> pystr \<Rightarrow> pystr list \<Rightarrow> (pystr option) res" where
  "follow_hardlink records 0 target vis = invalid ''hardlink depth limit''"
| "follow_hardlink records (Suc n) target vis =
     (if target \<in> set vis then invalid ''hardlink cycle or missing target''
      else case find_rec records target of
        None \<Rightarrow> invalid ''hardlink cycle or missing target''
      | Some other \<Rightarrow>
          if t_kind other = TRegular then Inr (t_sha other)
          else if t_kind other \<noteq> THardlink then invalid ''hardlink to non-file''
          else follow_hardlink records n (t_link other) (target # vis))"

definition resolve_entry :: "tarrec list \<Rightarrow> tarrec \<Rightarrow> tarrec res" where
  "resolve_entry records e =
     bindE (eachE (check_ancestor records) (ancestors (t_path e))) (\<lambda>_.
       if t_kind e = THardlink then
         bindE (follow_hardlink records 64 (t_link e) [t_path e]) (\<lambda>h. Inr (e\<lparr>t_resolved := h\<rparr>))
       else Inr e)"

definition tar_inventory :: "tar_reader \<Rightarrow> bool \<Rightarrow> pybytes \<Rightarrow> (tarrec list \<times> (pystr \<times> pybytes) list) res" where
  "tar_inventory reader control raw =
     (if length raw mod 512 \<noteq> 0 \<or> length raw < 1024 then invalid ''tar block alignment''
      else case reader raw of (members, stop) \<Rightarrow>
        bindE (foldE (tar_step control) ([], [], [], 0) members) (\<lambda>(records, bodies, _, _).
          case stop of
            None \<Rightarrow> invalid ''malformed tar''
          | Some offset \<Rightarrow>
              if int (length raw) - int offset < 1024 \<or> list_ex (\<lambda>b. b \<noteq> 0) (drop offset raw)
              then invalid ''missing tar terminator or hidden trailing data''
              else bindE (mapE (resolve_entry records) records) (\<lambda>resolved.
                Inr (sort_key t_path resolved, bodies))))"

lemma list_all2_in_right: "list_all2 P xs ys \<Longrightarrow> y \<in> set ys \<Longrightarrow> \<exists>x \<in> set xs. P x y"
  by (metis in_set_conv_nth list_all2_conv_all_nth)

lemma list_all2_in_left: "list_all2 P xs ys \<Longrightarrow> x \<in> set xs \<Longrightarrow> \<exists>y \<in> set ys. P x y"
  by (metis in_set_conv_nth list_all2_conv_all_nth)

section \<open>What an accepted inventory guarantees\<close>

lemma link_fold_resolve:
  "foldE link_step base ps = Inr r \<longleftrightarrow> resolve base ps = Some r"
  by (induction ps arbitrary: base) (auto simp: link_step_def bindE_eq_Inr)

text \<open>
  The specification of a checked link: at every prefix of the target the depth below the
  installation root is not negative.
\<close>

definition link_depth :: "pystr list \<Rightarrow> int" where
  "link_depth ps = (\<Sum>p \<leftarrow> ps. if p = [] \<or> p = u ''.'' then 0 else if p = u ''..'' then - 1 else 1)"

lemma all_less_Suc_0: "(\<forall>n \<le> Suc k. P n) \<longleftrightarrow> P 0 \<and> (\<forall>n \<le> k. P (Suc n))"
  by (auto simp: less_Suc_eq_le elim: le_SucE) (metis Suc_le_mono not0_implies_Suc)

lemma resolve_depth:
  "resolve base ps \<noteq> None \<longleftrightarrow> (\<forall>n \<le> length ps. 0 \<le> int (length base) + link_depth (take n ps))"
proof (induction ps arbitrary: base)
  case Nil
  then show ?case by (simp add: link_depth_def)
next
  case (Cons p ps)
  show ?case
    unfolding all_less_Suc_0 length_Cons
    using Cons.IH [of base] Cons.IH [of "butlast base"] Cons.IH [of "base @ [p]"]
    by (cases "base = []") (auto simp: link_depth_def algebra_simps of_nat_diff Suc_le_eq dest: spec [of _ 0])
qed

lemma path_parts: "relative_ok s \<Longrightarrow> s \<noteq> []"
  by (auto simp: relative_ok_def)

definition entry_ok :: "tarrec \<Rightarrow> bool" where
  "entry_ok e \<longleftrightarrow> relative_ok (t_path e) \<and> 0 \<le> t_mode e \<and> t_mode e \<le> 4095
     \<and> 0 \<le> t_size e \<and> t_size e \<le> MAX_MEMBER \<and> 0 \<le> t_uid e \<and> t_uid e < 2 ^ 32 \<and> 0 \<le> t_gid e \<and> t_gid e < 2 ^ 32
     \<and> 0 \<le> t_mtime e \<and> t_mtime e < 2 ^ 63 \<and> t_kind e \<noteq> TOther
     \<and> (t_kind e = TRegular \<longleftrightarrow> t_sha e \<noteq> None)
     \<and> (t_kind e = TSymlink \<longrightarrow> t_link e \<noteq> [] \<and> (\<forall>c \<in> set (t_link e). 32 \<le> c \<and> c \<noteq> 92)
          \<and> resolve (link_base (t_path e) (t_link e)) (split_on 47 (t_link e)) \<noteq> None)
     \<and> (t_kind e = THardlink \<longrightarrow> relative_ok (t_link e))"

lemma member_path_ok: "member_path d n = Inr p \<Longrightarrow> p = [] \<and> d \<or> relative_ok p"
  by (auto simp: member_path_def relative_ok Let_def split: if_splits)

lemma check_metadata_ok:
  "check_metadata control m = Inr t \<longleftrightarrow>
     0 \<le> tm_size m \<and> tm_size m \<le> MAX_MEMBER \<and> 0 \<le> tm_uid m \<and> 0 \<le> tm_gid m \<and> tm_uid m < 2 ^ 32 \<and> tm_gid m < 2 ^ 32
     \<and> 0 \<le> tm_mode m \<and> tm_mode m \<le> 4095 \<and> check_mtime (tm_mtime m) = Inr t \<and> \<not> tm_sparse m
     \<and> (control \<longrightarrow> tm_type m = TRegular) \<and> tm_type m \<noteq> TOther"
  by (auto simp: check_metadata_def ok_simps)

lemma check_mtime_ok: "check_mtime m = Inr t \<Longrightarrow> 0 \<le> t \<and> t < 2 ^ 63"
  by (auto simp: check_mtime_def ok_simps split: mtime.splits)

lemma check_link_ok:
  assumes "check_link name m = Inr link"
  shows "tm_type m = TSymlink \<Longrightarrow> link \<noteq> [] \<and> (\<forall>c \<in> set link. 32 \<le> c \<and> c \<noteq> 92)
           \<and> resolve (link_base name link) (split_on 47 link) \<noteq> None"
    and "tm_type m = THardlink \<Longrightarrow> relative_ok link"
  using assms member_path_ok [of False "tm_link m" link]
  by (auto simp: check_link_def Let_def ok_simps link_fold_resolve list_ex_iff not_less)

lemma payload_ok:
  assumes "payload control n m = Inr (data, n')"
  shows "tm_type m = TRegular \<Longrightarrow> tm_size m = int (length data) \<and> n' = n + length data
           \<and> n' \<le> (if control then MAX_CONTROL_BYTES else MAX_DATA)"
    and "tm_type m \<noteq> TRegular \<Longrightarrow> n' = n"
  using assms by (auto simp: payload_def Let_def ok_simps split: option.splits)

text \<open>The loop's invariant.\<close>

definition file_bytes :: "tarrec list \<Rightarrow> int" where
  "file_bytes records = (\<Sum>e \<leftarrow> records. if t_kind e = TRegular then t_size e else 0)"

definition tar_inv :: "bool \<Rightarrow> tar_state \<Rightarrow> bool" where
  "tar_inv control st = (case st of (records, bodies, seen, n) \<Rightarrow>
     (\<forall>e \<in> set records. entry_ok e \<and> t_resolved e = None) \<and> distinct (map t_path records) \<and> set (map t_path records) \<subseteq> set seen
     \<and> length records \<le> MAX_MEMBERS \<and> file_bytes records = int n
     \<and> n \<le> (if control then MAX_CONTROL_BYTES else MAX_DATA)
     \<and> (if control then map fst bodies = map t_path records
          \<and> list_all2 (\<lambda>b e. t_kind e = TRegular \<and> t_size e = int (length (snd b)) \<and> t_sha e = Some (sha (snd b))) bodies records
        else bodies = []))"

lemma tar_step_inv:
  assumes "tar_inv control st" "tar_step control st m = Inr st'"
  shows "tar_inv control st'"
proof -
  obtain records bodies seen n where st: "st = (records, bodies, seen, n)" by (cases st) auto
  note step = assms(2) [unfolded st tar_step_def prod.case if_invalid_eq_Inr bindE_eq_Inr]
  from step obtain name where len: "length records < MAX_MEMBERS"
      and name: "member_path (tm_type m = TDirectory) (tm_name m) = Inr name" "name \<notin> set seen"
      and rest: "(if name = [] then Inr (records, bodies, name # seen, n)
         else bindE (check_metadata control m) (\<lambda>mtime.
         bindE (foldE pax_step [] (tm_pax m)) (\<lambda>pax.
         bindE (check_link name m) (\<lambda>link.
         bindE (payload control n m) (\<lambda>(data, n').
           Inr (records @ [\<lparr>t_path = name, t_kind = tm_type m, t_mode = tm_mode m, t_uid = tm_uid m,
                  t_gid = tm_gid m, t_size = tm_size m, t_mtime = mtime,
                  t_sha = (if tm_type m = TRegular then Some (sha data) else None),
                  t_link = link, t_xattrs = pax, t_resolved = None\<rparr>],
                (if control \<and> tm_type m = TRegular then dict_set name data bodies else bodies),
                name # seen, n')))))) = Inr st'"
    by (auto simp: not_le)
  show ?thesis
  proof (cases "name = []")
    case True
    then show ?thesis using rest assms(1) by (auto simp: tar_inv_def st)
  next
    case False
    from rest False obtain mtime pax link data n' where
        md: "check_metadata control m = Inr mtime" and cl: "check_link name m = Inr link"
        and pl: "payload control n m = Inr (data, n')"
        and st': "st' = (records @ [\<lparr>t_path = name, t_kind = tm_type m, t_mode = tm_mode m, t_uid = tm_uid m,
                  t_gid = tm_gid m, t_size = tm_size m, t_mtime = mtime,
                  t_sha = (if tm_type m = TRegular then Some (sha data) else None),
                  t_link = link, t_xattrs = pax, t_resolved = None\<rparr>],
                (if control \<and> tm_type m = TRegular then dict_set name data bodies else bodies),
                name # seen, n')"
      by (auto simp: bindE_eq_Inr)
    have rel: "relative_ok name" using member_path_ok [OF name(1)] False by blast
    have new: "name \<notin> set (map t_path records)" using name(2) assms(1) by (auto simp: tar_inv_def st)
    note facts = md [unfolded check_metadata_ok] check_mtime_ok check_link_ok [OF cl] payload_ok [OF pl] rel new len
    have eok: "entry_ok \<lparr>t_path = name, t_kind = tm_type m, t_mode = tm_mode m, t_uid = tm_uid m,
                  t_gid = tm_gid m, t_size = tm_size m, t_mtime = mtime,
                  t_sha = (if tm_type m = TRegular then Some (sha data) else None),
                  t_link = link, t_xattrs = pax, t_resolved = None\<rparr>"
      using md check_mtime_ok [of "tm_mtime m" mtime] check_link_ok [OF cl] rel
      by (auto simp: entry_ok_def check_metadata_ok)
    have bodies: "control \<Longrightarrow> dict_set name data bodies = bodies @ [(name, data)]"
      using new assms(1) by (intro dict_set_new) (auto simp: tar_inv_def st simp flip: set_map)
    have n': "int n' = int n + (if tm_type m = TRegular then tm_size m else 0)"
        "n' \<le> (if control then MAX_CONTROL_BYTES else MAX_DATA)"
      using payload_ok [OF pl] assms(1) by (cases "tm_type m = TRegular"; auto simp: tar_inv_def st)+
    have reg: "control \<Longrightarrow> tm_type m = TRegular" using md by (simp add: check_metadata_ok)
    show ?thesis
      using assms(1) eok bodies n' len new reg payload_ok(1) [OF pl]
      unfolding st st' tar_inv_def
      by (auto simp: file_bytes_def list_all2_appendI)
  qed
qed

text \<open>The regular file a hard link stands for, along a chain of hard links.\<close>

inductive hard_target :: "tarrec list \<Rightarrow> pystr \<Rightarrow> tarrec \<Rightarrow> bool" for records where
  regular: "r \<in> set records \<Longrightarrow> t_path r = path \<Longrightarrow> t_kind r = TRegular \<Longrightarrow> hard_target records path r"
| follow: "e \<in> set records \<Longrightarrow> t_path e = path \<Longrightarrow> t_kind e = THardlink \<Longrightarrow>
    hard_target records (t_link e) r \<Longrightarrow> hard_target records path r"

lemma find_rec_Some: "find_rec records p = Some r \<Longrightarrow> r \<in> set records \<and> t_path r = p"
  by (auto simp: find_rec_def find_Some_iff)

lemma find_rec_None: "find_rec records p = None \<longleftrightarrow> (\<forall>r \<in> set records. t_path r \<noteq> p)"
  by (auto simp: find_rec_def find_None_iff)

lemma follow_hardlink_target:
  "follow_hardlink records n target vis = Inr h \<Longrightarrow> \<exists>r. hard_target records target r \<and> h = t_sha r"
proof (induction records n target vis rule: follow_hardlink.induct)
  case (2 records n target vis)
  then obtain other where o: "target \<notin> set vis" "find_rec records target = Some other"
      "if t_kind other = TRegular then h = t_sha other else
         t_kind other = THardlink \<and> follow_hardlink records n (t_link other) (target # vis) = Inr h"
    by (auto split: option.splits if_splits)
  show ?case
  proof (cases "t_kind other = TRegular")
    case True
    then show ?thesis using o find_rec_Some [OF o(2)] by (auto intro: hard_target.regular)
  next
    case False
    then obtain r where "hard_target records (t_link other) r" "h = t_sha r"
      using 2(1) [OF o(1,2)] o(3) by auto
    then show ?thesis using False o(3) find_rec_Some [OF o(2)] by (auto intro: hard_target.follow)
  qed
qed simp

lemma resolve_entry_ok:
  assumes "resolve_entry records e = Inr e'"
  shows "t_path e' = t_path e \<and> (\<exists>h. e' = e\<lparr>t_resolved := h\<rparr> \<and> (t_resolved e = None \<longrightarrow> t_kind e \<noteq> THardlink \<longrightarrow> h = None))"
    and "\<forall>p \<in> set (ancestors (t_path e)). \<forall>r \<in> set records. find_rec records p = Some r \<longrightarrow> t_kind r = TDirectory"
    and "t_kind e = THardlink \<Longrightarrow> \<exists>r. hard_target records (t_link e) r \<and> t_resolved e' = t_sha r"
proof -
  from assms have a: "eachE (check_ancestor records) (ancestors (t_path e)) = Inr ()"
      and b: "(if t_kind e = THardlink then
         bindE (follow_hardlink records 64 (t_link e) [t_path e]) (\<lambda>h. Inr (e\<lparr>t_resolved := h\<rparr>))
       else Inr e) = Inr e'"
    by (auto simp: resolve_entry_def bindE_eq_Inr)
  show "t_path e' = t_path e \<and> (\<exists>h. e' = e\<lparr>t_resolved := h\<rparr> \<and> (t_resolved e = None \<longrightarrow> t_kind e \<noteq> THardlink \<longrightarrow> h = None))"
    using b by (auto simp: bindE_eq_Inr split: if_splits intro: exI [of _ "t_resolved e"])
  show "\<forall>p \<in> set (ancestors (t_path e)). \<forall>r \<in> set records. find_rec records p = Some r \<longrightarrow> t_kind r = TDirectory"
    using a by (auto simp: eachE_eq_Inr check_ancestor_def split: if_splits)
  assume "t_kind e = THardlink"
  then show "\<exists>r. hard_target records (t_link e) r \<and> t_resolved e' = t_sha r"
    using b by (auto simp: bindE_eq_Inr dest: follow_hardlink_target)
qed

text \<open>
  \<open>resolved_from\<close>: the same records, in the order of their paths, with the contents of the hard
  links filled in.
\<close>

lemma find_rec_unique:
  "distinct (map t_path records) \<Longrightarrow> r \<in> set records \<Longrightarrow> find_rec records (t_path r) = Some r"
  by (metis (no_types, lifting) find_rec_None find_rec_Some distinct_map inj_onD not_None_eq)

definition inventory_safe :: "tarrec list \<Rightarrow> bool" where
  "inventory_safe recs \<longleftrightarrow>
     sorted (map t_path recs) \<and> distinct (map t_path recs) \<and> length recs \<le> MAX_MEMBERS
     \<and> (\<forall>e \<in> set recs. entry_ok e
         \<and> (\<forall>r \<in> set recs. t_path r \<in> set (ancestors (t_path e)) \<longrightarrow> t_kind r = TDirectory)
         \<and> (if t_kind e = THardlink then \<exists>r. hard_target recs (t_link e) r \<and> t_resolved e = t_sha r
            else t_resolved e = None))"

lemma hard_target_cong:
  assumes "hard_target records p r"
    and "\<And>e. e \<in> set records \<Longrightarrow> \<exists>e' \<in> set recs. t_path e' = t_path e \<and> t_kind e' = t_kind e \<and> t_link e' = t_link e \<and> t_sha e' = t_sha e"
  shows "\<exists>r'. hard_target recs p r' \<and> t_sha r' = t_sha r"
  using assms(1)
proof induction
  case (regular r path)
  from assms(2) [OF regular(1)] obtain r' where "r' \<in> set recs" "t_path r' = t_path r" "t_kind r' = t_kind r" "t_sha r' = t_sha r" by blast
  moreover from this regular have "hard_target recs path r'" by (metis hard_target.regular)
  ultimately show ?case by blast
next
  case (follow e path r)
  from assms(2) [OF follow.hyps(1)] obtain e' where "e' \<in> set recs" "t_path e' = t_path e" "t_kind e' = t_kind e" "t_link e' = t_link e" by blast
  moreover from follow.IH obtain r' where "hard_target recs (t_link e) r'" "t_sha r' = t_sha r" by blast
  ultimately have "hard_target recs path r'" using follow.hyps(2,3) by (metis hard_target.follow)
  with \<open>t_sha r' = t_sha r\<close> show ?case by blast
qed

lemma sum_list_sort_key: "(\<Sum>x \<leftarrow> sort_key k xs. f x) = (\<Sum>x \<leftarrow> xs. (f x :: int))"
proof -
  have "mset (map f (sort_key k xs)) = mset (map f xs)" by simp
  then show ?thesis by (metis sum_mset_sum_list)
qed

lemma tar_inventory_result:
  assumes "tar_inventory reader control raw = Inr (recs, bodies)"
  obtains records seen n resolved where
    "tar_inv control (records, bodies, seen, n)" "mapE (resolve_entry records) records = Inr resolved"
    "recs = sort_key t_path resolved"
proof -
  obtain members stop where r: "reader raw = (members, stop)" by (cases "reader raw") auto
  from assms obtain st where fold: "foldE (tar_step control) ([], [], [], 0) members = Inr st"
    by (auto simp: tar_inventory_def ok_simps r)
  obtain records bodies' seen n where st: "st = (records, bodies', seen, n)" by (cases st) auto
  have "tar_inv control ([], [], [], 0)" by (simp add: tar_inv_def file_bytes_def)
  then have inv: "tar_inv control st" by (rule foldE_invariant [OF fold]) (rule tar_step_inv)
  obtain resolved where "mapE (resolve_entry records) records = Inr resolved" "recs = sort_key t_path resolved" "bodies = bodies'"
    using assms fold st by (cases stop) (auto simp: tar_inventory_def r bindE_eq_Inr split: if_splits)
  with inv st that show thesis by blast
qed

lemma resolved_same:
  assumes "mapE (resolve_entry records) records = Inr resolved" "\<forall>e \<in> set records. t_resolved e = None"
  shows "map t_path resolved = map t_path records" "file_bytes resolved = file_bytes records"
    "\<And>e'. e' \<in> set resolved \<Longrightarrow> \<exists>e \<in> set records. resolve_entry records e = Inr e'"
    "\<And>e. e \<in> set records \<Longrightarrow> \<exists>e' \<in> set resolved. resolve_entry records e = Inr e'"
proof -
  from assms(1) have all: "list_all2 (\<lambda>e e'. resolve_entry records e = Inr e') records resolved" by (simp add: mapE_eq_Inr)
  have same: "t_path e' = t_path e \<and> t_kind e' = t_kind e \<and> t_size e' = t_size e"
    if "resolve_entry records e = Inr e'" for e e'
    using resolve_entry_ok(1) [OF that] by auto
  have "list_all2 (\<lambda>e e'. t_path e' = t_path e \<and> t_kind e' = t_kind e \<and> t_size e' = t_size e) records resolved"
    by (rule list_all2_mono [OF all same])
  then show "map t_path resolved = map t_path records" "file_bytes resolved = file_bytes records"
    by (induction rule: list_all2_induct) (auto simp: file_bytes_def)
  show "\<And>e'. e' \<in> set resolved \<Longrightarrow> \<exists>e \<in> set records. resolve_entry records e = Inr e'"
    "\<And>e. e \<in> set records \<Longrightarrow> \<exists>e' \<in> set resolved. resolve_entry records e = Inr e'"
    using all by (meson list_all2_in_right list_all2_in_left)+
qed

lemma entry_ok_resolved: "entry_ok (e\<lparr>t_resolved := h\<rparr>) = entry_ok e"
  by (simp add: entry_ok_def)

lemma inventory_is_safe:
  assumes "tar_inventory reader control raw = Inr (recs, bodies)"
  shows "inventory_safe recs \<and> file_bytes recs \<le> int (if control then MAX_CONTROL_BYTES else MAX_DATA)"
proof -
  from assms obtain records seen n resolved where
      inv: "tar_inv control (records, bodies, seen, n)" and res: "mapE (resolve_entry records) records = Inr resolved"
      and recs: "recs = sort_key t_path resolved"
    by (rule tar_inventory_result)
  have none: "\<forall>e \<in> set records. t_resolved e = None" using inv by (simp add: tar_inv_def)
  note same = resolved_same [OF res none]
  have set_recs: "set recs = set resolved" by (simp add: recs)
  have mset: "mset (map t_path recs) = mset (map t_path records)"
    by (simp add: recs) (metis mset_map same(1))
  have dist: "distinct (map t_path recs)"
    using inv mset_eq_imp_distinct_iff [OF mset] by (simp add: tar_inv_def)
  have dist': "distinct (map t_path records)" using inv by (simp add: tar_inv_def)
  have keeps: "\<exists>e' \<in> set recs. t_path e' = t_path e \<and> t_kind e' = t_kind e \<and> t_link e' = t_link e \<and> t_sha e' = t_sha e"
    if "e \<in> set records" for e
  proof -
    from same(4) [OF that] obtain e' where "e' \<in> set resolved" "resolve_entry records e = Inr e'" by blast
    with resolve_entry_ok(1) [of records e e'] show ?thesis unfolding set_recs by (intro bexI [of _ e']) auto
  qed
  have one: "entry_ok e' \<and> (\<forall>r \<in> set recs. t_path r \<in> set (ancestors (t_path e')) \<longrightarrow> t_kind r = TDirectory)
      \<and> (if t_kind e' = THardlink then \<exists>r. hard_target recs (t_link e') r \<and> t_resolved e' = t_sha r else t_resolved e' = None)"
    if e': "e' \<in> set recs" for e'
  proof -
    from e' set_recs same(3) obtain e where e: "e \<in> set records" and re: "resolve_entry records e = Inr e'" by blast
    obtain h where h: "e' = e\<lparr>t_resolved := h\<rparr>" "t_kind e \<noteq> THardlink \<longrightarrow> h = None"
      using resolve_entry_ok(1) [OF re] bspec [OF none e] by auto
    have "entry_ok e'" using inv e unfolding h(1) entry_ok_resolved by (simp add: tar_inv_def)
    moreover have "t_kind r = TDirectory" if r: "r \<in> set recs" "t_path r \<in> set (ancestors (t_path e'))" for r
    proof -
      from r(1) set_recs same(3) obtain r0 where r0: "r0 \<in> set records" "resolve_entry records r0 = Inr r" by blast
      with resolve_entry_ok(1) [OF r0(2)] have "t_path r0 = t_path r" "t_kind r0 = t_kind r" by auto
      then show ?thesis using resolve_entry_ok(2) [OF re] r(2) r0(1) find_rec_unique [OF dist' r0(1)] by (auto simp: h(1))
    qed
    moreover have "\<exists>r. hard_target recs (t_link e') r \<and> t_resolved e' = t_sha r" if "t_kind e' = THardlink"
    proof -
      from that h(1) have k: "t_kind e = THardlink" by simp
      obtain r where r: "hard_target records (t_link e) r" "t_resolved e' = t_sha r"
        using resolve_entry_ok(3) [OF re k] by blast
      from hard_target_cong [OF r(1) keeps] obtain r' where "hard_target recs (t_link e) r'" "t_sha r' = t_sha r" by blast
      then show ?thesis using r(2) h(1) by auto
    qed
    moreover have "t_kind e' \<noteq> THardlink \<Longrightarrow> t_resolved e' = None" using h by simp
    ultimately show ?thesis by simp
  qed
  have len: "length recs = length records" using recs mapE_length [OF res] by simp
  have "file_bytes recs = file_bytes resolved"
    unfolding recs file_bytes_def by (rule sum_list_sort_key)
  with same(2) have "file_bytes recs = file_bytes records" by simp
  then have "file_bytes recs \<le> int (if control then MAX_CONTROL_BYTES else MAX_DATA)"
    using inv by (simp add: tar_inv_def)
  moreover have "sorted (map t_path recs)" by (simp add: recs)
  ultimately show ?thesis
    unfolding inventory_safe_def using dist one len inv by (auto simp: tar_inv_def)
qed

lemma inventory_bodies:
  assumes "tar_inventory reader control raw = Inr (recs, bodies)"
  shows "(if control then set (map fst bodies) = set (map t_path recs)
            \<and> (\<forall>b \<in> set bodies. \<exists>e \<in> set recs. t_path e = fst b \<and> t_kind e = TRegular
                 \<and> t_size e = int (length (snd b)) \<and> t_sha e = Some (sha (snd b)))
          else bodies = [])"
proof -
  from assms obtain records seen n resolved where
      inv: "tar_inv control (records, bodies, seen, n)" and res: "mapE (resolve_entry records) records = Inr resolved"
      and recs: "recs = sort_key t_path resolved"
    by (rule tar_inventory_result)
  have none: "\<forall>e \<in> set records. t_resolved e = None" using inv by (simp add: tar_inv_def)
  note same = resolved_same [OF res none]
  have set_recs: "set recs = set resolved" by (simp add: recs)
  show ?thesis
  proof (cases control)
    case False
    then show ?thesis using inv by (simp add: tar_inv_def)
  next
    case True
    with inv have f: "map fst bodies = map t_path records"
        and a: "list_all2 (\<lambda>b e. t_kind e = TRegular \<and> t_size e = int (length (snd b)) \<and> t_sha e = Some (sha (snd b))) bodies records"
      by (auto simp: tar_inv_def)
    have "\<exists>e \<in> set recs. t_path e = fst b \<and> t_kind e = TRegular \<and> t_size e = int (length (snd b)) \<and> t_sha e = Some (sha (snd b))"
      if "b \<in> set bodies" for b
    proof -
      from that obtain i where i: "i < length bodies" "b = bodies ! i" by (auto simp: in_set_conv_nth)
      define e where "e = records ! i"
      have len: "length bodies = length records" using f by (metis length_map)
      have e: "e \<in> set records" "t_path e = fst b" "t_kind e = TRegular" "t_size e = int (length (snd b))" "t_sha e = Some (sha (snd b))"
        using list_all2_nthD [OF a i(1)] arg_cong [OF f, of "\<lambda>l. l ! i"] i len by (auto simp: e_def)
      obtain e' where "e' \<in> set resolved" "resolve_entry records e = Inr e'" using same(4) [OF e(1)] by blast
      with resolve_entry_ok(1) [of records e e'] e show ?thesis unfolding set_recs by (intro bexI [of _ e']) auto
    qed
    moreover have "set (map fst bodies) = set (map t_path recs)"
      using f same(1) set_recs by (metis list.set_map)
    ultimately show ?thesis using True by simp
  qed
qed

text \<open>C90: An accepted tar inventory is safe to lay out below a root: at most \<open>MAX_MEMBERS\<close> entries
  in strict path order, every path relative and canonical, every recorded ancestor of an entry a
  directory (nothing is placed through a link or a file), every symbolic link staying below the
  root at each component of its target, every hard link ending in a recorded regular file whose
  digest is the one reported, no devices, the ownership, modes, times and sizes in range and the
  unpacked bytes within the limit. A control archive holds regular files only, each with the
  bytes whose length and digest are recorded.\<close>

theorem tar_inventory_safe:
  assumes "tar_inventory reader control raw = Inr (recs, bodies)"
  shows "inventory_safe recs
    \<and> (\<forall>e \<in> set recs. t_kind e = TSymlink \<longrightarrow> (\<forall>n \<le> length (split_on 47 (t_link e)).
          0 \<le> int (length (link_base (t_path e) (t_link e))) + link_depth (take n (split_on 47 (t_link e)))))
    \<and> file_bytes recs \<le> int (if control then MAX_CONTROL_BYTES else MAX_DATA)
    \<and> (if control then set (map fst bodies) = set (map t_path recs)
            \<and> (\<forall>b \<in> set bodies. \<exists>e \<in> set recs. t_path e = fst b \<and> t_kind e = TRegular
                 \<and> t_size e = int (length (snd b)) \<and> t_sha e = Some (sha (snd b)))
          else bodies = [])"
proof -
  note safe = inventory_is_safe [OF assms]
  have "\<forall>n \<le> length (split_on 47 (t_link e)).
      0 \<le> int (length (link_base (t_path e) (t_link e))) + link_depth (take n (split_on 47 (t_link e)))"
    if "e \<in> set recs" "t_kind e = TSymlink" for e
    using safe that unfolding resolve_depth [symmetric] by (auto simp: inventory_safe_def entry_ok_def)
  with safe inventory_bodies [OF assms] show ?thesis by blast
qed

definition tar_entry :: "string \<Rightarrow> ttype \<Rightarrow> string \<Rightarrow> string \<Rightarrow> tarmember" where
  "tar_entry name type data link =
     \<lparr>tm_name = u name, tm_type = type, tm_size = int (length data), tm_uid = 0, tm_gid = 0, tm_mode = 493,
      tm_mtime = MInt 5, tm_sparse = False, tm_pax = [], tm_link = u link, tm_data = Some (bs data)\<rparr>"

definition record_of :: "tarmember \<Rightarrow> string \<Rightarrow> string \<Rightarrow> tarrec" where
  "record_of m name link = \<lparr>t_path = u name, t_kind = tm_type m, t_mode = 493, t_uid = 0, t_gid = 0,
      t_size = tm_size m, t_mtime = 5, t_sha = (if tm_type m = TRegular then map_option sha (tm_data m) else None),
      t_link = u link, t_xattrs = [], t_resolved = None\<rparr>"

definition example_dir :: tarmember where "example_dir = tar_entry ''./usr/'' TDirectory '''' ''''"
definition example_file :: tarmember where "example_file = tar_entry ''./usr/a'' TRegular ''hi'' ''''"
definition example_hard :: tarmember where "example_hard = tar_entry ''usr/b'' THardlink '''' ''./usr/a''"
definition example_sym :: tarmember where "example_sym = tar_entry ''usr/c'' TSymlink '''' ''../usr/a''"

definition example_reader :: tar_reader where
  "example_reader raw = ([example_dir, example_file, example_hard, example_sym], Some 0)"

lemma example_checks:
  "member_path True (u ''./usr/'') = Inr (u ''usr'')" "member_path False (u ''./usr/a'') = Inr (u ''usr/a'')"
  "member_path False (u ''usr/b'') = Inr (u ''usr/b'')" "member_path False (u ''usr/c'') = Inr (u ''usr/c'')"
  "check_link (u ''usr'') example_dir = Inr []" "check_link (u ''usr/a'') example_file = Inr []"
  "check_link (u ''usr/b'') example_hard = Inr (u ''usr/a'')"
  "check_link (u ''usr/c'') example_sym = Inr (u ''../usr/a'')"
  "check_metadata False example_dir = Inr 5" "check_metadata False example_file = Inr 5"
  "check_metadata False example_hard = Inr 5" "check_metadata False example_sym = Inr 5"
  "payload False 0 example_dir = Inr ([], 0)" "payload False 0 example_file = Inr (bs ''hi'', 2)"
  "payload False 2 example_hard = Inr ([], 2)" "payload False 2 example_sym = Inr ([], 2)"
  by code_simp+

lemmas example_defs = example_dir_def example_file_def example_hard_def example_sym_def tar_entry_def record_of_def

lemma tar_example_steps:
  "tar_step False ([], [], [], 0) example_dir = Inr ([record_of example_dir ''usr'' ''''], [], [u ''usr''], 0)"
  "tar_step False ([record_of example_dir ''usr'' ''''], [], [u ''usr''], 0) example_file
     = Inr ([record_of example_dir ''usr'' '''', record_of example_file ''usr/a'' ''''], [], [u ''usr/a'', u ''usr''], 2)"
  "tar_step False ([record_of example_dir ''usr'' '''', record_of example_file ''usr/a'' ''''], [], [u ''usr/a'', u ''usr''], 2) example_hard
     = Inr ([record_of example_dir ''usr'' '''', record_of example_file ''usr/a'' '''', record_of example_hard ''usr/b'' ''usr/a''],
         [], [u ''usr/b'', u ''usr/a'', u ''usr''], 2)"
  "tar_step False ([record_of example_dir ''usr'' '''', record_of example_file ''usr/a'' '''', record_of example_hard ''usr/b'' ''usr/a''],
         [], [u ''usr/b'', u ''usr/a'', u ''usr''], 2) example_sym
     = Inr ([record_of example_dir ''usr'' '''', record_of example_file ''usr/a'' '''', record_of example_hard ''usr/b'' ''usr/a'',
         record_of example_sym ''usr/c'' ''../usr/a''],
         [], [u ''usr/c'', u ''usr/b'', u ''usr/a'', u ''usr''], 2)"
  using example_checks
  by (simp_all add: tar_step_def MAX_MEMBERS_def example_defs)

definition example_records :: "tarrec list" where
  "example_records = [record_of example_dir ''usr'' '''', record_of example_file ''usr/a'' '''',
     (record_of example_hard ''usr/b'' ''usr/a'')\<lparr>t_resolved := Some (sha (bs ''hi''))\<rparr>, record_of example_sym ''usr/c'' ''../usr/a'']"

lemma example_ancestors: "ancestors (u ''usr'') = []" "ancestors (u ''usr/a'') = [u ''usr'']"
  "ancestors (u ''usr/b'') = [u ''usr'']" "ancestors (u ''usr/c'') = [u ''usr'']"
  by code_simp+

lemma example_order: "u ''usr'' < u ''usr/a''" "u ''usr/a'' < u ''usr/b''" "u ''usr/b'' < u ''usr/c''"
  by code_simp+

lemma follow_to_regular:
  "find_rec records target = Some r \<Longrightarrow> target \<notin> set vis \<Longrightarrow> t_kind r = TRegular \<Longrightarrow>
    follow_hardlink records 64 target vis = Inr (t_sha r)"
  using follow_hardlink.simps(2) [of records 63 target vis] by simp

lemma example_inventory:
  "tar_inventory example_reader False (replicate 1024 0) = Inr (example_records, [])"
proof -
  define rs where "rs = [record_of example_dir ''usr'' '''', record_of example_file ''usr/a'' '''', record_of example_hard ''usr/b'' ''usr/a'',
         record_of example_sym ''usr/c'' ''../usr/a'']"
  have fold: "foldE (tar_step False) ([], [], [], 0) [example_dir, example_file, example_hard, example_sym]
      = Inr (rs, [], [u ''usr/c'', u ''usr/b'', u ''usr/a'', u ''usr''], 2)"
    by (simp add: tar_example_steps rs_def)
  have res: "mapE (resolve_entry rs) rs = Inr example_records"
    by (simp add: rs_def example_records_def resolve_entry_def example_ancestors check_ancestor_def find_rec_def
        example_defs follow_to_regular)
  have sort: "sort_key t_path example_records = example_records"
    using example_order by (intro sort_key_id_if_sorted) (simp add: example_records_def example_defs order_less_imp_le less_trans [of "u ''usr''"])
  show ?thesis
    by (simp add: tar_inventory_def example_reader_def fold res sort list_ex_iff del: foldE.simps)
qed

theorem tar_inventory_safe_witness:
  "tar_inventory example_reader False (replicate 1024 0) = Inr (example_records, [])
   \<and> inventory_safe example_records \<and> file_bytes example_records = 2"
  using example_inventory tar_inventory_safe [OF example_inventory]
  by (auto simp: file_bytes_def example_records_def example_defs)

end
