(* ===== verification/Deb_Inspect.thy ===== *)
theory Deb_Inspect
  imports Deb_Tar Deb_Control Debian_Semantics Debian_Triggers
begin

text \<open>
  \<open>inspect_bytes\<close> of \<open>tools/deb_archive.py\<close>: the observation made of a binary package that is
  neither installed, executed nor extracted. It composes the archive reader, the two tar
  inventories, the control paragraph, the relationship fields and the trigger declarations.
  The decompressors and \<open>tarfile\<close> are arguments.
\<close>

definition HOOKS :: "pystr list" where
  "HOOKS = map u [''preinst'', ''postinst'', ''prerm'', ''postrm'', ''config'', ''triggers'']"

definition DESCRIPTIVE :: "pystr list" where
  "DESCRIPTIVE = map u [''package'', ''version'', ''architecture'', ''source'', ''maintainer'', ''description'', ''section'',
     ''priority'', ''homepage'', ''bugs'', ''origin'', ''tag'', ''installed-size'', ''essential'', ''protected'', ''multi-arch'',
     ''package-type'', ''depends'', ''pre-depends'', ''recommends'', ''suggests'', ''enhances'', ''breaks'', ''conflicts'',
     ''replaces'', ''provides'', ''built-using'', ''static-built-using'', ''built-for-profiles'', ''auto-built-package'', ''build-ids'']"

definition KNOWN_CONTROL :: "pystr list" where
  "KNOWN_CONTROL = map u [''control'', ''conffiles'', ''md5sums'', ''shlibs'', ''symbols'', ''templates''] @ HOOKS"

definition RELATIONSHIPS :: "pystr list" where
  "RELATIONSHIPS = map u [''depends'', ''pre-depends'', ''recommends'', ''suggests'', ''enhances'', ''breaks'', ''conflicts'',
     ''replaces'', ''provides'', ''built-using'', ''static-built-using'']"

definition NO_ALTERNATIVES :: "pystr list" where
  "NO_ALTERNATIVES = map u [''breaks'', ''conflicts'', ''replaces'', ''provides'', ''built-using'', ''static-built-using'']"

definition SOURCE_USE :: "pystr list" where
  "SOURCE_USE = map u [''built-using'', ''static-built-using'']"

text \<open>\<open>info[key]\<close> and \<open>info.get(key, default)\<close>.\<close>

definition info_has :: "stanza \<Rightarrow> string \<Rightarrow> bool" where
  "info_has info key \<longleftrightarrow> map_of info (u key) \<noteq> None"

definition info_get :: "stanza \<Rightarrow> pystr \<Rightarrow> string \<Rightarrow> pystr" where
  "info_get info key dflt = (case map_of info key of None \<Rightarrow> u dflt | Some v \<Rightarrow> v)"

definition architecture_ok :: "pystr \<Rightarrow> bool" where
  "architecture_ok a \<longleftrightarrow> (case a of [] \<Rightarrow> False
     | c # r \<Rightarrow> lower_alnum c \<and> list_all (\<lambda>d. lower_alnum d \<or> d = 45) r \<and> length r \<le> 31)"

definition check_control :: "pystr \<Rightarrow> stanza \<Rightarrow> unit res" where
  "check_control architecture info =
     bindE (eachE (\<lambda>key. if map_of info (u key) = None then Inl (Invalid (u ''missing '' @ u key)) else Inr ())
         [''package'', ''version'', ''architecture'']) (\<lambda>_.
     if \<not> name_ok (info_get info (u ''package'') '''') then invalid ''invalid package name''
     else bindE (split_version (info_get info (u ''version'') '''')) (\<lambda>_.
       let arch = info_get info (u ''architecture'') '''' in
       if arch \<noteq> architecture \<and> arch \<noteq> u ''all'' then invalid ''architecture outside intake policy''
       else if info_get info (u ''package-type'') ''deb'' \<noteq> u ''deb'' then invalid ''not a binary deb package''
       else if info_get info (u ''multi-arch'') ''no'' \<notin> set (map u [''no'', ''same'', ''foreign'', ''allowed''])
       then invalid ''unknown Multi-Arch''
       else if arch = u ''all'' \<and> map_of info (u ''multi-arch'') = Some (u ''same'')
       then invalid ''Architecture all with Multi-Arch same''
       else eachE (\<lambda>key. if info_get info (u key) ''no'' \<notin> {u ''yes'', u ''no''}
              then Inl (Invalid (u ''invalid '' @ u key)) else Inr ()) [''essential'', ''protected'']))"

definition relationship :: "stanza \<Rightarrow> pystr \<Rightarrow> (pystr \<times> atom list list) res" where
  "relationship info key =
     bindE (relations (key = u ''provides'') (key \<notin> set NO_ALTERNATIVES) (unfold_value (info_get info key '''')))
       (\<lambda>groups. if key \<in> set SOURCE_USE \<and> list_ex (list_ex (\<lambda>a. atom_op a \<noteq> u ''='')) groups
         then invalid ''source-use relation requires equality''
         else Inr (key, groups))"

definition REMOVE_FLAG :: pystr where
  "REMOVE_FLAG = u ''remove-on-upgrade ''"

definition conffile_line :: "pystr list \<Rightarrow> (pystr \<times> bool) list \<Rightarrow> pystr \<Rightarrow> (pystr \<times> bool) list res" where
  "conffile_line paths conf line =
     (if line = [] then Inr conf
      else let remove = startswith line REMOVE_FLAG;
               line' = (if remove then drop (length REMOVE_FLAG) line else line) in
        if \<not> startswith line' [47] then invalid ''conffile must be absolute''
        else bindE (relative (drop 1 line')) (\<lambda>path.
          if path \<in> fst ` set conf then invalid ''duplicate conffile''
          else if \<not> remove \<and> path \<notin> set paths then invalid ''conffile missing from data archive''
          else Inr (conf @ [(path, remove)])))"

definition conffiles :: "(pystr \<times> pybytes) list \<Rightarrow> pystr list \<Rightarrow> (pystr \<times> bool) list res" where
  "conffiles files paths = (case map_of files (u ''conffiles'') of
       None \<Rightarrow> Inr []
     | Some raw \<Rightarrow> (case utf8_decode raw of
           None \<Rightarrow> invalid ''conffiles encoding''
         | Some s \<Rightarrow> foldE (conffile_line paths) [] (splitlines s)))"

section \<open>The observation\<close>

definition kind_name :: "ttype \<Rightarrow> pystr" where
  "kind_name k = (case k of TRegular \<Rightarrow> u ''regular'' | TDirectory \<Rightarrow> u ''directory'' | TSymlink \<Rightarrow> u ''symlink''
     | THardlink \<Rightarrow> u ''hardlink'' | TOther \<Rightarrow> [])"

definition opt_str :: "pystr option \<Rightarrow> pyval" where
  "opt_str s = (case s of None \<Rightarrow> PNone | Some t \<Rightarrow> PStr t)"

definition tarrec_val :: "tarrec \<Rightarrow> pyval" where
  "tarrec_val r = PDict ([(u ''path'', PStr (t_path r)), (u ''kind'', PStr (kind_name (t_kind r))), (u ''mode'', PInt (t_mode r)),
     (u ''uid'', PInt (t_uid r)), (u ''gid'', PInt (t_gid r)), (u ''size'', PInt (t_size r)), (u ''mtime'', PInt (t_mtime r)),
     (u ''sha256'', opt_str (t_sha r)), (u ''link'', PStr (t_link r)),
     (u ''xattrs'', PDict (map (\<lambda>(k, v). (k, PStr v)) (t_xattrs r)))]
     @ (if t_kind r = THardlink then [(u ''resolved_sha256'', opt_str (t_resolved r))] else []))"

definition atom_val :: "atom \<Rightarrow> pyval" where
  "atom_val a = PDict [(u ''name'', PStr (atom_name a)), (u ''architecture'', PStr (atom_arch a)),
     (u ''operator'', PStr (atom_op a)), (u ''version'', PStr (atom_ver a))]"

definition stanza_val :: "stanza \<Rightarrow> pyval" where
  "stanza_val info = PDict (map (\<lambda>(k, v). (k, PStr v)) info)"

definition effects :: "(pystr \<times> pybytes) list \<Rightarrow> pyval" where
  "effects files = PList (map (\<lambda>(k, v). PDict [(u ''member'', PStr k), (u ''sha256'', PStr (sha v))])
     (filter (\<lambda>(k, v). k \<in> set HOOKS) (sorted_items files)))"

definition str_list :: "pystr list \<Rightarrow> pyval" where
  "str_list xs = PList (map PStr xs)"

definition identity_val :: "stanza \<Rightarrow> pyval" where
  "identity_val info = PDict (map (\<lambda>k. (u k, PStr (info_get info (u k) ''''))) [''package'', ''version'', ''architecture''])"

definition native_val :: "(pystr \<times> atom list list) list \<Rightarrow> pyval" where
  "native_val native = PDict (map (\<lambda>(k, groups). (k, PList (map (\<lambda>g. PList (map atom_val g)) groups))) native)"

definition conf_val :: "(pystr \<times> bool) list \<Rightarrow> pyval" where
  "conf_val conf = PList (map (\<lambda>(p, r). PDict [(u ''path'', PStr p),
     (u ''flags'', str_list (if r then [u ''remove-on-upgrade''] else []))]) conf)"

definition observation :: "pybytes \<Rightarrow> pybytes \<Rightarrow> stanza \<Rightarrow> (pystr \<times> atom list list) list \<Rightarrow> tarrec list \<Rightarrow> tarrec list
    \<Rightarrow> (pystr \<times> pybytes) list \<Rightarrow> (pystr \<times> bool) list \<Rightarrow> pyval list \<Rightarrow> pyval" where
  "observation raw control_raw info native control data files conf triggers = PDict
    [(u ''schema'', PStr (u ''org.niaos.deb-observation/v1'')), (u ''execution_permit'', PBool False),
     (u ''archive_authenticated'', PBool False), (u ''artifact_sha256'', PStr (sha raw)), (u ''format'', PStr (u ''deb'')),
     (u ''identity'', identity_val info), (u ''raw_control_sha256'', PStr (sha control_raw)), (u ''fields'', stanza_val info),
     (u ''relationships'', native_val native),
     (u ''control_inventory'', PList (map tarrec_val control)), (u ''file_inventory'', PList (map tarrec_val data)),
     (u ''conffiles'', conf_val conf),
     (u ''effect_members'', effects files), (u ''trigger_declarations'', PList triggers),
     (u ''unknown_control_members'', str_list (sorted_set (filter (\<lambda>k. k \<notin> set KNOWN_CONTROL) (map fst files)))),
     (u ''unmodeled_fields'', str_list (sorted_set (filter (\<lambda>k. k \<notin> set DESCRIPTIVE) (map fst info)))),
     (u ''runtime_dependencies_preserved'', PBool True), (u ''maintainer_scripts_executed'', PBool False),
     (u ''needs_reviewed_effect_contract'', PBool True), (u ''native_database_created'', PBool False)]"

definition inspect_bytes :: "codecs \<Rightarrow> tar_reader \<Rightarrow> pystr \<Rightarrow> pybytes \<Rightarrow> pyval res" where
  "inspect_bytes lib reader architecture raw =
     (if \<not> architecture_ok architecture \<or> architecture = u ''all'' then invalid ''invalid intake architecture''
      else bindE (ar_members raw) (\<lambda>archive.
        bindE (bindE (decompress lib (fst (archive ! 1)) (snd (archive ! 1)) MAX_CONTROL) (tar_inventory reader True))
          (\<lambda>(control, files).
        bindE (bindE (decompress lib (fst (archive ! 2)) (snd (archive ! 2)) MAX_DATA) (tar_inventory reader False))
          (\<lambda>(data, _).
        case map_of files (u ''control'') of None \<Rightarrow> invalid ''missing control''
        | Some control_raw \<Rightarrow>
        bindE (deb822 MAX_CONTROL MAX_STANZAS control_raw) (\<lambda>stanzas.
        if length stanzas \<noteq> 1 then invalid ''binary control must have one stanza''
        else let info = stanzas ! 0 in
        bindE (check_control architecture info) (\<lambda>_.
        bindE (mapE (relationship info) RELATIONSHIPS) (\<lambda>native.
        bindE (conffiles files (map t_path data)) (\<lambda>conf.
        bindE (describe (case map_of files (u ''triggers'') of None \<Rightarrow> [] | Some t \<Rightarrow> t)) (\<lambda>triggers.
        Inr (observation raw control_raw info native control data files conf triggers))))))))))"

section \<open>What an observation says\<close>

definition conf_inv :: "pystr list \<Rightarrow> (pystr \<times> bool) list \<Rightarrow> bool" where
  "conf_inv paths conf \<longleftrightarrow> distinct (map fst conf)
     \<and> (\<forall>c \<in> set conf. relative_ok (fst c) \<and> (snd c \<or> fst c \<in> set paths))"

lemma conffiles_inv:
  assumes "conffiles files paths = Inr conf"
  shows "conf_inv paths conf"
proof -
  have step: "conf_inv paths s'" if "conf_inv paths s" "conffile_line paths s line = Inr s'" for s line s'
    using that by (auto simp: conffile_line_def conf_inv_def Let_def ok_simps split: if_splits)
  have "conf_inv paths []" by (simp add: conf_inv_def)
  with assms show ?thesis
    by (auto simp: conffiles_def split: option.splits elim!: foldE_invariant intro: step)
qed

lemma check_control_ok:
  assumes "check_control architecture info = Inr ()"
  shows "\<exists>p v a. map_of info (u ''package'') = Some p \<and> name_ok p \<and> map_of info (u ''version'') = Some v \<and> valid_version v
     \<and> map_of info (u ''architecture'') = Some a \<and> a \<in> {architecture, u ''all''}"
  using assms by (auto simp: check_control_def Let_def ok_simps eachE_eq_Inr info_get_def valid_version_def is_ok_iff
      split: if_splits)

definition relationships_ok :: "(pystr \<times> atom list list) list \<Rightarrow> bool" where
  "relationships_ok native \<longleftrightarrow> map fst native = RELATIONSHIPS
     \<and> (\<forall>(k, groups) \<in> set native. (\<forall>g \<in> set groups. g \<noteq> [] \<and> (k \<in> set NO_ALTERNATIVES \<longrightarrow> length g = 1)
          \<and> (\<forall>a \<in> set g. atom_ok a \<and> (k \<in> set SOURCE_USE \<longrightarrow> atom_op a = u ''=''))))"

lemma relationships_inv:
  assumes "mapE (relationship info) RELATIONSHIPS = Inr native"
  shows "relationships_ok native"
proof -
  have all: "list_all2 (\<lambda>k r. relationship info k = Inr r) RELATIONSHIPS native" using assms by (simp add: mapE_eq_Inr)
  have key: "fst r = k" if "relationship info k = Inr r" for k r
    using that by (auto simp: relationship_def bindE_eq_Inr split: if_splits)
  have "list_all2 (\<lambda>k r. fst r = k) RELATIONSHIPS native" by (rule list_all2_mono [OF all key])
  then have "map fst native = RELATIONSHIPS" by (induction rule: list_all2_induct) auto
  moreover have "\<forall>g \<in> set groups. g \<noteq> [] \<and> (k \<in> set NO_ALTERNATIVES \<longrightarrow> length g = 1)
          \<and> (\<forall>a \<in> set g. atom_ok a \<and> (k \<in> set SOURCE_USE \<longrightarrow> atom_op a = u ''=''))"
    if r: "(k, groups) \<in> set native" for k groups
  proof -
    from mapE_in [OF assms r] obtain k' where "relationship info k' = Inr (k, groups)" by blast
    then have rel: "relations (k = u ''provides'') (k \<notin> set NO_ALTERNATIVES) (unfold_value (info_get info k '''')) = Inr groups"
        and src: "k \<in> set SOURCE_USE \<longrightarrow> \<not> list_ex (list_ex (\<lambda>a. atom_op a \<noteq> u ''='')) groups"
      by (auto simp: relationship_def bindE_eq_Inr split: if_splits)
    show ?thesis using relations_ok [OF rel] src by (auto simp: list_ex_iff)
  qed
  ultimately show ?thesis by (auto simp: relationships_ok_def)
qed

lemma field_observation:
  "field (observation raw craw info native control data files conf trig) ''execution_permit'' = PBool False"
  "field (observation raw craw info native control data files conf trig) ''archive_authenticated'' = PBool False"
  "field (observation raw craw info native control data files conf trig) ''needs_reviewed_effect_contract'' = PBool True"
  "field (observation raw craw info native control data files conf trig) ''artifact_sha256'' = PStr (sha raw)"
  "field (observation raw craw info native control data files conf trig) ''identity'' = identity_val info"
  "field (observation raw craw info native control data files conf trig) ''fields'' = stanza_val info"
  "field (observation raw craw info native control data files conf trig) ''relationships'' = native_val native"
  "field (observation raw craw info native control data files conf trig) ''conffiles'' = conf_val conf"
  "field (observation raw craw info native control data files conf trig) ''control_inventory'' = PList (map tarrec_val control)"
  "field (observation raw craw info native control data files conf trig) ''file_inventory'' = PList (map tarrec_val data)"
  by (simp_all add: observation_def field_def)

lemma inspect_parts:
  assumes "inspect_bytes lib reader architecture raw = Inr v"
  obtains craw info native control data files conf trig body1 body2 where
    "v = observation raw craw info native control data files conf trig"
    "tar_inventory reader True body1 = Inr (control, files)" "tar_inventory reader False body2 = Inr (data, [])"
    "check_control architecture info = Inr ()" "mapE (relationship info) RELATIONSHIPS = Inr native"
    "conffiles files (map t_path data) = Inr conf" "map_of files (u ''control'') = Some craw"
    "deb822 MAX_CONTROL MAX_STANZAS craw = Inr [info]"
proof -
  from assms obtain archive where a: "ar_members raw = Inr archive"
    and 1: "bindE (bindE (decompress lib (fst (archive ! 1)) (snd (archive ! 1)) MAX_CONTROL) (tar_inventory reader True))
          (\<lambda>(control, files).
        bindE (bindE (decompress lib (fst (archive ! 2)) (snd (archive ! 2)) MAX_DATA) (tar_inventory reader False))
          (\<lambda>(data, _).
        case map_of files (u ''control'') of None \<Rightarrow> invalid ''missing control''
        | Some control_raw \<Rightarrow>
        bindE (deb822 MAX_CONTROL MAX_STANZAS control_raw) (\<lambda>stanzas.
        if length stanzas \<noteq> 1 then invalid ''binary control must have one stanza''
        else let info = stanzas ! 0 in
        bindE (check_control architecture info) (\<lambda>_.
        bindE (mapE (relationship info) RELATIONSHIPS) (\<lambda>native.
        bindE (conffiles files (map t_path data)) (\<lambda>conf.
        bindE (describe (case map_of files (u ''triggers'') of None \<Rightarrow> [] | Some t \<Rightarrow> t)) (\<lambda>triggers.
        Inr (observation raw control_raw info native control data files conf triggers)))))))) = Inr v"
    unfolding inspect_bytes_def bindE_eq_Inr if_invalid_eq_Inr by blast
  then obtain body1 control files body2 data bodies where
     2: "tar_inventory reader True body1 = Inr (control, files)" and 3: "tar_inventory reader False body2 = Inr (data, bodies)"
     and 4: "(case map_of files (u ''control'') of None \<Rightarrow> invalid ''missing control''
        | Some control_raw \<Rightarrow>
        bindE (deb822 MAX_CONTROL MAX_STANZAS control_raw) (\<lambda>stanzas.
        if length stanzas \<noteq> 1 then invalid ''binary control must have one stanza''
        else let info = stanzas ! 0 in
        bindE (check_control architecture info) (\<lambda>_.
        bindE (mapE (relationship info) RELATIONSHIPS) (\<lambda>native.
        bindE (conffiles files (map t_path data)) (\<lambda>conf.
        bindE (describe (case map_of files (u ''triggers'') of None \<Rightarrow> [] | Some t \<Rightarrow> t)) (\<lambda>triggers.
        Inr (observation raw control_raw info native control data files conf triggers))))))) = Inr v"
    by (auto simp: bindE_eq_Inr split: prod.splits)
  from inventory_bodies [OF 3] have "bodies = []" by simp
  from 4 obtain craw where 5: "map_of files (u ''control'') = Some craw" by (cases "map_of files (u ''control'')") auto
  from 4 obtain stanzas where 6: "deb822 MAX_CONTROL MAX_STANZAS craw = Inr stanzas" "length stanzas = 1"
     and 7: "bindE (check_control architecture (stanzas ! 0)) (\<lambda>_.
        bindE (mapE (relationship (stanzas ! 0)) RELATIONSHIPS) (\<lambda>native.
        bindE (conffiles files (map t_path data)) (\<lambda>conf.
        bindE (describe (case map_of files (u ''triggers'') of None \<Rightarrow> [] | Some t \<Rightarrow> t)) (\<lambda>triggers.
        Inr (observation raw craw (stanzas ! 0) native control data files conf triggers))))) = Inr v"
    unfolding 5 option.case bindE_eq_Inr if_invalid_eq_Inr Let_def by blast
  from 6(2) obtain info where info: "stanzas = [info]" by (cases stanzas) auto
  from 7 obtain native conf trig where "check_control architecture info = Inr ()" "mapE (relationship info) RELATIONSHIPS = Inr native"
    "conffiles files (map t_path data) = Inr conf" "v = observation raw craw info native control data files conf trig"
    unfolding info bindE_eq_Inr by auto
  with 2 3 5 6 info \<open>bodies = []\<close> that show thesis by blast
qed

text \<open>C16: An observation of a package permits nothing (the flags say so), is bound to the digest of the
  package's bytes, and reports only what was checked: an identity with a well-formed name, a
  valid version and an architecture inside the intake policy; safe control and file inventories,
  the former of regular files only; relationship fields whose atoms are well formed, without
  alternatives where the field forbids them and with equality in source-use fields; and distinct
  relative conffile paths, each present in the file inventory unless it is to be removed.\<close>

theorem inspect_observation_sound:
  assumes "inspect_bytes lib reader architecture raw = Inr v"
  shows "field v ''execution_permit'' = PBool False \<and> field v ''archive_authenticated'' = PBool False
    \<and> field v ''needs_reviewed_effect_contract'' = PBool True \<and> field v ''artifact_sha256'' = PStr (sha raw)
    \<and> (\<exists>p w a. field v ''identity'' = PDict [(u ''package'', PStr p), (u ''version'', PStr w), (u ''architecture'', PStr a)]
         \<and> name_ok p \<and> valid_version w \<and> a \<in> {architecture, u ''all''})
    \<and> (\<exists>control. field v ''control_inventory'' = PList (map tarrec_val control) \<and> inventory_safe control
         \<and> (\<forall>e \<in> set control. t_kind e = TRegular) \<and> u ''control'' \<in> set (map t_path control))
    \<and> (\<exists>native. field v ''relationships'' = native_val native \<and> relationships_ok native)
    \<and> (\<exists>data conf. field v ''file_inventory'' = PList (map tarrec_val data) \<and> inventory_safe data
         \<and> field v ''conffiles'' = conf_val conf \<and> conf_inv (map t_path data) conf)"
proof -
  from assms obtain craw info native control data files conf trig body1 body2 where
    v: "v = observation raw craw info native control data files conf trig"
    and t1: "tar_inventory reader True body1 = Inr (control, files)" and t2: "tar_inventory reader False body2 = Inr (data, [])"
    and c: "check_control architecture info = Inr ()" and n: "mapE (relationship info) RELATIONSHIPS = Inr native"
    and f: "conffiles files (map t_path data) = Inr conf" and m: "map_of files (u ''control'') = Some craw"
    by (rule inspect_parts)
  from check_control_ok [OF c] obtain p w a where id: "map_of info (u ''package'') = Some p" "name_ok p"
     "map_of info (u ''version'') = Some w" "valid_version w" "map_of info (u ''architecture'') = Some a" "a \<in> {architecture, u ''all''}"
    by blast
  have ctl: "set (map fst files) = set (map t_path control)" using inventory_bodies [OF t1] by simp
  have "t_kind e = TRegular" if "e \<in> set control" for e
  proof -
    from that ctl obtain b where "b \<in> set files" "fst b = t_path e" by (metis (no_types, lifting) imageE image_eqI list.set_map)
    with inventory_bodies [OF t1] obtain e' where "e' \<in> set control" "t_path e' = t_path e" "t_kind e' = TRegular" by auto
    moreover have "distinct (map t_path control)" using inventory_is_safe [OF t1] by (simp add: inventory_safe_def)
    ultimately have "e' = e" using that by (meson distinct_map inj_onD)
    with \<open>t_kind e' = TRegular\<close> show ?thesis by simp
  qed
  moreover have "u ''control'' \<in> set (map t_path control)"
    using m ctl by (metis map_of_eq_None_iff option.distinct(1) list.set_map)
  moreover have "field v ''identity'' = PDict [(u ''package'', PStr p), (u ''version'', PStr w), (u ''architecture'', PStr a)]"
    unfolding v field_observation using id by (simp add: identity_val_def info_get_def)
  ultimately show ?thesis
    using id inventory_is_safe [OF t1] inventory_is_safe [OF t2] relationships_inv [OF n] conffiles_inv [OF f]
    unfolding v field_observation by blast
qed

definition inspect_codecs :: codecs where
  "inspect_codecs = stored_codecs\<lparr>gunzip := (\<lambda>raw limit. Some \<lparr>z_out = replicate 512 (hd raw) @ replicate 1024 0,
     z_unconsumed = False, z_eof = True, z_unused = False\<rparr>)\<rparr>"

definition control_text :: string where
  "control_text = ''Package: ab'' @ [CHR 0x0A] @ ''Version: 1.0'' @ [CHR 0x0A] @ ''Architecture: all'' @ [CHR 0x0A] @ ''Depends: cd | ef (>= 2)''"

definition member_control :: tarmember where "member_control = tar_entry ''./control'' TRegular control_text ''''"
definition member_conffiles :: tarmember where "member_conffiles = tar_entry ''./conffiles'' TRegular ''/x'' ''''"
definition member_x :: tarmember where "member_x = tar_entry ''./x'' TRegular ''hi'' ''''"

lemmas inspect_members = member_control_def member_conffiles_def member_x_def tar_entry_def record_of_def

definition inspect_reader :: tar_reader where
  "inspect_reader raw = (if hd raw = 1 then ([member_control, member_conffiles], Some 512) else ([member_x], Some 512))"

definition inspect_ar :: pybytes where
  "inspect_ar = ar_magic @ example_header ''debian-binary'' ''4'' @ bs ''2.0'' @ [10]
     @ example_header ''control.tar.gz'' ''1'' @ [1] @ [10] @ example_header ''data.tar.gz'' ''1'' @ [0, 10]"

lemma inspect_ar_members:
  "ar_members inspect_ar = Inr [(u ''debian-binary'', bs ''2.0'' @ [10]), (u ''control.tar.gz'', [1]), (u ''data.tar.gz'', [0])]"
  by code_simp

lemma inspect_decompress:
  "decompress inspect_codecs (u ''control.tar.gz'') [1] MAX_CONTROL = Inr (replicate 512 1 @ replicate 1024 0)"
  "decompress inspect_codecs (u ''data.tar.gz'') [0] MAX_DATA = Inr (replicate 512 0 @ replicate 1024 0)"
proof -
  have "endswith (u ''control.tar.gz'') (u ''.gz'')" "endswith (u ''data.tar.gz'') (u ''.gz'')" by code_simp+
  then show "decompress inspect_codecs (u ''control.tar.gz'') [1] MAX_CONTROL = Inr (replicate 512 1 @ replicate 1024 0)"
    "decompress inspect_codecs (u ''data.tar.gz'') [0] MAX_DATA = Inr (replicate 512 0 @ replicate 1024 0)"
    by (simp_all add: decompress_def inspect_codecs_def inflate_result_def MAX_CONTROL_def MAX_DATA_def del: replicate.simps)
qed

lemma inspect_checks:
  "member_path False (u ''./control'') = Inr (u ''control'')" "member_path False (u ''./conffiles'') = Inr (u ''conffiles'')"
  "member_path False (u ''./x'') = Inr (u ''x'')"
  "check_link (u ''control'') member_control = Inr []" "check_link (u ''conffiles'') member_conffiles = Inr []"
  "check_link (u ''x'') member_x = Inr []"
  "check_metadata True member_control = Inr 5" "check_metadata True member_conffiles = Inr 5" "check_metadata False member_x = Inr 5"
  "payload True 0 member_control = Inr (bs control_text, 66)" "payload True 66 member_conffiles = Inr (bs ''/x'', 68)"
  "payload False 0 member_x = Inr (bs ''hi'', 2)"
  "ancestors (u ''control'') = []" "ancestors (u ''conffiles'') = []" "ancestors (u ''x'') = []"
  by code_simp+

definition control_records :: "tarrec list" where
  "control_records = [record_of member_conffiles ''conffiles'' '''', record_of member_control ''control'' '''']"

definition control_files :: "(pystr \<times> pybytes) list" where
  "control_files = [(u ''control'', bs control_text), (u ''conffiles'', bs ''/x'')]"

lemma inspect_control:
  "tar_inventory inspect_reader True (replicate 512 1 @ replicate 1024 0) = Inr (control_records, control_files)"
proof -
  define rs where "rs = [record_of member_control ''control'' '''', record_of member_conffiles ''conffiles'' '''']"
  have hd: "hd (replicate 512 (1 :: byte) @ replicate 1024 0) = 1" by (simp add: hd_append hd_replicate)
  have r: "inspect_reader (replicate 512 1 @ replicate 1024 0) = ([member_control, member_conffiles], Some 512)"
    unfolding inspect_reader_def hd by simp
  have fold: "foldE (tar_step True) ([], [], [], 0) [member_control, member_conffiles] = Inr (rs, control_files, [u ''conffiles'', u ''control''], 68)"
    using inspect_checks by (simp add: tar_step_def MAX_MEMBERS_def inspect_members rs_def control_files_def)
  have res: "mapE (resolve_entry rs) rs = Inr rs"
    by (simp add: rs_def resolve_entry_def inspect_checks inspect_members)
  have "u ''conffiles'' < u ''control''" by code_simp
  then have sort: "sort_key t_path rs = control_records"
    by (simp add: rs_def control_records_def inspect_members)
  show ?thesis
    by (simp add: tar_inventory_def r fold res sort list_ex_iff del: foldE.simps replicate.simps)
qed

definition data_records :: "tarrec list" where
  "data_records = [record_of member_x ''x'' '''']"

lemma inspect_data:
  "tar_inventory inspect_reader False (replicate 512 0 @ replicate 1024 0) = Inr (data_records, [])"
proof -
  have hd: "hd (replicate 512 (0 :: byte) @ replicate 1024 0) \<noteq> 1" by (simp add: hd_append hd_replicate)
  have r: "inspect_reader (replicate 512 0 @ replicate 1024 0) = ([member_x], Some 512)"
    using hd by (simp add: inspect_reader_def)
  have fold: "foldE (tar_step False) ([], [], [], 0) [member_x] = Inr (data_records, [], [u ''x''], 2)"
    using inspect_checks by (simp add: tar_step_def MAX_MEMBERS_def inspect_members data_records_def)
  have res: "mapE (resolve_entry data_records) data_records = Inr data_records"
    by (simp add: data_records_def resolve_entry_def inspect_checks inspect_members)
  have sort: "sort_key t_path data_records = data_records" by (simp add: data_records_def)
  show ?thesis
    by (simp add: tar_inventory_def r fold res sort list_ex_iff del: foldE.simps replicate.simps)
qed

definition control_info :: stanza where
  "control_info = [(u ''package'', u ''ab''), (u ''version'', u ''1.0''), (u ''architecture'', u ''all''), (u ''depends'', u ''cd | ef (>= 2)'')]"

definition control_native :: "(pystr \<times> atom list list) list" where
  "control_native = map (\<lambda>k. (k, if k = u ''depends'' then
     [[\<lparr>atom_name = u ''cd'', atom_arch = u ''unqualified'', atom_op = [], atom_ver = []\<rparr>,
       \<lparr>atom_name = u ''ef'', atom_arch = u ''unqualified'', atom_op = u ''>='', atom_ver = u ''2''\<rparr>]] else [])) RELATIONSHIPS"

lemma inspect_stanza:
  "deb822 MAX_CONTROL MAX_STANZAS (bs control_text) = Inr [control_info]"
  "check_control (u ''amd64'') control_info = Inr ()"
  "mapE (relationship control_info) RELATIONSHIPS = Inr control_native"
  "conffiles control_files [u ''x''] = Inr [(u ''x'', False)]"
  "describe [] = Inr []" "architecture_ok (u ''amd64'')"
  by code_simp+

lemma example_inspect:
  "inspect_bytes inspect_codecs inspect_reader (u ''amd64'') inspect_ar
     = Inr (observation inspect_ar (bs control_text) control_info control_native control_records data_records control_files [(u ''x'', False)] [])"
proof -
  have p: "map t_path data_records = [u ''x'']" by (simp add: data_records_def record_of_def)
  have c: "map_of control_files (u ''control'') = Some (bs control_text)" "map_of control_files (u ''triggers'') = None"
    by (simp_all add: control_files_def)
  show ?thesis
    unfolding inspect_bytes_def inspect_ar_members bindE.simps
    by (simp add: inspect_decompress inspect_control inspect_data inspect_stanza p c del: replicate.simps)
qed

theorem inspect_observation_sound_witness:
  "field (observation inspect_ar (bs control_text) control_info control_native control_records data_records control_files
       [(u ''x'', False)] []) ''execution_permit'' = PBool False
   \<and> (\<exists>control. field (observation inspect_ar (bs control_text) control_info control_native control_records data_records control_files
       [(u ''x'', False)] []) ''control_inventory'' = PList (map tarrec_val control) \<and> inventory_safe control)"
  using inspect_observation_sound [OF example_inspect] by blast

end
