(* ===== verification/Sha256_Vector.thy ===== *)
theory Sha256_Vector
  imports Nia_Common
begin

text \<open>
  An evaluation of the model of SHA-256 inside the kernel: the rounds are carried over to
  integers, where the simplifier computes on numerals, and the digest of the empty message is
  computed. It is the published test vector, and a concrete digest for the examples.
\<close>

unbundle bit_operations_syntax

section \<open>Evaluation over the integers\<close>

text \<open>
  The rounds over integers below $2^{32}$, where the simplifier computes on numerals. Addition
  is reduced at the end of each sum; the bit operations need no reduction.
\<close>

definition range32 :: "int \<Rightarrow> bool" where
  "range32 x \<longleftrightarrow> 0 \<le> x \<and> x < 4294967296"

definition rotI :: "nat \<Rightarrow> nat \<Rightarrow> int \<Rightarrow> int" where
  "rotI n m x = x div 2 ^ n + x mod 2 ^ n * 2 ^ m"

lemma len32: "LENGTH(32) = 32"
  by simp

lemma rotI: "range32 x \<Longrightarrow> 0 < n \<Longrightarrow> 0 < m \<Longrightarrow> n + m = 32 \<Longrightarrow>
    word_rotr n (word_of_int x :: u32) = word_of_int (rotI n m x)"
proof -
  assume a: "range32 x" "0 < n" "0 < m" "n + m = 32"
  then have x: "uint (word_of_int x :: u32) = x" by (simp add: range32_def take_bit_int_eq_self unsigned_of_int)
  have n: "n mod 32 = n" "32 - n = m" using a by auto
  have "x div 2 ^ n < 2 ^ m"
  proof -
    have "(2::int) ^ m * 2 ^ n = 4294967296" using a(4) by (simp flip: power_add add: add.commute)
    moreover have "x < 4294967296" using a(1) by (simp add: range32_def)
    ultimately have "x < 2 ^ m * 2 ^ n" by simp
    moreover have "x div 2 ^ n * 2 ^ n \<le> x" 
    proof -
      have "x div 2 ^ n * 2 ^ n = x - x mod 2 ^ n" by (simp add: minus_mod_eq_div_mult)
      moreover have "0 \<le> x mod 2 ^ n" by simp
      ultimately show ?thesis by linarith
    qed
    ultimately have "x div 2 ^ n * 2 ^ n < 2 ^ m * 2 ^ n" by linarith
    then show ?thesis by simp
  qed
  moreover have "0 \<le> x div 2 ^ n" using a by (simp add: range32_def pos_imp_zdiv_nonneg_iff)
  ultimately have "take_bit m (drop_bit n x) = x div 2 ^ n" by (simp add: take_bit_int_eq_self drop_bit_eq_div)
  then have "uint (word_rotr n (word_of_int x :: u32)) = rotI n m x"
    by (simp only: uint_word_rotr_eq len32 n unsigned_take_bit_eq) (simp only: x concat_bit_eq rotI_def take_bit_eq_mod push_bit_eq_mult drop_bit_eq_div)
  then show ?thesis by (metis word_of_int_uint)
qed

lemma shiftI: "range32 x \<Longrightarrow> drop_bit n (word_of_int x :: u32) = word_of_int (x div 2 ^ n)"
proof -
  assume "range32 x"
  then have x: "uint (word_of_int x :: u32) = x" by (simp add: range32_def take_bit_int_eq_self unsigned_of_int)
  have "uint (drop_bit n (word_of_int x :: u32)) = x div 2 ^ n"
    using \<open>range32 x\<close> by (simp only: unsigned_drop_bit_eq x)
      (simp add: range32_def take_bit_int_eq_self drop_bit_eq_div)
  then show ?thesis by (metis word_of_int_uint)
qed

lemmas rot_rules = rotI [of _ 2 30, simplified] rotI [of _ 13 19, simplified] rotI [of _ 22 10, simplified]
  rotI [of _ 6 26, simplified] rotI [of _ 11 21, simplified] rotI [of _ 25 7, simplified] rotI [of _ 17 15, simplified]
  rotI [of _ 19 13, simplified] rotI [of _ 7 25, simplified] rotI [of _ 18 14, simplified]
  shiftI [of _ 10, simplified] shiftI [of _ 3, simplified]

definition reduce32 :: "int \<Rightarrow> int" where
  "reduce32 x = x mod 4294967296"

lemma reduce32: "word_of_int x = (word_of_int (reduce32 x) :: u32)" "range32 (reduce32 x)"
proof -
  have "reduce32 x = take_bit 32 x" by (simp add: reduce32_def take_bit_eq_mod)
  then show "word_of_int x = (word_of_int (reduce32 x) :: u32)" by (simp add: word_of_int_eq_iff)
  show "range32 (reduce32 x)" by (simp add: reduce32_def range32_def)
qed

text \<open>One round and one step of the schedule on integers.\<close>

definition roundI :: "int \<times> int \<times> int \<times> int \<times> int \<times> int \<times> int \<times> int \<Rightarrow> int \<times> int \<Rightarrow> int \<times> int \<times> int \<times> int \<times> int \<times> int \<times> int \<times> int" where
  "roundI s kw = (case s of (a, b, c, d, e, f, g, h) \<Rightarrow> case kw of (k, w) \<Rightarrow>
     let t1 = h + (rotI 6 26 e XOR rotI 11 21 e XOR rotI 25 7 e) + ((e AND f) XOR ((NOT e) AND g)) + k + w;
         t2 = (rotI 2 30 a XOR rotI 13 19 a XOR rotI 22 10 a) + ((a AND b) XOR (a AND c) XOR (b AND c))
     in (reduce32 (t1 + t2), a, b, c, reduce32 (d + t1), e, f, g))"

definition range8 :: "int \<times> int \<times> int \<times> int \<times> int \<times> int \<times> int \<times> int \<Rightarrow> bool" where
  "range8 s = (case s of (a, b, c, d, e, f, g, h) \<Rightarrow> range32 a \<and> range32 b \<and> range32 c \<and> range32 d
     \<and> range32 e \<and> range32 f \<and> range32 g \<and> range32 h)"

definition words8 :: "int \<times> int \<times> int \<times> int \<times> int \<times> int \<times> int \<times> int \<Rightarrow> hash_state" where
  "words8 s = (case s of (a, b, c, d, e, f, g, h) \<Rightarrow> (word_of_int a, word_of_int b, word_of_int c, word_of_int d,
     word_of_int e, word_of_int f, word_of_int g, word_of_int h))"

lemma word_of_int_bits:
  "(word_of_int x :: u32) AND word_of_int y = word_of_int (x AND y)"
  "(word_of_int x :: u32) XOR word_of_int y = word_of_int (x XOR y)"
  "NOT (word_of_int x :: u32) = word_of_int (NOT x)"
  by (rule bit_word_eqI; simp add: bit_simps)+

lemma word_of_int_plus: "(word_of_int x :: u32) + word_of_int y = word_of_int (x + y)"
  by simp

lemma roundI:
  assumes "range8 s"
  shows "sha_round (words8 s) (word_of_int k, word_of_int w) = words8 (roundI s (k, w)) \<and> range8 (roundI s (k, w))"
proof -
  obtain a b c d e f g h where s: "s = (a, b, c, d, e, f, g, h)" by (metis surj_pair)
  from assms s have r: "range32 a" "range32 b" "range32 c" "range32 d" "range32 e" "range32 f" "range32 g" "range32 h"
    by (simp_all add: range8_def)
  show ?thesis
    unfolding s words8_def roundI_def range8_def
    by (simp only: prod.case sha_round.simps Let_def big_sigma0_def big_sigma1_def select32_def majority_def
        rot_rules r
        word_of_int_bits word_of_int_plus reduce32(1) [symmetric] reduce32(2) prod.inject simp_thms)
qed


definition scheduleI :: "int list \<Rightarrow> int list" where
  "scheduleI w = (let x = w ! 1; y = w ! 14 in reduce32 ((rotI 17 15 x XOR rotI 19 13 x XOR x div 1024) + w ! 6
     + (rotI 7 25 y XOR rotI 18 14 y XOR y div 8) + w ! 15) # w)"

lemma scheduleI:
  assumes "list_all range32 w" "16 \<le> length w"
  shows "extend_schedule (Suc n) (map word_of_int w) = extend_schedule n (map word_of_int (scheduleI w))
    \<and> list_all range32 (scheduleI w) \<and> 16 \<le> length (scheduleI w)"
proof -
  have r: "range32 (w ! 1)" "range32 (w ! 14)" using assms by (simp_all add: list_all_length)
  have "(small_sigma1 (word_of_int (w ! 1)) + word_of_int (w ! 6) + small_sigma0 (word_of_int (w ! 14)) + word_of_int (w ! 15) :: u32)
     = word_of_int (hd (scheduleI w))"
    by (simp only: scheduleI_def Let_def list.sel small_sigma0_def small_sigma1_def
        rot_rules r
        word_of_int_bits word_of_int_plus reduce32(1) [symmetric])
  moreover obtain z where z: "scheduleI w = z # w" by (simp add: scheduleI_def Let_def)
  moreover have "range32 (hd (scheduleI w))" by (simp add: scheduleI_def Let_def reduce32)
  ultimately show ?thesis using assms by simp
qed

definition constantsI :: "int list" where
  "constantsI = map uint round_constants"

fun roundsI :: "int \<times> int \<times> int \<times> int \<times> int \<times> int \<times> int \<times> int \<Rightarrow> (int \<times> int) list \<Rightarrow> int \<times> int \<times> int \<times> int \<times> int \<times> int \<times> int \<times> int" where
  "roundsI s [] = s"
| "roundsI s (kw # r) = roundsI (roundI s kw) r"

lemma roundsI:
  "range8 s \<Longrightarrow> foldl sha_round (words8 s) (map (\<lambda>(k, w). (word_of_int k, word_of_int w)) kws) = words8 (roundsI s kws)"
  by (induction s kws rule: roundsI.induct) (auto simp: roundI)

fun schedulesI :: "nat \<Rightarrow> int list \<Rightarrow> int list" where
  "schedulesI 0 w = w"
| "schedulesI (Suc n) w = schedulesI n (scheduleI w)"

lemma schedulesI:
  "list_all range32 w \<Longrightarrow> 16 \<le> length w \<Longrightarrow> extend_schedule n (map word_of_int w) = map word_of_int (schedulesI n w)"
  by (induction n arbitrary: w) (use scheduleI in \<open>auto simp del: extend_schedule.simps(2)\<close>)

definition stateI :: "int \<times> int \<times> int \<times> int \<times> int \<times> int \<times> int \<times> int" where
  "stateI = (1779033703, 3144134277, 1013904242, 2773480762, 1359893119, 2600822924, 528734635, 1541459225)"

lemma compressI:
  assumes "list_all range32 w" "16 \<le> length w"
  shows "compress initial_state (map word_of_int w)
    = add_state initial_state (words8 (roundsI stateI (zip constantsI (rev (schedulesI 48 (rev w))))))"
proof -
  have "zip round_constants (rev (extend_schedule 48 (rev (map word_of_int w))))
      = map (\<lambda>(k, w). (word_of_int k, word_of_int w)) (zip constantsI (rev (schedulesI 48 (rev w))))"
    using schedulesI [of "rev w" 48] assms
    by (simp add: constantsI_def zip_map1 zip_map2 rev_map [symmetric] split_def comp_def) (simp add: rev_map zip_map2 split_def)
  moreover have init: "initial_state = words8 stateI" by (simp add: initial_state_def words8_def stateI_def)
  moreover have "range8 stateI" by (simp add: range8_def stateI_def range32_def)
  ultimately show ?thesis unfolding compress_def by (metis roundsI)
qed

lemma schedulesI_numeral: "schedulesI (numeral n) w = schedulesI (pred_numeral n) (scheduleI w)"
  by (simp add: numeral_eq_Suc)

definition round_end :: "int \<Rightarrow> int \<Rightarrow> int \<times> int \<times> int \<times> int \<times> int \<times> int \<times> int \<Rightarrow> int \<times> int \<times> int \<times> int \<times> int \<times> int \<times> int \<times> int" where
  "round_end t1 t2 s = (case s of (a, b, c, d, e, f, g) \<Rightarrow> (reduce32 (t1 + t2), a, b, c, reduce32 (d + t1), e, f, g))"

lemma round_end_eq: "round_end (numeral x) (numeral y) (a, b, c, d, e, f, g) = (reduce32 (numeral x + numeral y), a, b, c, reduce32 (d + numeral x), e, f, g)"
  by (simp add: round_end_def)

lemma roundI_eq: "roundI (a, b, c, d, e, f, g, h) (k, w) = round_end
     (h + (rotI 6 26 e XOR rotI 11 21 e XOR rotI 25 7 e) + ((e AND f) XOR ((NOT e) AND g)) + k + w)
     ((rotI 2 30 a XOR rotI 13 19 a XOR rotI 22 10 a) + ((a AND b) XOR (a AND c) XOR (b AND c))) (a, b, c, d, e, f, g)"
  by (simp add: roundI_def round_end_def Let_def)

definition schedule_end :: "int \<Rightarrow> int list \<Rightarrow> int list" where
  "schedule_end x w = reduce32 x # w"

lemma schedule_end_eq: "schedule_end (numeral x) w = reduce32 (numeral x) # w" "schedule_end 0 w = 0 # w" "schedule_end 1 w = 1 # w"
  by (simp_all add: schedule_end_def reduce32_def)

lemma scheduleI_eq: "scheduleI w = schedule_end ((rotI 17 15 (w ! 1) XOR rotI 19 13 (w ! 1) XOR w ! 1 div 1024) + w ! 6
     + (rotI 7 25 (w ! 14) XOR rotI 18 14 (w ! 14) XOR w ! 14 div 8) + w ! 15) w"
  by (simp add: scheduleI_def Let_def schedule_end_def)

lemma empty_schedule:
  "schedulesI 48 [0, 0, 0, 0, 0, 0, 0, 0, 0, 0, 0, 0, 0, 0, 0, 2147483648] = [996066459, 1153231965, 1581412744, 3704256008, 4161330627, 133517113, 1967544444, 43741191, 3526495142, 907775968, 195877528, 369937616, 30329261, 1008022316, 748767245, 3741240933, 1575308336, 3297584367, 614207615, 3286092305, 2975250741, 1562224585, 62000258, 2561075048, 2165675682, 2813755136, 4274181962, 1904000662, 2742808854, 109604294, 676112230, 3287351444, 3374850048, 3594910044, 337794312, 3592562048, 1711282176, 1451269, 4235264, 1476919296, 2147483648, 84448578, 0, 570427392, 0, 2117632, 0, 2147483648, 0, 0, 0, 0, 0, 0, 0, 0, 0, 0, 0, 0, 0, 0, 0, 2147483648]"
  by (simp add: schedulesI_numeral scheduleI_eq schedule_end_eq rotI_def reduce32_def)

lemma empty_rounds_0:
  "roundsI (1779033703, 3144134277, 1013904242, 2773480762, 1359893119, 2600822924, 528734635, 1541459225) ([(1116352408, 2147483648), (1899447441, 0), (3049323471, 0), (3921009573, 0), (961987163, 0), (1508970993, 0), (2453635748, 0), (2870763221, 0), (3624381080, 0), (310598401, 0), (607225278, 0), (1426881987, 0), (1925078388, 0), (2162078206, 0), (2614888103, 0), (3248222580, 0)] @ r) = roundsI (3019933109, 3096116699, 1170215847, 553833165, 1555621987, 483372089, 725774998, 3455974994) r"
  by (simp add: roundI_eq round_end_eq rotI_def reduce32_def)

lemma empty_rounds_1:
  "roundsI (3019933109, 3096116699, 1170215847, 553833165, 1555621987, 483372089, 725774998, 3455974994) ([(3835390401, 2147483648), (4022224774, 0), (264347078, 2117632), (604807628, 0), (770255983, 570427392), (1249150122, 0), (1555081692, 84448578), (1996064986, 2147483648), (2554220882, 1476919296), (2821834349, 4235264), (2952996808, 1451269), (3210313671, 1711282176), (3336571891, 3592562048), (3584528711, 337794312), (113926993, 3594910044), (338241895, 3374850048)] @ r) = roundsI (300352095, 2696613087, 1926471693, 1690082844, 3151463532, 1447716390, 2957685293, 2506713973) r"
  by (simp add: roundI_eq round_end_eq rotI_def reduce32_def)

lemma empty_rounds_2:
  "roundsI (300352095, 2696613087, 1926471693, 1690082844, 3151463532, 1447716390, 2957685293, 2506713973) ([(666307205, 3287351444), (773529912, 676112230), (1294757372, 109604294), (1396182291, 2742808854), (1695183700, 1904000662), (1986661051, 4274181962), (2177026350, 2813755136), (2456956037, 2165675682), (2730485921, 2561075048), (2820302411, 62000258), (3259730800, 1562224585), (3345764771, 2975250741), (3516065817, 3286092305), (3600352804, 614207615), (4094571909, 3297584367), (275423344, 1575308336)] @ r) = roundsI (911881421, 1419259244, 855262251, 2752082644, 3417569515, 2322236082, 3531982457, 2855016464) r"
  by (simp add: roundI_eq round_end_eq rotI_def reduce32_def)

lemma empty_rounds_3:
  "roundsI (911881421, 1419259244, 855262251, 2752082644, 3417569515, 2322236082, 3531982457, 2855016464) ([(430227734, 3741240933), (506948616, 748767245), (659060556, 1008022316), (883997877, 30329261), (958139571, 369937616), (1322822218, 195877528), (1537002063, 907775968), (1747873779, 3526495142), (1955562222, 43741191), (2024104815, 1967544444), (2227730452, 133517113), (2361852424, 4161330627), (2428436474, 3704256008), (2756734187, 1581412744), (3204031479, 1153231965), (3329325298, 996066459)] @ r) = roundsI (2040978907, 3717492111, 1586299222, 4095722474, 3600805733, 3382061760, 2232532848, 477227836) r"
  by (simp add: roundI_eq round_end_eq rotI_def reduce32_def)

lemma to_be_numeral: "to_be (numeral k) n = to_be (pred_numeral k) (n div 256) @ [word_of_nat (n mod 256)]"
  using to_be.simps(2) [of "pred_numeral k" n] by (simp only: numeral_eq_Suc [symmetric, of k])

lemma replicate_numeral: "replicate (numeral n) x = x # replicate (pred_numeral n) x"
  by (simp add: numeral_eq_Suc)

lemma padded_empty: "pad_message [] = 128 # replicate 63 0"
proof -
  have "to_be 8 0 = replicate 8 0" by (simp add: to_be_numeral replicate_numeral)
  moreover have "replicate 55 (0 :: byte) @ replicate 8 0 = replicate 63 0" by (simp flip: replicate_add)
  ultimately show ?thesis by (simp add: pad_message_def)
qed

lemma empty_words: "words32 (128 # replicate 63 0) = map word_of_int [2147483648, 0, 0, 0, 0, 0, 0, 0, 0, 0, 0, 0, 0, 0, 0, 0]"
  by (simp add: replicate_numeral from_be_def)

lemma empty_zip:
  "zip constantsI (rev (schedulesI 48 (rev [2147483648, 0, 0, 0, 0, 0, 0, 0, 0, 0, 0, 0, 0, 0, 0, 0]))) = [(1116352408, 2147483648), (1899447441, 0), (3049323471, 0), (3921009573, 0), (961987163, 0), (1508970993, 0), (2453635748, 0), (2870763221, 0), (3624381080, 0), (310598401, 0), (607225278, 0), (1426881987, 0), (1925078388, 0), (2162078206, 0), (2614888103, 0), (3248222580, 0)] @ [(3835390401, 2147483648), (4022224774, 0), (264347078, 2117632), (604807628, 0), (770255983, 570427392), (1249150122, 0), (1555081692, 84448578), (1996064986, 2147483648), (2554220882, 1476919296), (2821834349, 4235264), (2952996808, 1451269), (3210313671, 1711282176), (3336571891, 3592562048), (3584528711, 337794312), (113926993, 3594910044), (338241895, 3374850048)] @ [(666307205, 3287351444), (773529912, 676112230), (1294757372, 109604294), (1396182291, 2742808854), (1695183700, 1904000662), (1986661051, 4274181962), (2177026350, 2813755136), (2456956037, 2165675682), (2730485921, 2561075048), (2820302411, 62000258), (3259730800, 1562224585), (3345764771, 2975250741), (3516065817, 3286092305), (3600352804, 614207615), (4094571909, 3297584367), (275423344, 1575308336)] @ [(430227734, 3741240933), (506948616, 748767245), (659060556, 1008022316), (883997877, 30329261), (958139571, 369937616), (1322822218, 195877528), (1537002063, 907775968), (1747873779, 3526495142), (1955562222, 43741191), (2024104815, 1967544444), (2227730452, 133517113), (2361852424, 4161330627), (2428436474, 3704256008), (2756734187, 1581412744), (3204031479, 1153231965), (3329325298, 996066459)] @ []"
proof -
  have "rev [2147483648, 0, 0, 0, 0, 0, 0, 0, 0, 0, 0, 0, 0, 0, 0, 0] = [0, 0, 0, 0, 0, 0, 0, 0, 0, 0, 0, 0, 0, 0, 0, 2147483648 :: int]" by simp
  then show ?thesis by (simp only: empty_schedule) (simp add: constantsI_def round_constants_def)
qed

lemma sha256_empty: "sha256 [] = state_bytes (add_state initial_state (words8 (2040978907, 3717492111, 1586299222, 4095722474, 3600805733, 3382061760, 2232532848, 477227836)))"
proof -
  have "foldl compress initial_state (blocks_of 1 (map word_of_int [2147483648, 0, 0, 0, 0, 0, 0, 0, 0, 0, 0, 0, 0, 0, 0, 0])) = compress initial_state (map word_of_int [2147483648, 0, 0, 0, 0, 0, 0, 0, 0, 0, 0, 0, 0, 0, 0, 0])"
    by simp
  also have "\<dots> = add_state initial_state (words8 (roundsI stateI (zip constantsI (rev (schedulesI 48 (rev [2147483648, 0, 0, 0, 0, 0, 0, 0, 0, 0, 0, 0, 0, 0, 0, 0]))))))"
    by (rule compressI) (simp_all add: range32_def)
  also have "roundsI stateI (zip constantsI (rev (schedulesI 48 (rev [2147483648, 0, 0, 0, 0, 0, 0, 0, 0, 0, 0, 0, 0, 0, 0, 0])))) = (2040978907, 3717492111, 1586299222, 4095722474, 3600805733, 3382061760, 2232532848, 477227836)"
    unfolding empty_zip stateI_def empty_rounds_0 empty_rounds_1 empty_rounds_2 empty_rounds_3 by simp
  finally show ?thesis by (simp only: sha256_def Let_def padded_empty empty_words) simp
qed

text \<open>The test vector of the empty message.\<close>

lemma sha_empty: "sha [] = u ''e3b0c44298fc1c149afbf4c8996fb92427ae41e4649b934ca495991b7852b855''"
proof -
  have "hex_of (state_bytes (add_state initial_state (words8 (2040978907, 3717492111, 1586299222, 4095722474, 3600805733, 3382061760, 2232532848, 477227836)))) = u ''e3b0c44298fc1c149afbf4c8996fb92427ae41e4649b934ca495991b7852b855''"
    by code_simp
  then show ?thesis by (simp add: sha_def sha256_hex_def sha256_empty)
qed

lemma digest_sha_empty: "digest_ok (sha [])"
  unfolding sha_empty by code_simp

text \<open>The digest of the one-byte message \<open>a\<close>.\<close>

lemma letter_schedule: "schedulesI 48 [8, 0, 0, 0, 0, 0, 0, 0, 0, 0, 0, 0, 0, 0, 0, 1635778560] = [437875702, 1263929092, 2469173944, 2701906667, 3499629400, 180155490, 3522125205, 2903603907, 3949574890, 1033019558, 1586056439, 3496569764, 94293662, 549736647, 3907087946, 2270052052, 1485172202, 672155011, 880001914, 1535805387, 2125329283, 4249027604, 3485483069, 1300124463, 271167412, 1253140406, 1001162000, 4080769913, 64929029, 608711254, 4226548945, 3478381332, 2826334724, 2214422785, 1490790584, 2879487107, 373564033, 222227719, 340994616, 4196812800, 3791659013, 3284561878, 8475648, 635831832, 536871234, 1596656, 327680, 1635778560, 8, 0, 0, 0, 0, 0, 0, 0, 0, 0, 0, 0, 0, 0, 0, 1635778560]"
  by (simp add: schedulesI_numeral scheduleI_eq schedule_end_eq rotI_def reduce32_def)

lemma letter_rounds_0: "roundsI (1779033703, 3144134277, 1013904242, 2773480762, 1359893119, 2600822924, 528734635, 1541459225) ([(1116352408, 1635778560), (1899447441, 0), (3049323471, 0), (3921009573, 0), (961987163, 0), (1508970993, 0), (2453635748, 0), (2870763221, 0), (3624381080, 0), (310598401, 0), (607225278, 0), (1426881987, 0), (1925078388, 0), (2162078206, 0), (2614888103, 0), (3248222580, 8)] @ r) = roundsI (630464737, 914413002, 1028061260, 3410300002, 2272698038, 1066270358, 674196824, 3428158399) r"
  by (simp add: roundI_eq round_end_eq rotI_def reduce32_def)

lemma letter_rounds_1: "roundsI (630464737, 914413002, 1028061260, 3410300002, 2272698038, 1066270358, 674196824, 3428158399) ([(3835390401, 1635778560), (4022224774, 327680), (264347078, 1596656), (604807628, 536871234), (770255983, 635831832), (1249150122, 8475648), (1555081692, 3284561878), (1996064986, 3791659013), (2554220882, 4196812800), (2821834349, 340994616), (2952996808, 222227719), (3210313671, 373564033), (3336571891, 2879487107), (3584528711, 1490790584), (113926993, 2214422785), (338241895, 2826334724)] @ r) = roundsI (2602475043, 3790424529, 1768984080, 3445188106, 3393716569, 3690975972, 2483820244, 2380626381) r"
  by (simp add: roundI_eq round_end_eq rotI_def reduce32_def)

lemma letter_rounds_2: "roundsI (2602475043, 3790424529, 1768984080, 3445188106, 3393716569, 3690975972, 2483820244, 2380626381) ([(666307205, 3478381332), (773529912, 4226548945), (1294757372, 608711254), (1396182291, 64929029), (1695183700, 4080769913), (1986661051, 1001162000), (2177026350, 1253140406), (2456956037, 271167412), (2730485921, 1300124463), (2820302411, 3485483069), (3259730800, 4249027604), (3345764771, 2125329283), (3516065817, 1535805387), (3600352804, 880001914), (4094571909, 672155011), (275423344, 1485172202)] @ r) = roundsI (4074673878, 2289937418, 2125767269, 1779138808, 527070757, 426630791, 2276549171, 1197095649) r"
  by (simp add: roundI_eq round_end_eq rotI_def reduce32_def)

lemma letter_rounds_3: "roundsI (4074673878, 2289937418, 2125767269, 1779138808, 527070757, 426630791, 2276549171, 1197095649) ([(430227734, 2270052052), (506948616, 3907087946), (659060556, 549736647), (883997877, 94293662), (958139571, 3496569764), (1322822218, 1586056439), (1537002063, 1033019558), (1747873779, 3949574890), (1955562222, 2903603907), (2024104815, 3522125205), (2227730452, 180155490), (2361852424, 3499629400), (2428436474, 2701906667), (2756734187, 2469173944), (3204031479, 1263929092), (3329325298, 437875702)] @ r) = roundsI (1619892907, 246681413, 3193126465, 4107527955, 1450745209, 2037835238, 2583469530, 1410169762) r"
  by (simp add: roundI_eq round_end_eq rotI_def reduce32_def)

lemma padded_letter: "pad_message [97] = [97, 128] @ replicate 61 0 @ [8]"
proof -
  have "to_be 8 8 = replicate 7 0 @ [8 :: byte]" by (simp add: to_be_numeral replicate_numeral)
  moreover have "replicate 54 (0 :: byte) @ replicate 7 0 = replicate 61 0" by (simp flip: replicate_add)
  ultimately show ?thesis by (simp add: pad_message_def)
qed

lemma letter_words: "words32 ([97, 128] @ replicate 61 0 @ [8]) = map word_of_int [1635778560, 0, 0, 0, 0, 0, 0, 0, 0, 0, 0, 0, 0, 0, 0, 8]"
  by (simp add: replicate_numeral from_be_def)

lemma letter_zip: "zip constantsI (rev (schedulesI 48 (rev [1635778560, 0, 0, 0, 0, 0, 0, 0, 0, 0, 0, 0, 0, 0, 0, 8]))) = [(1116352408, 1635778560), (1899447441, 0), (3049323471, 0), (3921009573, 0), (961987163, 0), (1508970993, 0), (2453635748, 0), (2870763221, 0), (3624381080, 0), (310598401, 0), (607225278, 0), (1426881987, 0), (1925078388, 0), (2162078206, 0), (2614888103, 0), (3248222580, 8)] @ [(3835390401, 1635778560), (4022224774, 327680), (264347078, 1596656), (604807628, 536871234), (770255983, 635831832), (1249150122, 8475648), (1555081692, 3284561878), (1996064986, 3791659013), (2554220882, 4196812800), (2821834349, 340994616), (2952996808, 222227719), (3210313671, 373564033), (3336571891, 2879487107), (3584528711, 1490790584), (113926993, 2214422785), (338241895, 2826334724)] @ [(666307205, 3478381332), (773529912, 4226548945), (1294757372, 608711254), (1396182291, 64929029), (1695183700, 4080769913), (1986661051, 1001162000), (2177026350, 1253140406), (2456956037, 271167412), (2730485921, 1300124463), (2820302411, 3485483069), (3259730800, 4249027604), (3345764771, 2125329283), (3516065817, 1535805387), (3600352804, 880001914), (4094571909, 672155011), (275423344, 1485172202)] @ [(430227734, 2270052052), (506948616, 3907087946), (659060556, 549736647), (883997877, 94293662), (958139571, 3496569764), (1322822218, 1586056439), (1537002063, 1033019558), (1747873779, 3949574890), (1955562222, 2903603907), (2024104815, 3522125205), (2227730452, 180155490), (2361852424, 3499629400), (2428436474, 2701906667), (2756734187, 2469173944), (3204031479, 1263929092), (3329325298, 437875702)] @ []"
proof -
  have "rev [1635778560, 0, 0, 0, 0, 0, 0, 0, 0, 0, 0, 0, 0, 0, 0, 8] = [8, 0, 0, 0, 0, 0, 0, 0, 0, 0, 0, 0, 0, 0, 0, 1635778560 :: int]" by simp
  then show ?thesis by (simp only: letter_schedule) (simp add: constantsI_def round_constants_def)
qed

lemma sha256_letter: "sha256 [97] = state_bytes (add_state initial_state (words8 (1619892907, 246681413, 3193126465, 4107527955, 1450745209, 2037835238, 2583469530, 1410169762)))"
proof -
  have "foldl compress initial_state (blocks_of 1 (map word_of_int [1635778560, 0, 0, 0, 0, 0, 0, 0, 0, 0, 0, 0, 0, 0, 0, 8])) = compress initial_state (map word_of_int [1635778560, 0, 0, 0, 0, 0, 0, 0, 0, 0, 0, 0, 0, 0, 0, 8])" by simp
  also have "\<dots> = add_state initial_state (words8 (roundsI stateI (zip constantsI (rev (schedulesI 48 (rev [1635778560, 0, 0, 0, 0, 0, 0, 0, 0, 0, 0, 0, 0, 0, 0, 8]))))))"
    by (rule compressI) (simp_all add: range32_def)
  also have "roundsI stateI (zip constantsI (rev (schedulesI 48 (rev [1635778560, 0, 0, 0, 0, 0, 0, 0, 0, 0, 0, 0, 0, 0, 0, 8])))) = (1619892907, 246681413, 3193126465, 4107527955, 1450745209, 2037835238, 2583469530, 1410169762)"
    unfolding letter_zip stateI_def letter_rounds_0 letter_rounds_1 letter_rounds_2 letter_rounds_3 by simp
  finally show ?thesis by (simp only: sha256_def Let_def padded_letter letter_words) simp
qed

lemma sha256_letter_bytes: "sha256 [97] = [202, 151, 129, 18, 202, 27, 189, 202, 250, 194, 49, 179, 154, 35, 220, 77, 167, 134, 239, 248, 20, 124, 78, 114, 185, 128, 119, 133, 175, 238, 72, 187]"
  unfolding sha256_letter by code_simp

text \<open>The digest of the one-byte message \<open>b\<close>.\<close>

lemma next_schedule: "schedulesI 48 [8, 0, 0, 0, 0, 0, 0, 0, 0, 0, 0, 0, 0, 0, 0, 1652555776] = [3464477635, 339989886, 3316888898, 413667796, 2805643887, 197160320, 3809304693, 2757956516, 3020869461, 492885753, 3073262120, 174740079, 405783290, 1059679281, 3195457508, 3536363795, 1747705803, 3912657560, 3886831786, 3338039514, 1331578362, 2616517674, 1714598239, 1441358802, 15154073, 1421905669, 2430782688, 656854878, 2275073822, 284177767, 3440702681, 3714189142, 855999496, 2063790462, 1490045635, 2822848580, 1297097361, 1396634552, 340994808, 4198529024, 3808436229, 1137078201, 8475648, 1563035176, 536871234, 1613072, 327680, 1652555776, 8, 0, 0, 0, 0, 0, 0, 0, 0, 0, 0, 0, 0, 0, 0, 1652555776]"
  by (simp add: schedulesI_numeral scheduleI_eq schedule_end_eq rotI_def reduce32_def)

lemma next_rounds_0: "roundsI (1779033703, 3144134277, 1013904242, 2773480762, 1359893119, 2600822924, 528734635, 1541459225) ([(1116352408, 1652555776), (1899447441, 0), (3049323471, 0), (3921009573, 0), (961987163, 0), (1508970993, 0), (2453635748, 0), (2870763221, 0), (3624381080, 0), (310598401, 0), (607225278, 0), (1426881987, 0), (1925078388, 0), (2162078206, 0), (2614888103, 0), (3248222580, 8)] @ r) = roundsI (2681884660, 1552895477, 2216607138, 3532831664, 813431132, 4292873135, 2795834037, 1734587586) r"
  by (simp add: roundI_eq round_end_eq rotI_def reduce32_def)

lemma next_rounds_1: "roundsI (2681884660, 1552895477, 2216607138, 3532831664, 813431132, 4292873135, 2795834037, 1734587586) ([(3835390401, 1652555776), (4022224774, 327680), (264347078, 1613072), (604807628, 536871234), (770255983, 1563035176), (1249150122, 8475648), (1555081692, 1137078201), (1996064986, 3808436229), (2554220882, 4198529024), (2821834349, 340994808), (2952996808, 1396634552), (3210313671, 1297097361), (3336571891, 2822848580), (3584528711, 1490045635), (113926993, 2063790462), (338241895, 855999496)] @ r) = roundsI (2139878967, 3557659339, 2638417361, 966818635, 1819666491, 1868239392, 1965573420, 234972254) r"
  by (simp add: roundI_eq round_end_eq rotI_def reduce32_def)

lemma next_rounds_2: "roundsI (2139878967, 3557659339, 2638417361, 966818635, 1819666491, 1868239392, 1965573420, 234972254) ([(666307205, 3714189142), (773529912, 3440702681), (1294757372, 284177767), (1396182291, 2275073822), (1695183700, 656854878), (1986661051, 2430782688), (2177026350, 1421905669), (2456956037, 15154073), (2730485921, 1441358802), (2820302411, 1714598239), (3259730800, 2616517674), (3345764771, 1331578362), (3516065817, 3338039514), (3600352804, 3886831786), (4094571909, 3912657560), (275423344, 1747705803)] @ r) = roundsI (2997572903, 1315169059, 2913627201, 2058268196, 1727380696, 926687635, 875807000, 2449238775) r"
  by (simp add: roundI_eq round_end_eq rotI_def reduce32_def)

lemma next_rounds_3: "roundsI (2997572903, 1315169059, 2913627201, 2058268196, 1727380696, 926687635, 875807000, 2449238775) ([(430227734, 3536363795), (506948616, 3195457508), (659060556, 1059679281), (883997877, 405783290), (958139571, 174740079), (1322822218, 3073262120), (1537002063, 492885753), (1747873779, 3020869461), (1955562222, 2757956516), (2024104815, 3809304693), (2227730452, 197160320), (2361852424, 2805643887), (2428436474, 413667796), (2756734187, 3316888898), (3204031479, 339989886), (3329325298, 3464477635)] @ r) = roundsI (3558474159, 1154591429, 4145699827, 3213999098, 984557441, 3989750718, 2884637955, 2042311556) r"
  by (simp add: roundI_eq round_end_eq rotI_def reduce32_def)

lemma padded_next: "pad_message [98] = [98, 128] @ replicate 61 0 @ [8]"
proof -
  have "to_be 8 8 = replicate 7 0 @ [8 :: byte]" by (simp add: to_be_numeral replicate_numeral)
  moreover have "replicate 54 (0 :: byte) @ replicate 7 0 = replicate 61 0" by (simp flip: replicate_add)
  ultimately show ?thesis by (simp add: pad_message_def)
qed

lemma next_words: "words32 ([98, 128] @ replicate 61 0 @ [8]) = map word_of_int [1652555776, 0, 0, 0, 0, 0, 0, 0, 0, 0, 0, 0, 0, 0, 0, 8]"
  by (simp add: replicate_numeral from_be_def)

lemma next_zip: "zip constantsI (rev (schedulesI 48 (rev [1652555776, 0, 0, 0, 0, 0, 0, 0, 0, 0, 0, 0, 0, 0, 0, 8]))) = [(1116352408, 1652555776), (1899447441, 0), (3049323471, 0), (3921009573, 0), (961987163, 0), (1508970993, 0), (2453635748, 0), (2870763221, 0), (3624381080, 0), (310598401, 0), (607225278, 0), (1426881987, 0), (1925078388, 0), (2162078206, 0), (2614888103, 0), (3248222580, 8)] @ [(3835390401, 1652555776), (4022224774, 327680), (264347078, 1613072), (604807628, 536871234), (770255983, 1563035176), (1249150122, 8475648), (1555081692, 1137078201), (1996064986, 3808436229), (2554220882, 4198529024), (2821834349, 340994808), (2952996808, 1396634552), (3210313671, 1297097361), (3336571891, 2822848580), (3584528711, 1490045635), (113926993, 2063790462), (338241895, 855999496)] @ [(666307205, 3714189142), (773529912, 3440702681), (1294757372, 284177767), (1396182291, 2275073822), (1695183700, 656854878), (1986661051, 2430782688), (2177026350, 1421905669), (2456956037, 15154073), (2730485921, 1441358802), (2820302411, 1714598239), (3259730800, 2616517674), (3345764771, 1331578362), (3516065817, 3338039514), (3600352804, 3886831786), (4094571909, 3912657560), (275423344, 1747705803)] @ [(430227734, 3536363795), (506948616, 3195457508), (659060556, 1059679281), (883997877, 405783290), (958139571, 174740079), (1322822218, 3073262120), (1537002063, 492885753), (1747873779, 3020869461), (1955562222, 2757956516), (2024104815, 3809304693), (2227730452, 197160320), (2361852424, 2805643887), (2428436474, 413667796), (2756734187, 3316888898), (3204031479, 339989886), (3329325298, 3464477635)] @ []"
proof -
  have "rev [1652555776, 0, 0, 0, 0, 0, 0, 0, 0, 0, 0, 0, 0, 0, 0, 8] = [8, 0, 0, 0, 0, 0, 0, 0, 0, 0, 0, 0, 0, 0, 0, 1652555776 :: int]" by simp
  then show ?thesis by (simp only: next_schedule) (simp add: constantsI_def round_constants_def)
qed

lemma sha256_next: "sha256 [98] = state_bytes (add_state initial_state (words8 (3558474159, 1154591429, 4145699827, 3213999098, 984557441, 3989750718, 2884637955, 2042311556)))"
proof -
  have "foldl compress initial_state (blocks_of 1 (map word_of_int [1652555776, 0, 0, 0, 0, 0, 0, 0, 0, 0, 0, 0, 0, 0, 0, 8])) = compress initial_state (map word_of_int [1652555776, 0, 0, 0, 0, 0, 0, 0, 0, 0, 0, 0, 0, 0, 0, 8])" by simp
  also have "\<dots> = add_state initial_state (words8 (roundsI stateI (zip constantsI (rev (schedulesI 48 (rev [1652555776, 0, 0, 0, 0, 0, 0, 0, 0, 0, 0, 0, 0, 0, 0, 8]))))))"
    by (rule compressI) (simp_all add: range32_def)
  also have "roundsI stateI (zip constantsI (rev (schedulesI 48 (rev [1652555776, 0, 0, 0, 0, 0, 0, 0, 0, 0, 0, 0, 0, 0, 0, 8])))) = (3558474159, 1154591429, 4145699827, 3213999098, 984557441, 3989750718, 2884637955, 2042311556)"
    unfolding next_zip stateI_def next_rounds_0 next_rounds_1 next_rounds_2 next_rounds_3 by simp
  finally show ?thesis by (simp only: sha256_def Let_def padded_next next_words) simp
qed

lemma sha256_next_bytes: "sha256 [98] = [62, 35, 232, 22, 0, 57, 89, 74, 51, 137, 79, 101, 100, 225, 177, 52, 139, 189, 122, 0, 136, 212, 44, 74, 203, 115, 238, 174, 213, 156, 0, 157]"
  unfolding sha256_next by code_simp

text \<open>Both as \<open>sha\<close> returns them.\<close>

lemma sha_letter: "sha [97] = u ''ca978112ca1bbdcafac231b39a23dc4da786eff8147c4e72b9807785afee48bb''"
proof -
  have "hex_of [202, 151, 129, 18, 202, 27, 189, 202, 250, 194, 49, 179, 154, 35, 220, 77, 167, 134, 239, 248, 20, 124, 78, 114, 185, 128, 119, 133, 175, 238, 72, 187]
      = u ''ca978112ca1bbdcafac231b39a23dc4da786eff8147c4e72b9807785afee48bb''" by code_simp
  then show ?thesis by (simp add: sha_def sha256_hex_def sha256_letter_bytes)
qed

lemma sha_next: "sha [98] = u ''3e23e8160039594a33894f6564e1b1348bbd7a0088d42c4acb73eeaed59c009d''"
proof -
  have "hex_of [62, 35, 232, 22, 0, 57, 89, 74, 51, 137, 79, 101, 100, 225, 177, 52, 139, 189, 122, 0, 136, 212, 44, 74, 203, 115, 238, 174, 213, 156, 0, 157] = u ''3e23e8160039594a33894f6564e1b1348bbd7a0088d42c4acb73eeaed59c009d''" by code_simp
  then show ?thesis by (simp add: sha_def sha256_hex_def sha256_next_bytes)
qed

end
