(* ===== verification/Debian_Archive_Auth.thy ===== *)
theory Debian_Archive_Auth
  imports Deb_Inspect Sha256_Vector
begin

text \<open>
  \<open>tools/debian_archive_auth.py\<close>: the trust policy, the authentication of a clear-signed Release,
  its freshness, and the chain from the Release to one package or to the complete source of one
  package. Arguments of the model stand for what runs outside this code: \<open>gpgv\<close> (its exit code,
  status lines and output file), the date parser of \<open>email.utils\<close>, the files below the snapshot's
  root (\<open>read_at\<close> with the name and the limit asked for, \<open>hash_file_at\<close>), and the decompressors and
  \<open>tarfile\<close> of the package reader.
\<close>

definition MAX_RELEASE :: nat where
  "MAX_RELEASE = 16 * 1024 * 1024"

definition MAX_INDEX :: nat where
  "MAX_INDEX = 256 * 1024 * 1024"

section \<open>The trust policy\<close>

definition fingerprint_ok :: "pystr \<Rightarrow> bool" where
  "fingerprint_ok s \<longleftrightarrow> (length s = 40 \<or> length s = 64) \<and> list_all (\<lambda>c. ascii_digit c \<or> 65 \<le> c \<and> c \<le> 70) s"

definition AUTH_FIELDS :: "string list" where
  "AUTH_FIELDS = [''schema'', ''keyring_sha256'', ''primary_fingerprints'', ''minimum_signatures'', ''now'',
     ''max_age_seconds'', ''future_skew_seconds'']"

definition AUTH_FIELDS2 :: "string list" where
  "AUTH_FIELDS2 = [''schema'', ''keyring_sha256'', ''primary_fingerprints'', ''minimum_signatures'', ''release'',
     ''max_age_seconds'', ''future_skew_seconds'']"

definition RELEASE_FIELDS :: "string list" where
  "RELEASE_FIELDS = [''codename'', ''suite'', ''architecture'', ''components'', ''inrelease_sha256'', ''minimum_date'', ''expires'']"

definition COMPONENTS :: "pystr list" where
  "COMPONENTS = map u [''contrib'', ''main'', ''non-free'', ''non-free-firmware'']"

definition POCKETS :: "(pystr \<times> string) list" where
  "POCKETS = [(u ''trixie'', ''''), (u ''trixie-updates'', ''-updates''), (u ''trixie-security'', ''-security''),
     (u ''trixie-backports'', ''-backports'')]"

definition str_of :: "pyval \<Rightarrow> pystr option" where
  "str_of v = (case v of PStr s \<Rightarrow> Some s | _ \<Rightarrow> None)"

definition int_of :: "pyval \<Rightarrow> int" where
  "int_of v = (case v of PInt i \<Rightarrow> i | _ \<Rightarrow> 0)"

text \<open>A list of strings, each satisfying \<open>p\<close>.\<close>

definition str_items :: "(pystr \<Rightarrow> bool) \<Rightarrow> pyval \<Rightarrow> pystr list option" where
  "str_items p v = (case v of
       PList xs \<Rightarrow> if list_all (\<lambda>x. case x of PStr s \<Rightarrow> p s | _ \<Rightarrow> False) xs
                   then Some (map (\<lambda>x. case x of PStr s \<Rightarrow> s | _ \<Rightarrow> []) xs) else None
     | _ \<Rightarrow> None)"

definition check_fingerprints :: "pyval \<Rightarrow> pystr list res" where
  "check_fingerprints v = (case str_items fingerprint_ok v of
       Some fs \<Rightarrow> if 1 \<le> length fs \<and> length fs \<le> 16 \<and> distinct fs then Inr fs else invalid ''pinned primary fingerprints''
     | None \<Rightarrow> invalid ''pinned primary fingerprints'')"

definition pocket_of :: "pyval \<Rightarrow> (pystr \<times> string) option" where
  "pocket_of v = (case v of PStr c \<Rightarrow> map_option (Pair c) (map_of POCKETS c) | _ \<Rightarrow> None)"

definition check_pinned_release :: "pyval \<Rightarrow> int \<Rightarrow> unit res" where
  "check_pinned_release r max_age =
     bindE (check_fields r RELEASE_FIELDS ''pinned Release policy'') (\<lambda>_.
     case pocket_of (field r ''codename'') of
       None \<Rightarrow> invalid ''unsupported pinned codename''
     | Some (codename, pocket) \<Rightarrow>
         if str_of (field r ''suite'') \<notin> Some ` set (map (\<lambda>s. u (s @ pocket)) [''stable'', ''oldstable'', ''oldoldstable''])
         then invalid ''suite does not match pinned pocket''
         else if (case field r ''architecture'' of PStr a \<Rightarrow> \<not> architecture_ok a \<or> a = u ''all'' | _ \<Rightarrow> True)
         then invalid ''binary index architecture''
         else if (case str_items (\<lambda>c. c \<in> set COMPONENTS) (field r ''components'') of
             Some cs \<Rightarrow> \<not> (1 \<le> length cs \<and> length cs \<le> 4) \<or> cs \<noteq> sorted_set cs | None \<Rightarrow> True)
         then invalid ''canonical component policy''
         else bindE (digest (field r ''inrelease_sha256'')) (\<lambda>_.
           bindE (integer (field r ''minimum_date'') 1 (2 ^ 53 - 1) ''independent Release date floor'') (\<lambda>low.
           bindE (integer (field r ''expires'') (low + 1) (2 ^ 53 - 1) ''independent intake expiry'') (\<lambda>_.
             if codename \<noteq> u ''trixie'' \<and> max_age > 30 * 86400 then invalid ''update pocket age limit'' else Inr ()))))"

definition legacy_schema :: pystr where
  "legacy_schema = u ''org.niaos.debian-trust/v1''"

definition auth_policy :: "pyval \<Rightarrow> unit res" where
  "auth_policy policy =
     (if \<not> is_dict policy then invalid ''archive trust policy type''
      else if field policy ''schema'' \<noteq> PStr legacy_schema \<and> field policy ''schema'' \<noteq> PStr (u ''org.niaos.debian-trust/v2'')
      then invalid ''trust policy version''
      else let legacy = (field policy ''schema'' = PStr legacy_schema) in
        bindE (check_fields policy (if legacy then AUTH_FIELDS else AUTH_FIELDS2) ''archive trust policy'') (\<lambda>_.
        bindE (digest (field policy ''keyring_sha256'')) (\<lambda>_.
        bindE (check_fingerprints (field policy ''primary_fingerprints'')) (\<lambda>fs.
        bindE (integer (field policy ''minimum_signatures'') 1 (int (length fs)) ''signature threshold'') (\<lambda>_.
        bindE (if legacy then integer (field policy ''now'') 1 (2 ^ 53 - 1) ''trusted time'' else Inr 0) (\<lambda>_.
        bindE (integer (field policy ''max_age_seconds'') 1 ((if legacy then 30 else 366) * 86400) ''maximum intake age'') (\<lambda>age.
        bindE (integer (field policy ''future_skew_seconds'') 0 300 ''future clock tolerance'') (\<lambda>_.
        if legacy then Inr () else check_pinned_release (field policy ''release'') age))))))))"

text \<open>What \<open>_context\<close> returns: the release profile, pinned or the legacy one, and the clock.\<close>

record pin =
  pin_suite :: pystr
  pin_inrelease :: pystr
  pin_floor :: int
  pin_expires :: int

record profile =
  codename :: pystr
  arch :: pystr
  components :: "pystr list"
  pin :: "pin option"

definition str_at :: "pyval \<Rightarrow> string \<Rightarrow> pystr" where
  "str_at v k = (case field v k of PStr s \<Rightarrow> s | _ \<Rightarrow> [])"

definition pinned_profile :: "pyval \<Rightarrow> profile" where
  "pinned_profile r = \<lparr>codename = str_at r ''codename'', arch = str_at r ''architecture'',
     components = (case str_items (\<lambda>_. True) (field r ''components'') of Some cs \<Rightarrow> cs | None \<Rightarrow> []),
     pin = Some \<lparr>pin_suite = str_at r ''suite'', pin_inrelease = str_at r ''inrelease_sha256'',
       pin_floor = int_of (field r ''minimum_date''), pin_expires = int_of (field r ''expires'')\<rparr>\<rparr>"

definition context_of :: "pyval \<Rightarrow> pyval \<Rightarrow> (profile \<times> int) res" where
  "context_of policy now =
     bindE (auth_policy policy) (\<lambda>_.
       if field policy ''schema'' = PStr legacy_schema then
         (if now \<noteq> PNone then invalid ''legacy time must come from legacy policy''
          else Inr (\<lparr>codename = u ''forky'', arch = u ''amd64'', components = COMPONENTS, pin = None\<rparr>,
                    int_of (field policy ''now'')))
       else bindE (integer now 1 (2 ^ 53 - 1) ''independently observed time'') (\<lambda>clock.
         if clock \<ge> int_of (field (field policy ''release'') ''expires'') then invalid ''pinned intake policy expired''
         else Inr (pinned_profile (field policy ''release''), clock)))"

section \<open>The signed Release\<close>

text \<open>One run of \<open>gpgv\<close>: its exit code, the status file and the extracted text as they are read back.\<close>

record gpgv_run =
  gv_code :: int
  gv_status :: "pybytes res"
  gv_release :: "pybytes res"

type_synonym gpgv = "pybytes \<Rightarrow> pybytes \<Rightarrow> gpgv_run option"

definition FATAL :: "pystr list" where
  "FATAL = map u [''BADSIG'', ''ERRSIG'', ''EXPSIG'', ''EXPKEYSIG'', ''REVKEYSIG'', ''NO_PUBKEY'', ''NODATA'', ''FAILURE'']"

definition status_prefix :: pystr where
  "status_prefix = u ''[GNUPG:] ''"

definition primary_of :: "pystr list \<Rightarrow> pystr" where
  "primary_of ws = (if length ws = 11 then ws ! 10 else ws ! 1)"

definition check_validsig :: "pystr list \<Rightarrow> int \<Rightarrow> int \<Rightarrow> pystr list \<Rightarrow> pystr res" where
  "check_validsig fingerprints skew clock ws =
     (if length ws \<noteq> 10 \<and> length ws \<noteq> 11 then invalid ''unknown VALIDSIG schema''
      else if primary_of ws \<notin> set fingerprints then invalid ''untrusted archive signer''
      else if ws ! 8 \<notin> set [u ''8'', u ''9'', u ''10''] \<or> ws ! 9 \<noteq> u ''01'' then invalid ''weak digest or non-text signature''
      else bindE (exceptE (\<lambda>e. e = ValueError) (Invalid (u ''signature timestamps''))
          (bindE (py_int (ws ! 3)) (\<lambda>stamp. bindE (py_int (ws ! 4)) (\<lambda>expiry. Inr (stamp, expiry)))))
        (\<lambda>(stamp, expiry).
          if stamp > clock + skew \<or> (expiry \<noteq> 0 \<and> expiry \<le> clock) then invalid ''signature time invalid''
          else Inr (primary_of ws)))"

definition status_line :: "pystr list \<Rightarrow> int \<Rightarrow> int \<Rightarrow> pystr list \<Rightarrow> pystr \<Rightarrow> pystr list res" where
  "status_line fingerprints skew clock good line =
     (if \<not> startswith line status_prefix then invalid ''unexpected gpgv status output''
      else let ws = words (drop 9 line) in
        if ws = [] then invalid ''empty gpgv status''
        else if hd ws \<in> set FATAL then invalid ''archive signature error status''
        else if hd ws = u ''VALIDSIG'' then bindE (check_validsig fingerprints skew clock ws) (\<lambda>p. Inr (p # good))
        else Inr good)"

definition clear_signed :: pybytes where
  "clear_signed = bs ''-----BEGIN PGP SIGNED MESSAGE-----'' @ [10]"

definition fingerprints_of :: "pyval \<Rightarrow> pystr list" where
  "fingerprints_of policy = (case str_items (\<lambda>_. True) (field policy ''primary_fingerprints'') of Some fs \<Rightarrow> fs | None \<Rightarrow> [])"

definition pin_mismatch :: "profile \<Rightarrow> pybytes \<Rightarrow> bool" where
  "pin_mismatch p inrelease = (case pin p of Some q \<Rightarrow> sha inrelease \<noteq> pin_inrelease q | None \<Rightarrow> False)"

definition authenticated_release :: "gpgv \<Rightarrow> pybytes \<Rightarrow> pybytes \<Rightarrow> pyval \<Rightarrow> pyval \<Rightarrow> (pybytes \<times> pystr list) res" where
  "authenticated_release gpgv inrelease keyring policy now =
     bindE (context_of policy now) (\<lambda>(p, clock).
       if length inrelease > MAX_RELEASE \<or> PStr (sha keyring) \<noteq> field policy ''keyring_sha256''
       then invalid ''keyring or signed release length mismatch''
       else if pin_mismatch p inrelease then invalid ''InRelease differs from independent pin''
       else if \<not> startswith inrelease clear_signed then invalid ''only InRelease clear signatures accepted''
       else case gpgv keyring inrelease of
         None \<Rightarrow> invalid ''gpgv unavailable or timeout''
       | Some run \<Rightarrow>
         bindE (gv_status run) (\<lambda>status.
         case ascii_decode status of None \<Rightarrow> Inl UnicodeDecodeError
         | Some text \<Rightarrow>
           if gv_code run \<noteq> 0 then invalid ''archive signature validation failed''
           else bindE (foldE (status_line (fingerprints_of policy) (int_of (field policy ''future_skew_seconds'')) clock) []
               (splitlines text)) (\<lambda>good.
             if int (length (remdups good)) < int_of (field policy ''minimum_signatures'')
             then invalid ''insufficient independent archive signatures''
             else bindE (gv_release run) (\<lambda>release. Inr (release, sorted_set good)))))"

section \<open>Freshness\<close>

text \<open>
  \<open>email.utils.parsedate_to_datetime\<close> and \<open>int(parsed.timestamp())\<close>: whether the date has a time
  zone, and the time; \<open>None\<close> for any of the exceptions the code catches.
\<close>

type_synonym date_parser = "pystr \<Rightarrow> (bool \<times> int) option"

definition release_date :: "date_parser \<Rightarrow> pystr \<Rightarrow> int res" where
  "release_date dates value = (case dates value of
       Some (zoned, t) \<Rightarrow> if zoned then Inr t else invalid ''invalid Release date''
     | None \<Rightarrow> invalid ''invalid Release date'')"

type_synonym table = "(pystr \<times> (pystr \<times> int)) list"

definition hash_row :: "table \<Rightarrow> pystr \<Rightarrow> table res" where
  "hash_row table row =
     (if strip is_space row = [] then Inr table
      else case words row of
        [d, n, path] \<Rightarrow>
          if \<not> isdigit n then invalid ''invalid SHA256 metadata row''
          else bindE (digest_str d) (\<lambda>_. bindE (relative path) (\<lambda>_. bindE (py_int n) (\<lambda>size.
            if path \<in> fst ` set table \<or> size > MAX_INT64 then invalid ''duplicate/oversized index size''
            else Inr (table @ [(path, (d, size))]))))
      | _ \<Rightarrow> invalid ''invalid SHA256 metadata row'')"

definition hash_table :: "pystr \<Rightarrow> table res" where
  "hash_table text = bindE (foldE hash_row [] (splitlines text)) (\<lambda>table.
     if table = [] then invalid ''empty SHA256 inventory'' else Inr table)"

section \<open>Reading the Release of a snapshot\<close>

type_synonym reader = "pystr \<Rightarrow> nat \<Rightarrow> pybytes res"

text \<open>Everything outside this code that verification uses.\<close>

record outside =
  read_at :: reader
  hash_file_at :: "pystr \<Rightarrow> int \<Rightarrow> (pystr \<times> int) res"
  run_gpgv :: gpgv
  parse_date :: date_parser
  codecs :: codecs
  tar_reader :: tar_reader

record release_state =
  r_profile :: profile
  r_clock :: int
  r_inrelease :: pybytes
  r_release :: pybytes
  r_signers :: "pystr list"
  r_record :: stanza
  r_until :: int

definition release_label :: "profile \<Rightarrow> pystr" where
  "release_label p = (if codename p = u ''trixie-security'' then u ''Debian-Security'' else u ''Debian'')"

definition check_identity :: "profile \<Rightarrow> stanza \<Rightarrow> unit res" where
  "check_identity p rec =
     bindE (eachE (\<lambda>(key, expected). if map_of rec (u key) \<noteq> Some expected
              then Inl (Invalid (u ''different upstream identity: '' @ u key)) else Inr ())
         [(''origin'', u ''Debian''), (''label'', release_label p), (''codename'', codename p)]) (\<lambda>_.
     if map_of rec (u ''suite'') \<notin> Some ` set (case pin p of Some q \<Rightarrow> [pin_suite q] | None \<Rightarrow> [u ''testing'', u ''stable''])
     then invalid ''unqualified suite alias''
     else if count_list (words (info_get rec (u ''architectures'') '''')) (arch p) \<noteq> 1 then invalid ''architecture absent''
     else if \<not> info_has rec ''date'' \<or> \<not> info_has rec ''sha256'' then invalid ''Release freshness/SHA256 missing''
     else Inr ())"

definition check_freshness :: "date_parser \<Rightarrow> profile \<Rightarrow> pyval \<Rightarrow> int \<Rightarrow> stanza \<Rightarrow> int res" where
  "check_freshness dates p policy clock rec =
     bindE (release_date dates (info_get rec (u ''date'') '''')) (\<lambda>date.
     bindE (case map_of rec (u ''valid-until'') of
         Some v \<Rightarrow> bindE (release_date dates v) (\<lambda>upstream.
           if upstream \<le> date then invalid ''invalid Release validity interval''
           else Inr (min (date + int_of (field policy ''max_age_seconds'')) upstream))
       | None \<Rightarrow> if codename p \<noteq> u ''trixie'' then invalid ''Release Valid-Until missing''
                 else Inr (date + int_of (field policy ''max_age_seconds''))) (\<lambda>limit.
     bindE (case pin p of
         Some q \<Rightarrow> if date < pin_floor q then invalid ''Release below independent date floor''
                   else Inr (min limit (pin_expires q))
       | None \<Rightarrow> Inr limit) (\<lambda>limit'.
     if clock \<ge> limit' \<or> date > clock + int_of (field policy ''future_skew_seconds'')
     then invalid ''expired/future/stale Release'' else Inr limit')))"

definition index_name :: "pystr \<Rightarrow> pystr \<Rightarrow> pystr" where
  "index_name name path = u ''dists/'' @ name @ u ''/'' @ path"

definition read_release :: "outside \<Rightarrow> pybytes \<Rightarrow> pyval \<Rightarrow> pyval \<Rightarrow> release_state res" where
  "read_release w keyring policy now =
     bindE (context_of policy now) (\<lambda>(p, clock).
     bindE (read_at w (index_name (codename p) (u ''InRelease'')) MAX_RELEASE) (\<lambda>inrelease.
     bindE (authenticated_release (run_gpgv w) inrelease keyring policy now) (\<lambda>(text, signers).
     bindE (deb822 MAX_RELEASE 1 text) (\<lambda>paragraphs.
     if length paragraphs \<noteq> 1 then invalid ''Release stanza count''
     else bindE (check_identity p (paragraphs ! 0)) (\<lambda>_.
     bindE (check_freshness (parse_date w) p policy clock (paragraphs ! 0)) (\<lambda>limit.
     Inr \<lparr>r_profile = p, r_clock = clock, r_inrelease = inrelease, r_release = text, r_signers = signers,
       r_record = paragraphs ! 0, r_until = limit\<rparr>))))))"


section \<open>One package of the snapshot\<close>

text \<open>The paths of the two kinds of index: component, then architecture or nothing, then compression.\<close>

definition index_tail :: "string \<Rightarrow> pystr \<Rightarrow> pystr option option" where
  "index_tail name s = (if s = u name then Some None
     else map_option (\<lambda>e. Some (u e)) (find (\<lambda>e. s = u (name @ ''.'' @ e)) [''gz'', ''xz'', ''zst'']))"

definition component_of :: "pystr \<Rightarrow> (pystr \<times> pystr) option" where
  "component_of path = (case split_first 47 path of
       Some (c, r) \<Rightarrow> if c \<in> set COMPONENTS then Some (c, r) else None | None \<Rightarrow> None)"

definition match_binary_index :: "pystr \<Rightarrow> (pystr \<times> pystr \<times> pystr option) option" where
  "match_binary_index path = (case component_of path of None \<Rightarrow> None
     | Some (c, r) \<Rightarrow> if \<not> startswith r (u ''binary-'') then None
         else (case split_first 47 (drop 7 r) of None \<Rightarrow> None
           | Some (a, f) \<Rightarrow> if architecture_ok a then map_option (\<lambda>e. (c, a, e)) (index_tail ''Packages'' f) else None))"

definition match_source_index :: "pystr \<Rightarrow> (pystr \<times> pystr option) option" where
  "match_source_index path = (case component_of path of None \<Rightarrow> None
     | Some (c, r) \<Rightarrow> if \<not> startswith r (u ''source/'') then None
         else map_option (Pair c) (index_tail ''Sources'' (drop 7 r)))"

text \<open>An index listed in the table of the Release, read and compared with its row.\<close>

definition read_index :: "outside \<Rightarrow> table \<Rightarrow> pystr \<Rightarrow> pystr \<Rightarrow> pystr option \<Rightarrow> string \<Rightarrow> string \<Rightarrow> string
    \<Rightarrow> (pybytes \<times> pybytes) res" where
  "read_index w table name path ext absent large different = (case map_of table path of
       None \<Rightarrow> invalid absent
     | Some row \<Rightarrow>
         if snd row > int MAX_INDEX then invalid large
         else bindE (read_at w (index_name name path) MAX_INDEX) (\<lambda>packed.
           if (sha packed, int (length packed)) \<noteq> row then invalid different
           else bindE (case ext of Some e \<Rightarrow> decompress (codecs w) (u ''data.tar.'' @ e) packed MAX_INDEX | None \<Rightarrow> Inr packed)
             (\<lambda>raw. Inr (packed, raw))))"

definition identity_of :: "stanza \<Rightarrow> pystr list" where
  "identity_of row = map (\<lambda>k. info_get row (u k) '''') [''package'', ''version'', ''architecture'']"

definition match_row :: "pystr \<Rightarrow> stanza list \<times> pystr list list \<Rightarrow> stanza \<Rightarrow> (stanza list \<times> pystr list list) res" where
  "match_row deb_path st row = (case st of (matches, seen) \<Rightarrow>
     if identity_of row \<in> set seen then invalid ''duplicate Packages identity''
     else Inr (if map_of row (u ''filename'') = Some deb_path then matches @ [row] else matches, identity_of row # seen))"

definition select_package :: "pystr \<Rightarrow> pystr \<Rightarrow> stanza list \<Rightarrow> stanza res" where
  "select_package architecture deb_path packages =
     bindE (foldE (match_row deb_path) ([], []) packages) (\<lambda>(matches, _).
     if length matches \<noteq> 1 then invalid ''artifact absent or ambiguous in Packages''
     else let package = matches ! 0 in
       if \<not> list_all (info_has package) [''package'', ''version'', ''architecture'', ''filename'', ''size'', ''sha256'']
       then invalid ''incomplete package index''
       else if info_get package (u ''architecture'') '''' \<notin> {architecture, u ''all''}
       then invalid ''indexed package architecture mismatch''
       else bindE (digest_str (info_get package (u ''sha256'') '''')) (\<lambda>_. Inr package))"

definition indexed_size :: "stanza \<Rightarrow> int res" where
  "indexed_size package = (let n = info_get package (u ''size'') '''' in
     if \<not> isdigit n then invalid ''invalid indexed DEB size''
     else bindE (py_int n) (\<lambda>size. if size > int MAX_DEB then invalid ''invalid indexed DEB size'' else Inr size))"

definition COMPARED :: "pystr list" where
  "COMPARED = map u [''source'', ''depends'', ''pre-depends'', ''conflicts'', ''breaks'', ''replaces'', ''provides'', ''multi-arch'',
     ''essential'', ''protected'']"

definition get_str :: "pyval \<Rightarrow> pystr \<Rightarrow> pystr" where
  "get_str v k = (case v of PDict d \<Rightarrow> (case map_of d k of Some (PStr s) \<Rightarrow> s | _ \<Rightarrow> []) | _ \<Rightarrow> [])"

definition set_item :: "pyval \<Rightarrow> string \<Rightarrow> pyval \<Rightarrow> pyval" where
  "set_item v k x = (case v of PDict d \<Rightarrow> PDict (dict_set (u k) x d) | _ \<Rightarrow> v)"

definition check_observed :: "stanza \<Rightarrow> pyval \<Rightarrow> unit res" where
  "check_observed package observed =
     (if map (\<lambda>k. get_str (field observed ''identity'') (u k)) [''package'', ''version'', ''architecture''] \<noteq> identity_of package
      then invalid ''index/header identity mismatch''
      else eachE (\<lambda>key. if unfold_value (info_get package key '''') \<noteq> unfold_value (get_str (field observed ''fields'') key)
             then Inl (Invalid (u ''index/control semantic mismatch: '' @ key)) else Inr ()) COMPARED)"

record snapshot =
  sn_release :: release_state
  sn_packed :: pybytes
  sn_component :: pystr
  sn_observation :: pyval

definition declared_component :: "profile \<Rightarrow> pystr \<Rightarrow> pystr" where
  "declared_component p c = (if codename p = u ''trixie-security'' then u ''updates/'' @ c else c)"

definition snapshot_of :: "outside \<Rightarrow> pybytes \<Rightarrow> pyval \<Rightarrow> pystr \<Rightarrow> pystr \<Rightarrow> pyval \<Rightarrow> snapshot res" where
  "snapshot_of w keyring policy index_path deb_path now =
     bindE (relative index_path) (\<lambda>_. bindE (relative deb_path) (\<lambda>_.
     case match_binary_index index_path of None \<Rightarrow> invalid ''unsupported snapshot paths''
     | Some (component, architecture, ext) \<Rightarrow>
       if \<not> startswith deb_path (u ''pool/'') \<or> \<not> endswith deb_path (u ''.deb'') then invalid ''unsupported snapshot paths''
       else bindE (read_release w keyring policy now) (\<lambda>r.
         let p = r_profile r in
         if architecture \<noteq> arch p \<or> component \<notin> set (components p)
            \<or> count_list (words (info_get (r_record r) (u ''components'') '''')) (declared_component p component) \<noteq> 1
         then invalid ''index outside architecture/component policy''
         else bindE (hash_table (info_get (r_record r) (u ''sha256'') '''')) (\<lambda>table.
         bindE (read_index w table (codename p) index_path ext ''index not authenticated by Release''
             ''selected Packages byte limit'' ''Packages checksum/length mismatch'') (\<lambda>(packed, raw).
         bindE (deb822 MAX_INDEX MAX_STANZAS raw) (\<lambda>packages.
         bindE (select_package (arch p) deb_path packages) (\<lambda>package.
         bindE (indexed_size package) (\<lambda>size.
         bindE (read_at w deb_path MAX_DEB) (\<lambda>content.
         if int (length content) \<noteq> size \<or> sha content \<noteq> info_get package (u ''sha256'') ''''
         then invalid ''DEB not equal to authenticated archive bytes''
         else bindE (inspect_bytes (codecs w) (tar_reader w) (arch p) content) (\<lambda>observed.
         bindE (check_observed package observed) (\<lambda>_.
         Inr \<lparr>sn_release = r, sn_packed = packed, sn_component = component,
           sn_observation = set_item observed ''archive_authenticated'' (PBool True)\<rparr>)))))))))))"

definition snapshot_val :: "snapshot \<Rightarrow> pyval" where
  "snapshot_val s = (let r = sn_release s in PDict
     [(u ''schema'', PStr (u ''org.niaos.intake-authentication/v1'')), (u ''execution_permit'', PBool False),
      (u ''release_sha256'', PStr (sha (r_release r))), (u ''inrelease_sha256'', PStr (sha (r_inrelease r))),
      (u ''index_sha256'', PStr (sha (sn_packed s))), (u ''primary_signers'', str_list (r_signers r)),
      (u ''accepted_at'', PInt (r_clock r)), (u ''valid_until'', PInt (r_until r)), (u ''component'', PStr (sn_component s)),
      (u ''source_family'', PStr (u ''debian'')), (u ''codename'', PStr (codename (r_profile r))),
      (u ''observation'', sn_observation s), (u ''dependency_universe_complete'', PBool False), (u ''reproduced'', PBool False),
      (u ''native_scripts_executed'', PBool False)])"

definition verify_snapshot :: "outside \<Rightarrow> pybytes \<Rightarrow> pyval \<Rightarrow> pystr \<Rightarrow> pystr \<Rightarrow> pyval \<Rightarrow> pyval res" where
  "verify_snapshot w keyring policy index_path deb_path now =
     bindE (snapshot_of w keyring policy index_path deb_path now) (\<lambda>s. Inr (snapshot_val s))"

section \<open>The source of a package\<close>

text \<open>A source field: a name and optionally a version in parentheses.\<close>

definition match_source :: "pystr \<Rightarrow> (pystr \<times> pystr option) option" where
  "match_source s = (let name = takeWhile name_char s; rest = dropWhile name_char s; r = dropWhile is_space rest in
     if \<not> name_ok name then None
     else if rest = [] then Some (name, None)
     else if r \<noteq> rest \<and> length r \<ge> 3 \<and> hd r = 40 \<and> last r = 41
        \<and> list_all (\<lambda>c. c \<noteq> 40 \<and> c \<noteq> 41 \<and> \<not> is_space c) (butlast (tl r))
     then Some (name, Some (butlast (tl r))) else None)"

definition selected_source :: "stanza list \<Rightarrow> pystr \<Rightarrow> pystr \<Rightarrow> stanza res" where
  "selected_source rows name version =
     (let hits = filter (\<lambda>r. map_of r (u ''package'') = Some name \<and> map_of r (u ''version'') = Some version) rows in
      if length hits \<noteq> 1 then invalid ''source version absent or ambiguous'' else Inr (hits ! 0))"

type_synonym source_state = "(pystr \<times> int \<times> pystr) list \<times> pystr list \<times> pystr list \<times> int"

definition source_row :: "outside \<Rightarrow> pystr \<Rightarrow> source_state \<Rightarrow> pystr \<Rightarrow> source_state res" where
  "source_row w directory st line = (case st of (files, names, dscs, budget) \<Rightarrow>
     if strip is_space line = [] then Inr st
     else case words line of
       [h, sz, name] \<Rightarrow>
         if \<not> isdigit sz then invalid ''source checksum syntax''
         else bindE (digest_str h) (\<lambda>_. bindE (relative name) (\<lambda>_.
           if 47 \<in> set name \<or> name \<in> set names \<or> length names \<ge> 256 then invalid ''source member path/count''
           else bindE (py_int sz) (\<lambda>n.
             if n > 8 * 1024 ^ 3 \<or> budget + n > 32 * 1024 ^ 3 then invalid ''source byte budget''
             else bindE (hash_file_at w (directory @ [47] @ name) n) (\<lambda>found.
               if found \<noteq> (h, n) then invalid ''source member checksum/length mismatch''
               else Inr (files @ [(directory @ [47] @ name, n, h)], name # names,
                   if endswith name (u ''.dsc'') then dscs @ [h] else dscs, budget + n)))))
     | _ \<Rightarrow> invalid ''source checksum syntax'')"

definition source_files :: "outside \<Rightarrow> pystr \<Rightarrow> pystr \<Rightarrow> ((pystr \<times> int \<times> pystr) list \<times> pystr) res" where
  "source_files w directory checksums =
     bindE (foldE (source_row w directory) ([], [], [], 0) (splitlines checksums)) (\<lambda>(files, _, dscs, _).
     if length dscs \<noteq> 1 \<or> files = [] then invalid ''exactly one source control object required''
     else Inr (sorted_items files, dscs ! 0))"

definition source_manifest :: "pystr \<Rightarrow> pybytes \<Rightarrow> pybytes \<Rightarrow> pystr \<Rightarrow> pystr \<Rightarrow> pystr \<Rightarrow> (pystr \<times> int \<times> pystr) list \<Rightarrow> pyval" where
  "source_manifest name inrelease packed source version dsc files = PDict
     [(u ''schema'', PStr (u ''org.niaos.source-manifest/v1'')), (u ''distribution'', PStr (u ''debian'')),
      (u ''codename'', PStr name), (u ''inrelease_sha256'', PStr (sha inrelease)),
      (u ''sources_index_sha256'', PStr (sha packed)), (u ''name'', PStr source), (u ''version'', PStr version),
      (u ''dsc_sha256'', PStr dsc),
      (u ''files'', PList (map (\<lambda>(p, n, h). PDict [(u ''path'', PStr p), (u ''size'', PInt n), (u ''sha256'', PStr h)]) files))]"

definition verify_source :: "outside \<Rightarrow> pybytes \<Rightarrow> pyval \<Rightarrow> pystr \<Rightarrow> pystr \<Rightarrow> pystr \<Rightarrow> pyval \<Rightarrow> pyval res" where
  "verify_source w keyring policy binary_index deb_path source_index now =
     bindE (relative source_index) (\<lambda>_.
     case match_source_index source_index of None \<Rightarrow> invalid ''unsupported Sources path''
     | Some (component, ext) \<Rightarrow>
       bindE (snapshot_of w keyring policy binary_index deb_path now) (\<lambda>binary.
       if component \<noteq> sn_component binary then invalid ''cross-component source association''
       else let name = codename (r_profile (sn_release binary)) in
       bindE (read_at w (index_name name (u ''InRelease'')) MAX_RELEASE) (\<lambda>inrelease.
       if sha inrelease \<noteq> sha (r_inrelease (sn_release binary)) then invalid ''Release changed between binary/source observation''
       else bindE (authenticated_release (run_gpgv w) inrelease keyring policy now) (\<lambda>(text, _).
       bindE (deb822 MAX_RELEASE 1 text) (\<lambda>paragraphs.
       bindE (case paragraphs of [] \<Rightarrow> Inl IndexError | rec # _ \<Rightarrow>
           (case map_of rec (u ''sha256'') of None \<Rightarrow> Inl KeyError | Some t \<Rightarrow> hash_table t)) (\<lambda>table.
       bindE (read_index w table name source_index ext ''Sources index not authenticated'' ''selected Sources byte limit''
           ''Sources checksum/size mismatch'') (\<lambda>(packed, raw).
       let identity = field (sn_observation binary) ''identity''; control = field (sn_observation binary) ''fields'';
           source = (case field control ''source'' of PStr s \<Rightarrow> s | _ \<Rightarrow> str_at identity ''package'') in
       case match_source source of None \<Rightarrow> invalid ''Source identity syntax''
       | Some (source_name, v) \<Rightarrow>
         let version = (case v of Some x \<Rightarrow> x | None \<Rightarrow> str_at identity ''version'') in
         bindE (split_version version) (\<lambda>_.
         bindE (deb822 MAX_INDEX MAX_STANZAS raw) (\<lambda>rows.
         bindE (selected_source rows source_name version) (\<lambda>s.
         bindE (relative (info_get s (u ''directory'') '''')) (\<lambda>directory.
         if \<not> startswith directory (u ''pool/'') \<or> info_get s (u ''checksums-sha256'') '''' = []
         then invalid ''source directory/checksums''
         else if str_at identity ''package'' \<notin> set (map (strip is_space) (split_on 44 (info_get s (u ''binary'') '''')))
         then invalid ''binary not declared by source index''
         else bindE (source_files w directory (info_get s (u ''checksums-sha256'') '''')) (\<lambda>(files, dsc).
         let manifest = source_manifest name (r_inrelease (sn_release binary)) packed source_name version dsc files in
         Inr (PDict
           [(u ''source_manifest'', manifest), (u ''source_manifest_sha256'', PStr (sha (canonical manifest))),
            (u ''binary_sha256'', field (sn_observation binary) ''artifact_sha256''), (u ''execution_permit'', PBool False),
            (u ''source_authenticated'', PBool True), (u ''source_rebuilt'', PBool False), (u ''reproduced'', PBool False),
            (u ''redistribution_rights_reviewed'', PBool False), (u ''source_signature_separately_checked'', PBool False)])
         ))))))))))))"

section \<open>What an accepted Release, package and source guarantee\<close>











lemma case_three:
  "(case ws of [a, b, c] \<Rightarrow> f a b c | _ \<Rightarrow> g) = (if length ws = 3 then f (ws ! 0) (ws ! 1) (ws ! 2) else g)"
  by (auto simp: numeral_3_eq_3 length_Suc_conv split: list.split)

lemma hash_row_ok:
  assumes "hash_row table row = Inr t"
  shows "t = table \<or> (\<exists>path d n. t = table @ [(path, (d, n))] \<and> path \<notin> fst ` set table \<and> relative_ok path \<and> digest_ok d \<and> n \<le> MAX_INT64)"
  using assms unfolding hash_row_def case_three
  by (auto simp: ok_simps not_less split: if_splits)

definition table_ok :: "table \<Rightarrow> bool" where
  "table_ok t \<longleftrightarrow> distinct (map fst t) \<and> (\<forall>(path, d, n) \<in> set t. relative_ok path \<and> digest_ok d \<and> n \<le> MAX_INT64)"

lemma hash_table_ok:
  assumes "hash_table rows = Inr t"
  shows "table_ok t \<and> t \<noteq> []"
proof -
  from assms have f: "foldE hash_row [] (splitlines rows) = Inr t" "t \<noteq> []" by (auto simp: hash_table_def ok_simps)
  have "table_ok t"
    by (rule foldE_invariant [OF f(1)]) (auto simp: table_ok_def dest!: hash_row_ok)
  with f(2) show ?thesis by simp
qed

lemma read_index_ok:
  assumes "read_index w table name path ext a l d = Inr (packed, raw)"
  shows "map_of table path = Some (sha packed, int (length packed)) \<and> length packed \<le> MAX_INDEX"
  using assms by (auto simp: read_index_def bindE_eq_Inr split: option.splits if_splits)






text \<open>The rows of a source checksum list, as the loop reads them.\<close>

definition source_inv :: "outside \<Rightarrow> pystr \<Rightarrow> source_state \<Rightarrow> bool" where
  "source_inv w directory st = (case st of (files, names, dscs, budget) \<Rightarrow>
     map fst files = map (\<lambda>n. directory @ [47] @ n) (rev names) \<and> distinct names \<and> length names \<le> 256
     \<and> (\<forall>n \<in> set names. relative_ok n \<and> 47 \<notin> set n)
     \<and> (\<forall>(path, n, h) \<in> set files. 0 \<le> n \<and> n \<le> 8 * 1024 ^ 3 \<and> digest_ok h \<and> hash_file_at w path n = Inr (h, n))
     \<and> budget = (\<Sum>f \<leftarrow> files. fst (snd f)) \<and> budget \<le> 32 * 1024 ^ 3
     \<and> dscs = map (\<lambda>f. snd (snd f)) (filter (\<lambda>f. endswith (fst f) (u ''.dsc'')) files))"

lemma endswith_dsc: "endswith (d @ 47 # s) (u ''.dsc'') = endswith s (u ''.dsc'')"
proof -
  have e: "rev (u ''.dsc'') = [99, 115, 100, 46]" by code_simp
  show ?thesis
    unfolding endswith_def e rev_append rev.simps
    by (cases "rev s"; cases "tl (rev s)"; cases "tl (tl (rev s))"; cases "tl (tl (tl (rev s)))") (auto simp: startswith_def)
qed

lemma set_strip: "set (strip p s) \<subseteq> set s"
  by (fastforce simp: strip_def lstrip_def rstrip_def dest!: set_dropWhileD)

lemma py_int_nonneg:
  assumes "isdigit s" "py_int s = Inr n"
  shows "0 \<le> n"
proof -
  have "45 \<notin> set s"
    using assms(1) is_digit_char_ascii [of 45] by (auto simp: isdigit_def list_all_iff ascii_digit_def)
  then have "\<not> startswith (strip is_space s) [45]"
    using set_strip [of is_space s] by (auto simp: startswith_iff)
  with assms(2) show ?thesis by (auto simp: py_int_def Let_def split: option.splits if_splits)
qed

lemma source_row_ok:
  assumes "source_inv w directory st" "source_row w directory st line = Inr st'"
  shows "source_inv w directory st'"
proof -
  obtain files names dscs budget where st: "st = (files, names, dscs, budget)" by (cases st) auto
  show ?thesis
  proof (cases "strip is_space line = []")
    case True
    then show ?thesis using assms by (simp add: source_row_def st)
  next
    case False
    from assms(2) False obtain h name n where
        1: "digest_ok h" "relative_ok name" "47 \<notin> set name" "name \<notin> set names" "length names < 256"
        "0 \<le> n" "n \<le> 8 * 1024 ^ 3" "budget + n \<le> 32 * 1024 ^ 3"
        "hash_file_at w (directory @ [47] @ name) n = Inr (h, n)"
        "st' = (files @ [(directory @ [47] @ name, n, h)], name # names,
                   if endswith name (u ''.dsc'') then dscs @ [h] else dscs, budget + n)"
      unfolding source_row_def st prod.case case_three
      by (auto simp: ok_simps not_less not_le dest: py_int_nonneg split: if_splits)
    show ?thesis
      using assms(1) 1 unfolding st 1(10) source_inv_def by (auto simp: endswith_dsc)
  qed
qed

lemma source_files_ok:
  assumes "source_files w directory checksums = Inr (files, dsc)"
  shows "sorted (map fst files) \<and> distinct (map fst files) \<and> length files \<le> 256 \<and> (\<Sum>f \<leftarrow> files. fst (snd f)) \<le> 32 * 1024 ^ 3
    \<and> (\<forall>(path, n, h) \<in> set files. 0 \<le> n \<and> n \<le> 8 * 1024 ^ 3 \<and> digest_ok h \<and> hash_file_at w path n = Inr (h, n)
         \<and> (\<exists>name. path = directory @ [47] @ name \<and> relative_ok name \<and> 47 \<notin> set name))
    \<and> (\<exists>path n. filter (\<lambda>f. endswith (fst f) (u ''.dsc'')) files = [(path, n, dsc)])"
proof -
  from assms obtain fs names dscs budget where f: "foldE (source_row w directory) ([], [], [], 0) (splitlines checksums) = Inr (fs, names, dscs, budget)"
    and r: "length dscs = 1" "fs \<noteq> []" "files = sorted_items fs" "dsc = dscs ! 0"
    unfolding source_files_def bindE_eq_Inr split_paired_Ex prod.case if_invalid_eq_Inr de_Morgan_disj not_not by auto
  have inv: "source_inv w directory (fs, names, dscs, budget)"
    by (rule foldE_invariant [OF f]) (simp add: source_inv_def, rule source_row_ok)
  have set_files: "set files = set fs" by (simp add: r(3))
  have "distinct (map fst fs)"
    using inv by (auto simp: source_inv_def distinct_map intro: inj_onI)
  then have dist: "distinct (map fst files)" by (simp add: r(3))
  have len: "length files = length names"
  proof -
    have "map fst fs = map (\<lambda>n. directory @ [47] @ n) (rev names)" using inv by (simp add: source_inv_def)
    then have "length fs = length names" by (metis length_map length_rev)
    then show ?thesis by (simp add: r(3))
  qed
  have sum: "(\<Sum>f \<leftarrow> files. fst (snd f)) = budget"
    using inv by (simp add: source_inv_def r(3) sorted_items_def sum_list_sort_key)
  have names: "\<exists>name. path = directory @ [47] @ name \<and> relative_ok name \<and> 47 \<notin> set name"
    if "(path, n, h) \<in> set files" for path n h
  proof -
    from that have "path \<in> set (map fst fs)" by (force simp: set_files)
    moreover have "map fst fs = map (\<lambda>n. directory @ [47] @ n) (rev names)" "\<forall>n \<in> set names. relative_ok n \<and> 47 \<notin> set n"
      using inv by (simp_all add: source_inv_def)
    ultimately have "path \<in> set (map (\<lambda>n. directory @ [47] @ n) (rev names))" by simp
    with \<open>\<forall>n \<in> set names. relative_ok n \<and> 47 \<notin> set n\<close> show ?thesis by auto
  qed
  obtain x where x: "dscs = [x]" using r(1) by (metis One_nat_def length_0_conv length_Suc_conv)
  have "dscs = map (\<lambda>f. snd (snd f)) (filter (\<lambda>f. endswith (fst f) (u ''.dsc'')) fs)"
    using inv unfolding source_inv_def prod.case by blast
  then have "map (\<lambda>f. snd (snd f)) (filter (\<lambda>f. endswith (fst f) (u ''.dsc'')) fs) = [dsc]"
    using x r(4) by (metis nth_Cons_0)
  then obtain path n where one: "filter (\<lambda>f. endswith (fst f) (u ''.dsc'')) fs = [(path, n, dsc)]"
    by (auto simp: map_eq_Cons_conv)
  have "filter (\<lambda>f. endswith (fst f) (u ''.dsc'')) files = sorted_items (filter (\<lambda>f. endswith (fst f) (u ''.dsc'')) fs)"
    by (simp add: r(3) sorted_items_def filter_sort)
  then have "filter (\<lambda>f. endswith (fst f) (u ''.dsc'')) files = [(path, n, dsc)]"
    by (simp add: one sorted_items_def)
  moreover have "sorted (map fst files)" by (simp add: r(3))
  ultimately show ?thesis
    using dist len sum names inv set_files by (auto simp: source_inv_def)
qed

text \<open>The source inventory of a package is bounded and complete: at most 256 files of distinct plain
  names in the declared directory, each at most 8 GiB and 32 GiB together, each present below the
  root with exactly the size and digest the authenticated index lists, and exactly one of them is a
  source control file, whose digest is reported.\<close>

theorem source_files_bounded:
  assumes "source_files w directory checksums = Inr (files, dsc)"
  shows "sorted (map fst files) \<and> distinct (map fst files) \<and> length files \<le> 256 \<and> (\<Sum>f \<leftarrow> files. fst (snd f)) \<le> 32 * 1024 ^ 3
    \<and> (\<forall>(path, n, h) \<in> set files. 0 \<le> n \<and> n \<le> 8 * 1024 ^ 3 \<and> digest_ok h \<and> hash_file_at w path n = Inr (h, n)
         \<and> (\<exists>name. path = directory @ [47] @ name \<and> relative_ok name \<and> 47 \<notin> set name))
    \<and> (\<exists>path n. filter (\<lambda>f. endswith (fst f) (u ''.dsc'')) files = [(path, n, dsc)])"
  using source_files_ok [OF assms] .

definition nothing_outside :: outside where
  "nothing_outside = \<lparr>read_at = \<lambda>path limit. Inl OSError, hash_file_at = \<lambda>path n. Inr (hash_a, n),
     run_gpgv = \<lambda>keyring inrelease. None, parse_date = \<lambda>s. Some (True, int (length s)), codecs = stored_codecs,
     tar_reader = \<lambda>raw. ([], None)\<rparr>"

theorem source_files_bounded_witness:
  "source_files nothing_outside (u ''pool/a'') (hash_a @ u '' 10 a.dsc'' @ [10] @ hash_a @ u '' 20 a.tar'')
     = Inr ([(u ''pool/a/a.dsc'', 10, hash_a), (u ''pool/a/a.tar'', 20, hash_a)], hash_a)
   \<and> sorted (map fst [(u ''pool/a/a.dsc'', 10 :: int, hash_a), (u ''pool/a/a.tar'', 20, hash_a)])"
proof -
  have r: "source_files nothing_outside (u ''pool/a'') (hash_a @ u '' 10 a.dsc'' @ [10] @ hash_a @ u '' 20 a.tar'')
     = Inr ([(u ''pool/a/a.dsc'', 10, hash_a), (u ''pool/a/a.tar'', 20, hash_a)], hash_a)" by code_simp
  from source_files_bounded [OF r] r show ?thesis by simp
qed

















end
