(* ===== verification/Nia_Xfs.thy ===== *)
theory Nia_Xfs
  imports Sha256_Vector
begin

text \<open>
  \<open>tools/nia_xfs.py\<close>: the fixed XFS contract, the assessment of an observation (a decision table
  that never grants anything), the reader of the kernel's mount table, and the local inventory,
  whose system calls are an argument.
\<close>

section \<open>The contract\<close>











section \<open>The assessment\<close>




























section \<open>The mount table\<close>

definition octal :: "nat \<Rightarrow> bool" where
  "octal c \<longleftrightarrow> 48 \<le> c \<and> c \<le> 55"

fun unescape :: "pystr \<Rightarrow> pystr" where
  "unescape [] = []"
| "unescape (c # s) = (case s of
       a # b # d # r \<Rightarrow> if c = 92 \<and> octal a \<and> octal b \<and> octal d
         then (64 * (a - 48) + 8 * (b - 48) + (d - 48)) # unescape r else c # unescape s
     | _ \<Rightarrow> c # unescape s)"

definition mount_unescape :: "pystr \<Rightarrow> pystr res" where
  "mount_unescape s = (let out = unescape s in
     if 0 \<in> set out \<or> list_ex (\<lambda>c. c < 32) out then invalid ''invalid mount field'' else Inr out)"

record mount_row =
  mount_id :: int
  parent_id :: int
  device :: pystr
  mount_root :: pystr
  mount_point :: pystr
  mount_options :: "pystr list"
  filesystem :: pystr
  mount_source :: pystr
  super_options :: "pystr list"

definition all_digits :: "pystr \<Rightarrow> bool" where
  "all_digits s \<longleftrightarrow> s \<noteq> [] \<and> list_all ascii_digit s"

definition device_ok :: "pystr \<Rightarrow> bool" where
  "device_ok s \<longleftrightarrow> (case split_on 58 s of [a, b] \<Rightarrow> all_digits a \<and> all_digits b | _ \<Rightarrow> False)"

fun index_of :: "'a \<Rightarrow> 'a list \<Rightarrow> nat" where
  "index_of x [] = 0"
| "index_of x (y # ys) = (if y = x then 0 else Suc (index_of x ys))"

definition mount_line :: "mount_row list \<Rightarrow> pystr \<Rightarrow> mount_row list res" where
  "mount_line rows line =
     (let parts = split_on 32 line; k = index_of [45] parts in
      if count_list parts [45] \<noteq> 1 then invalid ''mountinfo delimiter''
      else if k < 6 \<or> length parts \<noteq> k + 4 then invalid ''mountinfo field count''
      else if \<not> all_digits (parts ! 0) \<or> \<not> all_digits (parts ! 1) \<or> \<not> device_ok (parts ! 2)
      then invalid ''mountinfo numeric fields''
      else bindE (py_int (parts ! 0)) (\<lambda>mid.
        if mid \<in> mount_id ` set rows \<or> mid = 0 \<or> mid > 2 ^ 64 - 1 then invalid ''mount id ambiguity''
        else bindE (py_int (parts ! 1)) (\<lambda>parent.
          bindE (mount_unescape (parts ! 3)) (\<lambda>root.
          bindE (mount_unescape (parts ! 4)) (\<lambda>point.
          bindE (mount_unescape (parts ! (k + 2))) (\<lambda>source.
          if \<not> startswith root [47] then invalid ''relative mount root''
          else if \<not> startswith point [47] then invalid ''relative mount path''
          else bindE (if point \<noteq> [47] then bindE (relative (drop 1 point)) (\<lambda>_. Inr ()) else Inr ()) (\<lambda>_.
            let rows' = rows @ [\<lparr>mount_id = mid, parent_id = parent, device = parts ! 2, mount_root = root, mount_point = point,
                mount_options = split_on 44 (parts ! 5), filesystem = parts ! (k + 1), mount_source = source,
                super_options = split_on 44 (parts ! (k + 3))\<rparr>] in
            if length rows' > 16384 then invalid ''too many mounts'' else Inr rows')))))))"

definition parse_mountinfo :: "pybytes \<Rightarrow> mount_row list res" where
  "parse_mountinfo data =
     (if length data > 4 * 1024 * 1024 then invalid ''mountinfo too large''
      else case utf8_decode data of
        None \<Rightarrow> Inl UnicodeDecodeError
      | Some s \<Rightarrow> foldE mount_line [] (splitlines s))"

section \<open>The local inventory\<close>

text \<open>\<open>re.findall(r'^mnt_id:\s*([0-9]+)$', info, re.M)\<close>; the flag is "at the start of a line".\<close>

function mnt_ids :: "bool \<Rightarrow> pystr \<Rightarrow> pystr list" where
  "mnt_ids start s =
     (case s of [] \<Rightarrow> []
      | c # r \<Rightarrow>
        let rest = dropWhile is_space (drop 7 s); n = takeWhile ascii_digit rest; after = dropWhile ascii_digit rest in
        if start \<and> startswith s (u ''mnt_id:'') \<and> n \<noteq> [] \<and> (after = [] \<or> hd after = 10)
        then n # mnt_ids False after
        else mnt_ids (c = 10) r)"
  by pat_completeness auto
termination
proof (relation "measure (\<lambda>(start, s). length s)", goal_cases)
  case (2 start s c r x xa xb)
  have "length (dropWhile ascii_digit (dropWhile is_space (drop 7 s))) \<le> length (drop 7 s)"
    by (meson length_dropWhile_le order_trans)
  moreover have "length (drop 7 s) < length s" using 2 by simp
  ultimately show ?case using 2 by simp
qed auto

text \<open>What the system calls of one inspection answer.\<close>

record xfs_probe =
  xp_started :: int
  xp_before :: "pybytes res"
  xp_namespace :: int
  xp_open :: "unit res"
  xp_fdinfo :: "pybytes res"
  xp_device :: "int \<times> int"
  xp_after :: "pybytes res"
  xp_namespace_after :: int
  xp_boot :: "pybytes res"
  xp_release :: pystr
  xp_finished :: int
  xp_blocks :: "int \<times> int"
  xp_inodes :: int
  xp_readonly :: bool

definition decodeE :: "pybytes \<Rightarrow> pystr res" where
  "decodeE b = (case utf8_decode b of None \<Rightarrow> Inl UnicodeDecodeError | Some s \<Rightarrow> Inr s)"

definition check_directory :: "pystr \<Rightarrow> unit res" where
  "check_directory path =
     (if \<not> startswith path [47] then invalid ''absolute directory required''
      else if path \<noteq> [47] then bindE (relative (drop 1 path)) (\<lambda>_. Inr ()) else Inr ())"

definition row_val :: "mount_row \<Rightarrow> pyval" where
  "row_val r = PDict [(u ''mount_id'', PInt (mount_id r)), (u ''parent_id'', PInt (parent_id r)), (u ''device'', PStr (device r)),
     (u ''root'', PStr (mount_root r)), (u ''mount_point'', PStr (mount_point r)),
     (u ''options'', PList (map PStr (mount_options r))), (u ''filesystem'', PStr (filesystem r)),
     (u ''source'', PStr (mount_source r)), (u ''super_options'', PList (map PStr (super_options r)))]"

definition inspect_local :: "xfs_probe \<Rightarrow> pystr \<Rightarrow> pyval res" where
  "inspect_local x mountpoint =
     bindE (xp_before x) (\<lambda>before. bindE (parse_mountinfo before) (\<lambda>rows.
     case filter (\<lambda>r. mount_point r = mountpoint) rows of
       [r] \<Rightarrow>
         bindE (check_directory mountpoint) (\<lambda>_. bindE (xp_open x) (\<lambda>_.
         bindE (bindE (xp_fdinfo x) decodeE) (\<lambda>info.
         bindE (case mnt_ids True info of [n] \<Rightarrow> py_int n | _ \<Rightarrow> invalid ''pinned directory is a different mount'') (\<lambda>mid.
         if mid \<noteq> mount_id r then invalid ''pinned directory is a different mount''
         else if str_int (fst (xp_device x)) @ [58] @ str_int (snd (xp_device x)) \<noteq> device r then invalid ''mount device changed''
         else bindE (xp_after x) (\<lambda>after.
           if before \<noteq> after \<or> xp_namespace_after x \<noteq> xp_namespace x
           then invalid ''mount topology changed during observation''
           else bindE (bindE (xp_boot x) decodeE) (\<lambda>boot.
             Inr (PDict
               [(u ''schema'', PStr (u ''org.niaos.xfs-local-inventory/v1'')), (u ''mount'', row_val r),
                (u ''mount_namespace'', PInt (xp_namespace x)), (u ''boot_id'', PStr (strip is_space boot)),
                (u ''kernel_release'', PStr (xp_release x)), (u ''observed_mono_ns'', PInt (xp_started x)),
                (u ''finished_mono_ns'', PInt (xp_finished x)),
                (u ''available_bytes'', PInt (fst (xp_blocks x) * snd (xp_blocks x))), (u ''available_inodes'', PInt (xp_inodes x)),
                (u ''readonly'', PBool (xp_readonly x)), (u ''xfs_mount_observed'', PBool (filesystem r = u ''xfs'')),
                (u ''geometry'', PStr (u ''not-probed'')), (u ''healthmon'', PStr (u ''not-probed'')),
                (u ''online_repair'', PStr (u ''not-probed'')), (u ''metadata_health'', PStr (u ''unknown'')),
                (u ''content_integrity'', PStr (u ''unknown'')), (u ''evidence_authenticated'', PBool False),
                (u ''execution_permit'', PBool False), (u ''production_qualified'', PBool False)])))))))
     | _ \<Rightarrow> invalid ''not a unique exact mount point''))"

section \<open>Properties\<close>






















section \<open>The mount table\<close>

definition mount_row_ok :: "mount_row \<Rightarrow> bool" where
  "mount_row_ok r \<longleftrightarrow> 0 < mount_id r \<and> mount_id r < 2 ^ 64 \<and> startswith (mount_root r) [47]
     \<and> (mount_point r = [47] \<or> (\<exists>p. mount_point r = 47 # p \<and> relative_ok p)) \<and> device_ok (device r)"

lemma all_digits_int: "all_digits s \<Longrightarrow> py_int s = Inr n \<Longrightarrow> 0 \<le> n"
proof -
  assume a: "all_digits s" "py_int s = Inr n"
  have "\<not> startswith (strip is_space s) [45]"
  proof
    assume "startswith (strip is_space s) [45]"
    then have "45 \<in> set (strip is_space s)" by (auto simp: startswith_iff)
    then have "45 \<in> set s" by (fastforce simp: strip_def lstrip_def rstrip_def dest!: set_dropWhileD)
    then show False using a(1) by (auto simp: all_digits_def list_all_iff ascii_digit_def)
  qed
  with a(2) show ?thesis by (auto simp: py_int_def Let_def split: option.splits if_splits)
qed

lemma mount_line_ok:
  assumes "mount_line rows line = Inr rows'"
  shows "\<exists>r. rows' = rows @ [r] \<and> mount_id r \<notin> mount_id ` set rows \<and> mount_row_ok r \<and> length rows' \<le> 16384"
proof -
  define parts k where "parts = split_on 32 line" and "k = index_of [45] parts"
  note step = assms [unfolded mount_line_def Let_def, folded parts_def, folded k_def]
  from step obtain mid parent root point source where
      1: "all_digits (parts ! 0)" "device_ok (parts ! 2)" "py_int (parts ! 0) = Inr mid" "mid \<notin> mount_id ` set rows" "mid \<noteq> 0" "mid \<le> 2 ^ 64 - 1"
      "startswith root [47]" "startswith point [47]" "point \<noteq> [47] \<longrightarrow> relative_ok (drop 1 point)"
      "rows' = rows @ [\<lparr>mount_id = mid, parent_id = parent, device = parts ! 2, mount_root = root, mount_point = point,
                mount_options = split_on 44 (parts ! 5), filesystem = parts ! (k + 1), mount_source = source,
                super_options = split_on 44 (parts ! (k + 3))\<rparr>]" "length rows' \<le> 16384"
    unfolding bindE_eq_Inr if_invalid_eq_Inr by (auto simp: relative_ok bindE_eq_Inr not_less split: if_splits)
  have "0 < mid" using all_digits_int [OF 1(1,3)] 1(5) by simp
  moreover obtain p where "point = 47 # p" using 1(8) by (auto simp: startswith_iff)
  ultimately show ?thesis using 1 by (auto simp: mount_row_ok_def)
qed

lemma parse_mountinfo_ok:
  assumes "parse_mountinfo data = Inr rows"
  shows "distinct (map mount_id rows) \<and> (\<forall>r \<in> set rows. mount_row_ok r) \<and> length rows \<le> 16384"
proof -
  from assms obtain s where "foldE mount_line [] (splitlines s) = Inr rows"
    by (auto simp: parse_mountinfo_def split: if_splits option.splits)
  then show ?thesis
    by (rule foldE_invariant) (auto dest!: mount_line_ok)
qed

text \<open>What the kernel's mount table is read as: at most 16384 rows with distinct positive 64-bit
  identifiers, absolute roots and canonical absolute mount points; and a local inventory is only
  reported for a mount point named by exactly one row, when the directory opened is on that mount and
  device, and the table and the namespace did not change in between. It authenticates nothing.\<close>

theorem inspect_local_sound:
  assumes "inspect_local x mountpoint = Inr v"
  shows "\<exists>before rows r. xp_before x = Inr before \<and> xp_after x = Inr before \<and> xp_namespace_after x = xp_namespace x
     \<and> parse_mountinfo before = Inr rows \<and> distinct (map mount_id rows) \<and> length rows \<le> 16384 \<and> (\<forall>r \<in> set rows. mount_row_ok r)
     \<and> r \<in> set rows \<and> mount_point r = mountpoint \<and> (\<forall>s \<in> set rows. mount_point s = mountpoint \<longrightarrow> s = r)
     \<and> xp_open x = Inr () \<and> str_int (fst (xp_device x)) @ [58] @ str_int (snd (xp_device x)) = device r
     \<and> (\<exists>info n. bindE (xp_fdinfo x) decodeE = Inr info \<and> mnt_ids True info = [n] \<and> py_int n = Inr (mount_id r))
     \<and> field v ''mount'' = row_val r \<and> field v ''execution_permit'' = PBool False \<and> field v ''evidence_authenticated'' = PBool False"
proof -
  from assms obtain before rows where b: "xp_before x = Inr before" "parse_mountinfo before = Inr rows"
    by (auto simp: inspect_local_def bindE_eq_Inr)
  note run = assms [unfolded inspect_local_def b bindE.simps]
  from run obtain r where r: "filter (\<lambda>r. mount_point r = mountpoint) rows = [r]"
    by (auto split: list.splits)
  from run obtain info n mid after boot where
    1: "xp_open x = Inr ()" "bindE (xp_fdinfo x) decodeE = Inr info"
       "(case mnt_ids True info of [n] \<Rightarrow> py_int n | _ \<Rightarrow> invalid ''pinned directory is a different mount'') = Inr mid"
       "mid = mount_id r" "str_int (fst (xp_device x)) @ [58] @ str_int (snd (xp_device x)) = device r"
       "xp_after x = Inr after" "before = after" "xp_namespace_after x = xp_namespace x"
    and v: "field v ''mount'' = row_val r" "field v ''execution_permit'' = PBool False" "field v ''evidence_authenticated'' = PBool False"
    unfolding r list.case bindE_eq_Inr if_invalid_eq_Inr by (auto simp: field_def)
  obtain n where n: "mnt_ids True info = [n]" "py_int n = Inr mid"
    using 1(3) by (auto split: list.splits)
  have "r \<in> set rows" "mount_point r = mountpoint" using r by (auto simp: filter_eq_Cons_iff)
  moreover have "\<forall>s \<in> set rows. mount_point s = mountpoint \<longrightarrow> s = r"
  proof (intro ballI impI)
    fix s assume "s \<in> set rows" "mount_point s = mountpoint"
    then have "s \<in> set (filter (\<lambda>r. mount_point r = mountpoint) rows)" by simp
    then show "s = r" by (simp add: r)
  qed
  ultimately show ?thesis using b 1 v n parse_mountinfo_ok [OF b(2)] by blast
qed

definition example_probe :: xfs_probe where
  "example_probe = \<lparr>xp_started = 1, xp_before = Inr (bs ''29 1 8:1 / / rw - ext4 /dev/a rw'' @ [10] @ bs ''30 29 8:2 / /a'' @ [92] @ bs ''040b rw,noatime shared:1 - xfs /dev/b rw''),
     xp_namespace = 7, xp_open = Inr (), xp_fdinfo = Inr (bs ''pos: 0'' @ [10] @ bs ''mnt_id: 30'' @ [10]), xp_device = (8, 2),
     xp_after = Inr (bs ''29 1 8:1 / / rw - ext4 /dev/a rw'' @ [10] @ bs ''30 29 8:2 / /a'' @ [92] @ bs ''040b rw,noatime shared:1 - xfs /dev/b rw''),
     xp_namespace_after = 7, xp_boot = Inr (bs ''boot'' @ [10]), xp_release = u ''7.0'', xp_finished = 2, xp_blocks = (10, 4096),
     xp_inodes = 5, xp_readonly = False\<rparr>"

theorem inspect_local_sound_witness:
  "\<exists>v. inspect_local example_probe (u ''/a b'') = Inr v \<and> field v ''execution_permit'' = PBool False"
proof -
  have "is_ok (inspect_local example_probe (u ''/a b''))" by code_simp
  then obtain v where v: "inspect_local example_probe (u ''/a b'') = Inr v" by (auto simp: is_ok_iff)
  from inspect_local_sound [OF v] v show ?thesis by blast
qed

end
