(* ===== verification/Native_State.thy ===== *)
theory Native_State
  imports Sha256_Vector
begin

text \<open>
  The form of the stateful classes under \<open>native/\<close>. A method is a function from the object's
  state to a result and the state it leaves, exceptions included: a method that raises has
  changed the fields it assigned before. \<open>exceptS m h\<close> is \<open>try: m except BaseException: h; raise\<close> and
  \<open>finallyS m f\<close> is \<open>try: m finally: f\<close>. What the operating system answers to the calls of one method
  is an argument of the method.
\<close>

type_synonym ('a, 's) proc = "'s \<Rightarrow> 'a res \<times> 's"

definition ret :: "'a \<Rightarrow> ('a, 's) proc" where
  "ret x s = (Inr x, s)"

definition liftS :: "'a res \<Rightarrow> ('a, 's) proc" where
  "liftS r s = (r, s)"

definition bindS :: "('a, 's) proc \<Rightarrow> ('a \<Rightarrow> ('b, 's) proc) \<Rightarrow> ('b, 's) proc" where
  "bindS m f s = (case m s of (Inl e, s') \<Rightarrow> (Inl e, s') | (Inr x, s') \<Rightarrow> f x s')"

definition thenS :: "(unit, 's) proc \<Rightarrow> ('b, 's) proc \<Rightarrow> ('b, 's) proc" where
  "thenS m f = bindS m (\<lambda>_. f)"

definition getS :: "('s \<Rightarrow> 'a) \<Rightarrow> ('a, 's) proc" where
  "getS f s = (Inr (f s), s)"

definition modifyS :: "('s \<Rightarrow> 's) \<Rightarrow> (unit, 's) proc" where
  "modifyS f s = (Inr (), f s)"

text \<open>\<open>if bad: raise Rejected(msg)\<close>.\<close>

definition rejectS :: "('s \<Rightarrow> bool) \<Rightarrow> string \<Rightarrow> (unit, 's) proc" where
  "rejectS bad msg s = (if bad s then (rejected msg, s) else (Inr (), s))"

definition exceptS :: "('a, 's) proc \<Rightarrow> (unit, 's) proc \<Rightarrow> ('a, 's) proc" where
  "exceptS m h s = (case m s of
       (Inr x, s') \<Rightarrow> (Inr x, s')
     | (Inl e, s') \<Rightarrow> (case h s' of (Inl e', s'') \<Rightarrow> (Inl e', s'') | (Inr _, s'') \<Rightarrow> (Inl e, s'')))"

definition finallyS :: "('a, 's) proc \<Rightarrow> (unit, 's) proc \<Rightarrow> ('a, 's) proc" where
  "finallyS m f s = (case m s of (r, s') \<Rightarrow> (case f s' of (Inl e, s'') \<Rightarrow> (Inl e, s'') | (Inr _, s'') \<Rightarrow> (r, s'')))"

named_theorems run_simps \<open>runs of methods that returned\<close>

lemma ret_run [simp]: "ret x s = (r, s') \<longleftrightarrow> r = Inr x \<and> s' = s"
  by (auto simp: ret_def)

lemma liftS_run [simp]: "liftS x s = (r, s') \<longleftrightarrow> r = x \<and> s' = s"
  by (auto simp: liftS_def)

lemma getS_run [simp]: "getS f s = (r, s') \<longleftrightarrow> r = Inr (f s) \<and> s' = s"
  by (auto simp: getS_def)

lemma modifyS_run [simp]: "modifyS f s = (r, s') \<longleftrightarrow> r = Inr () \<and> s' = f s"
  by (auto simp: modifyS_def)

lemma rejectS_ok [run_simps]: "rejectS bad msg s = (Inr x, s') \<longleftrightarrow> \<not> bad s \<and> s' = s"
  by (auto simp: rejectS_def)

lemma rejectS_state: "snd (rejectS bad msg s) = s"
  by (simp add: rejectS_def)

lemma bindS_ok [run_simps]: "bindS m f s = (Inr y, t) \<longleftrightarrow> (\<exists>x s'. m s = (Inr x, s') \<and> f x s' = (Inr y, t))"
  by (auto simp: bindS_def split: prod.splits sum.splits)

lemma bindS_run: "bindS m f s = (r, t) \<longleftrightarrow>
    (\<exists>e. m s = (Inl e, t) \<and> r = Inl e) \<or> (\<exists>x s'. m s = (Inr x, s') \<and> f x s' = (r, t))"
  by (auto simp: bindS_def split: prod.splits sum.splits)

lemma thenS_ok [run_simps]: "thenS m f s = (Inr y, t) \<longleftrightarrow> (\<exists>s'. m s = (Inr (), s') \<and> f s' = (Inr y, t))"
  by (auto simp: thenS_def bindS_ok)

lemma thenS_run: "thenS m f s = (r, t) \<longleftrightarrow>
    (\<exists>e. m s = (Inl e, t) \<and> r = Inl e) \<or> (\<exists>s'. m s = (Inr (), s') \<and> f s' = (r, t))"
  by (auto simp: thenS_def bindS_run)

lemma exceptS_ok [run_simps]: "exceptS m h s = (Inr x, t) \<longleftrightarrow> m s = (Inr x, t)"
  by (auto simp: exceptS_def split: prod.splits sum.splits)

lemma exceptS_raise: "exceptS m h s = (Inl e, t) \<Longrightarrow> \<exists>e' s' r. m s = (Inl e', s') \<and> h s' = (r, t)"
  by (auto simp: exceptS_def split: prod.splits sum.splits)

lemma finallyS_ok [run_simps]: "finallyS m f s = (Inr x, t) \<longleftrightarrow> (\<exists>s'. m s = (Inr x, s') \<and> f s' = (Inr (), t))"
  by (auto simp: finallyS_def split: prod.splits sum.splits)

text \<open>The calculation of a method, step by step.\<close>

lemma bind_get: "bindS (getS g) f s = f (g s) s"
  and bind_lift: "bindS (liftS r) f s = (case r of Inl e \<Rightarrow> (Inl e, s) | Inr x \<Rightarrow> f x s)"
  and then_lift: "thenS (liftS r') m s = (case r' of Inl e \<Rightarrow> (Inl e, s) | Inr x \<Rightarrow> m s)"
  and then_modify: "thenS (modifyS h) m s = m (h s)"
  and then_reject: "thenS (rejectS bad msg) m s = (if bad s then (rejected msg, s) else m s)"
  by (simp_all add: bindS_def thenS_def getS_def liftS_def modifyS_def rejectS_def rejected_def split: sum.split)

lemma reject_eq: "rejectS bad msg s = (if bad s then (rejected msg, s) else (Inr (), s))"
  and ret_eq: "ret x s = (Inr x, s)"
  and lift_eq: "liftS r s = (r, s)"
  and modify_eq: "modifyS h s = (Inr (), h s)"
  by (simp_all add: rejectS_def ret_def liftS_def modifyS_def)

lemmas run_eqs = bind_get bind_lift then_lift then_modify then_reject reject_eq ret_eq lift_eq modify_eq

text \<open>An operation never ends a state with property \<open>P\<close> in one without \<open>Q\<close>, however it ends.\<close>

definition ends :: "('s \<Rightarrow> bool) \<Rightarrow> ('a, 's) proc \<Rightarrow> ('s \<Rightarrow> bool) \<Rightarrow> bool" where
  "ends P m Q \<longleftrightarrow> (\<forall>s. P s \<longrightarrow> Q (snd (m s)))"

lemma endsI: "(\<And>s r t. P s \<Longrightarrow> m s = (r, t) \<Longrightarrow> Q t) \<Longrightarrow> ends P m Q"
  unfolding ends_def by (metis prod.collapse)

lemma endsD: "ends P m Q \<Longrightarrow> P s \<Longrightarrow> m s = (r, t) \<Longrightarrow> Q t"
  unfolding ends_def by (metis snd_conv)

lemma ends_ret: "(\<And>s. P s \<Longrightarrow> Q s) \<Longrightarrow> ends P (ret x) Q"
  and ends_liftS: "(\<And>s. P s \<Longrightarrow> Q s) \<Longrightarrow> ends P (liftS r) Q"
  and ends_getS: "(\<And>s. P s \<Longrightarrow> Q s) \<Longrightarrow> ends P (getS f) Q"
  and ends_rejectS: "(\<And>s. P s \<Longrightarrow> Q s) \<Longrightarrow> ends P (rejectS b msg) Q"
  and ends_modifyS: "(\<And>s. P s \<Longrightarrow> Q (g s)) \<Longrightarrow> ends P (modifyS g) Q"
  by (auto simp: ends_def ret_def liftS_def getS_def rejectS_def modifyS_def)

lemma ends_bindS: "ends P m P \<Longrightarrow> (\<And>x. ends P (f x) P) \<Longrightarrow> ends P (bindS m f) P"
  by (auto simp: ends_def bindS_def split: prod.splits sum.splits)

lemma ends_thenS: "ends P m P \<Longrightarrow> ends P f P \<Longrightarrow> ends P (thenS m f) P"
  unfolding thenS_def by (rule ends_bindS) auto

lemma ends_exceptS: "ends P m P \<Longrightarrow> ends P h P \<Longrightarrow> ends P (exceptS m h) P"
  by (auto simp: ends_def exceptS_def split: prod.splits sum.splits)

section \<open>Identities and numbers in fixed-width messages\<close>

text \<open>\<open>type(value) is bytes and len(value) == n and any(value)\<close>.\<close>

definition identity_bytes :: "nat \<Rightarrow> pybytes \<Rightarrow> bool" where
  "identity_bytes n b \<longleftrightarrow> length b = n \<and> list_ex (\<lambda>x. x \<noteq> 0) b"

lemma identity_replicate: "identity_bytes n (replicate n x) \<longleftrightarrow> 0 < n \<and> x \<noteq> 0"
  by (cases n) (auto simp: identity_bytes_def list_ex_iff)

text \<open>\<open>struct.pack('>Q', n)\<close> and \<open>n.to_bytes(8, 'big')\<close>.\<close>

definition be64 :: "int \<Rightarrow> pybytes" where
  "be64 n = to_be 8 (nat n)"

definition be_int :: "pybytes \<Rightarrow> int" where
  "be_int b = int (from_be b)"

lemma length_be64 [simp]: "length (be64 n) = 8"
  by (simp add: be64_def)

lemma be_int_be64: "0 \<le> n \<Longrightarrow> n < 2 ^ 64 \<Longrightarrow> be_int (be64 n) = n"
proof -
  assume a: "0 \<le> n" "n < 2 ^ 64"
  then have "nat n < 256 ^ 8" by (simp add: nat_less_iff)
  then show ?thesis using a by (simp add: be_int_def be64_def from_to_be)
qed

lemma be64_be_int: "length b = 8 \<Longrightarrow> be64 (be_int b) = b"
  by (simp add: be_int_def be64_def to_from_be)

lemma be_int_bounds: "length b = 8 \<Longrightarrow> 0 \<le> be_int b \<and> be_int b < 2 ^ 64"
  using from_be_less [of b] by (simp add: be_int_def)

definition slice :: "nat \<Rightarrow> nat \<Rightarrow> 'a list \<Rightarrow> 'a list" where
  "slice i j xs = drop i (take j xs)"

lemma length_slice [simp]: "length (slice i j xs) = min j (length xs) - i"
  by (simp add: slice_def)

text \<open>Messages of fields of the same widths are equal only when the fields are.\<close>

lemma concat_lengths: "map length xs = map length ys \<Longrightarrow> concat xs = concat ys \<longleftrightarrow> xs = ys"
proof (induction xs arbitrary: ys)
  case (Cons x xs)
  then obtain y zs where ys: "ys = y # zs" "length x = length y" "map length xs = map length zs" by (cases ys) auto
  show ?case using Cons.IH [OF ys(3)] ys(1,2) by simp
qed simp

lemma be64_inj: "0 \<le> m \<Longrightarrow> m < 2 ^ 64 \<Longrightarrow> 0 \<le> n \<Longrightarrow> n < 2 ^ 64 \<Longrightarrow> be64 m = be64 n \<longleftrightarrow> m = n"
  by (metis be_int_be64)

end
