(* ===== verification/Native_Helper.thy ===== *)
theory Native_Helper
  imports Native_State
begin

text \<open>
  \<open>native/native_helper.py\<close>: pinning of the private helper executables below \<open>/usr/libexec/nia\<close>.
  The directory tree is an argument. \<open>stat\<close> answers for a list of names from the root,
  \<open>open_at\<close> is an \<open>open\<close> of one name in the directory reached so far, and \<open>head\<close> the bytes a read
  of the opened file returns. A descriptor is the path it was opened by.
\<close>

record file_info =
  fi_regular :: bool
  fi_uid :: nat
  fi_nlink :: nat
  fi_mode :: nat

record tree =
  stat_of :: "pystr list \<Rightarrow> file_info res"
  open_at :: "pystr list \<Rightarrow> pystr \<Rightarrow> unit res"
  head_of :: "pystr list \<Rightarrow> pybytes res"

definition HELPERS :: "pystr list" where
  "HELPERS = map u [''pkg_operator_guard'', ''pkg_supply_guard'', ''pkg_catalog_query'']"

unbundle bit_operations_syntax

definition protected_directory :: "tree \<Rightarrow> pystr list \<Rightarrow> unit res" where
  "protected_directory t directory = bindE (stat_of t directory) (\<lambda>info.
     if fi_uid info \<noteq> 0 \<or> fi_mode info AND 18 \<noteq> 0 then rejected ''unprotected-helper-directory'' else Inr ())"

text \<open>
  The loop over the directories. Its variable is the parameter \<open>name\<close> itself, so the state of the
  loop is the directory reached and the current value of \<open>name\<close>.
\<close>

definition descend :: "tree \<Rightarrow> pystr list \<times> pystr \<Rightarrow> pystr \<Rightarrow> (pystr list \<times> pystr) res" where
  "descend t st name = (case st of (directory, _) \<Rightarrow>
     bindE (protected_directory t directory) (\<lambda>_.
     bindE (open_at t directory name) (\<lambda>_. Inr (directory @ [name], name))))"

definition native_elf :: "file_info \<Rightarrow> bool" where
  "native_elf info \<longleftrightarrow> fi_regular info \<and> fi_uid info = 0 \<and> fi_nlink info = 1
     \<and> fi_mode info AND 3090 = 0 \<and> fi_mode info AND 73 \<noteq> 0"

definition elf_magic :: pybytes where
  "elf_magic = [127, 69, 76, 70]"

definition executable :: "tree \<Rightarrow> pystr \<Rightarrow> (pystr list) res" where
  "executable t name =
     (if name \<notin> set HELPERS then rejected ''unknown-private-helper''
      else bindE (open_at t [] []) (\<lambda>_.
        bindE (foldE (descend t) ([], name) (map u [''usr'', ''libexec'', ''nia''])) (\<lambda>(directory, name').
        bindE (protected_directory t directory) (\<lambda>_.
        bindE (open_at t directory name') (\<lambda>_.
        bindE (stat_of t (directory @ [name'])) (\<lambda>info.
        if \<not> native_elf info then rejected ''unprotected-native-helper''
        else bindE (head_of t (directory @ [name'])) (\<lambda>magic.
          if magic \<noteq> elf_magic then rejected ''unprotected-native-helper'' else Inr (directory @ [name']))))))))"

section \<open>Properties\<close>

text \<open>The components below which the helper is looked up, as lists of names.\<close>

definition helper_dir :: "pystr list" where
  "helper_dir = map u [''usr'', ''libexec'', ''nia'']"

lemma descend_name: "descend t (directory, n) name = descend t (directory, m) name"
  by (simp add: descend_def)

lemma executable_path:
  assumes "executable t name = Inr path"
  shows "path = helper_dir @ [u ''nia'']"
  using assms by (auto simp: executable_def descend_def helper_dir_def ok_simps)

text \<open>C90: Pinning a helper protects the whole path it opens: every directory from the root is owned by
  root and not writable by others, and the file is a regular, singly linked, root-owned, executable
  ELF file without set-id bits. The path, however, does not depend on the helper asked for: the loop
  over the directories assigns the parameter, so every accepted name opens \<open>/usr/libexec/nia/nia\<close>, and
  two helpers can never be told apart.\<close>

theorem executable_ignores_name:
  "(executable t name = Inr path) = (name \<in> set HELPERS \<and> executable t (u ''pkg_supply_guard'') = Inr path)
   \<and> (executable t name = Inr path) = (executable t name = Inr path \<and> path = map u [''usr'', ''libexec'', ''nia'', ''nia''])"
proof -
  have h: "u ''pkg_supply_guard'' \<in> set HELPERS" by (simp add: HELPERS_def)
  have same: "executable t name = executable t (u ''pkg_supply_guard'')" if "name \<in> set HELPERS"
    using that h unfolding executable_def by (simp add: descend_name [of t _ name _ "u ''pkg_supply_guard''"])
  moreover have "executable t name \<noteq> Inr path" if "name \<notin> set HELPERS"
    using that by (simp add: executable_def)
  moreover have "executable t name = Inr path \<Longrightarrow> path = map u [''usr'', ''libexec'', ''nia'', ''nia'']"
    using executable_path by (auto simp: helper_dir_def)
  ultimately show ?thesis by metis
qed

text \<open>Whatever is pinned was protected from the root down at the moment of the checks.\<close>

theorem executable_protected:
  assumes "executable t name = Inr path"
  shows "\<exists>infos info. list_all2 (\<lambda>n i. stat_of t (take n path) = Inr i \<and> fi_uid i = 0 \<and> fi_mode i AND 18 = 0) [0, 1, 2, 3] infos
     \<and> stat_of t path = Inr info \<and> native_elf info \<and> head_of t path = Inr elf_magic"
proof -
  have p: "path = map u [''usr'', ''libexec'', ''nia'', ''nia'']" using executable_path [OF assms] by (simp add: helper_dir_def)
  from assms obtain i0 i1 i2 i3 info where
     "stat_of t [] = Inr i0" "fi_uid i0 = 0" "fi_mode i0 AND 18 = 0"
     "stat_of t [u ''usr''] = Inr i1" "fi_uid i1 = 0" "fi_mode i1 AND 18 = 0"
     "stat_of t [u ''usr'', u ''libexec''] = Inr i2" "fi_uid i2 = 0" "fi_mode i2 AND 18 = 0"
     "stat_of t [u ''usr'', u ''libexec'', u ''nia''] = Inr i3" "fi_uid i3 = 0" "fi_mode i3 AND 18 = 0"
     "stat_of t path = Inr info" "native_elf info" "head_of t path = Inr elf_magic"
    unfolding executable_def descend_def protected_directory_def p by (auto simp: ok_simps)
  then show ?thesis
    by (intro exI [of _ "[i0, i1, i2, i3]"] exI [of _ info]) (simp add: p)
qed

definition example_tree :: tree where
  "example_tree = \<lparr>stat_of = (\<lambda>p. Inr (if length p = 4 then \<lparr>fi_regular = True, fi_uid = 0, fi_nlink = 1, fi_mode = 493\<rparr>
       else \<lparr>fi_regular = False, fi_uid = 0, fi_nlink = 2, fi_mode = 493\<rparr>)),
     open_at = (\<lambda>d n. Inr ()), head_of = (\<lambda>p. Inr elf_magic)\<rparr>"

theorem executable_protected_witness:
  "executable example_tree (u ''pkg_operator_guard'') = Inr (map u [''usr'', ''libexec'', ''nia'', ''nia''])
   \<and> (\<exists>info. stat_of example_tree (map u [''usr'', ''libexec'', ''nia'', ''nia'']) = Inr info \<and> native_elf info)"
proof -
  have r: "executable example_tree (u ''pkg_operator_guard'') = Inr (map u [''usr'', ''libexec'', ''nia'', ''nia''])"
    by code_simp
  from executable_protected [OF r] r show ?thesis by blast
qed

end
