(* ===== verification/Native_Observer.thy ===== *)
theory Native_Observer
  imports Native_State
begin

text \<open>
  The interface the operator guard and the supply guard share: an object that is asked for numbered
  checks and returns at most one observation for each. The laws are what one operation guarantees;
  the lemmas are about runs, that is, about every sequence of operations and of answers of the
  operating system.
\<close>

section \<open>What both guards do with their helper\<close>

text \<open>What \<open>os.read\<close> answers: it would block, or at most as many bytes as were asked for.\<close>

datatype read_answer = WouldBlock | ReadError exn | ReadData pybytes

text \<open>
  The block of \<open>close\<close> that kills the helper's group and waits for it, from the answers of
  \<open>os.waitid\<close>, \<open>os.killpg\<close> and \<open>child.wait\<close>; the exceptions of a list of answers; and the group
  they are raised as.
\<close>

definition reap :: "unit res \<Rightarrow> unit res \<Rightarrow> unit res \<Rightarrow> unit res" where
  "reap waitid killpg wait = bindE waitid (\<lambda>_. bindE (if killpg = Inl ProcessLookupError then Inr () else killpg) (\<lambda>_. wait))"

definition failures :: "unit res list \<Rightarrow> exn list" where
  "failures rs = concat (map (\<lambda>r. case r of Inl e \<Rightarrow> [e] | Inr _ \<Rightarrow> []) rs)"

definition close_group :: "string \<Rightarrow> exn list \<Rightarrow> unit res" where
  "close_group msg es = (if es = [] then Inr () else Inl (ExceptionGroup (u msg) es))"

section \<open>Runs\<close>

text \<open>The observations of a run, oldest first, and the state it ends in.\<close>

fun run_of :: "('s \<Rightarrow> 'i \<Rightarrow> 'o option \<times> 's) \<Rightarrow> 's \<Rightarrow> 'i list \<Rightarrow> 'o list \<times> 's" where
  "run_of step s [] = ([], s)"
| "run_of step s (i # is) = (case step s i of (r, s') \<Rightarrow> (case run_of step s' is of (obs, s'') \<Rightarrow>
     (case r of None \<Rightarrow> obs | Some x \<Rightarrow> x # obs, s'')))"

text \<open>An object whose state records what it has handed out: \<open>agrees h s\<close> relates the two.\<close>

locale historied =
  fixes step :: "'s \<Rightarrow> 'i \<Rightarrow> 'o option \<times> 's"
    and agrees :: "'o list \<Rightarrow> 's \<Rightarrow> bool"
  assumes agrees_step: "agrees h s \<Longrightarrow> step s i = (r, s') \<Longrightarrow> agrees (h @ (case r of None \<Rightarrow> [] | Some x \<Rightarrow> [x])) s'"
begin

lemma agrees_run: "agrees h s \<Longrightarrow> run_of step s is = (obs, t) \<Longrightarrow> agrees (h @ obs) t"
proof (induction "is" arbitrary: h s obs)
  case (Cons i "is")
  obtain r s' where st: "step s i = (r, s')" by fastforce
  obtain obs' t' where run: "run_of step s' is = (obs', t')" by fastforce
  with Cons.prems st have t: "t' = t" "obs = (case r of None \<Rightarrow> [] | Some x \<Rightarrow> [x]) @ obs'" by (auto split: option.splits)
  from Cons.IH [OF agrees_step [OF Cons.prems(1) st] run [unfolded t(1)]] show ?case by (simp add: t(2))
qed simp

end

text \<open>An object that is asked for numbered checks.\<close>

locale observer =
  fixes step :: "'s \<Rightarrow> 'i \<Rightarrow> 'o option \<times> 's"
    and inv :: "'s \<Rightarrow> bool"
    and counter :: "'s \<Rightarrow> int"
    and pending :: "'s \<Rightarrow> bool"
    and dead :: "'s \<Rightarrow> bool"
    and number :: "'o \<Rightarrow> int"
    and limit :: int
  assumes inv_step: "inv s \<Longrightarrow> step s i = (r, s') \<Longrightarrow> inv s'"
    and inv_counter: "inv s \<Longrightarrow> 0 \<le> counter s \<and> counter s \<le> limit"
    and inv_pending: "inv s \<Longrightarrow> pending s \<Longrightarrow> 1 \<le> counter s"
    and observed: "inv s \<Longrightarrow> step s i = (Some x, s') \<Longrightarrow>
      pending s \<and> \<not> dead s \<and> number x = counter s \<and> counter s' = counter s \<and> \<not> pending s'"
    and silent: "inv s \<Longrightarrow> step s i = (None, s') \<Longrightarrow>
      (counter s' = counter s \<and> (pending s' \<longrightarrow> pending s)) \<or> counter s' = counter s + 1"
    and dead_end: "inv s \<Longrightarrow> dead s \<Longrightarrow> step s i = (r, s') \<Longrightarrow> dead s' \<and> r = None"
begin

definition next_number :: "'s \<Rightarrow> int" where
  "next_number s = (if pending s then counter s else counter s + 1)"

lemma inv_run: "inv s \<Longrightarrow> inv (snd (run_of step s is))"
proof (induction "is" arbitrary: s)
  case (Cons i "is")
  obtain r s' where st: "step s i = (r, s')" by fastforce
  from Cons.IH [OF inv_step [OF Cons.prems st]] show ?case
    by (cases "run_of step s' is") (simp add: st)
qed simp

lemma run_numbers:
  assumes "inv s" "run_of step s is = (obs, t)"
  shows "sorted_wrt (<) (map number obs) \<and> (\<forall>x \<in> set obs. next_number s \<le> number x \<and> number x \<le> counter t) \<and> counter s \<le> counter t"
  using assms
proof (induction "is" arbitrary: s obs)
  case (Cons i "is")
  obtain r s' where st: "step s i = (r, s')" by fastforce
  obtain obs' t' where run: "run_of step s' is = (obs', t')" by fastforce
  with Cons.prems st have t: "t' = t" "obs = (case r of None \<Rightarrow> obs' | Some x \<Rightarrow> x # obs')" by auto
  note IH = Cons.IH [OF inv_step [OF Cons.prems(1) st] run [unfolded t(1)]]
  show ?case
  proof (cases r)
    case None
    with silent [OF Cons.prems(1) st [unfolded None]] IH show ?thesis
      by (auto simp: t(2) next_number_def split: if_splits)
  next
    case (Some x)
    with observed [OF Cons.prems(1) st [unfolded Some]] IH show ?thesis
      by (auto simp: t(2) next_number_def split: if_splits)
  qed
qed simp

lemma run_bounded:
  assumes "inv s" "run_of step s is = (obs, t)"
  shows "int (length obs) \<le> limit \<and> distinct (map number obs) \<and> (\<forall>x \<in> set obs. 1 \<le> number x \<and> number x \<le> limit)"
proof -
  have inv_t: "inv t" using inv_run [OF assms(1), of "is"] assms(2) by simp
  have "1 \<le> next_number s"
    using inv_counter [OF assms(1)] inv_pending [OF assms(1)] by (simp add: next_number_def)
  then have range: "\<forall>x \<in> set obs. 1 \<le> number x \<and> number x \<le> limit"
    using run_numbers [OF assms] inv_counter [OF inv_t] by force
  have dist: "distinct (map number obs)"
    using run_numbers [OF assms] by (simp add: strict_sorted_iff)
  have "set (map number obs) \<subseteq> {1 .. limit}" using range by auto
  then have "card (set (map number obs)) \<le> card {1 .. limit}" by (rule card_mono [rotated]) simp
  then have "length obs \<le> nat limit" using distinct_card [OF dist] by simp
  then show ?thesis using dist range inv_counter [OF assms(1)] by auto
qed

lemma dead_run: "inv s \<Longrightarrow> dead s \<Longrightarrow> run_of step s is = (obs, t) \<Longrightarrow> obs = [] \<and> dead t"
proof (induction "is" arbitrary: s obs)
  case (Cons i "is")
  obtain r s' where st: "step s i = (r, s')" by fastforce
  with dead_end [OF Cons.prems(1,2) st] inv_step [OF Cons.prems(1) st] Cons show ?case
    by (auto split: prod.splits)
qed simp

end

text \<open>An observer whose observations carry a clock reading that it never lets run backwards.\<close>

locale clocked_observer = observer +
  fixes clock :: "'a \<Rightarrow> int"
    and stamp :: "'c \<Rightarrow> int"
  assumes observed_clock: "inv s \<Longrightarrow> step s i = (Some x, s') \<Longrightarrow> clock s \<le> stamp x \<and> clock s' = stamp x"
    and silent_clock: "inv s \<Longrightarrow> step s i = (None, s') \<Longrightarrow> clock s \<le> clock s'"
begin

lemma run_clock:
  "inv s \<Longrightarrow> run_of step s is = (obs, t) \<Longrightarrow> sorted (map stamp obs) \<and> (\<forall>x \<in> set obs. clock s \<le> stamp x) \<and> clock s \<le> clock t"
proof (induction "is" arbitrary: s obs)
  case (Cons i "is")
  obtain r s' where st: "step s i = (r, s')" by fastforce
  obtain obs' t' where run: "run_of step s' is = (obs', t')" by fastforce
  with Cons.prems st have t: "t' = t" "obs = (case r of None \<Rightarrow> obs' | Some x \<Rightarrow> x # obs')" by auto
  note IH = Cons.IH [OF inv_step [OF Cons.prems(1) st] run [unfolded t(1)]]
  show ?case
  proof (cases r)
    case None
    with silent_clock [OF Cons.prems(1) st [unfolded None]] IH show ?thesis by (auto simp: t(2))
  next
    case (Some x)
    with observed_clock [OF Cons.prems(1) st [unfolded Some]] IH show ?thesis by (auto simp: t(2))
  qed
qed simp

end

end
