(* ===== verification/Operator_Guard.thy ===== *)
theory Operator_Guard
  imports Native_Observer
begin

text \<open>
  \<open>native/operator_guard.py\<close>: the supervisor's private observer of a native operator check. The
  object owns a helper process; \<open>request_check\<close> sends it a sequence number and \<open>receive\<close> accepts the
  one matching answer. \<open>probe\<close> is what \<open>_current\<close> reads of the world: the clock, the identity of
  the process, and whether the peer or the helper became readable.
\<close>

definition MAX_CHECKS :: int where
  "MAX_CHECKS = 1200"

definition CHECK_MS :: int where
  "CHECK_MS = 1000"

datatype phase = NEW | PENDING | OBSERVED | FAILED | CLOSED

datatype event = Close | Fail | Request | Observe

definition advance :: "phase \<Rightarrow> event \<Rightarrow> int \<Rightarrow> (phase \<times> int) res" where
  "advance ph ev sequence =
     (if ev = Close then Inr (CLOSED, sequence)
      else if ev = Fail \<and> ph \<noteq> FAILED \<and> ph \<noteq> CLOSED then Inr (FAILED, sequence)
      else if ev = Request \<and> (ph = NEW \<or> ph = OBSERVED) \<and> 0 \<le> sequence \<and> sequence < MAX_CHECKS then Inr (PENDING, sequence + 1)
      else if ev = Observe \<and> ph = PENDING \<and> 1 \<le> sequence \<and> sequence \<le> MAX_CHECKS then Inr (OBSERVED, sequence)
      else rejected ''operator-check-order'')"

record observation =
  o_sequence :: int
  o_started :: int
  o_finished :: int

text \<open>The object. A descriptor is its number; \<open>child\<close> is the helper's standard input and output.\<close>

record guard =
  owner :: int
  phase :: phase
  sequence :: int
  peer :: "int option"
  peer_pidfd :: int
  pidfd :: int
  child :: "(int \<times> int) option"
  original_deadline :: int
  plan :: pybytes
  request :: pybytes
  sent_at :: int
  next_deadline :: int
  buffer :: pybytes

record probe =
  p_now :: int
  p_pid :: int
  p_uid :: int
  p_euid :: int
  p_ready :: bool

definition step_phase :: "event \<Rightarrow> (unit, guard) proc" where
  "step_phase ev s = (case advance (phase s) ev (sequence s) of
       Inl e \<Rightarrow> (Inl e, s)
     | Inr (ph, n) \<Rightarrow> (Inr (), s\<lparr>phase := ph, sequence := n\<rparr>))"

definition current :: "probe \<Rightarrow> (int, guard) proc" where
  "current p =
     thenS (rejectS (\<lambda>s. owner s \<noteq> p_pid p \<or> p_uid p \<noteq> 0 \<or> p_euid p \<noteq> 0 \<or> phase s = FAILED \<or> phase s = CLOSED
         \<or> p_now p \<ge> original_deadline s \<or> child s = None \<or> peer s = None \<or> min (pidfd s) (peer_pidfd s) < 0)
       ''operator-owner-or-deadline'')
     (thenS (rejectS (\<lambda>_. p_ready p) ''operator-peer-cancelled-or-helper-ended'')
     (thenS (rejectS (\<lambda>s. phase s = PENDING \<and> p_now p \<ge> next_deadline s) ''operator-observation-timeout'')
     (ret (p_now p))))"

text \<open>\<open>except BaseException: if self.phase not in (FAILED, CLOSED): self._step('fail')\<close>, then \<open>raise\<close>.\<close>

definition fail_unless_ended :: "(unit, guard) proc" where
  "fail_unless_ended s = (if phase s \<noteq> FAILED \<and> phase s \<noteq> CLOSED then step_phase Fail s else (Inr (), s))"

definition descriptors :: "probe \<Rightarrow> (int \<times> int \<times> int \<times> int, guard) proc" where
  "descriptors p = exceptS
     (bindS (current p) (\<lambda>_. getS (\<lambda>s. (snd (the (child s)), pidfd s, the (peer s), peer_pidfd s))))
     fail_unless_ended"

text \<open>The result of \<open>os.write\<close> of the eight bytes of the sequence number.\<close>

definition request_check :: "probe \<Rightarrow> int res \<Rightarrow> (unit, guard) proc" where
  "request_check p written = exceptS
     (bindS (current p) (\<lambda>now.
      thenS (modifyS (\<lambda>s. s\<lparr>sent_at := now\<rparr>))
      (thenS (step_phase Request)
      (thenS (modifyS (\<lambda>s. s\<lparr>next_deadline := min (original_deadline s)
           (sent_at s + (if sequence s = 1 then 120000 else CHECK_MS)), buffer := []\<rparr>))
      (bindS (liftS written) (\<lambda>n. rejectS (\<lambda>_. n \<noteq> 8) ''operator-request-write''))))))
     fail_unless_ended"

definition magic :: pybytes where
  "magic = bs ''NIAOPR01''"

definition observe_message :: "probe \<Rightarrow> (observation option, guard) proc" where
  "observe_message p2 =
     thenS (rejectS (\<lambda>s. length (buffer s) \<noteq> 32 \<or> take 8 (buffer s) \<noteq> magic) ''operator-observation-format'')
     (bindS (getS (\<lambda>s. (be_int (slice 8 16 (buffer s)), be_int (slice 16 24 (buffer s)), be_int (slice 24 32 (buffer s)))))
       (\<lambda>(n, started, finished).
     bindS (current p2) (\<lambda>now.
     thenS (rejectS (\<lambda>s. n \<noteq> sequence s \<or> \<not> (sent_at s \<le> started \<and> started \<le> finished \<and> finished \<le> now)
         \<or> now - finished > CHECK_MS) ''operator-observation-context'')
     (thenS (step_phase Observe)
     (thenS (modifyS (\<lambda>s. s\<lparr>buffer := []\<rparr>))
     (ret (Some \<lparr>o_sequence = n, o_started = started, o_finished = finished\<rparr>)))))))"

definition receive :: "probe \<Rightarrow> read_answer \<Rightarrow> probe \<Rightarrow> (observation option, guard) proc" where
  "receive p answer p2 = exceptS
     (bindS (current p) (\<lambda>_.
      thenS (rejectS (\<lambda>s. phase s \<noteq> PENDING) ''operator-no-pending-check'')
      (case answer of
         WouldBlock \<Rightarrow> ret None
       | ReadError e \<Rightarrow> liftS (Inl e)
       | ReadData data \<Rightarrow>
           thenS (rejectS (\<lambda>s. take (33 - length (buffer s)) data = []) ''operator-refused-or-ended'')
           (thenS (modifyS (\<lambda>s. s\<lparr>buffer := buffer s @ take (33 - length (buffer s)) data\<rparr>))
           (bindS (getS (\<lambda>s. length (buffer s) < 32)) (\<lambda>short. if short then ret None else observe_message p2))))))
     fail_unless_ended"

text \<open>
  \<open>close\<close>. Each call may raise; the failures are collected and raised together at the end. \<open>c_streams\<close> are the closings of its open pipes.
\<close>

record closing =
  c_pid :: int
  c_waitid :: "unit res"
  c_killpg :: "unit res"
  c_wait :: "unit res"
  c_streams :: "unit res list"
  c_pidfd :: "unit res"
  c_peer_pidfd :: "unit res"
  c_peer :: "unit res"

definition close_answers :: "closing \<Rightarrow> guard \<Rightarrow> unit res list" where
  "close_answers c s =
     (if child s \<noteq> None \<and> owner s = c_pid c then [reap (c_waitid c) (c_killpg c) (c_wait c)] else []) @
     (if child s \<noteq> None then c_streams c else []) @
     (if pidfd s \<ge> 0 then [c_pidfd c] else []) @
     (if peer_pidfd s \<ge> 0 then [c_peer_pidfd c] else []) @
     (if peer s \<noteq> None then [c_peer c] else [])"

definition close :: "closing \<Rightarrow> (unit, guard) proc" where
  "close c = thenS (step_phase Close)
     (bindS (getS (\<lambda>s. failures (close_answers c s))) (\<lambda>es.
      thenS (modifyS (\<lambda>s. s\<lparr>buffer := [], child := None, pidfd := - 1, peer_pidfd := - 1, peer := None\<rparr>))
      (liftS (close_group ''operator-observer-close-indeterminate'' es))))"

text \<open>
  \<open>__init__\<close>. The answers are those of the first check, of \<open>dup\<close> and the socket options, of
  pinning and starting the helper, of \<open>pidfd_open\<close>, and of the last \<open>_current\<close>.
\<close>

record launch =
  i_pid :: int
  i_uid :: int
  i_euid :: int
  i_now :: int
  i_peer :: "int res"
  i_seqpacket :: bool
  i_peer_pidfd :: "int res"
  i_executable :: "unit res"
  i_child :: "((int \<times> int) option) res"
  i_pidfd :: "int res"
  i_last :: probe
  i_close :: closing

definition context_ok :: "launch \<Rightarrow> pybytes \<Rightarrow> pybytes \<Rightarrow> int \<Rightarrow> bool" where
  "context_ok a pl rq deadline \<longleftrightarrow> i_uid a = 0 \<and> i_euid a = 0 \<and> 0 < deadline - i_now a \<and> deadline - i_now a \<le> 120000
     \<and> deadline \<le> 2 ^ 63 - 1 \<and> identity_bytes 32 pl \<and> identity_bytes 16 rq"

definition start :: "launch \<Rightarrow> (unit, guard) proc" where
  "start a = exceptS
     (bindS (liftS (i_peer a)) (\<lambda>fd. thenS (modifyS (\<lambda>s. s\<lparr>peer := Some fd\<rparr>))
     (thenS (rejectS (\<lambda>_. \<not> i_seqpacket a) ''accepted-seqpacket-required'')
     (bindS (liftS (i_peer_pidfd a)) (\<lambda>pp. thenS (modifyS (\<lambda>s. s\<lparr>peer_pidfd := pp\<rparr>))
     (thenS (liftS (i_executable a))
     (bindS (liftS (i_child a)) (\<lambda>pipes. thenS (modifyS (\<lambda>s. s\<lparr>child := Some (case pipes of Some io \<Rightarrow> io | None \<Rightarrow> (- 1, - 1))\<rparr>))
     (bindS (liftS (i_pidfd a)) (\<lambda>pd. thenS (modifyS (\<lambda>s. s\<lparr>pidfd := pd\<rparr>))
     (thenS (rejectS (\<lambda>_. pipes = None) ''operator-pipes'')
     (bindS (current (i_last a)) (\<lambda>_. ret ())))))))))))))
     (close (i_close a))"

definition fresh :: "launch \<Rightarrow> pybytes \<Rightarrow> pybytes \<Rightarrow> int \<Rightarrow> guard" where
  "fresh a pl rq deadline = \<lparr>owner = i_pid a, phase = NEW, sequence = 0, peer = None, peer_pidfd = - 1, pidfd = - 1,
     child = None, original_deadline = deadline, plan = pl, request = rq, sent_at = 0, next_deadline = 0, buffer = []\<rparr>"

definition operator_guard :: "launch \<Rightarrow> pybytes \<Rightarrow> pybytes \<Rightarrow> int \<Rightarrow> guard res" where
  "operator_guard a pl rq deadline =
     (if \<not> context_ok a pl rq deadline then rejected ''operator-context''
      else case start a (fresh a pl rq deadline) of (Inl e, _) \<Rightarrow> Inl e | (Inr _, s) \<Rightarrow> Inr s)"

text \<open>One operation of the owner, with the answers it gets, and what it hands out.\<close>

datatype action =
    Descriptors probe
  | RequestCheck probe "int res"
  | Receive probe read_answer probe
  | CloseGuard closing

fun guard_step :: "guard \<Rightarrow> action \<Rightarrow> observation option \<times> guard" where
  "guard_step s (Descriptors p) = (None, snd (descriptors p s))"
| "guard_step s (RequestCheck p w) = (None, snd (request_check p w s))"
| "guard_step s (Receive p a p2) =
     ((case fst (receive p a p2 s) of Inr (Some x) \<Rightarrow> Some x | _ \<Rightarrow> None), snd (receive p a p2 s))"
| "guard_step s (CloseGuard c) = (None, snd (close c s))"

section \<open>What one operation guarantees\<close>

definition ended :: "guard \<Rightarrow> bool" where
  "ended s \<longleftrightarrow> phase s = FAILED \<or> phase s = CLOSED"

definition guard_inv :: "guard \<Rightarrow> bool" where
  "guard_inv s \<longleftrightarrow> 0 \<le> sequence s \<and> sequence s \<le> MAX_CHECKS \<and> (phase s = PENDING \<or> phase s = OBSERVED \<longrightarrow> 1 \<le> sequence s)"

lemma current_run: "current p s = (r, t) \<Longrightarrow> t = s"
  by (auto simp: current_def thenS_run bindS_run rejectS_def split: if_splits)

lemma current_ok: "current p s = (Inr now, t) \<longleftrightarrow>
    t = s \<and> now = p_now p \<and> \<not> p_ready p \<and> owner s = p_pid p \<and> p_uid p = 0 \<and> p_euid p = 0 \<and> \<not> ended s
    \<and> p_now p < original_deadline s \<and> child s \<noteq> None \<and> peer s \<noteq> None \<and> 0 \<le> pidfd s \<and> 0 \<le> peer_pidfd s
    \<and> (phase s = PENDING \<longrightarrow> p_now p < next_deadline s)"
  by (auto simp: current_def run_simps ended_def)

lemma fail_unless_ended_run:
  "fail_unless_ended s = (Inr (), if ended s then s else s\<lparr>phase := FAILED\<rparr>)"
  by (auto simp: fail_unless_ended_def step_phase_def advance_def ended_def)

lemma guarded_run: "exceptS m fail_unless_ended s = (r, t) \<longleftrightarrow>
    (\<exists>x. m s = (Inr x, t) \<and> r = Inr x) \<or>
    (\<exists>e s'. m s = (Inl e, s') \<and> r = Inl e \<and> t = (if ended s' then s' else s'\<lparr>phase := FAILED\<rparr>))"
  by (auto simp: exceptS_def fail_unless_ended_run split: prod.splits sum.splits)

lemma observe_run:
  "observe_message p2 s = (r, t) \<Longrightarrow> (\<exists>e. r = Inl e \<and> t = s) \<or>
    (\<exists>x. r = Inr (Some x) \<and> t = s\<lparr>phase := OBSERVED, buffer := []\<rparr> \<and> phase s = PENDING \<and> 1 \<le> sequence s
      \<and> length (buffer s) = 32 \<and> take 8 (buffer s) = magic
      \<and> o_sequence x = be_int (slice 8 16 (buffer s)) \<and> o_started x = be_int (slice 16 24 (buffer s)) \<and> o_finished x = be_int (slice 24 32 (buffer s))
      \<and> o_sequence x = sequence s \<and> sent_at s \<le> o_started x \<and> o_started x \<le> o_finished x \<and> o_finished x \<le> p_now p2
      \<and> p_now p2 - o_finished x \<le> CHECK_MS \<and> p_now p2 < next_deadline s \<and> p_now p2 < original_deadline s \<and> \<not> p_ready p2)"
  unfolding observe_message_def
  by (auto simp: thenS_run bindS_run rejectS_def step_phase_def advance_def rejected_def current_ok dest: current_run split: if_splits)

text \<open>The state after an operation that handed nothing out: at most the buffer moved, or the object was poisoned.\<close>

definition settled :: "guard \<Rightarrow> guard \<Rightarrow> bool" where
  "settled s t \<longleftrightarrow> (\<exists>b. t = s\<lparr>buffer := b\<rparr> \<or> t = s\<lparr>buffer := b, phase := FAILED\<rparr>)"

lemma settled_refl [simp]: "settled s s" "settled s (s\<lparr>buffer := b\<rparr>)" "settled s (s\<lparr>phase := FAILED\<rparr>)"
    "settled s (s\<lparr>buffer := b, phase := FAILED\<rparr>)"
proof -
  show "settled s s" unfolding settled_def by (rule exI [of _ "buffer s"]) simp
  show "settled s (s\<lparr>phase := FAILED\<rparr>)" unfolding settled_def by (rule exI [of _ "buffer s"]) simp
qed (auto simp: settled_def)

text \<open>What the observation that a message yields asserts about the state before the read.\<close>

definition admitted :: "guard \<Rightarrow> probe \<Rightarrow> pybytes \<Rightarrow> observation \<Rightarrow> bool" where
  "admitted s p2 message x \<longleftrightarrow> phase s = PENDING \<and> 1 \<le> sequence s
     \<and> length message = 32 \<and> take 8 message = magic
     \<and> o_sequence x = be_int (slice 8 16 message) \<and> o_started x = be_int (slice 16 24 message)
     \<and> o_finished x = be_int (slice 24 32 message)
     \<and> o_sequence x = sequence s \<and> sent_at s \<le> o_started x \<and> o_started x \<le> o_finished x \<and> o_finished x \<le> p_now p2
     \<and> p_now p2 - o_finished x \<le> CHECK_MS \<and> p_now p2 < next_deadline s \<and> p_now p2 < original_deadline s \<and> \<not> p_ready p2"

lemma operator_observe_cases:
  assumes "observe_message p2 s = (r, t)"
  obtains e where "r = Inl e" "t = s"
  | x where "r = Inr (Some x)" "t = s\<lparr>phase := OBSERVED, buffer := []\<rparr>" "admitted s p2 (buffer s) x"
  using observe_run [OF assms] unfolding admitted_def by metis

lemma receive_run:
  assumes "receive p a p2 s = (r, t)"
  shows "(\<exists>e. r = Inl e \<and> ended t \<and> settled s t) \<or> (r = Inr None \<and> settled s t \<and> phase t = phase s) \<or>
     (\<exists>x data. r = Inr (Some x) \<and> a = ReadData data \<and> t = s\<lparr>phase := OBSERVED, buffer := []\<rparr>
        \<and> \<not> ended s \<and> owner s = p_pid p \<and> admitted s p2 (buffer s @ take (33 - length (buffer s)) data) x)"
proof (cases "current p s")
  case (Pair c s0)
  then have s0 [simp]: "s0 = s" by (rule current_run)
  note run = assms [unfolded receive_def guarded_run bindS_run thenS_run, simplified Pair]
  show ?thesis
  proof (cases c)
    case (Inl e)
    then show ?thesis using run by (auto simp: ended_def)
  next
    case (Inr now)
    then have cur: "\<not> ended s" "owner s = p_pid p" using Pair by (auto simp: current_ok)
    show ?thesis
    proof (cases a)
      case (ReadData data)
      define s1 where "s1 = s\<lparr>buffer := buffer s @ take (33 - length (buffer s)) data\<rparr>"
      have adm: "admitted s1 p2 (buffer s1) x = admitted s p2 (buffer s1) x" for x
        by (simp add: s1_def admitted_def)
      have st: "settled s s1" "settled s (s1\<lparr>phase := FAILED\<rparr>)" "ended s1 = ended s" "phase s1 = phase s"
        "s1\<lparr>phase := OBSERVED, buffer := []\<rparr> = s\<lparr>phase := OBSERVED, buffer := []\<rparr>"
        by (auto simp: s1_def ended_def)
      show ?thesis
      proof (cases "phase s = PENDING \<and> take (33 - length (buffer s)) data \<noteq> [] \<and> \<not> length (buffer s1) < 32")
        case True
        obtain r1 t1 where obs: "observe_message p2 s1 = (r1, t1)" by fastforce
        have "(\<exists>x. r1 = Inr x \<and> t = t1 \<and> r = Inr x) \<or> (\<exists>e. r1 = Inl e \<and> r = Inl e \<and> t = (if ended t1 then t1 else t1\<lparr>phase := FAILED\<rparr>))"
          using run True obs Inr ReadData by (auto simp: thenS_run bindS_run rejectS_def s1_def)
        with obs show ?thesis
          by (cases rule: operator_observe_cases) (use cur ReadData st adm in \<open>auto simp: s1_def ended_def\<close>)
      next
        case False
        then consider "phase s \<noteq> PENDING" | "phase s = PENDING" "take (33 - length (buffer s)) data = []"
          | "phase s = PENDING" "take (33 - length (buffer s)) data \<noteq> []" "length (buffer s1) < 32"
          by blast
        then have "(\<exists>e. r = Inl e \<and> t = s\<lparr>phase := FAILED\<rparr>) \<or> (r = Inr None \<and> t = s1)"
        proof cases
          case 1
          then show ?thesis using run Inr ReadData cur by (simp add: thenS_run bindS_run rejectS_def rejected_def)
        next
          case 2
          then show ?thesis using run Inr ReadData cur by (simp add: thenS_run bindS_run rejectS_def rejected_def)
        next
          case 3
          then have "length (buffer s) + length data < 32" by (simp add: s1_def split: if_splits)
          with 3 show ?thesis using run Inr ReadData cur
            by (simp add: thenS_run bindS_run rejectS_def rejected_def s1_def)
        qed
        then show ?thesis using st by (auto simp: ended_def)
      qed
    qed (use run Inr cur in \<open>auto simp: rejectS_def rejected_def ended_def split: if_splits\<close>)
  qed
qed

lemma descriptors_run:
  "descriptors p s = (r, t) \<Longrightarrow> (\<exists>e. r = Inl e \<and> ended t \<and> settled s t) \<or> (\<exists>x. r = Inr x \<and> t = s)"
  using current_run [of p s]
  by (cases "current p s"; cases "fst (current p s)")
    (auto simp: descriptors_def guarded_run bindS_run ended_def)

text \<open>\<open>asked\<close> is the state once the request for the next number was recorded.\<close>

definition asked :: "guard \<Rightarrow> int \<Rightarrow> guard" where
  "asked s now = s\<lparr>sent_at := now, phase := PENDING, sequence := sequence s + 1,
     next_deadline := min (original_deadline s) (now + (if sequence s = 0 then 120000 else CHECK_MS)), buffer := []\<rparr>"

lemma step_request: "step_phase Request s =
    (if (phase s = NEW \<or> phase s = OBSERVED) \<and> 0 \<le> sequence s \<and> sequence s < MAX_CHECKS
     then (Inr (), s\<lparr>phase := PENDING, sequence := sequence s + 1\<rparr>)
     else (Inl (Rejected (u ''operator-check-order'')), s))"
  by (auto simp: step_phase_def advance_def rejected_def)

lemma request_run:
  assumes "request_check p w s = (r, t)"
  shows "(\<exists>e. r = Inl e \<and> ended t \<and> sequence t = sequence s) \<or>
     (((phase s = NEW \<or> phase s = OBSERVED) \<and> 0 \<le> sequence s \<and> sequence s < MAX_CHECKS) \<and>
      ((\<exists>e. r = Inl e \<and> t = (asked s (p_now p))\<lparr>phase := FAILED\<rparr>) \<or> (w = Inr 8 \<and> r = Inr () \<and> t = asked s (p_now p))))"
    (is "?failed \<or> ?ok \<and> ?asked")
proof -
  define body where "body = (bindS (current p) (\<lambda>now.
      thenS (modifyS (\<lambda>s. s\<lparr>sent_at := now\<rparr>))
      (thenS (step_phase Request)
      (thenS (modifyS (\<lambda>s. s\<lparr>next_deadline := min (original_deadline s)
           (sent_at s + (if sequence s = 1 then 120000 else CHECK_MS)), buffer := []\<rparr>))
      (bindS (liftS w) (\<lambda>n. rejectS (\<lambda>_. n \<noteq> 8) ''operator-request-write''))))))"
  have "exceptS body fail_unless_ended s = (r, t)"
    using assms by (simp add: request_check_def body_def)
  then consider x where "body s = (Inr x, t)" "r = Inr x"
    | e s' where "body s = (Inl e, s')" "r = Inl e" "t = (if ended s' then s' else s'\<lparr>phase := FAILED\<rparr>)"
    unfolding guarded_run by blast
  then show ?thesis
  proof cases
    case 1
    from 1(1) have "?ok" "w = Inr 8" "t = asked s (p_now p)"
      unfolding body_def by (auto simp: run_simps current_ok step_request asked_def split: if_splits)
    then show ?thesis using 1(2) by simp
  next
    case 2
    have "(s' = s \<or> s' = s\<lparr>sent_at := p_now p\<rparr>) \<or> (?ok \<and> s' = asked s (p_now p))"
    proof (cases "current p s")
      case (Pair c s0)
      then have s0: "s0 = s" by (rule current_run)
      show ?thesis
      proof (cases c)
        case (Inl e')
        then show ?thesis using 2(1) Pair s0 by (simp add: body_def bindS_def)
      next
        case (Inr now)
        then have cur: "current p s = (Inr (p_now p), s)" using Pair by (simp add: current_ok)
        show ?thesis
        proof (cases ?ok)
          case True
          then have "body s = (case w of Inl e' \<Rightarrow> (Inl e', asked s (p_now p))
              | Inr n \<Rightarrow> rejectS (\<lambda>_. n \<noteq> 8) ''operator-request-write'' (asked s (p_now p)))"
            by (simp add: body_def bindS_def thenS_def modifyS_def liftS_def cur step_request asked_def split: sum.split)
          then have "s' = asked s (p_now p)"
            using 2(1) by (auto simp: rejectS_def split: sum.splits if_splits)
          then show ?thesis using True by blast
        next
          case False
          then have "step_phase Request (s\<lparr>sent_at := p_now p\<rparr>) = (Inl (Rejected (u ''operator-check-order'')), s\<lparr>sent_at := p_now p\<rparr>)"
            by (subst step_request) auto
          then have "body s = (Inl (Rejected (u ''operator-check-order'')), s\<lparr>sent_at := p_now p\<rparr>)"
            by (simp add: body_def bindS_def thenS_def modifyS_def cur)
          then show ?thesis using 2(1) by simp
        qed
      qed
    qed
    then show ?thesis using 2(2,3) by (auto simp: ended_def asked_def)
  qed
qed

definition shut :: "guard \<Rightarrow> guard" where
  "shut s = s\<lparr>phase := CLOSED, buffer := [], child := None, pidfd := - 1, peer_pidfd := - 1, peer := None\<rparr>"

lemma close_run: "close c s = (r, t) \<longleftrightarrow> t = shut s \<and>
    r = close_group ''operator-observer-close-indeterminate'' (failures (close_answers c s))"
  by (auto simp: close_def thenS_run bindS_run step_phase_def advance_def shut_def close_answers_def)

lemma settled_inv: "settled s t \<Longrightarrow> guard_inv s \<Longrightarrow> guard_inv t \<and> sequence t = sequence s"
  by (auto simp: settled_def guard_inv_def)

lemma guard_step_cases:
  assumes "guard_inv s" "guard_step s i = (r, t)"
  shows "guard_inv t \<and>
    (case r of
       Some x \<Rightarrow> phase s = PENDING \<and> o_sequence x = sequence s \<and> sequence t = sequence s \<and> phase t = OBSERVED
     | None \<Rightarrow> (sequence t = sequence s \<and> (phase t = PENDING \<longrightarrow> phase s = PENDING)) \<or> sequence t = sequence s + 1) \<and>
    (ended s \<longrightarrow> ended t \<and> r = None)"
proof (cases i)
  case (Descriptors p)
  with assms show ?thesis
    using descriptors_run [of p s "fst (descriptors p s)" "snd (descriptors p s)"] settled_inv [of s t]
    by (auto simp: ended_def)
next
  case (RequestCheck p w)
  then have t: "t = snd (request_check p w s)" "r = None" using assms by auto
  from request_run [of p w s "fst (request_check p w s)" t] t
  consider "ended t" "sequence t = sequence s"
    | "phase s = NEW \<or> phase s = OBSERVED" "0 \<le> sequence s" "sequence s < MAX_CHECKS"
      "t = (asked s (p_now p))\<lparr>phase := FAILED\<rparr> \<or> t = asked s (p_now p)"
    by auto
  then show ?thesis
    using assms(1) t(2) by cases (auto simp: ended_def guard_inv_def asked_def)
next
  case (Receive p a p2)
  then have t: "t = snd (receive p a p2 s)" and r: "r = (case fst (receive p a p2 s) of Inr (Some x) \<Rightarrow> Some x | _ \<Rightarrow> None)"
    using assms by auto
  obtain v where v: "receive p a p2 s = (v, t)" using t by (cases "receive p a p2 s") simp
  consider (none) "r = None" "settled s t" "phase t = phase s \<or> ended t"
    | (some) x where "r = Some x" "t = s\<lparr>phase := OBSERVED, buffer := []\<rparr>" "\<not> ended s"
      "o_sequence x = sequence s" "phase s = PENDING"
    using receive_run [OF v] v r unfolding admitted_def by (elim disjE exE conjE) simp_all
  then show ?thesis
  proof cases
    case none
    then show ?thesis using settled_inv [OF none(2) assms(1)] by (auto simp: ended_def)
  next
    case some
    then show ?thesis using assms(1) by (simp add: ended_def guard_inv_def)
  qed
next
  case (CloseGuard c)
  with assms show ?thesis
    using close_run [of c s "fst (close c s)" t] by (auto simp: ended_def guard_inv_def shut_def)
qed

interpretation operator: observer guard_step guard_inv sequence "\<lambda>s. phase s = PENDING" ended o_sequence MAX_CHECKS
proof unfold_locales
  fix s s' :: guard and i r and x :: observation
  assume inv: "guard_inv s"
  show "0 \<le> sequence s \<and> sequence s \<le> MAX_CHECKS" using inv by (simp add: guard_inv_def)
  show "phase s = PENDING \<Longrightarrow> 1 \<le> sequence s" using inv by (simp add: guard_inv_def)
  show "guard_inv s'" if "guard_step s i = (r, s')"
    using guard_step_cases [OF inv that] by simp
  show "phase s = PENDING \<and> \<not> ended s \<and> o_sequence x = sequence s \<and> sequence s' = sequence s \<and> phase s' \<noteq> PENDING"
    if "guard_step s i = (Some x, s')"
    using guard_step_cases [OF inv that] by (auto simp: ended_def)
  show "(sequence s' = sequence s \<and> (phase s' = PENDING \<longrightarrow> phase s = PENDING)) \<or> sequence s' = sequence s + 1"
    if "guard_step s i = (None, s')"
    using guard_step_cases [OF inv that] by simp
  show "ended s' \<and> r = None" if "ended s" "guard_step s i = (r, s')"
    using guard_step_cases [OF inv that(2)] that(1) by simp
qed

section \<open>When an observation is handed out\<close>

text \<open>The object is live for its owner at the moment of the probe.\<close>

definition live :: "probe \<Rightarrow> guard \<Rightarrow> bool" where
  "live p s \<longleftrightarrow> \<not> p_ready p \<and> owner s = p_pid p \<and> p_uid p = 0 \<and> p_euid p = 0 \<and> \<not> ended s
    \<and> p_now p < original_deadline s \<and> child s \<noteq> None \<and> peer s \<noteq> None \<and> 0 \<le> pidfd s \<and> 0 \<le> peer_pidfd s
    \<and> (phase s = PENDING \<longrightarrow> p_now p < next_deadline s)"

lemma current_live: "current p s = (Inr now, t) \<longleftrightarrow> t = s \<and> now = p_now p \<and> live p s"
  by (auto simp: current_ok live_def)

lemma live_buffer [simp]: "live p (s\<lparr>buffer := b\<rparr>) = live p s"
  by (simp add: live_def ended_def)

lemma receive_observed:
  "(receive p (ReadData data) p2 s = (Inr (Some x), t)) =
   (let message = buffer s @ take (33 - length (buffer s)) data in
      live p s \<and> live p2 s \<and> phase s = PENDING \<and> 1 \<le> sequence s \<and> sequence s \<le> MAX_CHECKS \<and> length (buffer s) < 33 \<and> data \<noteq> []
      \<and> length message = 32 \<and> take 8 message = magic
      \<and> x = \<lparr>o_sequence = sequence s, o_started = be_int (slice 16 24 message), o_finished = be_int (slice 24 32 message)\<rparr>
      \<and> be_int (slice 8 16 message) = sequence s
      \<and> sent_at s \<le> o_started x \<and> o_started x \<le> o_finished x \<and> o_finished x \<le> p_now p2 \<and> p_now p2 - o_finished x \<le> CHECK_MS
      \<and> t = s\<lparr>phase := OBSERVED, buffer := []\<rparr>)"
proof -
  have step: "step_phase Observe s' = (Inr (), t') \<longleftrightarrow> phase s' = PENDING \<and> 1 \<le> sequence s' \<and> sequence s' \<le> MAX_CHECKS \<and> t' = s'\<lparr>phase := OBSERVED\<rparr>" for s' t'
    by (auto simp: step_phase_def advance_def rejected_def)
  have obs: "observe_message p2 s' = (Inr (Some x), t) \<longleftrightarrow>
      length (buffer s') = 32 \<and> take 8 (buffer s') = magic \<and> live p2 s' \<and> phase s' = PENDING \<and> 1 \<le> sequence s' \<and> sequence s' \<le> MAX_CHECKS
      \<and> x = \<lparr>o_sequence = sequence s', o_started = be_int (slice 16 24 (buffer s')), o_finished = be_int (slice 24 32 (buffer s'))\<rparr>
      \<and> be_int (slice 8 16 (buffer s')) = sequence s'
      \<and> sent_at s' \<le> o_started x \<and> o_started x \<le> o_finished x \<and> o_finished x \<le> p_now p2 \<and> p_now p2 - o_finished x \<le> CHECK_MS
      \<and> t = s'\<lparr>phase := OBSERVED, buffer := []\<rparr>" for s'
    unfolding observe_message_def by (simp add: run_simps current_live step) auto
  have short: "(if b then ret None else observe_message p2) s' = (Inr (Some x), t) \<longleftrightarrow> \<not> b \<and> observe_message p2 s' = (Inr (Some x), t)" for b s'
    by (cases b) auto
  show ?thesis
    unfolding receive_def Let_def by (simp add: run_simps current_live short obs) auto
qed

lemma request_live:
  assumes "live p s" "phase s = NEW \<or> phase s = OBSERVED" "0 \<le> sequence s" "sequence s < MAX_CHECKS"
  shows "request_check p w s = (case w of
      Inl e \<Rightarrow> (Inl e, (asked s (p_now p))\<lparr>phase := FAILED\<rparr>)
    | Inr n \<Rightarrow> if n = 8 then (Inr (), asked s (p_now p)) else (rejected ''operator-request-write'', (asked s (p_now p))\<lparr>phase := FAILED\<rparr>))"
proof -
  have "current p s = (Inr (p_now p), s)" using assms(1) by (simp add: current_live)
  then show ?thesis using assms(2-)
    by (simp add: request_check_def exceptS_def bindS_def thenS_def modifyS_def liftS_def rejectS_def step_request fail_unless_ended_run
        asked_def ended_def rejected_def split: sum.split)
qed

section \<open>Properties of every run\<close>

lemma close_phase: "ended (snd (close c s))"
  using close_run [of c s] by (metis ended_def guard.select_convs(2) guard.surjective guard.update_convs shut_def prod.collapse)

definition started :: "guard \<Rightarrow> bool" where
  "started s \<longleftrightarrow> phase s = NEW \<and> sequence s = 0"

lemma exceptS_body: "exceptS m h s = (Inr x, t) \<Longrightarrow> ends P m P \<Longrightarrow> P s \<Longrightarrow> P t"
  by (auto simp: exceptS_ok dest: endsD)

lemma ends_current: "(\<And>s. P s \<Longrightarrow> Q s) \<Longrightarrow> ends P (current p) Q"
  by (rule endsI) (auto dest: current_run)

lemma operator_guard_started:
  assumes "operator_guard a pl rq deadline = Inr g"
  shows "started g \<and> guard_inv g"
proof -
  from assms have st: "start a (fresh a pl rq deadline) = (Inr (), g)"
    by (auto simp: operator_guard_def rejected_def split: if_splits prod.splits sum.splits)
  have "started g"
    by (rule exceptS_body [OF st [unfolded start_def]];
      (intro ends_bindS ends_thenS ends_liftS ends_modifyS ends_rejectS ends_ret ends_current)?)
      (auto simp: started_def fresh_def)
  then show ?thesis by (simp add: started_def guard_inv_def MAX_CHECKS_def)
qed

text \<open>C20: Whatever the operations of a run of the operator guard are, in whatever order, and whatever the helper, the
  peer and the clock answer: the observations handed out carry strictly increasing numbers between 1
  and 1200, and once the object failed or was closed it hands out none.\<close>

theorem operator_run_safe:
  assumes "operator_guard a pl rq deadline = Inr g" "run_of guard_step g is = (obs, t)"
  shows "sorted_wrt (<) (map o_sequence obs) \<and> int (length obs) \<le> 1200 \<and> (\<forall>x \<in> set obs. 1 \<le> o_sequence x \<and> o_sequence x \<le> 1200)
     \<and> (ended t \<longrightarrow> fst (run_of guard_step t js) = [])"
proof -
  have inv: "guard_inv g" using operator_guard_started [OF assms(1)] by simp
  have inv_t: "guard_inv t" using operator.inv_run [OF inv, of "is"] assms(2) by simp
  show ?thesis
    using operator.run_numbers [OF inv assms(2)] operator.run_bounded [OF inv assms(2)] operator.dead_run [OF inv_t, of js]
    by (cases "run_of guard_step t js") (auto simp: MAX_CHECKS_def)
qed

text \<open>C93: An operation of the operator guard that raises leaves the object failed or closed, and on a failed or closed object
  every operation but \<open>close\<close> raises.\<close>

theorem operator_raise_poisons:
  "(is_ok (fst (descriptors p s)) \<or> ended (snd (descriptors p s))) \<and>
   (is_ok (fst (request_check p w s)) \<or> ended (snd (request_check p w s))) \<and>
   (is_ok (fst (receive p a p2 s)) \<or> ended (snd (receive p a p2 s))) \<and>
   ended (snd (close c s)) \<and>
   \<not> (ended s \<and> (is_ok (fst (descriptors p s)) \<or> is_ok (fst (request_check p w s)) \<or> is_ok (fst (receive p a p2 s))))"
proof (intro conjI)
  obtain r t where d: "descriptors p s = (r, t)" by fastforce
  obtain r' t' where q: "request_check p w s = (r', t')" by fastforce
  obtain r'' t'' where v: "receive p a p2 s = (r'', t'')" by fastforce
  show "is_ok (fst (descriptors p s)) \<or> ended (snd (descriptors p s))"
    using descriptors_run [OF d] d by auto
  show "is_ok (fst (request_check p w s)) \<or> ended (snd (request_check p w s))"
    using request_run [OF q] q by (auto simp: ended_def)
  show "is_ok (fst (receive p a p2 s)) \<or> ended (snd (receive p a p2 s))"
    using receive_run [OF v] v by auto
  show "ended (snd (close c s))" by (rule close_phase)
  have "\<not> is_ok (fst (current p s))" if "ended s"
    using that by (cases "current p s"; cases "fst (current p s)") (auto simp: current_ok)
  then obtain e where "current p s = (Inl e, s)" if "ended s"
    using current_run [of p s] by (cases "current p s"; cases "fst (current p s)") auto
  then show "\<not> (ended s \<and> (is_ok (fst (descriptors p s)) \<or> is_ok (fst (request_check p w s)) \<or> is_ok (fst (receive p a p2 s))))"
    by (auto simp: descriptors_def request_check_def receive_def exceptS_def bindS_def fail_unless_ended_run)
qed

text \<open>C94: \<open>receive\<close> hands out an observation in exactly one situation: a check is pending, the object is live before
  and after the read, the 32 bytes read since the request are the magic and the three numbers of the
  observation, its number is the one asked for, and it was made after the request, is not from the
  future and is at most a second old. Then the object is observed, with an empty buffer.\<close>

theorem receive_exact:
  "(receive p (ReadData data) p2 s = (Inr (Some x), t)) =
   (let message = buffer s @ take (33 - length (buffer s)) data in
      live p s \<and> live p2 s \<and> phase s = PENDING \<and> 1 \<le> sequence s \<and> sequence s \<le> MAX_CHECKS \<and> length (buffer s) < 33 \<and> data \<noteq> []
      \<and> length message = 32 \<and> take 8 message = magic
      \<and> x = \<lparr>o_sequence = sequence s, o_started = be_int (slice 16 24 message), o_finished = be_int (slice 24 32 message)\<rparr>
      \<and> be_int (slice 8 16 message) = sequence s
      \<and> sent_at s \<le> o_started x \<and> o_started x \<le> o_finished x \<and> o_finished x \<le> p_now p2 \<and> p_now p2 - o_finished x \<le> CHECK_MS
      \<and> t = s\<lparr>phase := OBSERVED, buffer := []\<rparr>)"
  by (rule receive_observed)

definition example_probe :: "int \<Rightarrow> probe" where
  "example_probe now = \<lparr>p_now = now, p_pid = 7, p_uid = 0, p_euid = 0, p_ready = False\<rparr>"

definition example_launch :: launch where
  "example_launch = \<lparr>i_pid = 7, i_uid = 0, i_euid = 0, i_now = 1000, i_peer = Inr 3, i_seqpacket = True, i_peer_pidfd = Inr 4,
     i_executable = Inr (), i_child = Inr (Some (5, 6)), i_pidfd = Inr 8, i_last = example_probe 1001,
     i_close = \<lparr>c_pid = 7, c_waitid = Inr (), c_killpg = Inr (), c_wait = Inr (), c_streams = [], c_pidfd = Inr (), c_peer_pidfd = Inr (), c_peer = Inr ()\<rparr>\<rparr>"

definition example_guard :: guard where
  "example_guard = \<lparr>owner = 7, phase = NEW, sequence = 0, peer = Some 3, peer_pidfd = 4, pidfd = 8, child = Some (5, 6),
     original_deadline = 9000, plan = replicate 32 1, request = replicate 16 1, sent_at = 0, next_deadline = 0, buffer = []\<rparr>"

definition example_answer :: pybytes where
  "example_answer = magic @ be64 1 @ be64 1010 @ be64 1011"

lemma example_launch_run:
  "operator_guard example_launch (replicate 32 1) (replicate 16 1) 9000 = Inr example_guard"
  by (simp add: operator_guard_def context_ok_def identity_bytes_def list_ex_iff start_def exceptS_def bindS_def run_eqs current_def
      example_launch_def example_probe_def example_guard_def fresh_def)

lemma example_message: "slice 8 16 example_answer = be64 1" "slice 16 24 example_answer = be64 1010"
    "slice 24 32 example_answer = be64 1011" "take 8 example_answer = magic" "length example_answer = 32" "example_answer \<noteq> []"
  by code_simp+

definition example_run :: "action list" where
  "example_run = [RequestCheck (example_probe 1005) (Inr 8), Receive (example_probe 1020) (ReadData example_answer) (example_probe 1021),
     RequestCheck (example_probe 1030) (Inr 3), Descriptors (example_probe 1031)]"

definition example_observed :: guard where
  "example_observed = (asked example_guard 1005)\<lparr>phase := OBSERVED\<rparr>"

lemma example_guard_run:
  "run_of guard_step example_guard example_run
   = ([\<lparr>o_sequence = 1, o_started = 1010, o_finished = 1011\<rparr>], (asked example_observed 1030)\<lparr>phase := FAILED\<rparr>)"
proof -
  have 1: "request_check (example_probe 1005) (Inr 8) example_guard = (Inr (), asked example_guard 1005)"
    by (subst request_live) (simp_all add: example_guard_def example_probe_def live_def ended_def MAX_CHECKS_def)
  have 2: "receive (example_probe 1020) (ReadData example_answer) (example_probe 1021) (asked example_guard 1005)
      = (Inr (Some \<lparr>o_sequence = 1, o_started = 1010, o_finished = 1011\<rparr>), example_observed)"
    unfolding receive_observed Let_def
    by (simp add: example_guard_def example_probe_def live_def ended_def MAX_CHECKS_def CHECK_MS_def asked_def example_message be_int_be64
        example_observed_def)
  have 3: "request_check (example_probe 1030) (Inr 3) example_observed = (rejected ''operator-request-write'', (asked example_observed 1030)\<lparr>phase := FAILED\<rparr>)"
    by (subst request_live) (simp_all add: example_guard_def example_probe_def live_def ended_def MAX_CHECKS_def CHECK_MS_def asked_def example_observed_def)
  have 4: "descriptors (example_probe 1031) (s\<lparr>phase := FAILED\<rparr>) = (rejected ''operator-owner-or-deadline'', s\<lparr>phase := FAILED\<rparr>)" for s
    by (simp add: descriptors_def exceptS_def bindS_def thenS_def current_def rejectS_def rejected_def fail_unless_ended_run ended_def)
  show ?thesis by (simp add: example_run_def 1 2 3 4)
qed

theorem operator_run_safe_witness:
  "\<exists>obs t. run_of guard_step example_guard example_run = (obs, t)
     \<and> map o_sequence obs = [1] \<and> ended t \<and> fst (run_of guard_step t [RequestCheck (example_probe 1032) (Inr 8)]) = []"
  using operator_run_safe [OF example_launch_run example_guard_run, of "[RequestCheck (example_probe 1032) (Inr 8)]"]
  by (simp add: example_guard_run ended_def)

end
