(* ===== verification/Supply_Guard.thy ===== *)
theory Supply_Guard
  imports Native_Observer Nia_Common
begin

text \<open>
  \<open>native/supply_guard.py\<close>: the observer of the supply during a held root operation. \<open>binding\<close> is what
  every observation must be about; its digest comes back in every answer. The numbered requests are
  those of the operator guard, and the observed time may never run backwards.
\<close>

definition CHECK_MS :: int where
  "CHECK_MS = 1000"

definition MAX_CHECKS :: int where
  "MAX_CHECKS = 1200"

datatype phase = NEW | PENDING | OBSERVED | FAILED | CLOSED

section \<open>The binding\<close>

record binding =
  generation :: pybytes
  root :: pybytes
  transaction :: pybytes
  plan :: pybytes
  retained_policy :: pybytes
  supply_map :: pybytes
  policy_hash :: pybytes
  floor_hash :: pybytes
  minimum_utc :: int
  deadline :: int

definition binding_values :: "binding \<Rightarrow> pybytes list" where
  "binding_values b = [generation b, root b, transaction b, plan b, retained_policy b, supply_map b, policy_hash b, floor_hash b]"

definition arguments :: "binding \<Rightarrow> pystr list res" where
  "arguments b =
     (if list_ex (\<lambda>(i, v). \<not> identity_bytes (if i = 1 \<or> i = 2 then 16 else 32) v) (zip [0..<8] (binding_values b))
      then rejected ''supply-binding-identity''
      else if \<not> (0 < minimum_utc b \<and> minimum_utc b \<le> 2 ^ 53 - 1) \<or> \<not> (0 < deadline b \<and> deadline b < 2 ^ 63 - 1)
      then rejected ''supply-binding-clock''
      else Inr (map hex_of (binding_values b) @ [str_int (minimum_utc b), str_int (deadline b)]))"

definition binding_message :: "binding \<Rightarrow> pybytes" where
  "binding_message b = bs ''NIASUPB1'' @ concat (binding_values b) @ be64 (minimum_utc b) @ be64 (deadline b)"

definition digest :: "binding \<Rightarrow> pybytes res" where
  "digest b = bindE (arguments b) (\<lambda>_. Inr (sha256 (binding_message b)))"

section \<open>The object\<close>

record observation =
  o_sequence :: int
  o_started :: int
  o_finished :: int
  o_utc :: int

record guard =
  owner :: int
  bound :: binding
  phase :: phase
  sequence :: int
  child :: "(int \<times> int) option"
  pidfd :: int
  sent_at :: int
  next_deadline :: int
  last_utc :: int
  expected :: pybytes
  buffer :: pybytes

text \<open>What \<open>_current\<close> reads; \<open>p_ended\<close> and \<open>p_data\<close> are the readiness of the pidfd and of the output.\<close>

record probe =
  p_now :: int
  p_pid :: int
  p_uid :: int
  p_euid :: int
  p_ended :: bool
  p_data :: bool

definition fail :: "(unit, guard) proc" where
  "fail = modifyS (\<lambda>s. if phase s \<noteq> CLOSED then s\<lparr>phase := FAILED\<rparr> else s)"

definition current :: "probe \<Rightarrow> (int, guard) proc" where
  "current p =
     thenS (rejectS (\<lambda>s. owner s \<noteq> p_pid p \<or> p_uid p \<noteq> 0 \<or> p_euid p \<noteq> 0 \<or> phase s = FAILED \<or> phase s = CLOSED
         \<or> p_now p \<ge> deadline (bound s) \<or> child s = None \<or> pidfd s < 0)
       ''supply-observer-owner-or-ended'')
     (thenS (rejectS (\<lambda>s. p_ended p \<or> (phase s \<noteq> PENDING \<and> p_data p)) ''supply-observer-ended-or-unsolicited-data'')
     (thenS (rejectS (\<lambda>s. phase s = PENDING \<and> p_now p \<ge> next_deadline s) ''supply-observation-timeout'')
     (ret (p_now p))))"

definition descriptors :: "probe \<Rightarrow> (int \<times> int, guard) proc" where
  "descriptors p = exceptS (bindS (current p) (\<lambda>_. getS (\<lambda>s. (snd (the (child s)), pidfd s)))) fail"

definition request_check :: "probe \<Rightarrow> int res \<Rightarrow> (unit, guard) proc" where
  "request_check p written = exceptS
     (bindS (current p) (\<lambda>now.
      thenS (modifyS (\<lambda>s. s\<lparr>sent_at := now\<rparr>))
      (thenS (rejectS (\<lambda>s. (phase s \<noteq> NEW \<and> phase s \<noteq> OBSERVED) \<or> sequence s \<ge> MAX_CHECKS) ''supply-observation-order'')
      (thenS (modifyS (\<lambda>s. s\<lparr>sequence := sequence s + 1, phase := PENDING,
           next_deadline := min (deadline (bound s)) (sent_at s + CHECK_MS), buffer := []\<rparr>))
      (bindS (liftS written) (\<lambda>n. rejectS (\<lambda>_. n \<noteq> 8) ''supply-observation-request-write''))))))
     fail"

definition magic :: pybytes where
  "magic = bs ''NIASUP01''"

text \<open>The part of \<open>receive\<close> that reads a full buffer; \<open>p2\<close> and \<open>p3\<close> are its two further probes.\<close>

definition observe_message :: "probe \<Rightarrow> probe \<Rightarrow> (observation option, guard) proc" where
  "observe_message p2 p3 =
     thenS (rejectS (\<lambda>s. length (buffer s) \<noteq> 72 \<or> take 8 (buffer s) \<noteq> magic \<or> slice 32 64 (buffer s) \<noteq> expected s)
       ''supply-observation-format-or-binding'')
     (bindS (getS (\<lambda>s. \<lparr>o_sequence = be_int (slice 8 16 (buffer s)), o_started = be_int (slice 16 24 (buffer s)),
          o_finished = be_int (slice 24 32 (buffer s)), o_utc = be_int (slice 64 72 (buffer s))\<rparr>)) (\<lambda>x.
     bindS (current p2) (\<lambda>now.
     thenS (rejectS (\<lambda>s. o_sequence x \<noteq> sequence s \<or> \<not> (sent_at s \<le> o_started x \<and> o_started x \<le> o_finished x \<and> o_finished x \<le> now)
         \<or> now - o_finished x > CHECK_MS \<or> \<not> (last_utc s \<le> o_utc x \<and> o_utc x \<le> 2 ^ 53 - 1))
       ''supply-observation-clock-or-sequence'')
     (thenS (modifyS (\<lambda>s. s\<lparr>phase := OBSERVED, last_utc := o_utc x, buffer := []\<rparr>))
     (bindS (current p3) (\<lambda>_. ret (Some x)))))))"

definition receive :: "probe \<Rightarrow> read_answer \<Rightarrow> probe \<Rightarrow> probe \<Rightarrow> (observation option, guard) proc" where
  "receive p answer p2 p3 = exceptS
     (bindS (current p) (\<lambda>_.
      thenS (rejectS (\<lambda>s. phase s \<noteq> PENDING) ''supply-no-pending-observation'')
      (case answer of
         WouldBlock \<Rightarrow> ret None
       | ReadError e \<Rightarrow> liftS (Inl e)
       | ReadData data \<Rightarrow>
           thenS (rejectS (\<lambda>s. take (73 - length (buffer s)) data = []) ''supply-observation-refused-or-ended'')
           (thenS (modifyS (\<lambda>s. s\<lparr>buffer := buffer s @ take (73 - length (buffer s)) data\<rparr>))
           (bindS (getS (\<lambda>s. length (buffer s) < 72)) (\<lambda>short. if short then ret None else observe_message p2 p3))))))
     fail"

record closing =
  c_pid :: int
  c_waitid :: "unit res"
  c_killpg :: "unit res"
  c_wait :: "unit res"
  c_streams :: "unit res list"
  c_pidfd :: "unit res"

definition close_answers :: "closing \<Rightarrow> guard \<Rightarrow> unit res list" where
  "close_answers c s =
     (if child s \<noteq> None \<and> owner s = c_pid c then [reap (c_waitid c) (c_killpg c) (c_wait c)] else []) @
     (if child s \<noteq> None then c_streams c else []) @
     (if pidfd s \<ge> 0 then [c_pidfd c] else [])"

definition close :: "closing \<Rightarrow> (unit, guard) proc" where
  "close c = bindS (getS (\<lambda>s. failures (close_answers c s))) (\<lambda>es.
      thenS (modifyS (\<lambda>s. s\<lparr>phase := CLOSED, buffer := [], child := None, pidfd := - 1\<rparr>))
      (liftS (close_group ''supply-observer-close-indeterminate'' es)))"

text \<open>
  \<open>__init__\<close>. \<open>i_account\<close> is \<open>pwd.getpwnam\<close> (user and group, or no such name); the other answers are
  those of the operator guard.
\<close>

record launch =
  i_pid :: int
  i_uid :: int
  i_euid :: int
  i_now :: int
  i_account :: "pystr \<Rightarrow> (int \<times> int) option"
  i_executable :: "unit res"
  i_child :: "((int \<times> int) option) res"
  i_pidfd :: "int res"
  i_last :: probe
  i_close :: closing

definition separate_account :: "launch \<Rightarrow> unit res" where
  "separate_account a = (case i_account a (u ''nia-trust'') of
       None \<Rightarrow> Inl KeyError
     | Some (uid, gid) \<Rightarrow>
         if uid \<le> 0 \<or> gid \<le> 0 then rejected ''nonroot-supply-observer-account-required''
         else eachE (\<lambda>name. case i_account a name of
             None \<Rightarrow> Inr ()
           | Some (uid', gid') \<Rightarrow> if uid = uid' \<or> gid = gid' then rejected ''separate-supply-observer-account-required'' else Inr ())
           [u ''nia-pkg'', u ''nia-supply''])"

definition start :: "launch \<Rightarrow> (unit, guard) proc" where
  "start a = exceptS
     (thenS (liftS (i_executable a))
     (bindS (liftS (i_child a)) (\<lambda>pipes. thenS (modifyS (\<lambda>s. s\<lparr>child := Some (case pipes of Some io \<Rightarrow> io | None \<Rightarrow> (- 1, - 1))\<rparr>))
     (bindS (liftS (i_pidfd a)) (\<lambda>pd. thenS (modifyS (\<lambda>s. s\<lparr>pidfd := pd\<rparr>))
     (thenS (rejectS (\<lambda>_. pipes = None) ''supply-observer-pipes'')
     (bindS (current (i_last a)) (\<lambda>_. ret ()))))))))
     (close (i_close a))"

definition fresh :: "launch \<Rightarrow> binding \<Rightarrow> pybytes \<Rightarrow> guard" where
  "fresh a b d = \<lparr>owner = i_pid a, bound = b, phase = NEW, sequence = 0, child = None, pidfd = - 1, sent_at = 0, next_deadline = 0,
     last_utc = minimum_utc b, expected = d, buffer = []\<rparr>"

definition supply_guard :: "launch \<Rightarrow> binding \<Rightarrow> guard res" where
  "supply_guard a b =
     (if i_uid a \<noteq> 0 \<or> i_euid a \<noteq> 0 \<or> \<not> (0 < deadline b - i_now a \<and> deadline b - i_now a \<le> 120000)
      then rejected ''supply-observer-context''
      else bindE (digest b) (\<lambda>d. bindE (separate_account a) (\<lambda>_.
        case start a (fresh a b d) of (Inl e, _) \<Rightarrow> Inl e | (Inr _, s) \<Rightarrow> Inr s)))"

datatype action =
    Descriptors probe
  | RequestCheck probe "int res"
  | Receive probe read_answer probe probe
  | CloseGuard closing

fun guard_step :: "guard \<Rightarrow> action \<Rightarrow> observation option \<times> guard" where
  "guard_step s (Descriptors p) = (None, snd (descriptors p s))"
| "guard_step s (RequestCheck p w) = (None, snd (request_check p w s))"
| "guard_step s (Receive p a p2 p3) =
     ((case fst (receive p a p2 p3 s) of Inr (Some x) \<Rightarrow> Some x | _ \<Rightarrow> None), snd (receive p a p2 p3 s))"
| "guard_step s (CloseGuard c) = (None, snd (close c s))"

section \<open>What one operation guarantees\<close>

definition ended :: "guard \<Rightarrow> bool" where
  "ended s \<longleftrightarrow> phase s = FAILED \<or> phase s = CLOSED"

definition guard_inv :: "guard \<Rightarrow> bool" where
  "guard_inv s \<longleftrightarrow> 0 \<le> sequence s \<and> sequence s \<le> MAX_CHECKS \<and> (phase s = PENDING \<or> phase s = OBSERVED \<longrightarrow> 1 \<le> sequence s)"

text \<open>The object is live for its owner at the moment of the probe.\<close>

definition live :: "probe \<Rightarrow> guard \<Rightarrow> bool" where
  "live p s \<longleftrightarrow> owner s = p_pid p \<and> p_uid p = 0 \<and> p_euid p = 0 \<and> \<not> ended s \<and> p_now p < deadline (bound s)
     \<and> child s \<noteq> None \<and> 0 \<le> pidfd s \<and> \<not> p_ended p \<and> (phase s = PENDING \<or> \<not> p_data p) \<and> (phase s = PENDING \<longrightarrow> p_now p < next_deadline s)"

lemma current_cases:
  obtains e where "\<not> live p s" "current p s = (Inl e, s)" | "live p s" "current p s = (Inr (p_now p), s)"
proof -
  have "(live p s \<and> current p s = (Inr (p_now p), s)) \<or> (\<not> live p s \<and> (\<exists>e. current p s = (Inl e, s)))"
    unfolding current_def run_eqs live_def ended_def rejected_def by auto
  then show thesis using that by blast
qed

lemma bind_current: "live p s \<Longrightarrow> bindS (current p) f s = f (p_now p) s"
  by (cases rule: current_cases [of p s]) (auto simp: bindS_def)

lemma bind_current_dead: "\<not> live p s \<Longrightarrow> \<exists>e. bindS (current p) f s = (Inl e, s)"
  by (cases rule: current_cases [of p s]) (auto simp: bindS_def)

definition failed :: "guard \<Rightarrow> guard" where
  "failed s = (if phase s \<noteq> CLOSED then s\<lparr>phase := FAILED\<rparr> else s)"

lemma failed_simps [simp]: "ended (failed s)" "sequence (failed s) = sequence s" "last_utc (failed s) = last_utc s"
    "phase (failed s) \<noteq> PENDING" "phase (failed s) \<noteq> OBSERVED"
  by (auto simp: failed_def ended_def)

lemma except_fail: "exceptS m fail s = (case m s of (Inr x, s') \<Rightarrow> (Inr x, s') | (Inl e, s') \<Rightarrow> (Inl e, failed s'))"
  by (auto simp: exceptS_def fail_def modify_eq failed_def split: prod.splits sum.splits)

text \<open>What the observation that a message yields asserts about the state before the read.\<close>

definition admitted :: "guard \<Rightarrow> probe \<Rightarrow> pybytes \<Rightarrow> observation \<Rightarrow> bool" where
  "admitted s p2 message x \<longleftrightarrow> length message = 72 \<and> take 8 message = magic \<and> slice 32 64 message = expected s
     \<and> x = \<lparr>o_sequence = be_int (slice 8 16 message), o_started = be_int (slice 16 24 message),
         o_finished = be_int (slice 24 32 message), o_utc = be_int (slice 64 72 message)\<rparr>
     \<and> o_sequence x = sequence s \<and> sent_at s \<le> o_started x \<and> o_started x \<le> o_finished x \<and> o_finished x \<le> p_now p2
     \<and> p_now p2 - o_finished x \<le> CHECK_MS \<and> last_utc s \<le> o_utc x \<and> o_utc x \<le> 2 ^ 53 - 1"

definition observed :: "guard \<Rightarrow> observation \<Rightarrow> guard" where
  "observed s x = s\<lparr>phase := OBSERVED, last_utc := o_utc x, buffer := []\<rparr>"

lemma admittedD: "admitted s p2 m x \<Longrightarrow> last_utc s \<le> o_utc x \<and> o_sequence x = sequence s"
  unfolding admitted_def by blast

lemma admitted_unique: "admitted s p2 m x \<Longrightarrow> admitted s p2 m y \<Longrightarrow> x = y"
  unfolding admitted_def by (metis (full_types))

lemma observed_simps [simp]: "sequence (observed s x) = sequence s" "last_utc (observed s x) = o_utc x" "phase (observed s x) = OBSERVED"
  by (simp_all add: observed_def)

lemma observe_cases:
  obtains e where "observe_message p2 p3 s = (Inl e, s)" "\<nexists>x. live p2 s \<and> admitted s p2 (buffer s) x"
  | x e where "observe_message p2 p3 s = (Inl e, observed s x)" "live p2 s" "admitted s p2 (buffer s) x" "\<not> live p3 (observed s x)"
  | x where "observe_message p2 p3 s = (Inr (Some x), observed s x)" "live p2 s" "admitted s p2 (buffer s) x" "live p3 (observed s x)"
proof (cases "(length (buffer s) \<noteq> 72 \<or> take 8 (buffer s) \<noteq> magic \<or> slice 32 64 (buffer s) \<noteq> expected s) \<or> \<not> live p2 s")
  case True
  then have "\<exists>e. observe_message p2 p3 s = (Inl e, s)"
    using bind_current_dead [of p2 s] by (auto simp: observe_message_def then_reject bind_get rejected_def)
  then show thesis using that(1) True unfolding admitted_def by blast
next
  case False
  define x where "x = \<lparr>o_sequence = be_int (slice 8 16 (buffer s)), o_started = be_int (slice 16 24 (buffer s)),
          o_finished = be_int (slice 24 32 (buffer s)), o_utc = be_int (slice 64 72 (buffer s))\<rparr>"
  have eq: "observe_message p2 p3 s = (if admitted s p2 (buffer s) x then bindS (current p3) (\<lambda>_. ret (Some x)) (observed s x)
      else (rejected ''supply-observation-clock-or-sequence'', s))"
    using False by (auto simp: observe_message_def then_reject then_modify bind_get bind_current admitted_def observed_def x_def)
  have unique: "admitted s p2 (buffer s) y \<Longrightarrow> y = x" for y by (simp add: admitted_def x_def)
  show thesis
  proof (cases "admitted s p2 (buffer s) x")
    case no: False
    then show thesis using that(1) eq unique by (auto simp: rejected_def)
  next
    case yes: True
    show thesis
    proof (cases "live p3 (observed s x)")
      case True
      then show thesis using that(3) [of x] eq yes False by (simp add: bind_current ret_eq)
    next
      case no: False
      then show thesis using that(2) [of _ x] eq yes False bind_current_dead [OF no] by auto
    qed
  qed
qed

text \<open>\<open>full\<close> is the buffer after a read.\<close>

definition full :: "guard \<Rightarrow> pybytes \<Rightarrow> pybytes" where
  "full s data = buffer s @ take (73 - length (buffer s)) data"

lemma receive_cases:
  obtains (raised) e where "fst (receive p a p2 p3 s) = Inl e" "ended (snd (receive p a p2 p3 s))"
      "sequence (snd (receive p a p2 p3 s)) = sequence s" "last_utc s \<le> last_utc (snd (receive p a p2 p3 s))"
      "\<nexists>data x. a = ReadData data \<and> live p s \<and> phase s = PENDING \<and> take (73 - length (buffer s)) data \<noteq> [] \<and> live p2 s
          \<and> admitted s p2 (full s data) x \<and> live p3 (observed s x)"
  | (partial) b where "receive p a p2 p3 s = (Inr None, s\<lparr>buffer := b\<rparr>)" "live p s"
      "\<nexists>data x. a = ReadData data \<and> admitted s p2 (full s data) x"
  | (full) data x where "receive p a p2 p3 s = (Inr (Some x), observed s x)" "a = ReadData data" "live p s" "phase s = PENDING"
      "take (73 - length (buffer s)) data \<noteq> []" "live p2 s" "admitted s p2 (full s data) x" "live p3 (observed s x)"
proof (cases "live p s \<and> phase s = PENDING")
  case False
  then have "\<exists>e. receive p a p2 p3 s = (Inl e, failed s)"
    by (cases rule: current_cases [of p s]) (auto simp: receive_def except_fail bindS_def then_reject rejected_def)
  then show thesis using raised False by auto
next
  case pending: True
  define m where "m = thenS (rejectS (\<lambda>s. phase s \<noteq> PENDING) ''supply-no-pending-observation'')
      (case a of
         WouldBlock \<Rightarrow> ret None
       | ReadError e \<Rightarrow> liftS (Inl e)
       | ReadData data \<Rightarrow>
           thenS (rejectS (\<lambda>s. take (73 - length (buffer s)) data = []) ''supply-observation-refused-or-ended'')
           (thenS (modifyS (\<lambda>s. s\<lparr>buffer := buffer s @ take (73 - length (buffer s)) data\<rparr>))
           (bindS (getS (\<lambda>s. length (buffer s) < 72)) (\<lambda>short. if short then ret None else observe_message p2 p3))))"
  have rec: "receive p a p2 p3 s = (case m s of (Inr x, s') \<Rightarrow> (Inr x, s') | (Inl e, s') \<Rightarrow> (Inl e, failed s'))"
    using pending by (simp add: receive_def except_fail bind_current m_def)
  show thesis
  proof (cases a)
    case WouldBlock
    then have "m s = (Inr None, s)" using pending by (simp add: m_def then_reject ret_eq)
    then have "receive p a p2 p3 s = (Inr None, s\<lparr>buffer := buffer s\<rparr>)" by (simp add: rec)
    then show thesis using pending WouldBlock by (intro partial [of "buffer s"]) auto
  next
    case (ReadError e)
    then have "m s = (Inl e, s)" using pending by (simp add: m_def then_reject lift_eq)
    then have "receive p a p2 p3 s = (Inl e, failed s)" by (simp add: rec)
    then show thesis using raised ReadError by simp
  next
    case data: (ReadData data)
    show thesis
    proof (cases "take (73 - length (buffer s)) data = []")
      case True
      then have "m s = (rejected ''supply-observation-refused-or-ended'', s)"
        using pending data by (simp add: m_def then_reject)
      then have "\<exists>e. receive p a p2 p3 s = (Inl e, failed s)" by (simp add: rec rejected_def)
      then show thesis using raised data True by auto
    next
      case some: False
      define s1 where "s1 = s\<lparr>buffer := full s data\<rparr>"
      have m: "m s = (if length (full s data) < 72 then ret None else observe_message p2 p3) s1"
        using pending data some by (simp add: m_def then_reject then_modify bind_get s1_def full_def)
      have s1: "live q s1 = live q s" "admitted s1 q b x = admitted s q b x" "observed s1 x = observed s x"
         "buffer s1 = full s data" "sequence s1 = sequence s" "last_utc s1 = last_utc s" for q b x
        by (simp_all add: s1_def live_def ended_def admitted_def observed_def)
      show thesis
      proof (cases "length (full s data) < 72")
        case True
        then have r: "receive p a p2 p3 s = (Inr None, s\<lparr>buffer := full s data\<rparr>)" by (simp add: rec m ret_eq s1_def)
        have "\<nexists>d x. a = ReadData d \<and> admitted s p2 (full s d) x" using data True by (simp add: admitted_def)
        with r pending show thesis by (intro partial) auto
      next
        case False
        then have m1: "m s = observe_message p2 p3 s1" by (simp add: m)
        show thesis
        proof (cases rule: observe_cases [of p2 p3 s1])
          case (1 e)
          then have "receive p a p2 p3 s = (Inl e, failed s1)" by (simp add: rec m1)
          moreover have "\<nexists>d x. a = ReadData d \<and> live p s \<and> phase s = PENDING \<and> take (73 - length (buffer s)) d \<noteq> [] \<and> live p2 s
              \<and> admitted s p2 (full s d) x \<and> live p3 (observed s x)"
            using data 1(2) by (simp add: s1)
          ultimately show thesis by (intro raised [of e]) (simp_all add: s1)
        next
          case (2 x e)
          then have "receive p a p2 p3 s = (Inl e, failed (observed s x))" by (simp add: rec m1 s1)
          moreover have adm: "admitted s p2 (full s data) x" using 2(3) by (simp add: s1)
          moreover have "\<nexists>d x. a = ReadData d \<and> live p s \<and> phase s = PENDING \<and> take (73 - length (buffer s)) d \<noteq> [] \<and> live p2 s
              \<and> admitted s p2 (full s d) x \<and> live p3 (observed s x)"
            using data 2(4) admitted_unique [OF adm] by (auto simp: s1)
          moreover have "last_utc s \<le> last_utc (observed s x)" using admittedD [OF adm] by simp
          ultimately show thesis by (intro raised [of e]) simp_all
        next
          case (3 x)
          then have "receive p a p2 p3 s = (Inr (Some x), observed s x)" by (simp add: rec m1 s1)
          then show thesis using pending data some 3 by (intro full [of x data]) (simp_all add: s1)
        qed
      qed
    qed
  qed
qed

definition asked :: "guard \<Rightarrow> int \<Rightarrow> guard" where
  "asked s now = s\<lparr>sent_at := now, sequence := sequence s + 1, phase := PENDING,
     next_deadline := min (deadline (bound s)) (now + CHECK_MS), buffer := []\<rparr>"

lemma supply_request_cases:
  obtains (raised) e where "fst (request_check p w s) = Inl e" "ended (snd (request_check p w s))"
      "sequence (snd (request_check p w s)) = sequence s \<or> sequence (snd (request_check p w s)) = sequence s + 1 \<and> sequence s < MAX_CHECKS"
      "last_utc (snd (request_check p w s)) = last_utc s"
  | (asked) "request_check p w s = (Inr (), asked s (p_now p))" "live p s" "phase s = NEW \<or> phase s = OBSERVED" "sequence s < MAX_CHECKS" "w = Inr 8"
proof (cases "live p s")
  case False
  then have "\<exists>e. request_check p w s = (Inl e, failed s)"
    by (cases rule: current_cases [of p s]) (auto simp: request_check_def except_fail bindS_def)
  then show thesis using raised by auto
next
  case True
  have eq: "request_check p w s =
     (if (phase s \<noteq> NEW \<and> phase s \<noteq> OBSERVED) \<or> sequence s \<ge> MAX_CHECKS
      then (rejected ''supply-observation-order'', failed (s\<lparr>sent_at := p_now p\<rparr>))
      else (case w of Inl e \<Rightarrow> (Inl e, failed (asked s (p_now p)))
            | Inr n \<Rightarrow> if n = 8 then (Inr (), asked s (p_now p)) else (rejected ''supply-observation-request-write'', failed (asked s (p_now p)))))"
    using True by (simp add: request_check_def except_fail bind_current then_modify then_reject bind_lift reject_eq rejected_def asked_def split: sum.split)
  show thesis
  proof (cases "(phase s \<noteq> NEW \<and> phase s \<noteq> OBSERVED) \<or> sequence s \<ge> MAX_CHECKS")
    case bad: True
    then have "request_check p w s = (rejected ''supply-observation-order'', failed (s\<lparr>sent_at := p_now p\<rparr>))" by (simp only: eq if_True)
    then show thesis using raised by (simp add: rejected_def)
  next
    case False
    then have "request_check p w s = (case w of Inl e \<Rightarrow> (Inl e, failed (asked s (p_now p)))
            | Inr n \<Rightarrow> if n = 8 then (Inr (), asked s (p_now p)) else (rejected ''supply-observation-request-write'', failed (asked s (p_now p))))"
      by (simp only: eq if_False)
    then show thesis using raised asked False True
      by (cases w; cases "w = Inr 8") (auto simp: rejected_def asked_def)
  qed
qed

definition shut :: "guard \<Rightarrow> guard" where
  "shut s = s\<lparr>phase := CLOSED, buffer := [], child := None, pidfd := - 1\<rparr>"

lemma supply_close_run: "close c s = (close_group ''supply-observer-close-indeterminate'' (failures (close_answers c s)), shut s)"
  by (simp add: close_def bind_get then_modify lift_eq shut_def)

lemma supply_descriptors_run:
  "snd (descriptors p s) = (if live p s then s else failed s)" "is_ok (fst (descriptors p s)) = live p s"
  by (cases rule: current_cases [of p s]; simp add: descriptors_def except_fail bindS_def getS_def)+

lemma supply_step_cases:
  assumes "guard_inv s" "guard_step s i = (r, t)"
  shows "guard_inv t \<and>
    (case r of
       Some x \<Rightarrow> phase s = PENDING \<and> o_sequence x = sequence s \<and> sequence t = sequence s \<and> phase t = OBSERVED \<and> last_utc s \<le> o_utc x \<and> last_utc t = o_utc x
     | None \<Rightarrow> ((sequence t = sequence s \<and> (phase t = PENDING \<longrightarrow> phase s = PENDING)) \<or> sequence t = sequence s + 1) \<and> last_utc s \<le> last_utc t) \<and>
    (ended s \<longrightarrow> ended t \<and> r = None)"
proof (cases i)
  case (Descriptors p)
  then have "r = None" "t = s \<and> live p s \<or> t = failed s" using assms(2) by (auto simp: supply_descriptors_run split: if_splits)
  then show ?thesis using assms(1) by (auto simp: live_def guard_inv_def)
next
  case (RequestCheck p w)
  then have r: "r = None" "t = snd (request_check p w s)" using assms(2) by auto
  show ?thesis
  proof (cases rule: supply_request_cases [of p w s])
    case raised
    then have "guard_inv t" "ended t" "sequence t = sequence s \<or> sequence t = sequence s + 1" "last_utc t = last_utc s"
      using assms(1) r by (auto simp: guard_inv_def ended_def)
    then show ?thesis using r by (auto simp: ended_def)
  next
    case asked
    then show ?thesis using assms(1) r by (auto simp: guard_inv_def asked_def live_def)
  qed
next
  case (Receive p a p2 p3)
  then have r: "r = (case fst (receive p a p2 p3 s) of Inr (Some x) \<Rightarrow> Some x | _ \<Rightarrow> None)" "t = snd (receive p a p2 p3 s)"
    using assms(2) by auto
  show ?thesis
  proof (cases rule: receive_cases [of p a p2 p3 s])
    case (raised e)
    then have "guard_inv t" "ended t" "sequence t = sequence s" "last_utc s \<le> last_utc t" "r = None"
      using assms(1) r by (auto simp: guard_inv_def ended_def)
    then show ?thesis by (auto simp: ended_def)
  next
    case (partial b)
    then show ?thesis using assms(1) r by (simp add: guard_inv_def live_def)
  next
    case (full data x)
    then show ?thesis using assms(1) r admittedD [OF full(7)] by (simp add: guard_inv_def live_def)
  qed
next
  case (CloseGuard c)
  then show ?thesis using assms supply_close_run [of c s] by (auto simp: guard_inv_def ended_def shut_def)
qed

interpretation supplied: clocked_observer guard_step guard_inv sequence "\<lambda>s. phase s = PENDING" ended o_sequence MAX_CHECKS last_utc o_utc
proof unfold_locales
  fix s s' :: guard and i r and x :: observation
  assume inv: "guard_inv s"
  note step = supply_step_cases [OF inv]
  show "0 \<le> sequence s \<and> sequence s \<le> MAX_CHECKS" using inv by (simp add: guard_inv_def)
  show "phase s = PENDING \<Longrightarrow> 1 \<le> sequence s" using inv by (simp add: guard_inv_def)
  show "guard_inv s'" if "guard_step s i = (r, s')" using step [OF that] by simp
  show "phase s = PENDING \<and> \<not> ended s \<and> o_sequence x = sequence s \<and> sequence s' = sequence s \<and> phase s' \<noteq> PENDING"
    if "guard_step s i = (Some x, s')" using step [OF that] by (auto simp: ended_def)
  show "(sequence s' = sequence s \<and> (phase s' = PENDING \<longrightarrow> phase s = PENDING)) \<or> sequence s' = sequence s + 1"
    if "guard_step s i = (None, s')" using step [OF that] by simp
  show "ended s' \<and> r = None" if "ended s" "guard_step s i = (r, s')" using step [OF that(2)] that(1) by simp
  show "last_utc s \<le> o_utc x \<and> last_utc s' = o_utc x" if "guard_step s i = (Some x, s')" using step [OF that] by simp
  show "last_utc s \<le> last_utc s'" if "guard_step s i = (None, s')" using step [OF that] by simp
qed

section \<open>The binding and its message\<close>

lemma arguments_ok:
  "arguments b = Inr xs \<longleftrightarrow> list_all2 identity_bytes [32, 16, 16, 32, 32, 32, 32, 32] (binding_values b)
    \<and> 0 < minimum_utc b \<and> minimum_utc b \<le> 2 ^ 53 - 1 \<and> 0 < deadline b \<and> deadline b < 2 ^ 63 - 1
    \<and> xs = map hex_of (binding_values b) @ [str_int (minimum_utc b), str_int (deadline b)]"
  by (auto simp: arguments_def binding_values_def upt_rec)

lemma binding_message_inj:
  assumes "is_ok (arguments b)" "is_ok (arguments b')" "binding_message b = binding_message b'"
  shows "b = b'"
proof -
  from assms(1,2) obtain xs ys where ok: "arguments b = Inr xs" "arguments b' = Inr ys" by (auto simp: is_ok_def split: sum.splits)
  have lens: "map length (binding_values b) = map length (binding_values b')"
    using ok by (simp add: arguments_ok binding_values_def identity_bytes_def)
  have msg: "concat (binding_values b) @ (be64 (minimum_utc b) @ be64 (deadline b))
     = concat (binding_values b') @ (be64 (minimum_utc b') @ be64 (deadline b'))"
    using assms(3) by (simp add: binding_message_def)
  then have vals: "binding_values b = binding_values b'" and clocks: "be64 (minimum_utc b) @ be64 (deadline b) = be64 (minimum_utc b') @ be64 (deadline b')"
    using concat_lengths [OF lens] append_eq_append_conv [of "concat (binding_values b)" "concat (binding_values b')"] by simp_all
  have "minimum_utc b = minimum_utc b'" "deadline b = deadline b'"
    using clocks ok by (simp_all add: arguments_ok be64_inj)
  then show ?thesis using vals by (simp add: binding_values_def)
qed

lemma arguments_inj:
  assumes "is_ok (arguments b)" "is_ok (arguments b')" "arguments b = arguments b'"
  shows "b = b'"
proof -
  from assms(1,2) obtain xs ys where ok: "arguments b = Inr xs" "arguments b' = Inr ys" by (auto simp: is_ok_def split: sum.splits)
  then have pos: "0 \<le> minimum_utc b" "0 \<le> deadline b" "0 \<le> minimum_utc b'" "0 \<le> deadline b'"
    by (auto simp: arguments_ok)
  have str: "m = n" if "str_int m = str_int n" "0 \<le> m" "0 \<le> n" for m n
    using that str_nat_inj [of "nat m" "nat n"] by (auto simp: str_int_def split: if_splits)
  have "xs = ys" using ok assms(3) by simp
  moreover have "xs = map hex_of (binding_values b) @ [str_int (minimum_utc b), str_int (deadline b)]"
    using ok(1) unfolding arguments_ok by blast
  moreover have "ys = map hex_of (binding_values b') @ [str_int (minimum_utc b'), str_int (deadline b')]"
    using ok(2) unfolding arguments_ok by blast
  ultimately have "map hex_of (binding_values b) = map hex_of (binding_values b')" "str_int (minimum_utc b) = str_int (minimum_utc b')"
      "str_int (deadline b) = str_int (deadline b')"
    by (simp_all add: binding_values_def)
  moreover have "inj hex_of" by (rule injI) (rule hex_of_inj)
  ultimately have "binding_values b = binding_values b'" "minimum_utc b = minimum_utc b'" "deadline b = deadline b'"
    using pos str by (auto dest: map_injective)
  then show ?thesis by (simp add: binding_values_def)
qed

section \<open>Properties of every run\<close>

lemma supply_start: "start a s = (Inr (), g) \<Longrightarrow> phase g = phase s \<and> sequence g = sequence s \<and> last_utc g = last_utc s"
proof -
  have cur: "ends (\<lambda>t. phase t = ph \<and> sequence t = n \<and> last_utc t = ut) (current p) (\<lambda>t. phase t = ph \<and> sequence t = n \<and> last_utc t = ut)"
    for p ph n ut by (auto simp: ends_def) (metis current_cases snd_conv)+
  have "ends (\<lambda>t. phase t = ph \<and> sequence t = n \<and> last_utc t = ut) (thenS (liftS (i_executable a))
     (bindS (liftS (i_child a)) (\<lambda>pipes. thenS (modifyS (\<lambda>s. s\<lparr>child := Some (case pipes of Some io \<Rightarrow> io | None \<Rightarrow> (- 1, - 1))\<rparr>))
     (bindS (liftS (i_pidfd a)) (\<lambda>pd. thenS (modifyS (\<lambda>s. s\<lparr>pidfd := pd\<rparr>))
     (thenS (rejectS (\<lambda>_. pipes = None) ''supply-observer-pipes'')
     (bindS (current (i_last a)) (\<lambda>_. ret ()))))))))
     (\<lambda>t. phase t = ph \<and> sequence t = n \<and> last_utc t = ut)" for ph n ut
    by (intro ends_thenS ends_bindS ends_liftS ends_modifyS ends_rejectS ends_ret cur) auto
  then show "start a s = (Inr (), g) \<Longrightarrow> phase g = phase s \<and> sequence g = sequence s \<and> last_utc g = last_utc s"
    unfolding start_def exceptS_ok using endsD by fastforce
qed

lemma supply_guard_fresh:
  assumes "supply_guard a b = Inr g"
  shows "guard_inv g \<and> phase g = NEW \<and> last_utc g = minimum_utc b"
proof -
  from assms obtain d where "(case start a (fresh a b d) of (Inl e, _) \<Rightarrow> Inl e | (Inr _, s) \<Rightarrow> Inr s) = Inr g"
    unfolding supply_guard_def bindE_eq_Inr if_rejected_eq_Inr by blast
  then have "start a (fresh a b d) = (Inr (), g)" by (cases "start a (fresh a b d)"; cases "fst (start a (fresh a b d))") auto
  from supply_start [OF this] show ?thesis by (simp add: fresh_def guard_inv_def MAX_CHECKS_def)
qed

lemma supply_receive_iff:
  "(receive p (ReadData data) p2 p3 s = (Inr (Some x), t)) =
   (live p s \<and> phase s = PENDING \<and> take (73 - length (buffer s)) data \<noteq> [] \<and> live p2 s \<and> admitted s p2 (full s data) x
     \<and> live p3 (observed s x) \<and> t = observed s x)"
proof (cases rule: receive_cases [of p "ReadData data" p2 p3 s])
  case (raised e)
  then have "receive p (ReadData data) p2 p3 s \<noteq> (Inr (Some x), t)" by (metis fst_conv Inl_Inr_False)
  moreover have "\<not> (live p s \<and> phase s = PENDING \<and> take (73 - length (buffer s)) data \<noteq> [] \<and> live p2 s \<and> admitted s p2 (full s data) x
     \<and> live p3 (observed s x))" using raised(5) by blast
  ultimately show ?thesis by blast
next
  case (partial b)
  then show ?thesis by auto
next
  case (full d y)
  then show ?thesis using admitted_unique [of s p2 "full s data" y x] by auto
qed

text \<open>C95: Whatever the operations of a run of the supply guard are and whatever the helper answers: the observations
  handed out carry strictly increasing numbers between 1 and 1200, their times of the supply never
  decrease and are never before the minimum of the binding, and none follows a failure or \<open>close\<close>.\<close>

theorem supply_run_safe:
  assumes "supply_guard a b = Inr g" "run_of guard_step g is = (obs, t)"
  shows "sorted_wrt (<) (map o_sequence obs) \<and> (\<forall>x \<in> set obs. 1 \<le> o_sequence x \<and> o_sequence x \<le> 1200)
     \<and> sorted (map o_utc obs) \<and> (\<forall>x \<in> set obs. minimum_utc b \<le> o_utc x)
     \<and> (ended t \<longrightarrow> fst (run_of guard_step t js) = [])"
proof -
  have inv: "guard_inv g" "last_utc g = minimum_utc b" using supply_guard_fresh [OF assms(1)] by auto
  have inv_t: "guard_inv t" using supplied.inv_run [OF inv(1), of "is"] assms(2) by simp
  show ?thesis
    using supplied.run_numbers [OF inv(1) assms(2)] supplied.run_bounded [OF inv(1) assms(2)] supplied.run_clock [OF inv(1) assms(2)]
      supplied.dead_run [OF inv_t, of js] inv(2)
    by (cases "run_of guard_step t js") (auto simp: MAX_CHECKS_def)
qed

text \<open>C96: \<open>receive\<close> of the supply guard hands out an observation in exactly one situation: a check is pending, the object is
  live before and after the read and after the state changed, and the 72 bytes read since the request
  are the magic, the numbers of the observation, the digest of the binding and the time of the supply,
  each of them within its limits.\<close>

theorem supply_receive_exact:
  "(receive p (ReadData data) p2 p3 s = (Inr (Some x), t)) =
   (live p s \<and> phase s = PENDING \<and> take (73 - length (buffer s)) data \<noteq> [] \<and> live p2 s \<and> admitted s p2 (full s data) x
     \<and> live p3 (observed s x) \<and> t = observed s x)"
  by (rule supply_receive_iff)

text \<open>An accepted binding is determined by the message that its digest is taken of, and by the command line of
  the helper: no two bindings share either.\<close>

theorem binding_determined:
  assumes "is_ok (arguments b)" "is_ok (arguments b')"
  shows "(binding_message b = binding_message b') = (b = b') \<and> (arguments b = arguments b') = (b = b')"
  using binding_message_inj [OF assms] arguments_inj [OF assms] by auto

definition example_binding :: binding where
  "example_binding = \<lparr>generation = replicate 32 1, root = replicate 16 1, transaction = replicate 16 2, plan = replicate 32 3,
     retained_policy = replicate 32 4, supply_map = replicate 32 5, policy_hash = replicate 32 6, floor_hash = replicate 32 7,
     minimum_utc = 500, deadline = 9000\<rparr>"

lemma example_binding_ok: "is_ok (arguments example_binding)" "is_ok (arguments (example_binding\<lparr>deadline := 9001\<rparr>))"
  by (simp_all add: arguments_def is_ok_def binding_values_def example_binding_def identity_replicate upt_rec)

theorem binding_determined_witness:
  "binding_message example_binding \<noteq> binding_message (example_binding\<lparr>deadline := 9001\<rparr>)"
  using binding_determined [OF example_binding_ok] by (simp add: example_binding_def)

definition example_probe :: "int \<Rightarrow> probe" where
  "example_probe now = \<lparr>p_now = now, p_pid = 7, p_uid = 0, p_euid = 0, p_ended = False, p_data = False\<rparr>"

definition example_launch :: launch where
  "example_launch = \<lparr>i_pid = 7, i_uid = 0, i_euid = 0, i_now = 1000,
     i_account = (\<lambda>n. if n = u ''nia-trust'' then Some (90, 91) else if n = u ''nia-pkg'' then Some (80, 81) else None),
     i_executable = Inr (), i_child = Inr (Some (5, 6)), i_pidfd = Inr 8, i_last = example_probe 1001,
     i_close = \<lparr>c_pid = 7, c_waitid = Inr (), c_killpg = Inr (), c_wait = Inr (), c_streams = [], c_pidfd = Inr ()\<rparr>\<rparr>"

definition example_guard :: guard where
  "example_guard = \<lparr>owner = 7, bound = example_binding, phase = NEW, sequence = 0, child = Some (5, 6), pidfd = 8, sent_at = 0,
     next_deadline = 0, last_utc = 500, expected = sha256 (binding_message example_binding), buffer = []\<rparr>"

lemma supply_example_launch: "supply_guard example_launch example_binding = Inr example_guard"
proof -
  obtain xs where xs: "arguments example_binding = Inr xs" using example_binding_ok(1) by (auto simp: is_ok_def split: sum.splits)
  have acc: "separate_account example_launch = Inr ()"
    by (simp add: separate_account_def example_launch_def u_def)
  have "start example_launch (fresh example_launch example_binding d) = (Inr (), example_guard)"
    if "d = sha256 (binding_message example_binding)" for d
    using that by (simp add: start_def exceptS_def then_lift bind_lift then_modify then_reject bind_current live_def ended_def fresh_def
        example_launch_def example_probe_def example_binding_def example_guard_def ret_eq)
  then show ?thesis
    by (simp add: supply_guard_def digest_def xs acc) (simp add: example_launch_def example_binding_def)
qed

definition example_answer :: pybytes where
  "example_answer = magic @ be64 1 @ be64 1010 @ be64 1011 @ sha256 (binding_message example_binding) @ be64 600"

definition example_run :: "action list" where
  "example_run = [RequestCheck (example_probe 1005) (Inr 8),
     Receive (example_probe 1020) (ReadData example_answer) (example_probe 1021) (example_probe 1022)]"

lemma supply_example_run:
  "run_of guard_step example_guard example_run = ([\<lparr>o_sequence = 1, o_started = 1010, o_finished = 1011, o_utc = 600\<rparr>],
     observed (asked example_guard 1005) \<lparr>o_sequence = 1, o_started = 1010, o_finished = 1011, o_utc = 600\<rparr>)"
proof -
  have 1: "request_check (example_probe 1005) (Inr 8) example_guard = (Inr (), asked example_guard 1005)"
    by (simp add: request_check_def except_fail bind_current then_modify then_reject bind_lift reject_eq live_def ended_def asked_def
        example_guard_def example_probe_def example_binding_def MAX_CHECKS_def)
  have adm: "admitted (asked example_guard 1005) (example_probe 1021) example_answer \<lparr>o_sequence = 1, o_started = 1010, o_finished = 1011, o_utc = 600\<rparr>"
    by (simp add: admitted_def example_answer_def slice_def asked_def example_guard_def example_probe_def CHECK_MS_def be_int_be64 magic_def)
  have 2: "receive (example_probe 1020) (ReadData example_answer) (example_probe 1021) (example_probe 1022) (asked example_guard 1005)
     = (Inr (Some \<lparr>o_sequence = 1, o_started = 1010, o_finished = 1011, o_utc = 600\<rparr>),
        observed (asked example_guard 1005) \<lparr>o_sequence = 1, o_started = 1010, o_finished = 1011, o_utc = 600\<rparr>)"
  proof -
    have len: "length example_answer = 72" by (simp add: example_answer_def magic_def)
    then have "full (asked example_guard 1005) example_answer = example_answer" "take 73 example_answer \<noteq> []"
      by (auto simp: full_def asked_def)
    with adm show ?thesis
      unfolding supply_receive_iff
      by (simp add: live_def ended_def observed_def) (simp add: asked_def example_guard_def example_probe_def example_binding_def CHECK_MS_def)
  qed
  show ?thesis by (simp add: example_run_def 1 2)
qed

theorem supply_run_safe_witness:
  "\<exists>obs t. run_of guard_step example_guard example_run = (obs, t) \<and> map o_utc obs = [600] \<and> (\<forall>x \<in> set obs. minimum_utc example_binding \<le> o_utc x)"
  using supply_run_safe [OF supply_example_launch supply_example_run] by (simp add: supply_example_run)

end
