(* ===== verification/Native_Message.thy ===== *)
theory Native_Message
  imports Native_State
begin

text \<open>
  What \<open>recvmsg\<close> on a Unix socket returns, with its control messages, as \<open>native/root_handoff.py\<close> and
  \<open>native/plan_consent.py\<close> read them, and the release of received descriptors, which both share.
\<close>

unbundle bit_operations_syntax

text \<open>A message: the data, the control messages and the flags. \<open>little\<close> is the byte order of the machine.\<close>

record message =
  m_raw :: pybytes
  m_controls :: "(int \<times> int \<times> pybytes) list"
  m_flags :: int
  m_little :: bool

definition SOL_SOCKET :: int where "SOL_SOCKET = 1"
definition SCM_RIGHTS :: int where "SCM_RIGHTS = 1"
definition SCM_CREDENTIALS :: int where "SCM_CREDENTIALS = 2"

text \<open>\<open>MSG_CMSG_CLOEXEC | MSG_EOR\<close>.\<close>

definition EXPECTED_FLAGS :: int where "EXPECTED_FLAGS = 1073741824 OR 128"

definition native_int :: "bool \<Rightarrow> pybytes \<Rightarrow> int" where
  "native_int little b = (let n = be_int (if little then rev b else b) in if n < 2 ^ 31 then n else n - 2 ^ 32)"

fun native_ints :: "bool \<Rightarrow> pybytes \<Rightarrow> int list" where
  "native_ints little (a # b # c # d # rest) = native_int little [a, b, c, d] # native_ints little rest"
| "native_ints little rest = []"

text \<open>
  The loop over the control messages: whether something was malformed, the descriptors installed so
  far, and the credentials found.
\<close>

type_synonym controls = "bool \<times> int list \<times> (int \<times> int \<times> int) list"

fun control_step :: "bool \<Rightarrow> controls \<Rightarrow> int \<times> int \<times> pybytes \<Rightarrow> controls" where
  "control_step little (bad, fds, credentials) (level, kind, data) =
     (if level = SOL_SOCKET \<and> kind = SCM_RIGHTS
      then (bad \<or> length data mod 4 \<noteq> 0, fds @ native_ints little (take (length data - length data mod 4) data), credentials)
      else if level = SOL_SOCKET \<and> kind = SCM_CREDENTIALS \<and> length data = 12
      then (bad, fds, credentials @ [(native_int little (slice 0 4 data), native_int little (slice 4 8 data), native_int little (slice 8 12 data))])
      else (True, fds, credentials))"

text \<open>
  The release of descriptors: \<open>bad fd\<close> says that closing it raises \<open>OSError\<close>; the errors are raised as
  a group named by the caller.
\<close>

definition release_errors :: "string \<Rightarrow> (int \<Rightarrow> bool) \<Rightarrow> int list \<Rightarrow> unit res" where
  "release_errors msg bad fds = (if filter bad fds = [] then Inr () else Inl (ExceptionGroup (u msg) (map (\<lambda>_. OSError) (filter bad fds))))"

end
