(* ===== verification/Root_Handoff.thy ===== *)
theory Root_Handoff
  imports Native_Message
begin

unbundle bit_operations_syntax

text \<open>
  \<open>native/root_handoff.py\<close>: the worker hands two descriptors to the root supervisor over a private
  socket pair, once, and is told once that the exchange is complete. The control relation, the wire
  form of the scope, and the channel that the supervisor holds.
\<close>

definition MAX_POLLS :: nat where
  "MAX_POLLS = 1200"

datatype phase = STARTING | READY | RECEIVING | RECEIVED | COMPLETING | COMPLETE | FAILED | CLOSED

datatype event = OPEN | RECEIVE | ACCEPT | COMPLETE_IT | ACK | FAIL | CLOSE

definition moves :: "(phase \<times> event \<times> phase) list" where
  "moves = [(STARTING, OPEN, READY), (READY, RECEIVE, RECEIVING), (RECEIVING, ACCEPT, RECEIVED),
     (RECEIVED, COMPLETE_IT, COMPLETING), (COMPLETING, ACK, COMPLETE)]"

definition transition :: "phase \<Rightarrow> event \<Rightarrow> phase res" where
  "transition phase event =
     (if event = CLOSE then Inr CLOSED
      else if event = FAIL \<and> phase \<noteq> CLOSED \<and> phase \<noteq> COMPLETE then Inr FAILED
      else case List.find (\<lambda>(before, action, after). phase = before \<and> event = action) moves of
             Some (before, action, after) \<Rightarrow> Inr after
           | None \<Rightarrow> rejected ''invalid-channel-transition'')"

section \<open>The scope\<close>

record scope =
  generation :: pybytes
  root_manifest :: pybytes
  archive :: pybytes
  worker :: pybytes
  stage :: pybytes
  scope_size :: int
  entries :: int
  deadline :: int

record reinspection = scope +
  original_deadline :: int
  mount_id :: int
  inode :: int
  device_major :: int
  device_minor :: int

text \<open>\<open>struct.pack('>I', n)\<close>.\<close>

definition be32_int :: "int \<Rightarrow> pybytes" where
  "be32_int n = to_be 4 (nat n)"

definition identities :: "'z scope_scheme \<Rightarrow> pybytes list" where
  "identities s = [generation s, root_manifest s, archive s, worker s, stage s]"

definition scope_wire :: "'z scope_scheme \<Rightarrow> pybytes res" where
  "scope_wire s =
     (if list_ex (\<lambda>(v, n). \<not> identity_bytes n v) (zip (identities s) [32, 32, 32, 32, 16]) then rejected ''scope-identity''
      else if \<not> (1024 \<le> scope_size s \<and> scope_size s \<le> 8589934592) \<or> scope_size s mod 512 \<noteq> 0
        \<or> \<not> (1 \<le> entries s \<and> entries s \<le> 524288) \<or> \<not> (0 < deadline s \<and> deadline s \<le> 2 ^ 63 - 1)
      then rejected ''scope-bounds''
      else Inr (bs ''NIAHND01'' @ concat (identities s) @ be64 (scope_size s) @ be64 (entries s) @ be64 (deadline s) @ replicate 16 0))"

definition reinspection_wire :: "reinspection \<Rightarrow> pybytes res" where
  "reinspection_wire s = bindE (scope_wire s) (\<lambda>common.
     if \<not> (0 < original_deadline s \<and> original_deadline s \<le> 2 ^ 63 - 1)
        \<or> \<not> (0 < mount_id s \<and> mount_id s \<le> 2 ^ 64 - 1) \<or> \<not> (0 < inode s \<and> inode s \<le> 2 ^ 64 - 1)
        \<or> \<not> (0 \<le> device_major s \<and> device_major s \<le> 2 ^ 32 - 1) \<or> \<not> (0 \<le> device_minor s \<and> device_minor s \<le> 2 ^ 32 - 1)
     then rejected ''reinspection-identity''
     else Inr (bs ''NIAHRV01'' @ slice 8 176 common @ be64 (original_deadline s) @ be64 (mount_id s) @ be64 (inode s)
       @ be32_int (device_major s) @ be32_int (device_minor s) @ replicate 16 0))"

text \<open>A scope as the channel holds it; the class decides the wire form and the answer's opcode.\<close>

datatype any_scope = Prepare scope | Reinspect reinspection

fun wire :: "any_scope \<Rightarrow> pybytes res" where
  "wire (Prepare s) = scope_wire s"
| "wire (Reinspect s) = reinspection_wire s"

fun deadline_of :: "any_scope \<Rightarrow> int" where
  "deadline_of (Prepare s) = deadline s"
| "deadline_of (Reinspect s) = deadline s"

fun opcode :: "any_scope \<Rightarrow> pybytes" where
  "opcode (Prepare s) = bs ''NIAHOK01''"
| "opcode (Reinspect s) = bs ''NIAHRK01''"

section \<open>The channel\<close>

record channel =
  peer :: "int option"
  pidfd :: int
  descriptors :: "int list"
  phase :: phase
  owner :: int
  expected :: pybytes
  scope :: any_scope
  child_pid :: int
  child_uid :: int

text \<open>
  What the operating system answers: \<open>alive\<close> is read by \<open>_alive\<close> (\<open>a_exited\<close> is \<open>waitid\<close> and whether it
  found an exit), \<open>current\<close> adds whether the peer is readable.
\<close>

record alive =
  a_pid :: int
  a_uid :: int
  a_euid :: int
  a_now :: int
  a_exited :: "bool res"

definition alive :: "alive \<Rightarrow> (unit, channel) proc" where
  "alive a =
     thenS (rejectS (\<lambda>s. owner s \<noteq> a_pid a \<or> a_uid a \<noteq> 0 \<or> a_euid a \<noteq> 0 \<or> a_now a \<ge> deadline_of (scope s)) ''owner-or-deadline'')
     (thenS (rejectS (\<lambda>s. pidfd s < 0) ''child-exited'')
     (bindS (liftS (a_exited a)) (\<lambda>exited. rejectS (\<lambda>_. exited) ''child-exited'')))"

definition advance :: "event \<Rightarrow> (unit, channel) proc" where
  "advance e s = (case transition (phase s) e of Inl x \<Rightarrow> (Inl x, s) | Inr p \<Rightarrow> (Inr (), s\<lparr>phase := p\<rparr>))"

definition the_peer :: "(int, channel) proc" where
  "the_peer = thenS (rejectS (\<lambda>s. peer s = None \<or> phase s = CLOSED) ''channel-closed'') (getS (\<lambda>s. the (peer s)))"

definition current :: "alive \<Rightarrow> bool \<Rightarrow> (unit, channel) proc" where
  "current a readable = thenS (alive a) (bindS the_peer (\<lambda>_. rejectS (\<lambda>_. readable) ''cancel-or-disconnect''))"

text \<open>
  One answer of \<open>poll\<close> is a list of descriptors with their flags; \<open>POLLERR | POLLHUP | POLLNVAL\<close> is 56.
  The polls of \<open>_wait\<close> are answered by a function of their number.
\<close>

fun scan_events :: "int \<Rightarrow> int \<Rightarrow> (int \<times> int) list \<Rightarrow> bool res" where
  "scan_events pid events [] = Inr False"
| "scan_events pid events ((fd, flags) # rest) =
     (if fd = pid \<or> (flags AND 56) \<noteq> 0 then rejected ''child-or-channel-ended''
      else if (flags AND events) \<noteq> 0 then Inr True
      else scan_events pid events rest)"

definition poll_once :: "int \<Rightarrow> alive \<times> (int \<times> int) list res \<Rightarrow> (bool, channel) proc" where
  "poll_once events q = thenS (alive (fst q))
     (bindS (liftS (snd q)) (\<lambda>found. bindS (getS pidfd) (\<lambda>pid. liftS (scan_events pid events found))))"

fun wait_loop :: "nat \<Rightarrow> (nat \<Rightarrow> alive \<times> (int \<times> int) list res) \<Rightarrow> nat \<Rightarrow> int \<Rightarrow> (unit, channel) proc" where
  "wait_loop 0 polls i events s = (rejected ''poll-budget-exhausted'', s)"
| "wait_loop (Suc n) polls i events s =
     bindS (poll_once events (polls i)) (\<lambda>ready. if ready then ret () else wait_loop n polls (Suc i) events) s"

definition wait :: "(nat \<Rightarrow> alive \<times> (int \<times> int) list res) \<Rightarrow> int \<Rightarrow> (unit, channel) proc" where
  "wait polls events = bindS the_peer (\<lambda>_. wait_loop MAX_POLLS polls 0 events)"

definition POLLIN :: int where "POLLIN = 1"
definition POLLOUT :: int where "POLLOUT = 4"

text \<open>\<open>_release_inputs\<close>: \<open>bad fd\<close> says that closing it raises \<open>OSError\<close>.\<close>

definition release_inputs :: "(int \<Rightarrow> bool) \<Rightarrow> (unit, channel) proc" where
  "release_inputs bad = bindS (getS descriptors) (\<lambda>fds.
     thenS (modifyS (\<lambda>s. s\<lparr>descriptors := []\<rparr>)) (liftS (release_errors ''handoff-input-release'' bad fds)))"

section \<open>Receiving the descriptors\<close>

definition read_controls :: "message \<Rightarrow> int list \<Rightarrow> controls" where
  "read_controls m held = foldl (control_step (m_little m)) ((m_flags m AND NOT EXPECTED_FLAGS) \<noteq> 0, held, []) (m_controls m)"

definition accept_message :: "message \<Rightarrow> alive \<Rightarrow> bool \<Rightarrow> (int \<times> int, channel) proc" where
  "accept_message m a readable =
     bindS (getS (\<lambda>s. read_controls m (descriptors s))) (\<lambda>(bad, fds, credentials).
     thenS (modifyS (\<lambda>s. s\<lparr>descriptors := fds\<rparr>))
     (thenS (rejectS (\<lambda>s. bad \<or> length credentials \<noteq> 1 \<or> fst (hd credentials) \<noteq> child_pid s
         \<or> fst (snd (hd credentials)) \<noteq> child_uid s \<or> length (descriptors s) \<noteq> 2 \<or> m_raw m \<noteq> expected s)
       ''sender-scope-or-descriptors'')
     (thenS (current a readable)
     (thenS (advance ACCEPT)
     (getS (\<lambda>s. (descriptors s ! 0, descriptors s ! 1)))))))"

text \<open>The answers to one call of \<open>receive\<close>; \<open>r_polls\<close> is used when it waits, \<open>r_alive\<close> when it does not.\<close>

record receiving =
  r_wait :: bool
  r_polls :: "nat \<Rightarrow> alive \<times> (int \<times> int) list res"
  r_alive :: alive
  r_message :: "message res"
  r_after :: alive
  r_readable :: bool
  r_close :: "int \<Rightarrow> bool"

definition receive_try :: "receiving \<Rightarrow> (int \<times> int, channel) proc" where
  "receive_try r = thenS (if r_wait r then wait (r_polls r) POLLIN else alive (r_alive r))
     (bindS the_peer (\<lambda>_. bindS (liftS (r_message r)) (\<lambda>m. accept_message m (r_after r) (r_readable r))))"

definition receive :: "receiving \<Rightarrow> (int \<times> int, channel) proc" where
  "receive r = thenS (advance RECEIVE) (exceptS (receive_try r) (thenS (advance FAIL) (release_inputs (r_close r))))"

section \<open>Completion and closing\<close>

record completing =
  k_wait :: bool
  k_polls :: "nat \<Rightarrow> alive \<times> (int \<times> int) list res"
  k_before :: alive
  k_readable :: bool
  k_after :: alive
  k_readable_after :: bool
  k_sent :: "int res"
  k_close :: "int \<Rightarrow> bool"

text \<open>The reply that is sent, and the operation.\<close>

definition reply :: "channel \<Rightarrow> pybytes" where
  "reply s = opcode (scope s) @ sha256 (expected s)"

definition complete_try :: "completing \<Rightarrow> (unit, channel) proc" where
  "complete_try k = thenS (release_inputs (k_close k))
     (thenS (current (k_before k) (k_readable k))
     (thenS (if k_wait k then wait (k_polls k) POLLOUT else ret ())
     (thenS (current (k_after k) (k_readable_after k))
     (bindS the_peer (\<lambda>_. bindS (liftS (k_sent k)) (\<lambda>n.
        thenS (rejectS (\<lambda>s. n \<noteq> int (length (reply s))) ''uncertain-reply'')
        (advance ACK)))))))"

definition complete :: "completing \<Rightarrow> (unit, channel) proc" where
  "complete k = thenS (advance COMPLETE_IT) (exceptS (complete_try k) (advance FAIL))"

record closing =
  c_close :: "int \<Rightarrow> bool"
  c_pidfd :: "unit res"
  c_peer :: "unit res"

definition close :: "closing \<Rightarrow> (unit, channel) proc" where
  "close c = thenS (advance CLOSE) (finallyS (release_inputs (c_close c))
     (bindS (getS pidfd) (\<lambda>fd. thenS (modifyS (\<lambda>s. s\<lparr>pidfd := - 1\<rparr>)) (finallyS
       (liftS (if fd \<ge> 0 then c_pidfd c else Inr ()))
       (bindS (getS peer) (\<lambda>p. thenS (modifyS (\<lambda>s. s\<lparr>peer := None\<rparr>)) (liftS (if p \<noteq> None then c_peer c else Inr ()))))))))"

text \<open>\<open>__init__\<close>.\<close>

record launch =
  i_pid :: int
  i_uid :: int
  i_euid :: int
  i_now :: int
  i_peer :: "int res"
  i_private :: bool
  i_peername :: "unit res"
  i_pidfd :: "int res"
  i_alive :: alive
  i_close :: closing

definition start :: "launch \<Rightarrow> (unit, channel) proc" where
  "start a = exceptS
     (bindS (liftS (i_peer a)) (\<lambda>fd. thenS (modifyS (\<lambda>s. s\<lparr>peer := Some fd\<rparr>))
     (thenS (rejectS (\<lambda>_. \<not> i_private a) ''private-seqpacket-required'')
     (thenS (liftS (i_peername a))
     (bindS (liftS (i_pidfd a)) (\<lambda>pd. thenS (modifyS (\<lambda>s. s\<lparr>pidfd := pd\<rparr>))
     (thenS (alive (i_alive a)) (advance OPEN))))))))
     (close (i_close a))"

definition open_channel :: "launch \<Rightarrow> int \<Rightarrow> int \<Rightarrow> any_scope \<Rightarrow> channel res" where
  "open_channel a pid uid sc =
     (if i_uid a \<noteq> 0 \<or> i_euid a \<noteq> 0 \<or> pid \<le> 0 \<or> \<not> (0 < uid \<and> uid \<le> 2 ^ 31 - 1) then rejected ''supervisor-or-child''
      else bindE (wire sc) (\<lambda>w.
        if \<not> (0 < deadline_of sc - i_now a \<and> deadline_of sc - i_now a \<le> 600000) then rejected ''deadline''
        else case start a \<lparr>peer = None, pidfd = - 1, descriptors = [], phase = STARTING, owner = i_pid a, expected = w, scope = sc,
                 child_pid = pid, child_uid = uid\<rparr> of (Inl e, _) \<Rightarrow> Inl e | (Inr _, s) \<Rightarrow> Inr s))"

section \<open>The control relation\<close>

text \<open>The events that are left to take a phase to completion.\<close>

fun trail :: "phase \<Rightarrow> event list option" where
  "trail STARTING = Some [OPEN, RECEIVE, ACCEPT, COMPLETE_IT, ACK]"
| "trail READY = Some [RECEIVE, ACCEPT, COMPLETE_IT, ACK]"
| "trail RECEIVING = Some [ACCEPT, COMPLETE_IT, ACK]"
| "trail RECEIVED = Some [COMPLETE_IT, ACK]"
| "trail COMPLETING = Some [ACK]"
| "trail COMPLETE = Some []"
| "trail FAILED = None"
| "trail CLOSED = None"

lemmas transition_eqs = transition_def moves_def

lemma trail_step: "trail p = Some (e # es) \<longleftrightarrow> (\<exists>q. transition p e = Inr q \<and> trail q = Some es)"
  by (cases p; cases e) (auto simp: transition_eqs)

lemma completes: "foldE transition p es = Inr COMPLETE \<longleftrightarrow> trail p = Some es"
proof (induction es arbitrary: p)
  case Nil
  show ?case by (cases p) auto
next
  case (Cons e es)
  then show ?case by (simp add: trail_step bindE_eq_Inr)
qed

lemma transition_closed: "transition CLOSED e = Inr p \<longleftrightarrow> e = CLOSE \<and> p = CLOSED"
  by (cases e) (auto simp: transition_eqs)

lemma closed_forever: "foldE transition CLOSED es = Inr p \<Longrightarrow> p = CLOSED"
  by (induction es) (auto simp: transition_closed bindE_eq_Inr)

section \<open>The wire form\<close>

lemma scope_wire_ok:
  "scope_wire s = Inr w \<longleftrightarrow> list_all2 identity_bytes [32, 32, 32, 32, 16] (identities s)
     \<and> 1024 \<le> scope_size s \<and> scope_size s \<le> 8589934592 \<and> scope_size s mod 512 = 0 \<and> 1 \<le> entries s \<and> entries s \<le> 524288
     \<and> 0 < deadline s \<and> deadline s \<le> 2 ^ 63 - 1
     \<and> w = bs ''NIAHND01'' @ concat (identities s) @ be64 (scope_size s) @ be64 (entries s) @ be64 (deadline s) @ replicate 16 0"
  by (auto simp: scope_wire_def identities_def)

definition scope_fields :: "'z scope_scheme \<Rightarrow> pybytes" where
  "scope_fields s = concat (identities s) @ be64 (scope_size s) @ be64 (entries s) @ be64 (deadline s)"

lemma scope_fields_length: "scope_wire s = Inr w \<Longrightarrow> length (scope_fields s) = 168 \<and> w = bs ''NIAHND01'' @ scope_fields s @ replicate 16 0"
  unfolding scope_wire_ok by (auto simp: scope_fields_def identities_def identity_bytes_def)

lemma scope_fields_inj:
  assumes "scope_wire s = Inr w" "scope_wire s' = Inr w'" "scope_fields s = scope_fields s'"
  shows "scope.truncate s = scope.truncate s'"
proof -
  have lens: "map length (identities s) = map length (identities s')"
    using assms(1,2) by (simp add: scope_wire_ok identities_def identity_bytes_def)
  have "concat (identities s) @ (be64 (scope_size s) @ be64 (entries s) @ be64 (deadline s))
     = concat (identities s') @ (be64 (scope_size s') @ be64 (entries s') @ be64 (deadline s'))"
    using assms(3) by (simp add: scope_fields_def)
  then have ids: "identities s = identities s'" and nums: "be64 (scope_size s) = be64 (scope_size s')" "be64 (entries s) = be64 (entries s')"
      "be64 (deadline s) = be64 (deadline s')"
    using concat_lengths [OF lens] append_eq_append_conv [of "concat (identities s)" "concat (identities s')"] by simp_all
  have "scope_size s = scope_size s'" "entries s = entries s'" "deadline s = deadline s'"
    using nums assms(1,2) by (simp_all add: scope_wire_ok be64_inj)
  then show ?thesis using ids by (simp add: scope.truncate_def identities_def)
qed

lemma reinspection_wire_ok:
  "reinspection_wire s = Inr w \<longleftrightarrow> (\<exists>c. scope_wire s = Inr c) \<and> 0 < original_deadline s \<and> original_deadline s \<le> 2 ^ 63 - 1
     \<and> 0 < mount_id s \<and> mount_id s \<le> 2 ^ 64 - 1 \<and> 0 < inode s \<and> inode s \<le> 2 ^ 64 - 1
     \<and> 0 \<le> device_major s \<and> device_major s \<le> 2 ^ 32 - 1 \<and> 0 \<le> device_minor s \<and> device_minor s \<le> 2 ^ 32 - 1
     \<and> w = bs ''NIAHRV01'' @ scope_fields s @ be64 (original_deadline s) @ be64 (mount_id s) @ be64 (inode s)
       @ be32_int (device_major s) @ be32_int (device_minor s) @ replicate 16 0"
proof (cases "scope_wire s")
  case (Inl e)
  then show ?thesis by (simp add: reinspection_wire_def)
next
  case (Inr c)
  have "slice 8 176 c = scope_fields s"
    using scope_fields_length [OF Inr] by (simp add: slice_def)
  then show ?thesis using Inr by (auto simp: reinspection_wire_def)
qed

lemma be32_int_inj:
  assumes "0 \<le> m" "m < 2 ^ 32" "0 \<le> n" "n < 2 ^ 32" "be32_int m = be32_int n"
  shows "m = n"
proof -
  have inv: "int (from_be (be32_int k)) = k" if "0 \<le> k" "k < 2 ^ 32" for k
  proof -
    have "nat k < 256 ^ 4" using that by (simp add: nat_less_iff)
    then show ?thesis using that by (simp add: be32_int_def from_to_be)
  qed
  show ?thesis using inv [OF assms(1,2)] inv [OF assms(3,4)] assms(5) by metis
qed

lemma length_be32_int [simp]: "length (be32_int n) = 4"
  by (simp add: be32_int_def)

lemma reinspection_wire_inj:
  assumes "reinspection_wire s = Inr w" "reinspection_wire s' = Inr w"
  shows "s = s'"
proof -
  from assms obtain c c' where c: "scope_wire s = Inr c" "scope_wire s' = Inr c'" by (auto simp: reinspection_wire_ok)
  have "scope_fields s @ (be64 (original_deadline s) @ be64 (mount_id s) @ be64 (inode s) @ be32_int (device_major s) @ be32_int (device_minor s))
     = scope_fields s' @ (be64 (original_deadline s') @ be64 (mount_id s') @ be64 (inode s') @ be32_int (device_major s') @ be32_int (device_minor s'))"
    using assms by (simp add: reinspection_wire_ok)
  then have f: "scope_fields s = scope_fields s'" and nums: "be64 (original_deadline s) = be64 (original_deadline s')"
     "be64 (mount_id s) = be64 (mount_id s')" "be64 (inode s) = be64 (inode s')" "be32_int (device_major s) = be32_int (device_major s')"
     "be32_int (device_minor s) = be32_int (device_minor s')"
    using scope_fields_length [OF c(1)] scope_fields_length [OF c(2)]
      append_eq_append_conv [of "scope_fields s" "scope_fields s'"] by simp_all
  have "original_deadline s = original_deadline s'" "mount_id s = mount_id s'" "inode s = inode s'"
     "device_major s = device_major s'" "device_minor s = device_minor s'"
    using nums assms by (auto simp: reinspection_wire_ok be64_inj intro: be32_int_inj)
  then show ?thesis using scope_fields_inj [OF c f] by (simp add: scope.truncate_def)
qed

section \<open>What the channel operations do\<close>

definition living :: "alive \<Rightarrow> channel \<Rightarrow> bool" where
  "living a s \<longleftrightarrow> owner s = a_pid a \<and> a_uid a = 0 \<and> a_euid a = 0 \<and> a_now a < deadline_of (scope s) \<and> 0 \<le> pidfd s \<and> a_exited a = Inr False"

lemma living_update [simp]: "living a (s\<lparr>phase := p\<rparr>) = living a s" "living a (s\<lparr>descriptors := d\<rparr>) = living a s"
  by (simp_all add: living_def)

lemma alive_cases:
  obtains "living a s" "alive a s = (Inr (), s)" | e where "\<not> living a s" "alive a s = (Inl e, s)"
proof -
  have "alive a s = (Inr (), s) \<and> living a s \<or> (\<exists>e. alive a s = (Inl e, s)) \<and> \<not> living a s"
    by (cases "a_exited a") (auto simp: alive_def then_reject bind_lift reject_eq rejected_def living_def)
  then show thesis using that by blast
qed

text \<open>Two methods agree up to which exception is raised.\<close>

definition raises :: "'a res \<times> 's \<Rightarrow> 's \<Rightarrow> bool" where
  "raises x t \<longleftrightarrow> (\<exists>e. x = (Inl e, t))"

lemma raises_rejected [simp]: "raises (rejected msg, t) t" "raises (Inl e, t) t" "\<not> raises (Inr y, t') t"
  by (auto simp: raises_def rejected_def)

lemma alive_eq: "living a s \<Longrightarrow> alive a s = (Inr (), s)" "\<not> living a s \<Longrightarrow> raises (alive a s) s"
  by (cases rule: alive_cases [of a s]; simp)+

lemma then_raises: "raises (m s) t \<Longrightarrow> raises (thenS m f s) t" "raises (b s) t \<Longrightarrow> raises (bindS b g s) t"
  by (auto simp: raises_def thenS_def bindS_def)

lemma then_eq: "m s = (Inr (), t) \<Longrightarrow> thenS m f s = f t" "b s = (Inr x, t) \<Longrightarrow> bindS b g s = g x t"
  by (auto simp: thenS_def bindS_def)

definition reachable_peer :: "channel \<Rightarrow> bool" where
  "reachable_peer s \<longleftrightarrow> peer s \<noteq> None \<and> phase s \<noteq> CLOSED"

lemma the_peer_eq: "reachable_peer s \<Longrightarrow> the_peer s = (Inr (the (peer s)), s)" "\<not> reachable_peer s \<Longrightarrow> raises (the_peer s) s"
  by (auto simp: the_peer_def then_reject getS_def reachable_peer_def)

definition undisturbed :: "alive \<Rightarrow> bool \<Rightarrow> channel \<Rightarrow> bool" where
  "undisturbed a readable s \<longleftrightarrow> living a s \<and> reachable_peer s \<and> \<not> readable"

lemma current_eq: "undisturbed a readable s \<Longrightarrow> current a readable s = (Inr (), s)"
    "\<not> undisturbed a readable s \<Longrightarrow> raises (current a readable s) s"
proof -
  show "undisturbed a readable s \<Longrightarrow> current a readable s = (Inr (), s)"
    by (simp add: undisturbed_def current_def then_eq alive_eq the_peer_eq reject_eq)
  show "\<not> undisturbed a readable s \<Longrightarrow> raises (current a readable s) s"
    unfolding current_def undisturbed_def
    by (cases "living a s"; cases "reachable_peer s")
      (auto simp: then_eq alive_eq the_peer_eq reject_eq intro: then_raises)
qed

text \<open>A poll that leaves the wait going, and one that ends it.\<close>

definition quiet :: "alive \<times> (int \<times> int) list res \<Rightarrow> int \<Rightarrow> channel \<Rightarrow> bool" where
  "quiet q events s \<longleftrightarrow> living (fst q) s \<and> (\<exists>l. snd q = Inr l \<and> scan_events (pidfd s) events l = Inr False)"

definition ready :: "alive \<times> (int \<times> int) list res \<Rightarrow> int \<Rightarrow> channel \<Rightarrow> bool" where
  "ready q events s \<longleftrightarrow> living (fst q) s \<and> (\<exists>l. snd q = Inr l \<and> scan_events (pidfd s) events l = Inr True)"

lemma poll_eq:
  "ready q events s \<Longrightarrow> poll_once events q s = (Inr True, s)" "quiet q events s \<Longrightarrow> poll_once events q s = (Inr False, s)"
  "\<not> ready q events s \<Longrightarrow> \<not> quiet q events s \<Longrightarrow> raises (poll_once events q s) s"
proof -
  show "ready q events s \<Longrightarrow> poll_once events q s = (Inr True, s)" "quiet q events s \<Longrightarrow> poll_once events q s = (Inr False, s)"
    by (auto simp: poll_once_def ready_def quiet_def then_eq alive_eq bind_lift bind_get lift_eq)
  assume a: "\<not> ready q events s" "\<not> quiet q events s"
  show "raises (poll_once events q s) s"
  proof (cases "living (fst q) s")
    case False
    then show ?thesis unfolding poll_once_def by (intro then_raises alive_eq)
  next
    case True
    then have once: "poll_once events q s = (case snd q of Inl e \<Rightarrow> (Inl e, s) | Inr l \<Rightarrow> (scan_events (pidfd s) events l, s))"
      by (simp add: poll_once_def then_eq alive_eq bind_lift bind_get lift_eq split: sum.split)
    have no: "scan_events (pidfd s) events l \<noteq> Inr b" if "snd q = Inr l" for l b
      using a True that by (cases b) (auto simp: ready_def quiet_def)
    show ?thesis
    proof (cases "snd q")
      case (Inr l)
      then show ?thesis using no [OF Inr] by (cases "scan_events (pidfd s) events l") (auto simp: once)
    qed (simp add: once)
  qed
qed

definition waited :: "(nat \<Rightarrow> alive \<times> (int \<times> int) list res) \<Rightarrow> nat \<Rightarrow> int \<Rightarrow> channel \<Rightarrow> nat \<Rightarrow> bool" where
  "waited polls n events s k \<longleftrightarrow> k < n \<and> (\<forall>i < k. quiet (polls i) events s) \<and> ready (polls k) events s"

lemma ready_not_quiet: "ready q events s \<Longrightarrow> \<not> quiet q events s"
  by (auto simp: ready_def quiet_def)

lemma waited_Suc: "waited (\<lambda>j. polls (i + j)) (Suc n) events s k \<longleftrightarrow>
    (k = 0 \<and> ready (polls i) events s) \<or> (\<exists>k'. k = Suc k' \<and> quiet (polls i) events s \<and> waited (\<lambda>j. polls (Suc i + j)) n events s k')"
  unfolding waited_def by (cases k) (auto simp: less_Suc_eq_0_disj)

lemma wait_loop_eq:
  "if \<exists>k. waited (\<lambda>j. polls (i + j)) n events s k then wait_loop n polls i events s = (Inr (), s)
   else raises (wait_loop n polls i events s) s"
proof (induction n arbitrary: i)
  case 0
  show ?case by (simp add: waited_def)
next
  case (Suc n)
  consider (ready) "ready (polls i) events s" | (quiet) "quiet (polls i) events s" "\<not> ready (polls i) events s"
    | (bad) "\<not> ready (polls i) events s" "\<not> quiet (polls i) events s" by blast
  then show ?case
  proof cases
    case ready
    then have "\<exists>k. waited (\<lambda>j. polls (i + j)) (Suc n) events s k" by (auto simp: waited_Suc)
    then show ?thesis using ready by (simp add: then_eq poll_eq ret_eq)
  next
    case quiet
    then have "wait_loop (Suc n) polls i events s = wait_loop n polls (Suc i) events s" by (simp add: then_eq poll_eq)
    moreover have "(\<exists>k. waited (\<lambda>j. polls (i + j)) (Suc n) events s k) = (\<exists>k. waited (\<lambda>j. polls (Suc i + j)) n events s k)"
      using quiet by (auto simp: waited_Suc)
    ultimately show ?thesis using Suc [of "Suc i"] by presburger
  next
    case bad
    then have "\<not> (\<exists>k. waited (\<lambda>j. polls (i + j)) (Suc n) events s k)" by (auto simp: waited_Suc)
    then show ?thesis using bad by (simp add: then_raises poll_eq)
  qed
qed

definition waits :: "(nat \<Rightarrow> alive \<times> (int \<times> int) list res) \<Rightarrow> int \<Rightarrow> channel \<Rightarrow> bool" where
  "waits polls events s \<longleftrightarrow> reachable_peer s \<and> (\<exists>k. waited polls MAX_POLLS events s k)"

lemma wait_eq: "waits polls events s \<Longrightarrow> wait polls events s = (Inr (), s)" "\<not> waits polls events s \<Longrightarrow> raises (wait polls events s) s"
  using wait_loop_eq [of polls 0 MAX_POLLS events s]
  by (cases "reachable_peer s"; auto simp: wait_def waits_def then_eq the_peer_eq intro: then_raises)+

lemma release_inputs_eq: "release_inputs bad s = ((if filter bad (descriptors s) = [] then Inr ()
     else Inl (ExceptionGroup (u ''handoff-input-release'') (map (\<lambda>_. OSError) (filter bad (descriptors s))))), s\<lparr>descriptors := []\<rparr>)"
  by (simp add: release_inputs_def release_errors_def bind_get then_modify lift_eq)

text \<open>The exception path of \<open>receive\<close>, from a phase in which failing is possible.\<close>

definition failing :: "phase \<Rightarrow> bool" where
  "failing p \<longleftrightarrow> p \<noteq> CLOSED \<and> p \<noteq> COMPLETE"

lemma advance_eq: "advance e s = (case transition (phase s) e of Inl x \<Rightarrow> (Inl x, s) | Inr p \<Rightarrow> (Inr (), s\<lparr>phase := p\<rparr>))"
  by (simp add: advance_def)

lemma advance_fail: "failing (phase s) \<Longrightarrow> advance FAIL s = (Inr (), s\<lparr>phase := FAILED\<rparr>)"
  by (cases "phase s") (simp_all add: advance_eq transition_eqs failing_def)

lemma except_fail_release:
  assumes "raises (m s) s'" "failing (phase s')"
  shows "raises (exceptS m (thenS (advance FAIL) (release_inputs bad)) s) (s'\<lparr>phase := FAILED, descriptors := []\<rparr>)"
  using assms by (auto simp: raises_def exceptS_def then_eq advance_fail release_inputs_eq)

lemma except_fine: "m s = (Inr x, t) \<Longrightarrow> exceptS m h s = (Inr x, t)"
  by (simp add: exceptS_def)

text \<open>The message carries exactly the credentials of the child and two descriptors, and is the scope.\<close>

definition genuine :: "message \<Rightarrow> channel \<Rightarrow> int \<Rightarrow> int \<Rightarrow> bool" where
  "genuine m s x y \<longleftrightarrow> (\<exists>gid. read_controls m [] = (False, [x, y], [(child_pid s, child_uid s, gid)])) \<and> m_raw m = expected s"

lemma accept_eq:
  assumes "phase s = RECEIVING" "descriptors s = []"
  shows "if \<exists>x y. genuine m s x y \<and> undisturbed a readable s
     then \<exists>x y. genuine m s x y \<and> accept_message m a readable s = (Inr (x, y), s\<lparr>descriptors := [x, y], phase := RECEIVED\<rparr>)
     else \<exists>d. raises (accept_message m a readable s) (s\<lparr>descriptors := d\<rparr>)"
proof -
  obtain bad fds creds where rc: "read_controls m [] = (bad, fds, creds)" by (cases "read_controls m []") auto
  define s1 where "s1 = s\<lparr>descriptors := fds\<rparr>"
  have und: "undisturbed a readable s1 = undisturbed a readable s"
    by (simp add: s1_def undisturbed_def reachable_peer_def)
  define refused where "refused \<longleftrightarrow> bad \<or> length creds \<noteq> 1 \<or> fst (hd creds) \<noteq> child_pid s \<or> fst (snd (hd creds)) \<noteq> child_uid s \<or> length fds \<noteq> 2 \<or> m_raw m \<noteq> expected s"
  have acc: "accept_message m a readable s =
     (if refused
      then (rejected ''sender-scope-or-descriptors'', s1)
      else thenS (current a readable) (thenS (advance ACCEPT) (getS (\<lambda>s. (descriptors s ! 0, descriptors s ! 1)))) s1)"
    by (simp add: accept_message_def bind_get assms(2) rc then_modify then_reject s1_def refused_def)
  have gen: "(\<exists>x y. genuine m s x y) \<longleftrightarrow>
     \<not> refused"
    by (cases creds; cases "tl creds") (auto simp: refused_def genuine_def rc length_Suc_conv numeral_2_eq_2)
  show ?thesis
  proof (cases "(\<exists>x y. genuine m s x y) \<and> undisturbed a readable s")
    case True
    then obtain x y where xy: "genuine m s x y" by blast
    then have fds: "fds = [x, y]" by (auto simp: genuine_def rc)
    have "accept_message m a readable s = thenS (current a readable) (thenS (advance ACCEPT) (getS (\<lambda>s. (descriptors s ! 0, descriptors s ! 1)))) s1"
      using acc gen True by simp
    also have "\<dots> = (Inr (x, y), s1\<lparr>phase := RECEIVED\<rparr>)"
      using True und assms(1) by (simp add: then_eq current_eq advance_eq transition_eqs getS_def s1_def fds)
    finally show ?thesis using True xy by (auto simp: s1_def fds)
  next
    case False
    have "raises (accept_message m a readable s) s1"
    proof (cases "\<exists>x y. genuine m s x y")
      case True
      then have "accept_message m a readable s = thenS (current a readable) (thenS (advance ACCEPT) (getS (\<lambda>s. (descriptors s ! 0, descriptors s ! 1)))) s1"
        using acc gen True by simp
      then show ?thesis using False True und by (simp add: then_raises current_eq)
    next
      case no: False
      then have "accept_message m a readable s = (rejected ''sender-scope-or-descriptors'', s1)"
        using acc gen no by simp
      then show ?thesis by simp
    qed
    then show ?thesis using False by (auto simp: s1_def)
  qed
qed

lemma phase_update [simp]:
  "quiet q e (s\<lparr>phase := p\<rparr>) = quiet q e s" "ready q e (s\<lparr>phase := p\<rparr>) = ready q e s"
  "waited polls n e (s\<lparr>phase := p\<rparr>) k = waited polls n e s k"
  "genuine m (s\<lparr>phase := p\<rparr>) x y = genuine m s x y"
  "reachable_peer (s\<lparr>phase := p\<rparr>) = (peer s \<noteq> None \<and> p \<noteq> CLOSED)"
  by (simp_all add: quiet_def ready_def waited_def genuine_def reachable_peer_def)

definition receives :: "receiving \<Rightarrow> channel \<Rightarrow> int \<Rightarrow> int \<Rightarrow> bool" where
  "receives r s x y \<longleftrightarrow> phase s = READY \<and> peer s \<noteq> None
     \<and> (if r_wait r then \<exists>k. waited (r_polls r) MAX_POLLS POLLIN s k else living (r_alive r) s)
     \<and> (\<exists>m. r_message r = Inr m \<and> genuine m s x y) \<and> living (r_after r) s \<and> \<not> r_readable r"

lemma receive_body:
  assumes "phase s = RECEIVING" "descriptors s = []"
  shows "if \<exists>x y. receives r (s\<lparr>phase := READY\<rparr>) x y
     then \<exists>x y. receives r (s\<lparr>phase := READY\<rparr>) x y \<and> receive_try r s = (Inr (x, y), s\<lparr>descriptors := [x, y], phase := RECEIVED\<rparr>)
     else \<exists>d. raises (receive_try r s) (s\<lparr>descriptors := d\<rparr>)"
proof -
  define first where "first = (if r_wait r then waits (r_polls r) POLLIN s else living (r_alive r) s)"
  have none: "raises (receive_try r s) s \<Longrightarrow> \<exists>d. raises (receive_try r s) (s\<lparr>descriptors := d\<rparr>)"
    by (rule exI [of _ "descriptors s"]) simp
  have rec: "receives r (s\<lparr>phase := READY\<rparr>) x y \<longleftrightarrow> first \<and> reachable_peer s \<and> (\<exists>m. r_message r = Inr m \<and> genuine m s x y \<and> undisturbed (r_after r) (r_readable r) s)" for x y
    using assms(1) by (auto simp: receives_def first_def waits_def reachable_peer_def undisturbed_def)
  show ?thesis
  proof (cases "first \<and> reachable_peer s")
    case False
    have "raises (receive_try r s) s"
    proof (cases first)
      case True
      then have "(if r_wait r then wait (r_polls r) POLLIN else alive (r_alive r)) s = (Inr (), s)"
        by (auto simp: first_def wait_eq alive_eq split: if_splits)
      then show ?thesis using False True unfolding receive_try_def by (simp add: then_eq then_raises the_peer_eq)
    next
      case no: False
      then have "raises ((if r_wait r then wait (r_polls r) POLLIN else alive (r_alive r)) s) s"
        by (auto simp: first_def wait_eq alive_eq split: if_splits)
      then show ?thesis unfolding receive_try_def by (rule then_raises)
    qed
    moreover have "\<not> (\<exists>x y. receives r (s\<lparr>phase := READY\<rparr>) x y)" using False rec by blast
    ultimately show ?thesis using none by simp
  next
    case True
    then have "(if r_wait r then wait (r_polls r) POLLIN else alive (r_alive r)) s = (Inr (), s)"
      by (auto simp: first_def wait_eq alive_eq split: if_splits)
    then have body: "receive_try r s = (case r_message r of Inl e \<Rightarrow> (Inl e, s) | Inr m \<Rightarrow> accept_message m (r_after r) (r_readable r) s)"
      using True by (simp add: receive_try_def then_eq the_peer_eq bind_lift)
    show ?thesis
    proof (cases "r_message r")
      case (Inl e)
      then show ?thesis using none body by (simp add: rec)
    next
      case (Inr m)
      then show ?thesis using accept_eq [OF assms(1,2), of m "r_after r" "r_readable r"] True body
        by (auto simp: rec split: if_splits)
    qed
  qed
qed

lemma receive_eq:
  assumes "phase s = READY" "descriptors s = []"
  shows "if \<exists>x y. receives r s x y
     then \<exists>x y. receives r s x y \<and> receive r s = (Inr (x, y), s\<lparr>phase := RECEIVED, descriptors := [x, y]\<rparr>)
     else raises (receive r s) (s\<lparr>phase := FAILED, descriptors := []\<rparr>)"
proof -
  define s1 where "s1 = s\<lparr>phase := RECEIVING\<rparr>"
  have s1: "phase s1 = RECEIVING" "descriptors s1 = []" "s1\<lparr>phase := READY\<rparr> = s" using assms by (simp_all add: s1_def)
  have rec: "receive r s = exceptS (receive_try r) (thenS (advance FAIL) (release_inputs (r_close r))) s1"
    using assms(1) by (simp add: receive_def then_eq advance_eq transition_eqs s1_def)
  note b = receive_body [OF s1(1,2), of r, unfolded s1(3)]
  show ?thesis
  proof (cases "\<exists>x y. receives r s x y")
    case True
    with b obtain x y where "receives r s x y" "receive_try r s1 = (Inr (x, y), s1\<lparr>descriptors := [x, y], phase := RECEIVED\<rparr>)" by auto
    then show ?thesis using rec by (auto simp: except_fine s1_def)
  next
    case False
    with b obtain d where "raises (receive_try r s1) (s1\<lparr>descriptors := d\<rparr>)" by auto
    then have "raises (receive r s) (s1\<lparr>descriptors := d, phase := FAILED, descriptors := []\<rparr>)"
      unfolding rec by (intro except_fail_release [of "receive_try r" s1 "s1\<lparr>descriptors := d\<rparr>"]) (simp_all add: s1_def failing_def)
    then show ?thesis using False by (simp add: s1_def)
  qed
qed

lemma receive_order: "phase s \<noteq> READY \<Longrightarrow> receive r s = (rejected ''invalid-channel-transition'', s)"
  by (cases "phase s") (simp_all add: receive_def thenS_def bindS_def advance_eq transition_eqs rejected_def)

lemma chain_raises: "raises (m s) t \<or> (m s = (Inr (), t) \<and> raises (f t) t) \<Longrightarrow> raises (thenS m f s) t"
  by (auto simp: raises_def thenS_def bindS_def)

definition completes_with :: "completing \<Rightarrow> channel \<Rightarrow> bool" where
  "completes_with k s \<longleftrightarrow> phase s = RECEIVED \<and> (\<forall>fd \<in> set (descriptors s). \<not> k_close k fd) \<and> peer s \<noteq> None
     \<and> living (k_before k) s \<and> \<not> k_readable k \<and> (k_wait k \<longrightarrow> (\<exists>n. waited (k_polls k) MAX_POLLS POLLOUT s n))
     \<and> living (k_after k) s \<and> \<not> k_readable_after k \<and> k_sent k = Inr 40"

lemma descriptors_update [simp]:
  "waited polls n e (s\<lparr>descriptors := d\<rparr>) i = waited polls n e s i" "reachable_peer (s\<lparr>descriptors := d\<rparr>) = reachable_peer s"
  by (simp_all add: waited_def quiet_def ready_def reachable_peer_def)

lemma length_reply: "length (reply s) = 40"
  by (cases "scope s") (simp_all add: reply_def bs_def)

lemma complete_body:
  assumes "phase s = COMPLETING"
  shows "if completes_with k (s\<lparr>phase := RECEIVED\<rparr>) then complete_try k s = (Inr (), s\<lparr>descriptors := [], phase := COMPLETE\<rparr>)
     else raises (complete_try k s) (s\<lparr>descriptors := []\<rparr>)"
proof -
  define t where "t = s\<lparr>descriptors := []\<rparr>"
  define send where "send = bindS the_peer (\<lambda>_. bindS (liftS (k_sent k)) (\<lambda>n.
        thenS (rejectS (\<lambda>s. n \<noteq> int (length (reply s))) ''uncertain-reply'') (advance ACK)))"
  define rest where "rest = thenS (current (k_before k) (k_readable k))
     (thenS (if k_wait k then wait (k_polls k) POLLOUT else ret ()) (thenS (current (k_after k) (k_readable_after k)) send))"
  define a b c where "a = undisturbed (k_before k) (k_readable k) t" and "b = (k_wait k \<longrightarrow> waits (k_polls k) POLLOUT t)"
    and "c = undisturbed (k_after k) (k_readable_after k) t"
  have send: "if reachable_peer t \<and> k_sent k = Inr 40 then send t = (Inr (), t\<lparr>phase := COMPLETE\<rparr>) else raises (send t) t"
  proof (cases "reachable_peer t")
    case True
    then have "send t = (case k_sent k of Inl e \<Rightarrow> (Inl e, t) | Inr n \<Rightarrow> if n = 40 then (Inr (), t\<lparr>phase := COMPLETE\<rparr>) else (rejected ''uncertain-reply'', t))"
      using assms by (simp add: send_def then_eq the_peer_eq bind_lift then_reject length_reply advance_eq transition_eqs t_def split: sum.split)
    then show ?thesis using True by (cases "k_sent k") auto
  qed (simp add: send_def then_raises the_peer_eq)
  have try_eq: "complete_try k s = (if filter (k_close k) (descriptors s) = [] then rest t
      else (Inl (ExceptionGroup (u ''handoff-input-release'') (map (\<lambda>_. OSError) (filter (k_close k) (descriptors s)))), t))"
    by (simp add: complete_try_def rest_def send_def thenS_def bindS_def release_inputs_eq t_def)
  have wait_b: "if b then (if k_wait k then wait (k_polls k) POLLOUT else ret ()) t = (Inr (), t)
     else raises ((if k_wait k then wait (k_polls k) POLLOUT else ret ()) t) t"
    by (auto simp: b_def wait_eq ret_eq)
  have rest: "if a \<and> b \<and> c \<and> k_sent k = Inr 40 then rest t = (Inr (), t\<lparr>phase := COMPLETE\<rparr>) else raises (rest t) t"
  proof (cases "a \<and> b \<and> c")
    case True
    then have "rest t = send t" using wait_b by (simp add: rest_def a_def c_def then_eq current_eq)
    moreover have "reachable_peer t" using True by (simp add: a_def undisturbed_def)
    ultimately show ?thesis using send True by simp
  next
    case False
    have "raises (rest t) t"
    proof (cases a)
      case a: True
      then have r1: "rest t = thenS (if k_wait k then wait (k_polls k) POLLOUT else ret ()) (thenS (current (k_after k) (k_readable_after k)) send) t"
        by (simp add: rest_def a_def then_eq current_eq)
      show ?thesis
      proof (cases b)
        case True
        then have "rest t = thenS (current (k_after k) (k_readable_after k)) send t" using wait_b r1 by (simp add: then_eq)
        then show ?thesis using False True a by (simp add: c_def then_raises current_eq)
      qed (use wait_b r1 in \<open>simp add: then_raises\<close>)
    qed (simp add: rest_def a_def then_raises current_eq)
    moreover have "\<not> (a \<and> b \<and> c \<and> k_sent k = Inr 40)" using False by blast
    ultimately show ?thesis by (simp only: if_False)
  qed
  have com: "completes_with k (s\<lparr>phase := RECEIVED\<rparr>) \<longleftrightarrow> filter (k_close k) (descriptors s) = [] \<and> a \<and> b \<and> c \<and> k_sent k = Inr 40"
    using assms by (auto simp: completes_with_def a_def b_def c_def t_def undisturbed_def waits_def reachable_peer_def filter_empty_conv)
  show ?thesis
    using rest by (auto simp: com try_eq t_def)
qed

lemma complete_eq:
  assumes "phase s = RECEIVED"
  shows "if completes_with k s then complete k s = (Inr (), s\<lparr>phase := COMPLETE, descriptors := []\<rparr>)
     else raises (complete k s) (s\<lparr>phase := FAILED, descriptors := []\<rparr>)"
proof -
  define s1 where "s1 = s\<lparr>phase := COMPLETING\<rparr>"
  have s1: "phase s1 = COMPLETING" "s1\<lparr>phase := RECEIVED\<rparr> = s" using assms by (simp_all add: s1_def)
  have com: "complete k s = exceptS (complete_try k) (advance FAIL) s1"
    using assms by (simp add: complete_def then_eq advance_eq transition_eqs s1_def)
  have fail: "raises (m s1) t \<Longrightarrow> phase t = COMPLETING \<Longrightarrow> raises (exceptS m (advance FAIL) s1) (t\<lparr>phase := FAILED\<rparr>)" for m :: "(unit, channel) proc" and t
    by (auto simp: raises_def exceptS_def advance_fail failing_def)
  show ?thesis
  proof (cases "completes_with k s")
    case True
    with complete_body [OF s1(1), of k] have "complete_try k s1 = (Inr (), s1\<lparr>descriptors := [], phase := COMPLETE\<rparr>)"
      by (simp only: s1(2) if_True)
    then show ?thesis using True by (simp add: com except_fine) (simp add: s1_def)
  next
    case False
    with complete_body [OF s1(1), of k] have "raises (complete_try k s1) (s1\<lparr>descriptors := []\<rparr>)"
      by (simp only: s1(2) if_False)
    from fail [of "complete_try k" "s1\<lparr>descriptors := []\<rparr>", OF this] s1(1)
    have "raises (complete k s) (s1\<lparr>descriptors := [], phase := FAILED\<rparr>)" by (simp add: com)
    moreover have "s1\<lparr>descriptors := [], phase := FAILED\<rparr> = s\<lparr>phase := FAILED, descriptors := []\<rparr>" by (simp add: s1_def)
    ultimately show ?thesis using False by simp
  qed
qed

lemma complete_order: "phase s \<noteq> RECEIVED \<Longrightarrow> complete k s = (rejected ''invalid-channel-transition'', s)"
  by (cases "phase s") (simp_all add: complete_def thenS_def bindS_def advance_eq transition_eqs rejected_def)

definition shut :: "channel \<Rightarrow> channel" where
  "shut s = s\<lparr>phase := CLOSED, descriptors := [], pidfd := - 1, peer := None\<rparr>"

lemma close_state: "snd (close c s) = shut s"
  by (auto simp: close_def then_eq advance_eq transition_eqs finallyS_def release_inputs_eq bind_get then_modify lift_eq shut_def
      split: sum.split prod.splits)

section \<open>Histories of a channel\<close>

datatype action = Receive receiving | Complete completing | Close closing

datatype outcome = Handed int int | Completed

fun channel_step :: "channel \<Rightarrow> action \<Rightarrow> outcome option \<times> channel" where
  "channel_step s (Receive r) = ((case fst (receive r s) of Inr (x, y) \<Rightarrow> Some (Handed x y) | Inl _ \<Rightarrow> None), snd (receive r s))"
| "channel_step s (Complete k) = ((case fst (complete k s) of Inr _ \<Rightarrow> Some Completed | Inl _ \<Rightarrow> None), snd (complete k s))"
| "channel_step s (Close c) = (None, snd (close c s))"

text \<open>\<open>history c h s\<close>: from \<open>c\<close> some operations lead to \<open>s\<close>, and \<open>h\<close> lists what succeeded.\<close>

inductive history :: "channel \<Rightarrow> outcome list \<Rightarrow> channel \<Rightarrow> bool" for c where
  opened: "history c [] c"
| silent: "history c h s \<Longrightarrow> channel_step s a = (None, t) \<Longrightarrow> history c h t"
| yielded: "history c h s \<Longrightarrow> channel_step s a = (Some x, t) \<Longrightarrow> history c (h @ [x]) t"

text \<open>Where a channel can be between two operations, and what has succeeded there.\<close>

fun agrees :: "outcome list \<Rightarrow> phase \<Rightarrow> int list \<Rightarrow> bool" where
  "agrees h READY ds = (h = [] \<and> ds = [])"
| "agrees h RECEIVED ds = (\<exists>x y. h = [Handed x y] \<and> ds = [x, y])"
| "agrees h COMPLETE ds = (ds = [] \<and> (\<exists>x y. h = [Handed x y, Completed]))"
| "agrees h FAILED ds = (ds = [] \<and> (h = [] \<or> (\<exists>x y. h = [Handed x y])))"
| "agrees h CLOSED ds = (ds = [] \<and> (h = [] \<or> (\<exists>x y. h = [Handed x y] \<or> h = [Handed x y, Completed])))"
| "agrees h p ds = False"

lemma channel_step_agrees:
  assumes "agrees h (phase s) (descriptors s)" "channel_step s a = (r, t)"
  shows "agrees (h @ (case r of None \<Rightarrow> [] | Some x \<Rightarrow> [x])) (phase t) (descriptors t)"
proof (cases a)
  case (Receive r')
  show ?thesis
  proof (cases "phase s = READY")
    case True
    then have "descriptors s = []" "h = []" using assms(1) by simp_all
    note eq = receive_eq [OF True this(1), of r']
    show ?thesis
    proof (cases "\<exists>x y. receives r' s x y")
      case True
      then obtain x y where "receive r' s = (Inr (x, y), s\<lparr>phase := RECEIVED, descriptors := [x, y]\<rparr>)" using eq by auto
      then show ?thesis using assms(2) Receive \<open>h = []\<close> by auto
    next
      case False
      then have "raises (receive r' s) (s\<lparr>phase := FAILED, descriptors := []\<rparr>)" using eq by simp
      then show ?thesis using assms(2) Receive \<open>h = []\<close> by (auto simp: raises_def)
    qed
  next
    case False
    then show ?thesis using assms Receive receive_order [of s r'] by (auto simp: rejected_def)
  qed
next
  case (Complete k)
  show ?thesis
  proof (cases "phase s = RECEIVED")
    case True
    then obtain x y where "descriptors s = [x, y]" "h = [Handed x y]" using assms(1) by auto
    with True complete_eq [of s k] show ?thesis
      using assms(2) Complete by (cases "completes_with k s") (auto simp: raises_def)
  next
    case False
    then show ?thesis using assms Complete complete_order [of s k] by (auto simp: rejected_def)
  qed
next
  case (Close c)
  then have "r = None" "t = shut s" using assms(2) close_state [of c s] by auto
  then show ?thesis using assms(1) by (cases "phase s") (auto simp: shut_def)
qed

lemma constructed: "(case x of (Inl e, _) \<Rightarrow> Inl e | (Inr _, s) \<Rightarrow> Inr s) = Inr c \<longleftrightarrow> x = (Inr (), c)"
  by (auto split: prod.splits sum.splits)

lemma open_channel_ready:
  assumes "open_channel a pid uid sc = Inr c"
  shows "phase c = READY \<and> descriptors c = []"
proof -
  obtain w where st: "start a \<lparr>peer = None, pidfd = - 1, descriptors = [], phase = STARTING, owner = i_pid a, expected = w, scope = sc,
                 child_pid = pid, child_uid = uid\<rparr> = (Inr (), c)"
    using assms unfolding open_channel_def bindE_eq_Inr if_rejected_eq_Inr constructed by blast
  then show ?thesis
    by (auto simp: start_def run_simps advance_eq transition_eqs alive_def)
qed

section \<open>Properties\<close>

text \<open>The events that lead a channel from its start to completion are the five of the protocol, in their
  order and nothing else; and a closed channel stays closed whatever happens.\<close>

theorem handoff_protocol:
  "(foldE transition STARTING es = Inr COMPLETE) = (es = [OPEN, RECEIVE, ACCEPT, COMPLETE_IT, ACK])
   \<and> foldE transition CLOSED fs \<in> {Inr CLOSED, rejected ''invalid-channel-transition''}"
proof -
  have "foldE transition CLOSED fs = Inr CLOSED \<or> foldE transition CLOSED fs = rejected ''invalid-channel-transition''"
  proof (induction fs)
    case (Cons f fs)
    then show ?case by (cases f) (auto simp: transition_eqs)
  qed simp
  then show ?thesis by (auto simp: completes)
qed

text \<open>C99: Over the life of a channel at most one pair of descriptors is handed out, at most one completion is
  confirmed, and only after the pair; descriptors are held only between the two, and none after a
  failure, a completion or \<open>close\<close>, in whatever order the operations are called and whatever the
  worker and the system answer.\<close>

theorem channel_history:
  assumes "open_channel a pid uid sc = Inr c" "history c h s"
  shows "(h = [] \<or> (\<exists>x y. h = [Handed x y] \<or> h = [Handed x y, Completed]))
     \<and> (descriptors s = [] \<or> (\<exists>x y. h = [Handed x y] \<and> descriptors s = [x, y] \<and> phase s = RECEIVED))
     \<and> (phase s = COMPLETE \<longrightarrow> length h = 2)"
proof -
  from assms(2) have "agrees h (phase s) (descriptors s)"
  proof (induction rule: history.induct)
    case opened
    then show ?case using open_channel_ready [OF assms(1)] by simp
  next
    case (silent h s x t)
    from channel_step_agrees [OF silent.IH silent.hyps(2)] show ?case by simp
  next
    case (yielded h s x y t)
    from channel_step_agrees [OF yielded.IH yielded.hyps(2)] show ?case by simp
  qed
  then show ?thesis by (cases "phase s") auto
qed

text \<open>C100: \<open>receive\<close> on a ready channel hands out a pair exactly when the wait ends within its 1200 polls (or none is
  asked for and the child is alive), the message is the scope and carries only the child's
  credentials and the two descriptors, and the child is still alive and silent afterwards; otherwise
  it raises, the channel has failed and holds no descriptor.\<close>

theorem receive_handed:
  assumes "phase s = READY" "descriptors s = []"
  shows "(if \<exists>x y. receives r s x y
     then \<exists>x y. receives r s x y \<and> receive r s = (Inr (x, y), s\<lparr>phase := RECEIVED, descriptors := [x, y]\<rparr>)
     else \<exists>e. receive r s = (Inl e, s\<lparr>phase := FAILED, descriptors := []\<rparr>))"
  using receive_eq [OF assms, of r] unfolding raises_def .

text \<open>C23: The wait polls at most 1200 times: it returns exactly when some poll among the first 1200 finds the
  peer ready and all before it were quiet, and raises otherwise, with the channel unchanged.\<close>

theorem wait_terminates:
  "(wait polls events s = (Inr (), s)) = (reachable_peer s \<and> (\<exists>k. waited polls 1200 events s k))
   \<and> snd (wait polls events s) = s"
  using wait_eq [of polls events s]
  by (cases "waits polls events s") (auto simp: waits_def MAX_POLLS_def raises_def)

text \<open>Every accepted scope is determined by its wire form, of 192 or 224 bytes by its kind, so that no two
  scopes can be confused in the worker's message.\<close>

theorem wire_determined:
  assumes "wire a = Inr w" "wire b = Inr w"
  shows "a = b \<and> length w = (case a of Prepare _ \<Rightarrow> 192 | Reinspect _ \<Rightarrow> 224)"
proof -
  have prep: "length w = 192 \<and> take 8 w = bs ''NIAHND01''" if "scope_wire s = Inr w" for s :: scope
    using scope_fields_length [OF that] by (auto simp: bs_def)
  have rein: "length w = 224 \<and> take 8 w = bs ''NIAHRV01''" if "reinspection_wire s = Inr w" for s
  proof -
    from that obtain c where "scope_wire s = Inr c" by (auto simp: reinspection_wire_ok)
    from scope_fields_length [OF this] that show ?thesis by (auto simp: reinspection_wire_ok bs_def)
  qed
  show ?thesis
  proof (cases a)
    case (Prepare s)
    then have s: "scope_wire s = Inr w" using assms(1) by simp
    with prep rein assms(2) obtain s' where s': "b = Prepare s'" "scope_wire s' = Inr w" by (cases b) force+
    have "bs ''NIAHND01'' @ scope_fields s @ replicate 16 0 = bs ''NIAHND01'' @ scope_fields s' @ replicate 16 0"
      using scope_fields_length [OF s] scope_fields_length [OF s'(2)] by simp
    then have "scope_fields s = scope_fields s'" by simp
    from scope_fields_inj [OF s s'(2) this] show ?thesis using prep [OF s] s' Prepare by (simp add: scope.truncate_def)
  next
    case (Reinspect s)
    then have s: "reinspection_wire s = Inr w" using assms(1) by simp
    with prep rein assms(2) obtain s' where s': "b = Reinspect s'" "reinspection_wire s' = Inr w" by (cases b) force+
    from reinspection_wire_inj [OF s s'(2)] show ?thesis using rein [OF s] s' Reinspect by simp
  qed
qed

definition example_scope :: scope where
  "example_scope = \<lparr>generation = replicate 32 1, root_manifest = replicate 32 2, archive = replicate 32 3, worker = replicate 32 4,
     stage = replicate 16 5, scope_size = 1024, entries = 1, deadline = 9000\<rparr>"

lemma example_identity: "identity_bytes n (replicate n x) \<longleftrightarrow> 0 < n \<and> x \<noteq> 0"
  by (cases n) (auto simp: identity_bytes_def list_ex_iff)

lemma example_scope_ok: "is_ok (wire (Prepare example_scope))"
  by (simp add: scope_wire_def is_ok_def identities_def example_scope_def example_identity)

definition example_wire :: pybytes where
  "example_wire = bs ''NIAHND01'' @ scope_fields example_scope @ replicate 16 0"

lemma example_wire: "wire (Prepare example_scope) = Inr example_wire"
  using example_scope_ok scope_fields_length [of example_scope] by (auto simp: is_ok_def example_wire_def split: sum.splits)

theorem wire_determined_witness: "length example_wire = 192"
  using wire_determined [OF example_wire example_wire] by simp

definition example_alive :: alive where
  "example_alive = \<lparr>a_pid = 7, a_uid = 0, a_euid = 0, a_now = 1000, a_exited = Inr False\<rparr>"

definition example_launch :: launch where
  "example_launch = \<lparr>i_pid = 7, i_uid = 0, i_euid = 0, i_now = 1000, i_peer = Inr 3, i_private = True, i_peername = Inr (),
     i_pidfd = Inr 4, i_alive = example_alive, i_close = \<lparr>c_close = (\<lambda>_. False), c_pidfd = Inr (), c_peer = Inr ()\<rparr>\<rparr>"

definition example_channel :: channel where
  "example_channel = \<lparr>peer = Some 3, pidfd = 4, descriptors = [], phase = READY, owner = 7, expected = example_wire,
     scope = Prepare example_scope, child_pid = 55, child_uid = 1000\<rparr>"

lemma example_channel_open: "open_channel example_launch 55 1000 (Prepare example_scope) = Inr example_channel"
proof -
  have "start example_launch \<lparr>peer = None, pidfd = - 1, descriptors = [], phase = STARTING, owner = 7, expected = example_wire,
      scope = Prepare example_scope, child_pid = 55, child_uid = 1000\<rparr> = (Inr (), example_channel)"
    by (simp add: start_def exceptS_def bind_lift then_modify then_reject then_lift then_eq alive_eq living_def example_launch_def
        example_alive_def example_scope_def advance_eq transition_eqs example_channel_def)
  then show ?thesis
    by (simp add: open_channel_def example_wire del: wire.simps) (simp add: example_launch_def example_scope_def)
qed

definition example_message :: message where
  "example_message = \<lparr>m_raw = example_wire, m_controls = [(1, 2, [55, 0, 0, 0, 232, 3, 0, 0, 0, 0, 0, 0]), (1, 1, [8, 0, 0, 0, 9, 0, 0, 0])],
     m_flags = 1073741824, m_little = True\<rparr>"

lemma example_controls: "read_controls example_message [] = (False, [8, 9], [(55, 1000, 0)])"
proof -
  have "foldl (control_step True) ((1073741824 AND NOT EXPECTED_FLAGS) \<noteq> 0, [], [])
      [(1, 2, [55, 0, 0, 0, 232, 3, 0, 0, 0, 0, 0, 0]), (1, 1, [8, 0, 0, 0, 9, 0, 0, 0])] = (False, [8, 9], [(55, 1000, 0)])"
    by code_simp
  then show ?thesis by (simp add: read_controls_def example_message_def)
qed

definition example_receiving :: receiving where
  "example_receiving = \<lparr>r_wait = False, r_polls = (\<lambda>_. (example_alive, Inr [])), r_alive = example_alive, r_message = Inr example_message,
     r_after = example_alive, r_readable = False, r_close = (\<lambda>_. False)\<rparr>"

lemma example_receives: "receives example_receiving example_channel 8 9"
  by (simp add: receives_def example_receiving_def example_channel_def living_def example_alive_def example_scope_def genuine_def
      example_controls) (simp add: example_message_def)

lemma example_some: "\<exists>x y. receives example_receiving example_channel x y"
  using example_receives by blast

theorem receive_handed_witness:
  "\<exists>x y. receive example_receiving example_channel = (Inr (x, y), example_channel\<lparr>phase := RECEIVED, descriptors := [x, y]\<rparr>)"
proof -
  have "phase example_channel = READY" "descriptors example_channel = []" by (simp_all add: example_channel_def)
  from receive_handed [OF this, of example_receiving] show ?thesis by (simp only: example_some if_True) blast
qed

theorem channel_history_witness:
  "\<exists>s x y. history example_channel [Handed x y] s \<and> phase s = RECEIVED \<and> descriptors s = [x, y]"
proof -
  have ready: "phase example_channel = READY" "descriptors example_channel = []" by (simp_all add: example_channel_def)
  then obtain x y where rec: "receive example_receiving example_channel = (Inr (x, y), example_channel\<lparr>phase := RECEIVED, descriptors := [x, y]\<rparr>)"
    using receive_eq [OF ready, of example_receiving] by (simp only: example_some if_True) blast
  define s where "s = example_channel\<lparr>phase := RECEIVED, descriptors := [x, y]\<rparr>"
  have "history example_channel ([] @ [Handed x y]) s"
    using rec by (intro yielded [OF opened, of _ "Receive example_receiving"]) (simp add: s_def)
  then have h: "history example_channel [Handed x y] s" by simp
  moreover have "descriptors s \<noteq> []" by (simp add: s_def)
  ultimately have "phase s = RECEIVED \<and> descriptors s = [x, y]"
    using channel_history [OF example_channel_open h] by auto
  with h show ?thesis by blast
qed

end
