(* ===== verification/Py_Args.thy ===== *)
theory Py_Args
  imports Py_Str
begin

text \<open>
  The standard library's command line readers as the management grammar uses them: \<open>getopt.getopt\<close>
  with short options only, and \<open>shlex.split\<close> with its defaults (POSIX rules, no comments).
\<close>

section \<open>getopt\<close>

type_synonym option_pair = "nat \<times> pystr"

text \<open>Whether an option takes an argument; \<open>None\<close> when it is unknown. 58 is the colon.\<close>

fun short_has_arg :: "nat \<Rightarrow> pystr \<Rightarrow> bool option" where
  "short_has_arg c [] = None"
| "short_has_arg c (x # xs) = (if c = x \<and> x \<noteq> 58 then Some (startswith xs [58]) else short_has_arg c xs)"

text \<open>An error carries \<open>GetoptError.opt\<close>.\<close>

fun do_shorts :: "pystr \<Rightarrow> pystr \<Rightarrow> pystr list \<Rightarrow> pystr + (option_pair list \<times> pystr list)" where
  "do_shorts spec [] args = Inr ([], args)"
| "do_shorts spec (c # s) args = (case short_has_arg c spec of
       None \<Rightarrow> Inl [c]
     | Some True \<Rightarrow>
         if s = [] then (case args of [] \<Rightarrow> Inl [c] | a # rest \<Rightarrow> Inr ([(c, a)], rest)) else Inr ([(c, s)], args)
     | Some False \<Rightarrow> (case do_shorts spec s args of Inl e \<Rightarrow> Inl e | Inr (opts, rest) \<Rightarrow> Inr ((c, []) # opts, rest)))"

lemma do_shorts_shrinks: "do_shorts spec s args = Inr (opts, rest) \<Longrightarrow> length rest \<le> length args"
  by (induction spec s args arbitrary: opts rule: do_shorts.induct)
    (auto split: option.splits bool.splits if_splits list.splits sum.splits)

text \<open>45 is the dash, 61 the equals sign. A long option is always unknown.\<close>

function getopt :: "pystr \<Rightarrow> pystr list \<Rightarrow> pystr + (option_pair list \<times> pystr list)" where
  "getopt spec [] = Inr ([], [])"
| "getopt spec (a # args) =
     (if \<not> startswith a [45] \<or> a = [45] then Inr ([], a # args)
      else if a = [45, 45] then Inr ([], args)
      else if startswith a [45, 45] then Inl (takeWhile (\<lambda>c. c \<noteq> 61) (drop 2 a))
      else case do_shorts spec (tl a) args of
        Inl e \<Rightarrow> Inl e
      | Inr (opts, rest) \<Rightarrow> (case getopt spec rest of Inl e \<Rightarrow> Inl e | Inr (more, operands) \<Rightarrow> Inr (opts @ more, operands)))"
  by pat_completeness auto
termination
  by (relation "measure (\<lambda>(spec, args). length args)") (auto dest!: do_shorts_shrinks)

text \<open>What the options of an accepted command line are, and the command line that spells them apart.\<close>

definition option_ok :: "pystr \<Rightarrow> option_pair \<Rightarrow> bool" where
  "option_ok spec p \<longleftrightarrow> short_has_arg (fst p) spec = Some True \<or> short_has_arg (fst p) spec = Some False \<and> snd p = []"

definition spell :: "pystr \<Rightarrow> option_pair \<Rightarrow> pystr list" where
  "spell spec p = (if short_has_arg (fst p) spec = Some True then [[45, fst p], snd p] else [[45, fst p]])"

lemma short_has_arg_in: "short_has_arg c spec = Some b \<Longrightarrow> c \<in> set spec \<and> c \<noteq> 58"
  by (induction spec) (auto split: if_splits)

lemma do_shorts_ok: "do_shorts spec s args = Inr (opts, rest) \<Longrightarrow> list_all (option_ok spec) opts"
  by (induction spec s args arbitrary: opts rule: do_shorts.induct)
    (auto simp: option_ok_def split: option.splits bool.splits if_splits list.splits sum.splits)

lemma getopt_ok: "getopt spec args = Inr (opts, operands) \<Longrightarrow> list_all (option_ok spec) opts"
proof (induction spec args arbitrary: opts rule: getopt.induct)
  case (2 spec a args)
  show ?case
  proof (cases "\<not> startswith a [45] \<or> a = [45] \<or> a = [45, 45] \<or> startswith a [45, 45]")
    case True
    then show ?thesis using "2.prems" by (auto split: if_splits)
  next
    case False
    with "2.prems" obtain o1 rest more where d: "do_shorts spec (tl a) args = Inr (o1, rest)"
      "getopt spec rest = Inr (more, operands)" "opts = o1 @ more"
      by (auto split: sum.splits)
    then show ?thesis using do_shorts_ok [OF d(1)] "2.IH" [of "(o1, rest)" o1 rest more] False by auto
  qed
qed simp

text \<open>Every character of the result comes from the command line.\<close>

lemma do_shorts_chars:
  "do_shorts spec s args = Inr (opts, rest) \<Longrightarrow>
    (\<forall>(c, v) \<in> set opts. c \<in> set s \<and> (set v \<subseteq> set s \<or> v \<in> set args)) \<and> set rest \<subseteq> set args"
  by (induction spec s args arbitrary: opts rule: do_shorts.induct)
    (fastforce split: option.splits bool.splits if_splits list.splits sum.splits)+

definition drawn :: "nat set \<Rightarrow> option_pair \<Rightarrow> bool" where
  "drawn S p \<longleftrightarrow> fst p \<in> S \<and> set (snd p) \<subseteq> S"

lemma drawn_mono: "drawn S p \<Longrightarrow> S \<subseteq> T \<Longrightarrow> drawn T p"
  by (auto simp: drawn_def)

lemma getopt_chars:
  "getopt spec args = Inr (opts, operands) \<Longrightarrow> (\<forall>p \<in> set opts. drawn (set (concat args)) p) \<and> set operands \<subseteq> set args"
proof (induction spec args arbitrary: opts rule: getopt.induct)
  case (2 spec a args)
  show ?case
  proof (cases "\<not> startswith a [45] \<or> a = [45] \<or> a = [45, 45] \<or> startswith a [45, 45]")
    case True
    then show ?thesis using "2.prems" by (auto split: if_splits)
  next
    case False
    with "2.prems" obtain o1 rest more where d: "do_shorts spec (tl a) args = Inr (o1, rest)"
      "getopt spec rest = Inr (more, operands)" "opts = o1 @ more"
      by (auto split: sum.splits)
    have IH: "\<forall>p \<in> set more. drawn (set (concat rest)) p" "set operands \<subseteq> set rest"
      using "2.IH" [of "(o1, rest)" o1 rest more] d False by auto
    have rest: "set rest \<subseteq> set args" using do_shorts_chars [OF d(1)] by simp
    then have sub: "set (concat rest) \<subseteq> set (concat (a # args))" by auto
    have "drawn (set (concat (a # args))) p" if "p \<in> set o1" for p
    proof -
      have "fst p \<in> set (tl a)" "set (snd p) \<subseteq> set (tl a) \<or> snd p \<in> set args"
        using do_shorts_chars [OF d(1)] that by (cases p, fastforce)+
      moreover have "set (tl a) \<subseteq> set a" by (cases a) auto
      ultimately show ?thesis by (auto simp: drawn_def)
    qed
    then have "\<forall>p \<in> set opts. drawn (set (concat (a # args))) p"
      using IH(1) drawn_mono [OF _ sub] unfolding d(3) by auto
    moreover have "set operands \<subseteq> set (a # args)" using IH(2) rest by (metis order.trans set_subset_Cons)
    ultimately show ?thesis by blast
  qed
qed simp

lemma getopt_spell:
  assumes "list_all (option_ok spec) opts" "45 \<notin> set spec" "\<forall>a \<in> set operands. \<not> startswith a [45]"
  shows "getopt spec (concat (map (spell spec) opts) @ operands) = Inr (opts, operands)"
  using assms(1)
proof (induction opts)
  case Nil
  then show ?case using assms(3) by (cases operands) auto
next
  case (Cons p opts)
  obtain c v where p: "p = (c, v)" by fastforce
  have IH: "getopt spec (concat (map (spell spec) opts) @ operands) = Inr (opts, operands)" using Cons by simp
  have "c \<noteq> 45"
    using Cons.prems assms(2) short_has_arg_in [of c spec] by (auto simp: p option_ok_def)
  then have d: "\<not> startswith [45, c] [45, 45]" by simp
  show ?case
  proof (cases "short_has_arg c spec = Some True")
    case True
    then have "spell spec p = [[45, c], v]" by (simp add: p spell_def)
    then show ?thesis using IH d True by (simp add: p)
  next
    case False
    then have "short_has_arg c spec = Some False" "v = []" using Cons.prems by (auto simp: p option_ok_def)
    moreover from this have "spell spec p = [[45, c]]" by (simp add: p spell_def)
    ultimately show ?thesis using IH d by (simp add: p)
  qed
qed

lemma getopt_again:
  assumes "getopt spec args = Inr (opts, operands)" "45 \<notin> set spec" "\<forall>a \<in> set operands. \<not> startswith a [45]"
  shows "getopt spec (concat (map (spell spec) opts) @ operands) = Inr (opts, operands)"
  by (rule getopt_spell [OF getopt_ok [OF assms(1)] assms(2,3)])

section \<open>shlex\<close>

text \<open>
  The states of \<open>shlex.read_token\<close>: between words, inside a word, inside quotes, and after a
  backslash, from which the reader returns to the state named. \<open>q\<close> records that quotes were seen, so
  that an empty quoted word is a word.
\<close>

datatype lex_state = Blank | Word | Quote nat | Escape "nat option"

definition lex_space :: "nat \<Rightarrow> bool" where
  "lex_space c \<longleftrightarrow> c = 32 \<or> c = 9 \<or> c = 13 \<or> c = 10"

definition lex_quote :: "nat \<Rightarrow> bool" where
  "lex_quote c \<longleftrightarrow> c = 39 \<or> c = 34"

definition emit :: "pystr \<Rightarrow> bool \<Rightarrow> pystr list" where
  "emit tok q = (if tok \<noteq> [] \<or> q then [tok] else [])"

fun shlex_from :: "lex_state \<Rightarrow> pystr \<Rightarrow> bool \<Rightarrow> pystr \<Rightarrow> pystr list res" where
  "shlex_from Blank tok q [] = Inr (emit tok q)"
| "shlex_from Word tok q [] = Inr (emit tok q)"
| "shlex_from (Quote d) tok q [] = Inl ValueError"
| "shlex_from (Escape b) tok q [] = Inl ValueError"
| "shlex_from Blank tok q (c # s) =
     (if lex_space c then bindE (shlex_from Blank [] False s) (\<lambda>ws. Inr (emit tok q @ ws))
      else if c = 92 then shlex_from (Escape None) tok q s
      else if lex_quote c then shlex_from (Quote c) tok q s
      else shlex_from Word [c] q s)"
| "shlex_from Word tok q (c # s) =
     (if lex_space c then bindE (shlex_from Blank [] False s) (\<lambda>ws. Inr (emit tok q @ ws))
      else if lex_quote c then shlex_from (Quote c) tok q s
      else if c = 92 then shlex_from (Escape None) tok q s
      else shlex_from Word (tok @ [c]) q s)"
| "shlex_from (Quote d) tok q (c # s) =
     (if c = d then shlex_from Word tok True s
      else if c = 92 \<and> d = 34 then shlex_from (Escape (Some d)) tok True s
      else shlex_from (Quote d) (tok @ [c]) True s)"
| "shlex_from (Escape b) tok q (c # s) = (case b of
       None \<Rightarrow> shlex_from Word (tok @ [c]) q s
     | Some d \<Rightarrow> shlex_from (Quote d) (if c \<noteq> 92 \<and> c \<noteq> d then tok @ [92, c] else tok @ [c]) True s)"

definition shlex_split :: "pystr \<Rightarrow> pystr list res" where
  "shlex_split s = shlex_from Blank [] False s"

end
