(* ===== verification/Management_Grammar.thy ===== *)
theory Management_Grammar
  imports Py_Args
begin

text \<open>
  \<open>native/management_grammar.py\<close>: the command grammar the client and the privileged decoder share. An
  option is the character after its dash; flags are a sorted list of characters, option values and
  attributes are dictionaries.
\<close>

definition READ_ONLY_ACTIONS :: "pystr list" where
  "READ_ONLY_ACTIONS = map u [''installed-list'', ''installed-summary'', ''applied-list'', ''history'', ''files'',
     ''requisites'', ''dependents'', ''owners'', ''check-content'', ''check-size'',
     ''check-links'', ''check-consistency'', ''fix-status'', ''fix-packages'', ''media-fixes'',
     ''interim-list'', ''interim-check'', ''interim-locks'', ''fetch-task-list'',
     ''fetch-config'', ''fetch-defaults'', ''media-filter-list'']"

definition usage :: "pystr \<Rightarrow> 'a res" where
  "usage msg = Inl (UsageError msg)"

definition SPECS :: "(pystr \<times> pystr) list" where
  "SPECS = map (\<lambda>(c, s). (u c, u s)) [
     (''installp'', ''acruClLspgvqd:f:''),
     (''lslpp'', ''lLhfpdwcq''),
     (''lppchk'', ''cflvm:''),
     (''install_all_updates'', ''d:pcnvY''),
     (''instfix'', ''icqvFpTk:d:''),
     (''inutoc'', ''''),
     (''geninstall'', ''d:I:puf:L''),
     (''suma'', ''xws:a:lcDud''),
     (''lppmgr'', ''d:rm:lubxptsV''),
     (''epkg'', ''w:e:''),
     (''emgr_download_ifix'', ''L:P:''),
     (''emgr'', ''de:lcrPL:n:u:v:pq'')]"

section \<open>Operations that raise\<close>

text \<open>\<open>d[key]\<close>, \<open>xs[i]\<close> and \<open>next(iter(s))\<close>.\<close>

definition dict_item :: "('k \<times> 'v) list \<Rightarrow> 'k \<Rightarrow> 'v res" where
  "dict_item d key = (case map_of d key of None \<Rightarrow> Inl KeyError | Some v \<Rightarrow> Inr v)"

definition list_item :: "'a list \<Rightarrow> nat \<Rightarrow> 'a res" where
  "list_item xs i = (if i < length xs then Inr (xs ! i) else Inl IndexError)"

definition first_item :: "'a list \<Rightarrow> 'a res" where
  "first_item xs = (case xs of [] \<Rightarrow> Inl StopIteration | x # _ \<Rightarrow> Inr x)"

lemma dict_item_ok [simp]: "dict_item d key = Inr v \<longleftrightarrow> map_of d key = Some v"
  by (simp add: dict_item_def split: option.split)

lemma list_item_ok [simp]: "list_item xs i = Inr v \<longleftrightarrow> i < length xs \<and> xs ! i = v"
  by (simp add: list_item_def)

lemma first_item_ok [simp]: "first_item xs = Inr v \<longleftrightarrow> (\<exists>ys. xs = v # ys)"
  by (simp add: first_item_def split: list.split)

section \<open>The schedule\<close>

definition short_number :: "pystr \<Rightarrow> bool" where
  "short_number s \<longleftrightarrow> (length s = 1 \<or> length s = 2) \<and> list_all ascii_digit s"

text \<open>
  A match of the field's expression, as its two groups: the base, and the step or the empty string. 42, 44,
  45 and 47 are the star, the comma, the dash and the slash.
\<close>

definition match_base :: "pystr \<Rightarrow> bool" where
  "match_base b \<longleftrightarrow> b = [42] \<or> (length (split_on 45 b) \<le> 2 \<and> list_all short_number (split_on 45 b))"

definition match_item :: "pystr \<Rightarrow> (pystr \<times> pystr) option" where
  "match_item item = (case split_first 47 item of
       None \<Rightarrow> if match_base item then Some (item, []) else None
     | Some (b, step) \<Rightarrow> if match_base b \<and> short_number step then Some (b, step) else None)"

definition cron_step :: "int \<Rightarrow> int \<Rightarrow> pystr \<Rightarrow> unit res" where
  "cron_step low high step = (if step = [] then Inr ()
     else bindE (py_int step) (\<lambda>n. if \<not> (1 \<le> n \<and> n \<le> high - low + 1) then usage (u ''cron step out of range'') else Inr ()))"

definition cron_base :: "int \<Rightarrow> int \<Rightarrow> pystr \<Rightarrow> unit res" where
  "cron_base low high base = (if base = [42] then Inr ()
     else bindE (mapE py_int (split_on 45 base)) (\<lambda>ends.
       if \<not> list_all (\<lambda>n. low \<le> n \<and> n \<le> high) ends then usage (u ''cron field out of range'')
       else bindE (list_item ends 0) (\<lambda>a. bindE (list_item ends (length ends - 1)) (\<lambda>b.
         if a > b then usage (u ''cron field out of range'') else Inr ()))))"

definition cron_item :: "int \<Rightarrow> int \<Rightarrow> pystr \<Rightarrow> unit res" where
  "cron_item low high item = (case match_item item of
       None \<Rightarrow> usage (u ''unsupported cron field'')
     | Some (base, step) \<Rightarrow> bindE (cron_step low high step) (\<lambda>_. cron_base low high base))"

definition cron_bounds :: "(int \<times> int) list" where
  "cron_bounds = [(0, 59), (0, 23), (1, 31), (1, 12), (0, 6)]"

definition check_schedule :: "pystr \<Rightarrow> unit res" where
  "check_schedule value = (let fields = words value in
     if length fields \<noteq> 5 then usage (u ''schedule needs five cron fields'')
     else eachE (\<lambda>(field, low, high). eachE (cron_item low high) (split_on 44 field)) (zip fields cron_bounds))"

section \<open>Reading the options\<close>

record parsed =
  g_flags :: "nat list"
  g_values :: "(nat \<times> pystr) list"
  g_attributes :: "(pystr \<times> pystr) list"
  g_operands :: "pystr list"

text \<open>\<open>key + ':' in SPECS[command]\<close>.\<close>

fun has_colon :: "nat \<Rightarrow> pystr \<Rightarrow> bool" where
  "has_colon k (x # y # s) = (x = k \<and> y = 58 \<or> has_colon k (y # s))"
| "has_colon k s = False"

definition ATTRIBUTES :: "pystr list" where
  "ATTRIBUTES = map u [''Action'', ''RqType'', ''DLTarget'', ''DisplayName'']"

definition option_step :: "pystr \<Rightarrow> pystr \<Rightarrow> parsed \<Rightarrow> option_pair \<Rightarrow> parsed res" where
  "option_step command spec p = (\<lambda>(key, value).
     if command = u ''suma'' \<and> key = 97 then
       (case split_first 61 value of
          None \<Rightarrow> usage (u ''unknown, duplicate or malformed SUMA attribute'')
        | Some (name, content) \<Rightarrow>
            if map_of (g_attributes p) name \<noteq> None \<or> name \<notin> set ATTRIBUTES
            then usage (u ''unknown, duplicate or malformed SUMA attribute'')
            else Inr (p\<lparr>g_attributes := dict_set name content (g_attributes p)\<rparr>))
     else if has_colon key spec then
       (if map_of (g_values p) key \<noteq> None then usage (u ''repeated -'' @ [key])
        else if value = [] \<or> (startswith value [45] \<and> key \<noteq> 73 \<and> \<not> (key = 102 \<and> value = [45]))
        then usage (u ''missing or unsupported value for -'' @ [key])
        else Inr (p\<lparr>g_values := dict_set key value (g_values p)\<rparr>))
     else Inr (p\<lparr>g_flags := sorted_set (key # g_flags p)\<rparr>))"

definition argument_ok :: "pystr \<Rightarrow> bool" where
  "argument_ok a \<longleftrightarrow> a \<noteq> [] \<and> list_all (\<lambda>c. 32 \<le> c \<and> c \<noteq> 127) a"

definition options_of :: "pystr \<Rightarrow> pystr list \<Rightarrow> parsed res" where
  "options_of command argv = (case map_of SPECS command of
       None \<Rightarrow> usage (u ''unknown package command'')
     | Some spec \<Rightarrow>
         if length argv > 4096 \<or> sum_list (map length argv) > 65536 then usage (u ''command input limit exceeded'')
         else if \<not> list_all argument_ok argv then usage (u ''empty argument or control character'')
         else (case getopt spec argv of
             Inl e \<Rightarrow> usage (u ''Invalid command option: '' @ e @ [46])
           | Inr (opts, operands) \<Rightarrow>
               bindE (foldE (option_step command spec) \<lparr>g_flags = [], g_values = [], g_attributes = [], g_operands = operands\<rparr> opts) (\<lambda>p.
                 if list_ex (\<lambda>a. startswith a [45]) operands
                 then usage (u ''options must precede operands; leading-dash operands are unsupported'')
                 else Inr p)))"

section \<open>The commands\<close>

datatype request = Request (req_command: pystr) (req_action: pystr) (req_operands: "pystr list") (req_flags: "nat list")
  (req_values: "(nat \<times> pystr) list") (req_preview: bool) (req_attributes: "(pystr \<times> pystr) list") (req_delegate: "request option")

definition request_of :: "string \<Rightarrow> parsed \<Rightarrow> string \<Rightarrow> bool \<Rightarrow> request" where
  "request_of command p action preview = Request (u command) (u action) (g_operands p) (g_flags p) (sorted_items (g_values p)) preview
     (sorted_items (g_attributes p)) None"

definition require :: "bool \<Rightarrow> string \<Rightarrow> 'a res \<Rightarrow> 'a res" where
  "require c msg k = (if c then k else usage (u msg))"

definition flag :: "parsed \<Rightarrow> string \<Rightarrow> bool" where
  "flag p k \<longleftrightarrow> hd (u k) \<in> set (g_flags p)"

definition val :: "parsed \<Rightarrow> string \<Rightarrow> pystr option" where
  "val p k = map_of (g_values p) (hd (u k))"

definition picked :: "parsed \<Rightarrow> string \<Rightarrow> nat list" where
  "picked p choices = filter (\<lambda>c. c \<in> set (u choices)) (g_flags p)"

definition only :: "parsed \<Rightarrow> pystr \<Rightarrow> 'a res \<Rightarrow> 'a res" where
  "only p allowed k = require (list_all (\<lambda>c. c \<in> set allowed) (g_flags p @ map fst (g_values p))) ''option is not valid for this action'' k"

definition one :: "parsed \<Rightarrow> string \<Rightarrow> (nat \<Rightarrow> 'a res) \<Rightarrow> 'a res" where
  "one p choices k = (let selected = picked p choices in
     if length selected \<noteq> 1 then usage (u ''specify exactly one action from -'' @ join_on (u '', -'') (map (\<lambda>c. [c]) (u choices)))
     else bindE (first_item selected) k)"

text \<open>\<open>values[key]\<close>, and a test of it that passes when \<open>key\<close> is not in \<open>values\<close>.\<close>

definition value_of :: "parsed \<Rightarrow> string \<Rightarrow> pystr res" where
  "value_of p k = dict_item (g_values p) (hd (u k))"

definition absent_or :: "parsed \<Rightarrow> string \<Rightarrow> (pystr \<Rightarrow> bool) \<Rightarrow> string \<Rightarrow> 'a res \<Rightarrow> 'a res" where
  "absent_or p k test msg next = (if val p k = None then next else bindE (value_of p k) (\<lambda>v. require (test v) msg next))"

definition all_operand :: "parsed \<Rightarrow> bool" where
  "all_operand p \<longleftrightarrow> u ''all'' \<in> set (g_operands p)"

text \<open>\<open>installp\<close>; the key is the action's characters, \<open>ac\<close> for both.\<close>

definition installp_actions :: "(pystr \<times> string) list" where
  "installp_actions = [(u ''a'', ''apply''), (u ''ac'', ''apply-commit''), (u ''c'', ''commit''), (u ''r'', ''reject''),
     (u ''u'', ''remove''), (u ''C'', ''recover''), (u ''l'', ''media-list''), (u ''L'', ''media-list-colon''), (u ''s'', ''applied-list'')]"

definition installp_chosen :: "parsed \<Rightarrow> pystr" where
  "installp_chosen p = (let actions = picked p ''acruClLs'' in if actions = [] then u ''a'' else actions)"

definition installp_key :: "pystr \<Rightarrow> pystr res" where
  "installp_key actions = (if actions = u ''ac'' then Inr (u ''ac'') else bindE (first_item actions) (\<lambda>c. Inr [c]))"

definition installp_for :: "parsed \<Rightarrow> pystr \<Rightarrow> string \<Rightarrow> request res" where
  "installp_for p key action =
     (if key \<in> set (map u [''a'', ''ac'', ''c'', ''r'', ''u'']) then
        only p (key @ u ''pgvqf'' @ (if 97 \<in> set key then u ''d'' else []))
        (require ((g_operands p \<noteq> []) \<noteq> (val p ''f'' \<noteq> None)) ''specify operands or -f LIST''
        (require (\<not> all_operand p \<or> g_operands p = [u ''all'']) ''all cannot be combined with names''
        (require (key \<notin> set (map u [''r'', ''u'']) \<or> \<not> all_operand p) ''name packages explicitly for reject/remove''
        (require (97 \<notin> set key \<or> val p ''d'' \<noteq> None) ''Nia requires an explicit -d SOURCE for apply''
        (Inr (request_of ''installp'' p action (flag p ''p'')))))))
      else if key \<in> set (map u [''l'', ''L'']) then
        only p (key @ u ''dq'')
        (require (val p ''d'' \<noteq> None \<and> g_operands p = []) ''media listing requires -d SOURCE and no operands''
        (Inr (request_of ''installp'' p action False)))
      else if key = u ''C'' then
        only p (u ''C'')
        (require (g_operands p = []) ''recovery covers the interrupted transaction; no operands allowed''
        (Inr (request_of ''installp'' p action False)))
      else
        only p (u ''s'')
        (require (\<not> all_operand p \<or> g_operands p = [u ''all'']) ''all cannot be combined with names''
        (Inr (request_of ''installp'' p action False))))"

definition installp_keyed :: "parsed \<Rightarrow> pystr \<Rightarrow> request res" where
  "installp_keyed p key = bindE (dict_item installp_actions key) (installp_for p key)"

definition installp :: "parsed \<Rightarrow> request res" where
  "installp p = (let actions = installp_chosen p in
     require (length actions = 1 \<or> actions = u ''ac'') ''conflicting installp actions''
     (bindE (installp_key actions) (installp_keyed p)))"

definition parse_installp :: "pystr list \<Rightarrow> request res" where
  "parse_installp argv = bindE (options_of (u ''installp'') argv) installp"

definition action_of :: "(string \<times> string) list \<Rightarrow> nat \<Rightarrow> string res" where
  "action_of table key = dict_item (map (\<lambda>(k, a). (hd (u k), a)) table) key"

definition lslpp_actions :: "(string \<times> string) list" where
  "lslpp_actions = [(''l'', ''installed-list''), (''L'', ''installed-summary''), (''h'', ''history''),
       (''f'', ''files''), (''p'', ''requisites''), (''d'', ''dependents''), (''w'', ''owners'')]"

definition lslpp :: "parsed \<Rightarrow> request res" where
  "lslpp p = one p ''lLhfpdw'' (\<lambda>key. only p (key # u ''cq'')
     (bindE (action_of lslpp_actions key) (\<lambda>action. Inr (request_of ''lslpp'' p action False))))"

definition lppchk_actions :: "(string \<times> string) list" where
  "lppchk_actions = [(''c'', ''check-content''), (''f'', ''check-size''), (''l'', ''check-links''),
       (''v'', ''check-consistency'')]"

definition lppchk :: "parsed \<Rightarrow> request res" where
  "lppchk p = one p ''cflv'' (\<lambda>key. only p (key # u ''m'')
     (require (val p ''m'' \<in> {None, Some (u ''1''), Some (u ''2''), Some (u ''3'')}) ''-m must be 1, 2 or 3''
     (require (key \<noteq> 118 \<or> length (g_operands p) \<le> 1) ''-v does not accept file operands''
     (bindE (action_of lppchk_actions key) (\<lambda>action. Inr (request_of ''lppchk'' p action False))))))"

definition install_all_updates :: "parsed \<Rightarrow> request res" where
  "install_all_updates p = require (val p ''d'' \<noteq> None \<and> g_operands p = []) ''specify -d SOURCE, without package operands''
     (Inr (request_of ''install_all_updates'' p (if flag p ''c'' then ''update-installed-commit'' else ''update-installed'') (flag p ''p'')))"

definition instfix :: "parsed \<Rightarrow> request res" where
  "instfix p = one p ''ipT'' (\<lambda>key.
     require (g_operands p = []) ''use -k for fix keywords''
     (let keywords = absent_or p ''k'' (\<lambda>v. words v \<noteq> []) ''empty fix keyword list'' in
      if key = 105 then only p (u ''icqvFk'') (keywords (Inr (request_of ''instfix'' p ''fix-status'' False)))
      else only p (key # (if key = 112 then u ''kd'' else u ''d''))
        (require (val p ''d'' \<noteq> None) ''specify -d SOURCE''
        (require (key \<noteq> 112 \<or> val p ''k'' \<noteq> None) ''-p requires -k FIX''
        (keywords (Inr (request_of ''instfix'' p (if key = 112 then ''fix-packages'' else ''media-fixes'') False)))))))"

definition inutoc :: "parsed \<Rightarrow> request res" where
  "inutoc p = require (length (g_operands p) \<le> 1) ''inutoc accepts at most one directory''
     (Inr (request_of ''inutoc'' (if g_operands p = [] then p\<lparr>g_operands := [u ''/usr/sys/inst.images'']\<rparr> else p) ''index-media'' False))"

text \<open>\<open>geninstall\<close> delegates to \<open>installp\<close>; its request carries the delegate's action and preview.\<close>

definition delegated :: "parsed \<Rightarrow> pystr list \<Rightarrow> request res" where
  "delegated p argv = bindE (parse_installp argv) (\<lambda>d.
     Inr (Request (u ''geninstall'') (req_action d) (g_operands p) (g_flags p) (sorted_items (g_values p)) (req_preview d)
       (sorted_items (g_attributes p)) (Some d)))"

definition list_argument :: "parsed \<Rightarrow> pystr list res" where
  "list_argument p = (if val p ''f'' = None then Inr [] else bindE (value_of p ''f'') (\<lambda>f. Inr [u ''-f'', f]))"

definition geninstall :: "parsed \<Rightarrow> request res" where
  "geninstall p = require (\<not> (flag p ''u'' \<and> flag p ''L'')) ''conflicting geninstall actions''
     (if flag p ''L'' then
        only p (u ''Ld'') (delegated p ([u ''-L'', u ''-d'', case val p ''d'' of Some d \<Rightarrow> d | None \<Rightarrow> []] @ g_operands p))
      else if flag p ''u'' then
        only p (u ''uf'') (bindE (list_argument p) (\<lambda>fs. delegated p ([u ''-u''] @ fs @ g_operands p)))
      else require (val p ''d'' \<noteq> None) ''specify -d SOURCE''
        (case shlex_split (case val p ''I'' of Some i \<Rightarrow> i | None \<Rightarrow> u ''-a'') of
           Inl e \<Rightarrow> usage (u ''unsupported installp flags in -I'')
         | Inr words' \<Rightarrow> (case getopt (u ''acgpvq'') words' of
               Inl e \<Rightarrow> usage (u ''unsupported installp flags in -I'')
             | Inr (nested, remainder) \<Rightarrow>
                 require (remainder = []) ''-I accepts only installp option flags''
                 (let args = map (\<lambda>(option, _). [45, option]) nested in
                  require (u ''-a'' \<in> set args \<or> u ''-c'' \<notin> set args) ''geninstall -I must select apply, not commit alone''
                  (bindE (value_of p ''d'') (\<lambda>d. bindE (list_argument p) (\<lambda>fs.
                     delegated p (args @ (if flag p ''p'' then [u ''-p''] else []) @ [u ''-d'', d] @ fs @ g_operands p))))))))"

definition attribute :: "parsed \<Rightarrow> string \<Rightarrow> pystr option" where
  "attribute p k = map_of (g_attributes p) (u k)"

definition task_id :: "pystr \<Rightarrow> bool" where
  "task_id s \<longleftrightarrow> 1 \<le> length s \<and> length s \<le> 20 \<and> list_all ascii_digit s"

definition suma_actions :: "(string \<times> string) list" where
  "suma_actions = [(''l'', ''fetch-task-list''), (''c'', ''fetch-config''), (''D'', ''fetch-defaults''),
          (''u'', ''fetch-task-unschedule''), (''d'', ''fetch-task-delete'')]"

definition suma :: "parsed \<Rightarrow> request res" where
  "suma p = require (list_all task_id (g_operands p)) ''task IDs must be numeric''
     (if picked p ''lcDud'' \<noteq> [] then one p ''lcDud'' (\<lambda>key. only p [key]
        (require (g_attributes p = []) ''attribute edits for this SUMA action are not supported''
        (require (key = 108 \<or> length (g_operands p) = (if key = 117 \<or> key = 100 then 1 else 0)) ''incorrect task ID count''
        (bindE (action_of suma_actions key) (\<lambda>action. Inr (request_of ''suma'' p action False))))))
      else require (length (g_operands p) \<le> 1) ''at most one task ID''
        (require (picked p ''xw'' \<noteq> [] \<or> val p ''s'' \<noteq> None) ''specify -x, -w or -s''
        (require (val p ''s'' = None \<or> g_flags p = []) ''-s cannot be combined with -x or -w''
        (bindE (if val p ''s'' = None then Inr () else bindE (value_of p ''s'') check_schedule) (\<lambda>_.
         require (attribute p ''RqType'' \<in> {None, Some (u ''Latest'')}) ''Foreign TL/SP/ML/PTF are not Nia release identifiers''
        (require (attribute p ''Action'' \<in> {None, Some (u ''Download''), Some (u ''Preview''), Some (u ''Metadata'')}) ''unsupported SUMA Action''
        (bindE (if attribute p ''DLTarget'' = None then Inr () else bindE (dict_item (g_attributes p) (u ''DLTarget'')) (\<lambda>target.
           require (startswith target [47]) ''DLTarget must be absolute'' (Inr ()))) (\<lambda>_.
        (Inr (request_of ''suma'' p (if val p ''s'' \<noteq> None then ''fetch-task-schedule''
          else if g_flags p = u ''wx'' then ''fetch-task-run-save''
          else if flag p ''x'' then ''fetch-task-run'' else ''fetch-task-save'') False))))))))))"

definition emgr_download_ifix :: "parsed \<Rightarrow> request res" where
  "emgr_download_ifix p = require (val p ''L'' \<noteq> None \<and> g_operands p = []) ''specify -L URL, without operands''
     (Inr (request_of ''emgr_download_ifix'' p ''interim-download'' False))"

definition label_ok :: "pystr \<Rightarrow> bool" where
  "label_ok s \<longleftrightarrow> s \<noteq> [] \<and> length s \<le> 100 \<and> ascii_alnum (hd s) \<and> list_all (\<lambda>c. ascii_alnum c \<or> c \<in> set (u ''_.+-'')) (tl s)"

definition epkg :: "parsed \<Rightarrow> request res" where
  "epkg p = require (length (g_operands p) = 1) ''specify one interim fix label''
     (bindE (list_item (g_operands p) 0) (\<lambda>label. require (label_ok label) ''invalid interim fix label''
     (Inr (request_of ''epkg'' p (if val p ''e'' \<noteq> None then ''interim-build'' else ''interim-build-interactive'') False))))"

definition interim_number :: "pystr \<Rightarrow> bool" where
  "interim_number s \<longleftrightarrow> s \<noteq> [] \<and> length s \<le> 20 \<and> list_all ascii_digit s \<and> hd s \<noteq> 48"

definition emgr_actions :: "(string \<times> string) list" where
  "emgr_actions = [(''l'', ''interim-list''), (''c'', ''interim-check''), (''r'', ''interim-remove'')]"

definition emgr_finish :: "parsed \<Rightarrow> string \<Rightarrow> request res" where
  "emgr_finish p action = absent_or p ''v'' (\<lambda>v. v \<in> {u ''1'', u ''2'', u ''3''}) ''verbosity must be 1, 2 or 3''
     (Inr (request_of ''emgr'' p action (flag p ''p'')))"

definition emgr_for :: "parsed \<Rightarrow> nat \<Rightarrow> request res" where
  "emgr_for p key =
     (if key = 100 then only p (u ''dev'')
        (require ((val p ''e'' \<noteq> None \<and> g_operands p = []) \<or> (val p ''e'' = None \<and> length (g_operands p) = 1))
           ''specify one interim package with -e or as an operand'' (emgr_finish p ''interim-display''))
      else if key \<in> {108, 99, 114} then
        only p (key # u ''Lnu'' @ (if key = 114 then u ''pq'' else u ''v''))
        (let n = length (filter (\<lambda>k. val p k \<noteq> None) [''L'', ''n'', ''u'']) in
         require (g_operands p = [] \<and> (if key = 114 then n = 1 else n \<le> 1)) ''specify one selector for remove, at most one for list/check''
         (absent_or p ''n'' interim_number ''interim number must be a positive integer''
         (bindE (action_of emgr_actions key) (emgr_finish p))))
      else if key = 80 then only p (u ''P'')
        (require (length (g_operands p) \<le> 1) ''at most one package for lock display'' (emgr_finish p ''interim-locks''))
      else only p (u ''epq'')
        (require (val p ''e'' \<noteq> None \<and> g_operands p = []) ''specify -e PACKAGE_FILE'' (emgr_finish p ''interim-apply'')))"

definition emgr :: "parsed \<Rightarrow> request res" where
  "emgr p = (let selected = picked p ''dlcrP'' in
     require (length selected \<le> 1) ''conflicting interim actions'' (bindE (if selected = [] then Inr 101 else first_item selected) (emgr_for p)))"

definition lppmgr :: "parsed \<Rightarrow> request res" where
  "lppmgr p = require (val p ''d'' \<noteq> None \<and> g_operands p = []) ''specify -d SOURCE, without operands''
     (require (\<not> (flag p ''r'' \<and> val p ''m'' \<noteq> None)) ''-r and -m are mutually exclusive''
     (Inr (request_of ''lppmgr'' p (if flag p ''l'' then ''media-filter-list'' else if flag p ''r'' then ''media-filter-remove''
       else if val p ''m'' \<noteq> None then ''media-filter-move'' else ''media-filter-list'') False)))"

definition dispatch :: "pystr \<Rightarrow> parsed \<Rightarrow> request res" where
  "dispatch command p =
     (if command = u ''installp'' then installp p
      else if command = u ''lslpp'' then lslpp p
      else if command = u ''lppchk'' then lppchk p
      else if command = u ''install_all_updates'' then install_all_updates p
      else if command = u ''instfix'' then instfix p
      else if command = u ''inutoc'' then inutoc p
      else if command = u ''geninstall'' then geninstall p
      else if command = u ''suma'' then suma p
      else if command = u ''emgr_download_ifix'' then emgr_download_ifix p
      else if command = u ''epkg'' then epkg p
      else if command = u ''emgr'' then emgr p
      else lppmgr p)"

definition parse :: "pystr \<Rightarrow> pystr list \<Rightarrow> request res" where
  "parse command argv = bindE (options_of command argv) (dispatch command)"

section \<open>What the checks guarantee\<close>

named_theorems usage_simps \<open>returns of the checks\<close>

lemma usage_neq [simp]: "usage m \<noteq> Inr x" "Inr x \<noteq> usage m"
  by (simp_all add: usage_def)

lemma require_ok [usage_simps]: "require c msg k = Inr r \<longleftrightarrow> c \<and> k = Inr r"
  by (simp add: require_def)

lemma only_ok [usage_simps]: "only p allowed k = Inr r \<longleftrightarrow> set (g_flags p) \<union> fst ` set (g_values p) \<subseteq> set allowed \<and> k = Inr r"
  by (auto simp: only_def require_ok list_all_iff)

lemma one_ok [usage_simps]: "one p choices k = Inr r \<longleftrightarrow> (\<exists>c. picked p choices = [c] \<and> k c = Inr r)"
  by (auto simp: one_def Let_def bindE_eq_Inr length_Suc_conv)

lemma if_usage_ok [usage_simps]: "(if c then usage m else k) = Inr r \<longleftrightarrow> \<not> c \<and> k = Inr r"
  by simp

lemma value_of_ok [simp]: "value_of p k = Inr v \<longleftrightarrow> val p k = Some v"
  by (simp add: value_of_def val_def)

lemma absent_or_ok [usage_simps]: "absent_or p k test msg next = Inr r \<longleftrightarrow> (\<forall>v. val p k = Some v \<longrightarrow> test v) \<and> next = Inr r"
  by (auto simp: absent_or_def bindE_eq_Inr require_ok)

lemma installp_run: "installp p = require (length (installp_chosen p) = 1 \<or> installp_chosen p = u ''ac'') ''conflicting installp actions''
    (installp_keyed p (installp_chosen p))"
proof -
  have "installp_key [c] = Inr [c]" for c by (simp add: installp_key_def first_item_def u_def)
  moreover have "installp_key (u ''ac'') = Inr (u ''ac'')" by (simp add: installp_key_def)
  ultimately show ?thesis by (auto simp: installp_def Let_def require_def length_Suc_conv)
qed

lemma picked_single: "picked p choices = [c] \<Longrightarrow> c \<in> set (u choices)"
  unfolding picked_def by (metis (mono_tags, lifting) filter_id_conv filter_filter list.set_intros(1) mem_Collect_eq set_filter)

lemma installp_keys:
  assumes "length (installp_chosen p) = 1 \<or> installp_chosen p = u ''ac''"
  shows "installp_chosen p \<in> set (map u [''a'', ''ac'', ''c'', ''r'', ''u'', ''C'', ''l'', ''L'', ''s''])"
proof -
  have "set (installp_chosen p) \<subseteq> set (u ''acruClLs'')" by (auto simp: installp_chosen_def Let_def picked_def u_def)
  then show ?thesis using assms by (cases "installp_chosen p"; cases "tl (installp_chosen p)") (auto simp: u_def)
qed

text \<open>
  A result that is a request or a usage error. The operations that raise are shown to succeed wherever the
  decoder reaches them: the keys are the ones the checks before them let pass.
\<close>

definition usual :: "'a res \<Rightarrow> bool" where
  "usual x \<longleftrightarrow> (case x of Inr _ \<Rightarrow> True | Inl (UsageError _) \<Rightarrow> True | _ \<Rightarrow> False)"

lemma usual_intros [simp]: "usual (Inr x)" "usual (usage m)"
  by (simp_all add: usual_def usage_def)

lemma usual_require: "(c \<Longrightarrow> usual k) \<Longrightarrow> usual (require c m k)"
  and usual_only [intro]: "usual k \<Longrightarrow> usual (only p a k)"
  by (auto simp: require_def only_def)

lemma usual_bind [intro]: "usual m \<Longrightarrow> (\<And>x. m = Inr x \<Longrightarrow> usual (f x)) \<Longrightarrow> usual (bindE m f)"
  by (cases m) (auto simp: usual_def)

lemma usual_one: "(\<And>c. c \<in> set (u ch) \<Longrightarrow> usual (f c)) \<Longrightarrow> usual (one p ch f)"
proof -
  assume f: "\<And>c. c \<in> set (u ch) \<Longrightarrow> usual (f c)"
  have "usual (f c)" if "picked p ch = [c]" for c by (rule f [OF picked_single [OF that]])
  then show "usual (one p ch f)" by (auto simp: one_def Let_def length_Suc_conv first_item_def)
qed

lemma usual_value: "val p k \<noteq> None \<Longrightarrow> usual (value_of p k)"
  by (auto simp: value_of_def val_def dict_item_def)

lemma usual_absent_or: "usual next \<Longrightarrow> usual (absent_or p k test m next)"
  unfolding absent_or_def by (auto intro!: usual_require usual_value)

lemma usual_list_item: "i < length xs \<Longrightarrow> usual (list_item xs i)"
  by (simp add: list_item_def)

lemma usual_action: "list_all (\<lambda>c. c \<in> fst ` set (map (\<lambda>(k, a). (hd (u k), a)) table)) cs \<Longrightarrow> c \<in> set cs \<Longrightarrow> usual (action_of table c)"
  by (force simp: action_of_def dict_item_def list_all_iff map_of_eq_None_iff split: option.split)

lemma usual_actions:
  "c \<in> set (u ''lLhfpdw'') \<Longrightarrow> usual (action_of lslpp_actions c)"
  "c \<in> set (u ''cflv'') \<Longrightarrow> usual (action_of lppchk_actions c)"
  "c \<in> set (u ''lcDud'') \<Longrightarrow> usual (action_of suma_actions c)"
  "c \<in> set [108, 99, 114] \<Longrightarrow> usual (action_of emgr_actions c)"
  by (erule usual_action [rotated], simp add: lslpp_actions_def lppchk_actions_def suma_actions_def emgr_actions_def u_def)+

lemma usual_fold: "(\<And>s x. usual (f s x)) \<Longrightarrow> usual (foldE f s xs)"
  by (induction xs arbitrary: s) (auto intro!: usual_bind)

lemma usual_each: "(\<And>x. x \<in> set xs \<Longrightarrow> usual (f x)) \<Longrightarrow> usual (eachE f xs)"
  by (induction xs) (auto intro!: usual_bind)

lemma usual_if [intro]: "(c \<Longrightarrow> usual a) \<Longrightarrow> (\<not> c \<Longrightarrow> usual b) \<Longrightarrow> usual (if c then a else b)"
  by simp

text \<open>\<open>int\<close> reads what the field's expression matches.\<close>

lemma int_digits_ascii: "list_all ascii_digit s \<Longrightarrow> s \<noteq> [] \<or> b \<Longrightarrow> \<exists>ds. int_digits b s = Some ds \<and> length ds = length s"
proof (induction s arbitrary: b)
  case (Cons c s)
  then obtain ds where "int_digits True s = Some ds" "length ds = length s" by auto
  moreover have "decimal_value c = Some (c - 48)" "c \<noteq> 95" using Cons.prems(1) by (auto simp: decimal_value_ascii ascii_digit_def)
  ultimately show ?case by simp
qed simp

lemma strip_digits: "list_all ascii_digit s \<Longrightarrow> strip is_space s = s"
proof -
  assume s: "list_all ascii_digit s"
  have "dropWhile is_space t = t" if "list_all ascii_digit t" for t :: pystr
    using that by (cases t) (auto simp: ascii_digit_def is_space_def)
  from this [OF s] this [of "rev s"] s show ?thesis by (simp add: strip_def lstrip_def rstrip_def)
qed

lemma short_number_int: "short_number s \<Longrightarrow> \<exists>n. py_int s = Inr n"
proof -
  assume s: "short_number s"
  then have d: "list_all ascii_digit s" "s \<noteq> []" "length s \<le> 2" by (auto simp: short_number_def)
  have "strip is_space s = s" using d(1) by (rule strip_digits)
  moreover have "\<not> startswith s [45]" "\<not> startswith s [43]" using d by (cases s; auto simp: ascii_digit_def)+
  moreover obtain ds where "int_digits False s = Some ds" "length ds = length s" using int_digits_ascii [of s False] d by blast
  ultimately show ?thesis using d(3) by (simp add: py_int_def Let_def MAX_STR_DIGITS_def)
qed

lemma match_item_parts:
  "match_item item = Some (base, step) \<Longrightarrow> match_base base \<and> (step = [] \<or> short_number step)"
  by (auto simp: match_item_def split: option.splits if_splits)

lemma usual_cron_base: "match_base base \<Longrightarrow> usual (cron_base low high base)"
proof (cases "base = [42]")
  case False
  assume "match_base base"
  with False have "\<forall>s \<in> set (split_on 45 base). \<exists>n. py_int s = Inr n" using short_number_int by (auto simp: match_base_def list_all_iff)
  then obtain f where "\<And>s. s \<in> set (split_on 45 base) \<Longrightarrow> py_int s = Inr (f s)" by metis
  then have ends: "mapE py_int (split_on 45 base) = Inr (map f (split_on 45 base))" by (rule mapE_Inr)
  have "0 < length (map f (split_on 45 base))" by simp
  then show ?thesis unfolding cron_base_def ends using False by (auto simp: list_item_def)
qed (simp add: cron_base_def)

lemma usual_schedule: "usual (check_schedule v)"
proof -
  have "usual (cron_step low high step)" if "step = [] \<or> short_number step" for low high step
    using that short_number_int [of step] by (auto simp: cron_step_def)
  then have "usual (cron_item low high item)" for low high item
    unfolding cron_item_def using usual_cron_base by (auto dest!: match_item_parts split: option.split)
  then show ?thesis unfolding check_schedule_def Let_def by (auto intro!: usual_each split: prod.splits)
qed

lemma usual_options: "usual (options_of command argv)"
proof -
  have "usual (option_step command spec p x)" for spec p x
    by (cases x) (auto simp: option_step_def split: option.splits)
  then show ?thesis
    unfolding options_of_def by (auto intro!: usual_bind usual_fold split: option.splits sum.splits)
qed

lemma usual_installp: "usual (installp p)"
proof -
  have "usual (installp_for p key action)" for key action
    unfolding installp_for_def by (intro usual_require usual_only usual_if usual_intros)
  moreover have "usual (dict_item installp_actions key)"
    if "key \<in> set (map u [''a'', ''ac'', ''c'', ''r'', ''u'', ''C'', ''l'', ''L'', ''s''])" for key
    using that by (auto simp: installp_actions_def dict_item_def)
  ultimately show ?thesis
    unfolding installp_run installp_keyed_def using installp_keys by (intro usual_require usual_bind) blast+
qed

lemma usual_delegated: "usual (delegated p argv)"
  unfolding delegated_def parse_installp_def by (intro usual_bind usual_options usual_installp usual_intros)

lemma usual_list_argument: "usual (list_argument p)"
  unfolding list_argument_def by (auto intro!: usual_value)

lemma usual_geninstall: "usual (geninstall p)"
proof -
  have "usual (bindE (value_of p ''d'') (\<lambda>d. bindE (list_argument p) (\<lambda>fs. delegated p (f d fs))))" if "val p ''d'' \<noteq> None" for f
    by (intro usual_bind usual_value that usual_list_argument usual_delegated)
  moreover have "usual (bindE (list_argument p) (\<lambda>fs. delegated p (f fs)))" for f
    by (intro usual_bind usual_list_argument usual_delegated)
  ultimately show ?thesis
    unfolding geninstall_def Let_def
    by (intro usual_require usual_if usual_only usual_delegated) (auto intro!: usual_require split: sum.split prod.split)
qed

lemma usual_suma: "usual (suma p)"
proof -
  have "usual (dict_item (g_attributes p) (u k))" if "attribute p k \<noteq> None" for k
    using that by (auto simp: attribute_def dict_item_def)
  then show ?thesis
    unfolding suma_def
    by (intro usual_require usual_if usual_only usual_one usual_bind usual_intros usual_actions(3) usual_value usual_schedule) auto
qed

lemma usual_emgr: "usual (emgr p)"
proof -
  have "usual (emgr_finish p a)" for a
    unfolding emgr_finish_def by (intro usual_absent_or usual_intros)
  then have "usual (emgr_for p key)" for key
    unfolding emgr_for_def Let_def by (intro usual_require usual_only usual_if usual_absent_or usual_bind usual_actions(4)) auto
  then show ?thesis unfolding emgr_def Let_def by (intro usual_require usual_bind usual_if usual_intros) (auto simp: first_item_def split: list.split)
qed

lemma usual_instfix: "usual (instfix p)"
  unfolding instfix_def Let_def by (intro usual_one usual_require usual_if usual_only usual_absent_or usual_intros)

lemma usual_epkg: "usual (epkg p)"
  unfolding epkg_def by (intro usual_require usual_bind usual_list_item usual_intros) simp

lemma usual_dispatch: "usual (dispatch command p)"
  unfolding dispatch_def lslpp_def lppchk_def install_all_updates_def inutoc_def emgr_download_ifix_def lppmgr_def
  by (intro usual_if usual_installp usual_geninstall usual_suma usual_emgr usual_instfix usual_epkg usual_one usual_only usual_require
      usual_bind usual_actions usual_intros)

lemma usual_parse: "usual (parse command argv)"
  unfolding parse_def by (intro usual_bind usual_options usual_dispatch)

section \<open>What an accepted command line is\<close>

definition parsed_ok :: "pystr \<Rightarrow> pystr \<Rightarrow> parsed \<Rightarrow> bool" where
  "parsed_ok command spec p \<longleftrightarrow>
     sorted (g_flags p) \<and> distinct (g_flags p) \<and> set (g_flags p) \<subseteq> set spec \<and> (\<forall>c \<in> set (g_flags p). \<not> has_colon c spec)
     \<and> distinct (map fst (g_values p)) \<and> (\<forall>(c, v) \<in> set (g_values p). has_colon c spec \<and> v \<noteq> [])
     \<and> distinct (map fst (g_attributes p)) \<and> fst ` set (g_attributes p) \<subseteq> set ATTRIBUTES
     \<and> (g_attributes p = [] \<or> command = u ''suma'')"

lemma option_step_ok:
  assumes "parsed_ok command spec p" "option_step command spec p x = Inr q" "fst x \<in> set spec"
  shows "parsed_ok command spec q \<and> g_operands q = g_operands p"
proof (cases x)
  case (Pair key v)
  consider (attribute) name content where "command = u ''suma''" "name \<in> set ATTRIBUTES" "q = p\<lparr>g_attributes := dict_set name content (g_attributes p)\<rparr>"
    | (argument) "has_colon key spec" "v \<noteq> []" "q = p\<lparr>g_values := dict_set key v (g_values p)\<rparr>" "map_of (g_values p) key = None"
    | (flag) "\<not> has_colon key spec" "q = p\<lparr>g_flags := sorted_set (key # g_flags p)\<rparr>"
    using assms(2) by (auto simp: option_step_def Pair split: if_splits option.splits)
  then show ?thesis
  proof cases
    case attribute
    then show ?thesis using assms(1) by (auto simp: parsed_ok_def)
  next
    case argument
    then have "dict_set key v (g_values p) = g_values p @ [(key, v)]"
      by (intro dict_set_new) (auto simp: map_of_eq_None_iff)
    then show ?thesis using assms(1) argument by (auto simp: parsed_ok_def map_of_eq_None_iff)
  next
    case flag
    then show ?thesis using assms(1,3) Pair by (auto simp: parsed_ok_def)
  qed
qed

lemma option_fold_ok:
  "foldE (option_step command spec) p opts = Inr q \<Longrightarrow> parsed_ok command spec p \<Longrightarrow> fst ` set opts \<subseteq> set spec \<Longrightarrow>
    parsed_ok command spec q \<and> g_operands q = g_operands p"
proof (induction opts arbitrary: p)
  case (Cons x opts)
  then obtain p' where "option_step command spec p x = Inr p'" "foldE (option_step command spec) p' opts = Inr q"
    by (auto simp: bindE_eq_Inr)
  with option_step_ok [OF Cons.prems(2) this(1)] Cons.IH [of p'] Cons.prems(3) show ?case by auto
qed simp

lemma options_of_ok:
  assumes "options_of command argv = Inr p"
  obtains spec where "map_of SPECS command = Some spec" "parsed_ok command spec p" "\<forall>a \<in> set (g_operands p). argument_ok a \<and> \<not> startswith a [45]"
proof -
  from assms obtain spec opts operands where o: "map_of SPECS command = Some spec" "list_all argument_ok argv"
    "getopt spec argv = Inr (opts, operands)"
    "foldE (option_step command spec) \<lparr>g_flags = [], g_values = [], g_attributes = [], g_operands = operands\<rparr> opts = Inr p"
    "\<not> list_ex (\<lambda>a. startswith a [45]) operands"
    by (auto simp: options_of_def bindE_eq_Inr split: option.splits if_splits sum.splits)
  have "fst ` set opts \<subseteq> set spec"
    using getopt_ok [OF o(3)] short_has_arg_in by (fastforce simp: list_all_iff option_ok_def)
  with option_fold_ok [OF o(4)] have "parsed_ok command spec p" "g_operands p = operands" by (auto simp: parsed_ok_def)
  moreover have "\<forall>a \<in> set operands. argument_ok a \<and> \<not> startswith a [45]"
    using o(2,5) getopt_chars [OF o(3)] by (auto simp: list_all_iff list_ex_iff)
  ultimately show thesis using that o(1) by blast
qed

text \<open>The actions of each command.\<close>

definition COMMAND_ACTIONS :: "(string \<times> string list) list" where
  "COMMAND_ACTIONS = [
     (''installp'', [''apply'', ''apply-commit'', ''commit'', ''reject'', ''remove'', ''recover'', ''media-list'', ''media-list-colon'', ''applied-list'']),
     (''lslpp'', [''installed-list'', ''installed-summary'', ''history'', ''files'', ''requisites'', ''dependents'', ''owners'']),
     (''lppchk'', [''check-content'', ''check-size'', ''check-links'', ''check-consistency'']),
     (''install_all_updates'', [''update-installed'', ''update-installed-commit'']),
     (''instfix'', [''fix-status'', ''fix-packages'', ''media-fixes'']),
     (''inutoc'', [''index-media'']),
     (''geninstall'', [''apply'', ''apply-commit'', ''remove'', ''media-list-colon'']),
     (''suma'', [''fetch-task-list'', ''fetch-config'', ''fetch-defaults'', ''fetch-task-unschedule'', ''fetch-task-delete'', ''fetch-task-schedule'',
       ''fetch-task-run-save'', ''fetch-task-run'', ''fetch-task-save'']),
     (''emgr_download_ifix'', [''interim-download'']),
     (''epkg'', [''interim-build'', ''interim-build-interactive'']),
     (''emgr'', [''interim-display'', ''interim-list'', ''interim-check'', ''interim-remove'', ''interim-locks'', ''interim-apply'']),
     (''lppmgr'', [''media-filter-list'', ''media-filter-remove'', ''media-filter-move''])]"

definition same_parts :: "parsed \<Rightarrow> request \<Rightarrow> bool" where
  "same_parts p r \<longleftrightarrow> req_operands r = g_operands p \<and> req_flags r = g_flags p \<and> req_values r = sorted_items (g_values p)
     \<and> req_attributes r = sorted_items (g_attributes p)"

definition actions_of :: "string \<Rightarrow> pystr list" where
  "actions_of command = map u (the (map_of COMMAND_ACTIONS command))"

text \<open>What \<open>installp\<close> guarantees of each of its actions.\<close>

definition installp_rules :: "request \<Rightarrow> bool" where
  "installp_rules r \<longleftrightarrow>
     (req_action r \<in> set (map u [''apply'', ''apply-commit'']) \<longrightarrow> map_of (req_values r) 100 \<noteq> None)
   \<and> (req_action r \<in> set (map u [''reject'', ''remove'']) \<longrightarrow> u ''all'' \<notin> set (req_operands r))
   \<and> (req_action r \<in> set (map u [''apply'', ''apply-commit'', ''commit'', ''reject'', ''remove'']) \<longrightarrow>
        (req_operands r \<noteq> []) \<noteq> (map_of (req_values r) 102 \<noteq> None))
   \<and> (req_preview r \<longrightarrow> req_action r \<in> set (map u [''apply'', ''apply-commit'', ''commit'', ''reject'', ''remove'']) \<and> 112 \<in> set (req_flags r))"

lemma request_of_parts [simp]:
  "same_parts p (request_of c p a b)" "req_command (request_of c p a b) = u c" "req_delegate (request_of c p a b) = None"
  "req_action (request_of c p a b) = u a" "req_preview (request_of c p a b) = b"
  by (simp_all add: request_of_def same_parts_def)

lemma same_parts_rules:
  assumes "same_parts p r" "distinct (map fst (g_values p))"
  shows "installp_rules r \<longleftrightarrow>
     (req_action r \<in> set (map u [''apply'', ''apply-commit'']) \<longrightarrow> val p ''d'' \<noteq> None)
   \<and> (req_action r \<in> set (map u [''reject'', ''remove'']) \<longrightarrow> \<not> all_operand p)
   \<and> (req_action r \<in> set (map u [''apply'', ''apply-commit'', ''commit'', ''reject'', ''remove'']) \<longrightarrow>
        (g_operands p \<noteq> []) \<noteq> (val p ''f'' \<noteq> None))
   \<and> (req_preview r \<longrightarrow> req_action r \<in> set (map u [''apply'', ''apply-commit'', ''commit'', ''reject'', ''remove'']) \<and> flag p ''p'')"
proof -
  have keys: "hd (u ''d'') = 100" "hd (u ''f'') = 102" "hd (u ''p'') = 112" by (simp_all add: u_def)
  show ?thesis using assms by (simp only: same_parts_def installp_rules_def val_def flag_def all_operand_def keys map_of_sorted_items)
qed

lemma installp_for_ok:
  "installp_keyed p (u ''a'') = Inr r \<Longrightarrow> r = request_of ''installp'' p ''apply'' (flag p ''p'') \<and> val p ''d'' \<noteq> None \<and> (g_operands p \<noteq> []) \<noteq> (val p ''f'' \<noteq> None)"
  "installp_keyed p (u ''ac'') = Inr r \<Longrightarrow> r = request_of ''installp'' p ''apply-commit'' (flag p ''p'') \<and> val p ''d'' \<noteq> None \<and> (g_operands p \<noteq> []) \<noteq> (val p ''f'' \<noteq> None)"
  "installp_keyed p (u ''c'') = Inr r \<Longrightarrow> r = request_of ''installp'' p ''commit'' (flag p ''p'') \<and> (g_operands p \<noteq> []) \<noteq> (val p ''f'' \<noteq> None)"
  "installp_keyed p (u ''r'') = Inr r \<Longrightarrow> r = request_of ''installp'' p ''reject'' (flag p ''p'') \<and> \<not> all_operand p \<and> (g_operands p \<noteq> []) \<noteq> (val p ''f'' \<noteq> None)"
  "installp_keyed p (u ''u'') = Inr r \<Longrightarrow> r = request_of ''installp'' p ''remove'' (flag p ''p'') \<and> \<not> all_operand p \<and> (g_operands p \<noteq> []) \<noteq> (val p ''f'' \<noteq> None)"
  "installp_keyed p (u ''C'') = Inr r \<Longrightarrow> r = request_of ''installp'' p ''recover'' False"
  "installp_keyed p (u ''l'') = Inr r \<Longrightarrow> r = request_of ''installp'' p ''media-list'' False"
  "installp_keyed p (u ''L'') = Inr r \<Longrightarrow> r = request_of ''installp'' p ''media-list-colon'' False"
  "installp_keyed p (u ''s'') = Inr r \<Longrightarrow> r = request_of ''installp'' p ''applied-list'' False"
  by (simp_all add: installp_keyed_def installp_for_def installp_actions_def dict_item_def usage_simps u_def)

lemma installp_ok:
  assumes "installp p = Inr r" "distinct (map fst (g_values p))"
  shows "same_parts p r \<and> req_command r = u ''installp'' \<and> req_delegate r = None \<and> req_action r \<in> set (actions_of ''installp'') \<and> installp_rules r"
proof -
  have len: "length (installp_chosen p) = 1 \<or> installp_chosen p = u ''ac''" and run: "installp_keyed p (installp_chosen p) = Inr r"
    using assms by (auto simp: installp_run usage_simps)
  from installp_keys [OF len]
  consider "installp_chosen p = u ''a''" | "installp_chosen p = u ''ac''" | "installp_chosen p = u ''c''" | "installp_chosen p = u ''r''"
    | "installp_chosen p = u ''u''" | "installp_chosen p = u ''C''" | "installp_chosen p = u ''l''" | "installp_chosen p = u ''L''" | "installp_chosen p = u ''s''"
    by auto
  note cases = this
  note rules = same_parts_rules [OF request_of_parts(1) assms(2)] and table = actions_of_def COMMAND_ACTIONS_def
  show ?thesis
  proof (rule cases)
    assume "installp_chosen p = u ''a''"
    from installp_for_ok(1) [OF run [unfolded this]] show ?thesis by (simp add: rules table)
  next
    assume "installp_chosen p = u ''ac''"
    from installp_for_ok(2) [OF run [unfolded this]] show ?thesis by (simp add: rules table)
  next
    assume "installp_chosen p = u ''c''"
    from installp_for_ok(3) [OF run [unfolded this]] show ?thesis by (simp add: rules table)
  next
    assume "installp_chosen p = u ''r''"
    from installp_for_ok(4) [OF run [unfolded this]] show ?thesis by (simp add: rules table)
  next
    assume "installp_chosen p = u ''u''"
    from installp_for_ok(5) [OF run [unfolded this]] show ?thesis by (simp add: rules table)
  next
    assume "installp_chosen p = u ''C''"
    from installp_for_ok(6) [OF run [unfolded this]] show ?thesis by (simp add: rules table)
  next
    assume "installp_chosen p = u ''l''"
    from installp_for_ok(7) [OF run [unfolded this]] show ?thesis by (simp add: rules table)
  next
    assume "installp_chosen p = u ''L''"
    from installp_for_ok(8) [OF run [unfolded this]] show ?thesis by (simp add: rules table)
  next
    assume "installp_chosen p = u ''s''"
    from installp_for_ok(9) [OF run [unfolded this]] show ?thesis by (simp add: rules table)
  qed
qed

text \<open>What every command's request is.\<close>

definition request_shape :: "string \<Rightarrow> parsed \<Rightarrow> request \<Rightarrow> bool" where
  "request_shape command p r \<longleftrightarrow> same_parts p r \<and> req_command r = u command \<and> req_delegate r = None \<and> req_action r \<in> set (actions_of command)"

lemma shape_intro: "a \<in> set (the (map_of COMMAND_ACTIONS c)) \<Longrightarrow> request_shape c p (request_of c p a b)"
  by (simp add: request_shape_def actions_of_def)

lemma table_shape:
  assumes "action_of table c = Inr a" "set (map snd table) \<subseteq> set (the (map_of COMMAND_ACTIONS command))"
  shows "request_shape command p (request_of command p a b)"
proof -
  have "(c, a) \<in> set (map (\<lambda>(k, a). (hd (u k), a)) table)" using assms(1) by (simp only: action_of_def dict_item_ok) (rule map_of_SomeD)
  then have "a \<in> set (map snd table)" by force
  with assms(2) show ?thesis by (intro shape_intro) blast
qed

lemma table_shapes:
  "action_of lslpp_actions c = Inr a \<Longrightarrow> request_shape ''lslpp'' p (request_of ''lslpp'' p a b)"
  "action_of lppchk_actions c = Inr a \<Longrightarrow> request_shape ''lppchk'' p (request_of ''lppchk'' p a b)"
  "action_of suma_actions c = Inr a \<Longrightarrow> request_shape ''suma'' p (request_of ''suma'' p a b)"
  "action_of emgr_actions c = Inr a \<Longrightarrow> request_shape ''emgr'' p (request_of ''emgr'' p a b)"
  by (erule table_shape; simp add: lslpp_actions_def lppchk_actions_def suma_actions_def emgr_actions_def COMMAND_ACTIONS_def)+

lemma lslpp_ok: "lslpp p = Inr r \<Longrightarrow> request_shape ''lslpp'' p r \<and> \<not> req_preview r"
  by (auto simp: lslpp_def one_ok only_ok bindE_eq_Inr intro: table_shapes)

lemma lppchk_ok: "lppchk p = Inr r \<Longrightarrow> request_shape ''lppchk'' p r \<and> \<not> req_preview r"
  by (auto simp: lppchk_def one_ok only_ok require_ok bindE_eq_Inr intro: table_shapes)

lemma suma_ok: "suma p = Inr r \<Longrightarrow> request_shape ''suma'' p r \<and> \<not> req_preview r"
proof -
  assume a: "suma p = Inr r"
  show ?thesis
  proof (cases "picked p ''lcDud'' = []")
    case False
    with a show ?thesis unfolding suma_def by (simp only: require_ok if_False not_False_eq_True if_True) (auto simp: one_ok only_ok require_ok bindE_eq_Inr intro: table_shapes)
  next
    case True
    define action where "action = (if val p ''s'' \<noteq> None then ''fetch-task-schedule'' else if g_flags p = u ''wx'' then ''fetch-task-run-save''
          else if flag p ''x'' then ''fetch-task-run'' else ''fetch-task-save'')"
    from a True have "r = request_of ''suma'' p action False"
      unfolding suma_def action_def [symmetric] by (simp only: require_ok bindE_eq_Inr simp_thms if_False) blast
    moreover have "action \<in> set (the (map_of COMMAND_ACTIONS ''suma''))" by (auto simp: action_def COMMAND_ACTIONS_def)
    ultimately show ?thesis by (simp add: shape_intro)
  qed
qed

lemma emgr_finish_ok: "emgr_finish p action = Inr r \<Longrightarrow> r = request_of ''emgr'' p action (flag p ''p'')"
  by (simp add: emgr_finish_def absent_or_ok)

lemma emgr_for_ok:
  assumes "emgr_for p key = Inr r"
  shows "request_shape ''emgr'' p r \<and> req_preview r = flag p ''p''
    \<and> set (g_flags p) \<subseteq> set (if key = 100 then u ''dev'' else if key \<in> {108, 99, 114} then key # u ''Lnu'' @ (if key = 114 then u ''pq'' else u ''v'')
        else if key = 80 then u ''P'' else u ''epq'')"
proof -
  have shapes: "request_shape ''emgr'' p (request_of ''emgr'' p ''interim-display'' b)" "request_shape ''emgr'' p (request_of ''emgr'' p ''interim-locks'' b)"
    "request_shape ''emgr'' p (request_of ''emgr'' p ''interim-apply'' b)" for b
    by (simp_all add: shape_intro COMMAND_ACTIONS_def)
  consider "key = 100" | "key \<in> {108, 99, 114}" | "key = 80" | "key \<noteq> 100" "key \<notin> {108, 99, 114}" "key \<noteq> 80" by blast
  then show ?thesis
  proof cases
    case 1
    then show ?thesis using assms by (auto simp: emgr_for_def only_ok require_ok shapes dest!: emgr_finish_ok)
  next
    case 2
    then have "set (g_flags p) \<subseteq> set (key # u ''Lnu'' @ (if key = 114 then u ''pq'' else u ''v''))"
      "bindE (action_of emgr_actions key) (emgr_finish p) = Inr r"
      using assms by (auto simp: emgr_for_def only_ok require_ok absent_or_ok Let_def)
    with 2 show ?thesis by (auto simp: bindE_eq_Inr dest!: emgr_finish_ok intro: table_shapes)
  next
    case 3
    then show ?thesis using assms by (simp add: emgr_for_def only_ok require_ok) (auto simp: shapes dest!: emgr_finish_ok)
  next
    case 4
    then show ?thesis using assms by (simp add: emgr_for_def only_ok require_ok) (auto simp: shapes dest!: emgr_finish_ok)
  qed
qed

lemma emgr_ok: "emgr p = Inr r \<Longrightarrow> request_shape ''emgr'' p r \<and> req_preview r = flag p ''p''"
  using emgr_for_ok by (auto simp: emgr_def Let_def require_ok bindE_eq_Inr)

lemma install_all_updates_ok: "install_all_updates p = Inr r \<Longrightarrow> request_shape ''install_all_updates'' p r \<and> val p ''d'' \<noteq> None"
  by (auto simp: install_all_updates_def usage_simps COMMAND_ACTIONS_def intro!: shape_intro)

lemma instfix_ok: "instfix p = Inr r \<Longrightarrow> request_shape ''instfix'' p r \<and> \<not> req_preview r"
  by (auto simp: instfix_def Let_def usage_simps COMMAND_ACTIONS_def intro!: shape_intro split: if_splits)

lemma emgr_download_ifix_ok: "emgr_download_ifix p = Inr r \<Longrightarrow> request_shape ''emgr_download_ifix'' p r \<and> \<not> req_preview r"
  by (auto simp: emgr_download_ifix_def usage_simps COMMAND_ACTIONS_def intro!: shape_intro)

lemma epkg_ok: "epkg p = Inr r \<Longrightarrow> request_shape ''epkg'' p r \<and> \<not> req_preview r"
  by (auto simp: epkg_def usage_simps bindE_eq_Inr COMMAND_ACTIONS_def intro!: shape_intro)

lemma lppmgr_ok: "lppmgr p = Inr r \<Longrightarrow> request_shape ''lppmgr'' p r \<and> \<not> req_preview r"
  by (auto simp: lppmgr_def usage_simps COMMAND_ACTIONS_def intro!: shape_intro)

section \<open>Delegation\<close>

definition installp_spec :: pystr where
  "installp_spec = u ''acruClLspgvqd:f:''"

lemma installp_spec: "map_of SPECS (u ''installp'') = Some installp_spec" "45 \<notin> set installp_spec"
  "has_colon c installp_spec \<longleftrightarrow> c = 100 \<or> c = 102"
  by (simp_all add: SPECS_def installp_spec_def) (auto simp: u_def)

lemma option_step_flags:
  "option_step command spec p x = Inr q \<Longrightarrow> command \<noteq> u ''suma'' \<Longrightarrow>
    set (g_flags q) = set (g_flags p) \<union> {c \<in> {fst x}. \<not> has_colon c spec}"
  by (cases x) (auto simp: option_step_def split: if_splits)

lemma option_fold_flags:
  "foldE (option_step command spec) p opts = Inr q \<Longrightarrow> command \<noteq> u ''suma'' \<Longrightarrow>
    set (g_flags q) = set (g_flags p) \<union> {c \<in> fst ` set opts. \<not> has_colon c spec}"
proof (induction opts arbitrary: p)
  case (Cons x opts)
  then obtain p' where p': "option_step command spec p x = Inr p'" "foldE (option_step command spec) p' opts = Inr q"
    by (auto simp: bindE_eq_Inr)
  show ?case using option_step_flags [OF p'(1) Cons.prems(2)] Cons.IH [OF p'(2) Cons.prems(2)] by auto
qed simp

text \<open>The options the delegate sees are those spelled out for it.\<close>

lemma parse_installp_spelled:
  assumes "parse_installp (concat (map (spell installp_spec) opts) @ operands) = Inr d"
    "list_all (option_ok installp_spec) opts" "\<forall>a \<in> set operands. \<not> startswith a [45]"
  obtains q where "installp q = Inr d" "parsed_ok (u ''installp'') installp_spec q" "\<forall>a \<in> set (g_operands q). argument_ok a \<and> \<not> startswith a [45]"
    "set (g_flags q) = {c \<in> fst ` set opts. c \<noteq> 100 \<and> c \<noteq> 102}"
proof -
  from assms(1) obtain q where q: "options_of (u ''installp'') (concat (map (spell installp_spec) opts) @ operands) = Inr q" "installp q = Inr d"
    by (auto simp: parse_installp_def bindE_eq_Inr)
  from getopt_spell [OF assms(2) installp_spec(2) assms(3)] q(1)
  have "foldE (option_step (u ''installp'') installp_spec) \<lparr>g_flags = [], g_values = [], g_attributes = [], g_operands = operands\<rparr> opts = Inr q"
    by (auto simp: options_of_def installp_spec(1) bindE_eq_Inr split: if_splits)
  from option_fold_flags [OF this] have "set (g_flags q) = {c \<in> fst ` set opts. c \<noteq> 100 \<and> c \<noteq> 102}"
    by (auto simp: installp_spec(3))
  moreover obtain spec where "map_of SPECS (u ''installp'') = Some spec" "parsed_ok (u ''installp'') spec q"
      "\<forall>a \<in> set (g_operands q). argument_ok a \<and> \<not> startswith a [45]"
    using options_of_ok [OF q(1)] by blast
  ultimately show thesis using that q(2) installp_spec(1) by simp
qed

lemma installp_chosen_flags: "set (installp_chosen p) = (let s = set (g_flags p) \<inter> set (u ''acruClLs'') in if s = {} then {97} else s)"
  by (auto simp: installp_chosen_def picked_def Let_def u_def filter_empty_conv)

text \<open>Which action a request of \<open>installp\<close> has, by its flags.\<close>

lemma installp_action_flags:
  assumes "installp p = Inr r"
  shows "set (g_flags p) \<inter> set (u ''acruClLs'') = {76} \<Longrightarrow> req_action r = u ''media-list-colon''"
    and "set (g_flags p) \<inter> set (u ''acruClLs'') = {117} \<Longrightarrow> req_action r = u ''remove''"
    and "set (g_flags p) \<inter> set (u ''acruClLs'') \<subseteq> {97, 99} \<Longrightarrow> 97 \<in> set (g_flags p) \<or> 99 \<notin> set (g_flags p) \<Longrightarrow>
      req_action r \<in> {u ''apply'', u ''apply-commit''}"
proof -
  have len: "length (installp_chosen p) = 1 \<or> installp_chosen p = u ''ac''" and run: "installp_keyed p (installp_chosen p) = Inr r"
    using assms by (auto simp: installp_run usage_simps)
  have one: "installp_chosen p = [c]" if "set (installp_chosen p) = {c}" for c
    using len that by (cases "installp_chosen p") (auto simp: u_def)
  have chars: "u ''L'' = [76]" "u ''u'' = [117]" "u ''a'' = [97]" "u ''ac'' = [97, 99]" by (simp_all add: u_def)
  show "req_action r = u ''media-list-colon''" if "set (g_flags p) \<inter> set (u ''acruClLs'') = {76}"
    using run installp_for_ok(8) [of p r] one [of 76] that unfolding chars by (simp add: installp_chosen_flags)
  show "req_action r = u ''remove''" if "set (g_flags p) \<inter> set (u ''acruClLs'') = {117}"
    using run installp_for_ok(5) [of p r] one [of 117] that unfolding chars by (simp add: installp_chosen_flags)
  assume a: "set (g_flags p) \<inter> set (u ''acruClLs'') \<subseteq> {97, 99}" "97 \<in> set (g_flags p) \<or> 99 \<notin> set (g_flags p)"
  have in_u: "97 \<in> set (u ''acruClLs'')" "99 \<in> set (u ''acruClLs'')" by (simp_all add: u_def)
  have "set (installp_chosen p) = {97} \<or> set (installp_chosen p) = {97, 99}"
    using a in_u by (auto simp: installp_chosen_flags Let_def)
  moreover have "installp_chosen p = u ''a''" if "set (installp_chosen p) = {97}" using one [OF that] chars(3) by simp
  moreover have "installp_chosen p = u ''ac''" if "set (installp_chosen p) = {97, 99}"
  proof -
    have "length (installp_chosen p) \<noteq> 1" using that by (auto simp: length_Suc_conv)
    then show ?thesis using len by blast
  qed
  ultimately have "installp_chosen p = u ''a'' \<or> installp_chosen p = u ''ac''" by blast
  then show "req_action r \<in> {u ''apply'', u ''apply-commit''}"
    using run installp_for_ok(1,2) [of p r] by auto
qed

lemma delegated_ok:
  assumes "delegated p argv = Inr r"
  obtains d where "parse_installp argv = Inr d" "same_parts p r" "req_command r = u ''geninstall''" "req_delegate r = Some d"
    "req_action r = req_action d" "req_preview r = req_preview d"
  using assms by (auto simp: delegated_def bindE_eq_Inr same_parts_def)

lemma installp_letters:
  "short_has_arg 76 installp_spec = Some False" "short_has_arg 117 installp_spec = Some False" "short_has_arg 112 installp_spec = Some False"
  "short_has_arg 100 installp_spec = Some True" "short_has_arg 102 installp_spec = Some True"
  "c \<in> set (u ''acgpvq'') \<Longrightarrow> short_has_arg c installp_spec = Some False"
  by (auto simp: installp_spec_def u_def)

definition list_options :: "parsed \<Rightarrow> option_pair list" where
  "list_options p = (case val p ''f'' of Some f \<Rightarrow> [(102, f)] | None \<Rightarrow> [])"

lemma list_argument_spell: "list_argument p = Inr (concat (map (spell installp_spec) (list_options p)))"
    "list_all (option_ok installp_spec) (list_options p)" "fst ` set (list_options p) \<subseteq> {102}"
  by (auto simp: list_argument_def value_of_def val_def dict_item_def list_options_def spell_def installp_letters option_ok_def u_def split: option.splits)

text \<open>A request of \<open>geninstall\<close> with the action of its delegate, an accepted \<open>installp\<close> command.\<close>

definition delegates :: "parsed \<Rightarrow> request \<Rightarrow> pystr set \<Rightarrow> bool" where
  "delegates p r actions \<longleftrightarrow> same_parts p r \<and> req_command r = u ''geninstall'' \<and>
     (\<exists>d q. req_delegate r = Some d \<and> installp q = Inr d \<and> parsed_ok (u ''installp'') installp_spec q
        \<and> (\<forall>a \<in> set (g_operands q). argument_ok a \<and> \<not> startswith a [45])
        \<and> req_action r = req_action d \<and> req_preview r = req_preview d \<and> req_action d \<in> actions)"

lemma geninstall_cases:
  assumes "delegated p (concat (map (spell installp_spec) opts) @ g_operands p) = Inr r" "list_all (option_ok installp_spec) opts"
    "\<forall>a \<in> set (g_operands p). \<not> startswith a [45]" "S = {c \<in> fst ` set opts. c \<noteq> 100 \<and> c \<noteq> 102}"
  shows "S \<inter> set (u ''acruClLs'') = {76} \<Longrightarrow> delegates p r {u ''media-list-colon''}"
    and "S \<inter> set (u ''acruClLs'') = {117} \<Longrightarrow> delegates p r {u ''remove''}"
    and "S \<inter> set (u ''acruClLs'') \<subseteq> {97, 99} \<Longrightarrow> 97 \<in> S \<or> 99 \<notin> S \<Longrightarrow> delegates p r {u ''apply'', u ''apply-commit''}"
proof -
  obtain d where d: "parse_installp (concat (map (spell installp_spec) opts) @ g_operands p) = Inr d" "same_parts p r"
      "req_command r = u ''geninstall''" "req_delegate r = Some d" "req_action r = req_action d" "req_preview r = req_preview d"
    using delegated_ok [OF assms(1)] by blast
  obtain q where q: "installp q = Inr d" "parsed_ok (u ''installp'') installp_spec q" "\<forall>a \<in> set (g_operands q). argument_ok a \<and> \<not> startswith a [45]"
      "set (g_flags q) = S"
    using parse_installp_spelled [OF d(1) assms(2,3)] assms(4) by blast
  note act = installp_action_flags [OF q(1), unfolded q(4)]
  show "S \<inter> set (u ''acruClLs'') = {76} \<Longrightarrow> delegates p r {u ''media-list-colon''}"
    and "S \<inter> set (u ''acruClLs'') = {117} \<Longrightarrow> delegates p r {u ''remove''}"
    and "S \<inter> set (u ''acruClLs'') \<subseteq> {97, 99} \<Longrightarrow> 97 \<in> S \<or> 99 \<notin> S \<Longrightarrow> delegates p r {u ''apply'', u ''apply-commit''}"
    using d(2-6) q(1-3) act unfolding delegates_def by blast+
qed

lemma geninstall_ok:
  assumes "geninstall p = Inr r" "\<forall>a \<in> set (g_operands p). \<not> startswith a [45]"
  shows "delegates p r {u ''apply'', u ''apply-commit'', u ''remove'', u ''media-list-colon''}"
proof -
  have mono: "delegates p r A \<Longrightarrow> A \<subseteq> {u ''apply'', u ''apply-commit'', u ''remove'', u ''media-list-colon''} \<Longrightarrow> ?thesis" for A
    unfolding delegates_def by blast
  consider (L) "flag p ''L''" | (remove) "\<not> flag p ''L''" "flag p ''u''" | (install) "\<not> flag p ''L''" "\<not> flag p ''u''" by blast
  then show ?thesis
  proof cases
    case L
    define opts where "opts = [(76::nat, []), (100, case val p ''d'' of Some d \<Rightarrow> d | None \<Rightarrow> [])]"
    have "delegated p (concat (map (spell installp_spec) opts) @ g_operands p) = Inr r"
      using assms(1) L by (simp add: geninstall_def require_ok only_ok opts_def spell_def installp_letters u_def)
    moreover have "{c \<in> fst ` set opts. c \<noteq> 100 \<and> c \<noteq> 102} = {76}" by (auto simp: opts_def)
    moreover have "{76} \<inter> set (u ''acruClLs'') = {76}" by (simp add: u_def)
    ultimately have "delegates p r {u ''media-list-colon''}"
      by (intro geninstall_cases(1) [of p opts r "{76}"] assms(2)) (auto simp: opts_def option_ok_def installp_letters)
    then show ?thesis by (rule mono) simp
  next
    case remove
    define opts where "opts = (117::nat, []) # list_options p"
    have "delegated p (concat (map (spell installp_spec) opts) @ g_operands p) = Inr r"
      using assms(1) remove by (simp add: geninstall_def require_ok only_ok opts_def spell_def installp_letters list_argument_spell) (simp add: u_def)
    moreover have "{c \<in> fst ` set opts. c \<noteq> 100 \<and> c \<noteq> 102} = {117}" using list_argument_spell(3) by (auto simp: opts_def)
    moreover have "{117} \<inter> set (u ''acruClLs'') = {117}" by (simp add: u_def)
    ultimately have "delegates p r {u ''remove''}"
      by (intro geninstall_cases(2) [of p opts r "{117}"] assms(2)) (auto simp: opts_def option_ok_def installp_letters list_argument_spell)
    then show ?thesis by (rule mono) simp
  next
    case install
    from assms(1) install obtain ws nested where n: "getopt (u ''acgpvq'') ws = Inr (nested, [])"
      "u ''-a'' \<in> set (map (\<lambda>(o', _). [45, o']) nested) \<or> u ''-c'' \<notin> set (map (\<lambda>(o', _). [45, o']) nested)"
      and del: "delegated p (map (\<lambda>(o', _). [45, o']) nested @ (if flag p ''p'' then [u ''-p''] else []) @ [u ''-d'', the (val p ''d'')] @ concat (map (spell installp_spec) (list_options p)) @ g_operands p) = Inr r"
      by (auto simp: geninstall_def require_ok Let_def bindE_eq_Inr list_argument_spell(1) simp del: set_map split: sum.splits prod.splits)
    define opts where "opts = map (\<lambda>(o', _). (o', [])) nested @ (if flag p ''p'' then [(112, [])] else []) @ [(100, the (val p ''d''))] @ list_options p"
    have dashed: "u ''-p'' = [45, 112]" "u ''-d'' = [45, 100]" by (simp_all add: u_def)
    have nested: "fst ` set nested \<subseteq> set (u ''acgpvq'')"
      using getopt_ok [OF n(1)] short_has_arg_in by (fastforce simp: list_all_iff option_ok_def)
    have sp: "concat (map (spell installp_spec) (map (\<lambda>(o', _). (o', [])) nested)) = map (\<lambda>(o', _). [45, o']) nested"
      using nested by (induction nested) (auto simp: spell_def installp_letters)
    have "delegated p (concat (map (spell installp_spec) opts) @ g_operands p) = Inr r"
      using del unfolding opts_def map_append concat_append sp 
      by (cases "flag p ''p''") (simp_all add: spell_def installp_letters dashed)
    moreover have "list_all (option_ok installp_spec) opts"
      using nested list_argument_spell(2) by (auto simp: opts_def list_all_iff option_ok_def installp_letters)
    moreover have S: "{c \<in> fst ` set opts. c \<noteq> 100 \<and> c \<noteq> 102} = fst ` set nested \<union> (if flag p ''p'' then {112} else {})"
    proof -
      have "100 \<notin> fst ` set nested" "102 \<notin> fst ` set nested" using nested by (auto simp: u_def)
      moreover have "fst ` set opts = fst ` set nested \<union> (if flag p ''p'' then {112} else {}) \<union> {100} \<union> fst ` set (list_options p)"
        by (simp add: opts_def image_Un image_image case_prod_beta)
      ultimately show ?thesis using list_argument_spell(3) [of p] by (auto split: if_splits)
    qed
    moreover have "(fst ` set nested \<union> (if flag p ''p'' then {112} else {})) \<inter> set (u ''acruClLs'') \<subseteq> {97, 99}"
      using nested by (auto simp: u_def)
    moreover have "97 \<in> fst ` set nested \<union> (if flag p ''p'' then {112} else {}) \<or> 99 \<notin> fst ` set nested \<union> (if flag p ''p'' then {112} else {})"
    proof -
      have "(u ''-a'' \<in> (\<lambda>(o', _). [45, o']) ` set nested) = (97 \<in> fst ` set nested)"
        "(u ''-c'' \<in> (\<lambda>(o', _). [45, o']) ` set nested) = (99 \<in> fst ` set nested)"
        by (force simp: u_def)+
      then show ?thesis using n(2) unfolding set_map by auto
    qed
    ultimately have "delegates p r {u ''apply'', u ''apply-commit''}"
      by (intro geninstall_cases(3) [of p opts r "fst ` set nested \<union> (if flag p ''p'' then {112} else {})"] assms(2)) simp_all
    then show ?thesis by (rule mono) simp
  qed
qed

section \<open>Properties\<close>

text \<open>What an accepted request is, on its own terms.\<close>

definition request_ok :: "request \<Rightarrow> bool" where
  "request_ok r \<longleftrightarrow> (\<exists>c spec. req_command r = u c \<and> map_of SPECS (u c) = Some spec \<and> req_action r \<in> set (actions_of c)
     \<and> sorted (req_flags r) \<and> distinct (req_flags r) \<and> (\<forall>k \<in> set (req_flags r). k \<in> set spec \<and> \<not> has_colon k spec)
     \<and> sorted (map fst (req_values r)) \<and> distinct (map fst (req_values r)) \<and> (\<forall>(k, v) \<in> set (req_values r). has_colon k spec \<and> v \<noteq> [])
     \<and> distinct (map fst (req_attributes r)) \<and> fst ` set (req_attributes r) \<subseteq> set ATTRIBUTES \<and> (req_attributes r = [] \<or> c = ''suma'')
     \<and> (\<forall>a \<in> set (req_operands r). argument_ok a \<and> \<not> startswith a [45]))"

lemma no_items: "sorted_items [] = []"
  by (simp add: sorted_items_def)

lemma request_ok_intro:
  assumes "same_parts p r" "req_command r = u c" "req_action r \<in> set (actions_of c)" "map_of SPECS (u c) = Some spec" "parsed_ok (u c) spec p"
    "\<forall>a \<in> set (g_operands p). argument_ok a \<and> \<not> startswith a [45]"
  shows "request_ok r"
  unfolding request_ok_def
  by (rule exI [of _ c], rule exI [of _ spec])
    (use assms in \<open>auto simp: same_parts_def parsed_ok_def no_items\<close>)

lemma SPECS_names: "map_of SPECS (u c) = Some spec \<Longrightarrow> c \<in> {''installp'', ''lslpp'', ''lppchk'', ''install_all_updates'', ''instfix'',
    ''inutoc'', ''geninstall'', ''suma'', ''lppmgr'', ''epkg'', ''emgr_download_ifix'', ''emgr''}"
  by (simp add: SPECS_def split: if_splits)

lemma inutoc_ok:
  assumes "inutoc p = Inr r" "parsed_ok (u ''inutoc'') spec p" "\<forall>a \<in> set (g_operands p). argument_ok a \<and> \<not> startswith a [45]"
  shows "\<exists>q. request_shape ''inutoc'' q r \<and> \<not> req_preview r \<and> parsed_ok (u ''inutoc'') spec q
     \<and> (\<forall>a \<in> set (g_operands q). argument_ok a \<and> \<not> startswith a [45])"
proof -
  define q where "q = (if g_operands p = [] then p\<lparr>g_operands := [u ''/usr/sys/inst.images'']\<rparr> else p)"
  have "r = request_of ''inutoc'' q ''index-media'' False" using assms(1) by (simp add: inutoc_def require_ok q_def)
  moreover have "request_shape ''inutoc'' q (request_of ''inutoc'' q ''index-media'' False)" by (intro shape_intro) (simp add: COMMAND_ACTIONS_def)
  moreover have "parsed_ok (u ''inutoc'') spec q" using assms(2) by (simp add: q_def parsed_ok_def)
  moreover have "argument_ok (u ''/usr/sys/inst.images'') \<and> \<not> startswith (u ''/usr/sys/inst.images'') [45]"
    by (simp add: argument_ok_def u_def)
  ultimately show ?thesis using assms(3) by (intro exI [of _ q]) (auto simp: q_def)
qed

lemma parse_cases:
  assumes "parse (u c) argv = Inr r"
  obtains p where "options_of (u c) argv = Inr p" "c = ''installp''" "installp p = Inr r"
  | p where "options_of (u c) argv = Inr p" "c = ''geninstall''" "geninstall p = Inr r"
  | p where "options_of (u c) argv = Inr p" "c = ''inutoc''" "inutoc p = Inr r"
  | p where "options_of (u c) argv = Inr p" "c \<noteq> ''installp''" "c \<noteq> ''geninstall''" "request_shape c p r"
proof -
  from assms obtain p where p: "options_of (u c) argv = Inr p" by (auto simp: parse_def bindE_eq_Inr)
  then obtain spec where spec: "map_of SPECS (u c) = Some spec" by (rule options_of_ok)
  from p assms have run: "dispatch (u c) p = Inr r" by (simp add: parse_def)
  note names = SPECS_names [OF spec]
  consider "c = ''installp''" | "c = ''geninstall''" | "c = ''inutoc''" | "c \<noteq> ''installp''" "c \<noteq> ''geninstall''" "c \<noteq> ''inutoc''" by blast
  then show thesis
  proof cases
    case 1
    then show thesis using that(1) [OF p] run by (simp add: dispatch_def)
  next
    case 2
    then show thesis using that(2) [OF p] run by (simp add: dispatch_def)
  next
    case 3
    then show thesis using that(3) [OF p] run by (simp add: dispatch_def)
  next
    case 4
    have "request_shape c p r"
      using names run 4 lslpp_ok lppchk_ok install_all_updates_ok instfix_ok suma_ok emgr_download_ifix_ok epkg_ok emgr_ok lppmgr_ok
      by (elim insertE) (simp_all add: dispatch_def)
    with 4 show thesis using that(4) [OF p] by blast
  qed
qed

lemma emgr_for_preview:
  assumes "emgr_for p key = Inr r" "req_preview r"
  shows "req_action r \<in> {u ''interim-remove'', u ''interim-apply''}"
proof -
  have no_p: "flag p ''p'' \<Longrightarrow> 112 \<in> set (g_flags p)" by (simp add: flag_def u_def)
  have p: "112 \<in> set (if key = 100 then u ''dev'' else if key \<in> {108, 99, 114} then key # u ''Lnu'' @ (if key = 114 then u ''pq'' else u ''v'')
        else if key = 80 then u ''P'' else u ''epq'')"
    using emgr_for_ok [OF assms(1)] assms(2) no_p by blast
  consider "key = 100" | "key = 108" | "key = 99" | "key = 114" | "key = 80" | "key \<notin> {100, 108, 99, 114, 80}" by blast
  then show ?thesis
  proof cases
    case 4
    then have "bindE (action_of emgr_actions 114) (emgr_finish p) = Inr r" using assms(1) by (auto simp: emgr_for_def only_ok require_ok absent_or_ok Let_def)
    moreover have "action_of emgr_actions 114 = Inr ''interim-remove''" by (simp add: action_of_def emgr_actions_def u_def)
    ultimately have "emgr_finish p ''interim-remove'' = Inr r" by simp
    from emgr_finish_ok [OF this] show ?thesis by simp
  next
    case 6
    then have "emgr_finish p ''interim-apply'' = Inr r" using assms(1) by (simp add: emgr_for_def only_ok require_ok)
    from emgr_finish_ok [OF this] show ?thesis by simp
  qed (use p in \<open>simp_all add: u_def\<close>)
qed

definition preview_actions :: "pystr list" where
  "preview_actions = map u [''apply'', ''apply-commit'', ''commit'', ''reject'', ''remove'', ''update-installed'', ''update-installed-commit'',
     ''interim-remove'', ''interim-apply'']"

lemma install_all_updates_action: "install_all_updates p = Inr r \<Longrightarrow> req_action r \<in> set preview_actions"
  by (cases "flag p ''c''") (auto simp: install_all_updates_def require_ok preview_actions_def)

lemma emgr_preview: "emgr p = Inr r \<Longrightarrow> req_preview r \<Longrightarrow> req_action r \<in> set preview_actions"
  using emgr_for_preview [of p _ r] by (auto simp: emgr_def Let_def require_ok bindE_eq_Inr preview_actions_def)

lemma installp_preview: "installp_rules r \<Longrightarrow> req_preview r \<Longrightarrow> req_action r \<in> set preview_actions"
  by (auto simp: installp_rules_def preview_actions_def)

lemma parse_preview:
  assumes "parse (u c) argv = Inr r" "c \<noteq> ''installp''" "c \<noteq> ''geninstall''" "req_preview r"
  shows "req_action r \<in> set preview_actions"
proof -
  from assms obtain p where p: "options_of (u c) argv = Inr p" by (auto simp: parse_def bindE_eq_Inr)
  then obtain spec where spec: "map_of SPECS (u c) = Some spec" "parsed_ok (u c) spec p" "\<forall>a \<in> set (g_operands p). argument_ok a \<and> \<not> startswith a [45]"
    by (rule options_of_ok)
  from p assms(1) have run: "dispatch (u c) p = Inr r" by (simp add: parse_def)
  have inu: "c = ''inutoc'' \<Longrightarrow> inutoc p = Inr r \<Longrightarrow> \<not> req_preview r" using inutoc_ok [of p r spec] spec by auto
  show ?thesis
    using SPECS_names [OF spec(1)] run assms(2-4) lslpp_ok lppchk_ok install_all_updates_action instfix_ok suma_ok emgr_download_ifix_ok epkg_ok
      emgr_preview lppmgr_ok inu
    by (elim insertE) (simp_all add: dispatch_def)
qed

lemma read_only_no_preview: "set READ_ONLY_ACTIONS \<inter> set preview_actions = {}"
  by (simp add: READ_ONLY_ACTIONS_def preview_actions_def)

lemma delegate_rules:
  assumes "parse (u c) argv = Inr r" "c = ''installp'' \<or> c = ''geninstall''"
  shows "installp_rules (case req_delegate r of Some d \<Rightarrow> d | None \<Rightarrow> r) \<and> (req_preview r \<longrightarrow> req_action r \<in> set preview_actions)"
  using assms(1)
proof (cases rule: parse_cases)
  case (1 p)
  then obtain spec where "parsed_ok (u c) spec p" using options_of_ok by blast
  then have "distinct (map fst (g_values p))" by (simp add: parsed_ok_def)
  from installp_ok [OF 1(3) this] show ?thesis using installp_preview by auto
next
  case (2 p)
  then have "\<forall>a \<in> set (g_operands p). \<not> startswith a [45]" using options_of_ok by blast
  from geninstall_ok [OF 2(3) this] obtain d q where r: "req_delegate r = Some d" "installp q = Inr d"
    "parsed_ok (u ''installp'') installp_spec q" "req_action r = req_action d" "req_preview r = req_preview d"
    unfolding delegates_def by blast
  have "distinct (map fst (g_values q))" using r(3) by (simp add: parsed_ok_def)
  from installp_ok [OF r(2) this] r show ?thesis using installp_preview by auto
qed (use assms(2) in auto)

text \<open>C103: An accepted request is well formed: a known command with one of its actions, flags and option values that the
  command's specification declares, operands without leading dashes or control characters. Only
  \<open>geninstall\<close> delegates, and only to an accepted \<open>installp\<close> request that applies, removes or lists,
  whose action and preview are its own.\<close>

theorem parse_well_formed:
  assumes "parse (u c) argv = Inr r"
  shows "request_ok r \<and> req_command r = u c \<and> (case req_delegate r of
      None \<Rightarrow> c \<noteq> ''geninstall''
    | Some d \<Rightarrow> c = ''geninstall'' \<and> request_ok d \<and> req_command d = u ''installp'' \<and> req_delegate d = None
        \<and> req_action d = req_action r \<and> req_preview d = req_preview r)"
  using assms
proof (cases rule: parse_cases)
  case (1 p)
  then obtain spec where s: "map_of SPECS (u c) = Some spec" "parsed_ok (u c) spec p" "\<forall>a \<in> set (g_operands p). argument_ok a \<and> \<not> startswith a [45]"
    using options_of_ok by blast
  have "distinct (map fst (g_values p))" using s(2) by (simp add: parsed_ok_def)
  from installp_ok [OF 1(3) this] s 1(2) show ?thesis by (auto intro: request_ok_intro)
next
  case (2 p)
  then obtain spec where s: "map_of SPECS (u c) = Some spec" "parsed_ok (u c) spec p" "\<forall>a \<in> set (g_operands p). argument_ok a \<and> \<not> startswith a [45]"
    using options_of_ok by blast
  have "delegates p r {u ''apply'', u ''apply-commit'', u ''remove'', u ''media-list-colon''}"
    using geninstall_ok [OF 2(3)] s(3) by blast
  then obtain d q where r: "same_parts p r" "req_command r = u ''geninstall''" "req_delegate r = Some d" "installp q = Inr d"
    "parsed_ok (u ''installp'') installp_spec q" "\<forall>a \<in> set (g_operands q). argument_ok a \<and> \<not> startswith a [45]"
    "req_action r = req_action d" "req_preview r = req_preview d" "req_action d \<in> {u ''apply'', u ''apply-commit'', u ''remove'', u ''media-list-colon''}"
    unfolding delegates_def by blast
  have "distinct (map fst (g_values q))" using r(5) by (simp add: parsed_ok_def)
  note d = installp_ok [OF r(4) this]
  have "request_ok d" using d r(5,6) installp_spec(1) by (auto intro: request_ok_intro)
  moreover have "req_action r \<in> set (actions_of ''geninstall'')" using r(7,9) by (auto simp: actions_of_def COMMAND_ACTIONS_def)
  then have "request_ok r" using r(1,2) s 2(2) by (auto intro: request_ok_intro)
  ultimately show ?thesis using r d 2(2) by simp
next
  case (3 p)
  then obtain spec where s: "map_of SPECS (u c) = Some spec" "parsed_ok (u c) spec p" "\<forall>a \<in> set (g_operands p). argument_ok a \<and> \<not> startswith a [45]"
    using options_of_ok by blast
  from inutoc_ok [OF 3(3)] s 3(2) obtain q where "request_shape c q r" "parsed_ok (u c) spec q" "\<forall>a \<in> set (g_operands q). argument_ok a \<and> \<not> startswith a [45]"
    by blast
  then show ?thesis using s(1) 3(2) by (auto simp: request_shape_def intro: request_ok_intro)
next
  case (4 p)
  then obtain spec where s: "map_of SPECS (u c) = Some spec" "parsed_ok (u c) spec p" "\<forall>a \<in> set (g_operands p). argument_ok a \<and> \<not> startswith a [45]"
    using options_of_ok by blast
  then show ?thesis using 4 by (auto simp: request_shape_def intro: request_ok_intro)
qed

text \<open>C104: Package changes are explicit. The \<open>installp\<close> request behind an accepted command names its source when it
  applies, never rejects or removes \<open>all\<close>, and takes its packages either from operands or from a
  list, never from neither or both; and a request is a preview only of an action that changes the
  system, never of a read-only one.\<close>

theorem package_actions_explicit:
  assumes "parse (u c) argv = Inr r"
  shows "(c = ''installp'' \<or> c = ''geninstall'' \<longrightarrow> (let d = (case req_delegate r of Some d \<Rightarrow> d | None \<Rightarrow> r) in
       (req_action d \<in> {u ''apply'', u ''apply-commit''} \<longrightarrow> map_of (req_values d) 100 \<noteq> None)
     \<and> (req_action d \<in> {u ''reject'', u ''remove''} \<longrightarrow> u ''all'' \<notin> set (req_operands d))
     \<and> (req_action d \<in> {u ''apply'', u ''apply-commit'', u ''commit'', u ''reject'', u ''remove''} \<longrightarrow>
          (req_operands d \<noteq> []) \<noteq> (map_of (req_values d) 102 \<noteq> None))))
   \<and> \<not> (req_preview r \<and> req_action r \<in> set READ_ONLY_ACTIONS)"
proof -
  have "req_preview r \<Longrightarrow> req_action r \<in> set preview_actions"
    using delegate_rules [OF assms] parse_preview [OF assms] by blast
  then have "\<not> (req_preview r \<and> req_action r \<in> set READ_ONLY_ACTIONS)" using read_only_no_preview by blast
  moreover have "installp_rules (case req_delegate r of Some d \<Rightarrow> d | None \<Rightarrow> r)" if "c = ''installp'' \<or> c = ''geninstall''"
    using delegate_rules [OF assms that] by blast
  ultimately show ?thesis unfolding installp_rules_def Let_def by simp
qed

text \<open>C105: Whatever the command line is, the decoder either returns a request or raises \<open>UsageError\<close>; no other
  exception escapes from the option reader, the shell lexer, the numbers or the tables.\<close>

theorem parse_raises_usage_only:
  "(\<exists>r. parse command argv = Inr r) \<or> (\<exists>msg. parse command argv = Inl (UsageError msg))"
  using usual_parse [of command argv] by (auto simp: usual_def split: sum.splits exn.splits)

text \<open>The command line with every option spelled apart from its value and from the others.\<close>

definition spelled :: "pystr \<Rightarrow> pystr list \<Rightarrow> pystr list" where
  "spelled command argv = (case map_of SPECS command of
       None \<Rightarrow> argv
     | Some spec \<Rightarrow> (case getopt spec argv of Inl e \<Rightarrow> argv | Inr (opts, operands) \<Rightarrow> concat (map (spell spec) opts) @ operands))"

lemma no_dash: "map_of SPECS command = Some spec \<Longrightarrow> 45 \<notin> set spec"
proof -
  have "\<forall>(c, s) \<in> set SPECS. 45 \<notin> set s" by (simp add: SPECS_def u_def)
  then show "map_of SPECS command = Some spec \<Longrightarrow> 45 \<notin> set spec" using map_of_SomeD by fastforce
qed

lemma short_has_colon: "short_has_arg c spec = Some True \<Longrightarrow> has_colon c spec"
proof (induction spec)
  case (Cons x spec)
  then show ?case by (cases spec) (auto split: if_splits)
qed simp

lemma option_step_value: "option_step command spec p x = Inr q \<Longrightarrow> has_colon (fst x) spec \<Longrightarrow> snd x \<noteq> []"
  by (cases x) (auto simp: option_step_def split: if_splits option.splits)

lemma option_fold_values: "foldE (option_step command spec) p opts = Inr q \<Longrightarrow> \<forall>x \<in> set opts. has_colon (fst x) spec \<longrightarrow> snd x \<noteq> []"
  by (induction opts arbitrary: p) (auto simp: bindE_eq_Inr dest: option_step_value)

lemma options_of_spelled:
  assumes "options_of command argv = Inr p" "length (spelled command argv) \<le> 4096" "sum_list (map length (spelled command argv)) \<le> 65536"
  shows "options_of command (spelled command argv) = Inr p"
proof -
  from assms(1) obtain spec opts operands where o: "map_of SPECS command = Some spec" "list_all argument_ok argv"
    "getopt spec argv = Inr (opts, operands)"
    "foldE (option_step command spec) \<lparr>g_flags = [], g_values = [], g_attributes = [], g_operands = operands\<rparr> opts = Inr p"
    "\<not> list_ex (\<lambda>a. startswith a [45]) operands"
    by (auto simp: options_of_def bindE_eq_Inr split: option.splits if_splits sum.splits)
  have sp: "spelled command argv = concat (map (spell spec) opts) @ operands" by (simp add: spelled_def o)
  have again: "getopt spec (spelled command argv) = Inr (opts, operands)"
    unfolding sp using o(3,5) no_dash [OF o(1)] by (intro getopt_again) (auto simp: list_ex_iff)
  have chars: "\<forall>c \<in> set (concat argv). 32 \<le> c \<and> c \<noteq> 127" using o(2) by (auto simp: list_all_iff argument_ok_def)
  have "argument_ok a" if x: "x \<in> set opts" and a: "a \<in> set (spell spec x)" for x a
  proof -
    have "drawn (set (concat argv)) x" using getopt_chars [OF o(3)] x by blast
    moreover have "snd x \<noteq> []" if "short_has_arg (fst x) spec = Some True"
      using option_fold_values [OF o(4)] x short_has_colon [OF that] by blast
    ultimately show ?thesis using a chars by (auto simp: spell_def argument_ok_def drawn_def list_all_iff split: if_splits)
  qed
  moreover have "\<forall>a \<in> set operands. argument_ok a" using o(2) getopt_chars [OF o(3)] by (auto simp: list_all_iff)
  ultimately have "list_all argument_ok (spelled command argv)" by (auto simp: sp list_all_iff)
  then show ?thesis using o(1,4,5) again assms(2,3) by (simp add: options_of_def)
qed

text \<open>C27: Clustered options, attached values and the end-of-options mark mean what their spelled-out form means: the
  spelled command line, when it is within the input limits, decodes to the same request.\<close>

theorem spelled_command_roundtrip:
  assumes "parse command argv = Inr r" "length (spelled command argv) \<le> 4096" "sum_list (map length (spelled command argv)) \<le> 65536"
  shows "parse command (spelled command argv) = Inr r"
proof -
  from assms(1) obtain p where p: "options_of command argv = Inr p" "dispatch command p = Inr r" by (auto simp: parse_def bindE_eq_Inr)
  from options_of_spelled [OF p(1) assms(2,3)] p(2) show ?thesis by (simp add: parse_def)
qed

definition example_argv :: "pystr list" where
  "example_argv = map u [''-acpd'', ''/media'', ''--'', ''bash'', ''5.2'']"

definition example_request :: request where
  "example_request = Request (u ''installp'') (u ''apply-commit'') [u ''bash'', u ''5.2''] (u ''acp'') [(100, u ''/media'')] True [] None"

lemma example_parse: "parse (u ''installp'') example_argv = Inr example_request"
  by code_simp

lemma example_geninstall: "parse (u ''geninstall'') (map u [''-I'', ''-a -c'', ''-d'', ''/media'', ''bash'']) =
   Inr (Request (u ''geninstall'') (u ''apply-commit'') [u ''bash''] [] [(73, u ''-a -c''), (100, u ''/media'')] False []
     (Some (Request (u ''installp'') (u ''apply-commit'') [u ''bash''] (u ''ac'') [(100, u ''/media'')] False [] None)))"
  by code_simp

theorem parse_well_formed_witness:
  "req_action (Request (u ''geninstall'') (u ''apply-commit'') [u ''bash''] [] [(73, u ''-a -c''), (100, u ''/media'')] False []
     (Some (Request (u ''installp'') (u ''apply-commit'') [u ''bash''] (u ''ac'') [(100, u ''/media'')] False [] None))) = u ''apply-commit''
   \<and> request_ok (Request (u ''installp'') (u ''apply-commit'') [u ''bash''] (u ''ac'') [(100, u ''/media'')] False [] None)"
  using parse_well_formed [OF example_geninstall] by simp

theorem package_actions_explicit_witness: "\<not> (req_preview example_request \<and> req_action example_request \<in> set READ_ONLY_ACTIONS)
    \<and> map_of (req_values example_request) 100 \<noteq> None"
  using package_actions_explicit [OF example_parse] by (simp add: example_request_def)

lemma example_spelled: "spelled (u ''installp'') example_argv = map u [''-a'', ''-c'', ''-p'', ''-d'', ''/media'', ''bash'', ''5.2'']"
  by code_simp

theorem spelled_command_roundtrip_witness:
  "parse (u ''installp'') (map u [''-a'', ''-c'', ''-p'', ''-d'', ''/media'', ''bash'', ''5.2'']) = Inr example_request"
  using spelled_command_roundtrip [OF example_parse] by (simp add: example_spelled)

end
