(* ===== verification/Plan_Consent.thy ===== *)
theory Plan_Consent
  imports Native_Message Native_Observer
begin

text \<open>
  \<open>native/plan_consent.py\<close>: the offer of an exact plan and its confirmation on the original connection.
  The wire form of the offer, the sealed presentation, and the object that sends the offer, receives
  the confirmation and checks it later. The table of Unicode categories is an argument:
  \<open>control c\<close> says that the category of \<open>c\<close> starts with \<open>C\<close>.
\<close>

definition MAX_PRESENTATION :: int where
  "MAX_PRESENTATION = 1048576"

definition OFFER_SIZE :: nat where
  "OFFER_SIZE = 160"

definition REPLY_SIZE :: nat where
  "REPLY_SIZE = 48"

text \<open>\<open>F_SEAL_SEAL | F_SEAL_SHRINK | F_SEAL_GROW | F_SEAL_WRITE\<close>.\<close>

definition SEALS :: int where
  "SEALS = 15"

section \<open>The offer\<close>

record offer =
  request :: pybytes
  plan :: pybytes
  generation :: pybytes
  presentation :: pybytes
  deadline :: int
  offer_size :: int
  boot :: pybytes

definition wire :: "offer \<Rightarrow> pybytes res" where
  "wire o' =
     (if list_ex (\<lambda>(v, n). \<not> identity_bytes n v) [(request o', 16), (plan o', 32), (generation o', 32), (presentation o', 32), (boot o', 16)]
      then rejected ''consent-offer-identity''
      else if \<not> (0 < deadline o' \<and> deadline o' < 2 ^ 63 - 1) \<or> \<not> (0 < offer_size o' \<and> offer_size o' \<le> MAX_PRESENTATION)
      then rejected ''consent-offer-bounds''
      else Inr (bs ''NIAPLN01'' @ request o' @ plan o' @ generation o' @ presentation o' @ be64 (deadline o') @ be64 (offer_size o')
        @ boot o' @ replicate 8 0))"

definition offer_of :: "pybytes \<Rightarrow> offer" where
  "offer_of w = \<lparr>request = slice 8 24 w, plan = slice 24 56 w, generation = slice 56 88 w, presentation = slice 88 120 w,
     deadline = be_int (slice 120 128 w), offer_size = be_int (slice 128 136 w), boot = slice 136 152 w\<rparr>"

definition decode :: "pybytes \<Rightarrow> offer res" where
  "decode w =
     (if length w \<noteq> OFFER_SIZE \<or> take 8 w \<noteq> bs ''NIAPLN01'' \<or> list_ex (\<lambda>b. b \<noteq> 0) (drop 152 w) then rejected ''consent-offer-format''
      else let result = offer_of w in
        bindE (wire result) (\<lambda>w'. if w' \<noteq> w then rejected ''consent-offer-noncanonical'' else Inr result))"

definition response :: "offer \<Rightarrow> bool \<Rightarrow> pybytes res" where
  "response o' confirm = bindE (wire o') (\<lambda>w. Inr (bs ''NIACNS01'' @ sha256 w @ [if confirm then 1 else 0] @ replicate 7 0))"

section \<open>The presentation\<close>

definition presentation_text :: "(nat \<Rightarrow> bool) \<Rightarrow> int \<Rightarrow> pybytes \<Rightarrow> pystr res" where
  "presentation_text control limit raw =
     (if \<not> (0 < limit \<and> limit \<le> 64 * 1024 * 1024) \<or> \<not> (0 < length raw \<and> int (length raw) \<le> limit)
      then rejected ''consent-presentation-size''
      else case utf8_decode raw of
        None \<Rightarrow> Inl UnicodeDecodeError
      | Some text \<Rightarrow> if list_ex (\<lambda>c. control c \<and> c \<notin> {10, 9, 8204, 8205}) text then rejected ''consent-presentation-control'' else Inr text)"

text \<open>An open file: \<open>fstat\<close>, the seals, and \<open>pread\<close> by the number of the call, the count and the offset.\<close>

record sealed_file =
  f_regular :: bool
  f_uid :: int
  f_nlink :: int
  f_size :: int
  f_seals :: int
  f_pread :: "nat \<Rightarrow> nat \<Rightarrow> nat \<Rightarrow> pybytes res"

fun read_chunks :: "(nat \<Rightarrow> nat \<Rightarrow> nat \<Rightarrow> pybytes res) \<Rightarrow> nat \<Rightarrow> nat \<Rightarrow> nat \<Rightarrow> pybytes \<Rightarrow> pybytes res" where
  "read_chunks pread 0 i n raw = Inr raw"
| "read_chunks pread (Suc fuel) i n raw =
     (if length raw = n then Inr raw
      else bindE (pread i (min 65536 (n - length raw)) (length raw)) (\<lambda>answer.
        let chunk = take (min 65536 (n - length raw)) answer in
        if chunk = [] then rejected ''consent-presentation-truncated'' else read_chunks pread fuel (Suc i) n (raw @ chunk)))"

definition read_sealed_text :: "(nat \<Rightarrow> bool) \<Rightarrow> sealed_file \<Rightarrow> int \<Rightarrow> pybytes \<Rightarrow> int \<Rightarrow> pystr res" where
  "read_sealed_text control f n dig limit =
     (if \<not> (0 < n \<and> n \<le> limit \<and> limit \<le> 64 * 1024 * 1024) \<or> \<not> identity_bytes 32 dig then rejected ''sealed-text-context''
      else if \<not> f_regular f \<or> f_uid f \<noteq> 0 \<or> f_nlink f \<noteq> 0 \<or> f_size f \<noteq> n \<or> (f_seals f AND SEALS) \<noteq> SEALS
      then rejected ''consent-presentation-seals''
      else bindE (read_chunks (f_pread f) 1024 0 (nat n) []) (\<lambda>raw.
        if int (length raw) \<noteq> n \<or> sha256 raw \<noteq> dig then rejected ''consent-presentation-digest''
        else presentation_text control limit raw))"

definition read_presentation :: "(nat \<Rightarrow> bool) \<Rightarrow> sealed_file \<Rightarrow> offer \<Rightarrow> pystr res" where
  "read_presentation control f o' = read_sealed_text control f (offer_size o') (presentation o') MAX_PRESENTATION"

section \<open>One message\<close>

text \<open>\<open>receive\<close>: the data, the sender and the descriptors, which are released when anything is wrong.\<close>

definition receive :: "message res \<Rightarrow> (int \<Rightarrow> bool) \<Rightarrow> nat \<Rightarrow> (pybytes \<times> (int \<times> int) \<times> int list) res" where
  "receive answer bad limit = bindE answer (\<lambda>m.
     let flawed = (m_flags m AND NOT EXPECTED_FLAGS) \<noteq> 0 \<or> m_raw m = [] \<or> length (m_raw m) > limit;
         (wrong, owned, credentials) = foldl (control_step (m_little m)) (flawed, [], []) (m_controls m)
     in if wrong \<or> length credentials \<noteq> 1 \<or> fst (hd credentials) \<le> 0 \<or> fst (snd (hd credentials)) < 0
        then bindE (release_errors ''consent-descriptor-release'' bad owned) (\<lambda>_. rejected ''consent-message-controls'')
        else Inr (m_raw m, (fst (hd credentials), fst (snd (hd credentials))), owned))"

section \<open>The object\<close>

datatype phase = NEW | OFFERED | CONFIRMED | FAILED | CLOSED

record consent =
  owner :: int
  phase :: phase
  peer :: "int option"
  pidfd :: int
  offer :: offer
  expected :: pybytes
  actor :: "int \<times> int"

text \<open>What \<open>_current\<close> reads; \<open>p_ended\<close> says that the actor's process has ended.\<close>

record probe =
  p_now :: int
  p_pid :: int
  p_uid :: int
  p_euid :: int
  p_ended :: bool

definition current :: "probe \<Rightarrow> (unit, consent) proc" where
  "current p =
     thenS (rejectS (\<lambda>s. owner s \<noteq> p_pid p \<or> p_uid p \<noteq> 0 \<or> p_euid p \<noteq> 0 \<or> peer s = None \<or> pidfd s < 0 \<or> phase s = FAILED \<or> phase s = CLOSED
         \<or> p_now p \<ge> deadline (offer s)) ''consent-owner-or-expiry'')
     (rejectS (\<lambda>_. p_ended p) ''consent-actor-ended'')"

definition fail :: "(unit, consent) proc" where
  "fail = modifyS (\<lambda>s. s\<lparr>phase := FAILED\<rparr>)"

text \<open>The answers to \<open>send_offer\<close>: the probes, whether the peer is readable, the memory file, the writes, seals, sending, closing.\<close>

record sending =
  s_first :: probe
  s_readable :: bool
  s_memfd :: "int res"
  s_write :: "nat \<Rightarrow> int res"
  s_seal :: "unit res"
  s_second :: probe
  s_sent :: "int res"
  s_close_fails :: bool

text \<open>The loop that writes the presentation: the offset it reaches.\<close>

fun write_loop :: "(nat \<Rightarrow> int res) \<Rightarrow> string \<Rightarrow> nat \<Rightarrow> nat \<Rightarrow> nat \<Rightarrow> nat \<Rightarrow> nat res" where
  "write_loop write msg 0 i n offset = Inr offset"
| "write_loop write msg (Suc fuel) i n offset =
     (if offset = n then Inr offset
      else bindE (write i) (\<lambda>k. if k \<le> 0 then rejected msg else write_loop write msg fuel (Suc i) n (offset + nat k)))"

text \<open>The body after the memory file exists, and the whole; the file is closed whatever happens.\<close>

definition deliver :: "sending \<Rightarrow> pybytes \<Rightarrow> (unit, consent) proc" where
  "deliver a raw =
     bindS (liftS (write_loop (s_write a) ''consent-presentation-write'' 256 0 (length raw) 0)) (\<lambda>offset.
     thenS (rejectS (\<lambda>_. offset \<noteq> length raw) ''consent-presentation-budget'')
     (thenS (liftS (s_seal a))
     (thenS (current (s_second a))
     (bindS (getS (\<lambda>s. wire (offer s))) (\<lambda>w. bindS (liftS w) (\<lambda>w'. bindS (liftS (s_sent a)) (\<lambda>n.
       rejectS (\<lambda>_. n \<noteq> int (length w')) ''consent-offer-delivery-indeterminate'')))))))"

definition close_file :: "bool \<Rightarrow> (unit, consent) proc" where
  "close_file fails = (if fails then thenS fail (liftS (Inl OSError)) else ret ())"

definition send_offer :: "(nat \<Rightarrow> bool) \<Rightarrow> sending \<Rightarrow> pybytes \<Rightarrow> (unit, consent) proc" where
  "send_offer control a raw =
     bindS (exceptS
       (thenS (current (s_first a))
       (thenS (rejectS (\<lambda>s. phase s \<noteq> NEW) ''consent-offer-reuse'')
       (thenS (modifyS (\<lambda>s. s\<lparr>phase := OFFERED\<rparr>))
       (thenS (rejectS (\<lambda>_. s_readable a) ''consent-unconsumed-request-or-early-reply'')
       (bindS (liftS (presentation_text control MAX_PRESENTATION raw)) (\<lambda>_.
       thenS (rejectS (\<lambda>s. int (length raw) \<noteq> offer_size (offer s) \<or> sha256 raw \<noteq> presentation (offer s)) ''consent-offer-presentation'')
       (liftS (s_memfd a))))))))
       fail)
     (\<lambda>_. finallyS (exceptS (deliver a raw) fail) (close_file (s_close_fails a)))"

text \<open>\<open>check\<close>, with its probe and whether the peer is readable.\<close>

definition check :: "probe \<Rightarrow> bool \<Rightarrow> pybytes \<Rightarrow> pybytes \<Rightarrow> pybytes \<Rightarrow> int \<Rightarrow> (unit, consent) proc" where
  "check p readable pl gen req dl = exceptS
     (thenS (current p)
     (thenS (rejectS (\<lambda>s. phase s \<noteq> CONFIRMED \<or> (pl, gen, req, dl) \<noteq> (plan (offer s), generation (offer s), request (offer s), deadline (offer s)))
        ''consent-not-confirmed-for-context'')
     (rejectS (\<lambda>_. readable) ''consent-cancel-or-disconnect'')))
     (modifyS (\<lambda>s. if phase s \<noteq> CLOSED then s\<lparr>phase := FAILED\<rparr> else s))"

record confirming =
  r_first :: probe
  r_message :: "message res"
  r_close :: "int \<Rightarrow> bool"
  r_check :: probe
  r_readable :: bool

definition confirm_message :: "confirming \<Rightarrow> pybytes \<times> (int \<times> int) \<times> int list \<Rightarrow> (bool, consent) proc" where
  "confirm_message a = (\<lambda>(raw, sender, owned).
     thenS (rejectS (\<lambda>s. owned \<noteq> [] \<or> sender \<noteq> actor s \<or> raw \<noteq> expected s) ''consent-declined-or-mismatch'')
     (thenS (modifyS (\<lambda>s. s\<lparr>phase := CONFIRMED\<rparr>))
     (bindS (getS offer) (\<lambda>o'. thenS (check (r_check a) (r_readable a) (plan o') (generation o') (request o') (deadline o')) (ret True)))))"

definition receive_confirmation :: "confirming \<Rightarrow> (bool, consent) proc" where
  "receive_confirmation a =
     thenS (exceptS (thenS (current (r_first a)) (rejectS (\<lambda>s. phase s \<noteq> OFFERED) ''consent-reply-order'')) fail)
     (case receive (r_message a) (r_close a) REPLY_SIZE of
        Inl e \<Rightarrow> if e = BlockingIOError then ret False else thenS fail (liftS (Inl e))
      | Inr (raw, sender, owned) \<Rightarrow>
          finallyS (exceptS (confirm_message a (raw, sender, owned)) fail) (liftS (release_errors ''consent-descriptor-release'' (r_close a) owned)))"

record closing =
  c_peer :: "unit res"
  c_pidfd :: "unit res"

definition close :: "closing \<Rightarrow> (unit, consent) proc" where
  "close c = bindS (getS (\<lambda>s. (peer s, pidfd s))) (\<lambda>(p, fd).
     thenS (modifyS (\<lambda>s. s\<lparr>phase := CLOSED, peer := None, pidfd := - 1\<rparr>))
     (finallyS (liftS (if p \<noteq> None then c_peer c else Inr ())) (liftS (if fd \<ge> 0 then c_pidfd c else Inr ()))))"

text \<open>\<open>__init__\<close>: the identity of the boot is read, the socket duplicated, its kind and credentials taken.\<close>

record launch =
  i_pid :: int
  i_uid :: int
  i_euid :: int
  i_now :: int
  i_boot :: "pybytes res"
  i_peer :: "int res"
  i_private :: bool
  i_cred :: "pybytes res"
  i_little :: bool
  i_pidfd :: "int res"
  i_last :: probe
  i_close :: closing

definition start :: "launch \<Rightarrow> (unit, consent) proc" where
  "start a = exceptS
     (bindS (liftS (i_peer a)) (\<lambda>fd. thenS (modifyS (\<lambda>s. s\<lparr>peer := Some fd\<rparr>))
     (thenS (rejectS (\<lambda>_. \<not> i_private a) ''consent-credential-channel'')
     (bindS (liftS (i_cred a)) (\<lambda>cred. thenS (modifyS (\<lambda>s. s\<lparr>actor := (native_int (i_little a) (slice 0 4 cred), native_int (i_little a) (slice 4 8 cred))\<rparr>))
     (bindS (liftS (i_pidfd a)) (\<lambda>pd. thenS (modifyS (\<lambda>s. s\<lparr>pidfd := pd\<rparr>))
     (current (i_last a)))))))))
     (close (i_close a))"

definition plan_consent :: "launch \<Rightarrow> offer \<Rightarrow> consent res" where
  "plan_consent a o' = bindE (response o' True) (\<lambda>r.
     if i_uid a \<noteq> 0 \<or> i_euid a \<noteq> 0 \<or> \<not> (0 < deadline o' - i_now a \<and> deadline o' - i_now a \<le> 120000) then rejected ''consent-root-context''
     else bindE (i_boot a) (\<lambda>b. if b \<noteq> boot o' then rejected ''consent-boot''
       else case start a \<lparr>owner = i_pid a, phase = NEW, peer = None, pidfd = - 1, offer = o', expected = r, actor = (0, 0)\<rparr> of
         (Inl e, _) \<Rightarrow> Inl e | (Inr _, s) \<Rightarrow> Inr s))"

section \<open>The wire form\<close>

lemma wire_ok: "wire o' = Inr w \<longleftrightarrow>
    identity_bytes 16 (request o') \<and> identity_bytes 32 (plan o') \<and> identity_bytes 32 (generation o') \<and> identity_bytes 32 (presentation o')
    \<and> identity_bytes 16 (boot o') \<and> 0 < deadline o' \<and> deadline o' < 2 ^ 63 - 1 \<and> 0 < offer_size o' \<and> offer_size o' \<le> MAX_PRESENTATION
    \<and> w = bs ''NIAPLN01'' @ request o' @ plan o' @ generation o' @ presentation o' @ be64 (deadline o') @ be64 (offer_size o') @ boot o' @ replicate 8 0"
  by (auto simp: wire_def)

lemma wire_shape:
  assumes "wire o' = Inr w"
  shows "length w = OFFER_SIZE \<and> take 8 w = bs ''NIAPLN01'' \<and> drop 152 w = replicate 8 0 \<and> offer_of w = o'"
proof -
  have len: "length (request o') = 16" "length (plan o') = 32" "length (generation o') = 32" "length (presentation o') = 32" "length (boot o') = 16"
    and num: "be_int (be64 (deadline o')) = deadline o'" "be_int (be64 (offer_size o')) = offer_size o'"
    and w: "w = bs ''NIAPLN01'' @ request o' @ plan o' @ generation o' @ presentation o' @ be64 (deadline o') @ be64 (offer_size o') @ boot o' @ replicate 8 0"
    using assms by (auto simp: wire_ok identity_bytes_def MAX_PRESENTATION_def intro!: be_int_be64)
  show ?thesis
    by (simp add: w len num OFFER_SIZE_def offer_of_def slice_def)
qed

lemma decode_wire_iff: "decode w = Inr o' \<longleftrightarrow> wire o' = Inr w"
proof
  assume "decode w = Inr o'"
  then show "wire o' = Inr w"
    by (auto simp: decode_def Let_def bindE_eq_Inr split: if_splits)
next
  assume a: "wire o' = Inr w"
  from wire_shape [OF a] show "decode w = Inr o'"
    by (simp add: decode_def a list_ex_iff)
qed

section \<open>Reading the presentation\<close>

text \<open>A \<open>pread\<close> that returns all it was asked for, up to the end of the content.\<close>

definition full_pread :: "pybytes \<Rightarrow> nat \<Rightarrow> nat \<Rightarrow> nat \<Rightarrow> pybytes res" where
  "full_pread content i k offset = Inr (take k (drop offset content))"

lemma read_chunks_full:
  "prefix = take k content \<Longrightarrow> k \<le> length content \<Longrightarrow> length content \<le> k + 65536 * fuel \<Longrightarrow>
    read_chunks (full_pread content) fuel i (length content) prefix = Inr content"
proof (induction fuel arbitrary: i k prefix)
  case (Suc fuel)
  show ?case
  proof (cases "k = length content")
    case True
    then show ?thesis using Suc.prems by simp
  next
    case False
    define m where "m = min 65536 (length content - k)"
    have m: "0 < m" "k + m \<le> length content" "length content \<le> (k + m) + 65536 * fuel"
      using False Suc.prems by (auto simp: m_def)
    have len: "length prefix = k" using Suc.prems by simp
    have chunk: "take m (drop k content) \<noteq> []" using m by auto
    have "prefix @ take m (drop k content) = take (k + m) content" using Suc.prems(1) by (simp add: take_add)
    from Suc.IH [OF this m(2,3)] show ?thesis
      using False chunk by (simp add: len full_pread_def m_def [symmetric])
  qed
qed simp

lemma read_chunks_length: "read_chunks pread fuel i n raw = Inr r \<Longrightarrow> length raw \<le> n \<Longrightarrow> length r \<le> n"
  by (induction fuel arbitrary: i raw) (auto simp: bindE_eq_Inr Let_def split: if_splits)

section \<open>What the operations do\<close>

definition living :: "probe \<Rightarrow> consent \<Rightarrow> bool" where
  "living p s \<longleftrightarrow> owner s = p_pid p \<and> p_uid p = 0 \<and> p_euid p = 0 \<and> peer s \<noteq> None \<and> 0 \<le> pidfd s \<and> phase s \<noteq> FAILED \<and> phase s \<noteq> CLOSED
     \<and> p_now p < deadline (offer s) \<and> \<not> p_ended p"

lemma current_living: "current p s = (r, t) \<Longrightarrow> t = s \<and> (r = Inr () \<longleftrightarrow> living p s)"
  by (auto simp: current_def then_reject reject_eq rejected_def living_def split: if_splits)

lemma consent_current_ok: "living p s \<Longrightarrow> current p s = (Inr (), s)"
  using current_living [of p s] by (cases "current p s") auto

lemma current_bad: "\<not> living p s \<Longrightarrow> \<exists>e. current p s = (Inl e, s)"
  using current_living [of p s] by (cases "current p s"; cases "fst (current p s)") auto

definition failed :: "consent \<Rightarrow> consent" where
  "failed s = s\<lparr>phase := FAILED\<rparr>"

lemma consent_except: "exceptS m fail s = (case m s of (Inr x, s') \<Rightarrow> (Inr x, s') | (Inl e, s') \<Rightarrow> (Inl e, failed s'))"
  by (auto simp: exceptS_def fail_def modify_eq failed_def split: prod.splits sum.splits)

definition checks :: "probe \<Rightarrow> bool \<Rightarrow> pybytes \<Rightarrow> pybytes \<Rightarrow> pybytes \<Rightarrow> int \<Rightarrow> consent \<Rightarrow> bool" where
  "checks p readable pl gen req dl s \<longleftrightarrow> living p s \<and> phase s = CONFIRMED \<and> \<not> readable
     \<and> pl = plan (offer s) \<and> gen = generation (offer s) \<and> req = request (offer s) \<and> dl = deadline (offer s)"

lemma check_eq: "checks p readable pl gen req dl s \<Longrightarrow> check p readable pl gen req dl s = (Inr (), s)"
    "\<not> checks p readable pl gen req dl s \<Longrightarrow> \<exists>e. check p readable pl gen req dl s = (Inl e, if phase s \<noteq> CLOSED then failed s else s)"
proof -
  have eq: "exceptS m (modifyS (\<lambda>s. if phase s \<noteq> CLOSED then s\<lparr>phase := FAILED\<rparr> else s)) s =
      (case m s of (Inr x, s') \<Rightarrow> (Inr x, s') | (Inl e, s') \<Rightarrow> (Inl e, if phase s' \<noteq> CLOSED then failed s' else s'))" for m :: "(unit, consent) proc"
    by (auto simp: exceptS_def modify_eq failed_def split: prod.splits sum.splits)
  show "checks p readable pl gen req dl s \<Longrightarrow> check p readable pl gen req dl s = (Inr (), s)"
    by (simp add: check_def eq checks_def thenS_def bindS_def consent_current_ok reject_eq)
  show "\<not> checks p readable pl gen req dl s \<Longrightarrow> \<exists>e. check p readable pl gen req dl s = (Inl e, if phase s \<noteq> CLOSED then failed s else s)"
    using current_bad [of p s]
    by (cases "living p s") (auto simp: check_def eq checks_def thenS_def bindS_def consent_current_ok reject_eq rejected_def)
qed

lemma then_ok_value: "m s = (Inr x, t) \<Longrightarrow> thenS m (ret y) s = (Inr y, t)"
  by (simp add: thenS_def bindS_def ret_eq)

lemma then_error: "m s = (Inl e, t) \<Longrightarrow> thenS m n s = (Inl e, t)"
  by (simp add: thenS_def bindS_def)

text \<open>The confirmation: the one message of the actor that says yes to this offer, on a quiet live connection.\<close>

text \<open>A message without descriptors: apart from empty lists of descriptors it carries exactly one credential.\<close>

definition empty_rights :: "int \<times> int \<times> pybytes \<Rightarrow> bool" where
  "empty_rights c \<longleftrightarrow> fst c = SOL_SOCKET \<and> fst (snd c) = SCM_RIGHTS \<and> snd (snd c) = []"

definition sender_of :: "bool \<Rightarrow> pybytes \<Rightarrow> int \<times> int" where
  "sender_of little data = (native_int little (slice 0 4 data), native_int little (slice 4 8 data))"

definition plain_message :: "message \<Rightarrow> pybytes \<Rightarrow> pybytes \<Rightarrow> bool" where
  "plain_message m raw data \<longleftrightarrow> m_raw m = raw \<and> (m_flags m AND NOT EXPECTED_FLAGS) = 0
     \<and> filter (\<lambda>c. \<not> empty_rights c) (m_controls m) = [(SOL_SOCKET, SCM_CREDENTIALS, data)] \<and> length data = 12
     \<and> 0 < fst (sender_of (m_little m) data) \<and> 0 \<le> snd (sender_of (m_little m) data)"

lemma controls_flawed: "fst (foldl (control_step little) (True, fds, cr) cs)"
proof (induction cs arbitrary: fds cr)
  case (Cons c cs)
  obtain l k d where "c = (l, k, d)" by (cases c)
  then show ?case using Cons by simp
qed simp

lemma controls_owned: "fds \<noteq> [] \<Longrightarrow> fst (snd (foldl (control_step little) (bad, fds, cr) cs)) \<noteq> []"
proof (induction cs arbitrary: bad fds cr)
  case (Cons c cs)
  obtain l k d where "c = (l, k, d)" by (cases c)
  then show ?case using Cons by simp
qed simp

lemma native_ints_empty: "length d mod 4 = 0 \<Longrightarrow> native_ints little d = [] \<longleftrightarrow> d = []"
  by (induction little d rule: native_ints.induct) auto

definition credential :: "int \<times> int \<times> pybytes \<Rightarrow> bool" where
  "credential c \<longleftrightarrow> fst c = SOL_SOCKET \<and> fst (snd c) = SCM_CREDENTIALS \<and> length (snd (snd c)) = 12"

definition credentials_of :: "bool \<Rightarrow> (int \<times> int \<times> pybytes) list \<Rightarrow> (int \<times> int \<times> int) list" where
  "credentials_of little cs = map (\<lambda>c. (native_int little (slice 0 4 (snd (snd c))), native_int little (slice 4 8 (snd (snd c))),
     native_int little (slice 8 12 (snd (snd c))))) (filter (\<lambda>c. \<not> empty_rights c) cs)"

lemma controls_plain:
  assumes "foldl (control_step little) (False, [], cr) cs = (w, owned, cr')"
  shows "(\<not> w \<and> owned = [] \<longleftrightarrow> (\<forall>c \<in> set cs. empty_rights c \<or> credential c)) \<and> (\<not> w \<and> owned = [] \<longrightarrow> cr' = cr @ credentials_of little cs)"
  using assms
proof (induction cs arbitrary: cr)
  case (Cons c cs)
  obtain l k d where c: "c = (l, k, d)" by (cases c)
  have kinds: "SCM_RIGHTS \<noteq> SCM_CREDENTIALS" by (simp add: SCM_RIGHTS_def SCM_CREDENTIALS_def)
  consider (none) "empty_rights c" | (fds) "l = SOL_SOCKET" "k = SCM_RIGHTS" "d \<noteq> []" | (cred) "credential c"
    | (bad) "\<not> (l = SOL_SOCKET \<and> k = SCM_RIGHTS)" "\<not> credential c"
    by (auto simp: c empty_rights_def)
  then show ?case
  proof cases
    case none
    then show ?thesis using Cons by (simp add: c empty_rights_def credentials_of_def)
  next
    case fds
    have "w \<or> owned \<noteq> []"
    proof (cases "length d mod 4 = 0")
      case True
      then show ?thesis using controls_owned [of "native_ints little d" little False cr cs] fds native_ints_empty [OF True, of little] Cons.prems by (simp add: c)
    next
      case False
      then show ?thesis using controls_flawed [of little "native_ints little (take (length d - length d mod 4) d)" cr cs] fds Cons.prems by (simp add: c)
    qed
    moreover have "\<not> empty_rights c" "\<not> credential c" using fds kinds by (simp_all add: c empty_rights_def credential_def)
    ultimately show ?thesis by auto
  next
    case cred
    then have "foldl (control_step little) (False, [], cr @ [(native_int little (slice 0 4 d), native_int little (slice 4 8 d), native_int little (slice 8 12 d))]) cs = (w, owned, cr')"
      using kinds Cons.prems by (simp add: c credential_def)
    note ih = Cons.IH [OF this]
    have "\<not> empty_rights c" using cred kinds by (simp add: credential_def empty_rights_def)
    then have "credentials_of little (c # cs) = (native_int little (slice 0 4 d), native_int little (slice 4 8 d), native_int little (slice 8 12 d)) # credentials_of little cs"
      by (simp add: credentials_of_def c)
    then show ?thesis using ih cred by simp
  next
    case bad
    then have "w" using controls_flawed [of little "[]" cr cs] Cons.prems by (auto simp: c credential_def)
    moreover have "\<not> empty_rights c" using bad by (auto simp: c empty_rights_def)
    ultimately show ?thesis using bad by auto
  qed
qed (simp add: credentials_of_def)

lemma one_credential:
  "(\<forall>c \<in> set cs. empty_rights c \<or> credential c) \<and> credentials_of little cs = [x] \<longleftrightarrow>
     (\<exists>data. filter (\<lambda>c. \<not> empty_rights c) cs = [(SOL_SOCKET, SCM_CREDENTIALS, data)] \<and> length data = 12
       \<and> x = (native_int little (slice 0 4 data), native_int little (slice 4 8 data), native_int little (slice 8 12 data)))"
proof
  assume a: "(\<forall>c \<in> set cs. empty_rights c \<or> credential c) \<and> credentials_of little cs = [x]"
  then obtain c where c: "filter (\<lambda>c. \<not> empty_rights c) cs = [c]"
    "x = (native_int little (slice 0 4 (snd (snd c))), native_int little (slice 4 8 (snd (snd c))), native_int little (slice 8 12 (snd (snd c))))"
    by (auto simp: credentials_of_def)
  then have "c \<in> set cs" "\<not> empty_rights c" using filter_eq_ConsD [OF c(1)] by auto
  then have "credential c" using a by blast
  then show "\<exists>data. filter (\<lambda>c. \<not> empty_rights c) cs = [(SOL_SOCKET, SCM_CREDENTIALS, data)] \<and> length data = 12
       \<and> x = (native_int little (slice 0 4 data), native_int little (slice 4 8 data), native_int little (slice 8 12 data))"
    using c by (cases c) (auto simp: credential_def)
next
  assume "\<exists>data. filter (\<lambda>c. \<not> empty_rights c) cs = [(SOL_SOCKET, SCM_CREDENTIALS, data)] \<and> length data = 12
       \<and> x = (native_int little (slice 0 4 data), native_int little (slice 4 8 data), native_int little (slice 8 12 data))"
  then obtain data where d: "filter (\<lambda>c. \<not> empty_rights c) cs = [(SOL_SOCKET, SCM_CREDENTIALS, data)]" "length data = 12"
       "x = (native_int little (slice 0 4 data), native_int little (slice 4 8 data), native_int little (slice 8 12 data))" by blast
  have "{c \<in> set cs. \<not> empty_rights c} = {(SOL_SOCKET, SCM_CREDENTIALS, data)}" using arg_cong [OF d(1), of set] by simp
  then have "empty_rights c \<or> c = (SOL_SOCKET, SCM_CREDENTIALS, data)" if "c \<in> set cs" for c using that by blast
  then have "\<forall>c \<in> set cs. empty_rights c \<or> credential c" using d(2) by (fastforce simp: credential_def)
  then show "(\<forall>c \<in> set cs. empty_rights c \<or> credential c) \<and> credentials_of little cs = [x]" using d by (simp add: credentials_of_def)
qed

lemma receive_plain:
  assumes "0 < length raw" "length raw \<le> limit"
  shows "receive answer bad limit = Inr (raw, sender, []) \<longleftrightarrow> (\<exists>m data. answer = Inr m \<and> plain_message m raw data \<and> sender = sender_of (m_little m) data)"
proof (cases answer)
  case (Inr m)
  let ?bad = "(m_flags m AND NOT EXPECTED_FLAGS) \<noteq> 0 \<or> m_raw m = [] \<or> length (m_raw m) > limit"
  obtain wrong owned creds where f: "foldl (control_step (m_little m)) (?bad, [], []) (m_controls m) = (wrong, owned, creds)" by (cases "foldl (control_step (m_little m)) (?bad, [], []) (m_controls m)") auto
  have eq: "receive answer bad limit = (if wrong \<or> length creds \<noteq> 1 \<or> fst (hd creds) \<le> 0 \<or> fst (snd (hd creds)) < 0
        then bindE (release_errors ''consent-descriptor-release'' bad owned) (\<lambda>_. rejected ''consent-message-controls'')
        else Inr (m_raw m, (fst (hd creds), fst (snd (hd creds))), owned))"
    using f by (simp add: receive_def Inr Let_def)
  have lhs: "receive answer bad limit = Inr (raw, sender, []) \<longleftrightarrow> m_raw m = raw \<and> (\<exists>x. (\<not> wrong \<and> owned = [] \<and> creds = [x]) \<and> 0 < fst x \<and> 0 \<le> fst (snd x) \<and> sender = (fst x, fst (snd x)))"
    unfolding eq by (cases creds) (auto simp: bindE_eq_Inr rejected_def)
  show ?thesis
  proof (cases ?bad)
    case True
    then have "foldl (control_step (m_little m)) (True, [], []) (m_controls m) = (wrong, owned, creds)" using f by simp
    with controls_flawed [of "m_little m" "[]" "[]" "m_controls m"] have "wrong" by simp
    then show ?thesis using True assms unfolding lhs by (auto simp: Inr plain_message_def)
  next
    case False
    then have "foldl (control_step (m_little m)) (False, [], []) (m_controls m) = (wrong, owned, creds)" using f by simp
    from controls_plain [OF this] have "\<not> wrong \<and> owned = [] \<and> creds = [x] \<longleftrightarrow>
        (\<forall>c \<in> set (m_controls m). empty_rights c \<or> credential c) \<and> credentials_of (m_little m) (m_controls m) = [x]" for x by auto
    note one = this [unfolded one_credential]
    show ?thesis using False unfolding lhs one by (auto simp: Inr plain_message_def sender_of_def)
  qed
qed (simp add: receive_def)

definition confirms :: "confirming \<Rightarrow> consent \<Rightarrow> bool" where
  "confirms a s \<longleftrightarrow> living (r_first a) s \<and> phase s = OFFERED \<and> receive (r_message a) (r_close a) REPLY_SIZE = Inr (expected s, actor s, [])
     \<and> living (r_check a) s \<and> \<not> r_readable a"

lemma confirm_message_eq:
  assumes "phase s = OFFERED"
  shows "if owned = [] \<and> sender = actor s \<and> raw = expected s \<and> living (r_check a) s \<and> \<not> r_readable a
    then confirm_message a (raw, sender, owned) s = (Inr True, s\<lparr>phase := CONFIRMED\<rparr>)
    else \<exists>e t. confirm_message a (raw, sender, owned) s = (Inl e, t) \<and> failed t = failed s"
proof (cases "owned = [] \<and> sender = actor s \<and> raw = expected s")
  case False
  then have "confirm_message a (raw, sender, owned) s = (rejected ''consent-declined-or-mismatch'', s)"
    by (auto simp: confirm_message_def then_reject)
  then show ?thesis using False by (auto simp: rejected_def)
next
  case True
  define s1 where "s1 = s\<lparr>phase := CONFIRMED\<rparr>"
  have f: "failed s1 = failed s" "failed (failed s1) = failed s" "phase s1 \<noteq> CLOSED" by (simp_all add: s1_def failed_def)
  have eq: "confirm_message a (raw, sender, owned) s =
     thenS (check (r_check a) (r_readable a) (plan (offer s1)) (generation (offer s1)) (request (offer s1)) (deadline (offer s1))) (ret True) s1"
    using True by (simp add: confirm_message_def then_reject then_modify bind_get s1_def)
  have c: "checks (r_check a) (r_readable a) (plan (offer s1)) (generation (offer s1)) (request (offer s1)) (deadline (offer s1)) s1
      \<longleftrightarrow> living (r_check a) s \<and> \<not> r_readable a"
    using assms by (auto simp: checks_def s1_def living_def)
  show ?thesis
  proof (cases "living (r_check a) s \<and> \<not> r_readable a")
    case yes: True
    have res: "confirm_message a (raw, sender, owned) s = (Inr True, s1)"
      unfolding eq by (rule then_ok_value) (rule check_eq(1) [OF c [THEN iffD2, OF yes]])
    have "owned = [] \<and> sender = actor s \<and> raw = expected s \<and> living (r_check a) s \<and> \<not> r_readable a" using True yes by blast
    from if_P [OF this] show ?thesis using res [unfolded s1_def] by (rule ssubst)
  next
    case False
    then have "\<not> checks (r_check a) (r_readable a) (plan (offer s1)) (generation (offer s1)) (request (offer s1)) (deadline (offer s1)) s1" by (simp only: c simp_thms)
    from check_eq(2) [OF this] obtain e
      where "check (r_check a) (r_readable a) (plan (offer s1)) (generation (offer s1)) (request (offer s1)) (deadline (offer s1)) s1 = (Inl e, failed s1)"
      by (simp only: f(3) if_True simp_thms) blast
    then have res: "confirm_message a (raw, sender, owned) s = (Inl e, failed s1)" by (simp only: eq then_error)
    have neg: "\<not> (owned = [] \<and> sender = actor s \<and> raw = expected s \<and> living (r_check a) s \<and> \<not> r_readable a)" using False by blast
    show ?thesis unfolding if_not_P [OF neg] using res f(2) by blast
  qed
qed

lemma receive_confirmation_eq:
  "if confirms a s then receive_confirmation a s = (Inr True, s\<lparr>phase := CONFIRMED\<rparr>)
   else (\<exists>e. receive_confirmation a s = (Inl e, failed s)) \<or> (receive_confirmation a s = (Inr False, s) \<and> living (r_first a) s \<and> phase s = OFFERED)"
proof (cases "living (r_first a) s \<and> phase s = OFFERED")
  case False
  have "\<exists>e. exceptS (thenS (current (r_first a)) (rejectS (\<lambda>s. phase s \<noteq> OFFERED) ''consent-reply-order'')) fail s = (Inl e, failed s)"
    using False current_bad [of "r_first a" s]
    by (cases "living (r_first a) s") (auto simp: consent_except thenS_def bindS_def consent_current_ok reject_eq rejected_def)
  then have "\<exists>e. receive_confirmation a s = (Inl e, failed s)" by (auto simp: receive_confirmation_def thenS_def bindS_def)
  then show ?thesis using False by (auto simp: confirms_def)
next
  case True
  define answer where "answer = receive (r_message a) (r_close a) REPLY_SIZE"
  have eq: "receive_confirmation a s = (case answer of
        Inl e \<Rightarrow> if e = BlockingIOError then ret False else thenS fail (liftS (Inl e))
      | Inr (raw, sender, owned) \<Rightarrow>
          finallyS (exceptS (confirm_message a (raw, sender, owned)) fail) (liftS (release_errors ''consent-descriptor-release'' (r_close a) owned))) s"
    using True by (simp add: receive_confirmation_def answer_def consent_except thenS_def bindS_def consent_current_ok reject_eq)
  show ?thesis
  proof (cases answer)
    case (Inl e)
    then have "receive_confirmation a s = (Inr False, s) \<or> receive_confirmation a s = (Inl e, failed s)"
      by (simp add: eq ret_eq fail_def thenS_def bindS_def modify_eq lift_eq failed_def)
    moreover have "\<not> confirms a s" using Inl by (simp add: confirms_def answer_def)
    ultimately show ?thesis using True by auto
  next
    case (Inr x)
    obtain raw sender owned where x: "x = (raw, sender, owned)" by (cases x) auto
    have con: "confirms a s \<longleftrightarrow> owned = [] \<and> sender = actor s \<and> raw = expected s \<and> living (r_check a) s \<and> \<not> r_readable a"
      using True Inr by (auto simp: confirms_def answer_def x)
    have fin: "receive_confirmation a s = finallyS (exceptS (confirm_message a (raw, sender, owned)) fail)
        (liftS (release_errors ''consent-descriptor-release'' (r_close a) owned)) s"
      by (simp add: eq Inr x)
    note c = confirm_message_eq [of s owned sender raw a, folded con]
    show ?thesis
    proof (cases "confirms a s")
      case yes: True
      then have "confirm_message a (raw, sender, owned) s = (Inr True, s\<lparr>phase := CONFIRMED\<rparr>)" "owned = []" using c True con by auto
      then show ?thesis using yes by (simp add: fin finallyS_def consent_except lift_eq release_errors_def)
    next
      case no: False
      then obtain e t where "confirm_message a (raw, sender, owned) s = (Inl e, t)" "failed t = failed s" using c True by auto
      then have "\<exists>e. receive_confirmation a s = (Inl e, failed s)"
        by (auto simp: fin finallyS_def consent_except lift_eq split: sum.split)
      then show ?thesis using no by simp
    qed
  qed
qed

text \<open>Sending the offer: what has to hold, in the order it is looked at.\<close>

definition prepared :: "(nat \<Rightarrow> bool) \<Rightarrow> sending \<Rightarrow> pybytes \<Rightarrow> consent \<Rightarrow> bool" where
  "prepared control a raw s \<longleftrightarrow> living (s_first a) s \<and> phase s = NEW \<and> \<not> s_readable a \<and> is_ok (presentation_text control MAX_PRESENTATION raw)
     \<and> int (length raw) = offer_size (offer s) \<and> sha256 raw = presentation (offer s) \<and> is_ok (s_memfd a)"

definition delivered :: "sending \<Rightarrow> pybytes \<Rightarrow> consent \<Rightarrow> bool" where
  "delivered a raw s \<longleftrightarrow> write_loop (s_write a) ''consent-presentation-write'' 256 0 (length raw) 0 = Inr (length raw)
     \<and> is_ok (s_seal a) \<and> living (s_second a) s \<and> (\<exists>w. wire (offer s) = Inr w \<and> s_sent a = Inr (int (length w)))"

lemma deliver_eq: "if delivered a raw s then deliver a raw s = (Inr (), s) else \<exists>e. deliver a raw s = (Inl e, s)"
proof (cases "write_loop (s_write a) ''consent-presentation-write'' 256 0 (length raw) 0 = Inr (length raw) \<and> is_ok (s_seal a)")
  case False
  then show ?thesis
    by (cases "write_loop (s_write a) ''consent-presentation-write'' 256 0 (length raw) 0"; cases "s_seal a")
      (auto simp: delivered_def deliver_def bind_lift then_lift then_reject rejected_def)
next
  case written: True
  have eq: "deliver a raw s = thenS (current (s_second a))
     (bindS (getS (\<lambda>s. wire (offer s))) (\<lambda>w. bindS (liftS w) (\<lambda>w'. bindS (liftS (s_sent a)) (\<lambda>n.
       rejectS (\<lambda>_. n \<noteq> int (length w')) ''consent-offer-delivery-indeterminate'')))) s"
    using written by (cases "s_seal a") (simp_all add: deliver_def bind_lift then_lift then_reject)
  show ?thesis
  proof (cases "living (s_second a) s")
    case True
    then have "deliver a raw s = bindS (liftS (wire (offer s))) (\<lambda>w'. bindS (liftS (s_sent a)) (\<lambda>n.
       rejectS (\<lambda>_. n \<noteq> int (length w')) ''consent-offer-delivery-indeterminate'')) s"
      unfolding eq by (simp add: thenS_def bindS_def consent_current_ok getS_def)
    then show ?thesis using written True
      by (cases "wire (offer s)"; cases "s_sent a") (auto simp: delivered_def bind_lift reject_eq rejected_def)
  next
    case False
    with current_bad obtain e where "current (s_second a) s = (Inl e, s)" by blast
    then show ?thesis using False unfolding eq by (simp add: thenS_def bindS_def delivered_def)
  qed
qed

lemma prepare_eq:
  "if prepared control a raw s
   then \<exists>fd. thenS (current (s_first a))
       (thenS (rejectS (\<lambda>s. phase s \<noteq> NEW) ''consent-offer-reuse'')
       (thenS (modifyS (\<lambda>s. s\<lparr>phase := OFFERED\<rparr>))
       (thenS (rejectS (\<lambda>_. s_readable a) ''consent-unconsumed-request-or-early-reply'')
       (bindS (liftS (presentation_text control MAX_PRESENTATION raw)) (\<lambda>_.
       thenS (rejectS (\<lambda>s. int (length raw) \<noteq> offer_size (offer s) \<or> sha256 raw \<noteq> presentation (offer s)) ''consent-offer-presentation'')
       (liftS (s_memfd a))))))) s = (Inr fd, s\<lparr>phase := OFFERED\<rparr>)
   else \<exists>e t. thenS (current (s_first a))
       (thenS (rejectS (\<lambda>s. phase s \<noteq> NEW) ''consent-offer-reuse'')
       (thenS (modifyS (\<lambda>s. s\<lparr>phase := OFFERED\<rparr>))
       (thenS (rejectS (\<lambda>_. s_readable a) ''consent-unconsumed-request-or-early-reply'')
       (bindS (liftS (presentation_text control MAX_PRESENTATION raw)) (\<lambda>_.
       thenS (rejectS (\<lambda>s. int (length raw) \<noteq> offer_size (offer s) \<or> sha256 raw \<noteq> presentation (offer s)) ''consent-offer-presentation'')
       (liftS (s_memfd a))))))) s = (Inl e, t) \<and> failed t = failed s"
proof (cases "living (s_first a) s")
  case True
  then have c: "thenS (current (s_first a)) m s = m s" for m :: "(int, consent) proc" by (simp add: thenS_def bindS_def consent_current_ok)
  show ?thesis
    using True by (cases "presentation_text control MAX_PRESENTATION raw"; cases "s_memfd a")
      (auto simp: c prepared_def then_reject then_modify bind_lift lift_eq rejected_def failed_def)
next
  case False
  with current_bad obtain e where "current (s_first a) s = (Inl e, s)" by blast
  then show ?thesis using False by (simp add: thenS_def bindS_def prepared_def)
qed

definition offers :: "(nat \<Rightarrow> bool) \<Rightarrow> sending \<Rightarrow> pybytes \<Rightarrow> consent \<Rightarrow> bool" where
  "offers control a raw s \<longleftrightarrow> prepared control a raw s \<and> delivered a raw (s\<lparr>phase := OFFERED\<rparr>) \<and> \<not> s_close_fails a"

lemma send_offer_eq:
  "if offers control a raw s then send_offer control a raw s = (Inr (), s\<lparr>phase := OFFERED\<rparr>)
   else \<exists>e. send_offer control a raw s = (Inl e, failed s)"
proof (cases "prepared control a raw s")
  case False
  with prepare_eq [of control a raw s] show ?thesis
    by (auto simp: send_offer_def bindS_def consent_except offers_def)
next
  case True
  define s1 where "s1 = s\<lparr>phase := OFFERED\<rparr>"
  have f: "failed s1 = failed s" "failed (failed s) = failed s" by (simp_all add: s1_def failed_def)
  from True prepare_eq [of control a raw s] have eq: "send_offer control a raw s = finallyS (exceptS (deliver a raw) fail) (close_file (s_close_fails a)) s1"
    by (auto simp: send_offer_def bindS_def consent_except s1_def)
  have cl: "close_file b t = (if b then (Inl OSError, failed t) else (Inr (), t))" for b t
    by (simp add: close_file_def fail_def then_modify lift_eq ret_eq failed_def)
  show ?thesis
  proof (cases "delivered a raw s1")
    case d: True
    then have "deliver a raw s1 = (Inr (), s1)" using deliver_eq [of a raw s1] by simp
    then have "send_offer control a raw s = (if s_close_fails a then (Inl OSError, failed s1) else (Inr (), s1))"
      by (simp add: eq finallyS_def consent_except cl)
    then show ?thesis using True d f by (simp add: offers_def s1_def)
  next
    case d: False
    then obtain e where "deliver a raw s1 = (Inl e, s1)" using deliver_eq [of a raw s1] by auto
    then have "send_offer control a raw s = (if s_close_fails a then (Inl OSError, failed (failed s1)) else (Inl e, failed s1))"
      by (simp add: eq finallyS_def consent_except cl)
    then show ?thesis using d f by (simp add: offers_def s1_def)
  qed
qed

section \<open>Runs of a consent\<close>

datatype consent_action = Send sending pybytes | Confirm confirming | Check probe bool pybytes pybytes pybytes int | Close closing

datatype grant = Offered pybytes | Confirmed | Checked pybytes pybytes pybytes int

fun consent_step :: "(nat \<Rightarrow> bool) \<Rightarrow> consent \<Rightarrow> consent_action \<Rightarrow> grant option \<times> consent" where
  "consent_step control s (Send a raw) = (case send_offer control a raw s of (Inr _, t) \<Rightarrow> (Some (Offered raw), t) | (Inl _, t) \<Rightarrow> (None, t))"
| "consent_step control s (Confirm a) = (case receive_confirmation a s of
     (Inr b, t) \<Rightarrow> (if b then Some Confirmed else None, t) | (Inl _, t) \<Rightarrow> (None, t))"
| "consent_step control s (Check p readable pl gen req dl) = (case check p readable pl gen req dl s of
     (Inr _, t) \<Rightarrow> (Some (Checked pl gen req dl), t) | (Inl _, t) \<Rightarrow> (None, t))"
| "consent_step control s (Close c) = (None, snd (close c s))"

text \<open>What can have been granted: the offer of its presentation, then its confirmation, then checks of its context.\<close>

definition granted :: "offer \<Rightarrow> grant list \<Rightarrow> phase \<Rightarrow> bool" where
  "granted o' h ph \<longleftrightarrow>
     (h = [] \<and> ph \<notin> {OFFERED, CONFIRMED})
     \<or> (\<exists>raw. int (length raw) = offer_size o' \<and> sha256 raw = presentation o'
          \<and> ((h = [Offered raw] \<and> ph \<notin> {NEW, CONFIRMED})
             \<or> (\<exists>n. h = Offered raw # Confirmed # replicate n (Checked (plan o') (generation o') (request o') (deadline o')) \<and> ph \<notin> {NEW, OFFERED})))"

definition consent_inv :: "offer \<Rightarrow> grant list \<Rightarrow> consent \<Rightarrow> bool" where
  "consent_inv o' h s \<longleftrightarrow> offer s = o' \<and> granted o' h (phase s)"

lemma granted_end: "granted o' h ph \<Longrightarrow> granted o' h FAILED \<and> granted o' h CLOSED"
  by (auto simp: granted_def)

lemma granted_next:
  "granted o' h NEW \<Longrightarrow> int (length raw) = offer_size o' \<Longrightarrow> sha256 raw = presentation o' \<Longrightarrow> granted o' (h @ [Offered raw]) OFFERED"
  "granted o' h OFFERED \<Longrightarrow> granted o' (h @ [Confirmed]) CONFIRMED"
  by (auto simp: granted_def intro: exI [of _ 0])

lemma granted_check:
  assumes "granted o' h CONFIRMED"
  shows "granted o' (h @ [Checked (plan o') (generation o') (request o') (deadline o')]) CONFIRMED"
proof -
  from assms obtain raw n where "int (length raw) = offer_size o'" "sha256 raw = presentation o'"
    "h = Offered raw # Confirmed # replicate n (Checked (plan o') (generation o') (request o') (deadline o'))" by (auto simp: granted_def)
  moreover from this have "h @ [Checked (plan o') (generation o') (request o') (deadline o')]
     = Offered raw # Confirmed # replicate (Suc n) (Checked (plan o') (generation o') (request o') (deadline o'))"
    by (simp add: replicate_append_same)
  ultimately show ?thesis unfolding granted_def by blast
qed

lemma consent_failed_simps [simp]: "offer (failed s) = offer s" "phase (failed s) = FAILED"
  by (simp_all add: failed_def)

lemma consent_closed: "snd (close c s) = s\<lparr>phase := CLOSED, peer := None, pidfd := - 1\<rparr>"
  by (simp add: close_def bind_get then_modify finallyS_def lift_eq split: sum.splits)

lemma consent_step_inv:
  assumes "consent_inv o' h s" "consent_step control s a = (r, t)"
  shows "consent_inv o' (h @ (case r of None \<Rightarrow> [] | Some x \<Rightarrow> [x])) t"
proof (cases a)
  case (Send b raw)
  show ?thesis
  proof (cases "offers control b raw s")
    case True
    then have "r = Some (Offered raw)" "t = s\<lparr>phase := OFFERED\<rparr>"
      using send_offer_eq [of control b raw s] assms(2) by (simp_all add: Send)
    moreover have "phase s = NEW" "int (length raw) = offer_size o'" "sha256 raw = presentation o'"
      using True assms(1) by (simp_all add: offers_def prepared_def consent_inv_def)
    ultimately show ?thesis using assms(1) granted_next(1) by (simp add: consent_inv_def)
  next
    case False
    then have "r = None" "t = failed s" using send_offer_eq [of control b raw s] assms(2) by (auto simp: Send)
    then show ?thesis using assms(1) granted_end by (auto simp: consent_inv_def)
  qed
next
  case (Confirm b)
  show ?thesis
  proof (cases "confirms b s")
    case True
    then have "r = Some Confirmed" "t = s\<lparr>phase := CONFIRMED\<rparr>" "phase s = OFFERED"
      using receive_confirmation_eq [of b s] assms(2) by (simp_all add: Confirm confirms_def)
    then show ?thesis using assms(1) granted_next(2) by (simp add: consent_inv_def)
  next
    case False
    then have "r = None" "t = failed s \<or> t = s" using receive_confirmation_eq [of b s] assms(2) by (auto simp: Confirm)
    then show ?thesis using assms(1) granted_end by (auto simp: consent_inv_def)
  qed
next
  case (Check p readable pl gen req dl)
  show ?thesis
  proof (cases "checks p readable pl gen req dl s")
    case True
    then have "r = Some (Checked pl gen req dl)" "t = s"
      using check_eq(1) [of p readable pl gen req dl s] assms(2) by (simp_all add: Check)
    moreover have "phase s = CONFIRMED" "pl = plan o'" "gen = generation o'" "req = request o'" "dl = deadline o'"
      using True assms(1) by (simp_all add: checks_def consent_inv_def)
    ultimately show ?thesis using assms(1) granted_check by (simp add: consent_inv_def)
  next
    case False
    then have "r = None" "t = failed s \<or> t = s"
      using check_eq(2) [of p readable pl gen req dl s] assms(2) by (auto simp: Check split: if_splits)
    then show ?thesis using assms(1) granted_end by (auto simp: consent_inv_def)
  qed
next
  case (Close c)
  then have "r = None" "t = s\<lparr>phase := CLOSED, peer := None, pidfd := - 1\<rparr>" using assms(2) consent_closed [of c s] by simp_all
  then show ?thesis using assms(1) granted_end by (auto simp: consent_inv_def)
qed

interpretation consents: historied "consent_step control" "consent_inv o'" for control o'
  by unfold_locales (rule consent_step_inv)

lemma ended_step:
  assumes "phase s = FAILED \<or> phase s = CLOSED"
  shows "fst (consent_step control s a) = None \<and> (phase (snd (consent_step control s a)) = FAILED \<or> phase (snd (consent_step control s a)) = CLOSED)"
proof -
  have dead: "\<not> living p s" for p using assms by (auto simp: living_def)
  show ?thesis
  proof (cases a)
    case (Send b raw)
    have "\<not> offers control b raw s" using dead by (simp add: offers_def prepared_def)
    then show ?thesis using send_offer_eq [of control b raw s] by (auto simp: Send)
  next
    case (Confirm b)
    have "\<not> confirms b s" using dead by (simp add: confirms_def)
    then show ?thesis using receive_confirmation_eq [of b s] dead by (auto simp: Confirm)
  next
    case (Check p readable pl gen req dl)
    have "\<not> checks p readable pl gen req dl s" using dead by (simp add: checks_def)
    then show ?thesis using check_eq(2) [of p readable pl gen req dl s] assms by (auto simp: Check split: if_splits)
  qed (simp add: consent_closed)
qed

lemma ended_run: "phase s = FAILED \<or> phase s = CLOSED \<Longrightarrow> fst (run_of (consent_step control) s is) = []"
proof (induction "is" arbitrary: s)
  case (Cons i "is")
  from ended_step [OF Cons.prems, of control i] Cons.IH [of "snd (consent_step control s i)"] show ?case
    by (auto split: prod.splits)
qed simp

lemma plan_consent_new:
  assumes "plan_consent a o' = Inr c"
  shows "phase c = NEW \<and> offer c = o' \<and> Inr (expected c) = response o' True \<and> living (i_last a) c"
proof -
  from assms obtain r where r: "response o' True = Inr r"
    and st: "start a \<lparr>owner = i_pid a, phase = NEW, peer = None, pidfd = - 1, offer = o', expected = r, actor = (0, 0)\<rparr> = (Inr (), c)"
    by (auto simp: plan_consent_def bindE_eq_Inr split: if_splits prod.splits sum.splits)
  from st obtain s' where cur: "current (i_last a) s' = (Inr (), c)" and s': "phase s' = NEW" "offer s' = o'" "expected s' = r"
    by (auto simp: start_def run_simps)
  from current_living [OF cur] s' r show ?thesis by auto
qed

section \<open>Properties\<close>

text \<open>C107: \<open>Offer.decode\<close> inverts \<open>Offer.wire\<close> exactly: bytes decode to an offer when, and only when, they are the wire
  form of it; everything else is rejected.\<close>

theorem offer_roundtrip: "(decode w = Inr o') = (wire o' = Inr w)"
  by (rule decode_wire_iff)

text \<open>The offer, the answer it asks for and the credentials taken at the start never change.\<close>

definition fixed_parts :: "consent \<Rightarrow> offer \<times> pybytes \<times> int \<times> int" where
  "fixed_parts s = (offer s, expected s, actor s)"

lemma fixed_step: "fixed_parts (snd (consent_step control s a)) = fixed_parts s"
proof (cases a)
  case (Send b raw)
  then show ?thesis using send_offer_eq [of control b raw s] by (auto simp: fixed_parts_def failed_def split: if_splits)
next
  case (Confirm b)
  then show ?thesis using receive_confirmation_eq [of b s] by (auto simp: fixed_parts_def failed_def split: if_splits)
next
  case (Check p readable pl gen req dl)
  then show ?thesis using check_eq [of p readable pl gen req dl s] by (cases "checks p readable pl gen req dl s") (auto simp: fixed_parts_def failed_def)
next
  case (Close c)
  then show ?thesis by (simp add: consent_closed fixed_parts_def)
qed

lemma fixed_run: "run_of (consent_step control) s is = (h, t) \<Longrightarrow> fixed_parts t = fixed_parts s"
proof (induction "is" arbitrary: s h)
  case (Cons i "is")
  from fixed_step [of control s i] Cons.IH Cons.prems show ?case by (auto split: prod.splits)
qed simp

lemma start_actor:
  assumes "start a s = (Inr (), c)"
  shows "\<exists>cred. i_cred a = Inr cred \<and> actor c = sender_of (i_little a) cred \<and> offer c = offer s \<and> expected c = expected s"
proof -
  from assms obtain fd cred pd where "i_cred a = Inr cred"
    and cur: "current (i_last a) (s\<lparr>peer := Some fd, actor := sender_of (i_little a) cred, pidfd := pd\<rparr>) = (Inr (), c)"
    unfolding start_def exceptS_ok bindS_ok thenS_ok lift_eq modifyS_run rejectS_ok sender_of_def prod.inject by auto
  with current_living [OF cur] show ?thesis by auto
qed

lemma plan_consent_parts:
  assumes "plan_consent a o' = Inr c"
  shows "\<exists>w cred. wire o' = Inr w \<and> i_cred a = Inr cred \<and> fixed_parts c = (o', bs ''NIACNS01'' @ sha256 w @ [1] @ replicate 7 0, sender_of (i_little a) cred)"
proof -
  from assms obtain r where r: "response o' True = Inr r"
    and st: "start a \<lparr>owner = i_pid a, phase = NEW, peer = None, pidfd = - 1, offer = o', expected = r, actor = (0, 0)\<rparr> = (Inr (), c)"
    by (auto simp: plan_consent_def bindE_eq_Inr split: if_splits prod.splits sum.splits)
  from r obtain w where "wire o' = Inr w" "r = bs ''NIACNS01'' @ sha256 w @ [1] @ replicate 7 0" by (auto simp: response_def bindE_eq_Inr)
  with start_actor [OF st] show ?thesis by (auto simp: fixed_parts_def)
qed

text \<open>C29: On a consent made for an offer, after any sequence of operations, \<open>receive_confirmation\<close> returns true in exactly one
  situation: the presentation the offer names has been sent and nothing else granted since; the actor is
  alive before and after; the one message received is \<open>NIACNS01\<close>, the digest of this very offer's wire form and
  the byte 1 for yes; it carries no descriptor and exactly one credential, equal to the one the connection had at the start; and the connection is silent
  afterwards.\<close>

theorem confirmation_exact:
  assumes "plan_consent a o' = Inr c" "run_of (consent_step control) c is = (h, s)"
  shows "(receive_confirmation b s = (Inr True, t)) =
   (phase s = OFFERED \<and> (\<exists>shown. h = [Offered shown] \<and> int (length shown) = offer_size o' \<and> sha256 shown = presentation o')
     \<and> living (r_first b) s \<and> living (r_check b) s \<and> \<not> r_readable b
     \<and> (\<exists>w m data cred. wire o' = Inr w \<and> r_message b = Inr m \<and> i_cred a = Inr cred
          \<and> plain_message m (bs ''NIACNS01'' @ sha256 w @ [1] @ replicate 7 0) data \<and> sender_of (m_little m) data = sender_of (i_little a) cred)
     \<and> t = s\<lparr>phase := CONFIRMED\<rparr>)"
proof -
  from plan_consent_parts [OF assms(1)] obtain w cred where w: "wire o' = Inr w" and cred: "i_cred a = Inr cred"
    and parts: "fixed_parts c = (o', bs ''NIACNS01'' @ sha256 w @ [1] @ replicate 7 0, sender_of (i_little a) cred)" by blast
  let ?yes = "bs ''NIACNS01'' @ sha256 w @ [1] @ replicate 7 0"
  from fixed_run [OF assms(2)] parts have s: "expected s = ?yes" "actor s = sender_of (i_little a) cred" by (simp_all add: fixed_parts_def)
  have "consent_inv o' [] c" using plan_consent_new [OF assms(1)] by (simp add: consent_inv_def granted_def)
  from consents.agrees_run [OF this assms(2)] have g: "granted o' h (phase s)" by (simp add: consent_inv_def)
  have "length ?yes = REPLY_SIZE" by (simp add: REPLY_SIZE_def)
  then have rec: "receive (r_message b) (r_close b) REPLY_SIZE = Inr (?yes, sender_of (i_little a) cred, [])
      \<longleftrightarrow> (\<exists>m data. r_message b = Inr m \<and> plain_message m ?yes data \<and> sender_of (m_little m) data = sender_of (i_little a) cred)"
    by (subst receive_plain) (simp_all, metis)
  have "receive_confirmation b s = (Inr True, t) \<longleftrightarrow> confirms b s \<and> t = s\<lparr>phase := CONFIRMED\<rparr>"
    using receive_confirmation_eq [of b s] by (auto split: if_splits)
  moreover have "phase s = OFFERED \<longrightarrow> (\<exists>shown. h = [Offered shown] \<and> int (length shown) = offer_size o' \<and> sha256 shown = presentation o')"
    using g by (auto simp: granted_def)
  ultimately show ?thesis unfolding confirms_def s rec by (auto simp: w cred)
qed

text \<open>C109: Over every sequence of operations on a consent, whatever the operating system and the peer answer: first the
  offer with exactly the presentation it names is sent, then it is confirmed, and only then checks
  succeed, and only those for the offer's own plan, generation, request and deadline; after a failure or
  \<open>close\<close> nothing succeeds any more.\<close>

theorem consent_run_granted:
  assumes "plan_consent a o' = Inr c" "run_of (consent_step control) c is = (h, t)"
  shows "(h = [] \<or> (\<exists>raw n. int (length raw) = offer_size o' \<and> sha256 raw = presentation o'
        \<and> (h = [Offered raw] \<or> h = Offered raw # Confirmed # replicate n (Checked (plan o') (generation o') (request o') (deadline o')))))
     \<and> (phase t = FAILED \<or> phase t = CLOSED \<longrightarrow> fst (run_of (consent_step control) t js) = [])"
proof -
  have "consent_inv o' [] c" using plan_consent_new [OF assms(1)] by (simp add: consent_inv_def granted_def)
  from consents.agrees_run [OF this assms(2)] have "granted o' h (phase t)" by (simp add: consent_inv_def)
  then show ?thesis using ended_run by (auto simp: granted_def)
qed

text \<open>A sealed file of at most 64 MiB whose content has the announced size and digest is always read to its end:
  1024 reads of 64 KiB are enough, and what is returned is its text.\<close>

theorem sealed_text_read:
  assumes "0 < int (length content)" "int (length content) \<le> limit" "limit \<le> 64 * 1024 * 1024" "identity_bytes 32 (sha256 content)"
    and "f_regular f" "f_uid f = 0" "f_nlink f = 0" "f_size f = int (length content)" "(f_seals f AND SEALS) = SEALS" "f_pread f = full_pread content"
  shows "read_sealed_text control f (int (length content)) (sha256 content) limit = presentation_text control limit content"
proof -
  have "length content \<le> 0 + 65536 * 1024" using assms(2,3) by simp
  from read_chunks_full [of "[]" 0 content 1024 0, OF _ _ this] assms show ?thesis by (simp add: read_sealed_text_def)
qed

definition example_content :: pybytes where
  "example_content = [97]"

definition example_file :: sealed_file where
  "example_file = \<lparr>f_regular = True, f_uid = 0, f_nlink = 0, f_size = 1, f_seals = 31, f_pread = full_pread example_content\<rparr>"

lemma example_digest: "identity_bytes 32 (sha256 example_content)"
  by (simp add: example_content_def sha256_letter_bytes identity_bytes_def)

lemma example_text: "presentation_text (\<lambda>c. c < 32) MAX_PRESENTATION example_content = Inr [97]"
proof -
  have "utf8_decode [97] = Some [97]" by code_simp
  then show ?thesis by (simp add: presentation_text_def MAX_PRESENTATION_def example_content_def)
qed

theorem sealed_text_read_witness:
  "read_sealed_text (\<lambda>c. c < 32) example_file 1 (sha256 example_content) MAX_PRESENTATION = Inr [97]"
proof -
  have "(31 :: int) AND 15 = 15" by simp
  then have "read_sealed_text (\<lambda>c. c < 32) example_file (int (length example_content)) (sha256 example_content) MAX_PRESENTATION
      = presentation_text (\<lambda>c. c < 32) MAX_PRESENTATION example_content"
    by (intro sealed_text_read) (simp_all add: example_digest, simp_all add: example_file_def example_content_def MAX_PRESENTATION_def SEALS_def)
  then show ?thesis unfolding example_text by (simp add: example_content_def)
qed

definition example_offer :: offer where
  "example_offer = \<lparr>request = replicate 16 1, plan = replicate 32 2, generation = replicate 32 3, presentation = sha256 example_content,
     deadline = 9000, offer_size = 1, boot = replicate 16 4\<rparr>"

definition example_probe :: probe where
  "example_probe = \<lparr>p_now = 1000, p_pid = 100, p_uid = 0, p_euid = 0, p_ended = False\<rparr>"

definition example_launch :: launch where
  "example_launch = \<lparr>i_pid = 100, i_uid = 0, i_euid = 0, i_now = 1000, i_boot = Inr (replicate 16 4), i_peer = Inr 5, i_private = True,
     i_cred = Inr [200, 0, 0, 0, 232, 3, 0, 0, 232, 3, 0, 0], i_little = True, i_pidfd = Inr 6, i_last = example_probe,
     i_close = \<lparr>c_peer = Inr (), c_pidfd = Inr ()\<rparr>\<rparr>"

definition example_wire :: pybytes where
  "example_wire = bs ''NIAPLN01'' @ replicate 16 1 @ replicate 32 2 @ replicate 32 3 @ sha256 example_content @ be64 9000 @ be64 1 @ replicate 16 4 @ replicate 8 0"

definition example_reply :: pybytes where
  "example_reply = bs ''NIACNS01'' @ sha256 example_wire @ [1] @ replicate 7 0"

definition example_consent :: consent where
  "example_consent = \<lparr>owner = 100, phase = NEW, peer = Some 5, pidfd = 6, offer = example_offer, expected = example_reply, actor = (200, 1000)\<rparr>"

lemma example_wire_eq: "wire example_offer = Inr example_wire"
  by (simp add: wire_ok example_offer_def example_wire_def identity_replicate example_digest MAX_PRESENTATION_def)

lemma example_start: "plan_consent example_launch example_offer = Inr example_consent"
proof -
  have cred: "native_int True (slice 0 4 [200, 0, 0, 0, 232, 3, 0, 0, 232, 3, 0, 0]) = 200" "native_int True (slice 4 8 [200, 0, 0, 0, 232, 3, 0, 0, 232, 3, 0, 0]) = 1000"
    by code_simp+
  have "response example_offer True = Inr example_reply" by (simp add: response_def example_wire_eq example_reply_def)
  then show ?thesis
    by (simp add: plan_consent_def example_launch_def start_def consent_except exceptS_def bind_lift then_modify then_reject cred current_def reject_eq)
      (simp add: example_probe_def example_offer_def example_consent_def)
qed

definition example_sending :: sending where
  "example_sending = \<lparr>s_first = example_probe, s_readable = False, s_memfd = Inr 7, s_write = (\<lambda>i. Inr 1), s_seal = Inr (), s_second = example_probe,
     s_sent = Inr 160, s_close_fails = False\<rparr>"

definition example_confirming :: confirming where
  "example_confirming = \<lparr>r_first = example_probe,
     r_message = Inr \<lparr>m_raw = example_reply, m_controls = [(1, 2, [200, 0, 0, 0, 232, 3, 0, 0, 232, 3, 0, 0])], m_flags = 0, m_little = True\<rparr>,
     r_close = (\<lambda>_. False), r_check = example_probe, r_readable = False\<rparr>"

lemma example_living: "living example_probe (example_consent\<lparr>phase := p\<rparr>) \<longleftrightarrow> p \<noteq> FAILED \<and> p \<noteq> CLOSED"
  by (simp add: living_def example_probe_def example_consent_def example_offer_def)

lemma example_offers: "offers (\<lambda>c. c < 32) example_sending example_content example_consent"
proof -
  have "example_consent = example_consent\<lparr>phase := NEW\<rparr>" by (simp add: example_consent_def)
  then have l: "living example_probe example_consent" using example_living [of NEW] by simp
  have w: "length example_wire = 160" using wire_shape [OF example_wire_eq] by (simp add: OFFER_SIZE_def)
  have one: "write_loop (\<lambda>i. Inr 1) ''consent-presentation-write'' 256 0 (length example_content) 0 = Inr (length example_content)"
    by (simp add: example_content_def numeral_eq_Suc)
  show ?thesis
    using l example_living [of OFFERED] w one
    by (simp add: offers_def prepared_def delivered_def example_sending_def example_text)
      (simp add: example_consent_def example_offer_def [symmetric] example_wire_eq, simp add: example_offer_def example_content_def)
qed

lemma example_confirms: "confirms example_confirming (example_consent\<lparr>phase := OFFERED\<rparr>)"
proof -
  have cred: "native_int True (slice 0 4 [200, 0, 0, 0, 232, 3, 0, 0, 232, 3, 0, 0]) = 200" "native_int True (slice 4 8 [200, 0, 0, 0, 232, 3, 0, 0, 232, 3, 0, 0]) = 1000"
    by code_simp+
  have "length example_reply = 48" by (simp add: example_reply_def)
  moreover from this have "example_reply \<noteq> []" by auto
  ultimately have "receive (r_message example_confirming) (r_close example_confirming) REPLY_SIZE = Inr (example_reply, (200, 1000), [])"
    by (simp add: receive_def example_confirming_def REPLY_SIZE_def SOL_SOCKET_def SCM_RIGHTS_def SCM_CREDENTIALS_def cred)
  then show ?thesis using example_living [of OFFERED]
    by (simp add: confirms_def) (simp add: example_confirming_def example_consent_def)
qed

theorem consent_run_granted_witness:
  "\<exists>t. run_of (consent_step (\<lambda>c. c < 32)) example_consent [Send example_sending example_content, Confirm example_confirming] = ([Offered example_content, Confirmed], t)
     \<and> sha256 example_content = presentation example_offer"
proof -
  define t where "t = example_consent\<lparr>phase := CONFIRMED\<rparr>"
  have "run_of (consent_step (\<lambda>c. c < 32)) example_consent [Send example_sending example_content, Confirm example_confirming] = ([Offered example_content, Confirmed], t)"
    using send_offer_eq [of "\<lambda>c. c < 32" example_sending example_content example_consent] example_offers
      receive_confirmation_eq [of example_confirming "example_consent\<lparr>phase := OFFERED\<rparr>"] example_confirms by (simp add: t_def)
  with consent_run_granted [OF example_start this] show ?thesis by auto
qed

theorem confirmation_exact_witness:
  "receive_confirmation example_confirming (example_consent\<lparr>phase := OFFERED\<rparr>) = (Inr True, example_consent\<lparr>phase := CONFIRMED\<rparr>)
     \<and> (\<exists>w m data. wire example_offer = Inr w \<and> r_message example_confirming = Inr m
          \<and> plain_message m (bs ''NIACNS01'' @ sha256 w @ [1] @ replicate 7 0) data)"
proof -
  have run: "run_of (consent_step (\<lambda>c. c < 32)) example_consent [Send example_sending example_content] = ([Offered example_content], example_consent\<lparr>phase := OFFERED\<rparr>)"
    using send_offer_eq [of "\<lambda>c. c < 32" example_sending example_content example_consent] example_offers by simp
  have "receive_confirmation example_confirming (example_consent\<lparr>phase := OFFERED\<rparr>) = (Inr True, example_consent\<lparr>phase := CONFIRMED\<rparr>)"
    using receive_confirmation_eq [of example_confirming "example_consent\<lparr>phase := OFFERED\<rparr>"] example_confirms by simp
  with confirmation_exact [OF example_start run, of example_confirming "example_consent\<lparr>phase := CONFIRMED\<rparr>"] show ?thesis by auto
qed

end
