(* ===== verification/Interim_Package.thy ===== *)
theory Interim_Package
  imports Deb_Inspect Native_State
begin

text \<open>
  \<open>native/interim_package.py\<close>: the codec of interim packages. A package is a magic, the canonical
  manifest and the Debian archives it names, byte for byte, in the order of their digests. The reader of
  archives, \<open>inspect_bytes\<close>, is the model of \<open>tools/deb_archive.py\<close>; its decompressors and \<open>tarfile\<close> stay
  arguments. The files \<open>build_bytes\<close> and \<open>inspect_file\<close> read are arguments, too.
\<close>

definition MAGIC :: pybytes where
  "MAGIC = bs ''NIA-INTERIM'' @ [0, 1]"

definition MAX_MANIFEST :: nat where "MAX_MANIFEST = 256 * 1024"
definition MAX_ARTIFACT :: nat where "MAX_ARTIFACT = 128 * 1024 * 1024"
definition MAX_PAYLOAD :: nat where "MAX_PAYLOAD = 256 * 1024 * 1024"
definition MAX_REPLACEMENTS :: nat where "MAX_REPLACEMENTS = 64"

definition MAX_PACKAGE :: nat where
  "MAX_PACKAGE = length MAGIC + 4 + MAX_MANIFEST + MAX_PAYLOAD + MAX_REPLACEMENTS * 2 * 40"

section \<open>The manifest\<close>

text \<open>\<open>LABEL\<close> and \<open>IDENTIFIERS\<close>.\<close>

definition label_ok :: "pystr \<Rightarrow> bool" where
  "label_ok s \<longleftrightarrow> (case s of [] \<Rightarrow> False
     | c # r \<Rightarrow> ascii_alnum c \<and> length r \<le> 99 \<and> list_all (\<lambda>c. ascii_alnum c \<or> c \<in> set (u ''_.+-'')) r)"

definition some_digits :: "pystr \<Rightarrow> bool" where
  "some_digits s \<longleftrightarrow> s \<noteq> [] \<and> list_all ascii_digit s"

definition identifier_ok :: "pystr \<Rightarrow> bool" where
  "identifier_ok s \<longleftrightarrow>
     (\<exists>y \<in> set (split_on 45 s). \<exists>n \<in> set (split_on 45 s). split_on 45 s = [u ''CVE'', y, n] \<and> some_digits y \<and> length y = 4 \<and> some_digits n \<and> 4 \<le> length n)
     \<or> (\<exists>y \<in> set (split_on 45 s). \<exists>n \<in> set (split_on 45 s). split_on 45 s = [u ''DSA'', y, n] \<and> some_digits y \<and> some_digits n)
     \<or> (startswith s (u ''NIA-'') \<and> 4 < length s \<and> list_all (\<lambda>c. ascii_alnum c \<or> c \<in> set (u ''_.-'')) (drop 4 s))"

definition MANIFEST_FIELDS :: "string list" where
  "MANIFEST_FIELDS = [''schema'', ''label'', ''description'', ''release'', ''architecture'', ''created_at'', ''expires_at'',
     ''security_epoch'', ''advisories'', ''requires'', ''conflicts'', ''supersedes'', ''rollback_contract_sha256'', ''replacements'']"

definition IMAGE_FIELDS :: "string list" where
  "IMAGE_FIELDS = [''package'', ''version'', ''architecture'', ''artifact_sha256'', ''source_manifest_sha256'']"

definition ACTIVATIONS :: "pystr list" where
  "ACTIVATIONS = map u [''new-process'', ''service-restart'', ''relogin'', ''node-reboot'', ''offline-migration'']"

definition check_text :: "pyval \<Rightarrow> nat \<Rightarrow> string \<Rightarrow> unit res" where
  "check_text value limit name = (case value of
       PStr s \<Rightarrow>
         if s = [] \<or> length s > limit then Inl (Invalid (u name @ u '' size/type''))
         else if list_ex (\<lambda>c. c < 32 \<or> c = 127) s then Inl (Invalid (u name @ u '' control character''))
         else if utf8_encode s = None then Inl (Invalid (u name @ u '' invalid Unicode'')) else Inr ()
     | _ \<Rightarrow> Inl (Invalid (u name @ u '' size/type'')))"

text \<open>\<open>_digests\<close>: the digests of a field, sorted and unique.\<close>

definition check_digests :: "pyval \<Rightarrow> string \<Rightarrow> pystr list res" where
  "check_digests items name = (case items of
       PList xs \<Rightarrow>
         if length xs > 64 then Inl (Invalid (u name @ u '' count/type''))
         else bindE (mapE digest xs) (\<lambda>ds.
           if ds \<noteq> sorted_set ds then Inl (Invalid (u name @ u '' must be sorted and unique'')) else Inr ds)
     | _ \<Rightarrow> Inl (Invalid (u name @ u '' count/type'')))"

definition check_advisory :: "pyval \<Rightarrow> pystr res" where
  "check_advisory v = (case v of
       PStr s \<Rightarrow> if length s > 96 \<or> \<not> identifier_ok s then invalid ''invalid advisory identifier'' else Inr s
     | _ \<Rightarrow> invalid ''invalid advisory identifier'')"

definition check_advisories :: "pyval \<Rightarrow> unit res" where
  "check_advisories v = (case v of
       PList xs \<Rightarrow>
         if xs = [] \<or> length xs > 64 then invalid ''advisory count/type''
         else bindE (mapE check_advisory xs) (\<lambda>ids. if ids \<noteq> sorted_set ids then invalid ''advisories must be sorted and unique'' else Inr ())
     | _ \<Rightarrow> invalid ''advisory count/type'')"

text \<open>One side of a replacement: what it says of the archive.\<close>

record deb_image =
  i_package :: pystr
  i_version :: pystr
  i_architecture :: pystr
  i_artifact :: pystr

definition string_of :: "pyval \<Rightarrow> pystr" where
  "string_of v = (case v of PStr s \<Rightarrow> s | _ \<Rightarrow> [])"

definition check_image :: "string \<Rightarrow> pyval \<Rightarrow> deb_image res" where
  "check_image side img =
     bindE (check_fields img IMAGE_FIELDS (''replacement '' @ side)) (\<lambda>_.
       (case field img ''package'' of
          PStr name \<Rightarrow>
            if \<not> name_ok name then invalid ''invalid replacement package name''
            else bindE (split_version_val (field img ''version'')) (\<lambda>_.
              if field img ''architecture'' \<notin> {PStr (u ''amd64''), PStr (u ''all'')} then invalid ''unsupported replacement architecture''
              else bindE (digest (field img ''artifact_sha256'')) (\<lambda>artifact.
                bindE (digest (field img ''source_manifest_sha256'')) (\<lambda>_.
                  Inr \<lparr>i_package = name, i_version = string_of (field img ''version''),
                    i_architecture = string_of (field img ''architecture''), i_artifact = artifact\<rparr>)))
        | _ \<Rightarrow> invalid ''invalid replacement package name''))"

definition check_replacement :: "pyval \<Rightarrow> (deb_image \<times> deb_image) res" where
  "check_replacement replacement =
     bindE (check_fields replacement [''base'', ''target'', ''effect_contract_sha256'', ''activation''] ''replacement'') (\<lambda>_.
     bindE (digest (field replacement ''effect_contract_sha256'')) (\<lambda>_.
       if field replacement ''activation'' \<notin> PStr ` set ACTIVATIONS then invalid ''unqualified activation mode''
       else bindE (check_image ''base'' (field replacement ''base'')) (\<lambda>base.
         bindE (check_image ''target'' (field replacement ''target'')) (\<lambda>target.
           if (i_package base, i_architecture base) \<noteq> (i_package target, i_architecture target)
           then invalid ''replacement changes package identity or architecture''
           else if i_artifact base = i_artifact target then invalid ''replacement has no artifact change''
           else Inr (base, target)))))"

definition artifact_list :: "(deb_image \<times> deb_image) list \<Rightarrow> pystr list" where
  "artifact_list reps = concat (map (\<lambda>(base, target). [i_artifact base, i_artifact target]) reps)"

definition identity_list :: "(deb_image \<times> deb_image) list \<Rightarrow> (pystr \<times> pystr) list" where
  "identity_list reps = map (\<lambda>(base, target). (i_package base, i_architecture base)) reps"

definition check_replacements :: "pyval \<Rightarrow> (deb_image \<times> deb_image) list res" where
  "check_replacements v = (case v of
       PList xs \<Rightarrow>
         if xs = [] \<or> length xs > MAX_REPLACEMENTS then invalid ''replacement count/type''
         else bindE (mapE check_replacement xs) (\<lambda>reps.
           if identity_list reps \<noteq> sorted_set (identity_list reps) then invalid ''replacements must be sorted and unique''
           else if \<not> distinct (artifact_list reps) then invalid ''duplicate or ambiguously reused artifact''
           else Inr reps)
     | _ \<Rightarrow> invalid ''replacement count/type'')"

text \<open>
  \<open>check_manifest\<close>; \<open>check_parts\<close> also returns the replacements it read, which \<open>_check_debs\<close> reads again.
\<close>

definition check_parts :: "pyval \<Rightarrow> (deb_image \<times> deb_image) list res" where
  "check_parts m =
     bindE (check_fields m MANIFEST_FIELDS ''interim manifest'') (\<lambda>_.
     if field m ''schema'' \<noteq> PStr (u ''org.niaos.interim-package/v1'') then invalid ''unsupported interim manifest version''
     else if \<not> (case field m ''label'' of PStr s \<Rightarrow> label_ok s | _ \<Rightarrow> False) then invalid ''invalid interim label''
     else bindE (check_text (field m ''description'') 1024 ''description'') (\<lambda>_.
     if field m ''release'' \<noteq> PStr (u ''trixie'') \<or> field m ''architecture'' \<noteq> PStr (u ''amd64'') then invalid ''unsupported interim platform''
     else bindE (integer (field m ''created_at'') 1 (2 ^ 53 - 2) ''creation time'') (\<lambda>created.
     bindE (integer (field m ''expires_at'') (created + 1) (2 ^ 53 - 1) ''expiry time'') (\<lambda>_.
     bindE (integer (field m ''security_epoch'') 1 (2 ^ 53 - 1) ''security epoch'') (\<lambda>_.
     bindE (digest (field m ''rollback_contract_sha256'')) (\<lambda>_.
     bindE (check_advisories (field m ''advisories'')) (\<lambda>_.
     bindE (check_digests (field m ''requires'') ''requires'') (\<lambda>requires.
     bindE (check_digests (field m ''conflicts'') ''conflicts'') (\<lambda>conflicts.
     bindE (check_digests (field m ''supersedes'') ''supersedes'') (\<lambda>supersedes.
     if set requires \<inter> (set conflicts \<union> set supersedes) \<noteq> {} then invalid ''required fix is also conflicting or superseded''
     else bindE (check_replacements (field m ''replacements'')) (\<lambda>reps.
     if length (canonical m) > MAX_MANIFEST then invalid ''manifest size limit'' else Inr reps)))))))))))"

definition check_manifest :: "pyval \<Rightarrow> pystr list res" where
  "check_manifest m = bindE (check_parts m) (\<lambda>reps. Inr (sort (artifact_list reps)))"

section \<open>The codec\<close>

text \<open>\<open>bytes.fromhex\<close> of text without white space, \<open>struct.pack('>I', n)\<close>, and the Debian archives read again.\<close>

fun fromhex :: "pystr \<Rightarrow> pybytes res" where
  "fromhex [] = Inr []"
| "fromhex [a] = Inl ValueError"
| "fromhex (a # b # s) = (case (hex_value a, hex_value b) of
       (Some x, Some y) \<Rightarrow> bindE (fromhex s) (\<lambda>r. Inr (word_of_nat (16 * x + y) # r))
     | _ \<Rightarrow> Inl ValueError)"

definition check_deb :: "(pybytes \<Rightarrow> pyval res) \<Rightarrow> (pystr \<times> pybytes) list \<Rightarrow> deb_image \<Rightarrow> unit res" where
  "check_deb observe artifacts expected = (case map_of artifacts (i_artifact expected) of
       None \<Rightarrow> Inl KeyError
     | Some data \<Rightarrow>
         if data = [] \<or> length data > MAX_ARTIFACT \<or> sha data \<noteq> i_artifact expected then invalid ''artifact size or digest mismatch''
         else bindE (observe data) (\<lambda>observed.
           if \<not> py_eq (field observed ''identity'') (PDict [(u ''package'', PStr (i_package expected)),
                (u ''version'', PStr (i_version expected)), (u ''architecture'', PStr (i_architecture expected))])
           then invalid ''original DEB identity differs from interim manifest'' else Inr ()))"

definition check_debs :: "(pybytes \<Rightarrow> pyval res) \<Rightarrow> (deb_image \<times> deb_image) list \<Rightarrow> (pystr \<times> pybytes) list \<Rightarrow> unit res" where
  "check_debs observe reps artifacts =
     eachE (check_deb observe artifacts) (concat (map (\<lambda>(base, target). [base, target]) reps))"

definition piece :: "pystr \<times> pybytes \<Rightarrow> pybytes res" where
  "piece = (\<lambda>(key, data). bindE (fromhex key) (\<lambda>k. Inr (k @ be64 (int (length data)) @ data)))"

definition payload :: "(pystr \<times> pybytes) list \<Rightarrow> nat" where
  "payload artifacts = sum_list (map (\<lambda>a. length (snd a)) artifacts)"

definition encode :: "(pybytes \<Rightarrow> pyval res) \<Rightarrow> pyval \<Rightarrow> (pystr \<times> pybytes) list \<Rightarrow> pybytes res" where
  "encode observe manifest artifacts =
     bindE (check_parts manifest) (\<lambda>reps.
     let order' = sort (artifact_list reps) in
     if set (map fst artifacts) \<noteq> set order' then invalid ''artifact set differs from manifest''
     else if payload artifacts > MAX_PAYLOAD then invalid ''aggregate payload limit''
     else bindE (check_debs observe reps artifacts) (\<lambda>_.
       let header = canonical manifest in
       bindE (mapE (\<lambda>k. piece (k, the (map_of artifacts k))) order') (\<lambda>pieces.
         Inr (MAGIC @ to_be 4 (length header) @ header @ concat pieces))))"

text \<open>The loop of \<open>decode\<close> over the expected digests: the rest of the bytes, the sum of the sizes, what was read.\<close>

definition read_artifact :: "pybytes \<times> nat \<times> (pystr \<times> pybytes) list \<Rightarrow> pystr \<Rightarrow> (pybytes \<times> nat \<times> (pystr \<times> pybytes) list) res" where
  "read_artifact = (\<lambda>(rest, n, artifacts) expected.
     if length rest < 40 then invalid ''truncated artifact header''
     else let key = hex_of (take 32 rest); k = from_be (slice 32 40 rest); body = drop 40 rest in
       if key \<noteq> expected \<or> k < 1 \<or> k > MAX_ARTIFACT \<or> n + k > MAX_PAYLOAD then invalid ''artifact order, identity or size''
       else if k > length body then invalid ''truncated artifact''
       else Inr (drop k body, n + k, artifacts @ [(key, take k body)]))"

definition decode :: "nat \<Rightarrow> (pybytes \<Rightarrow> pyval res) \<Rightarrow> pybytes \<Rightarrow> (pyval \<times> (pystr \<times> pybytes) list) res" where
  "decode depth observe raw =
     (if \<not> (length MAGIC + 4 \<le> length raw \<and> length raw \<le> MAX_PACKAGE) then invalid ''interim package size/type''
      else if take (length MAGIC) raw \<noteq> MAGIC then invalid ''interim package magic/version''
      else let n = from_be (slice (length MAGIC) (length MAGIC + 4) raw); rest = drop (length MAGIC + 4) raw in
        if \<not> (1 \<le> n \<and> n \<le> MAX_MANIFEST) \<or> n > length rest then invalid ''interim manifest length''
        else let header = take n rest in
          bindE (parse_json depth header) (\<lambda>manifest.
          bindE (check_parts manifest) (\<lambda>reps.
          if canonical manifest \<noteq> header then invalid ''noncanonical interim manifest''
          else bindE (foldE read_artifact (drop n rest, 0, []) (sort (artifact_list reps))) (\<lambda>(rest', _, artifacts).
            if rest' \<noteq> [] then invalid ''unlisted trailing payload''
            else bindE (check_debs observe reps artifacts) (\<lambda>_. Inr (manifest, artifacts))))))"

section \<open>The commands on files\<close>

text \<open>\<open>read name limit\<close> answers the call \<open>read_file(name, limit)\<close>, and \<open>write\<close> the one of \<open>write_new\<close>.\<close>

definition read_debs :: "(pystr \<Rightarrow> nat \<Rightarrow> pybytes res) \<Rightarrow> pystr list \<Rightarrow> (nat \<times> (pystr \<times> pybytes) list) res" where
  "read_debs read = foldE (\<lambda>(n, artifacts) key. bindE (read (key @ u ''.deb'') (min MAX_ARTIFACT (MAX_PAYLOAD - n)))
     (\<lambda>data. Inr (n + length data, artifacts @ [(key, data)]))) (0, [])"

definition build_bytes :: "nat \<Rightarrow> (pybytes \<Rightarrow> pyval res) \<Rightarrow> pybytes res \<Rightarrow> (pystr \<Rightarrow> nat \<Rightarrow> pybytes res) \<Rightarrow> pystr option \<Rightarrow> pybytes res" where
  "build_bytes depth observe control read label =
     bindE control (\<lambda>raw. bindE (parse_json depth raw) (\<lambda>manifest. bindE (check_manifest manifest) (\<lambda>order'.
       if label \<noteq> None \<and> field manifest ''label'' \<noteq> PStr (the label) then invalid ''command label differs from interim control''
       else bindE (read_debs read order') (\<lambda>(_, artifacts). encode observe manifest artifacts))))"

definition build_file :: "nat \<Rightarrow> (pybytes \<Rightarrow> pyval res) \<Rightarrow> pybytes res \<Rightarrow> (pystr \<Rightarrow> nat \<Rightarrow> pybytes res) \<Rightarrow> (pybytes \<Rightarrow> unit res) \<Rightarrow> pystr res" where
  "build_file depth observe control read write =
     bindE (build_bytes depth observe control read None) (\<lambda>raw. bindE (write raw) (\<lambda>_. Inr (sha raw)))"

definition inspect_file :: "nat \<Rightarrow> (pybytes \<Rightarrow> pyval res) \<Rightarrow> pybytes res \<Rightarrow> pyval res" where
  "inspect_file depth observe package =
     bindE package (\<lambda>raw. bindE (decode depth observe raw) (\<lambda>(manifest, artifacts).
       Inr (PDict [(u ''schema'', PStr (u ''org.niaos.interim-observation/v1'')), (u ''artifact_sha256'', PStr (sha raw)),
         (u ''manifest'', manifest), (u ''contained_debs'', PInt (int (length artifacts))),
         (u ''publisher_authenticated'', PBool False), (u ''contracts_authenticated'', PBool False),
         (u ''current_base_checked'', PBool False), (u ''execution_permit'', PBool False)])))"

section \<open>One artifact\<close>

lemma fromhex_lower: "list_all hex_lower s \<Longrightarrow> even (length s) \<Longrightarrow> \<exists>b. fromhex s = Inr b \<and> hex_of b = s"
proof (induction s rule: fromhex.induct)
  case (3 a b s)
  have dig: "\<exists>x < 16. hex_value c = Some x \<and> hex_digit x = c" if "hex_lower c" for c
    using that by (intro exI [of _ "if ascii_digit c then c - 48 else c - 87"])
      (auto simp: hex_lower_def ascii_digit_def hex_value_def hex_digit_def)
  from 3(2) have low: "hex_lower a" "hex_lower b" by simp_all
  from dig [OF low(1)] obtain x where x: "x < 16" "hex_value a = Some x" "hex_digit x = a" by blast
  from dig [OF low(2)] obtain y where y: "y < 16" "hex_value b = Some y" "hex_digit y = b" by blast
  from 3(2,3) have s: "list_all hex_lower s" "even (length s)" by simp_all
  from 3(1) [OF refl x(2) y(2) s] obtain r where r: "fromhex s = Inr r" "hex_of r = s" by (auto simp: x y)
  have "unat (word_of_nat (16 * x + y) :: byte) = 16 * x + y"
    using x(1) y(1) by (simp del: of_nat_add of_nat_mult add: unsigned_of_nat take_bit_nat_eq_self_iff)
  then show ?case using x y r by (auto simp: hex_of_def)
qed (simp_all add: hex_of_def)

lemma fromhex_digest:
  assumes "digest_ok k"
  obtains b where "fromhex k = Inr b" "length b = 32" "hex_of b = k"
proof -
  from assms have "list_all hex_lower k" "length k = 64" by (auto simp: digest_ok_def)
  with fromhex_lower [of k] obtain b where "fromhex k = Inr b" "hex_of b = k" by auto
  moreover from this have "length b = 32" using \<open>length k = 64\<close> length_hex_of [of b] by simp
  ultimately show ?thesis by (intro that)
qed

definition sized :: "nat \<Rightarrow> pybytes \<Rightarrow> bool" where
  "sized n d \<longleftrightarrow> 1 \<le> length d \<and> length d \<le> MAX_ARTIFACT \<and> n + length d \<le> MAX_PAYLOAD"

lemma piece_digest:
  assumes "digest_ok k"
  shows "\<exists>b. piece (k, d) = Inr (b @ be64 (int (length d)) @ d) \<and> length b = 32 \<and> hex_of b = k"
proof -
  from fromhex_digest [OF assms] obtain b where "fromhex k = Inr b" "length b = 32" "hex_of b = k" .
  then show ?thesis by (auto simp: piece_def)
qed

lemma be64_length: "length d \<le> MAX_ARTIFACT \<Longrightarrow> from_be (be64 (int (length d))) = length d"
  unfolding be64_def by (simp add: from_to_be MAX_ARTIFACT_def)

lemma read_artifact_iff:
  assumes "digest_ok k"
  shows "read_artifact (r, n, acc) k = Inr (r', n', acc') \<longleftrightarrow>
    (\<exists>d p. piece (k, d) = Inr p \<and> r = p @ r' \<and> acc' = acc @ [(k, d)] \<and> n' = n + length d \<and> sized n d)"
proof
  assume a: "read_artifact (r, n, acc) k = Inr (r', n', acc')"
  define m where "m = from_be (slice 32 40 r)"
  from a have c: "40 \<le> length r" "hex_of (take 32 r) = k" "1 \<le> m" "m \<le> MAX_ARTIFACT" "n + m \<le> MAX_PAYLOAD" "m \<le> length (drop 40 r)"
     "r' = drop m (drop 40 r)" "n' = n + m" "acc' = acc @ [(k, take m (drop 40 r))]"
    unfolding read_artifact_def case_prod_conv Let_def m_def [symmetric] by (auto split: if_splits)
  define d where "d = take m (drop 40 r)"
  have d: "length d = m" using c(6) by (simp add: d_def)
  from piece_digest [OF assms] obtain b where b: "piece (k, d) = Inr (b @ be64 (int (length d)) @ d)" "hex_of b = k" by blast
  have "b = take 32 r" using b(2) c(2) hex_of_inj by simp
  moreover have "be64 (int (length d)) = slice 32 40 r"
    using c(1) unfolding be64_def d m_def by (simp add: to_from_be)
  ultimately have "b @ be64 (int (length d)) @ d @ r' = take 32 r @ slice 32 40 r @ drop 40 r"
    using append_take_drop_id [of m "drop 40 r"] by (simp add: d_def c(7))
  also have "slice 32 40 r @ drop 40 r = drop 32 r"
    using append_take_drop_id [of 8 "drop 32 r"] by (simp add: slice_def drop_take)
  finally have "r = (b @ be64 (int (length d)) @ d) @ r'" by simp
  then show "\<exists>d p. piece (k, d) = Inr p \<and> r = p @ r' \<and> acc' = acc @ [(k, d)] \<and> n' = n + length d \<and> sized n d"
    using b(1) c d by (intro exI [of _ d] exI [of _ "b @ be64 (int (length d)) @ d"]) (simp add: sized_def d_def)
next
  assume "\<exists>d p. piece (k, d) = Inr p \<and> r = p @ r' \<and> acc' = acc @ [(k, d)] \<and> n' = n + length d \<and> sized n d"
  then obtain d p where d: "piece (k, d) = Inr p" "r = p @ r'" "acc' = acc @ [(k, d)]" "n' = n + length d" "sized n d" by blast
  from piece_digest [OF assms, of d] d(1) obtain b where b: "p = b @ be64 (int (length d)) @ d" "length b = 32" "hex_of b = k" by auto
  have "from_be (be64 (int (length d))) = length d" using d(5) by (intro be64_length) (simp add: sized_def)
  then show "read_artifact (r, n, acc) k = Inr (r', n', acc')"
    using b d by (auto simp: read_artifact_def slice_def sized_def Let_def)
qed

lemma read_artifacts_iff:
  assumes "list_all digest_ok ks"
  shows "foldE read_artifact (r, n, acc) ks = Inr (r', n', acc') \<longleftrightarrow>
    (\<exists>ds ps. length ds = length ks \<and> mapE piece (zip ks ds) = Inr ps \<and> r = concat ps @ r' \<and> acc' = acc @ zip ks ds
       \<and> n' = n + sum_list (map length ds) \<and> (\<forall>d \<in> set ds. 1 \<le> length d \<and> length d \<le> MAX_ARTIFACT) \<and> (ks = [] \<or> n' \<le> MAX_PAYLOAD))"
  using assms
proof (induction ks arbitrary: r n acc)
  case Nil
  then show ?case by auto
next
  case (Cons k ks)
  have k: "digest_ok k" and ks: "list_all digest_ok ks" using Cons.prems by simp_all
  show ?case (is "?l = ?r")
  proof
    assume ?l
    then obtain d p r1 where p: "piece (k, d) = Inr p" "r = p @ r1" "sized n d"
      and f: "foldE read_artifact (r1, n + length d, acc @ [(k, d)]) ks = Inr (r', n', acc')"
      by (auto simp: bindE_eq_Inr read_artifact_iff [OF k])
    from f Cons.IH [OF ks] obtain ds ps where ds: "length ds = length ks" "mapE piece (zip ks ds) = Inr ps" "r1 = concat ps @ r'"
      "acc' = (acc @ [(k, d)]) @ zip ks ds" "n' = (n + length d) + sum_list (map length ds)"
      "\<forall>d \<in> set ds. 1 \<le> length d \<and> length d \<le> MAX_ARTIFACT" "ks = [] \<or> n' \<le> MAX_PAYLOAD" by blast
    have "n' \<le> MAX_PAYLOAD" using ds p(3) by (cases ks) (auto simp: sized_def)
    then show ?r using ds p by (intro exI [of _ "d # ds"] exI [of _ "p # ps"]) (auto simp: sized_def)
  next
    assume ?r
    then obtain ds ps where a: "length ds = length (k # ks)" "mapE piece (zip (k # ks) ds) = Inr ps" "r = concat ps @ r'"
      "acc' = acc @ zip (k # ks) ds" "n' = n + sum_list (map length ds)" "\<forall>d \<in> set ds. 1 \<le> length d \<and> length d \<le> MAX_ARTIFACT" "n' \<le> MAX_PAYLOAD"
      by auto
    from a(1) obtain d ds' where ds: "ds = d # ds'" "length ds' = length ks" by (cases ds) auto
    from a(2) obtain p ps' where ps: "ps = p # ps'" "piece (k, d) = Inr p" "mapE piece (zip ks ds') = Inr ps'"
      by (auto simp: ds(1) bindE_eq_Inr)
    have "sized n d" using a(5,6,7) by (auto simp: ds(1) sized_def)
    then have "read_artifact (r, n, acc) k = Inr (concat ps' @ r', n + length d, acc @ [(k, d)])"
      using a(3) ps by (auto simp: read_artifact_iff [OF k])
    moreover have "foldE read_artifact (concat ps' @ r', n + length d, acc @ [(k, d)]) ks = Inr (r', n', acc')"
      unfolding Cons.IH [OF ks] using a ds ps by (intro exI [of _ ds'] exI [of _ ps']) auto
    ultimately show ?l by simp
  qed
qed

section \<open>The manifest\<close>

definition replacement_ok :: "deb_image \<times> deb_image \<Rightarrow> bool" where
  "replacement_ok = (\<lambda>(base, target). digest_ok (i_artifact base) \<and> digest_ok (i_artifact target)
     \<and> name_ok (i_package base) \<and> valid_version (i_version base) \<and> valid_version (i_version target)
     \<and> i_architecture base \<in> {u ''amd64'', u ''all''}
     \<and> i_package target = i_package base \<and> i_architecture target = i_architecture base)"

lemma check_image_ok:
  "check_image side v = Inr i \<Longrightarrow> digest_ok (i_artifact i) \<and> name_ok (i_package i) \<and> valid_version (i_version i) \<and> i_architecture i \<in> {u ''amd64'', u ''all''}"
  by (auto simp: check_image_def bindE_eq_Inr digest_ok_iff string_of_def valid_version_def split_version_val_def is_ok_def
      split: pyval.splits if_splits)

lemma check_replacement_ok: "check_replacement v = Inr p \<Longrightarrow> replacement_ok p"
  by (auto simp: check_replacement_def bindE_eq_Inr replacement_ok_def split: if_splits dest: check_image_ok)

definition replacements_ok :: "(deb_image \<times> deb_image) list \<Rightarrow> bool" where
  "replacements_ok reps \<longleftrightarrow> reps \<noteq> [] \<and> length reps \<le> MAX_REPLACEMENTS \<and> list_all replacement_ok reps
     \<and> sorted (identity_list reps) \<and> distinct (identity_list reps) \<and> distinct (artifact_list reps)"

lemma check_replacements_ok:
  assumes "check_replacements v = Inr reps"
  shows "replacements_ok reps"
proof -
  from assms obtain xs where xs: "v = PList xs" "xs \<noteq> []" "length xs \<le> MAX_REPLACEMENTS" "mapE check_replacement xs = Inr reps"
    "identity_list reps = sorted_set (identity_list reps)" "distinct (artifact_list reps)"
    by (auto simp: check_replacements_def bindE_eq_Inr split: pyval.splits if_splits)
  have "\<forall>p \<in> set reps. replacement_ok p" using mapE_in [OF xs(4)] check_replacement_ok by blast
  moreover have "sorted (identity_list reps) \<and> distinct (identity_list reps)" using xs(5) sorted_set_eq_iff by metis
  ultimately show ?thesis using xs mapE_length [OF xs(4)] by (auto simp: replacements_ok_def list_all_iff)
qed

lemma check_parts_ok:
  assumes "check_parts m = Inr reps"
  shows "replacements_ok reps \<and> length (canonical m) \<le> MAX_MANIFEST"
proof -
  from assms have "check_replacements (field m ''replacements'') = Inr reps \<and> length (canonical m) \<le> MAX_MANIFEST"
    by (auto simp: check_parts_def bindE_eq_Inr split: if_splits)
  then show ?thesis using check_replacements_ok by blast
qed

lemma artifact_list_digests: "replacements_ok reps \<Longrightarrow> list_all digest_ok (sort (artifact_list reps))"
  by (auto simp: replacements_ok_def list_all_iff artifact_list_def replacement_ok_def)

lemma length_artifact_list: "length (artifact_list reps) = 2 * length reps"
  by (induction reps) (auto simp: artifact_list_def)

lemma artifact_order:
  assumes "replacements_ok reps"
  shows "distinct (sort (artifact_list reps))" "sort (artifact_list reps) \<noteq> []"
proof -
  show "distinct (sort (artifact_list reps))" using assms by (simp add: replacements_ok_def)
  have "length (sort (artifact_list reps)) > 0" using assms by (simp add: replacements_ok_def length_artifact_list)
  then show "sort (artifact_list reps) \<noteq> []" by (rule length_greater_0_conv [THEN iffD1])
qed

section \<open>The round trip\<close>

lemma mapE_cong_list: "(\<And>x. x \<in> set xs \<Longrightarrow> f x = g (h x)) \<Longrightarrow> mapE f xs = mapE g (map h xs)"
  by (induction xs) auto

lemma mapE_ok: "\<forall>x \<in> set xs. \<exists>y. f x = Inr y \<Longrightarrow> \<exists>ys. mapE f xs = Inr ys"
  by (induction xs) auto

lemma zip_lookup: "distinct ks \<Longrightarrow> length ds = length ks \<Longrightarrow> mapE (\<lambda>k. piece (k, the (map_of (zip ks ds) k))) ks = mapE piece (zip ks ds)"
proof -
  assume a: "distinct ks" "length ds = length ks"
  have "map (\<lambda>k. (k, the (map_of (zip ks ds) k))) ks = zip ks ds"
    using a by (intro nth_equalityI) (auto simp: map_of_zip_nth)
  then show ?thesis using mapE_cong_list [of ks "\<lambda>k. piece (k, the (map_of (zip ks ds) k))" piece "\<lambda>k. (k, the (map_of (zip ks ds) k))"] by simp
qed

lemma check_debs_sizes:
  assumes "check_debs observe reps a = Inr ()" "k \<in> set (artifact_list reps)"
  shows "\<exists>d. map_of a k = Some d \<and> 1 \<le> length d \<and> length d \<le> MAX_ARTIFACT \<and> sha d = k"
proof -
  from assms(2) obtain i where i: "i \<in> set (concat (map (\<lambda>(base, target). [base, target]) reps))" "i_artifact i = k"
    by (auto simp: artifact_list_def)
  then have "check_deb observe a i = Inr ()" using assms(1) by (auto simp: check_debs_def eachE_eq_Inr)
  then show ?thesis using i(2) by (cases "map_of a k") (auto simp: check_deb_def Suc_le_eq split: if_splits)
qed

lemma pieces_length:
  assumes "mapE piece (zip ks ds) = Inr ps" "list_all digest_ok ks" "length ds = length ks"
  shows "length (concat ps) = 40 * length ks + sum_list (map length ds)"
  using assms
proof (induction ks arbitrary: ds ps)
  case (Cons k ks)
  from Cons.prems(3) obtain d ds' where ds: "ds = d # ds'" "length ds' = length ks" by (cases ds) auto
  from Cons.prems(1) obtain p ps' where ps: "ps = p # ps'" "piece (k, d) = Inr p" "mapE piece (zip ks ds') = Inr ps'"
    by (auto simp: ds(1) bindE_eq_Inr)
  have "length p = 40 + length d" using piece_digest [of k d] Cons.prems(2) ps(2) by auto
  with Cons.IH [OF ps(3) _ ds(2)] Cons.prems(2) show ?case by (simp add: ps(1) ds(1))
qed simp

lemma encode_ok:
  "encode observe m a = Inr raw \<longleftrightarrow> (\<exists>reps ps. check_parts m = Inr reps \<and> set (map fst a) = set (artifact_list reps) \<and> payload a \<le> MAX_PAYLOAD
     \<and> check_debs observe reps a = Inr () \<and> mapE (\<lambda>k. piece (k, the (map_of a k))) (sort (artifact_list reps)) = Inr ps
     \<and> raw = MAGIC @ to_be 4 (length (canonical m)) @ canonical m @ concat ps)"
  by (auto simp: encode_def bindE_eq_Inr Let_def split: if_splits)

lemma decode_ok:
  "decode depth observe raw = Inr (m, a) \<longleftrightarrow> (\<exists>reps n rest k. raw = MAGIC @ to_be 4 n @ canonical m @ rest \<and> length raw \<le> MAX_PACKAGE
     \<and> n = length (canonical m) \<and> 1 \<le> n \<and> n \<le> MAX_MANIFEST \<and> parse_json depth (canonical m) = Inr m \<and> check_parts m = Inr reps
     \<and> foldE read_artifact (rest, 0, []) (sort (artifact_list reps)) = Inr ([], k, a) \<and> check_debs observe reps a = Inr ())"
  (is "?l \<longleftrightarrow> ?r")
proof
  assume ?l
  define n where "n = from_be (slice (length MAGIC) (length MAGIC + 4) raw)"
  define rest where "rest = drop (length MAGIC + 4) raw"
  from \<open>?l\<close> have c: "length MAGIC + 4 \<le> length raw" "length raw \<le> MAX_PACKAGE" "take (length MAGIC) raw = MAGIC" "1 \<le> n" "n \<le> MAX_MANIFEST" "n \<le> length rest"
    and b: "bindE (parse_json depth (take n rest)) (\<lambda>manifest. bindE (check_parts manifest) (\<lambda>reps.
          if canonical manifest \<noteq> take n rest then invalid ''noncanonical interim manifest''
          else bindE (foldE read_artifact (drop n rest, 0, []) (sort (artifact_list reps))) (\<lambda>(rest', _, artifacts).
            if rest' \<noteq> [] then invalid ''unlisted trailing payload''
            else bindE (check_debs observe reps artifacts) (\<lambda>_. Inr (manifest, artifacts))))) = Inr (m, a)"
    unfolding decode_def Let_def n_def [symmetric] rest_def [symmetric] by (auto split: if_splits)
  from b obtain reps k where d: "parse_json depth (take n rest) = Inr m" "check_parts m = Inr reps" "canonical m = take n rest"
     "foldE read_artifact (drop n rest, 0, []) (sort (artifact_list reps)) = Inr ([], k, a)" "check_debs observe reps a = Inr ()"
    by (auto simp: bindE_eq_Inr split: if_splits)
  have "raw = MAGIC @ slice (length MAGIC) (length MAGIC + 4) raw @ rest"
  proof -
    have "take (length MAGIC + 4) raw = MAGIC @ slice (length MAGIC) (length MAGIC + 4) raw"
      using c(3) by (metis append_take_drop_id le_add1 min.absorb1 slice_def take_take)
    then show ?thesis using append_take_drop_id [of "length MAGIC + 4" raw] by (metis append.assoc rest_def)
  qed
  also have "slice (length MAGIC) (length MAGIC + 4) raw = to_be 4 n"
    using c(1) unfolding n_def by (simp add: to_from_be)
  also have "rest = canonical m @ drop n rest" using d(3) by simp
  finally have "raw = MAGIC @ to_be 4 n @ canonical m @ drop n rest" .
  moreover have "n = length (canonical m)" using d(3) c(6) by (simp del: length_canonical)
  moreover have "parse_json depth (canonical m) = Inr m" using d(1,3) by simp
  ultimately show ?r using c(2,4,5) d(2,4,5)
    by (intro exI [of _ reps] exI [of _ n] exI [of _ "drop n rest"] exI [of _ k] conjI)
next
  assume ?r
  then obtain reps n rest k where r: "raw = MAGIC @ to_be 4 n @ canonical m @ rest" "length raw \<le> MAX_PACKAGE" "n = length (canonical m)" "1 \<le> n" "n \<le> MAX_MANIFEST"
    "parse_json depth (canonical m) = Inr m" "check_parts m = Inr reps" "foldE read_artifact (rest, 0, []) (sort (artifact_list reps)) = Inr ([], k, a)"
    "check_debs observe reps a = Inr ()" by blast
  have n: "from_be (to_be 4 n) = n" using r(5) by (intro from_to_be) (simp add: MAX_MANIFEST_def)
  have "slice (length MAGIC) (length MAGIC + 4) raw = to_be 4 n" "drop (length MAGIC + 4) raw = canonical m @ rest" "take (length MAGIC) raw = MAGIC"
    by (simp_all add: r(1) slice_def)
  then show ?l using r n by (simp add: decode_def Let_def del: length_canonical)
qed

lemma encode_size:
  assumes "replacements_ok reps" "length (canonical m) \<le> MAX_MANIFEST" "mapE piece (zip (sort (artifact_list reps)) ds) = Inr ps"
    "length ds = length (artifact_list reps)" "sum_list (map length ds) \<le> MAX_PAYLOAD"
  shows "length (MAGIC @ to_be 4 (length (canonical m)) @ canonical m @ concat ps) \<le> MAX_PACKAGE"
proof -
  have "length (concat ps) = 40 * length (artifact_list reps) + sum_list (map length ds)"
    using pieces_length [OF assms(3) artifact_list_digests [OF assms(1)]] assms(4) by simp
  moreover have "length (artifact_list reps) \<le> MAX_REPLACEMENTS * 2" using assms(1) by (simp add: length_artifact_list replacements_ok_def)
  ultimately show ?thesis using assms(2,5) by (simp add: MAX_PACKAGE_def del: length_canonical)
qed

lemma interim_codec:
  assumes "canon_val m" "nesting m \<le> depth"
  shows "(decode depth observe raw = Inr (m, a)) = (encode observe m a = Inr raw \<and> check_manifest m = Inr (map fst a))"
proof
  assume "decode depth observe raw = Inr (m, a)"
  then obtain reps n rest k where r: "raw = MAGIC @ to_be 4 n @ canonical m @ rest" "n = length (canonical m)" "check_parts m = Inr reps"
      "foldE read_artifact (rest, 0, []) (sort (artifact_list reps)) = Inr ([], k, a)" "check_debs observe reps a = Inr ()"
    unfolding decode_ok by blast
  define ks where "ks = sort (artifact_list reps)"
  have ok: "replacements_ok reps" using check_parts_ok [OF r(3)] by simp
  then have dist: "distinct ks" "ks \<noteq> []" using artifact_order by (auto simp: ks_def)
  have dig: "list_all digest_ok ks" unfolding ks_def by (rule artifact_list_digests [OF ok])
  from r(4) read_artifacts_iff [OF dig, of rest 0 "[]" "[]" k a] obtain ds ps
    where d: "length ds = length ks" "mapE piece (zip ks ds) = Inr ps" "rest = concat ps" "a = zip ks ds"
      "k = sum_list (map length ds)" "k \<le> MAX_PAYLOAD"
    using dist(2) by (auto simp: ks_def [symmetric])
  have "payload a = sum_list (map length (map snd a))" by (simp add: payload_def comp_def)
  then have "payload a = k" using d by simp
  moreover have "map fst a = ks" using d by simp
  moreover have "mapE (\<lambda>k. piece (k, the (map_of a k))) ks = Inr ps" using zip_lookup [OF dist(1) d(1)] d by simp
  moreover have "set (artifact_list reps) = set ks" by (simp add: ks_def)
  ultimately have "encode observe m a = Inr raw"
    unfolding encode_ok using r d(3,6) by (intro exI [of _ reps] exI [of _ ps]) (simp add: ks_def [symmetric] del: length_canonical)
  then show "encode observe m a = Inr raw \<and> check_manifest m = Inr (map fst a)"
    using r(3) \<open>map fst a = ks\<close> by (simp add: check_manifest_def ks_def)
next
  assume a: "encode observe m a = Inr raw \<and> check_manifest m = Inr (map fst a)"
  then obtain reps ps where e: "check_parts m = Inr reps" "payload a \<le> MAX_PAYLOAD" "check_debs observe reps a = Inr ()"
     "mapE (\<lambda>k. piece (k, the (map_of a k))) (sort (artifact_list reps)) = Inr ps" "raw = MAGIC @ to_be 4 (length (canonical m)) @ canonical m @ concat ps"
    unfolding encode_ok by blast
  define ks where "ks = sort (artifact_list reps)"
  define ds where "ds = map snd a"
  have ok: "replacements_ok reps" "length (canonical m) \<le> MAX_MANIFEST" using check_parts_ok [OF e(1)] by auto
  then have dist: "distinct ks" "ks \<noteq> []" using artifact_order by (auto simp: ks_def)
  have dig: "list_all digest_ok ks" unfolding ks_def by (rule artifact_list_digests [OF ok(1)])
  have fst_a: "map fst a = ks" using a e(1) by (simp add: check_manifest_def ks_def)
  then have z: "a = zip ks ds" "length ds = length ks" by (auto simp: ds_def zip_map_fst_snd)
  have ps: "mapE piece (zip ks ds) = Inr ps" using e(4) zip_lookup [OF dist(1) z(2)] by (simp add: ks_def [symmetric] z(1))
  have sizes: "\<forall>d \<in> set ds. 1 \<le> length d \<and> length d \<le> MAX_ARTIFACT"
  proof
    fix d assume "d \<in> set ds"
    then obtain k where "(k, d) \<in> set a" by (auto simp: ds_def)
    then have "k \<in> set (map fst a)" "map_of a k = Some d" using dist(1) fst_a by (force, simp)
    then have "map_of a k = Some d" "k \<in> set (artifact_list reps)" by (simp_all add: fst_a ks_def del: set_map)
    then show "1 \<le> length d \<and> length d \<le> MAX_ARTIFACT" using check_debs_sizes [OF e(3), of k] by auto
  qed
  have "payload a = sum_list (map length ds)" by (simp add: payload_def ds_def comp_def)
  then have sum: "sum_list (map length ds) \<le> MAX_PAYLOAD" using e(2) by simp
  have "foldE read_artifact (concat ps, 0, []) ks = Inr ([], sum_list (map length ds), a)"
    unfolding read_artifacts_iff [OF dig] using ps z sizes sum by (intro exI [of _ ds] exI [of _ ps]) simp
  moreover have "length raw \<le> MAX_PACKAGE"
    unfolding e(5) using encode_size [OF ok] ps sum z(2) by (simp add: ks_def del: length_canonical)
  moreover have "parse_json depth (canonical m) = Inr m"
    unfolding parse_json_def using assms ok(2) by (intro parse_canonical) (simp_all add: MAX_JSON_def MAX_MANIFEST_def del: length_canonical)
  ultimately show "decode depth observe raw = Inr (m, a)"
    unfolding decode_ok using e ok(2) by (intro exI [of _ reps] exI [of _ "length (canonical m)"] exI [of _ "concat ps"] exI [of _ "sum_list (map length ds)"]) (auto simp: ks_def [symmetric] Suc_le_eq)
qed

text \<open>C111: Interim packages have one encoding. For a manifest in canonical key order, bytes decode to the manifest and its
  archives exactly when they are what \<open>encode\<close> makes of them, the archives being in the order of their digests.\<close>

theorem interim_roundtrip:
  assumes "canon_val m" "nesting m \<le> depth"
  shows "(decode depth observe raw = Inr (m, a)) = (encode observe m a = Inr raw \<and> check_manifest m = Inr (map fst a))"
  by (rule interim_codec [OF assms])

text \<open>C112: What \<open>decode\<close> returns is safe to plan with: the replacements are sorted and unique, each keeps the package and
  the architecture and changes the archive, no archive serves twice, and every archive is within the size
  limit, has the digest the manifest names and is itself the package, version and architecture the manifest
  says.\<close>

theorem decoded_package_sound:
  assumes "decode depth observe raw = Inr (m, a)"
  shows "\<exists>reps. check_parts m = Inr reps \<and> replacements_ok reps \<and> map fst a = sort (artifact_list reps) \<and> payload a \<le> MAX_PAYLOAD
    \<and> (\<forall>(base, target) \<in> set reps. \<forall>i \<in> {base, target}. \<exists>d v. map_of a (i_artifact i) = Some d \<and> d \<noteq> [] \<and> length d \<le> MAX_ARTIFACT
         \<and> sha d = i_artifact i \<and> observe d = Inr v
         \<and> py_eq (field v ''identity'') (PDict [(u ''package'', PStr (i_package i)), (u ''version'', PStr (i_version i)), (u ''architecture'', PStr (i_architecture i))]))"
proof -
  from assms obtain reps rest k where r: "check_parts m = Inr reps"
      "foldE read_artifact (rest, 0, []) (sort (artifact_list reps)) = Inr ([], k, a)" "check_debs observe reps a = Inr ()"
    unfolding decode_ok by blast
  have ok: "replacements_ok reps" using check_parts_ok [OF r(1)] by simp
  from r(2) read_artifacts_iff [OF artifact_list_digests [OF ok], of rest 0 "[]" "[]" k a] artifact_order(2) [OF ok] obtain ds
    where d: "length ds = length (sort (artifact_list reps))" "a = zip (sort (artifact_list reps)) ds" "k = sum_list (map length ds)" "k \<le> MAX_PAYLOAD"
    by (auto simp del: length_sort)
  have "payload a = sum_list (map length (map snd a))" by (simp add: payload_def comp_def)
  then have "payload a \<le> MAX_PAYLOAD" "map fst a = sort (artifact_list reps)" using d by simp_all
  moreover have "\<exists>d v. map_of a (i_artifact i) = Some d \<and> d \<noteq> [] \<and> length d \<le> MAX_ARTIFACT \<and> sha d = i_artifact i \<and> observe d = Inr v
         \<and> py_eq (field v ''identity'') (PDict [(u ''package'', PStr (i_package i)), (u ''version'', PStr (i_version i)), (u ''architecture'', PStr (i_architecture i))])"
    if "(base, target) \<in> set reps" "i \<in> {base, target}" for base target i
  proof -
    have "i \<in> set (concat (map (\<lambda>(base, target). [base, target]) reps))" using that by force
    then have "check_deb observe a i = Inr ()" using r(3) by (auto simp: check_debs_def eachE_eq_Inr)
    then show ?thesis by (auto simp: check_deb_def bindE_eq_Inr split: option.splits if_splits)
  qed
  ultimately show ?thesis using r(1) ok by blast
qed

section \<open>An example\<close>

text \<open>One replacement; the archives are one byte each, and the reader of archives answers accordingly.\<close>

definition example_image :: "string \<Rightarrow> string \<Rightarrow> pyval" where
  "example_image v d = PDict [(u ''architecture'', PStr (u ''amd64'')), (u ''artifact_sha256'', PStr (u d)), (u ''package'', PStr (u ''bash'')),
     (u ''source_manifest_sha256'', PStr (replicate 64 49)), (u ''version'', PStr (u v))]"

definition example_manifest :: pyval where
  "example_manifest = PDict [(u ''advisories'', PList [PStr (u ''CVE-2026-1234'')]), (u ''architecture'', PStr (u ''amd64'')), (u ''conflicts'', PList []),
     (u ''created_at'', PInt 1), (u ''description'', PStr (u ''fix'')), (u ''expires_at'', PInt 2), (u ''label'', PStr (u ''fix1'')),
     (u ''release'', PStr (u ''trixie'')),
     (u ''replacements'', PList [PDict [(u ''activation'', PStr (u ''relogin'')),
        (u ''base'', example_image ''1'' ''ca978112ca1bbdcafac231b39a23dc4da786eff8147c4e72b9807785afee48bb''), (u ''effect_contract_sha256'', PStr (replicate 64 50)),
        (u ''target'', example_image ''2'' ''3e23e8160039594a33894f6564e1b1348bbd7a0088d42c4acb73eeaed59c009d'')]]),
     (u ''requires'', PList []), (u ''rollback_contract_sha256'', PStr (replicate 64 51)), (u ''schema'', PStr (u ''org.niaos.interim-package/v1'')),
     (u ''security_epoch'', PInt 1), (u ''supersedes'', PList [])]"

definition example_observe :: "pybytes \<Rightarrow> pyval res" where
  "example_observe d = Inr (PDict [(u ''identity'', PDict [(u ''package'', PStr (u ''bash'')), (u ''version'', PStr (u (if d = [97] then ''1'' else ''2''))),
     (u ''architecture'', PStr (u ''amd64''))])])"

definition example_artifacts :: "(pystr \<times> pybytes) list" where
  "example_artifacts = [(u ''3e23e8160039594a33894f6564e1b1348bbd7a0088d42c4acb73eeaed59c009d'', [98]), (u ''ca978112ca1bbdcafac231b39a23dc4da786eff8147c4e72b9807785afee48bb'', [97])]"

definition example_reps :: "(deb_image \<times> deb_image) list" where
  "example_reps = [(\<lparr>i_package = u ''bash'', i_version = u ''1'', i_architecture = u ''amd64'', i_artifact = u ''ca978112ca1bbdcafac231b39a23dc4da786eff8147c4e72b9807785afee48bb''\<rparr>,
     \<lparr>i_package = u ''bash'', i_version = u ''2'', i_architecture = u ''amd64'', i_artifact = u ''3e23e8160039594a33894f6564e1b1348bbd7a0088d42c4acb73eeaed59c009d''\<rparr>)]"

lemma example_parts: "check_parts example_manifest = Inr example_reps"
  by code_simp

lemma example_canon: "canon_val example_manifest" "nesting example_manifest \<le> 10"
  by code_simp+

lemma example_sorted: "sort (artifact_list example_reps) = map fst example_artifacts"
  by code_simp

lemma example_encode: "\<exists>raw. encode example_observe example_manifest example_artifacts = Inr raw"
proof -
  have deb: "check_debs example_observe example_reps example_artifacts = Inr ()"
  proof -
    have "map_of example_artifacts (u ''ca978112ca1bbdcafac231b39a23dc4da786eff8147c4e72b9807785afee48bb'') = Some [97]"
      "map_of example_artifacts (u ''3e23e8160039594a33894f6564e1b1348bbd7a0088d42c4acb73eeaed59c009d'') = Some [98]" by code_simp+
    then show ?thesis
      by (simp add: check_debs_def example_reps_def check_deb_def sha_letter sha_next example_observe_def MAX_ARTIFACT_def field_def)
  qed
  have "list_all digest_ok (map fst example_artifacts)" by code_simp
  then have "\<forall>k \<in> set (map fst example_artifacts). \<exists>p. piece (k, the (map_of example_artifacts k)) = Inr p"
    using piece_digest unfolding list_all_iff by blast
  from mapE_ok [OF this] obtain ps where ps: "mapE (\<lambda>k. piece (k, the (map_of example_artifacts k))) (sort (artifact_list example_reps)) = Inr ps"
    by (auto simp only: example_sorted)
  have pay: "payload example_artifacts \<le> MAX_PAYLOAD" by (simp add: payload_def example_artifacts_def MAX_PAYLOAD_def)
  have keys: "set (map fst example_artifacts) = set (artifact_list example_reps)"
    using arg_cong [OF example_sorted, of set] by (simp only: set_sort)
  from example_parts keys pay deb ps show ?thesis unfolding encode_ok by blast
qed

theorem interim_roundtrip_witness:
  "\<exists>raw. encode example_observe example_manifest example_artifacts = Inr raw \<and> decode 10 example_observe raw = Inr (example_manifest, example_artifacts)"
proof -
  obtain raw where raw: "encode example_observe example_manifest example_artifacts = Inr raw" using example_encode by blast
  have "check_manifest example_manifest = Inr (map fst example_artifacts)" by (simp add: check_manifest_def example_parts example_sorted)
  with raw interim_roundtrip [OF example_canon, of example_observe raw example_artifacts] show ?thesis by blast
qed

lemma example_decode: "\<exists>raw. decode 10 example_observe raw = Inr (example_manifest, example_artifacts)"
proof -
  obtain raw where raw: "encode example_observe example_manifest example_artifacts = Inr raw" using example_encode by blast
  have "check_manifest example_manifest = Inr (map fst example_artifacts)" by (simp add: check_manifest_def example_parts example_sorted)
  with raw interim_codec [OF example_canon, of example_observe raw example_artifacts] show ?thesis by blast
qed

theorem decoded_package_sound_witness:
  "\<exists>raw. decode 10 example_observe raw = Inr (example_manifest, example_artifacts) \<and> payload example_artifacts \<le> MAX_PAYLOAD"
  using example_decode decoded_package_sound by blast

end
