(* ===== verification/Py_Os.thy ===== *)
theory Py_Os
  imports Py_Str
begin

text \<open>
  What the code takes from \<open>os\<close>, \<open>stat\<close> and \<open>pathlib\<close>: the fields of a \<open>stat_result\<close>, the test for a regular
  file and for a directory, and the parts of a path.
\<close>

unbundle bit_operations_syntax

text \<open>The fields of \<open>os.stat_result\<close> the code looks at.\<close>

record stat_info =
  st_dev :: int
  st_ino :: int
  st_mode :: int
  st_nlink :: int
  st_uid :: int
  st_gid :: int
  st_size :: int
  st_mtime :: int
  st_ctime :: int

definition S_ISREG :: "int \<Rightarrow> bool" where
  "S_ISREG mode \<longleftrightarrow> mode AND 61440 = 32768"

text \<open>\<open>Path(path).parts[1:]\<close>, \<open>str(Path(path).parent)\<close> and \<open>Path(path).name\<close> of an absolute path.\<close>

definition path_parts :: "pystr \<Rightarrow> pystr list" where
  "path_parts path = filter (\<lambda>p. p \<noteq> [] \<and> p \<noteq> u ''.'') (split_on 47 path)"

definition path_parent :: "pystr \<Rightarrow> pystr" where
  "path_parent path = (if startswith path (u ''//'') \<and> \<not> startswith path (u ''///'') then u ''//'' else u ''/'') @ join_on (u ''/'') (butlast (path_parts path))"

definition path_name :: "pystr \<Rightarrow> pystr" where
  "path_name path = (if path_parts path = [] then [] else List.last (path_parts path))"

definition S_ISDIR :: "int \<Rightarrow> bool" where
  "S_ISDIR mode \<longleftrightarrow> mode AND 61440 = 16384"

text \<open>
  The components of \<open>os.path.abspath(path)\<close> below the root: relative paths start at the working directory, and
  \<open>..\<close> goes up textually.
\<close>

definition abs_step :: "pystr list \<Rightarrow> pystr \<Rightarrow> pystr list" where
  "abs_step parts p = (if p = [] \<or> p = u ''.'' then parts else if p = u ''..'' then butlast parts else parts @ [p])"

definition abs_parts :: "pystr \<Rightarrow> pystr \<Rightarrow> pystr list" where
  "abs_parts cwd path = foldl abs_step [] (split_on 47 (if startswith path [47] then path else cwd @ 47 # path))"

definition plain_parts :: "pystr list \<Rightarrow> bool" where
  "plain_parts ps \<longleftrightarrow> (\<forall>p \<in> set ps. p \<noteq> [] \<and> p \<noteq> u ''.'' \<and> p \<noteq> u ''..'')"

lemma plain_parts_append [simp]: "plain_parts (ps @ qs) \<longleftrightarrow> plain_parts ps \<and> plain_parts qs"
  by (auto simp: plain_parts_def)

lemma abs_step_plain: "plain_parts ps \<Longrightarrow> plain_parts (abs_step ps p)"
  unfolding abs_step_def plain_parts_def by (simp, blast dest: in_set_butlastD)

lemma abs_parts_plain: "plain_parts (abs_parts cwd path)"
proof -
  have "plain_parts (foldl abs_step acc ws)" if "plain_parts acc" for acc ws
    using that
  proof (induction ws arbitrary: acc)
    case (Cons w ws)
    from Cons.IH [OF abs_step_plain [OF Cons.prems]] show ?case by simp
  qed simp
  from this [of "[]"] show ?thesis by (simp add: abs_parts_def plain_parts_def)
qed

end
