(* ===== verification/Supply_Initialize.thy ===== *)
theory Supply_Initialize
  imports Native_State Py_Os
begin

text \<open>
  \<open>native/supply_initialize.py\<close>: the first provisioning of the public supply inputs. Directories and files
  are pinned and read like any other protected input; then a fixed sequence of effects on the file
  system stages the two files, has them verified, publishes them and records the completion.
  Every effect may fail: what the operating system answers to the \<open>n\<close>-th effect is an argument, and the
  state records the effects in their order, each with whether it returned. An effect that raised may
  or may not have taken place. A descriptor of a directory is the list of names that leads to it.
\<close>

unbundle bit_operations_syntax

section \<open>The phases\<close>

datatype phase = NEW | RECORDED | STAGED | VERIFIED | POLICY | FLOOR | COMPLETE | FAILED

definition phase_order :: "phase list" where
  "phase_order = [NEW, RECORDED, STAGED, VERIFIED, POLICY, FLOOR, COMPLETE]"

definition advance :: "phase \<Rightarrow> phase \<Rightarrow> phase res" where
  "advance before after =
     (if after = FAILED \<and> before \<notin> {COMPLETE, FAILED} then Inr after
      else if (before, after) \<notin> set (zip phase_order (tl phase_order)) then rejected ''supply-initialization-order''
      else Inr after)"

section \<open>Protected inputs\<close>

text \<open>An open file: \<open>fstat\<close> before and after, and what reading it returns.\<close>

record input_file =
  before :: stat_info
  content :: pybytes
  after :: stat_info

record machine =
  look :: "pystr list \<Rightarrow> stat_info res"
  open_file :: "pystr list \<Rightarrow> pystr \<Rightarrow> input_file res"

definition check_directory :: "machine \<Rightarrow> pystr list \<Rightarrow> unit res" where
  "check_directory m d = bindE (look m d) (\<lambda>info.
     if st_uid info \<noteq> 0 \<or> st_mode info AND 18 \<noteq> 0 then rejected ''unprotected-directory'' else Inr ())"

definition directory :: "machine \<Rightarrow> pystr \<Rightarrow> pystr list res" where
  "directory m path =
     (if \<not> startswith path [47] \<or> length path > 4096 \<or> length (filter (\<lambda>c. c = 47) path) > 128
         \<or> list_ex (\<lambda>p. p = u ''.'' \<or> p = u ''..'') (split_on 47 path)
      then rejected ''absolute-protected-path-required''
      else bindE (check_directory m []) (\<lambda>_.
        foldE (\<lambda>d part. bindE (check_directory m (d @ [part])) (\<lambda>_. Inr (d @ [part]))) [] (path_parts path)))"

definition open_input :: "machine \<Rightarrow> pystr \<Rightarrow> input_file res" where
  "open_input m path =
     (if \<not> startswith path [47] \<or> length path > 4096 then rejected ''bounded-absolute-input-path-required''
      else bindE (directory m (path_parent path)) (\<lambda>d. open_file m d (path_name path)))"

definition protected_bytes :: "machine \<Rightarrow> pystr \<Rightarrow> int \<Rightarrow> pybytes res" where
  "protected_bytes m path limit =
     bindE (open_input m path) (\<lambda>f. let info = before f in
       if \<not> S_ISREG (st_mode info) \<or> st_uid info \<noteq> 0 \<or> st_nlink info \<noteq> 1 \<or> st_mode info AND 18 \<noteq> 0 \<or> \<not> (0 < st_size info \<and> st_size info \<le> limit)
       then rejected ''unprotected-or-oversize-input''
       else let raw = take (nat (limit + 1)) (content f) in
         if int (length raw) \<noteq> st_size info \<or> after f \<noteq> info then rejected ''input-changed'' else Inr raw)"

section \<open>Effects\<close>

datatype effect =
    NewFile "pystr list" pystr
  | WriteFile "pystr list" pystr pybytes
  | ChmodFile "pystr list" pystr int
  | SyncFile "pystr list" pystr
  | MakeDir "pystr list" pystr
  | OpenDir "pystr list"
  | ChmodDir "pystr list" int
  | SyncDir "pystr list"
  | Link "pystr list" "pystr list" pystr
  | Unlink "pystr list" pystr
  | Verify pystr pystr

record progress =
  phase :: phase
  owned :: "pystr list list"
  trail :: "(effect \<times> bool) list"

definition perform :: "unit res \<Rightarrow> effect \<Rightarrow> (unit, progress) proc" where
  "perform r e s = (r, s\<lparr>trail := trail s @ [(e, is_ok r)]\<rparr>)"

text \<open>\<open>answer n\<close> answers the \<open>n\<close>-th effect; \<open>closing n\<close> the closing of a file after \<open>n\<close> effects.\<close>

definition act :: "(nat \<Rightarrow> unit res) \<Rightarrow> effect \<Rightarrow> (unit, progress) proc" where
  "act answer e = bindS (getS (\<lambda>s. answer (length (trail s)))) (\<lambda>r. perform r e)"

definition create :: "(nat \<Rightarrow> unit res) \<Rightarrow> (nat \<Rightarrow> unit res) \<Rightarrow> pystr list \<Rightarrow> pystr \<Rightarrow> pybytes \<Rightarrow> int \<Rightarrow> (unit, progress) proc" where
  "create answer closing parent name raw mode =
     thenS (act answer (NewFile parent name))
     (thenS (finallyS
        (thenS (act answer (WriteFile parent name raw)) (thenS (act answer (ChmodFile parent name mode)) (act answer (SyncFile parent name))))
        (bindS (getS (\<lambda>s. closing (length (trail s)))) liftS))
     (act answer (SyncDir parent)))"

definition publish :: "(nat \<Rightarrow> unit res) \<Rightarrow> pystr list \<Rightarrow> pystr list \<Rightarrow> pystr \<Rightarrow> (unit, progress) proc" where
  "publish answer source destination name =
     thenS (act answer (Link source destination name))
     (thenS (act answer (SyncDir destination))
     (thenS (act answer (Unlink source name))
     (thenS (act answer (SyncDir source))
     (act answer (SyncDir destination)))))"

text \<open>
  \<open>verify\<close>: the account, the executable, the run of the native observer under \<open>prlimit\<close> and what it wrote.
\<close>

record verification =
  v_account :: "(int \<times> int) res"
  v_machine :: machine
  v_files :: "unit res"
  v_run :: "int res"
  v_output :: pybytes
  v_error :: pybytes

definition OBSERVER :: pystr where
  "OBSERVER = u ''/usr/libexec/nia/pkg_supply_observe''"

definition expected_head :: pybytes where
  "expected_head = bs ''format=nia-site-supply-1'' @ [10] @ bs ''status=OK'' @ [10] @ bs ''planning=true'' @ [10] @ bs ''map='' @ replicate 64 48 @ [10]"

definition expected_tail :: pybytes where
  "expected_tail = bs ''execution_permit=false'' @ [10]"

definition verify :: "verification \<Rightarrow> unit res" where
  "verify v = bindE (v_account v) (\<lambda>(uid, gid).
     if uid \<le> 0 \<or> gid \<le> 0 then rejected ''nonroot-provider-account-required''
     else bindE (open_input (v_machine v) OBSERVER) (\<lambda>f. let info = before f in
       if \<not> S_ISREG (st_mode info) \<or> st_uid info \<noteq> 0 \<or> st_nlink info \<noteq> 1 \<or> st_mode info AND 3090 \<noteq> 0 \<or> st_mode info AND 73 = 0
           \<or> take 4 (content f) \<noteq> [127, 69, 76, 70]
       then rejected ''protected-native-observer-required''
       else bindE (v_files v) (\<lambda>_. bindE (v_run v) (\<lambda>code. let raw = take 65537 (v_output v) in
         if code \<noteq> 0 \<or> take 1 (v_error v) \<noteq> [] \<or> length raw > 65536 \<or> \<not> startswith raw expected_head \<or> \<not> endswith raw expected_tail
         then rejected ''native-supply-observation-refused'' else Inr ()))))"

section \<open>The initialization\<close>

record inputs =
  a_uid :: int
  a_euid :: int
  a_machine :: machine
  a_stat :: "pystr list \<Rightarrow> pystr \<Rightarrow> unit res"
  a_answer :: "nat \<Rightarrow> unit res"
  a_closing :: "nat \<Rightarrow> unit res"
  a_verify :: "pystr \<Rightarrow> pystr \<Rightarrow> verification"
  a_close_fails :: "pystr list \<Rightarrow> bool"

definition BASE :: pystr where "BASE = u ''/var/lib/niaos''"
definition CONFIG :: pystr where "CONFIG = u ''/etc/niaos''"
definition ATTEMPT :: pystr where "ATTEMPT = u ''supply-initialization.json''"
definition COMPLETED :: pystr where "COMPLETED = u ''supply-initialization-complete.json''"

definition POLICY_LIMIT :: int where
  "POLICY_LIMIT = 56 + 80 * 256"

definition identity_text :: "pystr \<Rightarrow> bool" where
  "identity_text s \<longleftrightarrow> length s = 32 \<and> list_all hex_lower s \<and> s \<noteq> replicate 32 48"

definition step_to :: "phase \<Rightarrow> (unit, progress) proc" where
  "step_to after' = bindS (getS phase) (\<lambda>p. bindS (liftS (advance p after')) (\<lambda>q. modifyS (\<lambda>s. s\<lparr>phase := q\<rparr>)))"

definition own :: "pystr list \<Rightarrow> (unit, progress) proc" where
  "own d = modifyS (\<lambda>s. s\<lparr>owned := owned s @ [d]\<rparr>)"

text \<open>The loop over the four names none of which may exist.\<close>

definition absent :: "inputs \<Rightarrow> pystr list \<times> pystr \<Rightarrow> unit res" where
  "absent a = (\<lambda>(parent, name). case a_stat a parent name of
       Inl e \<Rightarrow> if e = FileNotFoundError then Inr () else Inl e
     | Inr _ \<Rightarrow> rejected ''existing-supply-state-requires-recovery-or-managed-update'')"

text \<open>Making and keeping a directory; the staging directories are not synced themselves.\<close>

definition make_dir :: "inputs \<Rightarrow> bool \<Rightarrow> pystr list \<Rightarrow> pystr \<Rightarrow> (unit, progress) proc" where
  "make_dir a sync parent name =
     thenS (act (a_answer a) (MakeDir parent name))
     (thenS (act (a_answer a) (OpenDir (parent @ [name])))
     (thenS (own (parent @ [name]))
     (thenS (act (a_answer a) (ChmodDir (parent @ [name]) 493))
     (thenS (if sync then act (a_answer a) (SyncDir (parent @ [name])) else ret ())
     (act (a_answer a) (SyncDir parent))))))"

definition run_verify :: "inputs \<Rightarrow> pystr \<Rightarrow> pystr \<Rightarrow> (unit, progress) proc" where
  "run_verify a policy floor = perform (verify (a_verify a policy floor)) (Verify policy floor)"

definition record_of :: "pybytes \<Rightarrow> pybytes \<Rightarrow> pystr \<Rightarrow> pystr \<Rightarrow> pybytes" where
  "record_of policy floor root request = canonical (PDict [(u ''version'', PInt 1), (u ''root_id'', PStr root), (u ''request_id'', PStr request),
     (u ''policy_sha256'', PStr (sha256_hex policy)), (u ''floor_sha256'', PStr (sha256_hex floor)), (u ''execution_permit'', PBool False)]) @ [10]"

text \<open>The body after the two directories are open.\<close>

definition provision :: "inputs \<Rightarrow> pybytes \<Rightarrow> pybytes \<Rightarrow> pybytes \<Rightarrow> pystr list \<Rightarrow> pystr list \<Rightarrow> (unit, progress) proc" where
  "provision a policy floor raw base config =
     thenS (liftS (eachE (absent a) [(base, ATTEMPT), (base, COMPLETED), (base, u ''trust''), (config, u ''supply'')]))
     (thenS (create (a_answer a) (a_closing a) base ATTEMPT raw 384)
     (thenS (step_to RECORDED)
     (thenS (make_dir a True config (u ''supply''))
     (thenS (make_dir a True base (u ''trust''))
     (let policy_dir = config @ [u ''supply'']; floor_dir = base @ [u ''trust''] in
      thenS (make_dir a False policy_dir (u ''pending''))
     (thenS (make_dir a False floor_dir (u ''pending''))
     (let staged_policy = policy_dir @ [u ''pending'']; staged_floor = floor_dir @ [u ''pending''] in
      thenS (create (a_answer a) (a_closing a) staged_policy (u ''supply.bin'') policy 292)
     (thenS (create (a_answer a) (a_closing a) staged_floor (u ''supply.floor'') floor 292)
     (thenS (step_to STAGED)
     (thenS (run_verify a (CONFIG @ u ''/supply/pending'') (BASE @ u ''/trust/pending''))
     (thenS (step_to VERIFIED)
     (thenS (publish (a_answer a) staged_policy policy_dir (u ''supply.bin''))
     (thenS (step_to POLICY)
     (thenS (publish (a_answer a) staged_floor floor_dir (u ''supply.floor''))
     (thenS (step_to FLOOR)
     (thenS (run_verify a (CONFIG @ u ''/supply'') (BASE @ u ''/trust''))
     (thenS (create (a_answer a) (a_closing a) base COMPLETED raw 384)
     (step_to COMPLETE))))))))))))))))))"

definition attempt :: "inputs \<Rightarrow> pybytes \<Rightarrow> pybytes \<Rightarrow> pybytes \<Rightarrow> (unit, progress) proc" where
  "attempt a policy floor raw =
     bindS (liftS (directory (a_machine a) BASE)) (\<lambda>base. thenS (own base)
     (bindS (liftS (directory (a_machine a) CONFIG)) (\<lambda>config. thenS (own config)
     (provision a policy floor raw base config))))"

definition close_all :: "inputs \<Rightarrow> (unit, progress) proc" where
  "close_all a = rejectS (\<lambda>s. filter (a_close_fails a) (rev (owned s)) \<noteq> []) ''supply-initialization-close-indeterminate''"

definition initialize :: "inputs \<Rightarrow> pystr \<Rightarrow> pystr \<Rightarrow> pystr \<Rightarrow> pystr \<Rightarrow> unit res \<times> progress" where
  "initialize a policy_input floor_input root request =
     thenS (rejectS (\<lambda>_. a_uid a \<noteq> 0 \<or> a_euid a \<noteq> 0) ''installer-root-required'')
     (thenS (rejectS (\<lambda>_. \<not> identity_text root \<or> \<not> identity_text request) ''independent-root-and-request-required'')
     (bindS (liftS (protected_bytes (a_machine a) policy_input POLICY_LIMIT)) (\<lambda>policy.
     bindS (liftS (protected_bytes (a_machine a) floor_input 72)) (\<lambda>floor.
     finallyS (exceptS (attempt a policy floor (record_of policy floor root request)) (step_to FAILED)) (close_all a)))))
     \<lparr>phase = NEW, owned = [], trail = []\<rparr>"

section \<open>Traces\<close>

text \<open>
  \<open>ran es b ts\<close>: of the effects \<open>es\<close>, an operation that returned (\<open>b\<close>) did all; one that raised did the
  first few, and of those only the last can have failed.
\<close>

definition ran :: "effect list \<Rightarrow> bool \<Rightarrow> (effect \<times> bool) list \<Rightarrow> bool" where
  "ran es b ts \<longleftrightarrow> (b \<longrightarrow> ts = map (\<lambda>e. (e, True)) es) \<and> (\<exists>n \<le> length es. map fst ts = take n es) \<and> (\<forall>x \<in> set (butlast ts). snd x)"

definition traced :: "('a, progress) proc \<Rightarrow> effect list \<Rightarrow> bool" where
  "traced m es \<longleftrightarrow> (\<forall>s. \<exists>ts. trail (snd (m s)) = trail s @ ts \<and> ran es (is_ok (fst (m s))) ts)"

lemma tracedE:
  assumes "traced m es" "m s = (r, t)"
  obtains ts where "trail t = trail s @ ts" "ran es (is_ok r) ts"
  using assms unfolding traced_def by (metis fst_conv snd_conv)

lemma ran_all: "ran es True (map (\<lambda>e. (e, True)) es)"
  by (auto simp: ran_def comp_def dest: in_set_butlastD intro: exI [of _ "length es"])

lemma ran_prefix: "ran es b ts \<Longrightarrow> ran (es @ fs) False ts"
proof -
  assume a: "ran es b ts"
  then obtain n where "n \<le> length es" "map fst ts = take n es" by (auto simp: ran_def)
  then have "n \<le> length (es @ fs)" "map fst ts = take n (es @ fs)" by simp_all
  then show ?thesis using a unfolding ran_def by blast
qed

lemma ran_append:
  assumes "ran fs b ts"
  shows "ran (es @ fs) b (map (\<lambda>e. (e, True)) es @ ts)"
proof -
  from assms obtain n where n: "n \<le> length fs" "map fst ts = take n fs" by (auto simp: ran_def)
  have "map fst (map (\<lambda>e. (e, True)) es @ ts) = take (length es + n) (es @ fs)" using n by (simp add: comp_def)
  moreover have "length es + n \<le> length (es @ fs)" using n by simp
  moreover have "\<forall>x \<in> set (butlast (map (\<lambda>e. (e, True)) es @ ts)). snd x"
    using assms by (auto simp: ran_def butlast_append dest: in_set_butlastD)
  moreover have "b \<longrightarrow> map (\<lambda>e. (e, True)) es @ ts = map (\<lambda>e. (e, True)) (es @ fs)" using assms by (simp add: ran_def)
  ultimately show ?thesis unfolding ran_def by blast
qed

lemma traced_bind:
  assumes "traced m es" "\<And>x. traced (f x) fs"
  shows "traced (bindS m f) (es @ fs)"
  unfolding traced_def
proof
  fix s
  obtain r t where m: "m s = (r, t)" by fastforce
  from tracedE [OF assms(1) m] obtain ts where ts: "trail t = trail s @ ts" "ran es (is_ok r) ts" by blast
  show "\<exists>us. trail (snd (bindS m f s)) = trail s @ us \<and> ran (es @ fs) (is_ok (fst (bindS m f s))) us"
  proof (cases r)
    case (Inl e)
    then show ?thesis using ts ran_prefix by (auto simp: bindS_def m)
  next
    case (Inr x)
    obtain r' t' where f: "f x t = (r', t')" by fastforce
    from tracedE [OF assms(2) f] obtain us where us: "trail t' = trail t @ us" "ran fs (is_ok r') us" by blast
    have "ts = map (\<lambda>e. (e, True)) es" using ts(2) Inr by (simp add: ran_def)
    then show ?thesis using ts us ran_append [OF us(2), of es] by (auto simp: bindS_def m Inr f)
  qed
qed

lemma traced_then: "traced m es \<Longrightarrow> traced f fs \<Longrightarrow> traced (thenS m f) (es @ fs)"
  unfolding thenS_def by (rule traced_bind)

lemma traced_quiet: "(\<And>s. trail (snd (m s)) = trail s) \<Longrightarrow> traced m []"
  unfolding traced_def by (auto simp: ran_def)

lemma traced_perform: "traced (perform r e) [e]"
  by (cases r) (auto simp: traced_def perform_def ran_def)

lemma traced_act: "traced (act answer e) [e]"
  unfolding traced_def act_def bind_get using traced_perform [of _ e] by (simp add: traced_def)

lemma traced_finally:
  assumes "traced m es" "\<And>s. trail (snd (f s)) = trail s"
  shows "traced (finallyS m f) es"
  unfolding traced_def
proof
  fix s
  obtain r t where m: "m s = (r, t)" by fastforce
  obtain r' t' where f: "f t = (r', t')" by fastforce
  from tracedE [OF assms(1) m] obtain ts where ts: "trail t = trail s @ ts" "ran es (is_ok r) ts" by blast
  have "trail t' = trail t" using assms(2) [of t] f by simp
  moreover have "ran es False ts" using ts(2) by (simp add: ran_def)
  ultimately show "\<exists>us. trail (snd (finallyS m f s)) = trail s @ us \<and> ran es (is_ok (fst (finallyS m f s))) us"
    using ts by (cases r') (auto simp: finallyS_def m f)
qed

lemma traced_except:
  assumes "traced m es" "\<And>s. trail (snd (h s)) = trail s"
  shows "traced (exceptS m h) es"
  unfolding traced_def
proof
  fix s
  obtain r t where m: "m s = (r, t)" by fastforce
  obtain r' t' where h: "h t = (r', t')" by fastforce
  from tracedE [OF assms(1) m] obtain ts where ts: "trail t = trail s @ ts" "ran es (is_ok r) ts" by blast
  have "trail t' = trail t" using assms(2) [of t] h by simp
  then show "\<exists>us. trail (snd (exceptS m h s)) = trail s @ us \<and> ran es (is_ok (fst (exceptS m h s))) us"
    using ts by (cases r; cases r') (auto simp: exceptS_def m h)
qed

text \<open>The effects of each block.\<close>

definition create_script :: "pystr list \<Rightarrow> pystr \<Rightarrow> pybytes \<Rightarrow> int \<Rightarrow> effect list" where
  "create_script parent name raw mode = [NewFile parent name, WriteFile parent name raw, ChmodFile parent name mode, SyncFile parent name, SyncDir parent]"

definition publish_script :: "pystr list \<Rightarrow> pystr list \<Rightarrow> pystr \<Rightarrow> effect list" where
  "publish_script source destination name = [Link source destination name, SyncDir destination, Unlink source name, SyncDir source, SyncDir destination]"

definition make_script :: "bool \<Rightarrow> pystr list \<Rightarrow> pystr \<Rightarrow> effect list" where
  "make_script sync parent name = [MakeDir parent name, OpenDir (parent @ [name]), ChmodDir (parent @ [name]) 493]
     @ (if sync then [SyncDir (parent @ [name])] else []) @ [SyncDir parent]"

lemma traced_lift: "traced (liftS r) []"
  and traced_own: "traced (own d) []"
  and traced_step_to: "traced (step_to p) []"
  and traced_ret: "traced (ret x) []"
  by (rule traced_quiet; simp add: liftS_def own_def modify_eq step_to_def bind_get bind_lift ret_eq split: sum.split)+

lemma trail_step_to [simp]: "trail (snd (step_to p s)) = trail s"
  by (simp add: step_to_def bind_get bind_lift modify_eq split: sum.split)

lemma traced_create: "traced (create answer closing parent name raw mode) (create_script parent name raw mode)"
proof -
  have "traced (create answer closing parent name raw mode)
    ([NewFile parent name] @ ([WriteFile parent name raw] @ ([ChmodFile parent name mode] @ [SyncFile parent name])) @ [SyncDir parent])"
    unfolding create_def by (intro traced_then traced_finally traced_act) (simp add: bind_get lift_eq)
  then show ?thesis by (simp add: create_script_def)
qed

lemma traced_publish: "traced (publish answer source destination name) (publish_script source destination name)"
proof -
  have "traced (publish answer source destination name) ([Link source destination name] @ [SyncDir destination] @ [Unlink source name] @ [SyncDir source] @ [SyncDir destination])"
    unfolding publish_def by (intro traced_then traced_act)
  then show ?thesis by (simp add: publish_script_def)
qed

lemma traced_make: "traced (make_dir a sync parent name) (make_script sync parent name)"
proof -
  have "traced (if sync then act (a_answer a) (SyncDir (parent @ [name])) else ret ()) (if sync then [SyncDir (parent @ [name])] else [])"
    by (simp add: traced_act traced_ret)
  then have "traced (make_dir a sync parent name) ([MakeDir parent name] @ [OpenDir (parent @ [name])] @ [] @ [ChmodDir (parent @ [name]) 493]
      @ (if sync then [SyncDir (parent @ [name])] else []) @ [SyncDir parent])"
    unfolding make_dir_def by (intro traced_then traced_act traced_own)
  then show ?thesis by (simp add: make_script_def)
qed

definition base_dir :: "pystr list" where "base_dir = path_parts BASE"
definition config_dir :: "pystr list" where "config_dir = path_parts CONFIG"
definition policy_dir :: "pystr list" where "policy_dir = config_dir @ [u ''supply'']"
definition floor_dir :: "pystr list" where "floor_dir = base_dir @ [u ''trust'']"

text \<open>The effects up to the first publication, the publications, and the record of the completion.\<close>

definition staging_script :: "pybytes \<Rightarrow> pybytes \<Rightarrow> pybytes \<Rightarrow> effect list" where
  "staging_script policy floor raw = create_script base_dir ATTEMPT raw 384 @ make_script True config_dir (u ''supply'') @ make_script True base_dir (u ''trust'')
     @ make_script False policy_dir (u ''pending'') @ make_script False floor_dir (u ''pending'')
     @ create_script (policy_dir @ [u ''pending'']) (u ''supply.bin'') policy 292 @ create_script (floor_dir @ [u ''pending'']) (u ''supply.floor'') floor 292"

definition script :: "pybytes \<Rightarrow> pybytes \<Rightarrow> pybytes \<Rightarrow> effect list" where
  "script policy floor raw = staging_script policy floor raw
     @ [Verify (CONFIG @ u ''/supply/pending'') (BASE @ u ''/trust/pending'')]
     @ publish_script (policy_dir @ [u ''pending'']) policy_dir (u ''supply.bin'')
     @ publish_script (floor_dir @ [u ''pending'']) floor_dir (u ''supply.floor'')
     @ [Verify (CONFIG @ u ''/supply'') (BASE @ u ''/trust'')] @ create_script base_dir COMPLETED raw 384"

lemma traced_provision: "traced (provision a policy floor raw base_dir config_dir) (script policy floor raw)"
proof -
  have v: "traced (run_verify a p f) [Verify p f]" for p f unfolding run_verify_def by (rule traced_perform)
  have "traced (provision a policy floor raw base_dir config_dir) ([] @ create_script base_dir ATTEMPT raw 384 @ [] @ make_script True config_dir (u ''supply'') @ make_script True base_dir (u ''trust'')
     @ make_script False policy_dir (u ''pending'') @ make_script False floor_dir (u ''pending'')
     @ create_script (policy_dir @ [u ''pending'']) (u ''supply.bin'') policy 292 @ create_script (floor_dir @ [u ''pending'']) (u ''supply.floor'') floor 292 @ []
     @ [Verify (CONFIG @ u ''/supply/pending'') (BASE @ u ''/trust/pending'')] @ []
     @ publish_script (policy_dir @ [u ''pending'']) policy_dir (u ''supply.bin'') @ []
     @ publish_script (floor_dir @ [u ''pending'']) floor_dir (u ''supply.floor'') @ []
     @ [Verify (CONFIG @ u ''/supply'') (BASE @ u ''/trust'')] @ create_script base_dir COMPLETED raw 384 @ [])"
    unfolding provision_def Let_def policy_dir_def [symmetric] floor_dir_def [symmetric]
    by (intro traced_then traced_lift traced_create traced_make traced_publish traced_step_to v)
  then show ?thesis by (simp add: script_def staging_script_def)
qed

section \<open>The initialization\<close>

lemma directory_walk:
  "foldE (\<lambda>d part. bindE (check_directory m (d @ [part])) (\<lambda>_. Inr (d @ [part]))) d0 ps = Inr d \<Longrightarrow> d = d0 @ ps"
proof (induction ps arbitrary: d0)
  case (Cons p ps)
  from Cons.prems have "foldE (\<lambda>d part. bindE (check_directory m (d @ [part])) (\<lambda>_. Inr (d @ [part]))) (d0 @ [p]) ps = Inr d"
    by (auto simp: bindE_eq_Inr)
  from Cons.IH [OF this] show ?case by simp
qed simp

lemma directory_parts:
  assumes "directory m path = Inr d"
  shows "d = path_parts path"
proof -
  from assms have "foldE (\<lambda>d part. bindE (check_directory m (d @ [part])) (\<lambda>_. Inr (d @ [part]))) [] (path_parts path) = Inr d"
    by (auto simp: directory_def bindE_eq_Inr split: if_splits)
  from directory_walk [OF this] show ?thesis by simp
qed

lemma attempt_run:
  assumes "attempt a policy floor raw s = (r, t)"
  shows "(trail t = trail s \<and> phase t = phase s \<and> \<not> is_ok r) \<or>
    (\<exists>s'. trail s' = trail s \<and> phase s' = phase s \<and> provision a policy floor raw base_dir config_dir s' = (r, t))"
proof (cases "directory (a_machine a) BASE")
  case (Inl e)
  then show ?thesis using assms by (auto simp: attempt_def bind_lift)
next
  case base: (Inr base)
  show ?thesis
  proof (cases "directory (a_machine a) CONFIG")
    case (Inl e)
    then show ?thesis using assms base by (auto simp: attempt_def bind_lift own_def then_modify)
  next
    case (Inr config)
    have "base = base_dir" "config = config_dir" using directory_parts base Inr by (simp_all add: base_dir_def config_dir_def)
    then show ?thesis using assms base Inr by (auto simp: attempt_def bind_lift own_def then_modify)
  qed
qed

text \<open>Before the last step the phase is neither complete nor failed.\<close>

definition going :: "progress \<Rightarrow> bool" where
  "going s \<longleftrightarrow> phase s \<noteq> COMPLETE \<and> phase s \<noteq> FAILED"

definition calm :: "(unit, progress) proc \<Rightarrow> bool" where
  "calm m \<longleftrightarrow> (\<forall>s. going s \<longrightarrow> (case m s of (Inl _, t) \<Rightarrow> going t | (Inr _, t) \<Rightarrow> phase t = COMPLETE))"

lemma calm_then: "ends going m going \<Longrightarrow> calm f \<Longrightarrow> calm (thenS m f)"
  unfolding calm_def ends_def by (auto simp: thenS_def bindS_def split: prod.splits sum.splits) (metis snd_conv)+

lemma going_act: "ends going (act answer e) going"
  by (auto simp: ends_def act_def bind_get perform_def going_def)

lemma going_finally: "ends going m going \<Longrightarrow> ends going f going \<Longrightarrow> ends going (finallyS m f) going"
  by (auto simp: ends_def finallyS_def split: prod.splits sum.splits)

lemma going_create: "ends going (create answer closing parent name raw mode) going"
  unfolding create_def by (intro ends_thenS going_finally going_act ends_bindS ends_getS ends_liftS)

lemma going_publish: "ends going (publish answer source destination name) going"
  unfolding publish_def by (intro ends_thenS going_act)

lemma going_make: "ends going (make_dir a sync parent name) going"
proof -
  have "ends going (own d) going" for d by (auto simp: ends_def own_def modify_eq going_def)
  moreover have "ends going (if sync then act (a_answer a) e else ret ()) going" for e by (auto intro: going_act ends_ret)
  ultimately show ?thesis unfolding make_dir_def by (intro ends_thenS going_act)
qed

lemma going_step_to: "p \<noteq> COMPLETE \<Longrightarrow> p \<noteq> FAILED \<Longrightarrow> ends going (step_to p) going"
  by (auto simp: ends_def step_to_def bind_get bind_lift modify_eq advance_def going_def rejected_def)

lemma calm_complete: "calm (step_to COMPLETE)"
  by (auto simp: calm_def step_to_def bind_get bind_lift modify_eq advance_def going_def rejected_def)

lemma going_lift: "ends going (liftS r) going"
  by (rule ends_liftS)

lemma calm_provision: "calm (provision a policy floor raw base config)"
proof -
  have v: "ends going (run_verify a p f) going" for p f by (auto simp: ends_def run_verify_def perform_def going_def)
  show ?thesis unfolding provision_def Let_def
    by (intro calm_then going_lift going_create going_publish going_make going_step_to v calm_complete; simp)
qed

lemma fail_going: "going s \<Longrightarrow> step_to FAILED s = (Inr (), s\<lparr>phase := FAILED\<rparr>)"
  by (simp add: step_to_def bind_get bind_lift modify_eq advance_def going_def)

text \<open>What an initialization that reached its \<open>try\<close> leaves behind.\<close>

lemma initialize_run:
  assumes "initialize a policy_input floor_input root request = (r, s)"
  shows "(\<not> is_ok r \<and> trail s = [] \<and> phase s = NEW) \<or>
    (\<exists>policy floor. protected_bytes (a_machine a) policy_input POLICY_LIMIT = Inr policy \<and> protected_bytes (a_machine a) floor_input 72 = Inr floor
       \<and> ran (script policy floor (record_of policy floor root request)) (phase s = COMPLETE) (trail s)
       \<and> (phase s = COMPLETE \<or> phase s = FAILED \<and> \<not> is_ok r))"
proof (cases "(a_uid a = 0 \<and> a_euid a = 0) \<and> (identity_text root \<and> identity_text request)
    \<and> is_ok (protected_bytes (a_machine a) policy_input POLICY_LIMIT) \<and> is_ok (protected_bytes (a_machine a) floor_input 72)")
  case False
  then have "\<not> is_ok r \<and> trail s = [] \<and> phase s = NEW"
    using assms unfolding initialize_def
    by (auto simp: then_reject bind_lift rejected_def split: sum.splits if_splits)
  then show ?thesis by blast
next
  case True
  then obtain policy floor where p: "protected_bytes (a_machine a) policy_input POLICY_LIMIT = Inr policy" "protected_bytes (a_machine a) floor_input 72 = Inr floor"
    by (auto simp: is_ok_iff)
  define raw where "raw = record_of policy floor root request"
  define s0 :: progress where "s0 = \<lparr>phase = NEW, owned = [], trail = []\<rparr>"
  obtain r1 s1 where at: "attempt a policy floor raw s0 = (r1, s1)" by fastforce
  have eq: "(r, s) = finallyS (exceptS (attempt a policy floor raw) (step_to FAILED)) (close_all a) s0"
    using assms True p by (simp add: initialize_def then_reject bind_lift raw_def s0_def)
  have s0: "trail s0 = []" "phase s0 = NEW" by (simp_all add: s0_def)
  have main: "ran (script policy floor raw) (is_ok r1) (trail s1) \<and> (if is_ok r1 then phase s1 = COMPLETE else going s1)"
  proof -
    from attempt_run [OF at] consider "trail s1 = []" "phase s1 = NEW" "\<not> is_ok r1"
      | s' where "trail s' = []" "phase s' = NEW" "provision a policy floor raw base_dir config_dir s' = (r1, s1)" using s0 by auto
    then show ?thesis
    proof cases
      case 1
      then show ?thesis by (auto simp: ran_def going_def)
    next
      case (2 s')
      have "going s'" using 2(2) by (simp add: going_def)
      then have "if is_ok r1 then phase s1 = COMPLETE else going s1"
        using calm_provision [of a policy floor raw base_dir config_dir] 2(3) unfolding calm_def by (cases r1) (force+)
      moreover from tracedE [OF traced_provision 2(3)] 2(1) have "ran (script policy floor raw) (is_ok r1) (trail s1)" by fastforce
      ultimately show ?thesis by blast
    qed
  qed
  have close: "snd (close_all a t) = t" for t by (simp add: close_all_def rejectS_state)
  show ?thesis
  proof (cases r1)
    case (Inr x)
    then have "s = s1" using eq at close [of s1] by (cases "close_all a s1"; cases "fst (close_all a s1)") (auto simp: finallyS_def exceptS_def)
    then show ?thesis using main Inr p by (auto simp: raw_def)
  next
    case (Inl e)
    then have g: "going s1" using main by simp
    have "s = s1\<lparr>phase := FAILED\<rparr> \<and> \<not> is_ok r"
      using eq at Inl close [of "s1\<lparr>phase := FAILED\<rparr>"] fail_going [OF g]
      by (cases "close_all a (s1\<lparr>phase := FAILED\<rparr>)"; cases "fst (close_all a (s1\<lparr>phase := FAILED\<rparr>))") (auto simp: finallyS_def exceptS_def)
    then show ?thesis using main Inl p by (auto simp: raw_def)
  qed
qed

text \<open>What precedes an effect that the script has only once: exactly the effects before it, each successful.\<close>

definition completed :: "effect list \<Rightarrow> (effect \<times> bool) list" where
  "completed es = map (\<lambda>e. (e, True)) es"

lemma ran_before:
  assumes "ran (xs @ e # ys) b ts" "ts = pre @ (e, f) # post" "e \<notin> set xs" "e \<notin> set ys"
  shows "pre = completed xs"
proof -
  from assms(1) obtain n where n: "map fst ts = take n (xs @ e # ys)" "\<forall>x \<in> set (butlast ts). snd x" by (auto simp: ran_def)
  have "map fst pre @ e # map fst post = take n (xs @ e # ys)" using n(1) assms(2) by simp
  then have "map fst pre @ e # (map fst post @ drop n (xs @ e # ys)) = xs @ e # ys" by (metis append_Cons append_assoc append_take_drop_id)
  moreover from this have "e \<notin> set (map fst pre)"
    using assms(3,4) by (metis (no_types, lifting) append_Cons_eq_iff append_Cons append_eq_append_conv2 in_set_conv_decomp_first list.set_intros(1) set_append UnCI UnE)
  ultimately have fst: "map fst pre = xs" using assms(3,4) by (metis append_Cons_eq_iff)
  have "\<forall>x \<in> set pre. snd x" using n(2) assms(2) by (simp add: butlast_append)
  then have "pre = map (\<lambda>e. (e, True)) (map fst pre)" by (induction pre) auto
  then show ?thesis using fst by (simp add: completed_def)
qed

section \<open>Properties\<close>


text \<open>C30: Nothing unverified is published, and nothing that is not durable is built on. Immediately before the policy is linked to
  its place, the bytes of the two protected inputs were written to the staging directories and synced, and the
  staged pair was verified. Immediately before the floor is linked, the policy was linked and then its directory synced, its staged name
  removed and both directories synced; and the same of the floor, followed by a verification of the
  published pair, before the record of the completion is created. So it is whatever fails in between.\<close>

theorem published_only_verified:
  assumes "initialize a policy_input floor_input root request = (r, s)"
  shows "(trail s = pre @ (Link (policy_dir @ [u ''pending'']) policy_dir (u ''supply.bin''), b) # post \<longrightarrow>
      (\<exists>policy floor before. protected_bytes (a_machine a) policy_input POLICY_LIMIT = Inr policy \<and> protected_bytes (a_machine a) floor_input 72 = Inr floor
        \<and> pre = before @ completed
           [NewFile (policy_dir @ [u ''pending'']) (u ''supply.bin''), WriteFile (policy_dir @ [u ''pending'']) (u ''supply.bin'') policy,
            ChmodFile (policy_dir @ [u ''pending'']) (u ''supply.bin'') 292, SyncFile (policy_dir @ [u ''pending'']) (u ''supply.bin''), SyncDir (policy_dir @ [u ''pending'']),
            NewFile (floor_dir @ [u ''pending'']) (u ''supply.floor''), WriteFile (floor_dir @ [u ''pending'']) (u ''supply.floor'') floor,
            ChmodFile (floor_dir @ [u ''pending'']) (u ''supply.floor'') 292, SyncFile (floor_dir @ [u ''pending'']) (u ''supply.floor''), SyncDir (floor_dir @ [u ''pending'']),
            Verify (CONFIG @ u ''/supply/pending'') (BASE @ u ''/trust/pending'')]))
    \<and> (trail s = pre @ (Link (floor_dir @ [u ''pending'']) floor_dir (u ''supply.floor''), b) # post \<longrightarrow>
      (\<exists>before. pre = before @ completed
         [Verify (CONFIG @ u ''/supply/pending'') (BASE @ u ''/trust/pending''), Link (policy_dir @ [u ''pending'']) policy_dir (u ''supply.bin''), SyncDir policy_dir,
          Unlink (policy_dir @ [u ''pending'']) (u ''supply.bin''), SyncDir (policy_dir @ [u ''pending'']), SyncDir policy_dir]))
    \<and> (trail s = pre @ (NewFile base_dir COMPLETED, b) # post \<longrightarrow>
      (\<exists>before. pre = before @ completed
         [Link (floor_dir @ [u ''pending'']) floor_dir (u ''supply.floor''), SyncDir floor_dir,
          Unlink (floor_dir @ [u ''pending'']) (u ''supply.floor''), SyncDir (floor_dir @ [u ''pending'']), SyncDir floor_dir,
          Verify (CONFIG @ u ''/supply'') (BASE @ u ''/trust'')]))"
proof (cases "trail s = []")
  case False
  with initialize_run [OF assms] obtain policy floor where
    inputs: "protected_bytes (a_machine a) policy_input POLICY_LIMIT = Inr policy" "protected_bytes (a_machine a) floor_input 72 = Inr floor"
    and ran: "ran (script policy floor (record_of policy floor root request)) (phase s = COMPLETE) (trail s)" by blast
  let ?raw = "record_of policy floor root request"
  define early where "early = create_script base_dir ATTEMPT ?raw 384 @ make_script True config_dir (u ''supply'') @ make_script True base_dir (u ''trust'')
     @ make_script False policy_dir (u ''pending'') @ make_script False floor_dir (u ''pending'')"
  define st where "st = create_script (policy_dir @ [u ''pending'']) (u ''supply.bin'') policy 292 @ create_script (floor_dir @ [u ''pending'']) (u ''supply.floor'') floor 292"
  define v1 v2 where "v1 = Verify (CONFIG @ u ''/supply/pending'') (BASE @ u ''/trust/pending'')" and "v2 = Verify (CONFIG @ u ''/supply'') (BASE @ u ''/trust'')"
  define lp lf nc where "lp = Link (policy_dir @ [u ''pending'']) policy_dir (u ''supply.bin'')" and "lf = Link (floor_dir @ [u ''pending'']) floor_dir (u ''supply.floor'')"
    and "nc = NewFile base_dir COMPLETED"
  define tp tf tc where "tp = tl (publish_script (policy_dir @ [u ''pending'']) policy_dir (u ''supply.bin''))"
    and "tf = tl (publish_script (floor_dir @ [u ''pending'']) floor_dir (u ''supply.floor''))" and "tc = tl (create_script base_dir COMPLETED ?raw 384)"
  have script: "script policy floor ?raw = early @ st @ [v1] @ (lp # tp) @ (lf # tf) @ [v2] @ (nc # tc)"
    by (simp add: script_def staging_script_def early_def st_def v1_def v2_def lp_def lf_def nc_def tp_def tf_def tc_def publish_script_def create_script_def)
  have names: "ATTEMPT \<noteq> COMPLETED" "COMPLETED \<noteq> u ''supply.bin''" "COMPLETED \<noteq> u ''supply.floor''" by (simp_all add: ATTEMPT_def COMPLETED_def)
  have floor_bin: "u ''supply.floor'' \<noteq> u ''supply.bin''" by simp
  have once: "e \<notin> set early" "e \<notin> set st" "e \<noteq> v1" "e \<notin> set tp" "e \<notin> set tf" "e \<noteq> v2" "e \<notin> set tc" if "e \<in> {lp, lf, nc}" for e
    using that names by (auto simp: early_def st_def v1_def v2_def lp_def lf_def nc_def tp_def tf_def tc_def publish_script_def create_script_def make_script_def
        base_dir_def floor_dir_def policy_dir_def)
  have diff: "lp \<noteq> lf" "lp \<noteq> nc" "lf \<noteq> nc" by (simp_all add: lp_def lf_def nc_def)
  have 1: "pre = completed (early @ st @ [v1])" if "trail s = pre @ (lp, b) # post"
    by (rule ran_before [OF _ that, where ys = "tp @ (lf # tf) @ [v2] @ (nc # tc)"]) (use ran once [of lp] diff in \<open>auto simp: script\<close>)
  have 2: "pre = completed (early @ st @ [v1] @ lp # tp)" if "trail s = pre @ (lf, b) # post"
    by (rule ran_before [OF _ that, where ys = "tf @ [v2] @ (nc # tc)"]) (use ran once [of lf] diff in \<open>auto simp: script\<close>)
  have 3: "pre = completed (early @ st @ [v1] @ (lp # tp) @ (lf # tf) @ [v2])" if "trail s = pre @ (nc, b) # post"
    by (rule ran_before [OF _ that, where ys = tc]) (use ran once [of nc] diff in \<open>auto simp: script\<close>)
  have st: "completed (early @ st @ [v1]) = completed early @ completed (st @ [v1])"
    "completed (early @ st @ [v1] @ lp # tp) = completed (early @ st) @ completed (v1 # lp # tp)"
    "completed (early @ st @ [v1] @ (lp # tp) @ (lf # tf) @ [v2]) = completed (early @ st @ [v1] @ (lp # tp)) @ completed (lf # tf @ [v2])"
    by (simp_all add: completed_def)
  have shapes: "st = [NewFile (policy_dir @ [u ''pending'']) (u ''supply.bin''), WriteFile (policy_dir @ [u ''pending'']) (u ''supply.bin'') policy,
            ChmodFile (policy_dir @ [u ''pending'']) (u ''supply.bin'') 292, SyncFile (policy_dir @ [u ''pending'']) (u ''supply.bin''), SyncDir (policy_dir @ [u ''pending'']),
            NewFile (floor_dir @ [u ''pending'']) (u ''supply.floor''), WriteFile (floor_dir @ [u ''pending'']) (u ''supply.floor'') floor,
            ChmodFile (floor_dir @ [u ''pending'']) (u ''supply.floor'') 292, SyncFile (floor_dir @ [u ''pending'']) (u ''supply.floor''), SyncDir (floor_dir @ [u ''pending''])]"
    "tp = [SyncDir policy_dir, Unlink (policy_dir @ [u ''pending'']) (u ''supply.bin''), SyncDir (policy_dir @ [u ''pending'']), SyncDir policy_dir]"
    "tf = [SyncDir floor_dir, Unlink (floor_dir @ [u ''pending'']) (u ''supply.floor''), SyncDir (floor_dir @ [u ''pending'']), SyncDir floor_dir]"
    by (simp_all add: st_def tp_def tf_def create_script_def publish_script_def)
  show ?thesis
    unfolding lp_def [symmetric] lf_def [symmetric] nc_def [symmetric] v1_def [symmetric] v2_def [symmetric]
  proof (intro conjI impI, goal_cases)
    case 1
    with \<open>trail s = pre @ (lp, b) # post \<Longrightarrow> pre = completed (early @ st @ [v1])\<close> st(1) have "pre = completed early @ completed (st @ [v1])" by simp
    then show ?case using inputs unfolding shapes append.simps by blast
  next
    case 2
    with \<open>trail s = pre @ (lf, b) # post \<Longrightarrow> pre = completed (early @ st @ [v1] @ lp # tp)\<close> st(2) have "pre = completed (early @ st) @ completed (v1 # lp # tp)" by simp
    then show ?case unfolding shapes by blast
  next
    case 3
    with \<open>trail s = pre @ (nc, b) # post \<Longrightarrow> pre = completed (early @ st @ [v1] @ (lp # tp) @ (lf # tf) @ [v2])\<close> st(3)
    have "pre = completed (early @ st @ [v1] @ (lp # tp)) @ completed (lf # tf @ [v2])" by simp
    then show ?case unfolding shapes append.simps by blast
  qed
qed simp

section \<open>An initialization that succeeds\<close>

definition goes :: "phase \<Rightarrow> (unit, progress) proc \<Rightarrow> phase \<Rightarrow> bool" where
  "goes p m q \<longleftrightarrow> (\<forall>s. phase s = p \<longrightarrow> (\<exists>t. m s = (Inr (), t) \<and> phase t = q))"

lemma goes_then: "goes p m q \<Longrightarrow> goes q f r \<Longrightarrow> goes p (thenS m f) r"
  unfolding goes_def by (metis thenS_ok)

lemma goes_keep: "goes p m p \<Longrightarrow> goes p f p \<Longrightarrow> goes p (thenS m f) p"
  by (rule goes_then)

lemma goes_act: "(\<And>n. answer n = Inr ()) \<Longrightarrow> goes p (act answer e) p"
  by (simp add: goes_def act_def bind_get perform_def)

lemma goes_finally: "goes p m q \<Longrightarrow> (\<And>s. f s = (Inr (), s)) \<Longrightarrow> goes p (finallyS m f) q"
  unfolding goes_def by (metis finallyS_ok)

lemma goes_create: "(\<And>n. answer n = Inr ()) \<Longrightarrow> (\<And>n. closing n = Inr ()) \<Longrightarrow> goes p (create answer closing d n raw mode) p"
  unfolding create_def by (intro goes_keep goes_finally goes_act) (simp_all add: bind_get lift_eq)

lemma goes_publish: "(\<And>n. answer n = Inr ()) \<Longrightarrow> goes p (publish answer x y n) p"
  unfolding publish_def by (intro goes_keep goes_act)

lemma goes_own: "goes p (own d) p" and goes_lift: "r = Inr () \<Longrightarrow> goes p (liftS r) p" and goes_ret: "goes p (ret ()) p"
  by (simp_all add: goes_def own_def modify_eq lift_eq ret_eq)

lemma goes_make: "(\<And>n. a_answer a n = Inr ()) \<Longrightarrow> goes p (make_dir a sync d n) p"
proof -
  assume a: "\<And>n. a_answer a n = Inr ()"
  then have "goes p (if sync then act (a_answer a) e else ret ()) p" for e by (simp add: goes_act goes_ret)
  then show ?thesis unfolding make_dir_def by (intro goes_keep goes_act goes_own a)
qed

lemma goes_step: "advance p q = Inr q \<Longrightarrow> goes p (step_to q) q"
  by (simp add: goes_def step_to_def bind_get bind_lift modify_eq)

definition all_well :: "inputs \<Rightarrow> bool" where
  "all_well a \<longleftrightarrow> a_uid a = 0 \<and> a_euid a = 0 \<and> directory (a_machine a) BASE = Inr base_dir \<and> directory (a_machine a) CONFIG = Inr config_dir
     \<and> list_all (\<lambda>x. absent a x = Inr ()) [(base_dir, ATTEMPT), (base_dir, COMPLETED), (base_dir, u ''trust''), (config_dir, u ''supply'')]
     \<and> (\<forall>n. a_answer a n = Inr () \<and> a_closing a n = Inr ()) \<and> (\<forall>d. \<not> a_close_fails a d)
     \<and> verify (a_verify a (CONFIG @ u ''/supply/pending'') (BASE @ u ''/trust/pending'')) = Inr ()
     \<and> verify (a_verify a (CONFIG @ u ''/supply'') (BASE @ u ''/trust'')) = Inr ()"

lemma goes_provision: "all_well a \<Longrightarrow> goes NEW (provision a policy floor raw base_dir config_dir) COMPLETE"
proof -
  assume a: "all_well a"
  have ans: "a_answer a n = Inr ()" "a_closing a n = Inr ()" for n using a by (simp_all add: all_well_def)
  have abs: "eachE (absent a) [(base_dir, ATTEMPT), (base_dir, COMPLETED), (base_dir, u ''trust''), (config_dir, u ''supply'')] = Inr ()"
    using a by (simp add: all_well_def)
  have v: "goes p (run_verify a (CONFIG @ u ''/supply/pending'') (BASE @ u ''/trust/pending'')) p"
      "goes p (run_verify a (CONFIG @ u ''/supply'') (BASE @ u ''/trust'')) p" for p
    using a by (simp_all add: all_well_def goes_def run_verify_def perform_def)
  have adv: "advance NEW RECORDED = Inr RECORDED" "advance RECORDED STAGED = Inr STAGED" "advance STAGED VERIFIED = Inr VERIFIED"
    "advance VERIFIED POLICY = Inr POLICY" "advance POLICY FLOOR = Inr FLOOR" "advance FLOOR COMPLETE = Inr COMPLETE"
    by (simp_all add: advance_def phase_order_def)
  show ?thesis unfolding provision_def Let_def
    by (rule goes_then, rule goes_lift, rule abs, rule goes_then, rule goes_create, rule ans, rule ans, rule goes_then, rule goes_step, rule adv)
      (rule goes_then, rule goes_make, rule ans, rule goes_then, rule goes_make, rule ans, rule goes_then, rule goes_make, rule ans, rule goes_then, rule goes_make, rule ans,
       rule goes_then, rule goes_create, rule ans, rule ans, rule goes_then, rule goes_create, rule ans, rule ans, rule goes_then, rule goes_step, rule adv,
       rule goes_then, rule v, rule goes_then, rule goes_step, rule adv, rule goes_then, rule goes_publish, rule ans, rule goes_then, rule goes_step, rule adv,
       rule goes_then, rule goes_publish, rule ans, rule goes_then, rule goes_step, rule adv, rule goes_then, rule v, rule goes_then, rule goes_create, rule ans, rule ans,
       rule goes_step, rule adv)
qed

lemma attempt_goes:
  assumes "all_well a"
  shows "\<exists>s. attempt a policy floor raw \<lparr>phase = NEW, owned = [], trail = []\<rparr> = (Inr (), s) \<and> phase s = COMPLETE"
proof -
  have "attempt a policy floor raw \<lparr>phase = NEW, owned = [], trail = []\<rparr>
      = provision a policy floor raw base_dir config_dir \<lparr>phase = NEW, owned = [base_dir, config_dir], trail = []\<rparr>"
    using assms by (simp add: all_well_def attempt_def bind_lift own_def then_modify)
  moreover have "\<exists>t. provision a policy floor raw base_dir config_dir \<lparr>phase = NEW, owned = [base_dir, config_dir], trail = []\<rparr> = (Inr (), t) \<and> phase t = COMPLETE"
    using goes_provision [OF assms, of policy floor raw] unfolding goes_def by simp
  ultimately show ?thesis by simp
qed

lemma initialize_goes:
  assumes "all_well a" "identity_text root" "identity_text request"
    and "protected_bytes (a_machine a) policy_input POLICY_LIMIT = Inr policy" "protected_bytes (a_machine a) floor_input 72 = Inr floor"
  shows "\<exists>s. initialize a policy_input floor_input root request = (Inr (), s) \<and> phase s = COMPLETE"
proof -
  obtain s1 where s1: "attempt a policy floor (record_of policy floor root request) \<lparr>phase = NEW, owned = [], trail = []\<rparr> = (Inr (), s1)" "phase s1 = COMPLETE"
    using attempt_goes [OF assms(1)] by blast
  have ok: "a_uid a = 0" "a_euid a = 0" "filter (a_close_fails a) xs = []" for xs using assms(1) by (simp_all add: all_well_def)
  have "initialize a policy_input floor_input root request = (Inr (), s1)" using assms(2-5) s1(1)
    by (simp add: initialize_def then_reject bind_lift finallyS_def exceptS_def close_all_def reject_eq ok)
  then show ?thesis using s1(2) by simp
qed

text \<open>When the inputs are protected and within their limits, none of the four names exists, every effect returns and
  both verifications succeed, the initialization returns and the phase is complete.\<close>

theorem initialization_succeeds:
  assumes "all_well a" "identity_text root" "identity_text request"
    and "protected_bytes (a_machine a) policy_input POLICY_LIMIT = Inr policy" "protected_bytes (a_machine a) floor_input 72 = Inr floor"
  shows "\<exists>s. initialize a policy_input floor_input root request = (Inr (), s) \<and> phase s = COMPLETE"
  by (rule initialize_goes [OF assms])

definition example_stat :: "int \<Rightarrow> stat_info" where
  "example_stat mode = \<lparr>st_dev = 1, st_ino = 2, st_mode = mode, st_nlink = 1, st_uid = 0, st_gid = 0, st_size = 4, st_mtime = 0, st_ctime = 0\<rparr>"

definition example_machine :: machine where
  "example_machine = \<lparr>look = (\<lambda>_. Inr (example_stat 16877)),
     open_file = (\<lambda>_ _. Inr \<lparr>before = example_stat 33261, content = [127, 69, 76, 70], after = example_stat 33261\<rparr>)\<rparr>"

definition example_verification :: verification where
  "example_verification = \<lparr>v_account = Inr (990, 990), v_machine = example_machine, v_files = Inr (), v_run = Inr 0,
     v_output = expected_head @ expected_tail, v_error = []\<rparr>"

definition example_inputs :: inputs where
  "example_inputs = \<lparr>a_uid = 0, a_euid = 0, a_machine = example_machine, a_stat = (\<lambda>_ _. Inl FileNotFoundError), a_answer = (\<lambda>_. Inr ()),
     a_closing = (\<lambda>_. Inr ()), a_verify = (\<lambda>_ _. example_verification), a_close_fails = (\<lambda>_. False)\<rparr>"

lemma example_observed: "verify example_verification = Inr ()"
proof -
  have o: "open_input example_machine OBSERVER = Inr \<lparr>before = example_stat 33261, content = [127, 69, 76, 70], after = example_stat 33261\<rparr>" by code_simp
  have len: "length (expected_head @ expected_tail) < 65537" by (simp add: expected_head_def expected_tail_def)
  have ends: "startswith (expected_head @ expected_tail) expected_head" "endswith (expected_head @ expected_tail) expected_tail"
    by (simp_all add: startswith_def endswith_def)
  have modes: "S_ISREG 33261" "(33261 :: int) AND 3090 = 0" "(33261 :: int) AND 73 \<noteq> 0" by code_simp+
  from len have "take 65537 (expected_head @ expected_tail) = expected_head @ expected_tail" by simp
  then show ?thesis using len ends by (simp add: verify_def example_verification_def o) (simp add: example_stat_def modes)
qed

lemma example_well: "all_well example_inputs"
proof -
  have "directory example_machine BASE = Inr base_dir" "directory example_machine CONFIG = Inr config_dir" by code_simp+
  then show ?thesis by (simp add: all_well_def example_inputs_def example_observed absent_def)
qed

lemma example_protected: "protected_bytes (a_machine example_inputs) (u ''/media/p'') POLICY_LIMIT = Inr [127, 69, 76, 70]"
    "protected_bytes (a_machine example_inputs) (u ''/media/f'') 72 = Inr [127, 69, 76, 70]"
  by code_simp+

lemma example_ids: "identity_text (replicate 32 49)" "identity_text (replicate 32 50)"
  by code_simp+

lemma example_goes: "\<exists>s. initialize example_inputs (u ''/media/p'') (u ''/media/f'') (replicate 32 49) (replicate 32 50) = (Inr (), s)"
  using initialize_goes [OF example_well example_ids example_protected] by blast

theorem initialization_succeeds_witness:
  "\<exists>s. initialize example_inputs (u ''/media/p'') (u ''/media/f'') (replicate 32 49) (replicate 32 50) = (Inr (), s) \<and> phase s = COMPLETE"
  by (rule initialization_succeeds [OF example_well example_ids example_protected])


lemma example_trail:
  assumes "initialize example_inputs (u ''/media/p'') (u ''/media/f'') (replicate 32 49) (replicate 32 50) = (Inr (), s)"
  shows "\<exists>pre post. trail s = pre @ (NewFile base_dir COMPLETED, True) # post"
proof -
  from initialize_run [OF assms] obtain policy floor where "ran (script policy floor (record_of policy floor (replicate 32 49) (replicate 32 50))) True (trail s)" by auto
  then have "(NewFile base_dir COMPLETED, True) \<in> set (trail s)" by (auto simp: ran_def script_def create_script_def)
  then show ?thesis by (simp add: in_set_conv_decomp)
qed

theorem published_only_verified_witness:
  "\<exists>s pre post before. initialize example_inputs (u ''/media/p'') (u ''/media/f'') (replicate 32 49) (replicate 32 50) = (Inr (), s)
     \<and> trail s = pre @ (NewFile base_dir COMPLETED, True) # post
     \<and> pre = before @ completed [SyncDir floor_dir, Verify (CONFIG @ u ''/supply'') (BASE @ u ''/trust'')]"
proof -
  obtain s where s: "initialize example_inputs (u ''/media/p'') (u ''/media/f'') (replicate 32 49) (replicate 32 50) = (Inr (), s)" using example_goes by blast
  obtain pre post where t: "trail s = pre @ (NewFile base_dir COMPLETED, True) # post" using example_trail [OF s] by blast
  with published_only_verified [OF s, of pre True post] obtain before where
    "pre = before @ completed [Link (floor_dir @ [u ''pending'']) floor_dir (u ''supply.floor''), SyncDir floor_dir,
          Unlink (floor_dir @ [u ''pending'']) (u ''supply.floor''), SyncDir (floor_dir @ [u ''pending''])] @ completed [SyncDir floor_dir, Verify (CONFIG @ u ''/supply'') (BASE @ u ''/trust'')]"
    by (auto simp: completed_def)
  with s t show ?thesis by (metis append_assoc)
qed

end
