(* ===== verification/Update_Metadata.thy ===== *)
theory Update_Metadata
  imports Deb_Inspect
begin

text \<open>
  \<open>native/update_metadata.py\<close>: what an upload says of its urgency and what a list of advisories says of
  fixed source versions, as observations that authenticate nothing and conclude nothing. The
  control paragraph is the list of fields \<open>Deb_Control\<close> reads; the files are arguments.
  A regular expression's \<open>\\s\<close> is \<open>is_space\<close>, its \<open>[0-9]\<close> an ASCII digit.
\<close>

definition MAX_METADATA :: nat where
  "MAX_METADATA = 16 * 1024 * 1024"

definition URGENCIES :: "pystr list" where
  "URGENCIES = map u [''low'', ''medium'', ''high'', ''critical'', ''emergency'']"

section \<open>The source of a binary package\<close>

text \<open>\<open>SOURCE\<close>: a name and, after white space and in parentheses, a version.\<close>

definition match_source :: "pystr \<Rightarrow> (pystr \<times> pystr option) option" where
  "match_source s =
     (let name = takeWhile name_char s; rest = dropWhile name_char s; inner = lstrip is_space rest in
      if \<not> name_ok name then None
      else if rest = [] then Some (name, None)
      else if inner \<noteq> rest \<and> startswith inner [40] \<and> endswith inner [41] \<and> length inner > 2
          \<and> list_all (\<lambda>c. c \<noteq> 40 \<and> c \<noteq> 41 \<and> \<not> is_space c) (butlast (tl inner))
      then Some (name, Some (butlast (tl inner)))
      else None)"

definition get_or :: "stanza \<Rightarrow> string \<Rightarrow> pystr \<Rightarrow> pystr" where
  "get_or record k d = (case map_of record (u k) of None \<Rightarrow> d | Some v \<Rightarrow> v)"

definition source_identity :: "stanza \<Rightarrow> (pystr \<times> pystr) res" where
  "source_identity control =
     (let name = get_or control ''package'' []; version = get_or control ''version'' [] in
      if \<not> name_ok name then invalid ''invalid binary package name''
      else bindE (split_version version) (\<lambda>_.
        case match_source (get_or control ''source'' name) of
          None \<Rightarrow> invalid ''invalid source identity''
        | Some (source, v) \<Rightarrow>
            let source_version = (case v of None \<Rightarrow> version | Some v' \<Rightarrow> v') in
            bindE (split_version source_version) (\<lambda>_. Inr (source, source_version))))"

section \<open>The upload\<close>

text \<open>One row of \<open>checksums-sha256\<close>; the state is the names seen and the matching ones.\<close>

definition checksum_line :: "pystr \<Rightarrow> nat \<Rightarrow> pystr list \<times> pystr list \<Rightarrow> pystr \<Rightarrow> (pystr list \<times> pystr list) res" where
  "checksum_line artifact_hash artifact_size = (\<lambda>(names, matched) line.
     if strip is_space line = [] then Inr (names, matched)
     else case words line of
       [checksum, n, name] \<Rightarrow>
         if \<not> (list_all ascii_digit n \<and> 1 \<le> length n \<and> length n \<le> 12) then invalid ''invalid .changes checksum row''
         else bindE (digest_str checksum) (\<lambda>_.
           if 47 \<in> set name \<or> name \<in> {u ''.'', u ''..''} \<or> name \<in> set names \<or> 4096 \<le> length names then invalid ''invalid or duplicate .changes filename''
           else Inr (names @ [name],
             if checksum = artifact_hash \<and> ascii_value n = artifact_size \<and> endswith name (u ''.deb'') then matched @ [name] else matched))
     | _ \<Rightarrow> invalid ''invalid .changes checksum row'')"

definition urgency_of :: "pystr option \<Rightarrow> pystr option res" where
  "urgency_of raw = (case raw of
       None \<Rightarrow> Inr None
     | Some r \<Rightarrow>
         if 10 \<in> set r \<or> words r = [] then invalid ''invalid urgency''
         else let urgency = lower (hd (words r)) in
           if urgency \<notin> set URGENCIES then invalid ''unsupported urgency'' else Inr (Some urgency))"

definition str_or_none :: "pystr option \<Rightarrow> pyval" where
  "str_or_none v = (case v of None \<Rightarrow> PNone | Some s \<Rightarrow> PStr s)"

text \<open>The comparisons of the stanza with the control paragraph, and the record made of the one matching row.\<close>

definition source_differs :: "stanza \<Rightarrow> pystr \<times> pystr \<Rightarrow> bool" where
  "source_differs record expected = (case match_source (get_or record ''source'' []) of
       None \<Rightarrow> True
     | Some (name, v) \<Rightarrow> (name, if v = None then map_of record (u ''version'') else v) \<noteq> (fst expected, Some (snd expected)))"

definition upload_checks :: "stanza \<Rightarrow> stanza \<Rightarrow> pystr \<times> pystr \<Rightarrow> unit res" where
  "upload_checks record control expected =
     (if source_differs record expected then invalid ''.changes source/version mismatch''
      else if map_of record (u ''version'') \<noteq> map_of control (u ''version'') then invalid ''.changes binary version mismatch''
      else if get_or control ''package'' [] \<notin> set (words (get_or record ''binary'' [])) then invalid ''binary not declared in .changes''
      else if map_of control (u ''architecture'') \<notin> Some ` set (words (get_or record ''architecture'' []))
      then invalid ''architecture not declared in .changes''
      else Inr ())"

definition upload_record :: "pybytes \<Rightarrow> stanza \<Rightarrow> pystr list \<Rightarrow> pyval res" where
  "upload_record raw record matched = (case matched of
       [name] \<Rightarrow> bindE (urgency_of (map_of record (u ''urgency''))) (\<lambda>urgency.
         Inr (PDict [(u ''changes_sha256'', PStr (sha raw)), (u ''artifact_filename'', PStr name), (u ''urgency'', str_or_none urgency),
           (u ''urgency_raw'', str_or_none (map_of record (u ''urgency''))), (u ''distribution_raw'', str_or_none (map_of record (u ''distribution''))),
           (u ''signature_verified'', PBool False), (u ''vulnerability_severity'', PNone)]))
     | _ \<Rightarrow> invalid ''exact DEB hash/size absent or ambiguous in .changes'')"

definition upload_metadata :: "pybytes \<Rightarrow> stanza \<Rightarrow> pystr \<Rightarrow> nat \<Rightarrow> pyval res" where
  "upload_metadata raw control artifact_hash artifact_size =
     bindE (digest_str artifact_hash) (\<lambda>_.
     bindE (deb822 MAX_METADATA 1 raw) (\<lambda>paragraphs.
     case paragraphs of
       [record] \<Rightarrow>
         if map_of record (u ''format'') \<noteq> Some (u ''1.8'') then invalid ''unsupported .changes format''
         else bindE (source_identity control) (\<lambda>expected.
           bindE (upload_checks record control expected) (\<lambda>_.
           bindE (foldE (checksum_line artifact_hash artifact_size) ([], []) (splitlines (get_or record ''checksums-sha256'' []))) (\<lambda>(_, matched).
             upload_record raw record matched)))
     | _ \<Rightarrow> invalid ''one plain .changes stanza required''))"

section \<open>Advisories\<close>

definition digits_ok :: "pystr \<Rightarrow> bool" where
  "digits_ok s \<longleftrightarrow> s \<noteq> [] \<and> list_all ascii_digit s"

text \<open>\<open>DSA-[0-9]+(?:-[0-9]+)?\<close> and \<open>(?:CVE|CAN)-[0-9]{4}-[0-9]{4,}\<close>.\<close>

definition dsa_ok :: "pystr \<Rightarrow> bool" where
  "dsa_ok s \<longleftrightarrow> (case split_on 45 s of
       [k, a] \<Rightarrow> k = u ''DSA'' \<and> digits_ok a
     | [k, a, b] \<Rightarrow> k = u ''DSA'' \<and> digits_ok a \<and> digits_ok b
     | _ \<Rightarrow> False)"

definition issue_ok :: "pystr \<Rightarrow> bool" where
  "issue_ok s \<longleftrightarrow> (case split_on 45 s of
       [k, y, n] \<Rightarrow> k \<in> {u ''CVE'', u ''CAN''} \<and> digits_ok y \<and> length y = 4 \<and> digits_ok n \<and> 4 \<le> length n
     | _ \<Rightarrow> False)"

text \<open>\<open>\\[[^\\]\\n]+\\] (DSA...) .+\<close> on a line.\<close>

definition match_header :: "pystr \<Rightarrow> pystr option" where
  "match_header line = (case line of
       [] \<Rightarrow> None
     | c # r \<Rightarrow> if c \<noteq> 91 then None else (case split_first 93 r of
           None \<Rightarrow> None
         | Some (date, rest) \<Rightarrow> if date = [] \<or> \<not> startswith rest [32] then None else (case split_first 32 (tl rest) of
               None \<Rightarrow> None
             | Some (name, title) \<Rightarrow> if dsa_ok name \<and> title \<noteq> [] then Some name else None)))"

text \<open>\<open>\\[trixie\\] - (\\S+) (\\S+)\<close> on a row.\<close>

definition match_row :: "pystr \<Rightarrow> pystr \<Rightarrow> (pystr \<times> pystr) option" where
  "match_row release row =
     (let head = [91] @ release @ u ''] - '' in
      if \<not> startswith row head then None
      else case split_first 32 (drop (length head) row) of
        None \<Rightarrow> None
      | Some (name, version) \<Rightarrow>
          if name \<noteq> [] \<and> version \<noteq> [] \<and> \<not> list_ex is_space name \<and> \<not> list_ex is_space version then Some (name, version) else None)"

record advisory_row =
  r_advisory :: pystr
  r_issues :: "pystr list"
  r_fixed :: pystr
  r_reached :: bool

record advisories =
  d_result :: "advisory_row list"
  d_seen :: "pystr list"
  d_current :: "pystr option"
  d_issues :: "pystr list"
  d_selected :: "pystr list"

definition row_val :: "pystr \<Rightarrow> pystr \<Rightarrow> advisory_row \<Rightarrow> pyval" where
  "row_val release source r = PDict [(u ''advisory_id'', PStr (r_advisory r)), (u ''mentioned_issue_ids'', PList (map PStr (r_issues r))),
     (u ''release'', PStr release), (u ''source_package'', PStr source), (u ''fixed_source_version'', PStr (r_fixed r)),
     (u ''version_relation'', PStr (u (if r_reached r then ''at-or-above-announced-fix'' else ''below-announced-fix'')))]"

definition finish :: "pystr \<Rightarrow> advisories \<Rightarrow> advisories res" where
  "finish version d = (case d_current d of
       None \<Rightarrow> Inr d
     | Some current \<Rightarrow> bindE (mapE (\<lambda>fixed. bindE (compare version fixed) (\<lambda>c.
           Inr \<lparr>r_advisory = current, r_issues = sorted_set (d_issues d), r_fixed = fixed, r_reached = (0 \<le> c)\<rparr>)) (d_selected d)) (\<lambda>rows.
         Inr (d\<lparr>d_result := d_result d @ rows\<rparr>)))"

definition advisory_line :: "pystr \<Rightarrow> pystr \<Rightarrow> pystr \<Rightarrow> advisories \<Rightarrow> pystr \<Rightarrow> advisories res" where
  "advisory_line release source version d line =
     (if length line > 65536 then invalid ''advisory line limit''
      else if strip is_space line = [] \<or> startswith line [35] then Inr d
      else if \<not> is_space (hd line) then
        (case match_header line of
           None \<Rightarrow> invalid ''invalid, duplicate or excessive advisory header''
         | Some name \<Rightarrow>
             if name \<in> set (d_seen d) \<or> 20000 \<le> length (d_seen d) then invalid ''invalid, duplicate or excessive advisory header''
             else bindE (finish version d) (\<lambda>d'. Inr (d'\<lparr>d_seen := d_seen d' @ [name], d_current := Some name, d_issues := [], d_selected := []\<rparr>)))
      else if d_current d = None then invalid ''orphan advisory row''
      else let row = strip is_space line in
        if startswith row [123] then
          (if \<not> endswith row [125] then invalid ''malformed advisory issue list''
           else let ids = words (butlast (tl row)) in
             if list_ex (\<lambda>i. \<not> issue_ok i) ids then invalid ''unsupported advisory issue identifier''
             else if length (d_issues d @ ids) > 4096 then invalid ''advisory issue count''
             else Inr (d\<lparr>d_issues := d_issues d @ ids\<rparr>))
        else if startswith row ([91] @ release @ [93]) then
          (case match_row release row of
             None \<Rightarrow> invalid ''unsupported target-release advisory row''
           | Some (name, fixed) \<Rightarrow>
               if name \<noteq> source then Inr d
               else bindE (split_version fixed) (\<lambda>_.
                 if d_selected d \<noteq> [] then invalid ''ambiguous advisory source/release row''
                 else Inr (d\<lparr>d_selected := d_selected d @ [fixed]\<rparr>)))
        else if startswith row [91] \<or> startswith row (u ''NOTE:'') then Inr d
        else invalid ''unsupported advisory row'')"

definition advisory_rows :: "pybytes \<Rightarrow> pystr \<Rightarrow> pystr \<Rightarrow> pystr \<Rightarrow> advisory_row list res" where
  "advisory_rows raw source version release =
     (if length raw > MAX_METADATA \<or> release \<noteq> u ''trixie'' \<or> \<not> name_ok source then invalid ''unsupported advisory size, release or source''
      else bindE (split_version version) (\<lambda>_.
        case utf8_decode raw of
          None \<Rightarrow> invalid ''advisories must be UTF-8''
        | Some decoded \<Rightarrow>
            if list_ex (\<lambda>c. c < 32 \<and> c \<notin> {10, 9, 13}) decoded then invalid ''advisory control character''
            else let text = replace_crlf decoded in
              if 13 \<in> set text then invalid ''advisory bare carriage return''
              else bindE (foldE (advisory_line release source version)
                  \<lparr>d_result = [], d_seen = [], d_current = None, d_issues = [], d_selected = []\<rparr> (splitlines text)) (\<lambda>d.
                bindE (finish version d) (\<lambda>d'. Inr (d_result d')))))"

definition advisory_matches :: "pybytes \<Rightarrow> pystr \<Rightarrow> pystr \<Rightarrow> pystr \<Rightarrow> pyval list res" where
  "advisory_matches raw source version release =
     bindE (advisory_rows raw source version release) (\<lambda>rows. Inr (map (row_val release source) rows))"

section \<open>The observation\<close>

definition control_of :: "pyval \<Rightarrow> stanza" where
  "control_of v = (case v of PDict d \<Rightarrow> map (\<lambda>(k, x). (k, case x of PStr s \<Rightarrow> s | _ \<Rightarrow> [])) d | _ \<Rightarrow> [])"

definition inspect_update :: "(pybytes \<Rightarrow> pyval res) \<Rightarrow> pybytes \<Rightarrow> pybytes option \<Rightarrow> pybytes option \<Rightarrow> pyval res" where
  "inspect_update observe deb changes advisories =
     bindE (observe deb) (\<lambda>observed. let control = control_of (field observed ''fields'') in
     bindE (source_identity control) (\<lambda>(name, version).
     bindE (case changes of None \<Rightarrow> Inr PNone | Some c \<Rightarrow> upload_metadata c control (sha deb) (length deb)) (\<lambda>upload.
     bindE (case advisories of None \<Rightarrow> Inr [] | Some a \<Rightarrow> advisory_matches a name version (u ''trixie'')) (\<lambda>matches.
       Inr (PDict [(u ''schema'', PStr (u ''org.niaos.update-metadata-observation/v1'')), (u ''artifact_sha256'', field observed ''artifact_sha256''),
         (u ''identity'', field observed ''identity''), (u ''source'', PDict [(u ''name'', PStr name), (u ''version'', PStr version)]),
         (u ''upload'', upload), (u ''advisories_sha256'', case advisories of None \<Rightarrow> PNone | Some a \<Rightarrow> PStr (sha a)),
         (u ''advisory_matches'', PList matches), (u ''security_assessment'', PStr (u ''not-established'')),
         (u ''archive_authenticated'', PBool False), (u ''advisories_authenticated'', PBool False), (u ''execution_permit'', PBool False)])))))"

section \<open>What the observations say\<close>

definition row_fine :: "pystr \<Rightarrow> advisory_row \<Rightarrow> bool" where
  "row_fine version r \<longleftrightarrow> sorted (r_issues r) \<and> distinct (r_issues r) \<and> list_all issue_ok (r_issues r) \<and> length (r_issues r) \<le> 4096
     \<and> (\<exists>c. compare version (r_fixed r) = Inr c \<and> (r_reached r \<longleftrightarrow> 0 \<le> c))"

definition advisories_inv :: "pystr \<Rightarrow> advisories \<Rightarrow> bool" where
  "advisories_inv version d \<longleftrightarrow> distinct (d_seen d) \<and> length (d_seen d) \<le> 20000 \<and> distinct (map r_advisory (d_result d))
     \<and> set (map r_advisory (d_result d)) \<subseteq> set (d_seen d) \<and> list_all (row_fine version) (d_result d)
     \<and> (\<forall>c. d_current d = Some c \<longrightarrow> c \<in> set (d_seen d) \<and> c \<notin> set (map r_advisory (d_result d)))
     \<and> list_all issue_ok (d_issues d) \<and> length (d_issues d) \<le> 4096 \<and> length (d_selected d) \<le> 1"

lemma length_sorted_set: "length (sorted_set xs) \<le> length xs"
  using card_length [of xs] distinct_card [OF distinct_sorted_set, of xs] by simp

lemma finish_inv:
  assumes "advisories_inv version d" "finish version d = Inr d'"
  shows "distinct (map r_advisory (d_result d')) \<and> set (map r_advisory (d_result d')) \<subseteq> set (d_seen d') \<and> list_all (row_fine version) (d_result d')
    \<and> d_seen d' = d_seen d"
proof (cases "d_current d")
  case None
  then show ?thesis using assms by (simp add: finish_def advisories_inv_def)
next
  case (Some c)
  with assms(2) obtain rows where rows: "mapE (\<lambda>fixed. bindE (compare version fixed) (\<lambda>k.
       Inr \<lparr>r_advisory = c, r_issues = sorted_set (d_issues d), r_fixed = fixed, r_reached = (0 \<le> k)\<rparr>)) (d_selected d) = Inr rows"
    and d': "d' = d\<lparr>d_result := d_result d @ rows\<rparr>" by (auto simp: finish_def bindE_eq_Inr)
  have len: "length rows \<le> 1" using mapE_length [OF rows] assms(1) by (simp add: advisories_inv_def)
  have row: "r_advisory r = c \<and> row_fine version r" if "r \<in> set rows" for r
  proof -
    from mapE_in [OF rows that] obtain fixed k where "compare version fixed = Inr k"
      and r: "r = \<lparr>r_advisory = c, r_issues = sorted_set (d_issues d), r_fixed = fixed, r_reached = (0 \<le> k)\<rparr>" by (auto simp: bindE_eq_Inr)
    moreover have "length (sorted_set (d_issues d)) \<le> 4096"
      using length_sorted_set [of "d_issues d"] assms(1) by (simp add: advisories_inv_def)
    moreover have "list_all issue_ok (sorted_set (d_issues d))" using assms(1) by (simp add: advisories_inv_def list_all_iff)
    ultimately show ?thesis by (simp add: row_fine_def)
  qed
  have "distinct (map r_advisory rows)" using len by (cases rows) auto
  moreover have "set (map r_advisory rows) \<subseteq> {c}" using row by auto
  ultimately show ?thesis using assms(1) row Some unfolding d' by (auto simp: advisories_inv_def list_all_iff)
qed

text \<open>The three ways a line changes the state.\<close>

lemma advisory_line_cases:
  assumes "advisory_line release source version d line = Inr d'"
  obtains (same) "d' = d"
    | (head) name d1 where "name \<notin> set (d_seen d)" "length (d_seen d) < 20000" "finish version d = Inr d1"
        "d' = d1\<lparr>d_seen := d_seen d1 @ [name], d_current := Some name, d_issues := [], d_selected := []\<rparr>"
    | (issues) ids where "list_all issue_ok ids" "length (d_issues d @ ids) \<le> 4096" "d' = d\<lparr>d_issues := d_issues d @ ids\<rparr>"
    | (chosen) fixed where "d_selected d = []" "d' = d\<lparr>d_selected := d_selected d @ [fixed]\<rparr>"
proof -
  define row where "row = strip is_space line"
  consider "strip is_space line = [] \<or> startswith line [35]"
    | (h) "\<not> (strip is_space line = [] \<or> startswith line [35])" "\<not> is_space (hd line)"
    | (r) "\<not> (strip is_space line = [] \<or> startswith line [35])" "is_space (hd line)" by blast
  then show thesis
  proof cases
    case 1
    then have "d' = d" using assms by (simp add: advisory_line_def split: if_splits)
    then show ?thesis by (rule same)
  next
    case h
    then have "(case match_header line of
           None \<Rightarrow> invalid ''invalid, duplicate or excessive advisory header''
         | Some name \<Rightarrow>
             if name \<in> set (d_seen d) \<or> 20000 \<le> length (d_seen d) then invalid ''invalid, duplicate or excessive advisory header''
             else bindE (finish version d) (\<lambda>d'. Inr (d'\<lparr>d_seen := d_seen d' @ [name], d_current := Some name, d_issues := [], d_selected := []\<rparr>))) = Inr d'"
      using assms by (simp add: advisory_line_def split: if_splits)
    then obtain name where "name \<notin> set (d_seen d)" "length (d_seen d) < 20000"
      "bindE (finish version d) (\<lambda>d'. Inr (d'\<lparr>d_seen := d_seen d' @ [name], d_current := Some name, d_issues := [], d_selected := []\<rparr>)) = Inr d'"
      by (auto split: option.splits if_splits)
    then show ?thesis unfolding bindE_eq_Inr using head by blast
  next
    case r
    have body: "(if startswith row [123] then
          (if \<not> endswith row [125] then invalid ''malformed advisory issue list''
           else if list_ex (\<lambda>i. \<not> issue_ok i) (words (butlast (tl row))) then invalid ''unsupported advisory issue identifier''
           else if length (d_issues d @ words (butlast (tl row))) > 4096 then invalid ''advisory issue count''
           else Inr (d\<lparr>d_issues := d_issues d @ words (butlast (tl row))\<rparr>))
        else if startswith row ([91] @ release @ [93]) then
          (case match_row release row of
             None \<Rightarrow> invalid ''unsupported target-release advisory row''
           | Some (name, fixed) \<Rightarrow>
               if name \<noteq> source then Inr d
               else bindE (split_version fixed) (\<lambda>_.
                 if d_selected d \<noteq> [] then invalid ''ambiguous advisory source/release row''
                 else Inr (d\<lparr>d_selected := d_selected d @ [fixed]\<rparr>)))
        else if startswith row [91] \<or> startswith row (u ''NOTE:'') then Inr d
        else invalid ''unsupported advisory row'') = Inr d'"
      using assms r unfolding advisory_line_def Let_def row_def by (simp split: if_splits)
    show ?thesis
    proof (cases "startswith row [123]")
      case True
      define ids where "ids = words (butlast (tl row))"
      from body True have "list_all issue_ok ids" "length (d_issues d @ ids) \<le> 4096" "d' = d\<lparr>d_issues := d_issues d @ ids\<rparr>"
        by (auto simp: ids_def [symmetric] list_all_iff list_ex_iff split: if_splits)
      then show ?thesis by (rule issues)
    next
      case False
      show ?thesis
      proof (cases "startswith row ([91] @ release @ [93])")
        case True
        from body False True obtain name fixed where m: "(if name \<noteq> source then Inr d
               else bindE (split_version fixed) (\<lambda>_.
                 if d_selected d \<noteq> [] then invalid ''ambiguous advisory source/release row''
                 else Inr (d\<lparr>d_selected := d_selected d @ [fixed]\<rparr>))) = Inr d'"
          by (cases "match_row release row") auto
        then have "d' = d \<or> (d_selected d = [] \<and> d' = d\<lparr>d_selected := d_selected d @ [fixed]\<rparr>)"
          by (cases "name = source") (auto simp: bindE_eq_Inr split: if_splits)
        then show ?thesis using same chosen by blast
      next
        case no: False
        from body False no have "d' = d" by (simp split: if_splits)
        then show ?thesis by (rule same)
      qed
    qed
  qed
qed

lemma advisory_line_inv:
  assumes "advisories_inv version d" "advisory_line release source version d line = Inr d'"
  shows "advisories_inv version d'"
  using assms(2)
proof (cases rule: advisory_line_cases)
  case same
  then show ?thesis using assms(1) by simp
next
  case (head name d1)
  from finish_inv [OF assms(1) head(3)] have "distinct (map r_advisory (d_result d1))" "set (map r_advisory (d_result d1)) \<subseteq> set (d_seen d)"
    "list_all (row_fine version) (d_result d1)" "d_seen d1 = d_seen d" by auto
  then show ?thesis using head assms(1) by (auto simp: advisories_inv_def)
next
  case (issues ids)
  then show ?thesis using assms(1) by (simp add: advisories_inv_def)
next
  case (chosen fixed)
  then show ?thesis using assms(1) by (simp add: advisories_inv_def)
qed

text \<open>The rows an advisory list yields: at most one for each of at most 20000 distinct advisories, each with its
  issue identifiers well-formed, sorted and unique, and each saying that the source version has reached the
  announced fix exactly when the version comparison says so.\<close>

theorem advisory_rows_sound:
  assumes "advisory_rows raw source version release = Inr rows"
  shows "distinct (map r_advisory rows) \<and> length rows \<le> 20000
     \<and> (\<forall>r \<in> set rows. sorted (r_issues r) \<and> distinct (r_issues r) \<and> list_all issue_ok (r_issues r) \<and> length (r_issues r) \<le> 4096
          \<and> (\<exists>c. compare version (r_fixed r) = Inr c \<and> (r_reached r \<longleftrightarrow> 0 \<le> c)))"
proof -
  from assms obtain tx d d' where
    f: "foldE (advisory_line release source version) \<lparr>d_result = [], d_seen = [], d_current = None, d_issues = [], d_selected = []\<rparr> (splitlines tx) = Inr d"
    and fin: "finish version d = Inr d'" and rows: "rows = d_result d'"
    by (auto simp: advisory_rows_def bindE_eq_Inr Let_def split: if_splits option.splits)
  have "advisories_inv version d"
    by (rule foldE_invariant [OF f]) (simp add: advisories_inv_def, rule advisory_line_inv)
  moreover from finish_inv [OF this fin] have fine: "distinct (map r_advisory rows)" "set (map r_advisory rows) \<subseteq> set (d_seen d)" "list_all (row_fine version) rows"
    by (auto simp: rows)
  ultimately have "length rows \<le> 20000"
    using card_mono [OF _ fine(2)] distinct_card [OF fine(1)] card_length [of "d_seen d"] by (simp add: advisories_inv_def)
  with fine show ?thesis by (auto simp: row_fine_def list_all_iff)
qed

definition example_list :: pybytes where
  "example_list = bs ''[01 Jan 2026] DSA-5000-1 bash - update'' @ [10, 9] @ bs ''{CVE-2026-1234}'' @ [10, 9] @ bs ''[trixie] - bash 5.2-1'' @ [10]"

lemma example_rows: "advisory_rows example_list (u ''bash'') (u ''5.2-2'') (u ''trixie'')
    = Inr [\<lparr>r_advisory = u ''DSA-5000-1'', r_issues = [u ''CVE-2026-1234''], r_fixed = u ''5.2-1'', r_reached = True\<rparr>]"
  by code_simp

theorem advisory_rows_sound_witness:
  "\<exists>r. advisory_rows example_list (u ''bash'') (u ''5.2-2'') (u ''trixie'') = Inr [r] \<and> r_reached r \<and> list_all issue_ok (r_issues r)"
  using advisory_rows_sound [OF example_rows] example_rows by simp

text \<open>The rows of a checksum table that name an archive of this digest and size.\<close>

definition names_artifact :: "pystr \<Rightarrow> nat \<Rightarrow> pystr \<Rightarrow> bool" where
  "names_artifact h n line \<longleftrightarrow> strip is_space line \<noteq> [] \<and> length (words line) = 3 \<and> words line ! 0 = h \<and> ascii_value (words line ! 1) = n
     \<and> endswith (words line ! 2) (u ''.deb'')"

lemma checksum_line_ok:
  assumes "checksum_line h n (names, matched) line = Inr (names', matched')"
  shows "matched' = matched @ (if names_artifact h n line then [words line ! 2] else [])"
proof (cases "strip is_space line = []")
  case True
  then show ?thesis using assms by (simp add: checksum_line_def names_artifact_def)
next
  case False
  with assms obtain c k nm where "words line = [c, k, nm]" by (auto simp: checksum_line_def split: list.splits)
  then show ?thesis using assms False by (auto simp: checksum_line_def names_artifact_def bindE_eq_Inr split: if_splits)
qed

lemma checksum_lines_ok:
  assumes "foldE (checksum_line h n) (names, matched) lines = Inr (names', matched')"
  shows "matched' = matched @ map (\<lambda>l. words l ! 2) (filter (names_artifact h n) lines)"
  using assms
proof (induction lines arbitrary: names matched)
  case (Cons line lines)
  from Cons.prems obtain names1 matched1 where 1: "checksum_line h n (names, matched) line = Inr (names1, matched1)"
    and 2: "foldE (checksum_line h n) (names1, matched1) lines = Inr (names', matched')"
    by (auto simp: bindE_eq_Inr)
  from Cons.IH [OF 2] checksum_line_ok [OF 1] show ?case by simp
qed simp

text \<open>C33: An upload record is tied to the exact binary: the one stanza names its source, version, name and architecture, and
  exactly one row of its checksum table names a file of this digest and size; the urgency is one of the five or
  absent, and nothing is claimed to be verified.\<close>

theorem upload_tied_to_binary:
  assumes "upload_metadata raw control h n = Inr v"
  shows "\<exists>stanza line source version. deb822 MAX_METADATA 1 raw = Inr [stanza] \<and> source_identity control = Inr (source, version)
     \<and> map_of stanza (u ''version'') = map_of control (u ''version'') \<and> get_or control ''package'' [] \<in> set (words (get_or stanza ''binary'' []))
     \<and> map_of control (u ''architecture'') \<in> Some ` set (words (get_or stanza ''architecture'' []))
     \<and> filter (names_artifact h n) (splitlines (get_or stanza ''checksums-sha256'' [])) = [line] \<and> field v ''artifact_filename'' = PStr (words line ! 2)
     \<and> field v ''urgency'' \<in> insert PNone (PStr ` set URGENCIES) \<and> field v ''signature_verified'' = PBool False \<and> field v ''vulnerability_severity'' = PNone"
proof -
  from assms obtain paragraphs where para: "deb822 MAX_METADATA 1 raw = Inr paragraphs" by (auto simp: upload_metadata_def bindE_eq_Inr)
  with assms obtain stanza where stanza: "paragraphs = [stanza]" by (auto simp: upload_metadata_def bindE_eq_Inr split: list.splits)
  with assms para obtain source version names matched where s: "source_identity control = Inr (source, version)" and c: "upload_checks stanza control (source, version) = Inr ()"
    and f: "foldE (checksum_line h n) ([], []) (splitlines (get_or stanza ''checksums-sha256'' [])) = Inr (names, matched)" and r: "upload_record raw stanza matched = Inr v"
    by (auto simp: upload_metadata_def bindE_eq_Inr split: if_splits)
  have conds: "map_of stanza (u ''version'') = map_of control (u ''version'')" "get_or control ''package'' [] \<in> set (words (get_or stanza ''binary'' []))"
     "map_of control (u ''architecture'') \<in> Some ` set (words (get_or stanza ''architecture'' []))"
    using c by (simp_all add: upload_checks_def split: if_splits)
  from r obtain name urgency where matched: "matched = [name]" and ur: "urgency_of (map_of stanza (u ''urgency'')) = Inr urgency"
    and v: "field v ''artifact_filename'' = PStr name" "field v ''urgency'' = str_or_none urgency" "field v ''signature_verified'' = PBool False"
      "field v ''vulnerability_severity'' = PNone"
    by (auto simp: upload_record_def bindE_eq_Inr field_def split: list.splits)
  have "str_or_none urgency \<in> insert PNone (PStr ` set URGENCIES)"
    using ur by (auto simp: urgency_of_def str_or_none_def Let_def split: option.splits if_splits)
  moreover from checksum_lines_ok [OF f] matched obtain line
    where "filter (names_artifact h n) (splitlines (get_or stanza ''checksums-sha256'' [])) = [line]" "words line ! 2 = name"
    by (auto simp: map_eq_Cons_conv)
  ultimately show ?thesis using para stanza s conds v by metis
qed

definition example_changes :: pybytes where
  "example_changes = bs ''Format: 1.8'' @ [10] @ bs ''Source: bash'' @ [10] @ bs ''Version: 5.2-1'' @ [10] @ bs ''Binary: bash'' @ [10]
     @ bs ''Architecture: amd64'' @ [10] @ bs ''Urgency: High'' @ [10] @ bs ''Checksums-Sha256:'' @ [10] @ bs '' '' @ replicate 64 49 @ bs '' 1 bash.deb'' @ [10]"

definition example_control :: stanza where
  "example_control = [(u ''package'', u ''bash''), (u ''version'', u ''5.2-1''), (u ''architecture'', u ''amd64'')]"

definition example_stanza :: stanza where
  "example_stanza = [(u ''format'', u ''1.8''), (u ''source'', u ''bash''), (u ''version'', u ''5.2-1''), (u ''binary'', u ''bash''), (u ''architecture'', u ''amd64''),
     (u ''urgency'', u ''High''), (u ''checksums-sha256'', [10] @ replicate 64 49 @ u '' 1 bash.deb'')]"

lemma example_upload: "\<exists>v. upload_metadata example_changes example_control (replicate 64 49) 1 = Inr v \<and> field v ''urgency'' = PStr (u ''high'')"
proof -
  have d: "deb822 MAX_METADATA 1 example_changes = Inr [example_stanza]" by code_simp
  have h: "digest_str (replicate 64 49) = Inr (replicate 64 49)" by code_simp
  have f: "map_of example_stanza (u ''format'') = Some (u ''1.8'')" by code_simp
  have s: "source_identity example_control = Inr (u ''bash'', u ''5.2-1'')" by code_simp
  have c: "upload_checks example_stanza example_control (u ''bash'', u ''5.2-1'') = Inr ()" by code_simp
  have r: "foldE (checksum_line (replicate 64 49) 1) ([], []) (splitlines (get_or example_stanza ''checksums-sha256'' [])) = Inr ([u ''bash.deb''], [u ''bash.deb''])"
    by code_simp
  have g: "urgency_of (map_of example_stanza (u ''urgency'')) = Inr (Some (u ''high''))" by code_simp
  show ?thesis unfolding upload_metadata_def d h bindE.simps list.case f s c r prod.case
    by (simp add: upload_record_def g field_def str_or_none_def)
qed

theorem upload_tied_to_binary_witness:
  "\<exists>v. upload_metadata example_changes example_control (replicate 64 49) 1 = Inr v \<and> field v ''urgency'' = PStr (u ''high'') \<and> field v ''signature_verified'' = PBool False"
proof -
  obtain v where v: "upload_metadata example_changes example_control (replicate 64 49) 1 = Inr v" "field v ''urgency'' = PStr (u ''high'')"
    using example_upload by blast
  from upload_tied_to_binary [OF v(1)] v show ?thesis by blast
qed

end
