(* ===== verification/Management_Result.thy ===== *)
theory Management_Result
  imports Plan_Consent
begin

text \<open>
  \<open>native/management_result.py\<close>: one sealed result of a read-only query, as the privileged side sends it and the
  client reads it. The sealed file, its reading and the writing loop are those of \<open>Plan_Consent\<close>.
  \<open>UnicodeEncodeError\<close> is the \<open>ValueError\<close> it derives from.
\<close>

definition RESULT_MAGIC :: pybytes where
  "RESULT_MAGIC = bs ''NIAQRSL1''"

definition RESULT_LIMIT :: int where
  "RESULT_LIMIT = 64 * 1024 * 1024"

definition read_result :: "(nat \<Rightarrow> bool) \<Rightarrow> sealed_file \<Rightarrow> pybytes \<Rightarrow> pystr res" where
  "read_result control f wire' =
     (if length wire' \<noteq> 96 \<or> take 8 wire' \<noteq> RESULT_MAGIC \<or> \<not> list_ex (\<lambda>b. b \<noteq> 0) (slice 8 24 wire')
         \<or> \<not> list_ex (\<lambda>b. b \<noteq> 0) (slice 24 56 wire') \<or> \<not> list_ex (\<lambda>b. b \<noteq> 0) (slice 56 88 wire')
      then rejected ''management-query-result-format''
      else read_sealed_text control f (be_int (slice 88 96 wire')) (slice 56 88 wire') RESULT_LIMIT)"

definition result_wire :: "pybytes \<Rightarrow> pybytes \<Rightarrow> pybytes \<Rightarrow> pybytes" where
  "result_wire request' descriptor raw = RESULT_MAGIC @ request' @ sha256 descriptor @ sha256 raw @ be64 (int (length raw))"

record result_answers =
  q_uid :: int
  q_euid :: int
  q_memfd :: "int res"
  q_write :: "nat \<Rightarrow> int res"
  q_seal :: "unit res"
  q_sent :: "int res"
  q_close :: "unit res"

text \<open>The body after the memory file exists; the file is closed whatever happens.\<close>

definition send_body :: "result_answers \<Rightarrow> pybytes \<Rightarrow> pybytes \<Rightarrow> unit res" where
  "send_body a raw wire' =
     bindE (write_loop (q_write a) ''management-query-result-write'' 2048 0 (length raw) 0) (\<lambda>offset.
     if offset \<noteq> length raw then rejected ''management-query-result-write-budget''
     else bindE (q_seal a) (\<lambda>_. bindE (q_sent a) (\<lambda>n.
       if n \<noteq> int (length wire') then rejected ''management-query-result-delivery-indeterminate'' else Inr ())))"

definition send_result :: "(nat \<Rightarrow> bool) \<Rightarrow> result_answers \<Rightarrow> pybytes \<Rightarrow> pybytes \<Rightarrow> pystr \<Rightarrow> unit res" where
  "send_result control a request' descriptor tx =
     (if q_uid a \<noteq> 0 \<or> q_euid a \<noteq> 0 \<or> \<not> identity_bytes 16 request' \<or> length descriptor \<noteq> 192 then rejected ''management-query-result-context''
      else case utf8_encode tx of
        None \<Rightarrow> Inl ValueError
      | Some raw \<Rightarrow>
          bindE (presentation_text control RESULT_LIMIT raw) (\<lambda>_.
          bindE (q_memfd a) (\<lambda>_.
          case send_body a raw (result_wire request' descriptor raw) of
            r \<Rightarrow> (case q_close a of Inl e \<Rightarrow> Inl e | Inr _ \<Rightarrow> r))))"

section \<open>What is sent is what is read\<close>

text \<open>A text that was sent is read back: from the message the sender makes of it and a sealed file that holds it, the
  reader returns exactly the text. (The reader refuses an all-zero digest, which no known text has.)\<close>

theorem result_roundtrip:
  assumes "send_result control a request' descriptor tx = Inr ()" "utf8_encode tx = Some raw"
    and "f_regular f" "f_uid f = 0" "f_nlink f = 0" "f_size f = int (length raw)" "(f_seals f AND SEALS) = SEALS" "f_pread f = full_pread raw"
  shows "read_result control f (result_wire request' descriptor raw) =
    (if identity_bytes 32 (sha256 descriptor) \<and> identity_bytes 32 (sha256 raw) then Inr tx else rejected ''management-query-result-format'')"
proof -
  from assms(1,2) obtain shown where shown: "presentation_text control RESULT_LIMIT raw = Inr shown" and req: "identity_bytes 16 request'"
    by (auto simp: send_result_def bindE_eq_Inr split: if_splits)
  from shown have len: "0 < length raw" "int (length raw) \<le> RESULT_LIMIT" by (auto simp: presentation_text_def split: if_splits)
  have dec: "utf8_decode raw = Some tx" using utf8_decode_encode [OF assms(2)] .
  with shown have tx: "presentation_text control RESULT_LIMIT raw = Inr tx" by (auto simp: presentation_text_def split: if_splits)
  have len': "length request' = 16" "length RESULT_MAGIC = 8" using req by (simp_all add: identity_bytes_def RESULT_MAGIC_def)
  have num: "be_int (be64 (int (length raw))) = int (length raw)" using len by (intro be_int_be64) (simp_all add: RESULT_LIMIT_def)
  define w where "w = result_wire request' descriptor raw"
  have parts: "length w = 96" "take 8 w = RESULT_MAGIC" "slice 8 24 w = request'" "slice 24 56 w = sha256 descriptor" "slice 56 88 w = sha256 raw"
    "slice 88 96 w = be64 (int (length raw))"
    by (simp_all add: w_def result_wire_def slice_def len')
  have lim: "length raw \<le> 0 + 65536 * 1024" using len(2) by (simp add: RESULT_LIMIT_def)
  have sealed: "read_sealed_text control f (int (length raw)) (sha256 raw) RESULT_LIMIT = presentation_text control RESULT_LIMIT raw" if "identity_bytes 32 (sha256 raw)"
    using read_chunks_full [of "[]" 0 raw 1024 0, OF _ _ lim] assms(3-) len that by (simp add: read_sealed_text_def RESULT_LIMIT_def)
  show ?thesis
  proof (cases "identity_bytes 32 (sha256 descriptor) \<and> identity_bytes 32 (sha256 raw)")
    case True
    then show ?thesis using req tx sealed
      unfolding w_def [symmetric] by (simp add: read_result_def parts num identity_bytes_def)
  next
    case False
    then have "\<not> (list_ex (\<lambda>b. b \<noteq> 0) (sha256 descriptor) \<and> list_ex (\<lambda>b. b \<noteq> 0) (sha256 raw))" by (simp add: identity_bytes_def)
    then show ?thesis using False unfolding w_def [symmetric] by (auto simp: read_result_def parts)
  qed
qed

definition example_answers :: result_answers where
  "example_answers = \<lparr>q_uid = 0, q_euid = 0, q_memfd = Inr 7, q_write = (\<lambda>i. Inr 1), q_seal = Inr (), q_sent = Inr 96, q_close = Inr ()\<rparr>"

lemma example_send: "send_result (\<lambda>c. c < 32) example_answers (replicate 16 1) (replicate 192 2) (u ''a'') = Inr ()"
proof -
  have enc: "utf8_encode (u ''a'') = Some [97]" by code_simp
  have "utf8_decode [97] = Some [97]" by code_simp
  then have pres: "presentation_text (\<lambda>c. c < 32) RESULT_LIMIT [97] = Inr [97]" by (simp add: presentation_text_def RESULT_LIMIT_def)
  have "write_loop (\<lambda>i. Inr 1) ''management-query-result-write'' 2048 0 1 0 = Inr 1" by (simp add: numeral_eq_Suc)
  then show ?thesis
    by (simp add: send_result_def example_answers_def identity_replicate enc pres send_body_def result_wire_def RESULT_MAGIC_def)
qed

theorem result_roundtrip_witness:
  "read_result (\<lambda>c. c < 32) example_file (result_wire (replicate 16 1) (replicate 192 2) [97]) \<in> {Inr (u ''a''), rejected ''management-query-result-format''}"
proof -
  have enc: "utf8_encode (u ''a'') = Some [97]" by code_simp
  have "(31 :: int) AND 15 = 15" by simp
  then show ?thesis
    using result_roundtrip [OF example_send enc, of example_file]
    by (simp add: example_file_def example_content_def SEALS_def)
qed

end
