(* ===== verification/Catalog_Query.thy ===== *)
theory Catalog_Query
  imports Supply_Initialize Native_Helper Native_Observer
begin

text \<open>
  \<open>native/catalog_query.py\<close>: the query of the installed catalogue through one native process. The layout
  file, the frame the process writes, and the loop that reads it until the process has ended well. The
  answers of the operating system are arguments. \<open>json.loads\<close> is the strict reader of \<open>Py_Json\<close>: a
  float or a repeated key, which the library would return and the comparison with the canonical form then
  refuse, is refused while reading.
\<close>

definition QUERY_CONFIG :: pystr where
  "QUERY_CONFIG = u ''/etc/niaos/package-query.json''"

definition LIMIT :: nat where
  "LIMIT = 64 * 1024 * 1024"

record package =
  p_original :: pybytes
  p_name :: pystr
  p_version :: pystr
  p_architecture :: pystr
  p_essential :: bool
  p_protected :: bool
  p_kib :: "int option"

record snapshot =
  s_descriptor :: pybytes
  s_generation :: int
  s_started :: int
  s_finished :: int
  s_packages :: "package list"

section \<open>The layout\<close>

definition layout_path :: "pyval \<Rightarrow> pystr res" where
  "layout_path v = (case v of
       PStr path \<Rightarrow>
         if \<not> startswith path [47] \<or> length path > 4096 \<or> length (split_on 47 path) > 128
             \<or> list_ex (\<lambda>p. p \<in> {[], u ''.'', u ''..''}) (tl (split_on 47 path)) \<or> list_ex (\<lambda>c. c < 32 \<or> c = 127) path
         then rejected ''catalog-layout-path'' else Inr path
     | _ \<Rightarrow> rejected ''catalog-layout-path'')"

fun hex_bytes :: "pystr \<Rightarrow> pybytes" where
  "hex_bytes (a # b # s) = word_of_nat (16 * the (hex_value a) + the (hex_value b)) # hex_bytes s"
| "hex_bytes s = []"

definition layout :: "nat \<Rightarrow> machine \<Rightarrow> (pystr \<times> pystr \<times> pystr \<times> pybytes) res" where
  "layout depth m =
     bindE (protected_bytes m QUERY_CONFIG 16384) (\<lambda>raw.
     bindE (case utf8_decode raw of None \<Rightarrow> Inl UnicodeDecodeError | Some s \<Rightarrow> loads depth s) (\<lambda>value.
     if \<not> is_dict value then rejected ''catalog-layout-object''
     else if set (dict_keys value) \<noteq> set (map u [''version'', ''root'', ''state'', ''store'', ''root_id'']) \<or> field value ''version'' \<noteq> PInt 1
         \<or> canonical value @ [10] \<noteq> raw
     then rejected ''catalog-layout-format''
     else bindE (mapE (\<lambda>k. layout_path (field value k)) [''root'', ''state'', ''store'']) (\<lambda>paths.
       if \<not> distinct paths then rejected ''catalog-layout-overlap''
       else case field value ''root_id'' of
         PStr i \<Rightarrow> if \<not> identity_text i then rejected ''catalog-layout-root'' else Inr (paths ! 0, paths ! 1, paths ! 2, hex_bytes i)
       | _ \<Rightarrow> rejected ''catalog-layout-root'')))"

section \<open>The frame\<close>

definition some_byte :: "pybytes \<Rightarrow> bool" where
  "some_byte b \<longleftrightarrow> list_ex (\<lambda>x. x \<noteq> 0) b"

definition descriptor_ok :: "pybytes \<Rightarrow> pybytes \<Rightarrow> bool" where
  "descriptor_ok root d \<longleftrightarrow>
     (let generation = be_int (slice 104 112 d) in
      take 8 d = bs ''NIAPUB01'' \<and> slice 8 24 d = root \<and> some_byte (slice 24 40 d) \<and> slice 24 40 d \<noteq> root \<and> some_byte (slice 40 72 d)
      \<and> some_byte (slice 72 104 d) \<and> 0 < generation \<and> generation \<le> 2 ^ 63 - 1 \<and> ((generation = 1) = (\<not> some_byte (slice 112 144 d)))
      \<and> \<not> some_byte (slice 144 160 d) \<and> sha256 (take 160 d) = drop 160 d)"

definition read_field :: "pybytes \<Rightarrow> (pystr \<times> pybytes) res" where
  "read_field rest =
     (if length rest < 2 then rejected ''catalog-query-short-field''
      else let n = from_be (take 2 rest); body = drop 2 rest in
        if n = 0 \<or> n > 4096 \<or> n > length body then rejected ''catalog-query-field-size''
        else case ascii_decode (take n body) of
          None \<Rightarrow> Inl UnicodeDecodeError
        | Some tx \<Rightarrow> if list_ex (\<lambda>c. c < 33 \<or> c > 126) tx then rejected ''catalog-query-field-control'' else Inr (tx, drop n body))"

text \<open>The loop over the rows: the bytes left, the digest before, and the packages so far.\<close>

definition read_row :: "pybytes \<times> pybytes \<times> package list \<Rightarrow> (pybytes \<times> pybytes \<times> package list) res" where
  "read_row = (\<lambda>(rest, previous, packages).
     if length rest < 48 then rejected ''catalog-query-short-row''
     else let original = take 32 rest; kib = be_int (slice 32 40 rest); flags = slice 40 43 rest in
       if original \<le> previous \<or> list_ex (\<lambda>v. v \<noteq> 0 \<and> v \<noteq> 1) flags \<or> some_byte (slice 43 48 rest) \<or> kib > 2 ^ 63 - 1 \<or> (flags ! 2 = 0 \<and> kib \<noteq> 0)
       then rejected ''catalog-query-row''
       else bindE (read_field (drop 48 rest)) (\<lambda>(name, rest1). bindE (read_field rest1) (\<lambda>(version, rest2). bindE (read_field rest2) (\<lambda>(architecture, rest3).
         if (name, architecture) \<in> set (map (\<lambda>p. (p_name p, p_architecture p)) packages) then rejected ''catalog-query-duplicate-package''
         else Inr (rest3, original, packages @ [\<lparr>p_original = original, p_name = name, p_version = version, p_architecture = architecture,
           p_essential = (flags ! 0 \<noteq> 0), p_protected = (flags ! 1 \<noteq> 0), p_kib = (if flags ! 2 \<noteq> 0 then Some kib else None)\<rparr>])))))"

fun read_rows :: "nat \<Rightarrow> pybytes \<times> pybytes \<times> package list \<Rightarrow> (pybytes \<times> pybytes \<times> package list) res" where
  "read_rows 0 st = Inr st"
| "read_rows (Suc n) st = bindE (read_row st) (read_rows n)"

definition decode :: "pybytes \<Rightarrow> pybytes \<Rightarrow> int \<Rightarrow> int \<Rightarrow> int \<Rightarrow> snapshot res" where
  "decode raw root started deadline now =
     (if \<not> (224 \<le> length raw \<and> length raw \<le> LIMIT) \<or> take 8 raw \<noteq> bs ''NIAQRY01'' then rejected ''catalog-query-frame''
      else let d = slice 8 200 raw in
        if \<not> descriptor_ok root d then rejected ''catalog-query-descriptor''
        else let begun = be_int (slice 200 208 raw); ended = be_int (slice 208 216 raw); count = be_int (slice 216 224 raw) in
          if \<not> (started \<le> begun \<and> begun \<le> ended \<and> ended < deadline) \<or> ended > now \<or> count > 4096 then rejected ''catalog-query-clock-or-count''
          else bindE (read_rows (nat count) (drop 224 raw, replicate 32 0, [])) (\<lambda>(rest, _, packages).
            if rest \<noteq> [] then rejected ''catalog-query-trailing-data''
            else Inr \<lparr>s_descriptor = d, s_generation = be_int (slice 104 112 d), s_started = begun, s_finished = ended, s_packages = packages\<rparr>))"

section \<open>The query\<close>

datatype watched = Peer | PeerProcess | Child | Output

text \<open>
  One turn of the loop: the clock, the events of the poll (each with whether \<open>POLLNVAL\<close> is set), what a read
  returns, and what \<open>os.waitid\<close> returns: nothing yet, or whether the child exited and its status.
\<close>

record turn =
  t_now :: int
  t_events :: "(watched \<times> bool) list"
  t_read :: "pybytes res"
  t_wait :: "(bool \<times> int) option res"

definition take_output :: "turn \<Rightarrow> pybytes \<times> bool \<Rightarrow> (pybytes \<times> bool) res" where
  "take_output t = (\<lambda>(raw, eof).
     if \<not> eof \<and> list_ex (\<lambda>(fd, _). fd = Output) (t_events t) then
       bindE (t_read t) (\<lambda>answer. let data = take (min 65536 (LIMIT + 1 - length raw)) answer in
         if data = [] then Inr (raw, True)
         else if length (raw @ data) > LIMIT then rejected ''catalog-query-output-limit'' else Inr (raw @ data, eof))
     else Inr (raw, eof))"

definition check_exit :: "turn \<Rightarrow> bool \<Rightarrow> bool res" where
  "check_exit t eof =
     (if \<not> eof then Inr False
      else bindE (t_wait t) (\<lambda>result. case result of
        None \<Rightarrow> Inr False
      | Some (exited, status) \<Rightarrow> if \<not> exited \<or> status \<noteq> 0 then rejected ''catalog-query-native-refused'' else Inr True))"

text \<open>The output of the process once it has ended well.\<close>

fun collect :: "nat \<Rightarrow> (nat \<Rightarrow> turn) \<Rightarrow> nat \<Rightarrow> int \<Rightarrow> pybytes \<times> bool \<Rightarrow> pybytes res" where
  "collect 0 turns i deadline st = rejected ''catalog-query-event-budget''"
| "collect (Suc fuel) turns i deadline st =
     (if t_now (turns i) \<ge> deadline then rejected ''catalog-query-deadline''
      else if list_ex (\<lambda>(fd, nval). fd \<in> {Peer, PeerProcess} \<or> nval) (t_events (turns i)) then rejected ''catalog-query-cancelled''
      else bindE (take_output (turns i) st) (\<lambda>(raw, eof). bindE (check_exit (turns i) eof) (\<lambda>ended.
        if ended then Inr raw else collect fuel turns (Suc i) deadline (raw, eof))))"

record query_answers =
  k_uid :: int
  k_euid :: int
  k_started :: int
  k_machine :: machine
  k_account :: "(int \<times> int) res"
  k_peer :: "unit res"
  k_tree :: tree
  k_spawn :: "unit res"
  k_pidfd :: "unit res"
  k_turn :: "nat \<Rightarrow> turn"
  k_now :: int
  k_waitid :: "unit res"
  k_killpg :: "unit res"
  k_wait :: "unit res"
  k_stdout :: "unit res"
  k_close_child :: "unit res"
  k_close_peer :: "unit res"

text \<open>The failures of the cleanup, by how far the body had come: the peer's process, the child, the child's process descriptor.\<close>

definition cleanup :: "query_answers \<Rightarrow> bool \<Rightarrow> bool \<Rightarrow> bool \<Rightarrow> exn list" where
  "cleanup k peer child pid = failures ((if child then [reap (k_waitid k) (k_killpg k) (k_wait k), k_stdout k] else [])
     @ (if pid then [k_close_child k] else []) @ (if peer then [k_close_peer k] else []))"

definition query_body :: "query_answers \<Rightarrow> pybytes \<Rightarrow> int \<Rightarrow> snapshot res" where
  "query_body k identity deadline =
     bindE (k_peer k) (\<lambda>_. bindE (executable (k_tree k) (u ''pkg_catalog_query'')) (\<lambda>_. bindE (k_spawn k) (\<lambda>_. bindE (k_pidfd k) (\<lambda>_.
     bindE (collect 16384 (k_turn k) 0 deadline ([], False)) (\<lambda>raw. decode raw identity (k_started k) deadline (k_now k))))))"

definition query :: "nat \<Rightarrow> query_answers \<Rightarrow> int \<Rightarrow> snapshot res" where
  "query depth k deadline =
     (if k_uid k \<noteq> 0 \<or> k_euid k \<noteq> 0 \<or> \<not> (0 < deadline - k_started k \<and> deadline - k_started k \<le> 120000) then rejected ''catalog-query-context''
      else bindE (layout depth (k_machine k)) (\<lambda>(root, state, store, identity).
      bindE (k_account k) (\<lambda>(uid, gid).
      if uid \<le> 0 \<or> gid \<le> 0 then rejected ''catalog-query-account''
      else let peer = is_ok (k_peer k); child = peer \<and> is_ok (executable (k_tree k) (u ''pkg_catalog_query'')) \<and> is_ok (k_spawn k); pid = child \<and> is_ok (k_pidfd k) in
        bindE (close_group ''catalog-query-cleanup-indeterminate'' (cleanup k peer child pid)) (\<lambda>_. query_body k identity deadline))))"

section \<open>The frame a snapshot has\<close>

definition printable :: "pystr \<Rightarrow> bool" where
  "printable s \<longleftrightarrow> s \<noteq> [] \<and> length s \<le> 4096 \<and> (\<forall>c \<in> set s. 33 \<le> c \<and> c \<le> 126)"

definition field_bytes :: "pystr \<Rightarrow> pybytes" where
  "field_bytes s = to_be 2 (length s) @ ascii_encode s"

definition flag :: "bool \<Rightarrow> byte" where
  "flag b = (if b then 1 else 0)"

definition package_bytes :: "package \<Rightarrow> pybytes" where
  "package_bytes p = p_original p @ be64 (case p_kib p of None \<Rightarrow> 0 | Some k \<Rightarrow> k) @ [flag (p_essential p), flag (p_protected p), flag (p_kib p \<noteq> None)]
     @ replicate 5 0 @ field_bytes (p_name p) @ field_bytes (p_version p) @ field_bytes (p_architecture p)"

definition package_ok :: "package \<Rightarrow> bool" where
  "package_ok p \<longleftrightarrow> length (p_original p) = 32 \<and> printable (p_name p) \<and> printable (p_version p) \<and> printable (p_architecture p)
     \<and> (\<forall>k. p_kib p = Some k \<longrightarrow> 0 \<le> k \<and> k < 2 ^ 63)"

definition package_key :: "package \<Rightarrow> pystr \<times> pystr" where
  "package_key p = (p_name p, p_architecture p)"

definition snapshot_bytes :: "snapshot \<Rightarrow> pybytes" where
  "snapshot_bytes s = bs ''NIAQRY01'' @ s_descriptor s @ be64 (s_started s) @ be64 (s_finished s) @ be64 (int (length (s_packages s)))
     @ concat (map package_bytes (s_packages s))"

lemma ascii_encode_decode: "ascii_decode b = Some s \<Longrightarrow> ascii_encode s = b"
  by (auto simp: ascii_decode_def ascii_encode_def comp_def split: if_splits)

lemma read_field_ok:
  assumes "read_field rest = Inr (s, r)"
  shows "rest = field_bytes s @ r \<and> printable s"
proof -
  define n where "n = from_be (take 2 rest)"
  from assms have a: "2 \<le> length rest" "n \<noteq> 0" "n \<le> 4096" "n \<le> length (drop 2 rest)" "ascii_decode (take n (drop 2 rest)) = Some s"
     "\<not> list_ex (\<lambda>c. c < 33 \<or> c > 126) s" "r = drop n (drop 2 rest)"
    by (auto simp: read_field_def Let_def n_def [symmetric] split: if_splits option.splits)
  have enc: "ascii_encode s = take n (drop 2 rest)" by (rule ascii_encode_decode [OF a(5)])
  have len: "length s = n" using arg_cong [OF enc, of length] a(4) by (simp add: ascii_encode_def)
  have two: "to_be 2 n = take 2 rest" using a(1) unfolding n_def by (simp add: to_from_be)
  have "field_bytes s @ r = take 2 rest @ take n (drop 2 rest) @ drop n (drop 2 rest)" by (simp add: field_bytes_def len two enc a(7))
  also have "\<dots> = rest" by (simp only: append_take_drop_id)
  finally show ?thesis using a(2,3,6) len by (auto simp: printable_def list_ex_iff not_less)
qed

lemma three_flags:
  assumes "length fs = 3" "\<not> list_ex (\<lambda>v. v \<noteq> 0 \<and> v \<noteq> (1 :: byte)) fs"
  shows "fs = [flag (fs ! 0 \<noteq> 0), flag (fs ! 1 \<noteq> 0), flag (fs ! 2 \<noteq> 0)]"
proof -
  from assms(1) obtain a b c where "fs = [a, b, c]" by (auto simp: length_Suc_conv numeral_eq_Suc)
  with assms(2) show ?thesis by (auto simp: flag_def)
qed

lemma all_zero: "\<not> some_byte b \<Longrightarrow> b = replicate (length b) 0"
  using replicate_length_same [of b 0] by (simp add: some_byte_def list_ex_iff)

lemma read_row_ok:
  assumes "read_row (rest, previous, packages) = Inr (rest', previous', packages')"
  shows "\<exists>p. packages' = packages @ [p] \<and> rest = package_bytes p @ rest' \<and> previous' = p_original p \<and> previous < p_original p \<and> package_ok p
    \<and> package_key p \<notin> set (map package_key packages)"
proof -
  define original where "original = take 32 rest"
  define kib where "kib = be_int (slice 32 40 rest)"
  define flags where "flags = slice 40 43 rest"
  from assms have a: "48 \<le> length rest" "previous < original" "\<not> list_ex (\<lambda>v. v \<noteq> 0 \<and> v \<noteq> 1) flags" "\<not> some_byte (slice 43 48 rest)" "kib \<le> 2 ^ 63 - 1"
      "flags ! 2 \<noteq> 0 \<or> kib = 0"
    by (auto simp: read_row_def Let_def original_def [symmetric] kib_def [symmetric] flags_def [symmetric] split: if_splits)
  from assms obtain name rest1 version rest2 architecture where f: "read_field (drop 48 rest) = Inr (name, rest1)" "read_field rest1 = Inr (version, rest2)"
      "read_field rest2 = Inr (architecture, rest')" "(name, architecture) \<notin> set (map (\<lambda>p. (p_name p, p_architecture p)) packages)" "previous' = original"
      "packages' = packages @ [\<lparr>p_original = original, p_name = name, p_version = version, p_architecture = architecture,
           p_essential = (flags ! 0 \<noteq> 0), p_protected = (flags ! 1 \<noteq> 0), p_kib = (if flags ! 2 \<noteq> 0 then Some kib else None)\<rparr>]"
    by (auto simp: read_row_def Let_def original_def [symmetric] kib_def [symmetric] flags_def [symmetric] bindE_eq_Inr simp del: set_map split: if_splits)
  define p where "p = \<lparr>p_original = original, p_name = name, p_version = version, p_architecture = architecture,
           p_essential = (flags ! 0 \<noteq> 0), p_protected = (flags ! 1 \<noteq> 0), p_kib = (if flags ! 2 \<noteq> 0 then Some kib else None)\<rparr>"
  have len: "length original = 32" "length (slice 32 40 rest) = 8" "length flags = 3" "length (slice 43 48 rest) = 5"
    using a(1) by (simp_all add: original_def flags_def)
  have kb: "be64 kib = slice 32 40 rest" "0 \<le> kib" unfolding kib_def using len(2) be64_be_int be_int_bounds by auto
  have kp: "(case p_kib p of None \<Rightarrow> 0 | Some k \<Rightarrow> k) = kib" using a(6) by (auto simp: p_def)
  have fl: "[flag (p_essential p), flag (p_protected p), flag (p_kib p \<noteq> None)] = flags"
  proof -
    have "p_essential p = (flags ! 0 \<noteq> 0)" "p_protected p = (flags ! 1 \<noteq> 0)" "(p_kib p \<noteq> None) = (flags ! 2 \<noteq> 0)" by (simp_all add: p_def)
    then show ?thesis by (simp only:) (rule three_flags [OF len(3) a(3), symmetric])
  qed
  have zeros: "replicate 5 0 = slice 43 48 rest" using all_zero [OF a(4)] len(4) by simp
  have "package_bytes p = original @ slice 32 40 rest @ flags @ slice 43 48 rest @ field_bytes name @ field_bytes version @ field_bytes architecture"
    unfolding package_bytes_def kp kb fl zeros by (simp add: p_def)
  moreover have "drop 48 rest = field_bytes name @ field_bytes version @ field_bytes architecture @ rest'"
    using read_field_ok [OF f(1)] read_field_ok [OF f(2)] read_field_ok [OF f(3)] by simp
  moreover have "rest = original @ slice 32 40 rest @ flags @ slice 43 48 rest @ drop 48 rest"
  proof -
    have "drop 43 rest = slice 43 48 rest @ drop 48 rest" using append_take_drop_id [of 5 "drop 43 rest"] by (simp add: slice_def drop_take)
    moreover have "drop 40 rest = flags @ drop 43 rest" using append_take_drop_id [of 3 "drop 40 rest"] by (simp add: flags_def slice_def drop_take)
    moreover have "drop 32 rest = slice 32 40 rest @ drop 40 rest" using append_take_drop_id [of 8 "drop 32 rest"] by (simp add: slice_def drop_take)
    ultimately show ?thesis using append_take_drop_id [of 32 rest] by (simp add: original_def)
  qed
  ultimately have "rest = package_bytes p @ rest'" by simp
  moreover have "package_ok p" using len(1) read_field_ok [OF f(1)] read_field_ok [OF f(2)] read_field_ok [OF f(3)] a(5) kb(2)
    by (auto simp: package_ok_def p_def)
  moreover have "package_key p \<notin> set (map package_key packages)" using f(4) by (auto simp: package_key_def p_def)
  ultimately show ?thesis using f(5,6) a(2) by (intro exI [of _ p]) (simp add: p_def)
qed

lemma read_rows_ok:
  assumes "read_rows n (rest, previous, packages) = Inr (rest', previous', packages')" "distinct (map package_key packages)"
  shows "\<exists>qs. length qs = n \<and> packages' = packages @ qs \<and> rest = concat (map package_bytes qs) @ rest' \<and> list_all package_ok qs
    \<and> sorted_wrt (<) (previous # map p_original qs) \<and> distinct (map package_key packages')"
  using assms
proof (induction n arbitrary: rest previous packages)
  case (Suc n)
  from Suc.prems(1) obtain rest1 previous1 packages1 where 1: "read_row (rest, previous, packages) = Inr (rest1, previous1, packages1)"
    and 2: "read_rows n (rest1, previous1, packages1) = Inr (rest', previous', packages')" by (auto simp: bindE_eq_Inr)
  from read_row_ok [OF 1] obtain p where p: "packages1 = packages @ [p]" "rest = package_bytes p @ rest1" "previous1 = p_original p" "previous < p_original p"
    "package_ok p" "package_key p \<notin> set (map package_key packages)" by blast
  have "distinct (map package_key packages1)" using Suc.prems(2) p(1,6) by simp
  from Suc.IH [OF 2 this] obtain qs where q: "length qs = n" "packages' = packages1 @ qs" "rest1 = concat (map package_bytes qs) @ rest'" "list_all package_ok qs"
    "sorted_wrt (<) (previous1 # map p_original qs)" "distinct (map package_key packages')" by blast
  have "sorted_wrt (<) (previous # map p_original (p # qs))" using q(5) p(3,4) by (auto intro: less_trans)
  then show ?case using p q by (intro exI [of _ "p # qs"]) simp
qed simp

text \<open>C34: A frame that decodes is the frame of its snapshot, byte for byte, so no two frames decode to the same
  snapshot; its packages are well-formed, in strictly increasing order of their digests and unique by name and
  architecture, and the times lie between the start of the query, the clock and the deadline.\<close>

theorem catalog_frame_exact:
  assumes "decode raw root started deadline now = Inr s"
  shows "snapshot_bytes s = raw \<and> descriptor_ok root (s_descriptor s) \<and> list_all package_ok (s_packages s) \<and> length (s_packages s) \<le> 4096
    \<and> sorted_wrt (<) (map p_original (s_packages s)) \<and> distinct (map package_key (s_packages s))
    \<and> started \<le> s_started s \<and> s_started s \<le> s_finished s \<and> s_finished s < deadline \<and> s_finished s \<le> now"
proof -
  define d where "d = slice 8 200 raw"
  define begun where "begun = be_int (slice 200 208 raw)"
  define ended where "ended = be_int (slice 208 216 raw)"
  define count where "count = be_int (slice 216 224 raw)"
  note defs = d_def [symmetric] begun_def [symmetric] ended_def [symmetric] count_def [symmetric]
  from assms obtain previous packages where a: "224 \<le> length raw" "take 8 raw = bs ''NIAQRY01''" "descriptor_ok root d" "started \<le> begun" "begun \<le> ended"
     "ended < deadline" "ended \<le> now" "count \<le> 4096" and rows: "read_rows (nat count) (drop 224 raw, replicate 32 0, []) = Inr ([], previous, packages)"
     and s: "s = \<lparr>s_descriptor = d, s_generation = be_int (slice 104 112 d), s_started = begun, s_finished = ended, s_packages = packages\<rparr>"
    unfolding decode_def Let_def defs by (auto simp: bindE_eq_Inr split: if_splits)
  from read_rows_ok [OF rows] have q: "length packages = nat count" "drop 224 raw = concat (map package_bytes packages)" "list_all package_ok packages"
    "sorted_wrt (<) (map p_original packages)" "distinct (map package_key packages)" by auto
  have len: "length (slice 200 208 raw) = 8" "length (slice 208 216 raw) = 8" "length (slice 216 224 raw) = 8" using a(1) by simp_all
  have num: "be64 begun = slice 200 208 raw" "be64 ended = slice 208 216 raw" "be64 count = slice 216 224 raw" "0 \<le> count"
    unfolding begun_def ended_def count_def using len be64_be_int be_int_bounds by auto
  have cnt: "int (length packages) = count" using q(1) num(4) by simp
  have parts: "drop 216 raw = slice 216 224 raw @ drop 224 raw" "drop 208 raw = slice 208 216 raw @ drop 216 raw" "drop 200 raw = slice 200 208 raw @ drop 208 raw"
     "drop 8 raw = d @ drop 200 raw"
    using append_take_drop_id [of 8 "drop 216 raw"] append_take_drop_id [of 8 "drop 208 raw"] append_take_drop_id [of 8 "drop 200 raw"]
      append_take_drop_id [of 192 "drop 8 raw"] by (simp_all add: slice_def d_def drop_take)
  have "snapshot_bytes s = take 8 raw @ drop 8 raw"
    unfolding parts snapshot_bytes_def s by (simp add: a(2) num cnt q(2))
  then have "snapshot_bytes s = raw" by simp
  then show ?thesis using a q cnt by (simp add: s)
qed

section \<open>The query\<close>

text \<open>A turn that neither the peer, nor its process, nor the clock ends.\<close>

definition undisturbed :: "int \<Rightarrow> turn \<Rightarrow> bool" where
  "undisturbed deadline t \<longleftrightarrow> t_now t < deadline \<and> (\<forall>(fd, nval) \<in> set (t_events t). fd \<noteq> Peer \<and> fd \<noteq> PeerProcess \<and> \<not> nval)"

lemma take_output_limit: "take_output t (raw, eof) = Inr (raw', eof') \<Longrightarrow> length raw \<le> LIMIT \<Longrightarrow> length raw' \<le> LIMIT"
  by (auto simp: take_output_def bindE_eq_Inr Let_def split: if_splits)

lemma check_exit_True: "check_exit t eof = Inr True \<longleftrightarrow> eof \<and> t_wait t = Inr (Some (True, 0))"
  by (auto simp: check_exit_def bindE_eq_Inr split: option.splits if_splits)

text \<open>
  The specification of the output: \<open>chunks turns e cs\<close> says that in each of the first \<open>e\<close> turns, starting with none, an event of the
  output brought a non-empty answer, of which at most 64 KiB and at most one byte beyond the limit are taken, and no event brought
  nothing; and that in turn \<open>e\<close> an event of the output brought the end of the file.
\<close>

definition readable :: "turn \<Rightarrow> bool" where
  "readable t \<longleftrightarrow> Output \<in> fst ` set (t_events t)"

definition chunks :: "(nat \<Rightarrow> turn) \<Rightarrow> nat \<Rightarrow> pybytes list \<Rightarrow> bool" where
  "chunks turns e cs \<longleftrightarrow> length cs = e \<and> readable (turns e) \<and> t_read (turns e) = Inr []
     \<and> (\<forall>m < e. if readable (turns m)
          then \<exists>answer. t_read (turns m) = Inr answer \<and> answer \<noteq> [] \<and> cs ! m = take (min 65536 (LIMIT + 1 - length (concat (take m cs)))) answer
          else cs ! m = [])"

lemma readable_iff: "list_ex (\<lambda>(fd, _). fd = Output) (t_events t) \<longleftrightarrow> readable t"
  by (force simp: readable_def list_ex_iff)

lemma collect_step:
  assumes "collect (Suc fuel) turns i deadline (raw0, eof) = Inr raw"
  obtains raw1 eof1 where "undisturbed deadline (turns i)" "take_output (turns i) (raw0, eof) = Inr (raw1, eof1)"
    "eof1 \<and> t_wait (turns i) = Inr (Some (True, 0)) \<and> raw = raw1 \<or> collect fuel turns (Suc i) deadline (raw1, eof1) = Inr raw"
proof -
  from assms have u: "undisturbed deadline (turns i)" by (auto simp: undisturbed_def list_ex_iff split: if_splits)
  from assms obtain raw1 eof1 ended where t: "take_output (turns i) (raw0, eof) = Inr (raw1, eof1)" "check_exit (turns i) eof1 = Inr ended"
    "(if ended then Inr raw1 else collect fuel turns (Suc i) deadline (raw1, eof1)) = Inr raw"
    by (auto simp: bindE_eq_Inr split: if_splits)
  have "eof1 \<and> t_wait (turns i) = Inr (Some (True, 0)) \<and> raw = raw1 \<or> collect fuel turns (Suc i) deadline (raw1, eof1) = Inr raw"
    using t(2,3) by (cases ended) (auto simp: check_exit_True)
  with u t(1) show thesis by (rule that)
qed

text \<open>After the end of the file only the end of the process is waited for.\<close>

lemma collect_eof:
  assumes "collect fuel turns i deadline (raw0, True) = Inr raw"
  shows "raw = raw0 \<and> (\<exists>j < fuel. (\<forall>m \<le> j. undisturbed deadline (turns (i + m))) \<and> t_wait (turns (i + j)) = Inr (Some (True, 0)))"
  using assms
proof (induction fuel arbitrary: i)
  case (Suc fuel)
  from collect_step [OF Suc.prems] obtain raw1 eof1 where u: "undisturbed deadline (turns i)" and t: "take_output (turns i) (raw0, True) = Inr (raw1, eof1)"
    "eof1 \<and> t_wait (turns i) = Inr (Some (True, 0)) \<and> raw = raw1 \<or> collect fuel turns (Suc i) deadline (raw1, eof1) = Inr raw" by metis
  have same: "raw1 = raw0" "eof1" using t(1) by (simp_all add: take_output_def)
  from t(2) show ?case
  proof
    assume "eof1 \<and> t_wait (turns i) = Inr (Some (True, 0)) \<and> raw = raw1"
    then show ?thesis using u same by (intro conjI exI [of _ 0]) auto
  next
    assume "collect fuel turns (Suc i) deadline (raw1, eof1) = Inr raw"
    with same Suc.IH [of "Suc i"] obtain j where j: "raw = raw0" "j < fuel" "\<forall>m \<le> j. undisturbed deadline (turns (Suc i + m))" "t_wait (turns (Suc i + j)) = Inr (Some (True, 0))" by auto
    have "undisturbed deadline (turns (i + m))" if "m \<le> Suc j" for m using u j(3) that by (cases m) auto
    then show ?thesis using j by (intro conjI exI [of _ "Suc j"]) auto
  qed
qed simp

lemma collect_ok:
  assumes "collect fuel turns i deadline (concat cs, False) = Inr raw" "length cs = i" "length (concat cs) \<le> LIMIT"
    "\<forall>m < i. if readable (turns m)
          then \<exists>answer. t_read (turns m) = Inr answer \<and> answer \<noteq> [] \<and> cs ! m = take (min 65536 (LIMIT + 1 - length (concat (take m cs)))) answer
          else cs ! m = []"
  shows "\<exists>e ds j. chunks turns e ds \<and> raw = concat ds \<and> length raw \<le> LIMIT \<and> i \<le> e \<and> e \<le> j \<and> j < i + fuel
    \<and> (\<forall>m. i \<le> m \<and> m \<le> j \<longrightarrow> undisturbed deadline (turns m)) \<and> t_wait (turns j) = Inr (Some (True, 0))"
  using assms
proof (induction fuel arbitrary: i cs)
  case (Suc fuel)
  from collect_step [OF Suc.prems(1)] obtain raw1 eof1 where u: "undisturbed deadline (turns i)" and t: "take_output (turns i) (concat cs, False) = Inr (raw1, eof1)"
    "eof1 \<and> t_wait (turns i) = Inr (Some (True, 0)) \<and> raw = raw1 \<or> collect fuel turns (Suc i) deadline (raw1, eof1) = Inr raw" by metis
  note len = Suc.prems(2) and lim = Suc.prems(3) and sofar = Suc.prems(4)
  show ?case
  proof (cases eof1)
    case True
    then have e: "readable (turns i)" "t_read (turns i) = Inr []" "raw1 = concat cs"
      using t(1) lim by (auto simp: take_output_def readable_iff bindE_eq_Inr Let_def split: if_splits)
    have c: "chunks turns i cs" using e len sofar by (simp add: chunks_def)
    from t(2) show ?thesis
    proof
      assume "eof1 \<and> t_wait (turns i) = Inr (Some (True, 0)) \<and> raw = raw1"
      then show ?thesis using u c e(3) lim by (intro exI [of _ i] exI [of _ cs]) auto
    next
      assume "collect fuel turns (Suc i) deadline (raw1, eof1) = Inr raw"
      with True collect_eof [of fuel turns "Suc i" deadline raw1 raw] obtain j where j: "raw = raw1" "j < fuel" "\<forall>m \<le> j. undisturbed deadline (turns (Suc i + m))"
        "t_wait (turns (Suc i + j)) = Inr (Some (True, 0))" by auto
      have "undisturbed deadline (turns m)" if "i \<le> m \<and> m \<le> Suc i + j" for m
        using u j(3) [rule_format, of "m - Suc i"] that by (cases "m = i") auto
      then show ?thesis using c e(3) lim j by (intro exI [of _ i] exI [of _ cs] exI [of _ "Suc i + j"]) auto
    qed
  next
    case False
    with t(2) have rest: "collect fuel turns (Suc i) deadline (raw1, False) = Inr raw" by simp
    obtain c where c: "raw1 = concat cs @ c" "length raw1 \<le> LIMIT"
      "if readable (turns i) then \<exists>answer. t_read (turns i) = Inr answer \<and> answer \<noteq> [] \<and> c = take (min 65536 (LIMIT + 1 - length (concat cs))) answer else c = []"
      using t(1) False lim by (auto simp: take_output_def readable_iff bindE_eq_Inr Let_def split: if_splits)
    let ?cs = "cs @ [c]"
    have new: "\<forall>m < Suc i. if readable (turns m)
          then \<exists>answer. t_read (turns m) = Inr answer \<and> answer \<noteq> [] \<and> ?cs ! m = take (min 65536 (LIMIT + 1 - length (concat (take m ?cs)))) answer
          else ?cs ! m = []"
      using sofar c(3) len by (auto simp: less_Suc_eq nth_append)
    have "collect fuel turns (Suc i) deadline (concat ?cs, False) = Inr raw" "length ?cs = Suc i" "length (concat ?cs) \<le> LIMIT" using rest c len by simp_all
    from Suc.IH [OF this new] obtain e ds j where e: "chunks turns e ds" "raw = concat ds" "length raw \<le> LIMIT" "Suc i \<le> e" "e \<le> j" "j < Suc i + fuel"
      "\<forall>m. Suc i \<le> m \<and> m \<le> j \<longrightarrow> undisturbed deadline (turns m)" "t_wait (turns j) = Inr (Some (True, 0))" by blast
    have "undisturbed deadline (turns m)" if "i \<le> m \<and> m \<le> j" for m using u e(7) that by (cases "m = i") auto
    then show ?thesis using e by (intro exI [of _ e] exI [of _ ds] exI [of _ j]) auto
  qed
qed simp

text \<open>C35: A query hands out a snapshot only of the complete output of the one process: its frame decodes for the
  configured root, its bytes are those of the reads in order up to the end of the file, which was read; at or after
  that, within at most 16384 turns, the process had exited with status 0; until then neither the peer nor
  its process showed anything and the deadline had not come; and then the process group was killed or gone, its leader reaped, and
  the pipe and both process descriptors closed.\<close>

theorem query_complete:
  assumes "query depth k deadline = Inr s"
  shows "\<exists>root state store identity e cs j. layout depth (k_machine k) = Inr (root, state, store, identity)
    \<and> chunks (k_turn k) e cs \<and> length (concat cs) \<le> LIMIT \<and> decode (concat cs) identity (k_started k) deadline (k_now k) = Inr s
    \<and> e \<le> j \<and> j < 16384 \<and> (\<forall>m \<le> j. undisturbed deadline (k_turn k m)) \<and> t_wait (k_turn k j) = Inr (Some (True, 0))
    \<and> k_waitid k = Inr () \<and> k_killpg k \<in> {Inr (), Inl ProcessLookupError} \<and> k_wait k = Inr () \<and> k_stdout k = Inr () \<and> k_close_child k = Inr () \<and> k_close_peer k = Inr ()"
proof -
  from assms obtain root state store identity where l: "layout depth (k_machine k) = Inr (root, state, store, identity)"
    and c: "close_group ''catalog-query-cleanup-indeterminate'' (cleanup k (is_ok (k_peer k))
        (is_ok (k_peer k) \<and> is_ok (executable (k_tree k) (u ''pkg_catalog_query'')) \<and> is_ok (k_spawn k))
        ((is_ok (k_peer k) \<and> is_ok (executable (k_tree k) (u ''pkg_catalog_query'')) \<and> is_ok (k_spawn k)) \<and> is_ok (k_pidfd k))) = Inr ()"
    and b: "query_body k identity deadline = Inr s"
    by (auto simp: query_def bindE_eq_Inr Let_def split: if_splits)
  from b obtain raw x where r: "k_peer k = Inr ()" "executable (k_tree k) (u ''pkg_catalog_query'') = Inr x" "k_spawn k = Inr ()" "k_pidfd k = Inr ()"
    "collect 16384 (k_turn k) 0 deadline ([], False) = Inr raw" "decode raw identity (k_started k) deadline (k_now k) = Inr s"
    by (auto simp: query_body_def bindE_eq_Inr)
  from collect_ok [of 16384 "k_turn k" 0 deadline "[]" raw] r(5) obtain e cs j where
    "chunks (k_turn k) e cs" "raw = concat cs" "length raw \<le> LIMIT" "e \<le> j" "j < 16384" "\<forall>m \<le> j. undisturbed deadline (k_turn k m)" "t_wait (k_turn k j) = Inr (Some (True, 0))"
    by auto
  moreover have "cleanup k True True True = []" using c r by (simp add: close_group_def split: if_splits)
  then have reaped: "reap (k_waitid k) (k_killpg k) (k_wait k) = Inr ()" and "k_stdout k = Inr ()" "k_close_child k = Inr ()" "k_close_peer k = Inr ()"
    by (simp_all add: cleanup_def failures_def split: sum.splits)
  moreover have "k_waitid k = Inr ()" "k_killpg k \<in> {Inr (), Inl ProcessLookupError}" "k_wait k = Inr ()"
    using reaped by (auto simp: reap_def bindE_eq_Inr split: if_splits)
  ultimately show ?thesis using l r(6) by blast
qed

section \<open>An example\<close>

definition example_prefix :: pybytes where
  "example_prefix = bs ''NIAPUB01'' @ replicate 16 17 @ replicate 16 2 @ replicate 32 3 @ replicate 32 4 @ be64 1 @ replicate 32 0 @ replicate 16 0"

definition example_package :: package where
  "example_package = \<lparr>p_original = replicate 32 5, p_name = u ''bash'', p_version = u ''5.2'', p_architecture = u ''amd64'', p_essential = True,
     p_protected = False, p_kib = Some 7000\<rparr>"

definition example_frame :: pybytes where
  "example_frame = bs ''NIAQRY01'' @ (example_prefix @ sha256 example_prefix) @ be64 1010 @ be64 1020 @ be64 1 @ package_bytes example_package"

definition example_snapshot :: snapshot where
  "example_snapshot = \<lparr>s_descriptor = example_prefix @ sha256 example_prefix, s_generation = 1, s_started = 1010, s_finished = 1020, s_packages = [example_package]\<rparr>"

lemma example_row: "read_rows 1 (package_bytes example_package, replicate 32 0, []) = Inr ([], replicate 32 5, [example_package])"
  by code_simp

lemma example_descriptor: "descriptor_ok (replicate 16 17) (example_prefix @ sha256 example_prefix)"
proof -
  have len: "length example_prefix = 160" by (simp add: example_prefix_def)
  have fields: "take 8 example_prefix = bs ''NIAPUB01''" "slice 8 24 example_prefix = replicate 16 17" "slice 24 40 example_prefix = replicate 16 2"
     "slice 40 72 example_prefix = replicate 32 3" "slice 72 104 example_prefix = replicate 32 4" "slice 104 112 example_prefix = be64 1"
     "slice 112 144 example_prefix = replicate 32 0" "slice 144 160 example_prefix = replicate 16 0"
    by (simp_all add: example_prefix_def slice_def)
  have sl: "slice i j (example_prefix @ y) = slice i j example_prefix" if "j \<le> 160" for i j y using that by (simp add: slice_def len)
  have some: "some_byte (replicate n x) \<longleftrightarrow> 0 < n \<and> x \<noteq> 0" for n x by (cases n) (auto simp: some_byte_def list_ex_iff)
  have "be_int (be64 1) = 1" by (rule be_int_be64) simp_all
  moreover have "replicate 16 (2 :: byte) \<noteq> replicate 16 17" by simp
  ultimately show ?thesis by (simp add: descriptor_ok_def Let_def sl fields some len)
qed

lemma example_frame_read: "decode example_frame (replicate 16 17) 1000 9000 2000 = Inr example_snapshot"
proof -
  have len: "length example_prefix = 160" by (simp add: example_prefix_def)
  have num: "be_int (be64 1010) = 1010" "be_int (be64 1020) = 1020" "be_int (be64 1) = 1" by (rule be_int_be64; simp)+
  have frame: "224 \<le> length example_frame" "length example_frame \<le> LIMIT" "take 8 example_frame = bs ''NIAQRY01''"
    "slice 8 200 example_frame = example_prefix @ sha256 example_prefix" "slice 200 208 example_frame = be64 1010" "slice 208 216 example_frame = be64 1020"
    "slice 216 224 example_frame = be64 1" "drop 224 example_frame = package_bytes example_package"
    by (simp_all add: example_frame_def slice_def len LIMIT_def package_bytes_def example_package_def field_bytes_def ascii_encode_def)
  have gen: "be_int (slice 104 112 (example_prefix @ sha256 example_prefix)) = 1"
  proof -
    have "slice 104 112 (example_prefix @ sha256 example_prefix) = be64 1" by (simp add: slice_def len) (simp add: example_prefix_def)
    then show ?thesis using num(3) by simp
  qed
  show ?thesis
    by (simp add: decode_def Let_def frame example_descriptor num example_row [unfolded One_nat_def] gen example_snapshot_def del: read_rows.simps)
qed

theorem catalog_frame_exact_witness:
  "snapshot_bytes example_snapshot = example_frame \<and> sorted_wrt (<) (map p_original (s_packages example_snapshot))"
  using catalog_frame_exact [OF example_frame_read] by simp

definition example_layout :: pyval where
  "example_layout = PDict [(u ''root'', PStr (u ''/target'')), (u ''root_id'', PStr (concat (replicate 16 (u ''11'')))), (u ''state'', PStr (u ''/state'')),
     (u ''store'', PStr (u ''/store'')), (u ''version'', PInt 1)]"

definition example_stat2 :: "int \<Rightarrow> int \<Rightarrow> stat_info" where
  "example_stat2 mode n = \<lparr>st_dev = 1, st_ino = 2, st_mode = mode, st_nlink = 1, st_uid = 0, st_gid = 0, st_size = n, st_mtime = 0, st_ctime = 0\<rparr>"

definition example_config :: pybytes where
  "example_config = canonical example_layout @ [10]"

definition example_host :: machine where
  "example_host = \<lparr>look = (\<lambda>_. Inr (example_stat2 16877 0)),
     open_file = (\<lambda>_ _. Inr \<lparr>before = example_stat2 33188 (int (length example_config)), content = example_config,
       after = example_stat2 33188 (int (length example_config))\<rparr>)\<rparr>"

definition example_turn :: "nat \<Rightarrow> turn" where
  "example_turn i = \<lparr>t_now = 1005 + int i, t_events = [(Output, False)], t_read = Inr (if i = 0 then example_frame else []), t_wait = Inr (Some (True, 0))\<rparr>"

definition example_query :: query_answers where
  "example_query = \<lparr>k_uid = 0, k_euid = 0, k_started = 1000, k_machine = example_host, k_account = Inr (990, 990), k_peer = Inr (), k_tree = example_tree,
     k_spawn = Inr (), k_pidfd = Inr (), k_turn = example_turn, k_now = 2000, k_waitid = Inr (), k_killpg = Inr (), k_wait = Inr (), k_stdout = Inr (),
     k_close_child = Inr (), k_close_peer = Inr ()\<rparr>"

lemma example_layout_read: "layout 10 example_host = Inr (u ''/target'', u ''/state'', u ''/store'', replicate 16 17)"
  by code_simp

lemma example_tree_accepts: "is_ok (executable example_tree (u ''pkg_catalog_query''))"
  by code_simp

lemma example_collect: "collect 16384 example_turn 0 9000 ([], False) = Inr example_frame"
proof -
  have len: "length example_frame = 290"
    by (simp add: example_frame_def example_prefix_def package_bytes_def example_package_def field_bytes_def ascii_encode_def)
  then have ne: "example_frame \<noteq> []" by auto
  have "collect (Suc (Suc n)) example_turn 0 9000 ([], False) = Inr example_frame" for n
    by (simp add: example_turn_def take_output_def check_exit_def Let_def len ne LIMIT_def)
  from this [of 16382] show ?thesis by simp
qed

lemma example_answered: "query 10 example_query 9000 = Inr example_snapshot"
proof -
  obtain p where p: "executable example_tree (u ''pkg_catalog_query'') = Inr p" using example_tree_accepts by (cases "executable example_tree (u ''pkg_catalog_query'')") auto
  have ok: "cleanup example_query True True True = []" by (simp add: cleanup_def example_query_def failures_def reap_def)
  have body: "query_body example_query (replicate 16 17) 9000 = Inr example_snapshot"
    by (simp add: query_body_def example_query_def p example_collect example_frame_read del: collect.simps)
  have f: "k_uid example_query = 0" "k_euid example_query = 0" "k_started example_query = 1000" "k_machine example_query = example_host"
     "k_account example_query = Inr (990, 990)" "k_peer example_query = Inr ()" "k_tree example_query = example_tree" "k_spawn example_query = Inr ()"
     "k_pidfd example_query = Inr ()" by (simp_all add: example_query_def)
  show ?thesis by (simp add: query_def f example_layout_read p ok body close_group_def)
qed

theorem query_complete_witness:
  "\<exists>e cs j. chunks example_turn e cs \<and> e \<le> j \<and> j < 16384 \<and> t_wait (example_turn j) = Inr (Some (True, 0))"
proof -
  have "k_turn example_query = example_turn" by (simp add: example_query_def)
  with query_complete [OF example_answered] show ?thesis by auto
qed

end
