(* ===== verification/Nia_Files.thy ===== *)
theory Nia_Files
  imports Nia_Common Native_State Py_Os
begin

text \<open>
  The file primitives of \<open>tools/nia_common.py\<close>: \<open>directory_fd\<close>, \<open>read_at\<close>, \<open>read_file\<close>, \<open>hash_file_at\<close> and
  \<open>write_new\<close>. What the operating system answers is an argument; a descriptor of a directory is the list
  of names that leads to it from the root. Writing keeps the log of its effects, each with whether the
  call returned.
\<close>

section \<open>Directories\<close>

text \<open>\<open>walk ps\<close> opens the last of the names \<open>ps\<close> below the others; \<open>peek\<close> opens a file, \<open>stats\<close> are its two
  \<open>fstat\<close>s, \<open>chunk n\<close> is the answer of the \<open>n\<close>-th read.\<close>

record files =
  cwd :: pystr
  walk :: "pystr list \<Rightarrow> unit res"
  peek :: "pystr list \<Rightarrow> unit res"
  stat_first :: "pystr list \<Rightarrow> stat_info res"
  stat_last :: "pystr list \<Rightarrow> stat_info res"
  chunk :: "pystr list \<Rightarrow> nat \<Rightarrow> pybytes res"

definition enter :: "files \<Rightarrow> pystr list \<Rightarrow> pystr \<Rightarrow> pystr list res" where
  "enter fs d part = bindE (walk fs (d @ [part])) (\<lambda>_. Inr (d @ [part]))"

definition directory_fd :: "files \<Rightarrow> pystr \<Rightarrow> pystr list res" where
  "directory_fd fs path = bindE (walk fs []) (\<lambda>_. foldE (enter fs) [] (abs_parts (cwd fs) path))"

text \<open>\<open>str(Path(path).parent)\<close> as far as \<open>directory_fd\<close> reads it.\<close>

definition parent_of :: "pystr \<Rightarrow> pystr" where
  "parent_of path = (if startswith path [47] then [47] else []) @ join_on [47] (butlast (path_parts path))"

section \<open>Reading\<close>

text \<open>
  The loop of \<open>os.read\<close>: \<open>ask n\<close> is how many bytes are asked for after \<open>n\<close>; a read may return fewer, and
  the empty read ends the loop.
\<close>

function read_all :: "(nat \<Rightarrow> nat) \<Rightarrow> (nat \<Rightarrow> pybytes res) \<Rightarrow> nat \<Rightarrow> string \<Rightarrow> nat \<Rightarrow> pybytes \<Rightarrow> pybytes res" where
  "read_all ask r limit msg n data = bindE (r n) (\<lambda>answer. let c = take (ask (length data)) answer in
     if c = [] then Inr data
     else if length data + length c > limit then invalid msg
     else read_all ask r limit msg (Suc n) (data @ c))"
  by pat_completeness auto

termination
proof (relation "measure (\<lambda>(ask, r, limit, msg, n, data). Suc limit - length data)")
  fix ask :: "nat \<Rightarrow> nat" and r :: "nat \<Rightarrow> pybytes res" and limit n :: nat and msg :: string and data x c :: pybytes
  assume "c \<noteq> []" "\<not> length data + length c > limit"
  moreover have "0 < length c" using \<open>c \<noteq> []\<close> by simp
  ultimately have "Suc limit - (length data + length c) < Suc limit - length data" by linarith
  then show "((ask, r, limit, msg, Suc n, data @ c), ask, r, limit, msg, n, data) \<in> measure (\<lambda>(ask, r, limit, msg, n, data). Suc limit - length data)"
    by simp
qed simp

declare read_all.simps [simp del]

definition token :: "stat_info \<Rightarrow> int list" where
  "token s = [st_dev s, st_ino s, st_size s, st_mtime s, st_ctime s, st_mode s, st_uid s, st_gid s]"

definition unowned :: "int option \<Rightarrow> stat_info \<Rightarrow> bool" where
  "unowned owner s \<longleftrightarrow> (case owner of None \<Rightarrow> False
     | Some o' \<Rightarrow> st_uid s \<noteq> o' \<or> st_mode s AND 18 \<noteq> 0 \<or> st_nlink s \<noteq> 1)"

text \<open>The opened file of \<open>read_at\<close>, and of \<open>hash_file_at\<close>, with the messages of each.\<close>

definition read_stable :: "files \<Rightarrow> (nat \<Rightarrow> nat) \<Rightarrow> pystr list \<Rightarrow> nat \<Rightarrow> int option \<Rightarrow> string \<Rightarrow> string \<Rightarrow> string \<Rightarrow> pybytes res" where
  "read_stable fs ask path limit owner bounded grows changed =
     bindE (peek fs path) (\<lambda>_. bindE (stat_first fs path) (\<lambda>before.
     if \<not> S_ISREG (st_mode before) \<or> st_size before > int limit then invalid bounded
     else if unowned owner before then invalid ''input is not protected policy owned by the expected authority''
     else bindE (read_all ask (chunk fs path) limit grows 0 []) (\<lambda>data. bindE (stat_last fs path) (\<lambda>after.
       if token before \<noteq> token after \<or> int (length data) \<noteq> st_size before then invalid changed else Inr data))))"

text \<open>\<open>relative(name).split('/')\<close> below \<open>root\<close>.\<close>

definition open_below :: "files \<Rightarrow> pystr \<Rightarrow> pystr \<Rightarrow> pystr list res" where
  "open_below fs root name = bindE (relative name) (\<lambda>name'. let parts = split_on 47 name' in
     bindE (directory_fd fs root) (\<lambda>d. bindE (foldE (enter fs) d (butlast parts)) (\<lambda>parent.
       Inr (parent @ [List.last parts]))))"

definition read_at :: "files \<Rightarrow> pystr \<Rightarrow> pystr \<Rightarrow> nat \<Rightarrow> int option \<Rightarrow> pybytes res" where
  "read_at fs root name limit owner = bindE (open_below fs root name) (\<lambda>path.
     read_stable fs (\<lambda>n. min (1024 * 1024) (limit + 1 - n)) path limit owner
       ''input is not a bounded regular file'' ''input size limit'' ''input changed while reading'')"

definition read_file :: "files \<Rightarrow> pystr \<Rightarrow> nat \<Rightarrow> int option \<Rightarrow> pybytes res" where
  "read_file fs path limit owner = read_at fs (parent_of path) (path_name path) limit owner"

definition hash_file_at :: "files \<Rightarrow> pystr \<Rightarrow> pystr \<Rightarrow> nat \<Rightarrow> (pystr \<times> nat) res" where
  "hash_file_at fs root path limit = bindE (open_below fs root path) (\<lambda>p.
     bindE (read_stable fs (\<lambda>_. 1024 * 1024) p limit None
       ''source blob not bounded regular file'' ''source blob grows beyond limit'' ''source blob changed during hashing'')
     (\<lambda>data. Inr (sha data, length data)))"

section \<open>Writing\<close>

datatype file_effect =
    NewTemp
  | Written pybytes
  | SyncTemp
  | CloseTemp
  | LinkTemp pystr
  | SyncParent
  | UnlinkTemp

text \<open>\<open>fd_open\<close> is \<open>fd is not None\<close>.\<close>

record writing =
  fd_open :: bool
  created :: bool
  log :: "(file_effect \<times> bool) list"

record write_answers =
  w_create :: "unit res"
  w_write :: "nat \<Rightarrow> int res"
  w_sync :: "unit res"
  w_close :: "unit res"
  w_link :: "unit res"
  w_parent :: "unit res"
  w_reclose :: "unit res"
  w_unlink :: "unit res"
  w_reparent :: "unit res"
  w_directory :: "unit res"

definition effect :: "file_effect \<Rightarrow> unit res \<Rightarrow> (unit, writing) proc" where
  "effect e r s = (r, s\<lparr>log := log s @ [(e, is_ok r)]\<rparr>)"

text \<open>\<open>while view: n = os.write(fd, view); ...; view = view[n:]\<close>: the result and the bytes written.\<close>

function write_all :: "(nat \<Rightarrow> int res) \<Rightarrow> nat \<Rightarrow> pybytes \<Rightarrow> unit res \<times> pybytes" where
  "write_all w k view =
     (if view = [] then (Inr (), [])
      else case w k of
        Inl e \<Rightarrow> (Inl e, [])
      | Inr n \<Rightarrow> if n \<le> 0 then (Inl OSError, [])
          else (case write_all w (Suc k) (drop (nat n) view) of (r, out) \<Rightarrow> (r, take (nat n) view @ out)))"
  by pat_completeness auto

termination
  by (relation "measure (\<lambda>(w, k, view). length view)") auto

declare write_all.simps [simp del]

definition write_body :: "write_answers \<Rightarrow> pystr \<Rightarrow> pybytes \<Rightarrow> (unit, writing) proc" where
  "write_body a name data =
     thenS (effect NewTemp (w_create a))
     (thenS (modifyS (\<lambda>s. s\<lparr>fd_open := True, created := True\<rparr>))
     (thenS (effect (Written (snd (write_all (w_write a) 0 data))) (fst (write_all (w_write a) 0 data)))
     (thenS (effect SyncTemp (w_sync a))
     (thenS (effect CloseTemp (w_close a))
     (thenS (modifyS (\<lambda>s. s\<lparr>fd_open := False\<rparr>))
     (thenS (effect (LinkTemp name) (w_link a))
     (effect SyncParent (w_parent a))))))))"

definition write_finally :: "write_answers \<Rightarrow> (unit, writing) proc" where
  "write_finally a =
     bindS (getS fd_open) (\<lambda>open'. thenS (if open' then effect CloseTemp (w_reclose a) else ret ())
     (bindS (getS created) (\<lambda>created'.
       thenS (if created' then thenS (effect UnlinkTemp (w_unlink a)) (effect SyncParent (w_reparent a)) else ret ())
       (liftS (w_directory a)))))"

definition write_new :: "files \<Rightarrow> write_answers \<Rightarrow> pystr \<Rightarrow> pybytes \<Rightarrow> unit res \<times> writing" where
  "write_new fs a path data =
     (let start = \<lparr>fd_open = False, created = False, log = []\<rparr> in
      case bindE (relative (path_name path)) (\<lambda>name. bindE (directory_fd fs (parent_of path)) (\<lambda>_. Inr name)) of
        Inl e \<Rightarrow> (Inl e, start)
      | Inr name \<Rightarrow> finallyS (write_body a name data) (write_finally a) start)"

section \<open>What is read\<close>

text \<open>The names lead to a file whose directories were all opened, one after the other.\<close>

definition reached :: "files \<Rightarrow> pystr list \<Rightarrow> bool" where
  "reached fs path \<longleftrightarrow> (\<forall>n < length path. walk fs (take n path) = Inr ())"

lemma enter_all:
  assumes "foldE (enter fs) d ps = Inr d'"
  shows "d' = d @ ps \<and> (\<forall>n. length d < n \<and> n \<le> length d' \<longrightarrow> walk fs (take n d') = Inr ())"
  using assms
proof (induction ps arbitrary: d)
  case (Cons p ps)
  then obtain x where x: "enter fs d p = Inr x" "foldE (enter fs) x ps = Inr d'" by (auto simp: bindE_eq_Inr)
  from x(1) have w: "walk fs (d @ [p]) = Inr ()" and "x = d @ [p]" by (auto simp: enter_def bindE_eq_Inr)
  with x(2) have "foldE (enter fs) (d @ [p]) ps = Inr d'" by simp
  from Cons.IH [OF this] have d': "d' = (d @ [p]) @ ps"
    and n: "\<And>n. length (d @ [p]) < n \<Longrightarrow> n \<le> length d' \<Longrightarrow> walk fs (take n d') = Inr ()" by auto
  have "walk fs (take n d') = Inr ()" if "length d < n" "n \<le> length d'" for n
  proof (cases "n = Suc (length d)")
    case True
    then show ?thesis using w by (simp add: d')
  next
    case False
    then show ?thesis using that n by simp
  qed
  then show ?case by (simp add: d')
qed auto

lemma open_below_ok:
  assumes "open_below fs root name = Inr path"
  shows "relative_ok name \<and> path = abs_parts (cwd fs) root @ split_on 47 name \<and> reached fs path"
proof -
  from assms obtain d p where r: "relative_ok name" and d: "walk fs [] = Inr ()" "foldE (enter fs) [] (abs_parts (cwd fs) root) = Inr d"
    and p: "foldE (enter fs) d (butlast (split_on 47 name)) = Inr p" and path: "path = p @ [List.last (split_on 47 name)]"
    by (auto simp: open_below_def bindE_eq_Inr Let_def relative_ok directory_fd_def)
  from enter_all [OF d(2)] have d1: "d = abs_parts (cwd fs) root" and d2: "\<And>n. 0 < n \<Longrightarrow> n \<le> length d \<Longrightarrow> walk fs (take n d) = Inr ()" by auto
  from enter_all [OF p] have p1: "p = d @ butlast (split_on 47 name)"
    and p2: "\<And>n. length d < n \<Longrightarrow> n \<le> length p \<Longrightarrow> walk fs (take n p) = Inr ()" by auto
  have "walk fs (take n path) = Inr ()" if "n < length path" for n
  proof (cases "n \<le> length d")
    case True
    then show ?thesis using d(1) d2 [of n] by (cases n) (auto simp: path p1)
  next
    case False
    then show ?thesis using p2 [of n] that by (simp add: path)
  qed
  moreover have "path = abs_parts (cwd fs) root @ split_on 47 name" by (simp add: path p1 d1)
  ultimately show ?thesis using r by (simp add: reached_def)
qed

text \<open>The bytes are those of the reads, in order, up to the first empty one.\<close>

lemma read_all_ok:
  assumes "read_all ask r limit msg n data = Inr out" "length data \<le> limit" "\<And>k. k \<le> limit \<Longrightarrow> 0 < ask k"
  shows "length out \<le> limit \<and> (\<exists>k cs. length cs = k \<and> out = data @ concat cs \<and> r (n + k) = Inr []
    \<and> (\<forall>i < k. cs ! i \<noteq> [] \<and> (\<exists>answer. r (n + i) = Inr answer \<and> startswith answer (cs ! i))))"
  using assms
proof (induction ask r limit msg n data rule: read_all.induct)
  case (1 ask r limit msg n data)
  from 1(2) obtain answer where a: "r n = Inr answer" by (subst (asm) read_all.simps) (auto simp: bindE_eq_Inr)
  define c where "c = take (ask (length data)) answer"
  have step: "(if c = [] then Inr data else if length data + length c > limit then invalid msg
      else read_all ask r limit msg (Suc n) (data @ c)) = Inr out"
    using 1(2) by (subst (asm) read_all.simps) (simp only: a c_def Let_def bindE.simps)
  show ?case
  proof (cases "c = []")
    case True
    then have "answer = []" using 1(4) [OF 1(3)] by (auto simp: c_def)
    then show ?thesis using True step a 1(3) by (intro conjI exI [of _ 0] exI [of _ "[]"]) auto
  next
    case False
    with step have le: "\<not> length data + length c > limit" and rec: "read_all ask r limit msg (Suc n) (data @ c) = Inr out"
      by (auto split: if_splits)
    have "length (data @ c) \<le> limit" using le by simp
    from 1(1) [OF a c_def False le rec this 1(4)] obtain cs where
      len: "length out \<le> limit" and out: "out = (data @ c) @ concat cs" and nil: "r (Suc n + length cs) = Inr []"
      and cs: "\<And>i. i < length cs \<Longrightarrow> cs ! i \<noteq> [] \<and> (\<exists>answer. r (Suc n + i) = Inr answer \<and> startswith answer (cs ! i))" by auto
    have start: "startswith answer c" by (metis c_def append_take_drop_id startswith_append)
    have "(c # cs) ! i \<noteq> [] \<and> (\<exists>answer. r (n + i) = Inr answer \<and> startswith answer ((c # cs) ! i))" if "i < Suc (length cs)" for i
      using that False a start cs by (cases i) auto
    then show ?thesis using len out nil by (intro conjI exI [of _ "Suc (length cs)"] exI [of _ "c # cs"]) auto
  qed
qed

text \<open>C200: What \<open>read_at\<close> returns is the whole content of one unchanged file: its name is relative and stays below the
  directory, every directory on the way was opened, it is regular and within the limit, the bytes are the
  answers of the reads in order up to the empty one, as many as the size says, the file's identity, size and
  times were the same afterwards, and a required owner was its only owner.\<close>

theorem read_at_stable:
  assumes "read_at fs root name limit owner = Inr data"
  shows "\<exists>path before after cs. relative_ok name \<and> path = abs_parts (cwd fs) root @ split_on 47 name \<and> reached fs path
    \<and> plain_parts path \<and> stat_first fs path = Inr before \<and> stat_last fs path = Inr after \<and> token before = token after
    \<and> S_ISREG (st_mode before) \<and> int (length data) = st_size before \<and> length data \<le> limit \<and> \<not> unowned owner before
    \<and> data = concat cs \<and> chunk fs path (length cs) = Inr []
    \<and> (\<forall>i < length cs. \<exists>answer. chunk fs path i = Inr answer \<and> startswith answer (cs ! i))"
proof -
  from assms obtain path where path: "open_below fs root name = Inr path"
    and r: "read_stable fs (\<lambda>n. min (1024 * 1024) (limit + 1 - n)) path limit owner
       ''input is not a bounded regular file'' ''input size limit'' ''input changed while reading'' = Inr data"
    by (auto simp: read_at_def bindE_eq_Inr)
  from r obtain before after where b: "stat_first fs path = Inr before" "S_ISREG (st_mode before)" "\<not> unowned owner before"
    "read_all (\<lambda>n. min (1024 * 1024) (limit + 1 - n)) (chunk fs path) limit ''input size limit'' 0 [] = Inr data"
    "stat_last fs path = Inr after" "token before = token after" "int (length data) = st_size before"
    unfolding read_stable_def by (auto simp: bindE_eq_Inr split: if_splits)
  from open_below_ok [OF path] have p: "relative_ok name" "path = abs_parts (cwd fs) root @ split_on 47 name" "reached fs path" by auto
  have "plain_parts path" using p(1) abs_parts_plain [of "cwd fs" root] by (auto simp: p(2) relative_ok_def plain_parts_def)
  moreover from read_all_ok [OF b(4)] obtain cs where "length data \<le> limit" "data = concat cs" "chunk fs path (length cs) = Inr []"
    "\<forall>i < length cs. cs ! i \<noteq> [] \<and> (\<exists>answer. chunk fs path i = Inr answer \<and> startswith answer (cs ! i))" by auto
  ultimately show ?thesis using p b by (intro exI [of _ path] exI [of _ before] exI [of _ after] exI [of _ cs]) auto
qed

section \<open>What is written\<close>

lemma write_all_ok:
  assumes "write_all w k view = (r, out)"
  shows "startswith view out \<and> (is_ok r \<longleftrightarrow> out = view)"
  using assms
proof (induction w k view arbitrary: r out rule: write_all.induct)
  case (1 w k view)
  show ?case
  proof (cases "view = []")
    case True
    then show ?thesis using 1(2) by (subst (asm) write_all.simps) auto
  next
    case False
    show ?thesis
    proof (cases "w k")
      case (Inl e)
      then show ?thesis using 1(2) False by (subst (asm) write_all.simps) auto
    next
      case (Inr n)
      show ?thesis
      proof (cases "n \<le> 0")
        case True
        then show ?thesis using 1(2) False Inr by (subst (asm) write_all.simps) auto
      next
        case pos: False
        obtain r' out' where rec: "write_all w (Suc k) (drop (nat n) view) = (r', out')" by (cases "write_all w (Suc k) (drop (nat n) view)") auto
        have "write_all w k view = (r', take (nat n) view @ out')" by (subst write_all.simps) (simp add: False Inr pos rec)
        then have o: "r = r'" "out = take (nat n) view @ out'" using 1(2) by simp_all
        from 1(1) [OF False Inr pos rec] have ih: "startswith (drop (nat n) view) out'" "is_ok r' \<longleftrightarrow> out' = drop (nat n) view" by auto
        from ih(1) obtain z where "drop (nat n) view = out' @ z" by (auto simp: startswith_iff)
        then have "view = (take (nat n) view @ out') @ z" by (metis append.assoc append_take_drop_id)
        then have s: "startswith view out" unfolding o(2) by (metis startswith_append)
        have "out = view \<longleftrightarrow> out' = drop (nat n) view" unfolding o(2) by (metis append_take_drop_id same_append_eq)
        then show ?thesis using s ih(2) o(1) by simp
      qed
    qed
  qed
qed

text \<open>The effects a completed write has, in order.\<close>

definition write_script :: "pystr \<Rightarrow> pybytes \<Rightarrow> file_effect list" where
  "write_script name data = [NewTemp, Written data, SyncTemp, CloseTemp, LinkTemp name, SyncParent, UnlinkTemp, SyncParent]"

definition completed :: "file_effect list \<Rightarrow> (file_effect \<times> bool) list" where
  "completed es = map (\<lambda>e. (e, True)) es"

text \<open>The body: all its effects, or some of them and one that failed.\<close>

lemma effect_run: "effect e r s = (r', t) \<longleftrightarrow> r' = r \<and> t = s\<lparr>log := log s @ [(e, is_ok r)]\<rparr>"
  by (auto simp: effect_def)

lemma write_body_run:
  assumes "write_body a name data \<lparr>fd_open = False, created = False, log = []\<rparr> = (r, t)"
  shows "(r = Inr () \<and> log t = completed (take 6 (write_script name data)) \<and> created t \<and> \<not> fd_open t)
    \<or> (\<exists>k x. k < 6 \<and> \<not> is_ok r \<and> log t = completed (take k (write_script name data)) @ [(x, False)] \<and> ((\<exists>n. x = LinkTemp n) \<longrightarrow> k = 4 \<and> x = LinkTemp name)
         \<and> created t = (1 \<le> k) \<and> fd_open t = (1 \<le> k \<and> k \<le> 3))"
proof -
  obtain wr out where w: "write_all (w_write a) 0 data = (wr, out)" by (cases "write_all (w_write a) 0 data") auto
  from write_all_ok [OF w] have out: "is_ok wr \<longleftrightarrow> out = data" by simp
  note run = assms [unfolded write_body_def w fst_conv snd_conv]
  note eqs = thenS_run effect_run modifyS_run write_script_def completed_def
  show ?thesis
  proof (cases "w_create a")
    case (Inl e)
    with run show ?thesis by (intro disjI2 exI [of _ 0] exI [of _ NewTemp]) (auto simp: eqs)
  next
    case c: (Inr x)
    show ?thesis
    proof (cases wr)
      case (Inl e)
      with run c show ?thesis by (intro disjI2 exI [of _ 1] exI [of _ "Written out"]) (auto simp: eqs)
    next
      case wr: (Inr y)
      then have out: "out = data" using out by simp
      show ?thesis
      proof (cases "w_sync a")
        case (Inl e)
        with run c wr out show ?thesis by (intro disjI2 exI [of _ 2] exI [of _ SyncTemp]) (auto simp: eqs)
      next
        case sy: (Inr z)
        show ?thesis
        proof (cases "w_close a")
          case (Inl e)
          with run c wr out sy show ?thesis by (intro disjI2 exI [of _ 3] exI [of _ CloseTemp]) (auto simp: eqs)
        next
          case cl: (Inr v)
          show ?thesis
          proof (cases "w_link a")
            case (Inl e)
            with run c wr out sy cl show ?thesis by (intro disjI2 exI [of _ 4] exI [of _ "LinkTemp name"]) (auto simp: eqs)
          next
            case li: (Inr q)
            show ?thesis
            proof (cases "w_parent a")
              case (Inl e)
              with run c wr out sy cl li show ?thesis by (intro disjI2 exI [of _ 5] exI [of _ SyncParent]) (auto simp: eqs)
            next
              case (Inr p)
              with run c wr out sy cl li show ?thesis by (auto simp: eqs)
            qed
          qed
        qed
      qed
    qed
  qed
qed

lemma write_finally_run:
  assumes "write_finally a s = (r, t)"
  shows "\<exists>tail. log t = log s @ tail \<and> fst ` set tail \<subseteq> {CloseTemp, UnlinkTemp, SyncParent} \<and> created t = created s
    \<and> (created s \<and> (fd_open s \<longrightarrow> is_ok (w_reclose a)) \<longrightarrow> UnlinkTemp \<in> fst ` set tail)
    \<and> (r = Inr () \<and> \<not> fd_open s \<and> created s \<longrightarrow> tail = completed [UnlinkTemp, SyncParent])"
proof -
  note calc = write_finally_def thenS_def bindS_def effect_def getS_def liftS_def ret_def completed_def
  have r: "r = fst (write_finally a s)" and t: "t = snd (write_finally a s)" using assms by simp_all
  show ?thesis
    unfolding r t
    by (cases "fd_open s"; cases "w_reclose a"; cases "created s"; cases "w_unlink a"; cases "w_reparent a"; cases "w_directory a")
      (simp_all add: calc)
qed

text \<open>C11: A new file is published only complete: the name is linked only after all of the data was written to the temporary
  file, synced and closed; a write that returned did exactly the effects of the script; and whatever
  failed, removing a temporary file that was created has been attempted, unless its descriptor could not be closed.\<close>

theorem write_new_complete:
  assumes "write_new fs a path data = (r, s)"
  shows "((LinkTemp n, b) \<in> set (log s) \<longrightarrow> n = path_name path \<and> take 4 (log s) = completed [NewTemp, Written data, SyncTemp, CloseTemp])
    \<and> (r = Inr () \<longrightarrow> log s = completed (write_script (path_name path) data))
    \<and> ((NewTemp, True) \<in> set (log s) \<and> is_ok (w_reclose a) \<longrightarrow> UnlinkTemp \<in> fst ` set (log s))"
proof (cases "bindE (relative (path_name path)) (\<lambda>name. bindE (directory_fd fs (parent_of path)) (\<lambda>_. Inr name))")
  case (Inl e)
  with assms show ?thesis by (auto simp: write_new_def)
next
  case (Inr name)
  then have name: "name = path_name path" by (auto simp: bindE_eq_Inr relative_ok)
  obtain r1 t where b: "write_body a name data \<lparr>fd_open = False, created = False, log = []\<rparr> = (r1, t)"
    by (cases "write_body a name data \<lparr>fd_open = False, created = False, log = []\<rparr>") auto
  obtain r2 where f: "write_finally a t = (r2, s)" and r: "r = (case r2 of Inl e \<Rightarrow> Inl e | Inr _ \<Rightarrow> r1)"
    using assms Inr b by (cases "write_finally a t") (auto simp: write_new_def finallyS_def split: sum.splits)
  from write_finally_run [OF f] obtain tail where tail: "log s = log t @ tail" "fst ` set tail \<subseteq> {CloseTemp, UnlinkTemp, SyncParent}"
    "created t \<and> (fd_open t \<longrightarrow> is_ok (w_reclose a)) \<longrightarrow> UnlinkTemp \<in> fst ` set tail"
    "r2 = Inr () \<and> \<not> fd_open t \<and> created t \<longrightarrow> tail = completed [UnlinkTemp, SyncParent]" by auto
  have no_link: "(LinkTemp n, b) \<notin> set tail" "(NewTemp, True) \<notin> set tail" using tail(2) by force+
  from write_body_run [OF b] show ?thesis
  proof (elim disjE exE conjE)
    assume d: "r1 = Inr ()" "log t = completed (take 6 (write_script name data))" "created t" "\<not> fd_open t"
    have "r = Inr () \<longrightarrow> r2 = Inr ()" using r by (auto split: sum.splits)
    then show ?thesis using d tail no_link by (auto simp: completed_def write_script_def name)
  next
    fix k x
    assume d: "k < 6" "\<not> is_ok r1" "log t = completed (take k (write_script name data)) @ [(x, False)]"
      "(\<exists>n. x = LinkTemp n) \<longrightarrow> k = 4 \<and> x = LinkTemp name" "created t = (1 \<le> k)" "fd_open t = (1 \<le> k \<and> k \<le> 3)"
    have "\<not> is_ok r" using d(2) r by (auto split: sum.splits)
    moreover have "k \<in> {0, 1, 2, 3, 4, 5}" using d(1) by auto
    ultimately show ?thesis using d(3-6) tail(1,3) no_link
      by (elim insertE emptyE) (auto simp: completed_def write_script_def name)
  qed
qed

section \<open>Examples\<close>

definition example_entry :: stat_info where
  "example_entry = \<lparr>st_dev = 1, st_ino = 2, st_mode = 33152, st_nlink = 1, st_uid = 0, st_gid = 0, st_size = 3, st_mtime = 5, st_ctime = 5\<rparr>"

definition example_fs :: files where
  "example_fs = \<lparr>cwd = u ''/root'', walk = (\<lambda>_. Inr ()), peek = (\<lambda>_. Inr ()), stat_first = (\<lambda>_. Inr example_entry), stat_last = (\<lambda>_. Inr example_entry),
     chunk = (\<lambda>_ n. Inr (if n = 0 then [1, 2] else if n = 1 then [3] else []))\<rparr>"

lemma example_read_at: "read_at example_fs (u ''../srv'') (u ''a/b'') 16 (Some 0) = Inr [1, 2, 3]"
proof -
  have "open_below example_fs (u ''../srv'') (u ''a/b'') = Inr (map u [''srv'', ''a'', ''b''])" by code_simp
  moreover have "read_all (\<lambda>n. min (1024 * 1024) (16 + 1 - n)) (\<lambda>n. Inr (if n = 0 then [1, 2] else if n = 1 then [3] else [])) 16 msg 0 [] = Inr [1, 2, 3]" for msg
    by (simp add: read_all.simps)
  ultimately show ?thesis
    by (simp add: read_at_def read_stable_def example_fs_def example_entry_def S_ISREG_def unowned_def)
qed

theorem read_at_stable_witness:
  "\<exists>before. stat_first example_fs (map u [''srv'', ''a'', ''b'']) = Inr before \<and> int (length [1, 2, 3 :: byte]) = st_size before"
proof -
  have "abs_parts (cwd example_fs) (u ''../srv'') @ split_on 47 (u ''a/b'') = map u [''srv'', ''a'', ''b'']" by code_simp
  with read_at_stable [OF example_read_at] show ?thesis by auto
qed

definition example_writes :: write_answers where
  "example_writes = \<lparr>w_create = Inr (), w_write = (\<lambda>k. Inr 1), w_sync = Inr (), w_close = Inr (), w_link = Inr (), w_parent = Inr (), w_reclose = Inr (),
     w_unlink = Inr (), w_reparent = Inr (), w_directory = Inr ()\<rparr>"

lemma example_write_new: "fst (write_new example_fs example_writes (u ''/srv/new'') [7, 8]) = Inr ()"
  by code_simp

theorem write_new_complete_witness:
  "log (snd (write_new example_fs example_writes (u ''/srv/new'') [7, 8])) = completed (write_script (u ''new'') [7, 8])"
proof -
  obtain r s where run: "write_new example_fs example_writes (u ''/srv/new'') [7, 8] = (r, s)"
    by (cases "write_new example_fs example_writes (u ''/srv/new'') [7, 8]") auto
  with example_write_new have "r = Inr ()" by simp
  moreover have "path_name (u ''/srv/new'') = u ''new''" by code_simp
  ultimately show ?thesis using write_new_complete [OF run] run by simp
qed

end
