(* ===== verification/Py_Base64.thy ===== *)
theory Py_Base64
  imports Py_Json
begin

text \<open>
  \<open>base64.b64encode\<close>, \<open>base64.b64decode(s, validate=True)\<close> and \<open>bytes.fromhex\<close> of the standard library. The
  decoder is \<open>binascii.a2b_base64\<close> in its strict mode, character by character: the position in the group of
  four, the bits left over, whether padding has begun and how much was seen. 61 is the equals sign.
\<close>

definition b64_value :: "nat \<Rightarrow> nat option" where
  "b64_value c = (if ascii_upper c then Some (c - 65) else if ascii_lower c then Some (c - 71)
     else if ascii_digit c then Some (c + 4) else if c = 43 then Some 62 else if c = 47 then Some 63 else None)"

fun b64_scan :: "nat \<Rightarrow> nat \<Rightarrow> bool \<Rightarrow> nat \<Rightarrow> pystr \<Rightarrow> nat list option" where
  "b64_scan q left padded pads [] = (if q = 0 then Some [] else None)"
| "b64_scan q left padded pads (c # s) =
     (if c = 61 then
        (if 2 \<le> q \<and> 4 \<le> q + Suc pads then (if s = [] then Some [] else None)
         else b64_scan q left True (if 2 \<le> q then Suc pads else pads) s)
      else case b64_value c of
        None \<Rightarrow> None
      | Some v \<Rightarrow>
          if padded then None
          else if q = 0 then b64_scan 1 v False 0 s
          else if q = 1 then map_option ((#) (left * 4 + v div 16)) (b64_scan 2 (v mod 16) False 0 s)
          else if q = 2 then map_option ((#) (left * 16 + v div 4)) (b64_scan 3 (v mod 4) False 0 s)
          else map_option ((#) (left * 64 + v)) (b64_scan 0 0 False 0 s))"

definition b64decode :: "pystr \<Rightarrow> pybytes res" where
  "b64decode s =
     (if startswith s [61] then Inl ValueError
      else case b64_scan 0 0 False 0 s of None \<Rightarrow> Inl ValueError | Some ns \<Rightarrow> Inr (map word_of_nat ns))"

definition b64_char :: "nat \<Rightarrow> nat" where
  "b64_char n = (if n < 26 then n + 65 else if n < 52 then n + 71 else if n < 62 then n - 4 else if n = 62 then 43 else 47)"

fun b64_groups :: "nat list \<Rightarrow> pystr" where
  "b64_groups (a # b # c # r) = [b64_char (a div 4), b64_char (a mod 4 * 16 + b div 16), b64_char (b mod 16 * 4 + c div 64), b64_char (c mod 64)] @ b64_groups r"
| "b64_groups [a, b] = [b64_char (a div 4), b64_char (a mod 4 * 16 + b div 16), b64_char (b mod 16 * 4), 61]"
| "b64_groups [a] = [b64_char (a div 4), b64_char (a mod 4 * 16), 61, 61]"
| "b64_groups [] = []"

definition b64encode :: "pybytes \<Rightarrow> pystr" where
  "b64encode b = b64_groups (map unat b)"

text \<open>\<open>bytes.fromhex\<close>: white space may stand between the pairs of digits.\<close>

definition hex_space :: "nat \<Rightarrow> bool" where
  "hex_space c \<longleftrightarrow> (9 \<le> c \<and> c \<le> 13) \<or> c = 32"

function bytes_fromhex :: "pystr \<Rightarrow> pybytes res" where
  "bytes_fromhex s = (case dropWhile hex_space s of
       [] \<Rightarrow> Inr []
     | [a] \<Rightarrow> Inl ValueError
     | a # b # r \<Rightarrow> (case (hex_value a, hex_value b) of
           (Some x, Some y) \<Rightarrow> bindE (bytes_fromhex r) (\<lambda>t. Inr (word_of_nat (16 * x + y) # t))
         | _ \<Rightarrow> Inl ValueError))"
  by pat_completeness auto

termination
proof (relation "measure length")
  fix s r :: pystr and a b x y z w
  assume "dropWhile hex_space s = a # x" "x = b # r"
  then have "length (a # b # r) \<le> length s" by (metis length_dropWhile_le)
  then show "(r, s) \<in> measure length" by simp
qed simp

declare bytes_fromhex.simps [simp del]

section \<open>Decoding what was encoded\<close>

lemma b64_value_char: "n < 64 \<Longrightarrow> b64_value (b64_char n) = Some n \<and> b64_char n \<noteq> 61 \<and> b64_char n < 128"
  by (auto simp: b64_value_def b64_char_def ascii_upper_def ascii_lower_def ascii_digit_def)

lemma b64_bits:
  fixes a b c :: nat
  assumes "a < 256" "b < 256" "c < 256"
  shows "a div 4 < 64" "a mod 4 * 16 + b div 16 < 64" "b mod 16 * 4 + c div 64 < 64" "a mod 4 * 16 < 64" "b mod 16 * 4 < 64"
    "(a mod 4 * 16 + b div 16) div 16 = a mod 4" "(a mod 4 * 16 + b div 16) mod 16 = b div 16"
    "(b mod 16 * 4 + c div 64) div 4 = b mod 16" "(b mod 16 * 4 + c div 64) mod 4 = c div 64"
    "b div 16 mod 16 = b div 16" "c div 64 mod 4 = c div 64" "b div 16 div 16 = 0" "c div 64 div 4 = 0"
    "a div 4 * 4 + a mod 4 = a" "b div 16 * 16 + b mod 16 = b" "c div 64 * 64 + c mod 64 = c"
  using assms by (simp_all add: less_mult_imp_div_less div_less_iff_less_mult)

lemma b64_scan_groups:
  "\<forall>x \<in> set ns. x < 256 \<Longrightarrow> b64_scan 0 0 False 0 (b64_groups ns) = Some ns"
proof (induction ns rule: b64_groups.induct)
  case (1 a b c r)
  then show ?case using b64_bits [of a b c] by (simp add: b64_value_char)
next
  case (2 a b)
  then show ?case using b64_bits [of a b 0] by (simp add: b64_value_char)
next
  case (3 a)
  then show ?case using b64_bits [of a 0 0] by (simp add: b64_value_char)
qed simp

lemma b64_groups_hd: "\<forall>x \<in> set ns. x < 256 \<Longrightarrow> \<not> startswith (b64_groups ns) [61]"
proof (cases ns rule: b64_groups.cases)
  case (1 a b c r)
  assume "\<forall>x \<in> set ns. x < 256"
  then show ?thesis using 1 b64_value_char [of "a div 4"] b64_bits(1) [of a 0 0] by simp
next
  case (2 a b)
  assume "\<forall>x \<in> set ns. x < 256"
  then show ?thesis using 2 b64_value_char [of "a div 4"] b64_bits(1) [of a 0 0] by simp
next
  case (3 a)
  assume "\<forall>x \<in> set ns. x < 256"
  then show ?thesis using 3 b64_value_char [of "a div 4"] b64_bits(1) [of a 0 0] by simp
qed simp

lemma b64decode_encode: "b64decode (b64encode b) = Inr b"
proof -
  have "\<forall>x \<in> set (map unat b). x < 256" by (auto intro: unat_byte)
  from b64_scan_groups [OF this] b64_groups_hd [OF this] show ?thesis by (simp add: b64decode_def b64encode_def comp_def)
qed

lemma b64_groups_ascii: "\<forall>x \<in> set ns. x < 256 \<Longrightarrow> c \<in> set (b64_groups ns) \<Longrightarrow> c < 128"
proof (induction ns rule: b64_groups.induct)
  case (1 a b c' r)
  then show ?case using b64_bits(1-3) [of a b c'] by (auto simp: b64_value_char)
next
  case (2 a b)
  then show ?case using b64_bits(1,2,5) [of a b 0] by (auto simp: b64_value_char)
next
  case (3 a)
  then show ?case using b64_bits(1,4) [of a 0 0] by (auto simp: b64_value_char)
qed simp

lemma b64encode_ascii: "c \<in> set (b64encode b) \<Longrightarrow> c < 128"
  unfolding b64encode_def by (rule b64_groups_ascii [rotated]) (auto intro: unat_byte)

lemma length_b64_groups: "length (b64_groups ns) = (length ns + 2) div 3 * 4"
proof (induction ns rule: b64_groups.induct)
  case (1 a b c r)
  have "length (a # b # c # r) + 2 = 3 + (length r + 2)" by simp
  then have "(length (a # b # c # r) + 2) div 3 = Suc ((length r + 2) div 3)" by presburger
  with 1 show ?case by (simp only: b64_groups.simps length_append) simp
qed auto

lemma length_b64encode: "length (b64encode b) = (length b + 2) div 3 * 4"
  by (simp add: b64encode_def length_b64_groups)

section \<open>\<open>except ValueError\<close>\<close>

definition value_error :: "exn \<Rightarrow> bool" where
  "value_error e \<longleftrightarrow> (case e of Invalid _ \<Rightarrow> True | ValueError \<Rightarrow> True | UnicodeDecodeError \<Rightarrow> True | _ \<Rightarrow> False)"

end
