(* ===== verification/Reproducibility.thy ===== *)
theory Reproducibility
  imports Deb_Control Debian_Semantics Py_Base64
begin

text \<open>
  \<open>tools/reproducibility.py\<close>: independent reproduction receipts for one exact artifact. The check of a
  signature, \<open>Ed25519PublicKey.from_public_bytes(pub).verify(sig, message)\<close>, is an argument that says whether it
  raises neither \<open>ValueError\<close> nor \<open>InvalidSignature\<close>. The registry of keys is a dictionary.
\<close>

definition DOMAIN :: pybytes where
  "DOMAIN = bs ''NiaOS/reproduction/v1'' @ [0]"

definition SUBJECT :: "string list" where
  "SUBJECT = [''deb_sha256'', ''source_manifest_sha256'', ''buildinfo_sha256'', ''package'', ''version'', ''architecture'']"

definition BODY :: "string list" where
  "BODY = [''schema'', ''subject'', ''release_sha256'', ''policy_sha256'', ''rebuilder'', ''domain'', ''key_id'', ''issued'', ''expires'',
     ''observed_sha256'', ''method'']"

section \<open>The subject and its build information\<close>

definition subject :: "pyval \<Rightarrow> unit res" where
  "subject value =
     bindE (check_fields value SUBJECT ''reproduction subject'') (\<lambda>_.
     bindE (eachE (\<lambda>k. bindE (digest (field value k)) (\<lambda>_. Inr ())) [''deb_sha256'', ''source_manifest_sha256'', ''buildinfo_sha256'']) (\<lambda>_.
     case field value ''package'' of
       PStr name \<Rightarrow>
         if \<not> name_ok name then invalid ''subject package''
         else bindE (split_version_val (field value ''version'')) (\<lambda>_.
           if field value ''architecture'' \<notin> {PStr (u ''amd64''), PStr (u ''all'')} then invalid ''subject architecture'' else Inr ())
     | _ \<Rightarrow> Inl TypeError))"

text \<open>\<open>info.get(key, '')\<close>; an absent field is as false as an empty one.\<close>

definition info_text :: "stanza \<Rightarrow> string \<Rightarrow> pystr" where
  "info_text info k = (case map_of info (u k) of None \<Rightarrow> [] | Some v \<Rightarrow> v)"

definition buildinfo_line :: "pyval \<Rightarrow> pystr list \<times> nat \<Rightarrow> pystr \<Rightarrow> (pystr list \<times> nat) res" where
  "buildinfo_line expected = (\<lambda>(names, matches) line.
     if strip is_space line = [] then Inr (names, matches)
     else case words line of
       [checksum, n, name] \<Rightarrow>
         if \<not> isdigit n \<or> 47 \<in> set name \<or> name \<in> set names then invalid ''buildinfo checksum list''
         else bindE (digest_str checksum) (\<lambda>_.
           Inr (names @ [name], if PStr checksum = field expected ''deb_sha256'' \<and> endswith name (u ''.deb'') then Suc matches else matches))
     | _ \<Rightarrow> invalid ''buildinfo checksum list'')"

definition check_buildinfo :: "pybytes \<Rightarrow> pyval \<Rightarrow> pyval res" where
  "check_buildinfo raw expected =
     bindE (subject expected) (\<lambda>_.
     if PStr (sha raw) \<noteq> field expected ''buildinfo_sha256'' then invalid ''different buildinfo object''
     else bindE (deb822 MAX_CONTROL 262144 raw) (\<lambda>data. case data of
       [info] \<Rightarrow>
         if map_of info (u ''format'') \<noteq> Some (u ''1.0'') \<or> field expected ''package'' \<notin> PStr ` set (words (info_text info ''binary''))
         then invalid ''buildinfo binary set''
         else if field expected ''architecture'' \<notin> PStr ` set (words (info_text info ''architecture'')) then invalid ''buildinfo architecture''
         else if info_text info ''source'' = [] \<or> info_text info ''version'' = [] \<or> info_text info ''installed-build-depends'' = []
         then invalid ''build environment/source missing''
         else bindE (split_version (info_text info ''version'')) (\<lambda>_.
           bindE (foldE (buildinfo_line expected) ([], 0) (splitlines (info_text info ''checksums-sha256''))) (\<lambda>(_, matches).
             if matches \<noteq> 1 then invalid ''exact binary not identified in buildinfo''
             else Inr (PDict [(u ''buildinfo_matches'', PBool True), (u ''reproduced'', PBool False), (u ''execution_permit'', PBool False),
               (u ''source'', PStr (info_text info ''source'')), (u ''source_version'', PStr (info_text info ''version''))])))
     | _ \<Rightarrow> invalid ''buildinfo paragraphs''))"

section \<open>Receipts\<close>

text \<open>\<open>[A-Za-z0-9_.:-]{1,128}\<close>.\<close>

definition identifier_ok :: "pystr \<Rightarrow> bool" where
  "identifier_ok s \<longleftrightarrow> s \<noteq> [] \<and> length s \<le> 128 \<and> list_all (\<lambda>c. ascii_alnum c \<or> c \<in> set (u ''_.:-'')) s"

definition identifier_of :: "string \<Rightarrow> pyval \<Rightarrow> pystr res" where
  "identifier_of msg v = (case v of PStr s \<Rightarrow> if identifier_ok s then Inr s else invalid msg | _ \<Rightarrow> invalid msg)"

definition MAX_TIME :: int where
  "MAX_TIME = 2 ^ 53 - 1"

definition KEY :: "string list" where
  "KEY = [''public_key'', ''principal'', ''domain'', ''revoked'', ''valid_from'', ''valid_until'']"

text \<open>The registered key: its principal and domain.\<close>

definition registered :: "pyval \<Rightarrow> int \<Rightarrow> int \<Rightarrow> (pystr \<times> pystr) res" where
  "registered key issued now =
     bindE (check_fields key KEY ''key registry entry'') (\<lambda>_.
     bindE (integer (field key ''valid_from'') 1 MAX_TIME ''authority start'') (\<lambda>from.
     bindE (integer (field key ''valid_until'') 1 MAX_TIME ''authority end'') (\<lambda>until.
     bindE (identifier_of ''invalid registered identity'' (field key ''principal'')) (\<lambda>signer.
     bindE (identifier_of ''invalid registered identity'' (field key ''domain'')) (\<lambda>domain.
     if field key ''revoked'' \<noteq> PBool False \<or> \<not> (from \<le> issued \<and> issued \<le> now \<and> now < until) then invalid ''revoked/expired authority''
     else Inr (signer, domain))))))"

type_synonym verifier = "pybytes \<Rightarrow> pybytes \<Rightarrow> pybytes \<Rightarrow> bool"

definition str_arg :: "(pystr \<Rightarrow> pybytes res) \<Rightarrow> pyval \<Rightarrow> pybytes res" where
  "str_arg f v = (case v of PStr s \<Rightarrow> f s | _ \<Rightarrow> Inl TypeError)"

definition signature :: "verifier \<Rightarrow> pyval \<Rightarrow> pyval \<Rightarrow> pyval \<Rightarrow> unit res" where
  "signature verify key envelope body =
     exceptE value_error (Invalid (u ''invalid reproduction signature''))
       (bindE (str_arg bytes_fromhex (field key ''public_key'')) (\<lambda>pub.
        bindE (str_arg b64decode (field envelope ''signature'')) (\<lambda>sig.
        if length pub \<noteq> 32 \<or> length sig \<noteq> 64 then invalid ''receipt key/signature size''
        else if \<not> verify pub sig (DOMAIN @ canonical body) then invalid ''invalid reproduction signature''
        else Inr ())))"

text \<open>The claims of the body, up to the identifier of its key, with the time of issue.\<close>

definition claims :: "pyval \<Rightarrow> pystr \<Rightarrow> pystr \<Rightarrow> int \<Rightarrow> pyval \<Rightarrow> (int \<times> pystr) res" where
  "claims expected release policy now body =
     bindE (check_fields body BODY ''receipt body'') (\<lambda>_.
     if field body ''schema'' \<noteq> PStr (u ''org.niaos.reproduction/v1'') \<or> field body ''method'' \<noteq> PStr (u ''rebuild-official-binary'')
     then invalid ''receipt schema/method''
     else bindE (subject (field body ''subject'')) (\<lambda>_.
     if \<not> py_eq (field body ''subject'') expected \<or> field body ''release_sha256'' \<noteq> PStr release \<or> field body ''policy_sha256'' \<noteq> PStr policy
     then invalid ''receipt scope mismatch''
     else if field body ''observed_sha256'' \<noteq> field expected ''deb_sha256'' then invalid ''rebuild does not reproduce distributed binary''
     else bindE (integer (field body ''issued'') 1 MAX_TIME ''issued'') (\<lambda>issued.
     bindE (integer (field body ''expires'') 1 MAX_TIME ''expires'') (\<lambda>expires.
     if \<not> (issued \<le> now \<and> now < expires) \<or> expires - issued > 30 * 86400 then invalid ''receipt freshness''
     else bindE (identifier_of ''key identifier'' (field body ''key_id'')) (\<lambda>kid. Inr (issued, kid))))))"

text \<open>The loop over the envelopes: the identifiers, principals and domains accepted so far.\<close>

definition check_receipt :: "verifier \<Rightarrow> pyval \<Rightarrow> (pystr \<times> pyval) list \<Rightarrow> int \<Rightarrow> pystr \<Rightarrow> pystr
    \<Rightarrow> (pystr \<times> pystr \<times> pystr) list \<Rightarrow> pyval \<Rightarrow> (pystr \<times> pystr \<times> pystr) list res" where
  "check_receipt verify expected registry now release policy accepted envelope =
     bindE (check_fields envelope [''body'', ''signature''] ''receipt'') (\<lambda>_. let body = field envelope ''body'' in
     bindE (claims expected release policy now body) (\<lambda>(issued, kid).
     if kid \<in> set (map fst accepted) then invalid ''unknown/duplicate receipt key''
     else case map_of registry kid of
       None \<Rightarrow> invalid ''unknown/duplicate receipt key''
     | Some key \<Rightarrow>
         bindE (registered key issued now) (\<lambda>(signer, domain).
         if field body ''rebuilder'' \<noteq> PStr signer \<or> field body ''domain'' \<noteq> PStr domain then invalid ''asserted independence differs from registry''
         else if signer \<in> set (map (fst \<circ> snd) accepted) \<or> domain \<in> set (map (snd \<circ> snd) accepted) then invalid ''non-independent rebuild witnesses''
         else bindE (signature verify key envelope body) (\<lambda>_. Inr (accepted @ [(kid, signer, domain)])))))"

definition receipts_report :: "pyval \<Rightarrow> nat \<Rightarrow> pyval" where
  "receipts_report expected n = PDict [(u ''receipt_check'', PStr (u ''pass'')), (u ''exact_artifact'', field expected ''deb_sha256''),
     (u ''independent_receipts'', PInt (int n)), (u ''execution_permit'', PBool False), (u ''native_effects_verified'', PBool False),
     (u ''source_correctness_proven'', PBool False)]"

definition check_receipts :: "verifier \<Rightarrow> pyval \<Rightarrow> pyval \<Rightarrow> (pystr \<times> pyval) list \<Rightarrow> pyval \<Rightarrow> pyval \<Rightarrow> pyval \<Rightarrow> pyval \<Rightarrow> pyval res" where
  "check_receipts verify receipts expected registry now release policy threshold =
     bindE (subject expected) (\<lambda>_. bindE (digest release) (\<lambda>release'. bindE (digest policy) (\<lambda>policy'.
     bindE (integer now 1 MAX_TIME ''current time'') (\<lambda>now'. bindE (integer threshold 2 8 ''reproduction threshold'') (\<lambda>threshold'.
     case receipts of
       PList rs \<Rightarrow>
         if length rs > 32 then invalid ''receipt count''
         else bindE (foldE (check_receipt verify expected registry now' release' policy') [] rs) (\<lambda>accepted.
           if int (length accepted) < threshold' then invalid ''insufficient independently authorized reproduction evidence''
           else Inr (receipts_report expected (length accepted)))
     | _ \<Rightarrow> invalid ''receipt count'')))))"

section \<open>What is accepted\<close>

text \<open>The claims of a body: about exactly this artifact, release and policy, and fresh.\<close>

definition claims_valid :: "pyval \<Rightarrow> pystr \<Rightarrow> pystr \<Rightarrow> int \<Rightarrow> pyval \<Rightarrow> int \<Rightarrow> pystr \<Rightarrow> bool" where
  "claims_valid expected release policy now body issued kid \<longleftrightarrow>
     is_dict body \<and> set (dict_keys body) = set (map u BODY)
   \<and> field body ''schema'' = PStr (u ''org.niaos.reproduction/v1'') \<and> field body ''method'' = PStr (u ''rebuild-official-binary'')
   \<and> subject (field body ''subject'') = Inr () \<and> py_eq (field body ''subject'') expected
   \<and> field body ''release_sha256'' = PStr release \<and> field body ''policy_sha256'' = PStr policy
   \<and> field body ''observed_sha256'' = field expected ''deb_sha256''
   \<and> (\<exists>expires. field body ''issued'' = PInt issued \<and> field body ''expires'' = PInt expires \<and> 1 \<le> issued \<and> issued \<le> now \<and> now < expires
      \<and> issued \<le> MAX_TIME \<and> expires \<le> MAX_TIME \<and> expires - issued \<le> 30 * 86400)
   \<and> field body ''key_id'' = PStr kid \<and> identifier_ok kid"

text \<open>A registered key that is not revoked and was in force from the issue until now.\<close>

definition key_valid :: "pyval \<Rightarrow> int \<Rightarrow> int \<Rightarrow> pystr \<Rightarrow> pystr \<Rightarrow> bool" where
  "key_valid key issued now signer domain \<longleftrightarrow>
     is_dict key \<and> set (dict_keys key) = set (map u KEY) \<and> field key ''revoked'' = PBool False
   \<and> (\<exists>lo hi. field key ''valid_from'' = PInt lo \<and> field key ''valid_until'' = PInt hi \<and> 1 \<le> lo \<and> lo \<le> issued \<and> issued \<le> now \<and> now < hi
      \<and> lo \<le> MAX_TIME \<and> 1 \<le> hi \<and> hi \<le> MAX_TIME)
   \<and> field key ''principal'' = PStr signer \<and> identifier_ok signer \<and> field key ''domain'' = PStr domain \<and> identifier_ok domain"

text \<open>The key verifies the signature over the canonical body.\<close>

definition signature_valid :: "verifier \<Rightarrow> pyval \<Rightarrow> pyval \<Rightarrow> pyval \<Rightarrow> bool" where
  "signature_valid verify key envelope body \<longleftrightarrow>
     (\<exists>ptext stext pub sig. field key ''public_key'' = PStr ptext \<and> bytes_fromhex ptext = Inr pub \<and> length pub = 32
      \<and> field envelope ''signature'' = PStr stext \<and> b64decode stext = Inr sig \<and> length sig = 64 \<and> verify pub sig (DOMAIN @ canonical body))"

text \<open>One receipt on its own, of a registered key whose principal and domain it names.\<close>

definition receipt_valid :: "verifier \<Rightarrow> pyval \<Rightarrow> (pystr \<times> pyval) list \<Rightarrow> int \<Rightarrow> pystr \<Rightarrow> pystr \<Rightarrow> pyval \<Rightarrow> pystr \<times> pystr \<times> pystr \<Rightarrow> bool" where
  "receipt_valid verify expected registry now release policy envelope = (\<lambda>(kid, signer, domain). let body = field envelope ''body'' in
     is_dict envelope \<and> set (dict_keys envelope) = {u ''body'', u ''signature''}
   \<and> (\<exists>key issued. claims_valid expected release policy now body issued kid \<and> map_of registry kid = Some key
      \<and> key_valid key issued now signer domain \<and> signature_valid verify key envelope body)
   \<and> field body ''rebuilder'' = PStr signer \<and> field body ''domain'' = PStr domain)"

lemma identifier_of_ok [ok_simps]: "identifier_of msg v = Inr s \<longleftrightarrow> v = PStr s \<and> identifier_ok s"
  by (cases v) (auto simp: identifier_of_def)

lemma str_arg_ok [ok_simps]: "str_arg f v = Inr b \<longleftrightarrow> (\<exists>s. v = PStr s \<and> f s = Inr b)"
  by (cases v) (auto simp: str_arg_def)

lemma claims_ok:
  "claims expected release policy now body = Inr (issued, kid) \<longleftrightarrow> claims_valid expected release policy now body issued kid" (is "?l \<longleftrightarrow> ?r")
proof
  assume ?l
  then show ?r by (auto simp: claims_valid_def claims_def bindE_eq_Inr fields_ok integer_ok identifier_of_ok not_less split: if_splits)
next
  assume "?r"
  note r = this [unfolded claims_valid_def]
  then obtain expires where e: "field body ''issued'' = PInt issued" "field body ''expires'' = PInt expires" "1 \<le> issued" "issued \<le> now" "now < expires"
    "issued \<le> MAX_TIME" "expires \<le> MAX_TIME" "expires - issued \<le> 30 * 86400" by blast
  have i: "integer (field body ''issued'') 1 MAX_TIME ''issued'' = Inr issued" "integer (field body ''expires'') 1 MAX_TIME ''expires'' = Inr expires"
    using e by (simp_all add: integer_def)
  have "check_fields body BODY ''receipt body'' = Inr ()" "identifier_of ''key identifier'' (field body ''key_id'') = Inr kid"
    using r by (simp_all add: fields_ok identifier_of_ok)
  then show ?l using r e i by (simp add: claims_def)
qed

lemma registered_ok:
  "registered key issued now = Inr (signer, domain) \<longleftrightarrow> key_valid key issued now signer domain"
  by (auto simp: key_valid_def registered_def bindE_eq_Inr fields_ok integer_ok identifier_of_ok split: if_splits)

lemma signature_ok:
  "signature verify key envelope body = Inr () \<longleftrightarrow> signature_valid verify key envelope body"
  by (auto simp: signature_valid_def signature_def bindE_eq_Inr str_arg_ok split: if_splits)

lemma check_receipt_ok:
  "check_receipt verify expected registry now release policy accepted envelope = Inr accepted' \<longleftrightarrow>
     (\<exists>kid signer domain. receipt_valid verify expected registry now release policy envelope (kid, signer, domain)
      \<and> kid \<notin> set (map fst accepted) \<and> signer \<notin> set (map (fst \<circ> snd) accepted) \<and> domain \<notin> set (map (snd \<circ> snd) accepted)
      \<and> accepted' = accepted @ [(kid, signer, domain)])" (is "?l \<longleftrightarrow> ?r")
proof
  assume l: ?l
  let ?body = "field envelope ''body''"
  have f: "check_fields envelope [''body'', ''signature''] ''receipt'' = Inr ()"
    using l by (cases "check_fields envelope [''body'', ''signature''] ''receipt''") (simp_all add: check_receipt_def)
  obtain issued kid where c: "claims expected release policy now ?body = Inr (issued, kid)"
    using l f by (cases "claims expected release policy now ?body") (auto simp: check_receipt_def)
  have k: "kid \<notin> set (map fst accepted)" using l f c by (cases "kid \<in> set (map fst accepted)") (simp_all add: check_receipt_def)
  obtain key where key: "map_of registry kid = Some key" using l f c k by (cases "map_of registry kid") (simp_all add: check_receipt_def)
  obtain signer domain where r: "registered key issued now = Inr (signer, domain)"
    using l f c k key by (cases "registered key issued now") (auto simp: check_receipt_def)
  have d: "field ?body ''rebuilder'' = PStr signer" "field ?body ''domain'' = PStr domain"
    "signer \<notin> set (map (fst \<circ> snd) accepted)" "domain \<notin> set (map (snd \<circ> snd) accepted)"
    and s: "bindE (signature verify key envelope ?body) (\<lambda>_. Inr (accepted @ [(kid, signer, domain)])) = Inr accepted'"
    using l f c k key r by (simp_all add: check_receipt_def Let_def split: if_splits)
  from s have "signature verify key envelope ?body = Inr ()" "accepted' = accepted @ [(kid, signer, domain)]" by (auto simp: bindE_eq_Inr)
  moreover have "is_dict envelope \<and> set (dict_keys envelope) = {u ''body'', u ''signature''}" using f by (simp add: fields_ok)
  ultimately have "receipt_valid verify expected registry now release policy envelope (kid, signer, domain)"
    using c key r d(1,2) by (auto simp: receipt_valid_def claims_ok registered_ok signature_ok)
  then show ?r using k d(3,4) \<open>accepted' = accepted @ [(kid, signer, domain)]\<close> by blast
next
  assume ?r
  then obtain kid signer domain where v: "receipt_valid verify expected registry now release policy envelope (kid, signer, domain)"
    and n: "kid \<notin> set (map fst accepted)" "signer \<notin> set (map (fst \<circ> snd) accepted)" "domain \<notin> set (map (snd \<circ> snd) accepted)"
    and a: "accepted' = accepted @ [(kid, signer, domain)]" by blast
  from v obtain key issued where k:
    "is_dict envelope \<and> set (dict_keys envelope) = {u ''body'', u ''signature''}"
    "claims expected release policy now (field envelope ''body'') = Inr (issued, kid)"
    "map_of registry kid = Some key" "registered key issued now = Inr (signer, domain)"
    "field (field envelope ''body'') ''rebuilder'' = PStr signer" "field (field envelope ''body'') ''domain'' = PStr domain"
    "signature verify key envelope (field envelope ''body'') = Inr ()"
    by (auto simp: receipt_valid_def claims_ok registered_ok signature_ok Let_def)
  have f: "check_fields envelope [''body'', ''signature''] ''receipt'' = Inr ()" using k(1) by (simp add: fields_ok)
  show ?l using n by (simp add: check_receipt_def Let_def f k(2-) a)
qed

lemma check_all_ok:
  "foldE (check_receipt verify expected registry now release policy) acc rs = Inr out \<longleftrightarrow>
     (\<exists>ids. out = acc @ ids \<and> list_all2 (receipt_valid verify expected registry now release policy) rs ids
      \<and> distinct (map fst ids) \<and> distinct (map (fst \<circ> snd) ids) \<and> distinct (map (snd \<circ> snd) ids)
      \<and> set (map fst ids) \<inter> set (map fst acc) = {} \<and> set (map (fst \<circ> snd) ids) \<inter> set (map (fst \<circ> snd) acc) = {}
      \<and> set (map (snd \<circ> snd) ids) \<inter> set (map (snd \<circ> snd) acc) = {})"
proof (induction rs arbitrary: acc)
  case (Cons r rs)
  let ?valid = "receipt_valid verify expected registry now release policy"
  show ?case (is "?l \<longleftrightarrow> ?r")
  proof
    assume ?l
    then obtain acc' where 1: "check_receipt verify expected registry now release policy acc r = Inr acc'"
      and 2: "foldE (check_receipt verify expected registry now release policy) acc' rs = Inr out" by (auto simp: bindE_eq_Inr)
    from 1 obtain kid signer domain where v: "?valid r (kid, signer, domain)" "kid \<notin> set (map fst acc)" "signer \<notin> set (map (fst \<circ> snd) acc)"
      "domain \<notin> set (map (snd \<circ> snd) acc)" "acc' = acc @ [(kid, signer, domain)]" unfolding check_receipt_ok by blast
    from 2 obtain ids where i: "out = acc' @ ids" "list_all2 ?valid rs ids" "distinct (map fst ids)" "distinct (map (fst \<circ> snd) ids)"
      "distinct (map (snd \<circ> snd) ids)" "set (map fst ids) \<inter> set (map fst acc') = {}" "set (map (fst \<circ> snd) ids) \<inter> set (map (fst \<circ> snd) acc') = {}"
      "set (map (snd \<circ> snd) ids) \<inter> set (map (snd \<circ> snd) acc') = {}" unfolding Cons.IH by blast
    show ?r using v i by (intro exI [of _ "(kid, signer, domain) # ids"]) (auto simp: comp_def)
  next
    assume ?r
    then obtain ids where i: "out = acc @ ids" "list_all2 ?valid (r # rs) ids" "distinct (map fst ids)" "distinct (map (fst \<circ> snd) ids)"
      "distinct (map (snd \<circ> snd) ids)" "set (map fst ids) \<inter> set (map fst acc) = {}" "set (map (fst \<circ> snd) ids) \<inter> set (map (fst \<circ> snd) acc) = {}"
      "set (map (snd \<circ> snd) ids) \<inter> set (map (snd \<circ> snd) acc) = {}" by blast
    from i(2) obtain x ids' where x: "ids = x # ids'" "?valid r x" "list_all2 ?valid rs ids'" by (auto simp: list_all2_Cons1)
    obtain kid signer domain where k: "x = (kid, signer, domain)" by (cases x) auto
    have 1: "check_receipt verify expected registry now release policy acc r = Inr (acc @ [x])"
      unfolding check_receipt_ok using x i by (auto simp: k)
    have 2: "foldE (check_receipt verify expected registry now release policy) (acc @ [x]) rs = Inr out"
      unfolding Cons.IH using x i by (intro exI [of _ ids']) auto
    show ?l using 1 2 by simp
  qed
qed auto

text \<open>C36: Receipts are accepted exactly when each of at most 32 is valid on its own, about exactly the expected artifact
  under the release and policy, and no two share a key, a principal or a domain, at least as many as the
  threshold of two to eight; the report counts them and permits nothing.\<close>

theorem check_receipts_exact:
  "check_receipts verify (PList rs) expected registry (PInt now) (PStr release) (PStr policy) (PInt threshold) = Inr v \<longleftrightarrow>
     subject expected = Inr () \<and> digest_ok release \<and> digest_ok policy \<and> 1 \<le> now \<and> now \<le> MAX_TIME \<and> 2 \<le> threshold \<and> threshold \<le> 8 \<and> length rs \<le> 32
   \<and> (\<exists>ids. list_all2 (receipt_valid verify expected registry now release policy) rs ids
        \<and> distinct (map fst ids) \<and> distinct (map (fst \<circ> snd) ids) \<and> distinct (map (snd \<circ> snd) ids)
        \<and> threshold \<le> int (length ids) \<and> v = receipts_report expected (length ids))" (is "?l \<longleftrightarrow> ?r")
proof
  assume ?l
  then have g: "subject expected = Inr ()" "digest_ok release" "digest_ok policy" "1 \<le> now" "now \<le> MAX_TIME" "2 \<le> threshold" "threshold \<le> 8" "length rs \<le> 32"
    and "\<exists>ids. foldE (check_receipt verify expected registry now release policy) [] rs = Inr ids \<and> \<not> int (length ids) < threshold
       \<and> v = receipts_report expected (length ids)"
    unfolding check_receipts_def by (auto simp: bindE_eq_Inr digest_ok_iff integer_ok split: if_splits)
  then obtain ids where i: "foldE (check_receipt verify expected registry now release policy) [] rs = Inr ids" "threshold \<le> int (length ids)"
    "v = receipts_report expected (length ids)" by auto
  show ?r using i(1) [unfolded check_all_ok] i(2,3) g by auto
next
  assume r: ?r
  then obtain ids where i: "list_all2 (receipt_valid verify expected registry now release policy) rs ids" "distinct (map fst ids)"
    "distinct (map (fst \<circ> snd) ids)" "distinct (map (snd \<circ> snd) ids)" "threshold \<le> int (length ids)" "v = receipts_report expected (length ids)" by blast
  have f: "foldE (check_receipt verify expected registry now release policy) [] rs = Inr ids" unfolding check_all_ok using i by simp
  show ?l using r f i(5,6) by (simp add: check_receipts_def digest_def digest_str_def integer_def)
qed

section \<open>An example\<close>

definition example_subject :: pyval where
  "example_subject = PDict [(u ''deb_sha256'', PStr (replicate 64 49)), (u ''source_manifest_sha256'', PStr (replicate 64 50)),
     (u ''buildinfo_sha256'', PStr (replicate 64 51)), (u ''package'', PStr (u ''bash'')), (u ''version'', PStr (u ''5.2-1'')), (u ''architecture'', PStr (u ''amd64''))]"

definition example_body :: "string \<Rightarrow> pyval" where
  "example_body name = PDict [(u ''schema'', PStr (u ''org.niaos.reproduction/v1'')), (u ''subject'', example_subject), (u ''release_sha256'', PStr (replicate 64 97)),
     (u ''policy_sha256'', PStr (replicate 64 98)), (u ''rebuilder'', PStr (u name)), (u ''domain'', PStr (u name)), (u ''key_id'', PStr (u name)),
     (u ''issued'', PInt 1000), (u ''expires'', PInt 5000), (u ''observed_sha256'', PStr (replicate 64 49)), (u ''method'', PStr (u ''rebuild-official-binary''))]"

definition example_receipt :: "string \<Rightarrow> pyval" where
  "example_receipt name = PDict [(u ''body'', example_body name), (u ''signature'', PStr (concat (replicate 21 (u ''ERER'')) @ u ''EQ==''))]"

definition example_key :: "string \<Rightarrow> pyval" where
  "example_key name = PDict [(u ''public_key'', PStr (concat (replicate 32 (u ''11'')))), (u ''principal'', PStr (u name)), (u ''domain'', PStr (u name)),
     (u ''revoked'', PBool False), (u ''valid_from'', PInt 500), (u ''valid_until'', PInt 9000)]"

definition example_verifier :: verifier where
  "example_verifier pub sig message \<longleftrightarrow> take 32 sig = pub"

definition example_registry :: "(pystr \<times> pyval) list" where
  "example_registry = [(u ''a'', example_key ''a''), (u ''b'', example_key ''b'')]"

lemma example_pieces:
  "claims example_subject (replicate 64 97) (replicate 64 98) 2000 (example_body ''a'') = Inr (1000, u ''a'')"
  "claims example_subject (replicate 64 97) (replicate 64 98) 2000 (example_body ''b'') = Inr (1000, u ''b'')"
  "registered (example_key ''a'') 1000 2000 = Inr (u ''a'', u ''a'')" "registered (example_key ''b'') 1000 2000 = Inr (u ''b'', u ''b'')"
  "bytes_fromhex (concat (replicate 32 (u ''11''))) = Inr (replicate 32 17)"
  "b64decode (concat (replicate 21 (u ''ERER'')) @ u ''EQ=='') = Inr (replicate 64 17)"
  by code_simp+

lemma example_signature: "signature example_verifier (example_key n) (example_receipt n) body = Inr ()"
proof -
  have "field (example_key n) ''public_key'' = PStr (concat (replicate 32 (u ''11'')))" "field (example_receipt n) ''signature'' = PStr (concat (replicate 21 (u ''ERER'')) @ u ''EQ=='')"
    by (simp_all add: field_def example_key_def example_receipt_def)
  then show ?thesis unfolding signature_ok signature_valid_def
    by (intro exI [of _ "concat (replicate 32 (u ''11''))"] exI [of _ "concat (replicate 21 (u ''ERER'')) @ u ''EQ==''"] exI [of _ "replicate 32 17"] exI [of _ "replicate 64 17"])
      (simp add: example_pieces(5,6) example_verifier_def)
qed

lemma example_fields:
  "check_fields (example_receipt n) [''body'', ''signature''] ''receipt'' = Inr ()" "field (example_receipt n) ''body'' = example_body n"
  "field (example_body n) ''rebuilder'' = PStr (u n)" "field (example_body n) ''domain'' = PStr (u n)"
  by (simp_all add: fields_ok is_dict_def dict_keys_def field_def example_receipt_def example_body_def)

lemma example_accepted:
  "check_receipts example_verifier (PList [example_receipt ''a'', example_receipt ''b'']) example_subject example_registry
     (PInt 2000) (PStr (replicate 64 97)) (PStr (replicate 64 98)) (PInt 2) = Inr (receipts_report example_subject 2)"
proof -
  have 1: "check_receipt example_verifier example_subject example_registry 2000 (replicate 64 97) (replicate 64 98) [] (example_receipt ''a'') = Inr [(u ''a'', u ''a'', u ''a'')]"
    by (simp add: check_receipt_def example_fields example_pieces example_signature example_registry_def)
  have 2: "check_receipt example_verifier example_subject example_registry 2000 (replicate 64 97) (replicate 64 98) [(u ''a'', u ''a'', u ''a'')] (example_receipt ''b'')
      = Inr [(u ''a'', u ''a'', u ''a''), (u ''b'', u ''b'', u ''b'')]"
    by (simp add: check_receipt_def example_fields example_pieces example_signature example_registry_def)
  have "subject example_subject = Inr ()" "digest (PStr (replicate 64 97)) = Inr (replicate 64 97)" "digest (PStr (replicate 64 98)) = Inr (replicate 64 98)"
    by code_simp+
  then show ?thesis by (simp add: check_receipts_def 1 2 integer_def MAX_TIME_def numeral_2_eq_2)
qed

theorem check_receipts_exact_witness:
  "\<exists>ids. list_all2 (receipt_valid example_verifier example_subject example_registry 2000 (replicate 64 97) (replicate 64 98))
       [example_receipt ''a'', example_receipt ''b''] ids \<and> distinct (map fst ids) \<and> length ids = 2"
proof -
  from example_accepted [unfolded check_receipts_exact] obtain ids where
    i: "list_all2 (receipt_valid example_verifier example_subject example_registry 2000 (replicate 64 97) (replicate 64 98))
       [example_receipt ''a'', example_receipt ''b''] ids" "distinct (map fst ids)" by blast
  from list_all2_lengthD [OF i(1)] have "length ids = 2" by simp
  with i show ?thesis by blast
qed

end
