(* ===== verification/Tuf_Checkpoint.thy ===== *)
theory Tuf_Checkpoint
  imports Nia_Common Py_Base64
begin

text \<open>
  The pure part of \<open>native/repository.py\<close>: target paths, base URLs, and the checkpoint of the metadata cache, with
  the parts of \<open>urllib.parse.urlsplit\<close> the code looks at. \<open>refuses netloc\<close> says whether the library refuses a
  bracketed address or a network location that is not ASCII.
\<close>

definition MAX_METADATA :: nat where
  "MAX_METADATA = 5 * 1024 * 1024"

definition MAX_TARGET :: int where
  "MAX_TARGET = 272 * 1024 * 1024"

definition MAX_TRANSFER :: int where
  "MAX_TRANSFER = 320 * 1024 * 1024"

definition MAX_REQUESTS :: int where
  "MAX_REQUESTS = 256"

definition MAX_CHECKPOINT :: nat where
  "MAX_CHECKPOINT = 96 * 1024 * 1024"

section \<open>Target paths and base URLs\<close>

definition target_char :: "nat \<Rightarrow> bool" where
  "target_char c \<longleftrightarrow> ascii_alnum c \<or> c \<in> set (u ''_+.-'')"

text \<open>\<open>TARGET\<close>: names joined by slashes (47).\<close>

definition match_target :: "pystr \<Rightarrow> bool" where
  "match_target s \<longleftrightarrow> list_all (\<lambda>p. p \<noteq> [] \<and> list_all target_char p) (split_on 47 s)"

definition target_path :: "pystr \<Rightarrow> pystr res" where
  "target_path s =
     (if \<not> (1 \<le> length s \<and> length s \<le> 1024) \<or> \<not> match_target s \<or> list_ex (\<lambda>p. p \<in> {u ''.'', u ''..''}) (split_on 47 s)
      then invalid ''unsupported repository target path'' else Inr s)"

record url_parts =
  scheme :: pystr
  netloc :: pystr
  url_path :: pystr
  query :: pystr
  fragment :: pystr

text \<open>\<open>s.partition(c)\<close>: the part before the first \<open>c\<close>, and the part after it.\<close>

definition cut :: "nat \<Rightarrow> pystr \<Rightarrow> pystr \<times> pystr" where
  "cut c s = (case split_first c s of None \<Rightarrow> (s, []) | Some p \<Rightarrow> p)"

definition scheme_char :: "nat \<Rightarrow> bool" where
  "scheme_char c \<longleftrightarrow> ascii_alnum c \<or> c \<in> set (u ''+-.'')"

definition ascii_fold :: "pystr \<Rightarrow> pystr" where
  "ascii_fold s = map (\<lambda>c. if ascii_upper c then c + 32 else c) s"

text \<open>The scheme and what follows it; 58 is the colon.\<close>

definition split_scheme :: "pystr \<Rightarrow> pystr \<times> pystr" where
  "split_scheme url = (case split_first 58 url of
       Some (a # s, rest) \<Rightarrow> if (ascii_lower a \<or> ascii_upper a) \<and> list_all scheme_char s then (ascii_fold (a # s), rest) else ([], url)
     | _ \<Rightarrow> ([], url))"

definition url_delimiter :: "nat \<Rightarrow> bool" where
  "url_delimiter c \<longleftrightarrow> c \<in> set (u ''/?#'')"

definition urlsplit :: "(pystr \<Rightarrow> bool) \<Rightarrow> pystr \<Rightarrow> url_parts res" where
  "urlsplit refuses value =
     (let url = filter (\<lambda>c. c \<notin> {9, 10, 13}) (lstrip (\<lambda>c. c \<le> 32) value); (sch, rest) = split_scheme url;
          (loc, tail) = (if startswith rest (u ''//'') then (takeWhile (\<lambda>c. \<not> url_delimiter c) (drop 2 rest), dropWhile (\<lambda>c. \<not> url_delimiter c) (drop 2 rest)) else ([], rest));
          (rest1, frag) = cut 35 tail; (pth, qry) = cut 63 rest1 in
      if (91 \<in> set loc) \<noteq> (93 \<in> set loc) \<or> refuses loc then Inl ValueError
      else Inr \<lparr>scheme = sch, netloc = loc, url_path = pth, query = qry, fragment = frag\<rparr>)"

text \<open>\<open>_hostinfo\<close>: the host without its user, and the port.\<close>

definition host_port :: "pystr \<Rightarrow> pystr \<times> pystr" where
  "host_port loc = (let host = (case split_last 64 loc of None \<Rightarrow> loc | Some (_, h) \<Rightarrow> h) in
     case split_first 91 host of
       None \<Rightarrow> cut 58 host
     | Some (_, bracketed) \<Rightarrow> (let (h, p) = cut 93 bracketed in (h, snd (cut 58 p))))"

definition port_ok :: "pystr \<Rightarrow> bool" where
  "port_ok p \<longleftrightarrow> p = [] \<or> (list_all ascii_digit p \<and> digits_value (map (\<lambda>c. c - 48) p) \<le> 65535)"

definition base_url :: "(pystr \<Rightarrow> bool) \<Rightarrow> pystr \<Rightarrow> pystr res" where
  "base_url refuses value =
     (if \<not> (1 \<le> length value \<and> length value \<le> 2048) then invalid ''repository URL size/type''
      else bindE (urlsplit refuses value) (\<lambda>parts.
        if scheme parts \<noteq> u ''https'' \<or> fst (host_port (netloc parts)) = [] \<or> 64 \<in> set (netloc parts) \<or> query parts \<noteq> [] \<or> fragment parts \<noteq> []
           \<or> list_ex (\<lambda>c. 128 \<le> c) value \<or> list_ex (\<lambda>c. c \<le> 32 \<or> c = 127) value \<or> 37 \<in> set value \<or> 92 \<in> set value
        then invalid ''repository requires an explicit HTTPS base without credentials or escapes''
        else bindE (if url_path parts \<in> {[], [47]} then Inr [] else target_path (strip (\<lambda>c. c = 47) (url_path parts))) (\<lambda>_.
          if \<not> port_ok (snd (host_port (netloc parts))) then invalid ''repository URL port''
          else Inr (rstrip (\<lambda>c. c = 47) value @ [47]))))"

section \<open>The checkpoint\<close>

type_synonym metadata = "(pystr \<times> pybytes) list"

text \<open>\<open>[A-Za-z0-9_.-]{1,170}\.json\<close>.\<close>

definition metadata_name :: "pystr \<Rightarrow> bool" where
  "metadata_name s \<longleftrightarrow> (let stem = take (length s - 5) s in s = stem @ u ''.json'' \<and> 1 \<le> length stem \<and> length stem \<le> 170
     \<and> list_all (\<lambda>c. ascii_alnum c \<or> c \<in> set (u ''_.-'')) stem)"

definition check_metadata_entry :: "nat \<Rightarrow> pystr \<times> pybytes \<Rightarrow> nat res" where
  "check_metadata_entry so_far = (\<lambda>(name, raw).
     if \<not> metadata_name name then invalid ''checkpoint metadata name''
     else if \<not> (1 \<le> length raw \<and> length raw \<le> MAX_METADATA) then invalid ''checkpoint metadata size/type''
     else Inr (so_far + length raw))"

definition checkpoint_val :: "metadata \<Rightarrow> pyval" where
  "checkpoint_val m = PDict [(u ''schema'', PStr (u ''org.niaos.tuf-checkpoint/v1'')),
     (u ''metadata'', PDict (map (\<lambda>p. (fst p, PStr (b64encode (snd p)))) m))]"

definition encode_checkpoint :: "metadata \<Rightarrow> pybytes res" where
  "encode_checkpoint m =
     (if \<not> (1 \<le> length m \<and> length m \<le> 128) \<or> u ''root.json'' \<notin> set (map fst m) then invalid ''checkpoint metadata set''
      else bindE (foldE check_metadata_entry 0 m) (\<lambda>whole.
        if whole > 64 * 1024 * 1024 then invalid ''checkpoint total metadata size'' else Inr (canonical (checkpoint_val m))))"

definition decode_entry :: "pystr \<times> pyval \<Rightarrow> (pystr \<times> pybytes) res" where
  "decode_entry = (\<lambda>(name, v). case v of
       PStr s \<Rightarrow> if length s > (MAX_METADATA + 2) div 3 * 4 then invalid ''checkpoint encoded metadata size/type''
                 else bindE (b64decode s) (\<lambda>b. Inr (name, b))
     | _ \<Rightarrow> invalid ''checkpoint encoded metadata size/type'')"

definition decode_checkpoint :: "nat \<Rightarrow> pybytes \<Rightarrow> metadata res" where
  "decode_checkpoint depth raw =
     bindE (parse_json_limit MAX_CHECKPOINT depth raw) (\<lambda>body.
     bindE (check_fields body [''schema'', ''metadata''] ''repository checkpoint'') (\<lambda>_.
     case field body ''metadata'' of
       PDict d \<Rightarrow>
         if field body ''schema'' \<noteq> PStr (u ''org.niaos.tuf-checkpoint/v1'') \<or> length d > 128 then invalid ''checkpoint schema/count''
         else bindE (exceptE value_error (Invalid (u ''checkpoint encoding'')) (mapE decode_entry d)) (\<lambda>result.
           bindE (encode_checkpoint result) (\<lambda>_. Inr result))
     | _ \<Rightarrow> invalid ''checkpoint schema/count''))"

section \<open>What was encoded is read back\<close>

lemma sum_list_sorted_items: "sum_list (map f (sorted_items d)) = sum_list (map f d)" for f :: "_ \<Rightarrow> nat"
proof -
  have "mset (map f (sorted_items d)) = mset (map f d)" by (simp add: sorted_items_def)
  then show ?thesis by (metis sum_mset_sum_list)
qed

lemma check_metadata_entries:
  "foldE check_metadata_entry n m = Inr k \<longleftrightarrow> (\<forall>p \<in> set m. metadata_name (fst p) \<and> 1 \<le> length (snd p) \<and> length (snd p) \<le> MAX_METADATA)
     \<and> k = n + sum_list (map (\<lambda>p. length (snd p)) m)"
proof (induction m arbitrary: n)
  case (Cons p m)
  obtain name raw where p: "p = (name, raw)" by (cases p)
  have "check_metadata_entry n p = Inr x \<longleftrightarrow> metadata_name name \<and> 1 \<le> length raw \<and> length raw \<le> MAX_METADATA \<and> x = n + length raw" for x
    by (auto simp: check_metadata_entry_def p)
  then show ?case by (auto simp: bindE_eq_Inr Cons.IH p)
qed auto

lemma encode_checkpoint_ok:
  "encode_checkpoint m = Inr raw \<longleftrightarrow> 1 \<le> length m \<and> length m \<le> 128 \<and> u ''root.json'' \<in> set (map fst m)
     \<and> (\<forall>p \<in> set m. metadata_name (fst p) \<and> 1 \<le> length (snd p) \<and> length (snd p) \<le> MAX_METADATA)
     \<and> sum_list (map (\<lambda>p. length (snd p)) m) \<le> 64 * 1024 * 1024 \<and> raw = canonical (checkpoint_val m)"
  by (auto simp: encode_checkpoint_def bindE_eq_Inr check_metadata_entries not_le not_less Suc_le_eq split: if_splits)

definition sorted_val :: "metadata \<Rightarrow> pyval" where
  "sorted_val m = PDict [(u ''metadata'', PDict (map (\<lambda>p. (fst p, PStr (b64encode (snd p)))) (sorted_items m))),
     (u ''schema'', PStr (u ''org.niaos.tuf-checkpoint/v1''))]"

lemma key_order: "u ''metadata'' < u ''schema''"
  by code_simp

lemma normal_checkpoint: "normal (checkpoint_val m) = sorted_val m"
proof -
  have "sorted_items [(u ''schema'', x), (u ''metadata'', y)] = [(u ''metadata'', y), (u ''schema'', x)]" for x y :: pyval
    using key_order by (simp add: sorted_items_def)
  moreover have "sorted_items (map (\<lambda>p. (fst p, normal (snd p))) (map (\<lambda>p. (fst p, PStr (b64encode (snd p)))) m))
      = map (\<lambda>p. (fst p, PStr (b64encode (snd p)))) (sorted_items m)"
    using sorted_items_map [of "\<lambda>b. PStr (b64encode b)" m] by (simp add: comp_def)
  ultimately show ?thesis by (simp add: checkpoint_val_def sorted_val_def)
qed

lemma metadata_name_chars: "metadata_name s \<Longrightarrow> length s \<le> 175 \<and> (\<forall>c \<in> set s. 32 \<le> c \<and> c < 127 \<and> c \<noteq> 34 \<and> c \<noteq> 92)"
proof -
  assume "metadata_name s"
  then obtain stem where s: "s = stem @ u ''.json''" "length stem \<le> 170" "list_all (\<lambda>c. ascii_alnum c \<or> c \<in> set (u ''_.-'')) stem"
    by (auto simp: metadata_name_def Let_def)
  have "\<forall>c \<in> set (u ''.json'') \<union> set (u ''_.-''). 32 \<le> c \<and> c < 127 \<and> c \<noteq> 34 \<and> c \<noteq> 92" by code_simp
  moreover have "ascii_alnum c \<Longrightarrow> 32 \<le> c \<and> c < 127 \<and> c \<noteq> 34 \<and> c \<noteq> 92" for c
    by (auto simp: ascii_alnum_def ascii_digit_def ascii_lower_def ascii_upper_def)
  ultimately show ?thesis using s by (auto simp: list_all_iff)
qed

lemma b64_char_plain: "n < 64 \<Longrightarrow> 32 \<le> b64_char n \<and> b64_char n < 127 \<and> b64_char n \<noteq> 34 \<and> b64_char n \<noteq> 92"
  by (auto simp: b64_char_def)

lemma b64_groups_plain: "\<forall>x \<in> set ns. x < 256 \<Longrightarrow> c \<in> set (b64_groups ns) \<Longrightarrow> 32 \<le> c \<and> c < 127 \<and> c \<noteq> 34 \<and> c \<noteq> 92"
proof (induction ns rule: b64_groups.induct)
  case (1 a b c' r)
  then show ?case using b64_bits(1-3) [of a b c'] by (auto simp: b64_char_plain)
next
  case (2 a b)
  then show ?case using b64_bits(1,2,5) [of a b 0] by (auto simp: b64_char_plain)
next
  case (3 a)
  then show ?case using b64_bits(1,4) [of a 0 0] by (auto simp: b64_char_plain)
qed simp

lemma b64encode_plain: "c \<in> set (b64encode b) \<Longrightarrow> 32 \<le> c \<and> c < 127 \<and> c \<noteq> 34 \<and> c \<noteq> 92"
  unfolding b64encode_def by (rule b64_groups_plain [rotated]) (auto intro: unat_byte)

lemma length_dump_plain: "(\<forall>c \<in> set s. 32 \<le> c \<and> c < 127 \<and> c \<noteq> 34 \<and> c \<noteq> 92) \<Longrightarrow> length (dump_str s) = length s + 2"
proof -
  assume "\<forall>c \<in> set s. 32 \<le> c \<and> c < 127 \<and> c \<noteq> 34 \<and> c \<noteq> 92"
  then have "concat (map escape_char s) = s"
  proof (induction s)
    case (Cons c s)
    then have "escape_char c = [c]" by (simp add: escape_char_def)
    with Cons show ?case by simp
  qed simp
  then show ?thesis by (simp add: dump_str_def)
qed

lemma plain_scalar: "(\<forall>c \<in> set s. 32 \<le> c \<and> c < 127 \<and> c \<noteq> 34 \<and> c \<noteq> 92) \<Longrightarrow> scalar_str s"
  by (auto simp: scalar_str_def list_all_iff is_scalar_def)

lemma length_join_on: "length (join_on [c] ws) \<le> sum_list (map length ws) + length ws"
  by (induction "[c]" ws rule: join_on.induct) auto

lemma length_b64_bound: "3 * length (b64encode b) \<le> 4 * (length b + 2)"
proof -
  have "3 * ((length b + 2) div 3 * 4) \<le> 4 * (length b + 2)" by simp
  then show ?thesis by (simp add: length_b64encode)
qed

text \<open>The members of the encoded metadata, and the length of the whole.\<close>

definition entry_member :: "pystr \<times> pybytes \<Rightarrow> pystr" where
  "entry_member p = dump_member (fst p, PStr (b64encode (snd p)))"

lemma length_entry_member: "metadata_name (fst p) \<Longrightarrow> 3 * length (entry_member p) \<le> 4 * length (snd p) + 600"
proof -
  assume "metadata_name (fst p)"
  from metadata_name_chars [OF this] have n: "length (fst p) \<le> 175" "length (dump_str (fst p)) = length (fst p) + 2" using length_dump_plain [of "fst p"] by auto
  have "length (dump_str (b64encode (snd p))) = length (b64encode (snd p)) + 2" using b64encode_plain by (intro length_dump_plain) blast
  then show ?thesis using n length_b64_bound [of "snd p"] by (simp add: entry_member_def dump_member_def)
qed

lemma length_sorted_val:
  assumes "\<forall>p \<in> set m. metadata_name (fst p)"
  shows "3 * length (dumps (sorted_val m)) \<le> 4 * sum_list (map (\<lambda>p. length (snd p)) m) + 603 * length m + 300"
proof -
  let ?n = "sorted_items m"
  let ?ms = "map (\<lambda>p. (fst p, PStr (b64encode (snd p)))) ?n"
  have inner: "dumps (PDict ?ms) = 123 # join_on [44] (map entry_member ?n) @ [125]"
    by (subst dumps_dict) (simp_all add: comp_def entry_member_def [abs_def])
  have each: "3 * sum_list (map length (map entry_member xs)) \<le> 4 * sum_list (map (\<lambda>p. length (snd p)) xs) + 600 * length xs"
    if "\<forall>p \<in> set xs. metadata_name (fst p)" for xs
    using that
  proof (induction xs)
    case (Cons p xs)
    then have "3 * sum_list (map length (map entry_member xs)) \<le> 4 * sum_list (map (\<lambda>p. length (snd p)) xs) + 600 * length xs"
      "3 * length (entry_member p) \<le> 4 * length (snd p) + 600" using length_entry_member [of p] by simp_all
    then show ?case by simp
  qed simp
  have "3 * length (join_on [44] (map entry_member ?n)) \<le> 4 * sum_list (map (\<lambda>p. length (snd p)) m) + 603 * length m"
    using each [of ?n] assms length_join_on [of 44 "map entry_member ?n"] by (simp add: sum_list_sorted_items)
  moreover have "length (dumps (sorted_val m)) = length (dumps (PDict ?ms)) + 52"
  proof -
    have s: "sorted (map fst [(u ''metadata'', PDict ?ms), (u ''schema'', PStr (u ''org.niaos.tuf-checkpoint/v1''))])" using key_order by simp
    have "length (dump_str (u ''metadata'')) = 10" "length (dump_str (u ''schema'')) = 8" "length (dump_str (u ''org.niaos.tuf-checkpoint/v1'')) = 29" by code_simp+
    then show ?thesis unfolding sorted_val_def by (subst dumps_dict [OF s]) (simp add: dump_member_def del: dumps.simps(6) add: dumps.simps(4))
  qed
  ultimately show ?thesis unfolding inner by simp
qed

lemma encoded_fits:
  assumes "encode_checkpoint m = Inr raw"
  shows "length raw \<le> MAX_CHECKPOINT"
proof -
  from assms have m: "length m \<le> 128" "\<forall>p \<in> set m. metadata_name (fst p)" "sum_list (map (\<lambda>p. length (snd p)) m) \<le> 64 * 1024 * 1024"
    and raw: "raw = canonical (checkpoint_val m)" by (auto simp: encode_checkpoint_ok)
  have "length raw = length (dumps (sorted_val m))" unfolding raw length_canonical by (metis dumps_normal normal_checkpoint)
  then show ?thesis using length_sorted_val [OF m(2)] m(1,3) by (simp add: MAX_CHECKPOINT_def)
qed

lemma encoded_read_back:
  assumes "encode_checkpoint m = Inr raw" "distinct (map fst m)" "2 \<le> depth"
  shows "decode_checkpoint depth raw = Inr (sorted_items m)"
proof -
  from assms(1) have m: "length m \<le> 128" "\<forall>p \<in> set m. metadata_name (fst p) \<and> length (snd p) \<le> MAX_METADATA" and raw: "raw = canonical (checkpoint_val m)"
    by (auto simp: encode_checkpoint_ok)
  have raw': "raw = canonical (sorted_val m)" unfolding raw canonical_def by (metis dumps_normal normal_checkpoint)
  have name: "scalar_str (fst p)" if "p \<in> set m" for p using metadata_name_chars [of "fst p"] m(2) that by (blast intro: plain_scalar)
  have b64: "scalar_str (b64encode b)" for b using b64encode_plain by (intro plain_scalar) blast
  have "distinct (map fst (sorted_items m))" using assms(2) by simp
  then have canon: "canon_val (sorted_val m)"
    using key_order name b64 by (auto simp: sorted_val_def comp_def scalar_str_def list_all_iff is_scalar_def u_def)
  have "nesting (sorted_val m) \<le> depth"
  proof -
    have "fold max (map (\<lambda>p. nesting (snd p)) (map (\<lambda>p. (fst p, PStr (b64encode (snd p)))) xs)) 0 = 0" for xs :: metadata by (induction xs) simp_all
    then show ?thesis using assms(3) by (simp add: sorted_val_def)
  qed
  from parse_canonical [OF canon this encoded_fits [OF assms(1), unfolded raw']]
  have p: "parse_json_limit MAX_CHECKPOINT depth raw = Inr (sorted_val m)" by (simp add: raw')
  have f: "check_fields (sorted_val m) [''schema'', ''metadata''] ''repository checkpoint'' = Inr ()"
    "field (sorted_val m) ''metadata'' = PDict (map (\<lambda>p. (fst p, PStr (b64encode (snd p)))) (sorted_items m))"
    "field (sorted_val m) ''schema'' = PStr (u ''org.niaos.tuf-checkpoint/v1'')"
    by (auto simp: fields_ok is_dict_def dict_keys_def sorted_val_def field_def)
  have e: "decode_entry (fst p, PStr (b64encode (snd p))) = Inr p" if "p \<in> set m" for p
  proof -
    have "length (b64encode (snd p)) \<le> (MAX_METADATA + 2) div 3 * 4"
      using m(2) that by (auto simp: length_b64encode intro!: mult_le_mono1 div_le_mono)
    then show ?thesis by (cases p) (simp add: decode_entry_def b64decode_encode)
  qed
  have "mapE decode_entry (map (\<lambda>p. (fst p, PStr (b64encode (snd p)))) xs) = Inr xs" if "set xs \<subseteq> set m" for xs
    using that by (induction xs) (simp_all add: e)
  then have d: "mapE decode_entry (map (\<lambda>p. (fst p, PStr (b64encode (snd p)))) (sorted_items m)) = Inr (sorted_items m)" by simp
  have "sum_list (map (\<lambda>p. length (snd p)) (sorted_items m)) = sum_list (map (\<lambda>p. length (snd p)) m)" by (rule sum_list_sorted_items)
  then have "encode_checkpoint (sorted_items m) = Inr (canonical (checkpoint_val (sorted_items m)))"
    using assms(1) unfolding encode_checkpoint_ok by simp
  then show ?thesis using m(1) by (simp add: decode_checkpoint_def p f d)
qed

text \<open>C37: A checkpoint that was encoded is read back: the reader returns exactly the metadata, in the order of their names.\<close>

theorem tuf_checkpoint_roundtrip:
  assumes "encode_checkpoint m = Inr raw" "distinct (map fst m)" "2 \<le> depth"
  shows "decode_checkpoint depth raw = Inr (sorted_items m)"
  using assms by (rule encoded_read_back)

section \<open>Examples\<close>

text \<open>An empty query passes: the base URL then ends in a question mark and a slash, and what is appended to it is a query.\<close>

lemma base_url_empty_query: "base_url (\<lambda>_. False) (u ''https://h/a?'') = Inr (u ''https://h/a?/'')"
  by code_simp

definition example_metadata :: metadata where
  "example_metadata = [(u ''root.json'', [1, 2]), (u ''1.mirror.json'', [3])]"

lemma example_encoded: "encode_checkpoint example_metadata = Inr (canonical (checkpoint_val example_metadata))"
proof -
  have "metadata_name (u ''root.json'')" "metadata_name (u ''1.mirror.json'')" by code_simp+
  then show ?thesis by (simp add: encode_checkpoint_ok example_metadata_def MAX_METADATA_def)
qed

theorem tuf_checkpoint_roundtrip_witness:
  "decode_checkpoint 5 (canonical (checkpoint_val example_metadata)) = Inr [(u ''1.mirror.json'', [3]), (u ''root.json'', [1, 2])]"
proof -
  have "sorted_items example_metadata = [(u ''1.mirror.json'', [3]), (u ''root.json'', [1, 2])]" "distinct (map fst example_metadata)" by code_simp+
  with tuf_checkpoint_roundtrip [OF example_encoded, of 5] show ?thesis by simp
qed

end
