(* ===== verification/Repository.thy ===== *)
theory Repository
  imports Tuf_Checkpoint Nia_Files Native_Observer
begin

text \<open>
  The session of \<open>native/repository.py\<close>: the bounded fetcher, the retained metadata, the locked cache directory, and
  the class \<open>Repository\<close> with \<open>target\<close>, \<open>revalidate_target\<close> and \<open>close\<close>. The TUF client, the HTTPS library, the
  clocks (in nanoseconds) and the file system answer through arguments, one record per call of a method.
  \<open>published\<close> is the content of \<open>checkpoint.json\<close>.
\<close>

definition MAX_SESSION :: int where
  "MAX_SESSION = 120 * 10 ^ 9"

definition invalidS :: "('s \<Rightarrow> bool) \<Rightarrow> string \<Rightarrow> (unit, 's) proc" where
  "invalidS bad msg s = (if bad s then (invalid msg, s) else (Inr (), s))"

text \<open>Leaving \<open>with TemporaryDirectory()\<close>: the cleanup is made however the body ended, and its failure replaces the result.\<close>

definition cleaned :: "'a res \<Rightarrow> unit res \<Rightarrow> 'a res" where
  "cleaned r cleanup = bindE cleanup (\<lambda>_. r)"

lemma cleaned_ok [simp]: "cleaned r cleanup = Inr x \<longleftrightarrow> cleanup = Inr () \<and> r = Inr x"
  by (auto simp: cleaned_def bindE_eq_Inr)

section \<open>The bounded fetcher\<close>

record fetcher =
  f_bases :: "pystr list"
  f_started :: int
  f_requests :: int
  f_bytes :: int

definition new_fetcher :: "(pystr \<Rightarrow> bool) \<Rightarrow> pystr \<Rightarrow> pystr \<Rightarrow> int \<Rightarrow> fetcher res" where
  "new_fetcher refuses metadata_url targets_url now =
     bindE (base_url refuses metadata_url) (\<lambda>a. bindE (base_url refuses targets_url) (\<lambda>b.
       Inr \<lparr>f_bases = [a, b], f_started = now, f_requests = 0, f_bytes = 0\<rparr>))"

definition inside :: "pystr list \<Rightarrow> pystr \<Rightarrow> bool" where
  "inside bases url \<longleftrightarrow> list_ex (\<lambda>base. startswith url base \<and> match_target (drop (length base) url)
     \<and> list_all (\<lambda>p. p \<notin> {u ''.'', u ''..''}) (split_on 47 (drop (length base) url))) bases"

definition download_error :: "string \<Rightarrow> 'a res" where
  "download_error s = Inl (DownloadError (u s))"

text \<open>One response: the clock, the status and the content encoding of the answer (if it came at all), its chunks and
  the clock after each.\<close>

record response =
  p_now :: int
  p_answer :: "(int \<times> pystr option) res"
  p_read :: "nat \<Rightarrow> pybytes res"
  p_times :: "nat \<Rightarrow> int"

text \<open>The loop over \<open>read1\<close>: the chunks yielded, the result, and the bytes counted so far.\<close>

function stream_chunks :: "response \<Rightarrow> int \<Rightarrow> nat \<Rightarrow> int \<Rightarrow> pybytes list \<times> unit res \<times> int" where
  "stream_chunks r started n bytes = (case p_read r n of
       Inl e \<Rightarrow> ([], Inl e, bytes)
     | Inr answer \<Rightarrow> let c = take (64 * 1024) answer in
         if c = [] then ([], Inr (), bytes)
         else if bytes + int (length c) > MAX_TRANSFER \<or> p_times r n - started \<ge> MAX_SESSION
         then ([], download_error ''repository transfer/time budget'', bytes + int (length c))
         else (case stream_chunks r started (Suc n) (bytes + int (length c)) of (cs, res, b) \<Rightarrow> (c # cs, res, b)))"
  by pat_completeness auto

termination
proof (relation "measure (\<lambda>(r, started, n, bytes). nat (MAX_TRANSFER - bytes))")
  fix r :: response and started bytes :: int and n :: nat and answer c :: pybytes
  assume "c \<noteq> []" "\<not> (bytes + int (length c) > MAX_TRANSFER \<or> p_times r n - started \<ge> MAX_SESSION)"
  then have "bytes < bytes + int (length c)" "bytes + int (length c) \<le> MAX_TRANSFER" by simp_all
  then have "nat (MAX_TRANSFER - (bytes + int (length c))) < nat (MAX_TRANSFER - bytes)" by linarith
  then show "((r, started, Suc n, bytes + int (length c)), r, started, n, bytes) \<in> measure (\<lambda>(r, started, n, bytes). nat (MAX_TRANSFER - bytes))" by simp
qed simp

declare stream_chunks.simps [simp del]

text \<open>\<open>_stream\<close>, as a method that yields chunks.\<close>

definition stream :: "pystr \<Rightarrow> response \<Rightarrow> fetcher \<Rightarrow> pybytes list \<times> unit res \<times> fetcher" where
  "stream url r f =
     (if \<not> inside (f_bases f) url then ([], download_error ''URL outside configured repository'', f)
      else let f1 = f\<lparr>f_requests := f_requests f + 1\<rparr> in
        if f_requests f1 > MAX_REQUESTS \<or> p_now r - f_started f1 \<ge> MAX_SESSION then ([], download_error ''repository request/time budget'', f1)
        else case p_answer r of
          Inl e \<Rightarrow> ([], Inl e, f1)
        | Inr (status, encoding) \<Rightarrow>
            if status \<noteq> 200 then ([], download_error ''repository HTTP status'', f1)
            else if (case encoding of None \<Rightarrow> False | Some e \<Rightarrow> e \<noteq> u ''identity'') then ([], download_error ''unexpected HTTP content encoding'', f1)
            else (case stream_chunks r (f_started f1) 0 (f_bytes f1) of (cs, res, b) \<Rightarrow> (cs, res, f1\<lparr>f_bytes := b\<rparr>)))"

text \<open>\<open>_fetch\<close>: the errors of the transport, \<open>requests.RequestException\<close> and \<open>urllib3\<close>'s \<open>HTTPError\<close>, become the client's.\<close>

definition fetch :: "(exn \<Rightarrow> bool) \<Rightarrow> pystr \<Rightarrow> response \<Rightarrow> fetcher \<Rightarrow> pybytes list \<times> unit res \<times> fetcher" where
  "fetch transport url r f = (case stream url r f of (cs, res, f') \<Rightarrow>
     (cs, exceptE transport (DownloadError (u ''repository HTTPS transport failed'')) res, f'))"

section \<open>Retained metadata\<close>

record retained =
  t_files :: "(pystr \<times> (pystr \<times> pybytes)) list"
  t_expiries :: "(pystr \<times> int) list"
  t_used :: "pystr list"
  t_requests :: int

text \<open>\<open>header raw\<close> is the version and the expiry of the metadata \<open>raw\<close>, by the TUF library.\<close>

definition retain_alias :: "pystr \<Rightarrow> pystr \<Rightarrow> pybytes \<Rightarrow> retained \<Rightarrow> pystr \<Rightarrow> retained res" where
  "retain_alias base name raw t al =
     (case map_of (t_files t) (base @ al) of
        Some other \<Rightarrow> if other \<noteq> (name, raw) then invalid ''ambiguous retained metadata name'' else Inr (t\<lparr>t_files := dict_set (base @ al) (name, raw) (t_files t)\<rparr>)
      | None \<Rightarrow> Inr (t\<lparr>t_files := dict_set (base @ al) (name, raw) (t_files t)\<rparr>))"

definition retain_one :: "(pybytes \<Rightarrow> (int \<times> int) res) \<Rightarrow> pystr \<Rightarrow> retained \<Rightarrow> pystr \<times> pybytes \<Rightarrow> retained res" where
  "retain_one header base t = (\<lambda>(name, raw). bindE (header raw) (\<lambda>(version, expires).
     foldE (retain_alias base name raw) (t\<lparr>t_expiries := dict_set name expires (t_expiries t)\<rparr>) [name, str_int version @ [46] @ name]))"

definition retain :: "(pybytes \<Rightarrow> (int \<times> int) res) \<Rightarrow> pystr \<Rightarrow> metadata \<Rightarrow> retained res" where
  "retain header base m = foldE (retain_one header base) \<lparr>t_files = [], t_expiries = [], t_used = [], t_requests = 0\<rparr> m"

definition retained_fetch :: "pystr \<Rightarrow> (pybytes, retained) proc" where
  "retained_fetch url =
     thenS (modifyS (\<lambda>t. t\<lparr>t_requests := t_requests t + 1\<rparr>))
     (thenS (invalidS (\<lambda>t. t_requests t > MAX_REQUESTS) ''retained metadata request budget'')
     (bindS (getS (\<lambda>t. map_of (t_files t) url)) (\<lambda>file. case file of
        None \<Rightarrow> liftS (download_error ''retained metadata absent'')
      | Some (name, raw) \<Rightarrow> thenS (modifyS (\<lambda>t. t\<lparr>t_used := t_used t @ [name]\<rparr>)) (ret raw))))"

text \<open>The requests a verifier makes, one after the other, and what each returned.\<close>

fun retained_all :: "pystr list \<Rightarrow> retained \<Rightarrow> pybytes res list \<times> retained" where
  "retained_all [] t = ([], t)"
| "retained_all (url # urls) t = (case retained_fetch url t of (r, t') \<Rightarrow> (case retained_all urls t' of (rs, t'') \<Rightarrow> (r # rs, t'')))"

section \<open>The cache directory\<close>

definition private_to :: "int \<Rightarrow> bool \<Rightarrow> stat_info \<Rightarrow> unit res" where
  "private_to euid dir s =
     (if \<not> (if dir then S_ISDIR (st_mode s) else S_ISREG (st_mode s)) \<or> st_uid s \<noteq> euid \<or> st_mode s AND 63 \<noteq> 0 \<or> (\<not> dir \<and> st_nlink s \<noteq> 1)
      then invalid ''repository state is not private to its owner'' else Inr ())"

text \<open>\<open>\.cache-tmp-[a-f0-9]{32}\<close>.\<close>

definition temporary_name :: "pystr \<Rightarrow> bool" where
  "temporary_name s \<longleftrightarrow> startswith s (u ''.cache-tmp-'') \<and> length s = 43 \<and> list_all hex_lower (drop 11 s)"

record cache_view =
  v_dir :: "stat_info res"
  v_names :: "pystr list res"
  v_stat :: "pystr \<Rightarrow> stat_info res"
  v_unlink :: "pystr \<Rightarrow> unit res"
  v_held :: "stat_info res"
  v_named :: "stat_info res"

definition check_name :: "int \<Rightarrow> cache_view \<Rightarrow> pystr \<Rightarrow> unit res" where
  "check_name euid v name =
     (if name \<notin> set (map u [''writer.lock'', ''repository.json'', ''checkpoint.json'']) \<and> \<not> temporary_name name then invalid ''unsupported metadata cache name''
      else bindE (v_stat v name) (\<lambda>s. bindE (private_to euid False s) (\<lambda>_.
        if st_size s > int MAX_CHECKPOINT then invalid ''repository metadata size budget''
        else if temporary_name name then v_unlink v name else Inr ())))"

definition check_cache :: "int \<Rightarrow> cache_view \<Rightarrow> unit res" where
  "check_cache euid v =
     bindE (v_dir v) (\<lambda>d. bindE (private_to euid True d) (\<lambda>_. bindE (v_names v) (\<lambda>names.
     if length names > 32 then invalid ''repository metadata file count''
     else bindE (eachE (check_name euid v) names) (\<lambda>_. bindE (v_held v) (\<lambda>held. bindE (v_named v) (\<lambda>named.
       if (st_dev held, st_ino held) \<noteq> (st_dev named, st_ino named) then invalid ''repository reservation changed'' else Inr ()))))))"

record cached =
  c_before :: "stat_info res"
  c_chunk :: "nat \<Rightarrow> pybytes res"
  c_after :: "stat_info res"

definition read_cache :: "int \<Rightarrow> cached \<Rightarrow> nat \<Rightarrow> pybytes res" where
  "read_cache euid c limit =
     bindE (c_before c) (\<lambda>before. bindE (private_to euid False before) (\<lambda>_.
     if st_size before > int limit then invalid ''repository state size''
     else bindE (read_all (\<lambda>n. min (1024 * 1024) (limit + 1 - n)) (c_chunk c) limit ''repository state grew during read'' 0 []) (\<lambda>raw.
       bindE (c_after c) (\<lambda>after.
       if int (length raw) \<noteq> st_size before \<or> (st_mtime before, st_ctime before, st_size before) \<noteq> (st_mtime after, st_ctime after, st_size after)
       then invalid ''repository state changed while reading'' else Inr raw))))"

section \<open>The session\<close>

text \<open>What does not change during a session. \<open>g_verify\<close> is the TUF library's check of a target's bytes against its length
  and its SHA-256 entry.\<close>

record setting =
  g_euid :: int
  g_depth :: nat
  g_identity :: pyval
  g_metadata_url :: pystr
  g_stage :: pystr
  g_started :: int
  g_verify :: "pyval \<times> pyval \<Rightarrow> pybytes \<Rightarrow> unit res"

text \<open>\<open>opened\<close>, \<open>locked\<close> and \<open>has_stage\<close> say whether \<open>directory\<close>, \<open>lock\<close> and \<open>stage\<close> are not \<open>None\<close>.\<close>

record session =
  usable :: bool
  failed :: bool
  opened :: bool
  locked :: bool
  has_stage :: bool
  counted :: int
  summed :: int
  known :: "pystr option"
  staging :: bool
  published :: pybytes

text \<open>\<open>_identity\<close>.\<close>

definition make_identity :: "(pystr \<Rightarrow> bool) \<Rightarrow> pystr \<Rightarrow> pystr \<Rightarrow> pystr \<Rightarrow> pyval res" where
  "make_identity refuses root metadata_url targets_url =
     bindE (digest_str root) (\<lambda>_. bindE (base_url refuses metadata_url) (\<lambda>a. bindE (base_url refuses targets_url) (\<lambda>b.
       Inr (PDict [(u ''schema'', PStr (u ''org.niaos.repository-cache/v1'')), (u ''bootstrap_sha256'', PStr root),
         (u ''metadata_url'', PStr a), (u ''targets_url'', PStr b)]))))"

text \<open>
  \<open>_commit_checkpoint\<close>. \<open>m_replace\<close> is the answer of \<open>os.replace\<close> and, if it raised, whether the name had been
  replaced all the same.
\<close>

record commit_answers =
  m_cache :: cache_view
  m_names :: "pystr list res"
  m_files :: files
  m_create :: "unit res"
  m_write :: "unit res"
  m_replace :: "unit res \<times> bool"
  m_sync :: "unit res"
  m_unlink :: "unit res"

definition staged :: "setting \<Rightarrow> commit_answers \<Rightarrow> pybytes res" where
  "staged g a = bindE (m_names a) (\<lambda>names.
     if length names > 128 then invalid ''staged metadata count''
     else bindE (mapE (\<lambda>name. bindE (read_file (m_files a) (g_stage g @ [47] @ name) MAX_METADATA None) (\<lambda>raw. Inr (name, raw))) names)
       (\<lambda>rows. encode_checkpoint (foldl (\<lambda>d p. dict_set (fst p) (snd p) d) [] rows)))"

definition replace_checkpoint :: "commit_answers \<Rightarrow> pybytes \<Rightarrow> (unit, session) proc" where
  "replace_checkpoint a raw s = (fst (m_replace a), s\<lparr>published := (if is_ok (fst (m_replace a)) \<or> snd (m_replace a) then raw else published s)\<rparr>)"

definition publish_checkpoint :: "commit_answers \<Rightarrow> pybytes \<Rightarrow> (unit, session) proc" where
  "publish_checkpoint a raw =
     thenS (liftS (m_create a))
     (thenS (modifyS (\<lambda>s. s\<lparr>staging := True\<rparr>))
     (finallyS
       (thenS (liftS (m_write a))
       (thenS (replace_checkpoint a raw)
       (thenS (modifyS (\<lambda>s. s\<lparr>staging := False\<rparr>))
       (thenS (liftS (m_sync a)) (modifyS (\<lambda>s. s\<lparr>known := Some (sha raw)\<rparr>))))))
       (bindS (getS staging) (\<lambda>created. if created then thenS (liftS (m_unlink a)) (modifyS (\<lambda>s. s\<lparr>staging := False\<rparr>)) else ret ()))))"

definition commit :: "setting \<Rightarrow> commit_answers \<Rightarrow> (unit, session) proc" where
  "commit g a =
     thenS (liftS (check_cache (g_euid g) (m_cache a)))
     (bindS (liftS (staged g a)) (\<lambda>raw. bindS (getS known) (\<lambda>k.
       if k = Some (sha raw) then ret () else publish_checkpoint a raw)))"

text \<open>\<open>target\<close>. \<open>t_info\<close> is the length and the SHA-256 entry of the target the TUF client knows.\<close>

record target_answers =
  t_now :: int
  t_cache :: cache_view
  t_info :: "(pyval \<times> pyval) option res"
  t_download :: "unit res"
  t_output :: files
  t_artifact :: pystr
  t_cleanup :: "unit res"
  t_commit :: commit_answers
  t_end :: int

definition unusable :: "session \<Rightarrow> bool" where
  "unusable s \<longleftrightarrow> \<not> usable s \<or> failed s"

definition expired :: "setting \<Rightarrow> int \<Rightarrow> bool" where
  "expired g now \<longleftrightarrow> now - g_started g \<ge> MAX_SESSION"

definition target_length :: "int \<Rightarrow> pyval \<Rightarrow> int res" where
  "target_length limit v = (case v of
       PInt n \<Rightarrow> if 1 \<le> n \<and> n \<le> limit then Inr n else invalid ''target length outside native intake budget''
     | _ \<Rightarrow> invalid ''target length outside native intake budget'')"

definition target_info :: "int \<Rightarrow> (pyval \<times> pyval) option \<Rightarrow> (int \<times> pyval) res" where
  "target_info limit info = (case info of
       None \<Rightarrow> invalid ''target is absent from authenticated repository''
     | Some (len, hash) \<Rightarrow> bindE (target_length limit len) (\<lambda>n. bindE (digest hash) (\<lambda>_. Inr (n, hash))))"

definition target_raw :: "setting \<Rightarrow> int \<Rightarrow> int \<times> pyval \<Rightarrow> target_answers \<Rightarrow> pybytes res" where
  "target_raw g limit info a = cleaned (bindE (t_download a) (\<lambda>_. bindE (read_file (t_output a) (t_artifact a) (nat limit) None) (\<lambda>raw.
     bindE (g_verify g (PInt (fst info), snd info) raw) (\<lambda>_. Inr raw)))) (t_cleanup a)"

definition target_body :: "setting \<Rightarrow> pystr \<Rightarrow> int \<Rightarrow> target_answers \<Rightarrow> (pybytes, session) proc" where
  "target_body g path limit a =
     thenS (liftS (bindE (target_path path) (\<lambda>_. bindE (integer (PInt limit) 1 MAX_TARGET ''target byte limit'') (\<lambda>_. Inr ()))))
     (thenS (invalidS (\<lambda>_. expired g (t_now a)) ''repository session expired; reopen and revalidate'')
     (thenS (liftS (check_cache (g_euid g) (t_cache a)))
     (bindS (liftS (bindE (t_info a) (target_info limit))) (\<lambda>info.
      thenS (modifyS (\<lambda>s. s\<lparr>counted := counted s + 1, summed := summed s + fst info\<rparr>))
     (thenS (invalidS (\<lambda>s. counted s > MAX_REQUESTS \<or> summed s > MAX_TRANSFER) ''aggregate target budget'')
     (bindS (liftS (target_raw g limit info a)) (\<lambda>raw.
      thenS (commit g (t_commit a))
     (thenS (invalidS (\<lambda>_. expired g (t_end a)) ''repository session expired during download'')
     (ret raw)))))))))"

definition fail :: "(unit, session) proc" where
  "fail = modifyS (\<lambda>s. s\<lparr>failed := True\<rparr>)"

definition target :: "setting \<Rightarrow> pystr \<Rightarrow> int \<Rightarrow> target_answers \<Rightarrow> (pybytes, session) proc" where
  "target g path limit a =
     thenS (invalidS unusable ''repository session is not usable'') (exceptS (target_body g path limit a) fail)"

text \<open>
  \<open>revalidate_target\<close>. \<open>r_urls\<close> are the requests of the fresh verifier and \<open>r_refresh\<close> whether it refreshed; \<open>r_info\<close> is
  the length and SHA-256 entry it then finds, given the answers to its requests.
\<close>

record revalidate_answers =
  r_now :: int
  r_before :: int
  r_cache :: cache_view
  r_checkpoint :: cached
  r_identity :: cached
  r_header :: "pybytes \<Rightarrow> (int \<times> int) res"
  r_writes :: "unit res"
  r_urls :: "pystr list"
  r_refresh :: "pybytes res list \<Rightarrow> unit res"
  r_info :: "pybytes res list \<Rightarrow> (pyval \<times> pyval) option res"
  r_cleanup :: "unit res"
  r_cache2 :: cache_view
  r_checkpoint2 :: cached
  r_identity2 :: cached
  r_after :: int
  r_end :: int

definition top_roles :: "pystr list" where
  "top_roles = map u [''root.json'', ''timestamp.json'', ''snapshot.json'', ''targets.json'']"

text \<open>One check that the checkpoint and the identity in the cache are those of the session.\<close>

definition retained_checkpoint :: "setting \<Rightarrow> pystr option \<Rightarrow> cached \<Rightarrow> cached \<Rightarrow> string \<Rightarrow> string \<Rightarrow> pybytes res" where
  "retained_checkpoint g k c i changed identity =
     bindE (read_cache (g_euid g) c MAX_CHECKPOINT) (\<lambda>checkpoint.
     if Some (sha checkpoint) \<noteq> k then invalid changed
     else bindE (bindE (read_cache (g_euid g) i 8192) (parse_json (g_depth g))) (\<lambda>v.
       if \<not> py_eq v (g_identity g) then invalid identity else Inr checkpoint))"

definition fresh_target :: "setting \<Rightarrow> pybytes \<Rightarrow> revalidate_answers \<Rightarrow> pybytes res list \<Rightarrow> unit res" where
  "fresh_target g raw a answers =
     bindE (r_refresh a answers) (\<lambda>_. bindE (r_info a answers) (\<lambda>info. case info of
       None \<Rightarrow> invalid ''target absent from retained verified metadata''
     | Some found \<Rightarrow> bindE (digest (snd found)) (\<lambda>_. g_verify g found raw)))"

definition fresh_expiry :: "setting \<Rightarrow> pybytes \<Rightarrow> revalidate_answers \<Rightarrow> metadata \<Rightarrow> int res" where
  "fresh_expiry g raw a m =
     bindE (retain (r_header a) (g_metadata_url g) m) (\<lambda>t.
     if \<not> set top_roles \<subseteq> set (map fst m) then invalid ''retained top-level metadata missing''
     else let (answers, t') = retained_all (r_urls a) t in
       bindE (cleaned (bindE (r_writes a) (\<lambda>_. fresh_target g raw a answers)) (r_cleanup a)) (\<lambda>_.
       Inr (Min (set (map (\<lambda>n. the (map_of (t_expiries t') n)) (top_roles @ t_used t'))))))"

definition revalidate_body :: "setting \<Rightarrow> pystr \<Rightarrow> pybytes \<Rightarrow> revalidate_answers \<Rightarrow> (int, session) proc" where
  "revalidate_body g path raw a =
     thenS (liftS (bindE (target_path path) (\<lambda>_. Inr ())))
     (thenS (invalidS (\<lambda>_. \<not> (1 \<le> length raw \<and> int (length raw) \<le> MAX_TARGET)) ''retained target byte limit'')
     (thenS (invalidS (\<lambda>_. expired g (r_now a)) ''repository session expired before revalidation'')
     (thenS (modifyS (\<lambda>s. s\<lparr>counted := counted s + 1\<rparr>))
     (thenS (invalidS (\<lambda>s. counted s > MAX_REQUESTS) ''aggregate target budget'')
     (thenS (liftS (check_cache (g_euid g) (r_cache a)))
     (bindS (getS known) (\<lambda>k.
      bindS (liftS (retained_checkpoint g k (r_checkpoint a) (r_identity a) ''retained checkpoint changed during session'' ''repository cache identity changed during session'')) (\<lambda>checkpoint.
      bindS (liftS (bindE (decode_checkpoint (g_depth g) checkpoint) (fresh_expiry g raw a))) (\<lambda>expires.
      thenS (liftS (check_cache (g_euid g) (r_cache2 a)))
     (bindS (liftS (retained_checkpoint g k (r_checkpoint2 a) (r_identity2 a) ''retained checkpoint changed during revalidation'' ''repository cache identity changed during revalidation'')) (\<lambda>_.
      thenS (invalidS (\<lambda>_. r_after a < r_before a \<or> r_after a \<ge> expires \<or> expired g (r_end a)) ''retained metadata expired during revalidation or clock moved backward'')
     (ret expires))))))))))))"

definition revalidate_target :: "setting \<Rightarrow> pystr \<Rightarrow> pybytes \<Rightarrow> revalidate_answers \<Rightarrow> (int, session) proc" where
  "revalidate_target g path raw a =
     thenS (invalidS unusable ''repository session is not usable'') (exceptS (revalidate_body g path raw a) fail)"

text \<open>\<open>close\<close> and \<open>__enter__\<close>. A fetcher of the caller's is not closed: then \<open>x_fetcher\<close> and \<open>e_fetcher\<close> return.\<close>

record close_answers =
  x_stage :: "unit res"
  x_lock :: "unit res"
  x_directory :: "unit res"
  x_fetcher :: "unit res"

definition whenS :: "('s \<Rightarrow> bool) \<Rightarrow> (unit, 's) proc \<Rightarrow> (unit, 's) proc" where
  "whenS c m = bindS (getS c) (\<lambda>b. if b then m else ret ())"

definition close :: "close_answers \<Rightarrow> (unit, session) proc" where
  "close x =
     thenS (modifyS (\<lambda>s. s\<lparr>usable := False\<rparr>))
     (finallyS (whenS has_stage (liftS (x_stage x)))
       (thenS (modifyS (\<lambda>s. s\<lparr>has_stage := False\<rparr>))
       (thenS (whenS locked (thenS (liftS (x_lock x)) (modifyS (\<lambda>s. s\<lparr>locked := False\<rparr>))))
       (thenS (whenS opened (thenS (liftS (x_directory x)) (modifyS (\<lambda>s. s\<lparr>opened := False\<rparr>))))
       (thenS (liftS (x_fetcher x)) fail)))))"

record enter_answers =
  e_files :: files
  e_dir :: "stat_info res"
  e_open :: "unit res"
  e_lock :: "stat_info res"
  e_flock :: "unit res"
  e_cache :: cache_view
  e_identity :: cached
  e_checkpoint :: cached
  e_stage :: "unit res"
  e_writes :: "pystr \<Rightarrow> write_answers"
  e_fetcher :: "unit res"
  e_updater :: "unit res"
  e_refresh :: "unit res"
  e_commit :: commit_answers
  e_close :: close_answers

definition enter_cache :: "setting \<Rightarrow> pystr \<Rightarrow> enter_answers \<Rightarrow> (pybytes, session) proc" where
  "enter_cache g cache a =
     bindS (liftS (directory_fd (e_files a) cache)) (\<lambda>_.
      thenS (modifyS (\<lambda>s. s\<lparr>opened := True\<rparr>))
     (thenS (liftS (bindE (e_dir a) (private_to (g_euid g) True)))
     (thenS (liftS (e_open a))
     (thenS (modifyS (\<lambda>s. s\<lparr>locked := True\<rparr>))
     (thenS (liftS (bindE (e_lock a) (private_to (g_euid g) False)))
     (thenS (liftS (e_flock a))
     (thenS (liftS (check_cache (g_euid g) (e_cache a)))
     (bindS (liftS (bindE (read_cache (g_euid g) (e_identity a) 8192) (parse_json (g_depth g)))) (\<lambda>v.
      thenS (invalidS (\<lambda>_. \<not> py_eq v (g_identity g)) ''repository cache identity differs from trusted policy'')
     (liftS (read_cache (g_euid g) (e_checkpoint a) MAX_CHECKPOINT)))))))))))"

definition enter_body :: "setting \<Rightarrow> pystr \<Rightarrow> enter_answers \<Rightarrow> (unit, session) proc" where
  "enter_body g cache a =
     bindS (enter_cache g cache a) (\<lambda>checkpoint.
     bindS (liftS (decode_checkpoint (g_depth g) checkpoint)) (\<lambda>m.
      thenS (modifyS (\<lambda>s. s\<lparr>known := Some (sha checkpoint), published := checkpoint\<rparr>))
     (thenS (liftS (e_stage a))
     (thenS (modifyS (\<lambda>s. s\<lparr>has_stage := True\<rparr>))
     (thenS (liftS (eachE (\<lambda>(name, raw). fst (write_new (e_files a) (e_writes a name) (g_stage g @ [47] @ name) raw)) m))
     (thenS (liftS (e_fetcher a))
     (thenS (liftS (e_updater a))
     (thenS (modifyS (\<lambda>s. s\<lparr>usable := True\<rparr>))
     (thenS (liftS (e_refresh a)) (commit g (e_commit a)))))))))))"

definition enter :: "setting \<Rightarrow> pystr \<Rightarrow> enter_answers \<Rightarrow> (unit, session) proc" where
  "enter g cache a =
     thenS (invalidS (\<lambda>s. opened s \<or> failed s) ''repository context cannot be reused'')
     (exceptS (enter_body g cache a) (thenS fail (close (e_close a))))"

text \<open>\<open>__init__\<close>: the identity and the fresh object.\<close>

definition new_session :: "pybytes \<Rightarrow> session" where
  "new_session disk = \<lparr>usable = False, failed = False, opened = False, locked = False, has_stage = False, counted = 0, summed = 0,
     known = None, staging = False, published = disk\<rparr>"

definition repository :: "(pystr \<Rightarrow> bool) \<Rightarrow> pystr \<Rightarrow> pystr \<Rightarrow> pystr \<Rightarrow> pybytes \<Rightarrow> (pyval \<times> session) res" where
  "repository refuses root metadata_url targets_url disk =
     bindE (make_identity refuses root metadata_url targets_url) (\<lambda>v. Inr (v, new_session disk))"

text \<open>
  \<open>initialize\<close>: a new cache only. \<open>i_parse\<close> says whether the bytes are root metadata that its own root role signs, or
  raises; the result carries what each of the three files' writing did.
\<close>

record init_answers =
  i_files :: files
  i_parse :: "pybytes \<Rightarrow> bool res"
  i_delegate :: "unit res"
  i_mkdir :: "unit res"
  i_sync :: "unit res"
  i_writes :: "nat \<Rightarrow> write_answers"

definition init_files :: "init_answers \<Rightarrow> pystr \<Rightarrow> pybytes \<Rightarrow> pyval \<Rightarrow> unit res" where
  "init_files a cache root v =
     bindE (encode_checkpoint [(u ''root.json'', root)]) (\<lambda>checkpoint.
     bindE (fst (write_new (i_files a) (i_writes a 0) (cache @ u ''/checkpoint.json'') checkpoint)) (\<lambda>_.
     bindE (fst (write_new (i_files a) (i_writes a 1) (cache @ u ''/repository.json'') (canonical v))) (\<lambda>_.
     fst (write_new (i_files a) (i_writes a 2) (cache @ u ''/writer.lock'') []))))"

definition initialize :: "(pystr \<Rightarrow> bool) \<Rightarrow> init_answers \<Rightarrow> pystr \<Rightarrow> pybytes \<Rightarrow> pystr \<Rightarrow> pystr \<Rightarrow> pystr \<Rightarrow> unit res" where
  "initialize refuses a cache root pin metadata_url targets_url =
     bindE (make_identity refuses pin metadata_url targets_url) (\<lambda>v.
     if \<not> (1 \<le> length root \<and> length root \<le> 512 * 1024) then invalid ''bootstrap root size/type''
     else if sha root \<noteq> pin then invalid ''bootstrap root differs from independent pin''
     else bindE (i_parse a root) (\<lambda>is_root. if \<not> is_root then invalid ''bootstrap metadata is not a root''
     else bindE (i_delegate a) (\<lambda>_. bindE (directory_fd (i_files a) (parent_of cache)) (\<lambda>_.
       bindE (i_mkdir a) (\<lambda>_. bindE (i_sync a) (\<lambda>_. init_files a cache root v))))))"

section \<open>The fetchers are bounded\<close>

lemma stream_chunks_bounds:
  "stream_chunks r started n bytes = (cs, res, b) \<Longrightarrow> bytes + int (sum_list (map length cs)) \<le> b
     \<and> (if bytes \<le> MAX_TRANSFER then bytes + int (sum_list (map length cs)) \<le> MAX_TRANSFER else cs = [])"
proof (induction r started n bytes arbitrary: cs res b rule: stream_chunks.induct)
  case (1 r started n bytes)
  show ?case
  proof (cases "p_read r n")
    case (Inl e)
    with 1(2) show ?thesis by (subst (asm) stream_chunks.simps) auto
  next
    case (Inr answer)
    define c where "c = take (64 * 1024) answer"
    have step: "stream_chunks r started n bytes = (if c = [] then ([], Inr (), bytes)
         else if bytes + int (length c) > MAX_TRANSFER \<or> p_times r n - started \<ge> MAX_SESSION
         then ([], download_error ''repository transfer/time budget'', bytes + int (length c))
         else (case stream_chunks r started (Suc n) (bytes + int (length c)) of (cs, res, b) \<Rightarrow> (c # cs, res, b)))"
      by (subst stream_chunks.simps) (simp only: Inr sum.case Let_def c_def)
    show ?thesis
    proof (cases "c = []")
      case True
      with step 1(2) show ?thesis by auto
    next
      case ne: False
      show ?thesis
      proof (cases "bytes + int (length c) > MAX_TRANSFER \<or> p_times r n - started \<ge> MAX_SESSION")
        case True
        with step 1(2) ne show ?thesis by (auto simp: download_error_def)
      next
        case False
        obtain cs' res' b' where rec: "stream_chunks r started (Suc n) (bytes + int (length c)) = (cs', res', b')" by (cases "stream_chunks r started (Suc n) (bytes + int (length c))") auto
        with step False ne have e: "cs = c # cs'" "res = res'" "b = b'" using 1(2) by (simp_all split: if_splits)
        from 1(1) [OF Inr c_def ne False rec] False show ?thesis unfolding e by simp
      qed
    qed
  qed
qed

text \<open>Requests to one fetcher, one after the other: the URLs asked for and the chunks yielded.\<close>

fun fetches :: "(exn \<Rightarrow> bool) \<Rightarrow> fetcher \<Rightarrow> (pystr \<times> response) list \<Rightarrow> (pystr \<times> pybytes list) list \<times> fetcher" where
  "fetches transport f [] = ([], f)"
| "fetches transport f ((url, r) # rs) = (case fetch transport url r f of (cs, res, f') \<Rightarrow> (case fetches transport f' rs of (out, f'') \<Rightarrow> ((url, cs) # out, f'')))"

definition yielded :: "(pystr \<times> pybytes list) list \<Rightarrow> int" where
  "yielded out = int (sum_list (map (\<lambda>x. sum_list (map length (snd x))) out))"

definition yielding :: "(pystr \<times> pybytes list) list \<Rightarrow> (pystr \<times> pybytes list) list" where
  "yielding out = filter (\<lambda>x. snd x \<noteq> []) out"

lemma fetch_bounds:
  assumes "fetch transport url r f = (cs, res, f')"
  shows "f_bases f' = f_bases f \<and> (f_bytes f \<le> f_bytes f') \<and> f_requests f \<le> f_requests f' \<and> (cs \<noteq> [] \<longrightarrow> inside (f_bases f) url
      \<and> f_requests f' = f_requests f + 1 \<and> f_requests f' \<le> MAX_REQUESTS)
    \<and> (f_bytes f \<le> MAX_TRANSFER \<longrightarrow> f_bytes f + int (sum_list (map length cs)) \<le> min (f_bytes f') MAX_TRANSFER)
    \<and> (f_bytes f > MAX_TRANSFER \<longrightarrow> cs = [])"
proof -
  obtain res' where st: "stream url r f = (cs, res', f')" using assms by (cases "stream url r f") (auto simp: fetch_def)
  show ?thesis
  proof (cases "\<not> inside (f_bases f) url \<or> f_requests f + 1 > MAX_REQUESTS \<or> p_now r - f_started f \<ge> MAX_SESSION")
    case True
    then show ?thesis using st by (auto simp: stream_def Let_def split: if_splits)
  next
    case ok: False
    show ?thesis
    proof (cases "p_answer r")
      case (Inl e)
      then show ?thesis using st ok by (auto simp: stream_def Let_def)
    next
      case (Inr x)
      obtain status encoding where x: "x = (status, encoding)" by (cases x)
      obtain ds res2 b where c: "stream_chunks r (f_started f) 0 (f_bytes f) = (ds, res2, b)" by (cases "stream_chunks r (f_started f) 0 (f_bytes f)") auto
      show ?thesis
      proof (cases "status \<noteq> 200 \<or> (case encoding of None \<Rightarrow> False | Some e \<Rightarrow> e \<noteq> u ''identity'')")
        case True
        then show ?thesis using st ok Inr by (auto simp: stream_def Let_def x split: if_splits)
      next
        case False
        then have "cs = ds" "f' = f\<lparr>f_requests := f_requests f + 1, f_bytes := b\<rparr>" using st ok Inr c by (simp_all add: stream_def Let_def x)
        then show ?thesis using ok stream_chunks_bounds [OF c] by (auto split: if_splits)
      qed
    qed
  qed
qed

text \<open>C38: One fetcher never yields more than its transfer budget nor answers more than its request budget, over every sequence of
  requests and whatever the servers answer, and everything it yields comes from a URL inside its bases.\<close>

theorem fetcher_bounded:
  assumes "new_fetcher refuses metadata_url targets_url now = Inr f" "fetches transport f rs = (out, f')"
  shows "yielded out \<le> MAX_TRANSFER \<and> int (length (yielding out)) \<le> MAX_REQUESTS \<and> (\<forall>(url, cs) \<in> set (yielding out). inside (f_bases f) url)"
proof -
  have "f_bytes g + yielded out \<le> max (f_bytes g) MAX_TRANSFER \<and> f_requests g + int (length (yielding out)) \<le> max (f_requests g) MAX_REQUESTS
      \<and> (\<forall>x \<in> set (yielding out). inside (f_bases g) (fst x))" if "fetches transport g rs = (out, g')" for g g'
    using that
  proof (induction rs arbitrary: g g' out)
    case Nil
    then show ?case by (auto simp: yielded_def yielding_def)
  next
    case (Cons ur rs)
    obtain url r where ur: "ur = (url, r)" by (cases ur)
    obtain cs res g1 where f: "fetch transport url r g = (cs, res, g1)" by (cases "fetch transport url r g") auto
    obtain out1 g2 where o: "fetches transport g1 rs = (out1, g2)" by (cases "fetches transport g1 rs") auto
    have out: "out = (url, cs) # out1" using Cons.prems by (simp add: ur f o)
    note b = fetch_bounds [OF f] and ih = Cons.IH [OF o]
    have "yielded out = int (sum_list (map length cs)) + yielded out1" by (simp add: out yielded_def)
    moreover have "length (yielding out) = (if cs = [] then 0 else 1) + length (yielding out1)" by (simp add: out yielding_def)
    ultimately show ?case using b ih by (auto simp: out yielding_def)
  qed
  from this [OF assms(2)] assms(1) show ?thesis by (auto simp: new_fetcher_def bindE_eq_Inr MAX_REQUESTS_def MAX_TRANSFER_def)
qed

text \<open>What the retained metadata serve is exactly a file of the checkpoint, under its name or its versioned name.\<close>

definition retained_ok :: "pystr \<Rightarrow> metadata \<Rightarrow> retained \<Rightarrow> bool" where
  "retained_ok base m t \<longleftrightarrow> (\<forall>(url, (name, raw)) \<in> set (t_files t). (name, raw) \<in> set m \<and> (url = base @ name \<or> (\<exists>version. url = base @ str_int version @ [46] @ name)))"

lemma set_dict_set: "x \<in> set (dict_set k v d) \<Longrightarrow> x = (k, v) \<or> x \<in> set d"
  by (induction k v d rule: dict_set.induct) (auto split: if_splits)

lemma retain_ok: "retain header base m = Inr t \<Longrightarrow> retained_ok base m t"
  unfolding retain_def
proof (erule foldE_invariant [where P = "retained_ok base m"])
  show "retained_ok base m \<lparr>t_files = [], t_expiries = [], t_used = [], t_requests = 0\<rparr>" by (simp add: retained_ok_def)
next
  fix t nr t'
  assume nr: "nr \<in> set m" and t: "retained_ok base m t" and r: "retain_one header base t nr = Inr t'"
  obtain name raw where n: "nr = (name, raw)" by (cases nr)
  from r obtain version expires where f: "foldE (retain_alias base name raw) (t\<lparr>t_expiries := dict_set name expires (t_expiries t)\<rparr>) [name, str_int version @ [46] @ name] = Inr t'"
    by (auto simp: retain_one_def n bindE_eq_Inr)
  have step: "retained_ok base m b" if "retain_alias base name raw a al = Inr b" "retained_ok base m a" "al \<in> {name, str_int version @ [46] @ name}" for a al b
  proof -
    from that(1) have "b = a\<lparr>t_files := dict_set (base @ al) (name, raw) (t_files a)\<rparr>" by (auto simp: retain_alias_def split: option.splits if_splits)
    moreover have each: "(fst (snd x), snd (snd x)) \<in> set m \<and> (fst x = base @ fst (snd x) \<or> (\<exists>version. fst x = base @ str_int version @ [46] @ fst (snd x)))"
      if "x \<in> set (dict_set (base @ al) (name, raw) (t_files a))" for x
    proof (cases "x = (base @ al, (name, raw))")
      case True
      then show ?thesis using nr that(1) \<open>al \<in> {name, str_int version @ [46] @ name}\<close> by (auto simp: n)
    next
      case False
      with set_dict_set [OF that] have "x \<in> set (t_files a)" by simp
      then show ?thesis using \<open>retained_ok base m a\<close> by (fastforce simp: retained_ok_def)
    qed
    ultimately show ?thesis using each unfolding retained_ok_def by (simp only: retained.simps) fastforce
  qed
  have "retained_ok base m (t\<lparr>t_expiries := dict_set name expires (t_expiries t)\<rparr>)" using t by (simp add: retained_ok_def)
  with f show "retained_ok base m t'"
    by (rule foldE_invariant) (use step in auto)
qed

section \<open>What a session hands out\<close>

lemma invalidS_ok [run_simps]: "invalidS bad msg s = (Inr x, s') \<longleftrightarrow> \<not> bad s \<and> s' = s"
  by (auto simp: invalidS_def)

lemma liftS_ok [run_simps]: "liftS r s = (Inr x, s') \<longleftrightarrow> r = Inr x \<and> s' = s"
  by (auto simp: liftS_def)

text \<open>The TUF library checks the length it was given.\<close>

definition verifies_length :: "setting \<Rightarrow> bool" where
  "verifies_length g \<longleftrightarrow> (\<forall>n hash raw. g_verify g (PInt n, hash) raw = Inr () \<longrightarrow> int (length raw) = n)"

text \<open>The checkpoint in the cache can be read back.\<close>

definition readable :: "setting \<Rightarrow> session \<Rightarrow> bool" where
  "readable g s \<longleftrightarrow> is_ok (decode_checkpoint (g_depth g) (published s))"

lemma staged_readable:
  assumes "staged g a = Inr raw" "2 \<le> g_depth g"
  shows "is_ok (decode_checkpoint (g_depth g) raw)"
proof -
  from assms(1) obtain rows where e: "encode_checkpoint (foldl (\<lambda>d p. dict_set (fst p) (snd p) d) [] rows) = Inr raw"
    by (auto simp: staged_def bindE_eq_Inr split: if_splits)
  have "distinct (map fst (foldl (\<lambda>d p. dict_set (fst p) (snd p) d) acc rows))" if "distinct (map fst acc)" for acc :: metadata and rows
    using that by (induction rows arbitrary: acc) simp_all
  then have "distinct (map fst (foldl (\<lambda>d p. dict_set (fst p) (snd p) d) ([] :: metadata) rows))" by simp
  from encoded_read_back [OF e this assms(2)] show ?thesis by simp
qed

lemma publish_run:
  assumes "publish_checkpoint a raw s = (r, t)"
  shows "(published t = published s \<or> published t = raw) \<and> usable t = usable s \<and> failed t = failed s \<and> counted t = counted s \<and> summed t = summed s
    \<and> (r = Inr () \<longrightarrow> published t = raw \<and> known t = Some (sha raw) \<and> \<not> staging t)"
proof -
  note calc = publish_checkpoint_def replace_checkpoint_def thenS_def bindS_def finallyS_def getS_def liftS_def ret_def modifyS_def
  have r: "r = fst (publish_checkpoint a raw s)" and t: "t = snd (publish_checkpoint a raw s)" using assms by simp_all
  show ?thesis
    unfolding r t
    by (cases "m_create a"; cases "m_write a"; cases "m_replace a"; cases "fst (m_replace a)"; cases "m_sync a"; cases "m_unlink a")
      (simp_all add: calc)
qed

lemma commit_run:
  assumes "commit g a s = (r, t)" "2 \<le> g_depth g"
  shows "(readable g s \<longrightarrow> readable g t) \<and> usable t = usable s \<and> failed t = failed s \<and> counted t = counted s \<and> summed t = summed s
    \<and> (r = Inr () \<and> known s = Some (sha (published s)) \<and> \<not> staging s \<longrightarrow> known t = Some (sha (published t)) \<and> \<not> staging t)"
proof (cases "check_cache (g_euid g) (m_cache a)")
  case (Inl e)
  then show ?thesis using assms(1) by (auto simp: commit_def run_eqs)
next
  case c: (Inr x)
  show ?thesis
  proof (cases "staged g a")
    case (Inl e)
    then show ?thesis using assms(1) c by (auto simp: commit_def run_eqs)
  next
    case (Inr raw)
    then have run: "(if known s = Some (sha raw) then ret () else publish_checkpoint a raw) s = (r, t)" using assms(1) c by (simp add: commit_def run_eqs)
    show ?thesis
    proof (cases "known s = Some (sha raw)")
      case True
      then show ?thesis using run by simp
    next
      case False
      then have p: "publish_checkpoint a raw s = (r, t)" using run by simp
      from publish_run [OF p] staged_readable [OF Inr assms(2)] show ?thesis by (auto simp: readable_def)
    qed
  qed
qed

lemma ends_invalidS: "(\<And>s. P s \<Longrightarrow> Q s) \<Longrightarrow> ends P (invalidS b msg) Q"
  by (auto simp: ends_def invalidS_def)

lemma ends_finallyS: "ends P m P \<Longrightarrow> ends P f P \<Longrightarrow> ends P (finallyS m f) P"
  by (auto simp: ends_def finallyS_def split: prod.splits sum.splits)

lemma ends_commit: "2 \<le> g_depth g \<Longrightarrow> ends (readable g) (commit g a) (readable g)"
  using commit_run by (intro endsI) blast

lemma ends_fail: "ends (readable g) fail (readable g)"
  by (simp add: ends_def fail_def modifyS_def readable_def)

lemma ends_update: "(\<And>s. published (f s) = published s) \<Longrightarrow> ends (readable g) (modifyS f) (readable g)"
  by (simp add: ends_def modifyS_def readable_def)

lemmas keeps = ends_thenS ends_bindS ends_exceptS ends_finallyS ends_invalidS ends_liftS ends_getS ends_ret ends_commit ends_fail ends_update

lemma target_readable: "2 \<le> g_depth g \<Longrightarrow> ends (readable g) (target g path limit a) (readable g)"
  unfolding target_def target_body_def by (intro keeps) auto

lemma revalidate_readable: "2 \<le> g_depth g \<Longrightarrow> ends (readable g) (revalidate_target g path raw a) (readable g)"
  unfolding revalidate_target_def revalidate_body_def by (intro keeps) auto

lemma ends_if: "ends P m Q \<Longrightarrow> ends P m' Q \<Longrightarrow> ends P (if c then m else m') Q"
  by simp

lemma close_readable: "ends (readable g) (close x) (readable g)"
  unfolding close_def whenS_def by (intro keeps ends_if) auto

lemma close_unusable: "close x s = (r, t) \<Longrightarrow> \<not> usable t"
proof -
  note calc = close_def whenS_def fail_def thenS_def bindS_def finallyS_def getS_def liftS_def ret_def modifyS_def
  have "\<not> usable (snd (close x s))"
    by (cases "has_stage s"; cases "x_stage x"; cases "locked s"; cases "x_lock x"; cases "opened s"; cases "x_directory x"; cases "x_fetcher x")
      (simp_all add: calc)
  then show "close x s = (r, t) \<Longrightarrow> \<not> usable t" by simp
qed

text \<open>A guarded method that raised leaves the session unusable, one that returned found it usable.\<close>

lemma session_guarded:
  assumes "thenS (invalidS unusable msg) (exceptS m fail) s = (r, t)"
  shows "(unusable s \<and> t = s \<and> \<not> is_ok r) \<or> (\<not> unusable s \<and> (\<exists>x. r = Inr x \<and> m s = (Inr x, t))) \<or> (\<not> unusable s \<and> \<not> is_ok r \<and> unusable t)"
proof (cases "unusable s")
  case True
  then show ?thesis using assms by (auto simp: thenS_run invalidS_def invalid_def split: if_splits)
next
  case False
  then have e: "exceptS m fail s = (r, t)" using assms by (auto simp: thenS_run invalidS_def split: if_splits)
  show ?thesis
  proof (cases r)
    case (Inl x)
    obtain q s' where m: "m s = (q, s')" by (cases "m s")
    have "unusable t" using e m Inl by (cases q) (auto simp: exceptS_def fail_def modifyS_def unusable_def)
    then show ?thesis using False Inl by simp
  next
    case (Inr x)
    then show ?thesis using e False by (auto simp: exceptS_ok)
  qed
qed

lemma target_ok:
  assumes "target_body g path limit a s = (Inr raw, t)" "\<not> unusable s" "2 \<le> g_depth g" "verifies_length g"
    "known s = Some (sha (published s))" "\<not> staging s"
  shows "\<not> unusable t \<and> counted t = counted s + 1 \<and> counted t \<le> MAX_REQUESTS \<and> summed t = summed s + int (length raw) \<and> summed t \<le> MAX_TRANSFER
    \<and> known t = Some (sha (published t)) \<and> \<not> staging t"
proof -
  from assms(1) obtain info s1 s2 where i: "bindE (t_info a) (target_info limit) = Inr info"
    and s1: "s1 = s\<lparr>counted := counted s + 1, summed := summed s + fst info\<rparr>" "counted s1 \<le> MAX_REQUESTS" "summed s1 \<le> MAX_TRANSFER"
    and raw: "target_raw g limit info a = Inr raw" and c: "commit g (t_commit a) s1 = (Inr (), s2)" and t: "t = s2"
    unfolding target_body_def thenS_ok bindS_ok invalidS_ok liftS_ok modifyS_run ret_run by (auto simp only: not_less de_Morgan_disj Inr_inject)
  from raw have "g_verify g (PInt (fst info), snd info) raw = Inr ()" by (auto simp: target_raw_def bindE_eq_Inr)
  with assms(4) have len: "int (length raw) = fst info" by (simp add: verifies_length_def)
  from commit_run [OF c assms(3)] assms(2,5,6) s1 len show ?thesis by (auto simp: t unusable_def)
qed

lemma revalidate_ok:
  assumes "revalidate_body g path raw a s = (Inr expires, t)"
  shows "t = s\<lparr>counted := counted s + 1\<rparr> \<and> counted t \<le> MAX_REQUESTS"
  using assms unfolding revalidate_body_def by (auto simp: thenS_ok bindS_ok invalidS_ok liftS_ok not_less)

datatype operation =
    Target pystr int target_answers
  | Revalidate pystr pybytes revalidate_answers
  | Close close_answers

text \<open>What an operation hands out: the bytes of a target, or the expiry of a revalidated one.\<close>

datatype handed = Bytes pybytes | Until int

definition result_of :: "('a \<Rightarrow> handed) \<Rightarrow> 'a res \<times> session \<Rightarrow> handed option \<times> session" where
  "result_of f = (\<lambda>(r, s). (case r of Inl e \<Rightarrow> None | Inr x \<Rightarrow> Some (f x), s))"

definition session_step :: "setting \<Rightarrow> session \<Rightarrow> operation \<Rightarrow> handed option \<times> session" where
  "session_step g s op = (case op of
       Target path limit a \<Rightarrow> result_of Bytes (target g path limit a s)
     | Revalidate path raw a \<Rightarrow> result_of Until (revalidate_target g path raw a s)
     | Close x \<Rightarrow> (None, snd (close x s)))"

definition handed_bytes :: "handed list \<Rightarrow> int" where
  "handed_bytes h = sum_list (map (\<lambda>x. case x of Bytes b \<Rightarrow> int (length b) | Until _ \<Rightarrow> 0) h)"

definition session_agrees :: "setting \<Rightarrow> handed list \<Rightarrow> session \<Rightarrow> bool" where
  "session_agrees g h s \<longleftrightarrow> (2 \<le> g_depth g \<and> verifies_length g \<longrightarrow>
     int (length h) \<le> MAX_REQUESTS \<and> handed_bytes h \<le> MAX_TRANSFER \<and> readable g s
   \<and> (\<not> unusable s \<longrightarrow> int (length h) \<le> counted s \<and> handed_bytes h \<le> summed s \<and> summed s \<le> MAX_TRANSFER
        \<and> known s = Some (sha (published s)) \<and> \<not> staging s))"

lemma session_agrees_step:
  assumes "session_agrees g h s" "session_step g s op = (r, t)"
  shows "session_agrees g (h @ (case r of None \<Rightarrow> [] | Some x \<Rightarrow> [x])) t"
proof (cases "2 \<le> g_depth g \<and> verifies_length g")
  case True
  note inv = assms(1) [unfolded session_agrees_def, rule_format, OF True]
  then have rs: "2 \<le> g_depth g" "readable g s" using True by simp_all
  show ?thesis
  proof (cases op)
    case (Target path limit a)
    obtain q where q: "target g path limit a s = (q, t)" "r = (case q of Inl e \<Rightarrow> None | Inr x \<Rightarrow> Some (Bytes x))"
      using assms(2) Target by (cases "target g path limit a s") (auto simp: session_step_def result_of_def)
    have rd: "readable g t" by (rule endsD [OF target_readable [OF rs(1)] rs(2) q(1)])
    from session_guarded [OF q(1) [unfolded target_def]] show ?thesis
    proof (elim disjE conjE exE)
      fix raw
      assume "\<not> unusable s" "q = Inr raw" and b: "target_body g path limit a s = (Inr raw, t)"
      then show ?thesis using target_ok [OF b] inv True rd by (auto simp: session_agrees_def q(2) handed_bytes_def)
    qed (use inv rd q(2) in \<open>auto simp: session_agrees_def is_ok_def split: sum.splits\<close>)
  next
    case (Revalidate path raw a)
    obtain q where q: "revalidate_target g path raw a s = (q, t)" "r = (case q of Inl e \<Rightarrow> None | Inr x \<Rightarrow> Some (Until x))"
      using assms(2) Revalidate by (cases "revalidate_target g path raw a s") (auto simp: session_step_def result_of_def)
    have rd: "readable g t" by (rule endsD [OF revalidate_readable [OF rs(1)] rs(2) q(1)])
    from session_guarded [OF q(1) [unfolded revalidate_target_def]] show ?thesis
    proof (elim disjE conjE exE)
      fix e
      assume "\<not> unusable s" "q = Inr e" and b: "revalidate_body g path raw a s = (Inr e, t)"
      then show ?thesis using revalidate_ok [OF b] inv rd by (auto simp: session_agrees_def q(2) handed_bytes_def unusable_def)
    qed (use inv rd q(2) in \<open>auto simp: session_agrees_def is_ok_def split: sum.splits\<close>)
  next
    case (Close x)
    then have c: "close x s = (fst (close x s), t)" "r = None" using assms(2) by (auto simp: session_step_def)
    from endsD [OF close_readable rs(2) c(1)] have "readable g t" .
    then show ?thesis using inv close_unusable [OF c(1)] c(2) by (auto simp: session_agrees_def unusable_def)
  qed
qed (auto simp: session_agrees_def)

interpretation sessions: historied "session_step g" "session_agrees g" for g
  by unfold_locales (rule session_agrees_step)

lemma unusable_run: "unusable s \<Longrightarrow> run_of (session_step g) s ops = (obs, t) \<Longrightarrow> obs = [] \<and> unusable t"
proof (induction ops arbitrary: s obs)
  case (Cons op ops)
  obtain r s' where st: "session_step g s op = (r, s')" by fastforce
  have "r = None \<and> unusable s'"
  proof (cases op)
    case (Target path limit a)
    obtain q where q: "target g path limit a s = (q, s')" "r = (case q of Inl e \<Rightarrow> None | Inr x \<Rightarrow> Some (Bytes x))"
      using st Target by (cases "target g path limit a s") (auto simp: session_step_def result_of_def)
    from session_guarded [OF q(1) [unfolded target_def]] Cons.prems(1) q(2) show ?thesis by (auto simp: is_ok_def split: sum.splits)
  next
    case (Revalidate path raw a)
    obtain q where q: "revalidate_target g path raw a s = (q, s')" "r = (case q of Inl e \<Rightarrow> None | Inr x \<Rightarrow> Some (Until x))"
      using st Revalidate by (cases "revalidate_target g path raw a s") (auto simp: session_step_def result_of_def)
    from session_guarded [OF q(1) [unfolded revalidate_target_def]] Cons.prems(1) q(2) show ?thesis by (auto simp: is_ok_def split: sum.splits)
  next
    case (Close x)
    then have "close x s = (fst (close x s), s')" "r = None" using st by (auto simp: session_step_def)
    then show ?thesis using close_unusable by (auto simp: unusable_def)
  qed
  with Cons.IH [of s'] Cons.prems(2) st show ?case by (auto split: prod.splits)
qed simp

lemma enter_cache_ok: "enter_cache g cache a s = (Inr c, t) \<Longrightarrow> t = s\<lparr>opened := True, locked := True\<rparr>"
  unfolding enter_cache_def thenS_ok bindS_ok invalidS_ok liftS_ok modifyS_run by (auto simp only:)

lemma enter_ok:
  assumes "enter g cache a (new_session disk) = (Inr (), s)" "2 \<le> g_depth g"
  shows "session_agrees g [] s \<and> \<not> unusable s"
proof -
  have b: "enter_body g cache a (new_session disk) = (Inr (), s)"
    using assms(1) by (auto simp: enter_def thenS_ok exceptS_ok invalidS_ok)
  then obtain c s1 m s2 where c: "enter_cache g cache a (new_session disk) = (Inr c, s1)" and m: "decode_checkpoint (g_depth g) c = Inr m"
    and s2: "s2 = s1\<lparr>known := Some (sha c), published := c, has_stage := True, usable := True\<rparr>" and cm: "commit g (e_commit a) s2 = (Inr (), s)"
    unfolding enter_body_def thenS_ok bindS_ok liftS_ok modifyS_run by (auto simp only: session.simps)
  from enter_cache_ok [OF c] s2 have s2': "usable s2" "\<not> failed s2" "counted s2 = 0" "summed s2 = 0" "known s2 = Some (sha (published s2))" "\<not> staging s2" "published s2 = c"
    by (simp_all add: new_session_def)
  have "readable g s2" by (simp add: readable_def s2' m)
  then show ?thesis using commit_run [OF cm assms(2)] s2'
    by (auto simp: session_agrees_def unusable_def handed_bytes_def MAX_REQUESTS_def MAX_TRANSFER_def)
qed

text \<open>C206: A session, over every sequence of operations and whatever the files, the clocks and the client answer: it hands out at
  most 256 results and at most 320 MiB of targets, nothing after a failure or \<open>close\<close>, and the checkpoint it leaves in
  the cache can always be read back; provided the client's check of a target compares its length.\<close>

theorem session_run_bounded:
  assumes "enter g cache a (new_session disk) = (Inr (), s)" "run_of (session_step g) s ops = (obs, t)" "2 \<le> g_depth g" "verifies_length g"
  shows "int (length obs) \<le> MAX_REQUESTS \<and> handed_bytes obs \<le> MAX_TRANSFER
    \<and> is_ok (decode_checkpoint (g_depth g) (published t)) \<and> (unusable t \<longrightarrow> fst (run_of (session_step g) t later) = [])"
proof -
  have "session_agrees g ([] @ obs) t" using enter_ok [OF assms(1,3)] assms(2) by (intro sessions.agrees_run) auto
  then have "int (length obs) \<le> MAX_REQUESTS \<and> handed_bytes obs \<le> MAX_TRANSFER \<and> readable g t" using assms(3,4) by (simp add: session_agrees_def)
  moreover have "fst (run_of (session_step g) t later) = []" if "unusable t"
    using unusable_run [OF that] by (cases "run_of (session_step g) t later") auto
  ultimately show ?thesis by (simp add: readable_def)
qed

lemma retain_expiries: "retain header base m = Inr t \<Longrightarrow> set (map fst m) \<subseteq> set (map fst (t_expiries t))"
proof -
  have same: "retain_alias base name raw a al = Inr b \<Longrightarrow> t_expiries b = t_expiries a" for name raw a al b
    by (auto simp: retain_alias_def split: option.splits if_splits)
  have keys: "set (map fst (dict_set k v d)) = insert k (set (map fst d))" for k v and d :: "(pystr \<times> int) list"
    by (induction k v d rule: dict_set.induct) auto
  have "set (map fst m) \<union> set (map fst (t_expiries a)) \<subseteq> set (map fst (t_expiries t))" if "foldE (retain_one header base) a m = Inr t" for a m
    using that
  proof (induction m arbitrary: a)
    case (Cons nr m)
    obtain name raw where nr: "nr = (name, raw)" by (cases nr)
    from Cons.prems obtain b where b: "retain_one header base a nr = Inr b" and m: "foldE (retain_one header base) b m = Inr t" by (auto simp: bindE_eq_Inr)
    from b obtain version expires where f: "foldE (retain_alias base name raw) (a\<lparr>t_expiries := dict_set name expires (t_expiries a)\<rparr>) [name, str_int version @ [46] @ name] = Inr b"
      by (auto simp: retain_one_def nr bindE_eq_Inr)
    have "t_expiries b = dict_set name expires (t_expiries a)"
      by (rule foldE_invariant [OF f, where P = "\<lambda>x. t_expiries x = dict_set name expires (t_expiries a)"]) (use same in auto)
    then have "set (map fst (t_expiries b)) = insert name (set (map fst (t_expiries a)))" by (simp only: keys)
    with Cons.IH [OF m] show ?case by (auto simp: nr)
  qed simp
  then show "retain header base m = Inr t \<Longrightarrow> ?thesis" by (auto simp: retain_def)
qed

lemma retained_all_expiries: "retained_all urls t = (rs, t') \<Longrightarrow> t_expiries t' = t_expiries t"
proof (induction urls arbitrary: t rs)
  case (Cons url urls)
  obtain r t1 where f: "retained_fetch url t = (r, t1)" by (cases "retained_fetch url t")
  have "t_expiries (snd (retained_fetch url t)) = t_expiries t"
    by (cases "map_of (t_files t) url")
      (auto simp: retained_fetch_def thenS_def bindS_def modifyS_def invalidS_def getS_def liftS_def ret_def download_error_def invalid_def split: sum.splits prod.splits)
  then have "t_expiries t1 = t_expiries t" by (simp add: f)
  moreover obtain rs' t2 where "retained_all urls t1 = (rs', t2)" by (cases "retained_all urls t1")
  ultimately show ?case using Cons f by auto
qed simp

text \<open>C40: A revalidation returns a time still ahead of the wall clock, which did not run backwards, and no later than the expiry of
  any top-level role of the checkpoint the session published last and the cache held before and after; a fresh
  verifier over that metadata knows the target and accepts exactly these bytes.\<close>

theorem revalidation_current:
  assumes "revalidate_target g path raw a s = (Inr e, t)"
  shows "\<not> unusable s \<and> r_before a \<le> r_after a \<and> r_after a < e \<and> \<not> expired g (r_end a)
    \<and> (\<exists>checkpoint m kept. read_cache (g_euid g) (r_checkpoint a) MAX_CHECKPOINT = Inr checkpoint \<and> known s = Some (sha checkpoint)
       \<and> (\<exists>again. read_cache (g_euid g) (r_checkpoint2 a) MAX_CHECKPOINT = Inr again \<and> sha again = sha checkpoint)
       \<and> decode_checkpoint (g_depth g) checkpoint = Inr m \<and> retain (r_header a) (g_metadata_url g) m = Inr kept
       \<and> (\<exists>x1 x2 x3 x4. map (map_of (t_expiries kept)) top_roles = [Some x1, Some x2, Some x3, Some x4] \<and> e \<le> x1 \<and> e \<le> x2 \<and> e \<le> x3 \<and> e \<le> x4)
       \<and> (\<exists>found. r_info a (fst (retained_all (r_urls a) kept)) = Inr (Some found) \<and> g_verify g found raw = Inr ()))"
proof -
  from session_guarded [OF assms [unfolded revalidate_target_def]] have u: "\<not> unusable s" and b: "revalidate_body g path raw a s = (Inr e, t)" by auto
  let ?s = "s\<lparr>counted := counted s + 1\<rparr>"
  from b obtain c c2 where
    c': "retained_checkpoint g (known ?s) (r_checkpoint a) (r_identity a) ''retained checkpoint changed during session'' ''repository cache identity changed during session'' = Inr c"
      "bindE (decode_checkpoint (g_depth g) c) (fresh_expiry g raw a) = Inr e"
      "retained_checkpoint g (known ?s) (r_checkpoint2 a) (r_identity2 a) ''retained checkpoint changed during revalidation'' ''repository cache identity changed during revalidation'' = Inr c2"
    and w: "\<not> r_after a < r_before a" "\<not> r_after a \<ge> e" "\<not> expired g (r_end a)"
    unfolding revalidate_body_def thenS_ok bindS_ok invalidS_ok liftS_ok modifyS_run getS_run ret_run by (auto simp only: Inr_inject)
  have "known ?s = known s" by simp
  note c = c' [unfolded this]
  from c(1) have k: "read_cache (g_euid g) (r_checkpoint a) MAX_CHECKPOINT = Inr c" "known s = Some (sha c)"
    by (auto simp: retained_checkpoint_def bindE_eq_Inr split: if_splits)
  from c(3) k(2) have k2: "read_cache (g_euid g) (r_checkpoint2 a) MAX_CHECKPOINT = Inr c2 \<and> sha c2 = sha c"
    by (auto simp: retained_checkpoint_def bindE_eq_Inr split: if_splits)
  from c(2) obtain m where m: "decode_checkpoint (g_depth g) c = Inr m" "fresh_expiry g raw a m = Inr e" by (auto simp: bindE_eq_Inr)
  from m(2) obtain kept where kept: "retain (r_header a) (g_metadata_url g) m = Inr kept" by (auto simp: fresh_expiry_def bindE_eq_Inr)
  obtain answers kept' where all: "retained_all (r_urls a) kept = (answers, kept')" by fastforce
  from m(2) kept all obtain found where f: "set top_roles \<subseteq> set (map fst m)" "r_info a answers = Inr (Some found)" "g_verify g found raw = Inr ()"
    "e = Min (set (map (\<lambda>n. the (map_of (t_expiries kept') n)) (top_roles @ t_used kept')))"
    by (auto simp: fresh_expiry_def fresh_target_def bindE_eq_Inr split: if_splits option.splits)
  have le: "e \<le> the (map_of (t_expiries kept) n)" if "n \<in> set top_roles" for n
    unfolding f(4) retained_all_expiries [OF all] using that by (intro Min_le) auto
  have some: "\<exists>x. map_of (t_expiries kept) n = Some x" if "n \<in> set top_roles" for n
    using f(1) retain_expiries [OF kept] that by (metis map_of_eq_None_iff not_None_eq set_map subsetD)
  have roles: "\<exists>x1 x2 x3 x4. map (map_of (t_expiries kept)) top_roles = [Some x1, Some x2, Some x3, Some x4] \<and> e \<le> x1 \<and> e \<le> x2 \<and> e \<le> x3 \<and> e \<le> x4"
  proof -
    have "\<exists>x. map_of (t_expiries kept) n = Some x \<and> e \<le> x" if "n \<in> set top_roles" for n using le [OF that] some [OF that] by auto
    then have "list_all (\<lambda>n. \<exists>x. map_of (t_expiries kept) n = Some x \<and> e \<le> x) top_roles" by (simp add: list_all_iff)
    then show ?thesis by (auto simp: top_roles_def)
  qed
  have found_ok: "r_info a (fst (retained_all (r_urls a) kept)) = Inr (Some found)" using f(2) all by simp
  show ?thesis using u w k k2 m(1) kept roles found_ok f(3)
    by (intro conjI exI [of _ c] exI [of _ m] exI [of _ kept] exI [of _ c2] exI [of _ found]) (auto simp: not_le not_less)
qed

section \<open>Examples\<close>

text \<open>A session over a cache with the four top-level roles, whose one target is downloaded and then revalidated.\<close>

definition ex_pair :: metadata where
  "ex_pair = map (\<lambda>(n, b). (u n, [b])) [(''root.json'', 1), (''timestamp.json'', 2), (''snapshot.json'', 3), (''targets.json'', 4)]"

definition ex_raw :: pybytes where
  "ex_raw = canonical (checkpoint_val ex_pair)"

lemma ex_encoded: "encode_checkpoint ex_pair = Inr ex_raw"
proof -
  have "list_all (\<lambda>p. metadata_name (fst p)) ex_pair" by code_simp
  then show ?thesis by (simp add: encode_checkpoint_ok ex_pair_def ex_raw_def MAX_METADATA_def)
qed

definition ex_sorted :: metadata where
  "ex_sorted = map (\<lambda>(n, b). (u n, [b])) [(''root.json'', 1), (''snapshot.json'', 3), (''targets.json'', 4), (''timestamp.json'', 2)]"

lemma ex_decoded: "decode_checkpoint 5 ex_raw = Inr ex_sorted"
proof -
  have "distinct (map fst ex_pair)" by code_simp
  moreover have "sorted_items ex_pair = ex_sorted" by code_simp
  ultimately show ?thesis using encoded_read_back [OF ex_encoded, of 5] by simp
qed

lemma ex_length: "0 < length ex_raw \<and> length ex_raw < 1000"
  by code_simp

definition ex_dir :: stat_info where
  "ex_dir = \<lparr>st_dev = 1, st_ino = 2, st_mode = 16832, st_nlink = 2, st_uid = 0, st_gid = 0, st_size = 0, st_mtime = 5, st_ctime = 5\<rparr>"

definition ex_file :: "int \<Rightarrow> stat_info" where
  "ex_file n = \<lparr>st_dev = 1, st_ino = 3, st_mode = 33152, st_nlink = 1, st_uid = 0, st_gid = 0, st_size = n, st_mtime = 5, st_ctime = 5\<rparr>"

lemma ex_private: "private_to 0 True ex_dir = Inr ()" "private_to 0 False (ex_file n) = Inr ()" "st_size (ex_file n) = n"
  by (simp_all add: private_to_def ex_dir_def ex_file_def S_ISDIR_def S_ISREG_def)

definition ex_view :: cache_view where
  "ex_view = \<lparr>v_dir = Inr ex_dir, v_names = Inr [], v_stat = (\<lambda>_. Inl OSError), v_unlink = (\<lambda>_. Inr ()), v_held = Inr (ex_file 0), v_named = Inr (ex_file 0)\<rparr>"

lemma ex_checked: "check_cache 0 ex_view = Inr ()"
  by (simp add: check_cache_def ex_view_def ex_private)

definition ex_cached :: "pybytes \<Rightarrow> cached" where
  "ex_cached raw = \<lparr>c_before = Inr (ex_file (int (length raw))), c_chunk = (\<lambda>n. Inr (if n = 0 then raw else [])), c_after = Inr (ex_file (int (length raw)))\<rparr>"

lemma ex_read_cache:
  assumes "raw \<noteq> []" "length raw \<le> 1024 * 1024" "length raw \<le> limit"
  shows "read_cache 0 (ex_cached raw) limit = Inr raw"
proof -
  have "take (min 1048576 (Suc limit)) raw = raw" using assms by simp
  then have "read_all (\<lambda>n. min (1024 * 1024) (limit + 1 - n)) (\<lambda>n. Inr (if n = 0 then raw else [])) limit msg 0 [] = Inr raw" for msg
    using assms by (simp add: read_all.simps)
  then show ?thesis using assms by (simp add: read_cache_def ex_cached_def ex_private)
qed

definition ex_files :: "pybytes \<Rightarrow> files" where
  "ex_files b = \<lparr>cwd = u ''/root'', walk = (\<lambda>_. Inr ()), peek = (\<lambda>_. Inr ()), stat_first = (\<lambda>_. Inr (ex_file 1)), stat_last = (\<lambda>_. Inr (ex_file 1)),
     chunk = (\<lambda>p n. Inr (if n = 0 then (case map_of ex_pair (List.last p) of None \<Rightarrow> b | Some x \<Rightarrow> x) else []))\<rparr>"

lemma ex_read_file:
  assumes "open_below (ex_files b) (parent_of path) (path_name path) = Inr p" "(case map_of ex_pair (List.last p) of None \<Rightarrow> b | Some x \<Rightarrow> x) = [x]" "1 \<le> limit"
  shows "read_file (ex_files b) path limit None = Inr [x]"
proof -
  have "read_all (\<lambda>n. min (1024 * 1024) (limit + 1 - n)) (\<lambda>n. Inr (if n = 0 then [x] else [])) limit msg 0 [] = Inr [x]" for msg
    using assms(3) by (simp add: read_all.simps)
  then show ?thesis using assms by (simp add: read_file_def read_at_def read_stable_def ex_files_def ex_file_def S_ISREG_def unowned_def cong: if_cong)
qed

definition ex_identity :: pyval where
  "ex_identity = PDict [(u ''metadata_url'', PStr (u ''https://h/m/'')), (u ''schema'', PStr (u ''org.niaos.repository-cache/v1''))]"

lemma ex_id: "(case parse_json 5 (canonical ex_identity) of Inr v \<Rightarrow> py_eq v ex_identity | _ \<Rightarrow> False)"
  by code_simp


lemma then_invalid: "thenS (invalidS bad msg) m s = (if bad s then (invalid msg, s) else m s)"
  by (simp add: thenS_def bindS_def invalidS_def invalid_def)

lemma bind_ran: "m s = (Inr x, s') \<Longrightarrow> bindS m f s = f x s'"
  by (simp add: bindS_def)

lemma then_ran: "m s = (Inr (), s') \<Longrightarrow> thenS m f s = f s'"
  by (simp add: thenS_def bindS_def)

definition ex_hash :: pyval where
  "ex_hash = PStr (replicate 64 49)"

definition ex_setting :: setting where
  "ex_setting = \<lparr>g_euid = 0, g_depth = 5, g_identity = ex_identity, g_metadata_url = u ''https://h/m/'', g_stage = u ''/tmp/s'', g_started = 0,
     g_verify = (\<lambda>info raw. if fst info = PInt (int (length raw)) then Inr () else invalid ''length'')\<rparr>"

definition ex_commit :: commit_answers where
  "ex_commit = \<lparr>m_cache = ex_view, m_names = Inr (map fst ex_pair), m_files = ex_files [], m_create = Inr (), m_write = Inr (), m_replace = (Inr (), True), m_sync = Inr (), m_unlink = Inr ()\<rparr>"

definition ex_close :: close_answers where
  "ex_close = \<lparr>x_stage = Inr (), x_lock = Inr (), x_directory = Inr (), x_fetcher = Inr ()\<rparr>"

definition ex_enter :: enter_answers where
  "ex_enter = \<lparr>e_files = ex_files [], e_dir = Inr ex_dir, e_open = Inr (), e_lock = Inr (ex_file 0), e_flock = Inr (), e_cache = ex_view,
     e_identity = ex_cached (canonical ex_identity), e_checkpoint = ex_cached ex_raw, e_stage = Inr (), e_writes = (\<lambda>_. example_writes), e_fetcher = Inr (), e_updater = Inr (),
     e_refresh = Inr (), e_commit = ex_commit, e_close = ex_close\<rparr>"

lemma ex_staged: "staged ex_setting ex_commit = Inr ex_raw"
proof -
  have r: "read_file (ex_files []) (u ''/tmp/s'' @ [47] @ u n) MAX_METADATA None = Inr [b]"
    if "(n, b) \<in> set [(''root.json'', 1), (''timestamp.json'', 2), (''snapshot.json'', 3), (''targets.json'', 4)]" for n b
  proof (rule ex_read_file)
    have "list_all (\<lambda>(n, b). open_below (ex_files []) (parent_of (u ''/tmp/s'' @ [47] @ u n)) (path_name (u ''/tmp/s'' @ [47] @ u n)) = Inr [u ''tmp'', u ''s'', u n]
      \<and> map_of ex_pair (u n) = Some [b]) [(''root.json'', 1), (''timestamp.json'', 2), (''snapshot.json'', 3), (''targets.json'', 4)]" by code_simp
    then have o: "open_below (ex_files []) (parent_of (u ''/tmp/s'' @ [47] @ u n)) (path_name (u ''/tmp/s'' @ [47] @ u n)) = Inr [u ''tmp'', u ''s'', u n] \<and> map_of ex_pair (u n) = Some [b]"
      using that unfolding list_all_iff by fastforce
    then show "open_below (ex_files []) (parent_of (u ''/tmp/s'' @ [47] @ u n)) (path_name (u ''/tmp/s'' @ [47] @ u n)) = Inr [u ''tmp'', u ''s'', u n]" by simp
    show "(case map_of ex_pair (List.last [u ''tmp'', u ''s'', u n]) of None \<Rightarrow> [] | Some x \<Rightarrow> x) = [b]" using o by simp
  qed (simp add: MAX_METADATA_def)
  have "mapE (\<lambda>name. bindE (read_file (ex_files []) (u ''/tmp/s'' @ [47] @ name) MAX_METADATA None) (\<lambda>raw. Inr (name, raw))) (map fst ex_pair) = Inr ex_pair"
    using r unfolding ex_pair_def by simp
  moreover have "foldl (\<lambda>d p. dict_set (fst p) (snd p) d) [] ex_pair = ex_pair" by code_simp
  moreover have "length ex_pair = 4" by (simp add: ex_pair_def)
  ultimately show ?thesis using ex_encoded by (simp add: staged_def ex_setting_def ex_commit_def)
qed

lemma ex_commit_same: "known s = Some (sha ex_raw) \<Longrightarrow> commit ex_setting ex_commit s = (Inr (), s)"
proof -
  have "check_cache (g_euid ex_setting) (m_cache ex_commit) = Inr ()" using ex_checked by (simp add: ex_setting_def ex_commit_def)
  then show "known s = Some (sha ex_raw) \<Longrightarrow> commit ex_setting ex_commit s = (Inr (), s)"
    by (simp add: commit_def run_eqs ex_staged)
qed

lemma ex_caches: "read_cache 0 (ex_cached ex_raw) MAX_CHECKPOINT = Inr ex_raw" "\<exists>v. bindE (read_cache 0 (ex_cached (canonical ex_identity)) 8192) (parse_json 5) = Inr v \<and> py_eq v ex_identity"
proof -
  show "read_cache 0 (ex_cached ex_raw) MAX_CHECKPOINT = Inr ex_raw" using ex_length by (intro ex_read_cache) (auto simp: MAX_CHECKPOINT_def)
  have "canonical ex_identity \<noteq> [] \<and> length (canonical ex_identity) < 1000" by code_simp
  then have "read_cache 0 (ex_cached (canonical ex_identity)) 8192 = Inr (canonical ex_identity)" by (intro ex_read_cache) auto
  then show "\<exists>v. bindE (read_cache 0 (ex_cached (canonical ex_identity)) 8192) (parse_json 5) = Inr v \<and> py_eq v ex_identity"
    using ex_id by (cases "parse_json 5 (canonical ex_identity)") auto
qed

definition ex_session :: session where
  "ex_session = \<lparr>usable = True, failed = False, opened = True, locked = True, has_stage = True, counted = 0, summed = 0,
     known = Some (sha ex_raw), staging = False, published = ex_raw\<rparr>"

lemma ex_entered: "enter ex_setting (u ''/c'') ex_enter (new_session []) = (Inr (), ex_session)"
proof -
  have d: "directory_fd (ex_files []) (u ''/c'') = Inr [u ''c'']" by code_simp
  have w: "eachE (\<lambda>(name, raw). fst (write_new (ex_files []) example_writes (u ''/tmp/s'' @ [47] @ name) raw)) ex_sorted = Inr ()" by code_simp
  have c: "enter_cache ex_setting (u ''/c'') ex_enter (new_session []) = (Inr ex_raw, (new_session [])\<lparr>opened := True, locked := True\<rparr>)"
    using ex_caches ex_checked d
    by (auto simp: enter_cache_def run_eqs then_invalid ex_setting_def ex_enter_def ex_private)
  have g: "g_depth ex_setting = 5" "g_stage ex_setting = u ''/tmp/s''" and e: "e_stage ex_enter = Inr ()" "e_files ex_enter = ex_files []" "e_writes ex_enter name = example_writes"
    "e_fetcher ex_enter = Inr ()" "e_updater ex_enter = Inr ()" "e_refresh ex_enter = Inr ()" "e_commit ex_enter = ex_commit" for name
    by (simp_all add: ex_setting_def ex_enter_def)
  have "enter_body ex_setting (u ''/c'') ex_enter (new_session []) = commit ex_setting ex_commit ex_session"
    unfolding enter_body_def bind_ran [where m = "enter_cache ex_setting (u ''/c'') ex_enter" and s = "new_session []", OF c] using w by (simp add: run_eqs g e ex_decoded ex_session_def new_session_def)
  then show ?thesis using ex_commit_same [of ex_session] by (simp add: enter_def exceptS_def then_invalid new_session_def ex_session_def)
qed


definition ex_target :: target_answers where
  "ex_target = \<lparr>t_now = 1, t_cache = ex_view, t_info = Inr (Some (PInt 1, ex_hash)), t_download = Inr (), t_output = ex_files [9], t_artifact = u ''/tmp/t/artifact'', t_cleanup = Inr (),
     t_commit = ex_commit, t_end = 2\<rparr>"

definition ex_revalidate :: revalidate_answers where
  "ex_revalidate = \<lparr>r_now = 3, r_before = 100, r_cache = ex_view, r_checkpoint = ex_cached ex_raw, r_identity = ex_cached (canonical ex_identity),
     r_header = (\<lambda>raw. Inr (1, 1000 + int (length raw))), r_writes = Inr (), r_urls = [u ''https://h/m/timestamp.json'', u ''https://h/m/1.targets.json''], r_refresh = (\<lambda>_. Inr ()),
     r_info = (\<lambda>answers. Inr (if list_all is_ok answers then Some (PInt 1, ex_hash) else None)), r_cleanup = Inr (), r_cache2 = ex_view, r_checkpoint2 = ex_cached ex_raw,
     r_identity2 = ex_cached (canonical ex_identity), r_after = 101, r_end = 4\<rparr>"

lemma ex_digest: "digest ex_hash = Inr (replicate 64 49)"
  by code_simp

lemma ex_targeted: "target ex_setting (u ''a/b'') 10 ex_target ex_session = (Inr [9], ex_session\<lparr>counted := 1, summed := 1\<rparr>)"
proof -
  have p: "target_path (u ''a/b'') = Inr (u ''a/b'')" by code_simp
  have o: "open_below (ex_files [9]) (parent_of (u ''/tmp/t/artifact'')) (path_name (u ''/tmp/t/artifact'')) = Inr (map u [''tmp'', ''t'', ''artifact''])
    \<and> map_of ex_pair (u ''artifact'') = None" by code_simp
  then have f: "read_file (ex_files [9]) (u ''/tmp/t/artifact'') 10 None = Inr [9]" by (intro ex_read_file) auto
  have "target_raw ex_setting 10 (1, ex_hash) ex_target = Inr [9]"
    by (simp add: target_raw_def cleaned_def ex_setting_def ex_target_def f)
  moreover have "bindE (t_info ex_target) (target_info 10) = Inr (1, ex_hash)" by (simp add: ex_target_def target_info_def target_length_def ex_digest)
  moreover have "check_cache (g_euid ex_setting) (t_cache ex_target) = Inr ()" using ex_checked by (simp add: ex_setting_def ex_target_def)
  moreover have "\<not> expired ex_setting (t_now ex_target)" "\<not> expired ex_setting (t_end ex_target)" by (simp_all add: expired_def ex_setting_def ex_target_def MAX_SESSION_def)
  moreover have "integer (PInt 10) 1 MAX_TARGET ''target byte limit'' = Inr 10" by code_simp
  moreover have "commit ex_setting (t_commit ex_target) s = (Inr (), s)" if "known s = Some (sha ex_raw)" for s using ex_commit_same [OF that] by (simp add: ex_target_def)
  ultimately have "target_body ex_setting (u ''a/b'') 10 ex_target ex_session = (Inr [9], ex_session\<lparr>counted := 1, summed := 1\<rparr>)"
    by (simp add: target_body_def run_eqs then_invalid then_ran p ex_session_def MAX_REQUESTS_def MAX_TRANSFER_def)
  then show ?thesis by (simp add: target_def then_invalid exceptS_def unusable_def ex_session_def)
qed

lemma ex_fresh: "fresh_expiry ex_setting [7] ex_revalidate ex_sorted = Inr 1001"
  by code_simp

lemma ex_revalidated:
  assumes "known s = Some (sha ex_raw)" "usable s" "\<not> failed s" "counted s < 256"
  shows "revalidate_target ex_setting (u ''a/b'') [7] ex_revalidate s = (Inr 1001, s\<lparr>counted := counted s + 1\<rparr>)"
proof -
  have p: "target_path (u ''a/b'') = Inr (u ''a/b'')" by code_simp
  have c: "retained_checkpoint ex_setting (Some (sha ex_raw)) (ex_cached ex_raw) (ex_cached (canonical ex_identity)) m1 m2 = Inr ex_raw" for m1 m2
    using ex_caches by (auto simp: retained_checkpoint_def ex_setting_def)
  have "check_cache (g_euid ex_setting) (r_cache ex_revalidate) = Inr ()" "check_cache (g_euid ex_setting) (r_cache2 ex_revalidate) = Inr ()"
    using ex_checked by (simp_all add: ex_setting_def ex_revalidate_def)
  moreover have "retained_checkpoint ex_setting (Some (sha ex_raw)) (r_checkpoint ex_revalidate) (r_identity ex_revalidate) m1 m2 = Inr ex_raw"
    "retained_checkpoint ex_setting (Some (sha ex_raw)) (r_checkpoint2 ex_revalidate) (r_identity2 ex_revalidate) m1 m2 = Inr ex_raw" for m1 m2
    using c by (simp_all add: ex_revalidate_def)
  moreover have "\<not> expired ex_setting (r_now ex_revalidate)" "\<not> expired ex_setting (r_end ex_revalidate)" "r_before ex_revalidate = 100" "r_after ex_revalidate = 101"
    by (simp_all add: expired_def ex_setting_def ex_revalidate_def MAX_SESSION_def)
  moreover have "decode_checkpoint (g_depth ex_setting) ex_raw = Inr ex_sorted" using ex_decoded by (simp add: ex_setting_def)
  ultimately have "revalidate_body ex_setting (u ''a/b'') [7] ex_revalidate s = (Inr 1001, s\<lparr>counted := counted s + 1\<rparr>)"
    using assms by (simp add: revalidate_body_def run_eqs then_invalid p ex_fresh MAX_REQUESTS_def MAX_TARGET_def)
  then show ?thesis using assms by (simp add: revalidate_target_def then_invalid exceptS_def unusable_def)
qed

lemma ex_ran: "run_of (session_step ex_setting) ex_session [Target (u ''a/b'') 10 ex_target, Revalidate (u ''a/b'') [7] ex_revalidate]
    = ([Bytes [9], Until 1001], ex_session\<lparr>counted := 2, summed := 1\<rparr>)"
proof -
  have "revalidate_target ex_setting (u ''a/b'') [7] ex_revalidate (ex_session\<lparr>counted := 1, summed := 1\<rparr>) = (Inr 1001, ex_session\<lparr>counted := 2, summed := 1\<rparr>)"
    by (subst ex_revalidated) (simp_all add: ex_session_def)
  then show ?thesis by (simp add: session_step_def result_of_def ex_targeted)
qed

theorem session_run_bounded_witness:
  "int (length [Bytes [9], Until 1001]) \<le> MAX_REQUESTS \<and> handed_bytes [Bytes [9], Until 1001] \<le> MAX_TRANSFER \<and> is_ok (decode_checkpoint 5 ex_raw)"
proof -
  have "verifies_length ex_setting" by (auto simp: verifies_length_def ex_setting_def invalid_def)
  moreover have "2 \<le> g_depth ex_setting" "g_depth ex_setting = 5" by (simp_all add: ex_setting_def)
  ultimately show ?thesis using session_run_bounded [OF ex_entered ex_ran] by (simp add: ex_session_def)
qed

theorem revalidation_current_witness:
  "\<exists>e m kept. revalidate_target ex_setting (u ''a/b'') [7] ex_revalidate ex_session = (Inr e, ex_session\<lparr>counted := 1\<rparr>) \<and> 101 < e
     \<and> retain (r_header ex_revalidate) (g_metadata_url ex_setting) m = Inr kept \<and> (\<exists>x. map_of (t_expiries kept) (u ''root.json'') = Some x \<and> e \<le> x)"
proof -
  have run: "revalidate_target ex_setting (u ''a/b'') [7] ex_revalidate ex_session = (Inr 1001, ex_session\<lparr>counted := 1\<rparr>)"
    by (subst ex_revalidated) (simp_all add: ex_session_def)
  from revalidation_current [OF run] obtain m kept where "r_after ex_revalidate < 1001" "retain (r_header ex_revalidate) (g_metadata_url ex_setting) m = Inr kept"
    "\<exists>x. map_of (t_expiries kept) (u ''root.json'') = Some x \<and> 1001 \<le> x" by (auto simp: top_roles_def)
  with run show ?thesis by (intro exI [of _ 1001] exI [of _ m] exI [of _ kept]) (simp add: ex_revalidate_def)
qed

definition ex_response :: response where
  "ex_response = \<lparr>p_now = 1, p_answer = Inr (200, None), p_read = (\<lambda>n. Inr (if n = 0 then [1, 2] else [])), p_times = (\<lambda>_. 2)\<rparr>"

theorem fetcher_bounded_witness:
  "let (out, f) = fetches (\<lambda>e. e = OSError) \<lparr>f_bases = [u ''https://h/m/'', u ''https://h/t/''], f_started = 0, f_requests = 0, f_bytes = 0\<rparr>
       [(u ''https://h/m/a'', ex_response), (u ''https://x/'', ex_response)] in
   yielding out = [(u ''https://h/m/a'', [[1, 2]])] \<and> yielded out \<le> MAX_TRANSFER \<and> int (length (yielding out)) \<le> MAX_REQUESTS"
proof -
  let ?f = "\<lparr>f_bases = [u ''https://h/m/'', u ''https://h/t/''], f_started = 0, f_requests = 0, f_bytes = 0\<rparr>"
  have new: "new_fetcher (\<lambda>_. False) (u ''https://h/m'') (u ''https://h/t/'') 0 = Inr ?f" by code_simp
  have i: "inside [u ''https://h/m/'', u ''https://h/t/''] (u ''https://h/m/a'')" "\<not> inside [u ''https://h/m/'', u ''https://h/t/''] (u ''https://x/'')" by code_simp+
  have "stream_chunks ex_response 0 0 0 = ([[1, 2]], Inr (), 2)" by (simp add: stream_chunks.simps ex_response_def MAX_TRANSFER_def MAX_SESSION_def)
  then obtain f' where run: "fetches (\<lambda>e. e = OSError) ?f [(u ''https://h/m/a'', ex_response), (u ''https://x/'', ex_response)]
      = ([(u ''https://h/m/a'', [[1, 2]]), (u ''https://x/'', [])], f')"
    using i by (simp add: fetch_def stream_def Let_def ex_response_def MAX_REQUESTS_def MAX_SESSION_def)
  with fetcher_bounded [OF new run] show ?thesis by (simp add: yielding_def)
qed

end
