(* ===== verification/Spec2Isabelle.thy ===== *)
theory Spec2Isabelle
  imports Debian_Semantics Nia_Layout Nia_Policy Debian_Trigger_State Deb_Control Debian_Archive_Auth Nia_Xfs Native_Helper
    Operator_Guard Supply_Guard Root_Handoff Management_Grammar Plan_Consent Interim_Package Supply_Initialize Update_Metadata Management_Result Catalog_Query Nia_Files Reproducibility Repository
begin

text \<open>
  A model of the Python core of the distribution's tooling: what reads Debian packages, archives and
  policies on the build side (\<open>tools/\<close>) and what guards a privileged package operation on the
  installed system (\<open>native/\<close>). Every definition follows one function of the source, with its
  checks in the order the source has them; every exception is a value of \<open>'a res = exn + 'a\<close>.

  \<^bold>\<open>How the program fits together.\<close> A binary package is read by \<open>deb_archive.inspect_bytes\<close>, which
  composes the ar container, the decompressors, the two tar inventories, the control paragraph
  (\<open>deb822\<close>), the relationship fields (\<open>debian_semantics\<close>) and the trigger declarations
  (\<open>debian_triggers\<close>). \<open>debian_archive_auth\<close> ties such a package, or a source package, to a signed
  Release. \<open>debian_semantics.check_final\<close> decides whether a final set of packages is consistent,
  \<open>debian_trigger_state\<close> keeps what handlers are pending. \<open>update_metadata\<close> and \<open>interim_package\<close> use the
  same reader for uploads, advisories and interim fixes. On the installed system a command line is
  decoded by \<open>management_grammar\<close>; a read-only query runs the native catalogue reader
  (\<open>catalog_query\<close>) and returns its result sealed (\<open>management_result\<close>); a change is offered and
  confirmed (\<open>plan_consent\<close>), is allowed while the operator and the supply are observed
  (\<open>operator_guard\<close>, \<open>supply_guard\<close>, with the helpers of \<open>native_helper\<close>), and its worker hands its
  result over once (\<open>root_handoff\<close>). \<open>supply_initialize\<close> provisions the inputs the supply guard reads.
  \<open>repository\<close> keeps the authenticated supply cache that the remote intake reads its targets from, and
  \<open>reproducibility\<close> counts independent rebuilds of one exact artifact.

  \<^bold>\<open>Theories.\<close>
  \<^item> \<open>Prelude\<close>: results, loops that may raise, strings (\<open>pystr\<close>, code points) and bytes (\<open>pybytes\<close>,
    8-bit words), assoc lists for dictionaries; the collections the proofs use.
  \<^item> \<open>Py_Str\<close>, \<open>Py_Json\<close>, \<open>Py_Args\<close>, \<open>Py_Os\<close>, \<open>Py_Base64\<close>: the operations of the standard library that the code
    calls: string methods and codecs, \<open>json\<close> in both directions, \<open>getopt\<close> and \<open>shlex\<close>, \<open>stat\<close> results and paths,
    \<open>base64\<close> and \<open>bytes.fromhex\<close>.
  \<^item> \<open>Sha256\<close>, \<open>Sha256_Vector\<close>: \<open>hashlib.sha256\<close> in full, and digests computed inside the kernel for the
    examples. Nothing assumes that it has no collisions.
  \<^item> \<open>Nia_Common\<close>, \<open>Nia_Layout\<close>, \<open>Nia_Policy\<close>, \<open>Nia_Xfs\<close>: \<open>tools/nia_common.py\<close>, \<open>nia_layout.py\<close>,
    \<open>nia_policy.py\<close>, \<open>nia_xfs.py\<close>. What is accepted is characterised exactly.
  \<^item> \<open>Nia_Files\<close>: the files of \<open>nia_common.py\<close>, \<open>read_at\<close>, \<open>read_file\<close>, \<open>hash_file_at\<close> and \<open>write_new\<close>, over every
    answer of the operating system: what is read is one unchanged file, what is published is complete.
  \<^item> \<open>Reproducibility\<close>: \<open>tools/reproducibility.py\<close>. Receipts count only for this artifact and from distinct principals.
  \<^item> \<open>Debian_Semantics\<close>: \<open>tools/debian_semantics.py\<close>. The order of versions is a total preorder (the
    locale \<open>three_way\<close>, interpreted on it) and refines a comparison of token lists; \<open>check_final\<close> decides
    a declarative statement of consistency.
  \<^item> \<open>Debian_Triggers\<close>, \<open>Debian_Trigger_State\<close>: \<open>tools/debian_triggers.py\<close>, \<open>debian_trigger_state.py\<close>.
    Routing, the state and its transitions, every run against the books of its events, the checkpoint encoding.
  \<^item> \<open>Deb_Archive\<close>, \<open>Deb_Control\<close>, \<open>Deb_Tar\<close>, \<open>Deb_Inspect\<close>: \<open>tools/deb_archive.py\<close> and
    \<open>zstd_bounded.py\<close>. Containers, paragraphs, safe inventories, the observation of one package.
  \<^item> \<open>Debian_Archive_Auth\<close>: \<open>tools/debian_archive_auth.py\<close>. What an accepted Release, package and source
    are tied to.
  \<^item> \<open>Update_Metadata\<close>, \<open>Interim_Package\<close>: \<open>native/update_metadata.py\<close>, \<open>native/interim_package.py\<close>.
  \<^item> \<open>Native_State\<close>, \<open>Native_Observer\<close>, \<open>Native_Message\<close>: methods as functions from a state to a result
    and a state, the locale of numbered observers (interpreted on both guards), Unix messages.
  \<^item> \<open>Native_Helper\<close>, \<open>Operator_Guard\<close>, \<open>Supply_Guard\<close>, \<open>Root_Handoff\<close>, \<open>Plan_Consent\<close>,
    \<open>Management_Grammar\<close>, \<open>Management_Result\<close>, \<open>Catalog_Query\<close>, \<open>Supply_Initialize\<close>: the files of those
    names under \<open>native/\<close>. Their properties are about every sequence of operations and every answer
    of the operating system. In the grammar each partial operation (a dictionary or list access, \<open>next\<close>,
    \<open>int\<close>) has its exception as a result, and the lemmas show that no command line reaches one.
  \<^item> \<open>Tuf_Checkpoint\<close>, \<open>Repository\<close>: \<open>native/repository.py\<close>. The checkpoint of the metadata cache is read back as it
    was written; fetcher and session stay within their budgets over every run (the locale \<open>historied\<close>,
    interpreted on the session), and a revalidated target has a current expiry.

  \<^bold>\<open>What the lemmas show.\<close> For each reader: that an accepted value is well formed, and where the code
  has an encoder, that decoding and encoding are inverse. For each decision procedure: that it
  decides the stated relation. For each stateful class: an invariant kept by every method, failing ones
  included, and what a run can have handed out. A theorem with hypotheses is followed by a
  \<open>_witness\<close> that applies it to a concrete input.

  \<^bold>\<open>Bounds and fuel.\<close> Loops the source bounds keep its bound as fuel, and running out is the error the
  source raises: 1200 observations per guard (\<open>MAX_CHECKS\<close>), 1200 polls of \<open>root_handoff.wait\<close>, 1024
  reads of at most 64 KiB for the 64 MiB a sealed text may have, 2048 (results) and 256 (offers) writes,
  16384 turns of a query and lines of the mount table. The worklists and two-pointer loops without a
  bound are total functions with a measure. The depth at which \<open>json\<close> raises \<open>RecursionError\<close> is a
  parameter of the readers; the theorems hold for each value.

  \<^bold>\<open>Arguments of the model.\<close> What runs outside this code is an argument: decompressors, \<open>tarfile\<close>, \<open>gpgv\<close>,
  Ed25519, the TUF client and \<open>requests\<close>, date parsing, the Unicode table of categories, the clock, and the operating system's answer to
  each call. Nothing is assumed of them unless a theorem says so.

  \<^bold>\<open>Not modelled.\<close> The command lines (\<open>main\<close>) of the tools, help texts and translations, which only
  print. Static type annotations: parameters have the annotated type, except where the code itself
  tests it. Closing of read-only descriptors that nothing reads afterwards, unless its failure decides the
  result. The modules that only sequence privileged system calls (mount, freeze, partition, spawn)
  around a concrete block device, the client and server transports, the remaining archive
  services, the build recipes under \<open>image/\<close> and the recorded campaigns under \<open>evidence/\<close> are listed as not
  modelled in the manifest, each with its reason.
\<close>

end
